(* ===== verification/Prelude.thy ===== *)
theory Prelude
  imports Main "HOL-Library.Monad_Syntax" "HOL-Library.Multiset"
begin

text \<open>
  Shared ground of the development.

  Machine integers.  Go's \<open>int\<close>, \<open>int64\<close> and \<open>time.Duration\<close> (nanoseconds) are
  \<open>int\<close> values and Go's unsigned integers are \<open>nat\<close> values; wherever the source
  computes with them and the result could leave the type's range, the model applies the
  wrap-around (\<open>i64\<close>, \<open>u64\<close>, \<open>u64_sub\<close>, \<open>u32\<close>, \<open>u16\<close>)
  explicitly.

  Panics.  An operation that may panic returns an \<open>option\<close>; \<open>None\<close> is the panic, and
  the \<open>do\<close> notation of the library propagates it.
\<close>

named_theorems api_intros \<open>operations whose effect on the engine is a sequence of engine calls\<close>
named_theorems inv_intros \<open>operations that keep a component's invariant\<close>
named_theorems frame_simps \<open>fields an operation does not change\<close>

section \<open>Machine integers\<close>

type_synonym duration = int

definition max_i64 :: int where
  "max_i64 = 9223372036854775807"

definition i64 :: "int \<Rightarrow> int" where
  "i64 x = (x + 9223372036854775808) mod 18446744073709551616 - 9223372036854775808"

definition in_i64 :: "int \<Rightarrow> bool" where
  "in_i64 x \<longleftrightarrow> - 9223372036854775808 \<le> x \<and> x \<le> 9223372036854775807"

definition max_u64 :: nat where
  "max_u64 = 18446744073709551615"

definition u64 :: "nat \<Rightarrow> nat" where
  "u64 n = n mod 18446744073709551616"

definition u64_sub :: "nat \<Rightarrow> nat \<Rightarrow> nat" where
  "u64_sub a b = (a + (18446744073709551616 - b mod 18446744073709551616)) mod 18446744073709551616"

definition u32 :: "nat \<Rightarrow> nat" where
  "u32 n = n mod 4294967296"

definition u16 :: "nat \<Rightarrow> nat" where
  "u16 n = n mod 65536"

lemma i64_id [simp]: "in_i64 x \<Longrightarrow> i64 x = x"
  by (simp add: i64_def in_i64_def)

lemma i64_range: "in_i64 (i64 x)"
proof -
  have "0 \<le> (x + 9223372036854775808) mod 18446744073709551616"
    and "(x + 9223372036854775808) mod 18446744073709551616 < 18446744073709551616"
    by simp_all
  then show ?thesis unfolding i64_def in_i64_def by linarith
qed

lemma in_i64_between: "0 \<le> x \<Longrightarrow> x \<le> max_i64 \<Longrightarrow> in_i64 x"
  by (simp add: in_i64_def max_i64_def)

lemma in_i64_diff: "0 \<le> a \<Longrightarrow> a \<le> max_i64 \<Longrightarrow> 0 \<le> b \<Longrightarrow> b \<le> max_i64 \<Longrightarrow> in_i64 (a - b)"
  by (simp add: in_i64_def max_i64_def)

lemma u64_id [simp]: "n \<le> max_u64 \<Longrightarrow> u64 n = n"
  by (simp add: u64_def max_u64_def)

lemma u64_le [simp]: "u64 n \<le> max_u64"
proof -
  have "n mod 18446744073709551616 < 18446744073709551616" by simp
  then show ?thesis unfolding u64_def max_u64_def by linarith
qed

lemma u64_sub_le [simp]: "b \<le> a \<Longrightarrow> a \<le> max_u64 \<Longrightarrow> u64_sub a b = a - b"
proof -
  assume ab: "b \<le> a" and a: "a \<le> max_u64"
  from ab a have b: "b mod 18446744073709551616 = b"
    by (simp add: max_u64_def)
  have "a + (18446744073709551616 - b) = (a - b) + 18446744073709551616"
    using ab a by (simp add: max_u64_def)
  then have "u64_sub a b = (a - b) mod 18446744073709551616"
    by (simp add: u64_sub_def b)
  also have "\<dots> = a - b" using a by (simp add: max_u64_def)
  finally show ?thesis .
qed

lemma u64_sub_bound [simp]: "u64_sub a b \<le> max_u64"
proof -
  have "u64_sub a b < 18446744073709551616" by (simp add: u64_sub_def)
  then show ?thesis by (simp add: max_u64_def)
qed

lemma u16_id [simp]: "n < 65536 \<Longrightarrow> u16 n = n"
  by (simp add: u16_def)

lemma u32_id [simp]: "n < 4294967296 \<Longrightarrow> u32 n = n"
  by (simp add: u32_def)

text \<open>Go's integer division truncates towards zero.\<close>

definition go_div :: "int \<Rightarrow> int \<Rightarrow> int" where
  "go_div a b = sgn a * sgn b * (\<bar>a\<bar> div \<bar>b\<bar>)"

definition go_mod :: "int \<Rightarrow> int \<Rightarrow> int" where
  "go_mod a b = a - b * go_div a b"

lemma go_div_pos [simp]: "0 \<le> a \<Longrightarrow> 0 < b \<Longrightarrow> go_div a b = a div b"
  by (cases "a = 0") (simp_all add: go_div_def)

section \<open>Lists\<close>

lemma mset_list_update_swap:
  assumes "i < length xs" "j < length xs"
  shows "mset (xs[i := xs ! j, j := xs ! i]) = mset xs"
  using assms by (simp add: mset_swap)

lemma nth_swap:
  assumes "i < length xs" "j < length xs" "k < length xs"
  shows "xs[i := xs ! j, j := xs ! i] ! k = (if k = j then xs ! i else if k = i then xs ! j else xs ! k)"
  using assms by (simp add: nth_list_update)

lemma mset_butlast_last: "xs \<noteq> [] \<Longrightarrow> mset xs = add_mset (last xs) (mset (butlast xs))"
  by (metis append_butlast_last_id mset.simps(1,2) mset_append union_mset_add_mset_right add_0_right)

text \<open>An association list without duplicate keys, as a map whose iteration order is fixed.\<close>

lemma filter_key_absent: "p \<notin> fst ` set xs \<Longrightarrow> filter (\<lambda>(r, _). r \<noteq> p) xs = xs"
  by (induction xs) auto

lemma length_filter_key:
  "distinct (map fst xs) \<Longrightarrow> map_of xs p = Some w \<Longrightarrow>
   length xs = Suc (length (filter (\<lambda>(r, _). r \<noteq> p) xs))"
proof (induction xs)
  case (Cons a xs)
  then show ?case by (cases "fst a = p") (auto simp: filter_key_absent split: if_splits)
qed simp

lemma distinct_filter_key: "distinct (map fst xs) \<Longrightarrow> distinct (map fst (filter P xs))"
  by (induction xs) auto

end
