(* ===== verification/GoHeap.thy ===== *)
theory GoHeap
  imports Prelude
begin

text \<open>
  The binary heap of Go's \<open>container/heap\<close>, as the engine's \<open>eventQueue\<close> and the
  egress dispatcher's \<open>readyOutputs\<close> use it: an array of references and, for every
  reference, the position the array keeps it at (\<open>event.index\<close>,
  \<open>Output.readyIndex\<close>), maintained by \<open>Swap\<close>, \<open>Push\<close> and \<open>Pop\<close>.
  The locale \<open>heap_order\<close> proves the heap operations correct for every \<open>Less\<close> that
  compares keys of a linear order.
\<close>

record 'a goheap =
  arr :: "'a list"
  idx :: "nat \<Rightarrow> int"

definition heap_empty :: "'a goheap" where
  "heap_empty = \<lparr>arr = [], idx = (\<lambda>_. -1)\<rparr>"

definition heap_Swap :: "('a \<Rightarrow> nat) \<Rightarrow> nat \<Rightarrow> nat \<Rightarrow> 'a goheap \<Rightarrow> 'a goheap" where
  "heap_Swap ref i j h =
     h\<lparr>arr := (arr h)[i := arr h ! j, j := arr h ! i],
       idx := (idx h)(ref (arr h ! j) := int i, ref (arr h ! i) := int j)\<rparr>"

definition heap_append :: "('a \<Rightarrow> nat) \<Rightarrow> 'a \<Rightarrow> 'a goheap \<Rightarrow> 'a goheap" where
  "heap_append ref x h =
     h\<lparr>arr := arr h @ [x], idx := (idx h)(ref x := int (length (arr h)))\<rparr>"

definition heap_drop_last :: "('a \<Rightarrow> nat) \<Rightarrow> 'a goheap \<Rightarrow> 'a \<times> 'a goheap" where
  "heap_drop_last ref h =
     (last (arr h), h\<lparr>arr := butlast (arr h), idx := (idx h)(ref (last (arr h)) := -1)\<rparr>)"

definition heap_parent :: "nat \<Rightarrow> nat" where
  "heap_parent j = (j - 1) div 2"

lemma heap_parent_less: "0 < j \<Longrightarrow> heap_parent j < j"
  by (auto simp: heap_parent_def)

lemma heap_parent_0 [simp]: "heap_parent 0 = 0"
  by (simp add: heap_parent_def)

lemma heap_parent_le: "heap_parent j \<le> j"
  by (auto simp: heap_parent_def)

lemma heap_parent_eq: "0 < k \<Longrightarrow> heap_parent k = i \<longleftrightarrow> k = 2 * i + 1 \<or> k = 2 * i + 2"
  by (auto simp: heap_parent_def)

function heap_up :: "('a \<Rightarrow> 'a \<Rightarrow> bool) \<Rightarrow> ('a \<Rightarrow> nat) \<Rightarrow> nat \<Rightarrow> 'a goheap \<Rightarrow> 'a goheap" where
  "heap_up lt ref j h =
     (let i = heap_parent j in
      if i = j \<or> \<not> lt (arr h ! j) (arr h ! i) then h
      else heap_up lt ref i (heap_Swap ref i j h))"
  by pat_completeness auto
termination
proof (relation "measure (\<lambda>(lt, ref, j, h). j)", goal_cases)
  case 1 show ?case by simp
next
  case (2 lt ref j h i)
  then show ?case using heap_parent_le[of j] by auto
qed

declare heap_up.simps [simp del]

text \<open>The smaller of the children of \<open>i\<close> below \<open>n\<close>.\<close>

definition heap_child :: "('a \<Rightarrow> 'a \<Rightarrow> bool) \<Rightarrow> nat \<Rightarrow> nat \<Rightarrow> 'a goheap \<Rightarrow> nat" where
  "heap_child lt i n h =
     (let j1 = 2 * i + 1 in
      if j1 + 1 < n \<and> lt (arr h ! (j1 + 1)) (arr h ! j1) then j1 + 1 else j1)"

lemma heap_child_bounds:
  "2 * i + 1 < n \<Longrightarrow> heap_child lt i n h < n \<and> i < heap_child lt i n h"
  by (auto simp: heap_child_def Let_def)

lemma heap_child_parent: "heap_parent (heap_child lt i n h) = i"
  by (auto simp: heap_child_def heap_parent_def Let_def)

function heap_down ::
  "('a \<Rightarrow> 'a \<Rightarrow> bool) \<Rightarrow> ('a \<Rightarrow> nat) \<Rightarrow> nat \<Rightarrow> nat \<Rightarrow> 'a goheap \<Rightarrow> 'a goheap \<times> nat" where
  "heap_down lt ref i n h =
     (if n \<le> 2 * i + 1 then (h, i)
      else
        let j = heap_child lt i n h in
        if \<not> lt (arr h ! j) (arr h ! i) then (h, i)
        else heap_down lt ref j n (heap_Swap ref i j h))"
  by pat_completeness auto
termination
proof (relation "measure (\<lambda>(lt, ref, i, n, h). n - i)", goal_cases)
  case 1 show ?case by simp
next
  case (2 lt ref i n h j)
  then have "heap_child lt i n h < n \<and> i < heap_child lt i n h"
    using heap_child_bounds[of i n lt h] by simp
  with 2 show ?case by simp linarith
qed

declare heap_down.simps [simp del]

definition heap_Push :: "('a \<Rightarrow> 'a \<Rightarrow> bool) \<Rightarrow> ('a \<Rightarrow> nat) \<Rightarrow> 'a \<Rightarrow> 'a goheap \<Rightarrow> 'a goheap" where
  "heap_Push lt ref x h = heap_up lt ref (length (arr h)) (heap_append ref x h)"

definition heap_Pop ::
  "('a \<Rightarrow> 'a \<Rightarrow> bool) \<Rightarrow> ('a \<Rightarrow> nat) \<Rightarrow> 'a goheap \<Rightarrow> ('a \<times> 'a goheap) option" where
  "heap_Pop lt ref h =
     (if arr h = [] then None
      else
        let n = length (arr h) - 1;
            (h', _) = heap_down lt ref 0 n (heap_Swap ref 0 n h)
        in Some (heap_drop_last ref h'))"

definition heap_Remove ::
  "('a \<Rightarrow> 'a \<Rightarrow> bool) \<Rightarrow> ('a \<Rightarrow> nat) \<Rightarrow> int \<Rightarrow> 'a goheap \<Rightarrow> ('a \<times> 'a goheap) option" where
  "heap_Remove lt ref i h =
     (if i < 0 \<or> int (length (arr h)) \<le> i then None
      else
        let n = length (arr h) - 1; k = nat i in
        if n = k then Some (heap_drop_last ref h)
        else
          let (h', k') = heap_down lt ref k n (heap_Swap ref k n h);
              h'' = (if k < k' then h' else heap_up lt ref k h')
          in Some (heap_drop_last ref h''))"

section \<open>What every heap operation keeps, whatever the order\<close>

text \<open>Each reference in the array records its own position.\<close>

definition idx_ok :: "('a \<Rightarrow> nat) \<Rightarrow> 'a goheap \<Rightarrow> bool" where
  "idx_ok ref h \<longleftrightarrow> distinct (map ref (arr h)) \<and>
     (\<forall>i < length (arr h). idx h (ref (arr h ! i)) = int i) \<and>
     (\<forall>r. r \<notin> ref ` set (arr h) \<longrightarrow> idx h r = -1)"

lemma idx_ok_empty: "idx_ok ref heap_empty"
  by (simp add: idx_ok_def heap_empty_def)

lemma length_heap_Swap [simp]: "length (arr (heap_Swap ref i j h)) = length (arr h)"
  by (simp add: heap_Swap_def)

lemma mset_heap_Swap [simp]:
  "i < length (arr h) \<Longrightarrow> j < length (arr h) \<Longrightarrow> mset (arr (heap_Swap ref i j h)) = mset (arr h)"
  by (simp add: heap_Swap_def mset_list_update_swap)

lemma nth_heap_Swap:
  assumes "i < length (arr h)" "j < length (arr h)" "k < length (arr h)"
  shows "arr (heap_Swap ref i j h) ! k =
    (if k = j then arr h ! i else if k = i then arr h ! j else arr h ! k)"
  using assms by (simp add: heap_Swap_def nth_swap)

lemma idx_ok_Swap:
  assumes ok: "idx_ok ref h" and i: "i < length (arr h)" and j: "j < length (arr h)"
  shows "idx_ok ref (heap_Swap ref i j h)"
proof -
  let ?h = "heap_Swap ref i j h"
  have ms: "mset (arr ?h) = mset (arr h)" using i j by simp
  then have st: "set (arr ?h) = set (arr h)" by (metis set_mset_mset)
  from ok have d: "distinct (map ref (arr h))" by (simp add: idx_ok_def)
  have "mset (map ref (arr ?h)) = mset (map ref (arr h))" using ms by simp
  then have d': "distinct (map ref (arr ?h))" using d by (metis mset_eq_imp_distinct_iff)
  have inj: "ref (arr h ! a) = ref (arr h ! b) \<longleftrightarrow> a = b"
    if "a < length (arr h)" "b < length (arr h)" for a b
    using d that by (metis length_map nth_eq_iff_index_eq nth_map)
  have pos: "idx ?h (ref (arr ?h ! k)) = int k" if k: "k < length (arr h)" for k
    using ok i j k inj by (auto simp: idx_ok_def nth_heap_Swap) (auto simp: heap_Swap_def)
  have out: "idx ?h r = -1" if r: "r \<notin> ref ` set (arr ?h)" for r
  proof -
    from r st have "r \<notin> ref ` set (arr h)" by simp
    moreover from this i j have "r \<noteq> ref (arr h ! i)" "r \<noteq> ref (arr h ! j)" by auto
    ultimately show ?thesis using ok by (simp add: heap_Swap_def idx_ok_def)
  qed
  from d' pos out show ?thesis by (simp add: idx_ok_def)
qed

lemma idx_ok_append:
  assumes ok: "idx_ok ref h" and x: "ref x \<notin> ref ` set (arr h)"
  shows "idx_ok ref (heap_append ref x h)"
  using ok x by (auto simp: idx_ok_def heap_append_def nth_append)

lemma idx_ok_drop_last:
  assumes ok: "idx_ok ref h" and ne: "arr h \<noteq> []"
  shows "idx_ok ref (snd (heap_drop_last ref h))"
proof -
  obtain xs x where a: "arr h = xs @ [x]" using ne by (metis append_butlast_last_id)
  have d: "distinct (map ref (xs @ [x]))" using ok a by (simp add: idx_ok_def)
  have pos: "idx h (ref (xs ! k)) = int k" if "k < length xs" for k
  proof -
    have "idx h (ref ((xs @ [x]) ! k)) = int k"
      using ok that unfolding idx_ok_def a by simp
    then show ?thesis using that by (simp add: nth_append)
  qed
  have out: "idx h r = -1" if "r \<notin> ref ` set xs" "r \<noteq> ref x" for r
    using ok that unfolding idx_ok_def a by simp
  have ne': "ref (xs ! k) \<noteq> ref x" if "k < length xs" for k
    using d that by (metis distinct_append distinct.simps(2) in_set_conv_nth length_map
        list.simps(8,9) map_append nth_map disjoint_iff list.set_intros(1))
  show ?thesis
    using d pos out ne' by (auto simp: idx_ok_def heap_drop_last_def a)
qed

text \<open>\<open>heap_up\<close> and \<open>heap_down\<close> are sequences of swaps inside the array.\<close>

lemma heap_up_basic:
  assumes "j < length (arr h)" "idx_ok ref h"
  shows "mset (arr (heap_up lt ref j h)) = mset (arr h) \<and> idx_ok ref (heap_up lt ref j h)"
  using assms
proof (induction lt ref j h rule: heap_up.induct)
  case (1 lt ref j h)
  let ?i = "heap_parent j"
  show ?case
  proof (cases "?i = j \<or> \<not> lt (arr h ! j) (arr h ! ?i)")
    case True
    with "1.prems" show ?thesis by (subst (1 2) heap_up.simps) (simp add: Let_def)
  next
    case False
    then have i: "?i < length (arr h)" using "1.prems" heap_parent_le[of j] by auto
    have "heap_up lt ref j h = heap_up lt ref ?i (heap_Swap ref ?i j h)"
      using False by (subst heap_up.simps) (simp add: Let_def)
    with "1.IH"[of ?i] False i "1.prems" show ?thesis
      by (simp add: idx_ok_Swap)
  qed
qed

lemma heap_up_above:
  "j < k \<Longrightarrow> arr (heap_up lt ref j h) ! k = arr h ! k"
proof (induction lt ref j h rule: heap_up.induct)
  case (1 lt ref j h)
  let ?i = "heap_parent j"
  have i: "?i \<le> j" by (rule heap_parent_le)
  show ?case
  proof (cases "?i = j \<or> \<not> lt (arr h ! j) (arr h ! ?i)")
    case True
    then show ?thesis by (subst heap_up.simps) (simp add: Let_def)
  next
    case False
    have "heap_up lt ref j h = heap_up lt ref ?i (heap_Swap ref ?i j h)"
      using False by (subst heap_up.simps) (simp add: Let_def)
    with "1.IH"[of ?i] False i "1.prems" show ?thesis by (simp add: heap_Swap_def)
  qed
qed

lemma heap_down_basic:
  assumes "n \<le> length (arr h)" "i < length (arr h)" "idx_ok ref h"
    "heap_down lt ref i n h = (h', i')"
  shows "mset (arr h') = mset (arr h) \<and> idx_ok ref h' \<and> i \<le> i' \<and> (i' = i \<longrightarrow> h' = h) \<and>
    (\<forall>k. n \<le> k \<and> k \<noteq> i \<longrightarrow> arr h' ! k = arr h ! k)"
  using assms
proof (induction lt ref i n h arbitrary: h' i' rule: heap_down.induct)
  case (1 lt ref i n h)
  let ?j = "heap_child lt i n h"
  show ?case
  proof (cases "n \<le> 2 * i + 1 \<or> \<not> lt (arr h ! ?j) (arr h ! i)")
    case True
    then have "heap_down lt ref i n h = (h, i)"
      by (subst heap_down.simps) (auto simp: Let_def)
    with "1.prems" show ?thesis by simp
  next
    case False
    let ?s = "heap_Swap ref i ?j h"
    have j: "?j < n" "i < ?j" using False heap_child_bounds[of i n lt h] by auto
    have eq: "heap_down lt ref ?j n ?s = (h', i')"
      using False "1.prems"(4) by (subst (asm) heap_down.simps) (simp add: Let_def)
    have s: "idx_ok ref ?s" using "1.prems" j by (simp add: idx_ok_Swap)
    have IH: "mset (arr h') = mset (arr ?s) \<and> idx_ok ref h' \<and> ?j \<le> i' \<and> (i' = ?j \<longrightarrow> h' = ?s) \<and>
      (\<forall>k. n \<le> k \<and> k \<noteq> ?j \<longrightarrow> arr h' ! k = arr ?s ! k)"
      using "1.IH"[OF _ refl _ _ _ s eq] False "1.prems" j by simp
    have k: "arr ?s ! k = arr h ! k" if "n \<le> k" "k \<noteq> i" for k
      using that j by (simp add: heap_Swap_def)
    show ?thesis
      using IH k j "1.prems" by auto
  qed
qed

section \<open>Correctness for an order given by keys\<close>

locale heap_order =
  fixes lt :: "'a \<Rightarrow> 'a \<Rightarrow> bool"
    and ref :: "'a \<Rightarrow> nat"
    and key :: "'a \<Rightarrow> 'k::linorder"
  assumes lt_key: "lt x y \<longleftrightarrow> key x < key y"
begin

definition heap_at :: "'a list \<Rightarrow> nat \<Rightarrow> bool" where
  "heap_at xs k \<longleftrightarrow> k = 0 \<or> key (xs ! heap_parent k) \<le> key (xs ! k)"

definition is_heap :: "'a list \<Rightarrow> bool" where
  "is_heap xs \<longleftrightarrow> (\<forall>k < length xs. heap_at xs k)"

text \<open>The root carries a least key.\<close>

lemma root_least_nth:
  assumes "is_heap xs" "k < length xs"
  shows "key (xs ! 0) \<le> key (xs ! k)"
  using assms(2)
proof (induction k rule: less_induct)
  case (less k)
  show ?case
  proof (cases "k = 0")
    case False
    then have "heap_parent k < k" by (simp add: heap_parent_less)
    with less have "key (xs ! 0) \<le> key (xs ! (heap_parent k))" by simp
    also have "\<dots> \<le> key (xs ! k)"
      using assms(1) less.prems False by (auto simp: is_heap_def heap_at_def)
    finally show ?thesis .
  qed simp
qed

lemma root_least: "is_heap xs \<Longrightarrow> x \<in> set xs \<Longrightarrow> key (xs ! 0) \<le> key x"
  by (metis in_set_conv_nth root_least_nth)

text \<open>
  \<open>up\<close> repairs a prefix of length \<open>n\<close> whose only defect is the pair of \<open>j\<close>
  and its parent.
\<close>

lemma heap_up_heap:
  assumes "j < n" "n \<le> length (arr h)"
    and "\<And>k. k < n \<Longrightarrow> k \<noteq> j \<Longrightarrow> heap_at (arr h) k"
    and "\<And>k. k < n \<Longrightarrow> 0 < k \<Longrightarrow> heap_parent k = j \<Longrightarrow> 0 < j \<Longrightarrow>
           key (arr h ! heap_parent j) \<le> key (arr h ! k)"
  shows "\<forall>k < n. heap_at (arr (heap_up lt ref j h)) k"
  using assms
proof (induction j arbitrary: h rule: less_induct)
  case (less j)
  let ?i = "heap_parent j"
  let ?A = "arr h"
  note np = less.prems
  show ?case
  proof (cases "?i = j \<or> \<not> lt (?A ! j) (?A ! ?i)")
    case True
    then have "heap_at ?A j" using heap_parent_less[of j] by (auto simp: heap_at_def lt_key)
    with np(3) have "\<forall>k < n. heap_at ?A k" by blast
    with True show ?thesis by (subst heap_up.simps) (simp add: Let_def)
  next
    case False
    let ?s = "heap_Swap ref ?i j h"
    have ij: "?i < j" using False heap_parent_le[of j] by auto
    have j0: "0 < j" and i: "?i < length ?A" "?i < n" and jl: "j < length ?A"
      using ij np(1,2) by auto
    have jlt: "key (?A ! j) < key (?A ! ?i)" using False by (simp add: lt_key)
    have nth: "arr ?s ! k = (if k = j then ?A ! ?i else if k = ?i then ?A ! j else ?A ! k)"
      if "k < length ?A" for k
      using nth_heap_Swap[OF i(1) jl that] .
    have p2: "heap_at (arr ?s) k" if k: "k < n" "k \<noteq> ?i" for k
    proof (cases "k = 0")
      case False
      let ?p = "heap_parent k"
      have pk: "?p < k" using False heap_parent_less[of k] by simp
      have kl: "k < length ?A" "?p < length ?A" using k np(2) pk by auto
      consider "k = j" | "k \<noteq> j" "?p = j" | "k \<noteq> j" "?p \<noteq> j" by blast
      then show ?thesis
      proof cases
        case 1 then show ?thesis using jlt ij jl i by (simp add: heap_at_def nth less_imp_le)
      next
        case 2
        then have "key (?A ! ?i) \<le> key (?A ! k)" using np(4)[OF k(1)] False j0 by simp
        with 2 k kl jl show ?thesis by (simp add: heap_at_def nth)
      next
        case 3
        have "heap_at ?A k" using np(3)[OF k(1)] 3 by simp
        then have le: "key (?A ! ?p) \<le> key (?A ! k)" using False by (simp add: heap_at_def)
        show ?thesis
          using 3 k kl pk le jlt by (auto simp: heap_at_def nth)
      qed
    qed (simp add: heap_at_def)
    have p3: "key (arr ?s ! heap_parent ?i) \<le> key (arr ?s ! k)"
      if k: "k < n" "0 < k" "heap_parent k = ?i" "0 < ?i" for k
    proof -
      let ?g = "heap_parent ?i"
      have g: "?g < ?i" "?g < length ?A" using heap_parent_less[OF k(4)] i by auto
      have kl: "k < length ?A" using k np(2) by simp
      have gi: "key (?A ! ?g) \<le> key (?A ! ?i)"
        using np(3)[OF i(2)] ij k(4) by (simp add: heap_at_def)
      have ki: "k \<noteq> ?i" using k heap_parent_less[of k] by auto
      show ?thesis
      proof (cases "k = j")
        case True then show ?thesis using gi g ij kl by (simp add: nth)
      next
        case False
        have "key (?A ! ?i) \<le> key (?A ! k)"
          using np(3)[OF k(1) False] k by (simp add: heap_at_def)
        with gi show ?thesis using False g ij kl ki by (simp add: nth)
      qed
    qed
    have "\<forall>k < n. heap_at (arr (heap_up lt ref ?i ?s)) k"
      by (rule less.IH[OF ij i(2) _ p2 p3]) (use np(2) in simp_all)
    then show ?thesis using False by (subst heap_up.simps) (simp add: Let_def)
  qed
qed

text \<open>
  \<open>down\<close> repairs the prefix of length \<open>n\<close> below \<open>i\<close>: everything but the pair of
  \<open>i\<close> and its parent is in order afterwards, and that pair too if the element moved.
\<close>

lemma heap_down_heap:
  assumes "n \<le> length (arr h)" "i < length (arr h)"
    and "\<And>k. k < n \<Longrightarrow> k \<noteq> i \<Longrightarrow> 0 < k \<Longrightarrow> heap_parent k \<noteq> i \<Longrightarrow> heap_at (arr h) k"
    and "\<And>k. k < n \<Longrightarrow> 0 < k \<Longrightarrow> heap_parent k = i \<Longrightarrow> 0 < i \<Longrightarrow>
           key (arr h ! (heap_parent i)) \<le> key (arr h ! k)"
    and "heap_down lt ref i n h = (h', i')"
  shows "(\<forall>k < n. k \<noteq> i \<longrightarrow> heap_at (arr h') k) \<and>
    ((i' \<noteq> i \<or> heap_at (arr h) i) \<longrightarrow> i < n \<longrightarrow> heap_at (arr h') i)"
  using assms
proof (induction "n - i" arbitrary: i h h' i' rule: less_induct)
  case less
  let ?j = "heap_child lt i n h"
  let ?A = "arr h"
  note np = less.prems
  show ?case
  proof (cases "n \<le> 2 * i + 1 \<or> \<not> lt (?A ! ?j) (?A ! i)")
    case True
    then have r: "h' = h" "i' = i"
      using np(5) heap_down.simps[of lt ref i n h] by (auto simp: Let_def split: if_splits)
    have child: "heap_at ?A k" if k: "k < n" "0 < k" "heap_parent k = i" for k
    proof -
      have two: "2 * i + 1 < n" "k = 2 * i + 1 \<or> k = 2 * i + 2" using k heap_parent_eq[OF k(2)] by auto
      have "\<not> key (?A ! ?j) < key (?A ! i)" using True two by (simp add: lt_key)
      moreover have "key (?A ! ?j) \<le> key (?A ! k)"
        using two k(1) by (auto simp: heap_child_def Let_def lt_key)
      ultimately show ?thesis using k by (simp add: heap_at_def)
    qed
    show ?thesis
      using child np(3) r by (auto simp: heap_at_def)
  next
    case False
    let ?s = "heap_Swap ref i ?j h"
    have n2: "2 * i + 1 < n" using False by simp
    have j: "?j < n" "i < ?j" "?j < length ?A" "0 < ?j"
      using heap_child_bounds[OF n2, of lt h] np(1) by auto
    have jp: "heap_parent ?j = i" by (rule heap_child_parent)
    have lt: "key (?A ! ?j) < key (?A ! i)" using False by (simp add: lt_key)
    have nth: "arr ?s ! k = (if k = ?j then ?A ! i else if k = i then ?A ! ?j else ?A ! k)"
      if "k < length ?A" for k
      using nth_heap_Swap[OF np(2) j(3) that] .
    have eq: "heap_down lt ref ?j n ?s = (h', i')"
      using False np(5) by (subst (asm) heap_down.simps) (simp add: Let_def)
    have minj: "key (?A ! ?j) \<le> key (?A ! k)" if "k < n" "0 < k" "heap_parent k = i" for k
    proof -
      have "k = 2 * i + 1 \<or> k = 2 * i + 2" using that heap_parent_eq[OF that(2)] by auto
      then show ?thesis using that(1) by (auto simp: heap_child_def Let_def lt_key)
    qed
    have p3: "heap_at (arr ?s) k"
      if k: "k < n" "k \<noteq> ?j" "0 < k" "heap_parent k \<noteq> ?j" for k
    proof -
      let ?p = "heap_parent k"
      have kl: "k < length ?A" "?p < length ?A" "?p < k"
        using k np(1) heap_parent_less[OF k(3)] by auto
      consider "k = i" | "k \<noteq> i" "?p = i" | "k \<noteq> i" "?p \<noteq> i" by blast
      then show ?thesis
      proof cases
        case 1
        have "key (?A ! ?p) \<le> key (?A ! ?j)" using np(4)[OF j(1) j(4) jp] 1 k(3) by simp
        with 1 k kl show ?thesis by (simp add: heap_at_def nth)
      next
        case 2
        then show ?thesis using minj[OF k(1) k(3)] k kl by (simp add: heap_at_def nth)
      next
        case 3
        have "heap_at ?A k" using np(3) k 3 by simp
        with 3 k kl show ?thesis by (simp add: heap_at_def nth)
      qed
    qed
    have p4: "key (arr ?s ! (heap_parent ?j)) \<le> key (arr ?s ! k)"
      if k: "k < n" "0 < k" "heap_parent k = ?j" for k
    proof -
      have kl: "k < length ?A" "?j < k" using k np(1) heap_parent_less[OF k(2)] by auto
      have "k \<noteq> i" "heap_parent k \<noteq> i" using k(3) j(2) kl(2) by simp_all
      then have "heap_at ?A k" using np(3)[OF k(1) _ k(2)] by simp
      then have "key (?A ! ?j) \<le> key (?A ! k)" using k by (simp add: heap_at_def)
      then show ?thesis using kl j np(2) by (simp add: jp nth)
    qed
    have meas: "n - ?j < n - i" using j by linarith
    have IH: "(\<forall>k < n. k \<noteq> ?j \<longrightarrow> heap_at (arr h') k) \<and>
      ((i' \<noteq> ?j \<or> heap_at (arr ?s) ?j) \<longrightarrow> ?j < n \<longrightarrow> heap_at (arr h') ?j)"
    proof (rule less.hyps[OF meas _ _ _ _ eq])
      show "n \<le> length (arr ?s)" "?j < length (arr ?s)" using np(1) j by simp_all
    qed (rule p3 p4; assumption)+
    have "heap_at (arr ?s) ?j"
      using lt jp nth[OF j(3)] nth[OF np(2)] j(2) by (simp add: heap_at_def less_imp_le)
    with IH j show ?thesis by auto
  qed
qed

text \<open>The three operations the clients call.\<close>

definition heap_inv :: "'a goheap \<Rightarrow> bool" where
  "heap_inv h \<longleftrightarrow> is_heap (arr h) \<and> idx_ok ref h"

lemma heap_inv_empty: "heap_inv heap_empty"
  by (simp add: heap_inv_def idx_ok_empty) (simp add: is_heap_def heap_empty_def)

lemma heap_Push_correct:
  assumes h: "heap_inv h" and x: "ref x \<notin> ref ` set (arr h)"
  shows "heap_inv (heap_Push lt ref x h) \<and>
    mset (arr (heap_Push lt ref x h)) = add_mset x (mset (arr h))"
proof -
  let ?h = "heap_append ref x h" let ?n = "length (arr h)"
  have a: "arr ?h = arr h @ [x]" by (simp add: heap_append_def)
  have idx: "idx_ok ref ?h" using h x by (simp add: heap_inv_def idx_ok_append)
  have old: "heap_at (arr ?h) k" if "k < length (arr ?h)" "k \<noteq> ?n" for k
  proof -
    from that have k: "k < ?n" by (simp add: a)
    then have "heap_parent k < ?n" using heap_parent_le[of k] by linarith
    with h k show ?thesis by (auto simp: heap_inv_def is_heap_def heap_at_def a nth_append)
  qed
  have old2: "key (arr ?h ! heap_parent ?n) \<le> key (arr ?h ! k)"
    if "k < length (arr ?h)" "0 < k" "heap_parent k = ?n" for k
    using that heap_parent_less[of k] by (simp add: a)
  have up: "\<forall>k < length (arr ?h). heap_at (arr (heap_up lt ref ?n ?h)) k"
    by (rule heap_up_heap) (use old old2 in \<open>auto simp: a\<close>)
  moreover have "mset (arr (heap_up lt ref ?n ?h)) = mset (arr ?h) \<and> idx_ok ref (heap_up lt ref ?n ?h)"
    by (rule heap_up_basic) (use idx in \<open>auto simp: a\<close>)
  ultimately show ?thesis
    by (simp add: heap_Push_def heap_inv_def is_heap_def a flip: size_mset)
qed

text \<open>Dropping the last element of a heap leaves a heap.\<close>

lemma drop_last_correct:
  assumes "arr h \<noteq> []" "idx_ok ref h"
    and "\<And>k. k < length (arr h) - 1 \<Longrightarrow> heap_at (arr h) k"
  shows "heap_inv (snd (heap_drop_last ref h)) \<and>
    mset (arr h) = add_mset (fst (heap_drop_last ref h)) (mset (arr (snd (heap_drop_last ref h))))"
proof -
  let ?n = "length (arr h) - 1"
  have "heap_at (butlast (arr h)) k" if k: "k < ?n" for k
  proof -
    have "heap_parent k < ?n" using k heap_parent_le[of k] by linarith
    with assms(3)[OF k] k show ?thesis by (simp add: heap_at_def nth_butlast)
  qed
  then have "is_heap (butlast (arr h))" by (simp add: is_heap_def)
  with idx_ok_drop_last[OF assms(2,1)] mset_butlast_last[OF assms(1)] show ?thesis
    by (simp add: heap_inv_def heap_drop_last_def)
qed

lemma heap_Pop_correct:
  assumes h: "heap_inv h" and ne: "arr h \<noteq> []"
  shows "\<exists>x h'. heap_Pop lt ref h = Some (x, h') \<and> x = arr h ! 0 \<and> heap_inv h' \<and>
    mset (arr h) = add_mset x (mset (arr h'))"
proof -
  let ?n = "length (arr h) - 1" let ?s = "heap_Swap ref 0 ?n h"
  obtain d i where d: "heap_down lt ref 0 ?n ?s = (d, i)" by fastforce
  have n: "?n < length (arr h)" "0 < length (arr h)" using ne by auto
  have ok: "idx_ok ref ?s" using h n by (simp add: heap_inv_def idx_ok_Swap)
  have nth: "arr ?s ! k = (if k = ?n then arr h ! 0 else if k = 0 then arr h ! ?n else arr h ! k)"
    if "k < length (arr h)" for k
    using nth_heap_Swap[OF n(2) n(1) that] .
  note b = heap_down_basic[OF _ _ ok d]
  have len: "length (arr d) = length (arr h)"
    using b n by (metis length_heap_Swap less_imp_le mset_eq_length)
  have last: "arr d ! ?n = arr h ! 0"
  proof (cases "?n = 0")
    case True
    then have "heap_down lt ref 0 ?n ?s = (?s, 0)" by (subst heap_down.simps) simp
    with d have "d = ?s" by simp
    with True nth[OF n(1)] show ?thesis by simp
  next
    case False
    then have "arr d ! ?n = arr ?s ! ?n" using b n by simp
    with nth[OF n(1)] show ?thesis by simp
  qed
  have hp: "(\<forall>k < ?n. k \<noteq> 0 \<longrightarrow> heap_at (arr d) k) \<and>
      ((i \<noteq> 0 \<or> heap_at (arr ?s) 0) \<longrightarrow> 0 < ?n \<longrightarrow> heap_at (arr d) 0)"
  proof (rule heap_down_heap[OF _ _ _ _ d])
    show "?n \<le> length (arr ?s)" "0 < length (arr ?s)" using n by auto
    fix k assume k: "k < ?n" "k \<noteq> 0" "0 < k" "heap_parent k \<noteq> 0"
    then have p: "heap_parent k < ?n" using heap_parent_le[of k] by linarith
    have "heap_at (arr h) k" using h k by (simp add: heap_inv_def is_heap_def)
    with k p nth[of k] nth[of "heap_parent k"] show "heap_at (arr ?s) k" by (simp add: heap_at_def)
  qed simp
  then have at: "heap_at (arr d) k" if "k < length (arr d) - 1" for k
    using that len by (cases "k = 0") (auto simp: heap_at_def)
  have ned: "arr d \<noteq> []" using len n(2) by (metis length_0_conv less_irrefl)
  have ms: "mset (arr d) = mset (arr h)" using b n by simp
  have "last (arr d) = arr h ! 0" using ned last len by (simp add: last_conv_nth)
  moreover have "idx_ok ref d" using b n by simp
  ultimately show ?thesis
    using drop_last_correct[OF ned _ at] ms ne d
    by (simp add: heap_Pop_def Let_def heap_drop_last_def)
qed

lemma heap_Pop_least:
  assumes "heap_inv h" "heap_Pop lt ref h = Some (x, h')"
  shows "x \<in> set (arr h)" "y \<in> set (arr h) \<Longrightarrow> key x \<le> key y"
proof -
  have ne: "arr h \<noteq> []" using assms(2) by (auto simp: heap_Pop_def)
  then have x: "x = arr h ! 0" using heap_Pop_correct[OF assms(1)] assms(2) by auto
  then show "x \<in> set (arr h)" using ne by simp
  show "y \<in> set (arr h) \<Longrightarrow> key x \<le> key y"
    using root_least assms(1) x by (simp add: heap_inv_def)
qed

lemma heap_Remove_correct:
  assumes h: "heap_inv h" and i: "i < length (arr h)"
  shows "\<exists>h'. heap_Remove lt ref (int i) h = Some (arr h ! i, h') \<and> heap_inv h' \<and>
    mset (arr h) = add_mset (arr h ! i) (mset (arr h'))"
proof -
  let ?n = "length (arr h) - 1" let ?s = "heap_Swap ref i ?n h"
  have ne: "arr h \<noteq> []" using i by auto
  have hat: "heap_at (arr h) k" if "k < length (arr h)" for k
    using h that by (simp add: heap_inv_def is_heap_def)
  show ?thesis
  proof (cases "?n = i")
    case True
    have "fst (heap_drop_last ref h) = arr h ! i"
      using ne True by (simp add: heap_drop_last_def last_conv_nth)
    with True i drop_last_correct[OF ne _ hat] h show ?thesis
      by (simp add: heap_Remove_def heap_inv_def heap_drop_last_def)
  next
    case False
    obtain d k' where d: "heap_down lt ref i ?n ?s = (d, k')" by fastforce
    have n: "?n < length (arr h)" "i < ?n" using ne i False by auto
    have ok: "idx_ok ref ?s" using h i n by (simp add: heap_inv_def idx_ok_Swap)
    have nth: "arr ?s ! k = (if k = ?n then arr h ! i else if k = i then arr h ! ?n else arr h ! k)"
      if "k < length (arr h)" for k
      using nth_heap_Swap[OF i n(1) that] .
    have b: "mset (arr d) = mset (arr ?s) \<and> idx_ok ref d \<and> i \<le> k' \<and> (k' = i \<longrightarrow> d = ?s) \<and>
      (\<forall>k. ?n \<le> k \<and> k \<noteq> i \<longrightarrow> arr d ! k = arr ?s ! k)"
      by (rule heap_down_basic[OF _ _ ok d]) (use n i in auto)
    have len: "length (arr d) = length (arr h)" using b by (metis length_heap_Swap mset_eq_length)
    have s3: "heap_at (arr ?s) k" if k: "k < ?n" "k \<noteq> i" "0 < k" "heap_parent k \<noteq> i" for k
    proof -
      have p: "heap_parent k < ?n" using k heap_parent_le[of k] by linarith
      with k hat[of k] nth[of k] nth[of "heap_parent k"] show ?thesis by (simp add: heap_at_def)
    qed
    have s4: "key (arr ?s ! (heap_parent i)) \<le> key (arr ?s ! k)"
      if k: "k < ?n" "0 < k" "heap_parent k = i" "0 < i" for k
    proof -
      have p: "heap_parent i < i" using k(4) by (rule heap_parent_less)
      have "key (arr h ! (heap_parent i)) \<le> key (arr h ! i)" using hat[OF i] k(4) by (simp add: heap_at_def)
      also have "\<dots> \<le> key (arr h ! k)" using hat[of k] k by (simp add: heap_at_def)
      finally show ?thesis using p k n nth[of k] nth[of "heap_parent i"] by auto
    qed
    have hp: "(\<forall>k < ?n. k \<noteq> i \<longrightarrow> heap_at (arr d) k) \<and>
      ((k' \<noteq> i \<or> heap_at (arr ?s) i) \<longrightarrow> i < ?n \<longrightarrow> heap_at (arr d) i)"
      by (rule heap_down_heap[OF _ _ s3 s4 d]) (use n i in auto)
    define u where "u = (if i < k' then d else heap_up lt ref i d)"
    have il: "i < length (arr d)" using len i by simp
    have u1: "mset (arr u) = mset (arr h)" "idx_ok ref u"
      using b heap_up_basic[OF il, of ref lt] mset_heap_Swap[OF i n(1), of ref]
      unfolding u_def by (metis (full_types))+
    have lenu: "length (arr u) = length (arr h)" using u1(1) by (rule mset_eq_length)
    have "arr u ! ?n = arr d ! ?n" using heap_up_above[OF n(2), of lt ref d] by (simp only: u_def split: if_split) simp
    also have "\<dots> = arr h ! i" using b n nth[OF n(1)] by simp
    finally have lastu: "last (arr u) = arr h ! i"
      using lenu ne by (metis last_conv_nth length_0_conv)
    have hu: "\<forall>k < ?n. heap_at (arr u) k"
    proof (cases "i < k'")
      case True then show ?thesis using hp n by (auto simp: u_def)
    next
      case False
      then have "d = ?s" using b by auto
      then have "\<forall>k < ?n. heap_at (arr (heap_up lt ref i d)) k"
        by (intro heap_up_heap[OF n(2)]) (use hp s4 len in auto)
      then show ?thesis using False by (simp add: u_def)
    qed
    have neu: "arr u \<noteq> []" using lenu ne by (metis length_0_conv)
    have at: "heap_at (arr u) k" if "k < length (arr u) - 1" for k using hu that lenu by simp
    show ?thesis
      using drop_last_correct[OF neu u1(2) at] False i u_def d lastu u1(1)
      by (simp add: heap_Remove_def Let_def heap_drop_last_def)
  qed
qed

end

end
