(* ===== verification/Engine.thy ===== *)
theory Engine
  imports GoHeap "HOL-Library.Product_Lexorder"
begin

text \<open>
  The virtual-time engine of \<open>simulator/engine/engine.go\<close>: a future-event queue ordered by
  time and scheduling order, eager cancellation, and the loop of \<open>RunUntil\<close>.

  A Go callback is a closure; here it is a value of the type parameter \<open>'c\<close>, and the code
  that runs it is the argument \<open>handler\<close> of \<open>run_until\<close>, which takes the engine and
  the rest of the world and may panic.  Nil callbacks do not exist in the model.
\<close>

record 'c event =
  ev_id :: nat
  ev_at :: duration
  ev_callback :: 'c

definition event_less :: "'c event \<Rightarrow> 'c event \<Rightarrow> bool" where
  "event_less a b =
     (if ev_at a = ev_at b then ev_id a < ev_id b else ev_at a < ev_at b)"

definition event_key :: "'c event \<Rightarrow> duration \<times> nat" where
  "event_key x = (ev_at x, ev_id x)"

interpretation evq: heap_order event_less ev_id event_key
  by unfold_locales (auto simp: event_less_def event_key_def)

record 'c engine =
  max_events :: nat
  eng_now :: duration
  end_time :: duration
  next_id :: nat
  queue :: "'c event goheap"
  by_id :: "nat \<rightharpoonup> 'c event"
  executed :: nat
  running :: bool

definition DefaultMaxEvents :: nat where
  "DefaultMaxEvents = 5000000000"

definition engine_New :: "duration \<Rightarrow> 'c engine option" where
  "engine_New endTime =
     (if endTime < 0 then None
      else Some \<lparr>max_events = DefaultMaxEvents, eng_now = 0, end_time = endTime, next_id = 0,
                 queue = heap_empty, by_id = Map.empty, executed = 0, running = False\<rparr>)"

definition Pending :: "'c engine \<Rightarrow> nat" where
  "Pending e = length (arr (queue e))"

definition NextEventTime :: "'c engine \<Rightarrow> duration \<times> bool" where
  "NextEventTime e =
     (if arr (queue e) = [] then (0, False) else (ev_at (arr (queue e) ! 0), True))"

definition engine_Clear :: "'c engine \<Rightarrow> 'c engine" where
  "engine_Clear e = e\<lparr>queue := heap_empty, by_id := Map.empty\<rparr>"

text \<open>The returned identifier is zero when the event lies beyond the end time.\<close>

definition ScheduleAt :: "'c engine \<Rightarrow> duration \<Rightarrow> 'c \<Rightarrow> ('c engine \<times> nat) option" where
  "ScheduleAt e at cb =
     (if at < 0 \<or> at < eng_now e then None
      else if end_time e < at then Some (e, 0)
      else if next_id e = max_u64 then None
      else
        let i = u64 (next_id e + 1);
            item = \<lparr>ev_id = i, ev_at = at, ev_callback = cb\<rparr>
        in Some (e\<lparr>next_id := i,
                   queue := heap_Push event_less ev_id item (queue e),
                   by_id := (by_id e)(i \<mapsto> item)\<rparr>, i))"

definition ScheduleAfter :: "'c engine \<Rightarrow> duration \<Rightarrow> 'c \<Rightarrow> ('c engine \<times> nat) option" where
  "ScheduleAfter e delay cb =
     (if delay < 0 then None
      else if i64 (end_time e - eng_now e) < delay then Some (e, 0)
      else ScheduleAt e (i64 (eng_now e + delay)) cb)"

definition Cancel :: "'c engine \<Rightarrow> nat \<Rightarrow> ('c engine \<times> bool) option" where
  "Cancel e i =
     (case by_id e i of
        None \<Rightarrow> Some (e, False)
      | Some item \<Rightarrow> do {
          (_, q) \<leftarrow> heap_Remove event_less ev_id (idx (queue e) (ev_id item)) (queue e);
          Some (e\<lparr>queue := q, by_id := (by_id e)(i := None)\<rparr>, True)
        })"

datatype run_error = ErrEventLimit nat | ErrReentrantRun | BoundBeforeNow | BoundAfterEnd

text \<open>One iteration of the loop up to the callback: the due event leaves the queue.\<close>

definition take_event :: "'c engine \<Rightarrow> ('c event \<times> 'c engine) option" where
  "take_event e = do {
     (item, q) \<leftarrow> heap_Pop event_less ev_id (queue e);
     Some (item, e\<lparr>queue := q, by_id := (by_id e)(ev_id item := None),
                   eng_now := ev_at item, executed := u64 (executed e + 1)\<rparr>)
   }"

type_synonym ('c, 's) handler = "'c \<Rightarrow> 'c engine \<times> 's \<Rightarrow> ('c engine \<times> 's) option"

partial_function (option) run_loop ::
  "('c, 's) handler \<Rightarrow> duration \<Rightarrow> 'c engine \<Rightarrow> 's \<Rightarrow> (run_error option \<times> 'c engine \<times> 's) option"
where
  "run_loop handler until e s =
     (if arr (queue e) = [] then Some (None, e\<lparr>eng_now := until\<rparr>, s)
      else if \<not> ev_at (arr (queue e) ! 0) \<le> until then Some (None, e\<lparr>eng_now := until\<rparr>, s)
      else if max_events e \<le> executed e then Some (Some (ErrEventLimit (max_events e)), e, s)
      else
        Option.bind (take_event e) (\<lambda>(item, e1).
        Option.bind (handler (ev_callback item) (e1, s)) (\<lambda>(e2, s2).
        run_loop handler until e2 s2)))"

definition RunUntil ::
  "('c, 's) handler \<Rightarrow> duration \<Rightarrow> 'c engine \<Rightarrow> 's \<Rightarrow> (run_error option \<times> 'c engine \<times> 's) option"
where
  "RunUntil handler until e s =
     (if running e then Some (Some ErrReentrantRun, e, s)
      else if until < eng_now e then Some (Some BoundBeforeNow, e, s)
      else if end_time e < until then Some (Some BoundAfterEnd, e, s)
      else do {
        (r, e', s') \<leftarrow> run_loop handler until (e\<lparr>running := True\<rparr>) s;
        Some (r, e'\<lparr>running := False\<rparr>, s')
      })"

section \<open>The engine's invariant\<close>

definition pending :: "'c engine \<Rightarrow> 'c event set" where
  "pending e = set (arr (queue e))"

definition eng_inv :: "'c engine \<Rightarrow> bool" where
  "eng_inv e \<longleftrightarrow> evq.heap_inv (queue e) \<and>
     (\<forall>i x. by_id e i = Some x \<longleftrightarrow> x \<in> pending e \<and> ev_id x = i) \<and>
     (\<forall>x \<in> pending e. eng_now e \<le> ev_at x \<and> ev_at x \<le> end_time e \<and>
                      1 \<le> ev_id x \<and> ev_id x \<le> next_id e) \<and>
     0 \<le> eng_now e \<and> eng_now e \<le> end_time e \<and> end_time e \<le> max_i64 \<and>
     next_id e \<le> max_u64"

lemma eng_invD:
  assumes "eng_inv e"
  shows "evq.heap_inv (queue e)" "0 \<le> eng_now e" "eng_now e \<le> end_time e" "end_time e \<le> max_i64"
    "next_id e \<le> max_u64"
  using assms by (simp_all add: eng_inv_def)

lemma engine_New_inv:
  "engine_New t = Some e \<Longrightarrow> t \<le> max_i64 \<Longrightarrow> eng_inv e"
  by (auto simp: engine_New_def eng_inv_def pending_def evq.heap_inv_empty heap_empty_def max_u64_def
      split: if_splits intro: evq.heap_inv_empty[unfolded heap_empty_def])

lemma pending_finite [simp]: "finite (pending e)"
  by (simp add: pending_def)

lemma pending_update [simp]:
  "pending (e\<lparr>eng_now := t\<rparr>) = pending e" "pending (e\<lparr>running := b\<rparr>) = pending e"
  "pending (e\<lparr>executed := n\<rparr>) = pending e" "pending (e\<lparr>next_id := n\<rparr>) = pending e"
  by (simp_all add: pending_def)

lemma eng_inv_running [simp]: "eng_inv (e\<lparr>running := b\<rparr>) = eng_inv e"
  by (simp add: eng_inv_def)

text \<open>Identifiers tell pending events apart.\<close>

lemma pending_id_inj:
  assumes "eng_inv e" "x \<in> pending e" "y \<in> pending e" "ev_id x = ev_id y"
  shows "x = y"
  using assms by (metis eng_inv_def option.inject)

lemma pending_key_inj:
  assumes "eng_inv e" "x \<in> pending e" "y \<in> pending e" "event_key x = event_key y"
  shows "x = y"
  using assms pending_id_inj by (auto simp: event_key_def)

section \<open>The engine's calls\<close>

lemma ScheduleAt_beyond: "ScheduleAt e at cb = Some (e', 0) \<Longrightarrow> eng_inv e \<Longrightarrow> e' = e"
  by (auto simp: ScheduleAt_def Let_def eng_inv_def split: if_splits)

lemma ScheduleAt_inv:
  assumes e: "eng_inv e" and s: "ScheduleAt e at cb = Some (e', i)" and i: "i \<noteq> 0"
  shows "eng_inv e' \<and> i = next_id e + 1 \<and> next_id e' = i \<and>
    pending e' = insert \<lparr>ev_id = i, ev_at = at, ev_callback = cb\<rparr> (pending e) \<and>
    e' = e\<lparr>next_id := next_id e', queue := queue e', by_id := by_id e'\<rparr> \<and>
    eng_now e \<le> at \<and> at \<le> end_time e"
proof -
  let ?x = "\<lparr>ev_id = i, ev_at = at, ev_callback = cb\<rparr>"
  have t: "0 \<le> at" "eng_now e \<le> at" "at \<le> end_time e" "next_id e \<noteq> max_u64"
    using s i by (auto simp: ScheduleAt_def Let_def split: if_splits)
  then have n: "next_id e + 1 \<le> max_u64" using eng_invD(5)[OF e] by simp
  have e': "e' = e\<lparr>next_id := i, queue := heap_Push event_less ev_id ?x (queue e),
      by_id := (by_id e)(i \<mapsto> ?x)\<rparr>" and ii: "i = next_id e + 1"
    using s t n by (auto simp: ScheduleAt_def Let_def)
  have fresh: "y \<in> pending e \<Longrightarrow> ev_id y < i" for y
    using e ii by (auto simp: eng_inv_def)
  have "ev_id ?x \<notin> ev_id ` set (arr (queue e))"
    using fresh by (force simp: pending_def)
  note hp = evq.heap_Push_correct[OF eng_invD(1)[OF e] this]
  have p: "pending e' = insert ?x (pending e)"
    using arg_cong[OF conjunct2[OF hp], of set_mset] by (simp add: pending_def e')
  have "eng_inv e'"
    unfolding eng_inv_def
  proof (intro conjI allI ballI)
    show "evq.heap_inv (queue e')" using hp by (simp add: e')
    fix k x show "by_id e' k = Some x \<longleftrightarrow> x \<in> pending e' \<and> ev_id x = k"
      using e fresh p by (auto simp: e' eng_inv_def)
  qed (use e t n ii p in \<open>auto simp: e' eng_inv_def\<close>)
  with e' ii p t show ?thesis by simp
qed

lemma ScheduleAt_Some:
  assumes "eng_inv e" "eng_now e \<le> at" "next_id e < max_u64"
  shows "\<exists>e' i. ScheduleAt e at cb = Some (e', i) \<and> (i = 0 \<longleftrightarrow> end_time e < at)"
  using assms by (auto simp: ScheduleAt_def Let_def eng_inv_def)

text \<open>
  \<open>ScheduleAfter\<close> never overflows: its comparison with the remaining time keeps the sum in
  the range of \<open>time.Duration\<close>.
\<close>

lemma ScheduleAfter_eq:
  assumes "eng_inv e"
  shows "ScheduleAfter e d cb =
    (if d < 0 then None else if end_time e < eng_now e + d then Some (e, 0)
     else ScheduleAt e (eng_now e + d) cb)"
proof -
  have r: "in_i64 (end_time e - eng_now e)"
    using eng_invD[OF assms] by (simp add: in_i64_def max_i64_def)
  have s: "in_i64 (eng_now e + d)" if "0 \<le> d" "eng_now e + d \<le> end_time e"
    using eng_invD[OF assms] that by (simp add: in_i64_def max_i64_def)
  show ?thesis
    using r s by (auto simp: ScheduleAfter_def)
qed

lemma ScheduleAfter_Some:
  assumes "eng_inv e" "0 \<le> d" "next_id e < max_u64"
  shows "\<exists>e' i. ScheduleAfter e d cb = Some (e', i)"
  using ScheduleAt_Some[of e "eng_now e + d" cb] assms by (auto simp: ScheduleAfter_eq)

lemma Cancel_inv:
  assumes e: "eng_inv e" and x: "x \<in> pending e" and i: "ev_id x = i"
  shows "\<exists>e'. Cancel e i = Some (e', True) \<and> eng_inv e' \<and> pending e' = pending e - {x} \<and>
    e' = e\<lparr>queue := queue e', by_id := by_id e'\<rparr>"
proof -
  have b: "by_id e i = Some x" using e x i by (auto simp: eng_inv_def)
  have ok: "idx_ok ev_id (queue e)" using eng_invD(1)[OF e] by (simp add: evq.heap_inv_def)
  obtain k where k: "k < length (arr (queue e))" "arr (queue e) ! k = x"
    using x by (auto simp: pending_def in_set_conv_nth)
  have ik: "idx (queue e) (ev_id x) = int k" using ok k by (auto simp: idx_ok_def)
  obtain q where q: "heap_Remove event_less ev_id (int k) (queue e) = Some (x, q)"
    "evq.heap_inv q" "mset (arr (queue e)) = add_mset x (mset (arr q))"
    using evq.heap_Remove_correct[OF eng_invD(1)[OF e] k(1)] k(2) by auto
  let ?e = "e\<lparr>queue := q, by_id := (by_id e)(i := None)\<rparr>"
  have c: "Cancel e i = Some (?e, True)"
    using b ik i q(1) by (simp add: Cancel_def)
  have "distinct (arr (queue e))" using ok by (metis idx_ok_def distinct_map)
  then have "distinct (x # arr q)" using q(3) by (metis mset.simps(2) mset_eq_imp_distinct_iff)
  moreover have "set (arr (queue e)) = insert x (set (arr q))"
    using arg_cong[OF q(3), of set_mset] by simp
  ultimately have p: "pending ?e = pending e - {x}" by (auto simp: pending_def)
  have "eng_inv ?e"
    unfolding eng_inv_def
  proof (intro conjI allI ballI)
    fix k y
    have "by_id e k = Some y \<longleftrightarrow> y \<in> pending e \<and> ev_id y = k" using e by (simp add: eng_inv_def)
    moreover have "y = x \<longleftrightarrow> k = i" if "y \<in> pending e" "ev_id y = k"
      using that pending_id_inj[OF e that(1) x] i by metis
    moreover have "by_id ?e k = Some y \<longleftrightarrow> k \<noteq> i \<and> by_id e k = Some y" by simp
    ultimately show "by_id ?e k = Some y \<longleftrightarrow> y \<in> pending ?e \<and> ev_id y = k"
      unfolding p by blast
  qed (use e p q(2) in \<open>auto simp: eng_inv_def\<close>)
  with c p show ?thesis by auto
qed

lemma Cancel_unknown:
  "eng_inv e \<Longrightarrow> (\<And>x. x \<in> pending e \<Longrightarrow> ev_id x \<noteq> i) \<Longrightarrow> Cancel e i = Some (e, False)"
  by (auto simp: Cancel_def eng_inv_def split: option.splits)

lemma Cancel_Some: "eng_inv e \<Longrightarrow> \<exists>e' b. Cancel e i = Some (e', b)"
  using Cancel_inv Cancel_unknown by metis

lemma Clear_inv: "eng_inv e \<Longrightarrow> eng_inv (engine_Clear e) \<and> pending (engine_Clear e) = {}"
proof -
  assume e: "eng_inv e"
  have p: "pending (engine_Clear e) = {}" by (simp add: engine_Clear_def pending_def heap_empty_def)
  have h: "evq.heap_inv (queue (engine_Clear e))"
    using evq.heap_inv_empty by (simp add: engine_Clear_def)
  have c: "eng_now (engine_Clear e) = eng_now e" "end_time (engine_Clear e) = end_time e"
    "next_id (engine_Clear e) = next_id e" "by_id (engine_Clear e) = Map.empty"
    by (simp_all add: engine_Clear_def)
  show ?thesis
    using e h unfolding eng_inv_def p c by simp
qed

lemma take_event_inv:
  assumes e: "eng_inv e" and ne: "arr (queue e) \<noteq> []"
  shows "\<exists>x e1. take_event e = Some (x, e1) \<and> x = arr (queue e) ! 0 \<and> eng_inv e1 \<and>
    x \<in> pending e \<and> pending e1 = pending e - {x} \<and> (\<forall>y \<in> pending e1. event_key x < event_key y) \<and>
    e1 = e\<lparr>queue := queue e1, by_id := by_id e1, eng_now := ev_at x, executed := u64 (executed e + 1)\<rparr>"
proof -
  obtain x q where q: "heap_Pop event_less ev_id (queue e) = Some (x, q)" "x = arr (queue e) ! 0"
    "evq.heap_inv q" "mset (arr (queue e)) = add_mset x (mset (arr q))"
    using evq.heap_Pop_correct[OF eng_invD(1)[OF e] ne] by auto
  note least = evq.heap_Pop_least[OF eng_invD(1)[OF e] q(1)]
  let ?e = "e\<lparr>queue := q, by_id := (by_id e)(ev_id x := None),
    eng_now := ev_at x, executed := u64 (executed e + 1)\<rparr>"
  have x: "x \<in> pending e" using least(1) by (simp add: pending_def)
  have "distinct (arr (queue e))"
    using eng_invD(1)[OF e] by (metis evq.heap_inv_def idx_ok_def distinct_map)
  then have "distinct (x # arr q)" using q(4) by (metis mset.simps(2) mset_eq_imp_distinct_iff)
  moreover have "set (arr (queue e)) = insert x (set (arr q))"
    using arg_cong[OF q(4), of set_mset] by simp
  ultimately have p: "pending ?e = pending e - {x}" by (auto simp: pending_def)
  have lt: "event_key x < event_key y" if "y \<in> pending ?e" for y
  proof -
    have "event_key x \<le> event_key y" using that p least(2) by (auto simp: pending_def)
    moreover have "event_key x \<noteq> event_key y" using pending_key_inj[OF e x] that p by auto
    ultimately show ?thesis by simp
  qed
  then have at: "ev_at x \<le> ev_at y" if "y \<in> pending ?e" for y
    using that by (fastforce simp: event_key_def)
  have "eng_inv ?e"
    unfolding eng_inv_def
  proof (intro conjI allI ballI)
    fix k y show "by_id ?e k = Some y \<longleftrightarrow> y \<in> pending ?e \<and> ev_id y = k"
      using e p x pending_id_inj[OF e _ x] by (auto simp: eng_inv_def)
  qed (use e p q(3) x at in \<open>auto simp: eng_inv_def\<close>)
  with q x p lt show ?thesis by (simp add: take_event_def)
qed

lemma take_event_facts:
  assumes "eng_inv e" "arr (queue e) \<noteq> []" "take_event e = Some (x, e1)"
  shows "x \<in> pending e" "pending e1 = pending e - {x}"
    "\<And>y. y \<in> pending e1 \<Longrightarrow> event_key x < event_key y" "eng_inv e1"
    "eng_now e1 = ev_at x" "end_time e1 = end_time e" "next_id e1 = next_id e"
    "eng_now e \<le> eng_now e1" "eng_now e1 \<le> end_time e" "running e1 = running e"
proof -
  have t: "eng_inv e1" "x \<in> pending e" "pending e1 = pending e - {x}"
    "\<forall>y \<in> pending e1. event_key x < event_key y"
    "e1 = e\<lparr>queue := queue e1, by_id := by_id e1, eng_now := ev_at x, executed := u64 (executed e + 1)\<rparr>"
    using take_event_inv[OF assms(1,2)] assms(3) by auto
  have f: "eng_now e1 = ev_at x" "end_time e1 = end_time e" "next_id e1 = next_id e"
    "running e1 = running e"
    by (subst t(5), simp)+
  show "x \<in> pending e" "pending e1 = pending e - {x}" "eng_inv e1"
    "eng_now e1 = ev_at x" "end_time e1 = end_time e" "next_id e1 = next_id e" "running e1 = running e"
    using t f by simp_all
  show "\<And>y. y \<in> pending e1 \<Longrightarrow> event_key x < event_key y" using t(4) by blast
  show "eng_now e \<le> eng_now e1" "eng_now e1 \<le> end_time e"
    using assms(1) t(2) f(1) by (auto simp: eng_inv_def)
qed

section \<open>What a callback may do to the engine\<close>

text \<open>
  Components change the engine only through its calls.  \<open>api_step\<close> is one call,
  \<open>api\<close> any sequence of them.
\<close>

inductive api_step :: "'c engine \<Rightarrow> 'c engine \<Rightarrow> bool" where
  api_schedule: "ScheduleAt e at cb = Some (e', i) \<Longrightarrow> api_step e e'"
| api_cancel: "Cancel e i = Some (e', b) \<Longrightarrow> api_step e e'"
| api_clear: "api_step e (engine_Clear e)"

inductive api :: "'c engine \<Rightarrow> 'c engine \<Rightarrow> bool" where
  api_refl [intro]: "api e e"
| api_more: "api e e' \<Longrightarrow> api_step e' e'' \<Longrightarrow> api e e''"

inductive_cases api_step_cases: "api_step e e'"

lemma api_one: "api_step e e' \<Longrightarrow> api e e'"
  using api_more api_refl by blast

lemma api_trans: "api e e' \<Longrightarrow> api e' e'' \<Longrightarrow> api e e''"
  by (rotate_tac, induction rule: api.induct) (auto intro: api_more)

lemma api_ScheduleAt: "ScheduleAt e at cb = Some (e', i) \<Longrightarrow> api e e'"
  by (auto intro: api_one api_schedule)

lemma api_ScheduleAfter: "ScheduleAfter e d cb = Some (e', i) \<Longrightarrow> api e e'"
  by (auto simp: ScheduleAfter_def intro: api_ScheduleAt split: if_splits)

lemma api_Cancel: "Cancel e i = Some (e', b) \<Longrightarrow> api e e'"
  by (auto intro: api_one api_cancel)

text \<open>A key no pending event precedes: the event now running, for instance.\<close>

definition eng_floor :: "duration \<times> nat \<Rightarrow> 'c engine \<Rightarrow> bool" where
  "eng_floor k e \<longleftrightarrow> fst k = eng_now e \<and> snd k \<le> next_id e \<and>
     (\<forall>x \<in> pending e. k < event_key x)"

lemma api_step_frame:
  assumes "api_step e e'"
  shows "eng_now e' = eng_now e" "end_time e' = end_time e" "executed e' = executed e"
    "max_events e' = max_events e" "running e' = running e"
  using assms
  by (auto elim!: api_step_cases simp: ScheduleAt_def Cancel_def engine_Clear_def Let_def
      split: if_splits option.splits Option.bind_splits)

lemma api_step_keeps:
  assumes "api_step e e'" "eng_inv e"
  shows "eng_inv e' \<and> next_id e \<le> next_id e' \<and> (eng_floor k e \<longrightarrow> eng_floor k e')"
  using assms
proof (cases rule: api_step.cases)
  case (api_schedule at cb i)
  show ?thesis
  proof (cases "i = 0")
    case True
    then have "e' = e" using ScheduleAt_beyond[OF _ assms(2)] api_schedule by simp
    with assms(2) show ?thesis by simp
  next
    case False
    note s = ScheduleAt_inv[OF assms(2) api_schedule False]
    have now: "eng_now e' = eng_now e" using api_step_frame[OF assms(1)] by simp
    show ?thesis
      using s now by (auto simp: eng_floor_def event_key_def less_prod_def)
  qed
next
  case (api_cancel i b)
  have frame: "eng_now e' = eng_now e" using api_step_frame[OF assms(1)] by simp
  show ?thesis
  proof (cases "\<exists>x \<in> pending e. ev_id x = i")
    case True
    then obtain x where x: "x \<in> pending e" "ev_id x = i" by blast
    obtain e2 where c: "Cancel e i = Some (e2, True)" "eng_inv e2" "pending e2 = pending e - {x}"
        "e2 = e\<lparr>queue := queue e2, by_id := by_id e2\<rparr>"
      using Cancel_inv[OF assms(2) x] by blast
    have "e2 = e'" using c(1) api_cancel by simp
    moreover have "next_id e2 = next_id e" by (subst c(4)) simp
    ultimately show ?thesis using c frame by (auto simp: eng_floor_def)
  next
    case False
    then have "e' = e" using Cancel_unknown[OF assms(2), of i] api_cancel by auto
    with assms(2) show ?thesis by simp
  qed
next
  case api_clear
  then show ?thesis using Clear_inv[OF assms(2)] by (auto simp: eng_floor_def engine_Clear_def)
qed

lemma api_keeps:
  assumes "api e e'" "eng_inv e"
  shows "eng_inv e' \<and> next_id e \<le> next_id e' \<and> (eng_floor k e \<longrightarrow> eng_floor k e') \<and>
    eng_now e' = eng_now e \<and> end_time e' = end_time e \<and> executed e' = executed e \<and>
    max_events e' = max_events e \<and> running e' = running e"
  using assms
proof (induction rule: api.induct)
  case (api_more e e' e'')
  then show ?case using api_step_keeps[OF api_more(2), of k] api_step_frame[OF api_more(2)] by simp
qed simp

text \<open>What a delayed call adds, and when it adds nothing.\<close>

lemma ScheduleAfter_zero:
  "eng_inv e \<Longrightarrow> ScheduleAfter e d cb = Some (e', 0) \<Longrightarrow> e' = e \<and> end_time e < eng_now e + d"
  using ScheduleAt_beyond[of e "eng_now e + d" cb e']
  by (auto simp: ScheduleAfter_eq ScheduleAt_def Let_def eng_inv_def split: if_splits)

lemma ScheduleAfter_inv:
  assumes "eng_inv e" "ScheduleAfter e d cb = Some (e', i)" "i \<noteq> 0"
  shows "eng_inv e' \<and> i = next_id e + 1 \<and> next_id e' = i \<and>
    pending e' = insert \<lparr>ev_id = i, ev_at = eng_now e + d, ev_callback = cb\<rparr> (pending e) \<and>
    e' = e\<lparr>next_id := next_id e', queue := queue e', by_id := by_id e'\<rparr> \<and>
    eng_now e + d \<le> end_time e"
  using ScheduleAt_inv[OF assms(1) _ assms(3), of "eng_now e + d" cb e'] assms
  by (auto simp: ScheduleAfter_eq split: if_splits)

lemma ScheduleAfter_next_id:
  "eng_inv e \<Longrightarrow> ScheduleAfter e d cb = Some (e', i) \<Longrightarrow> next_id e' \<le> next_id e + 1"
  using ScheduleAfter_zero[of e d cb e'] ScheduleAfter_inv[of e d cb e' i] by (cases "i = 0") auto

section \<open>Runs\<close>

text \<open>The events a run executes, in order.\<close>

inductive exec_run ::
  "('c, 's) handler \<Rightarrow> duration \<Rightarrow> 'c engine \<times> 's \<Rightarrow> 'c event list \<Rightarrow> 'c engine \<times> 's \<Rightarrow> bool"
  for handler until where
  run_stop: "exec_run handler until es [] es"
| run_event: "arr (queue e) \<noteq> [] \<Longrightarrow> ev_at (arr (queue e) ! 0) \<le> until \<Longrightarrow>
    executed e < max_events e \<Longrightarrow> take_event e = Some (x, e1) \<Longrightarrow>
    handler (ev_callback x) (e1, s) = Some es2 \<Longrightarrow> exec_run handler until es2 xs es3 \<Longrightarrow>
    exec_run handler until (e, s) (x # xs) es3"

text \<open>
  How \<open>RunUntil\<close> may end: the clock at the bound and every pending event later, or the event
  limit reached with a due event left.
\<close>

definition run_result :: "nat \<Rightarrow> duration \<Rightarrow> run_error option \<Rightarrow> 'c engine \<Rightarrow> bool" where
  "run_result limit until r e =
     (case r of
        None \<Rightarrow> eng_now e = until \<and> (\<forall>x \<in> pending e. until < ev_at x)
      | Some err \<Rightarrow> err = ErrEventLimit limit \<and> limit \<le> executed e \<and>
          (\<exists>x \<in> pending e. ev_at x \<le> until))"

lemma run_result_simps [simp]:
  "run_result limit until None e \<longleftrightarrow> eng_now e = until \<and> (\<forall>x \<in> pending e. until < ev_at x)"
  "run_result limit until (Some err) e \<longleftrightarrow> err = ErrEventLimit limit \<and> limit \<le> executed e \<and>
     (\<exists>x \<in> pending e. ev_at x \<le> until)"
  by (simp_all add: run_result_def)

text \<open>
  The contract of a client of the engine: its callbacks, run when the event that carries them
  has just left the queue, do not panic, change the engine by engine calls only, schedule at
  most \<open>budget\<close> events each, and keep the client's own invariant.
\<close>

locale engine_client =
  fixes handler :: "('c, 's) handler"
    and inv :: "'c engine \<Rightarrow> 's \<Rightarrow> bool"
    and budget :: nat
  assumes handler_ok: "\<lbrakk>eng_inv e; inv e s; arr (queue e) \<noteq> []; take_event e = Some (x, e1); eng_inv e1;
      next_id e1 + budget \<le> max_u64\<rbrakk> \<Longrightarrow>
      \<exists>e2 s2. handler (ev_callback x) (e1, s) = Some (e2, s2) \<and> api e1 e2 \<and>
        next_id e2 \<le> next_id e1 + budget \<and> inv e2 s2"
    and inv_clock: "inv e s \<Longrightarrow> eng_now e \<le> t \<Longrightarrow> t \<le> end_time e \<Longrightarrow> inv (e\<lparr>eng_now := t\<rparr>) s"
    and inv_running: "inv e s \<Longrightarrow> inv (e\<lparr>running := b\<rparr>) s"
begin

text \<open>One iteration: the loop's progress and what it keeps.\<close>

lemma iteration:
  assumes "eng_inv e" "inv e s" "arr (queue e) \<noteq> []" "executed e < max_events e"
    "max_events e \<le> max_u64" "next_id e + budget * (max_events e - executed e) \<le> max_u64"
  shows "\<exists>x e1 e2 s2. take_event e = Some (x, e1) \<and> x = arr (queue e) ! 0 \<and>
    handler (ev_callback x) (e1, s) = Some (e2, s2) \<and> eng_inv e2 \<and> inv e2 s2 \<and>
    x \<in> pending e \<and> eng_now e2 = ev_at x \<and> end_time e2 = end_time e \<and> running e2 = running e \<and>
    max_events e2 = max_events e \<and> executed e2 = executed e + 1 \<and>
    next_id e2 + budget * (max_events e2 - executed e2) \<le> max_u64 \<and>
    eng_floor (event_key x) e2"
proof -
  obtain x e1 where t: "take_event e = Some (x, e1)" "x = arr (queue e) ! 0" "eng_inv e1"
    "x \<in> pending e" "pending e1 = pending e - {x}" "\<forall>y \<in> pending e1. event_key x < event_key y"
    "e1 = e\<lparr>queue := queue e1, by_id := by_id e1, eng_now := ev_at x, executed := u64 (executed e + 1)\<rparr>"
    using take_event_inv[OF assms(1,3)] by metis
  have n1: "next_id e1 = next_id e" "eng_now e1 = ev_at x" "executed e1 = executed e + 1"
    "max_events e1 = max_events e" "end_time e1 = end_time e" "running e1 = running e"
    by (subst t(7); use assms(4,5) in simp)+
  obtain m where m: "max_events e - executed e = Suc m"
    using assms(4) by (metis Suc_diff_Suc)
  then have b: "next_id e1 + budget \<le> max_u64" "m = max_events e - (executed e + 1)"
    using assms(6) n1 by (auto simp: algebra_simps)
  obtain e2 s2 where h: "handler (ev_callback x) (e1, s) = Some (e2, s2)" "api e1 e2"
    "next_id e2 \<le> next_id e1 + budget" "inv e2 s2"
    using handler_ok[OF assms(1-3) t(1,3) b(1)] by blast
  have "eng_floor (event_key x) e1"
    using t(4,6) n1 assms(1) by (auto simp: eng_floor_def event_key_def eng_inv_def)
  then have k: "eng_inv e2 \<and> eng_floor (event_key x) e2 \<and> eng_now e2 = eng_now e1 \<and>
      end_time e2 = end_time e1 \<and> executed e2 = executed e1 \<and> max_events e2 = max_events e1 \<and>
      running e2 = running e1"
    using api_keeps[OF h(2) t(3), of "event_key x"] by simp
  have "next_id e2 + budget * (max_events e2 - executed e2) \<le> max_u64"
    using k n1 b h(3) m assms(6) by (simp add: algebra_simps)
  with t h k n1 show ?thesis by auto
qed

lemma run_loop_total:
  assumes "eng_inv e" "inv e s" "eng_now e \<le> until" "until \<le> end_time e"
    "max_events e \<le> max_u64" "next_id e + budget * (max_events e - executed e) \<le> max_u64"
  shows "\<exists>r e' s'. run_loop handler until e s = Some (r, e', s') \<and> eng_inv e' \<and> inv e' s' \<and>
    running e' = running e \<and> end_time e' = end_time e \<and> max_events e' = max_events e \<and>
    executed e \<le> executed e' \<and>
    run_result (max_events e) until r e'"
  using assms
proof (induction "max_events e - executed e" arbitrary: e s rule: less_induct)
  case less
  note p = less.prems
  let ?root = "arr (queue e) ! 0"
  consider (stop) "arr (queue e) = [] \<or> (arr (queue e) \<noteq> [] \<and> until < ev_at ?root)"
    | (limit) "arr (queue e) \<noteq> []" "ev_at ?root \<le> until" "max_events e \<le> executed e"
    | (go) "arr (queue e) \<noteq> []" "ev_at ?root \<le> until" "executed e < max_events e"
    by linarith
  then show ?case
  proof cases
    case stop
    have later: "until < ev_at x" if "x \<in> pending e" for x
    proof -
      have "arr (queue e) \<noteq> []" using that by (auto simp: pending_def)
      moreover have "event_key ?root \<le> event_key x"
        using evq.root_least[OF _ that[unfolded pending_def]] eng_invD(1)[OF p(1)]
        by (simp add: evq.heap_inv_def)
      then have "ev_at ?root \<le> ev_at x" by (auto simp: event_key_def less_eq_prod_def)
      ultimately show ?thesis using stop by auto
    qed
    have r: "run_loop handler until e s = Some (None, e\<lparr>eng_now := until\<rparr>, s)"
      using stop by (subst run_loop.simps) auto
    moreover have "eng_inv (e\<lparr>eng_now := until\<rparr>)"
      using p(1,3,4) later by (fastforce simp: eng_inv_def)
    ultimately show ?thesis using inv_clock[OF p(2,3,4)] later by simp
  next
    case limit
    then have "run_loop handler until e s = Some (Some (ErrEventLimit (max_events e)), e, s)"
      by (subst run_loop.simps) auto
    then show ?thesis using p limit by (auto simp: pending_def intro!: bexI[of _ ?root])
  next
    case go
    obtain x e1 e2 s2 where it: "take_event e = Some (x, e1)" "x = ?root"
      "handler (ev_callback x) (e1, s) = Some (e2, s2)" "eng_inv e2" "inv e2 s2"
      "eng_now e2 = ev_at x" "end_time e2 = end_time e" "running e2 = running e"
      "max_events e2 = max_events e" "executed e2 = executed e + 1"
      "next_id e2 + budget * (max_events e2 - executed e2) \<le> max_u64"
      using iteration[OF p(1,2) go(1,3) p(5,6)] by blast
    have step: "run_loop handler until e s = run_loop handler until e2 s2"
      using go it(1,3) by (subst run_loop.simps) auto
    have "max_events e2 - executed e2 < max_events e - executed e" using it go by simp
    from less.hyps[OF this it(4,5)] it go p show ?thesis by (auto simp: step)
  qed
qed

text \<open>\<open>RunUntil\<close> returns: at the bound, or with the event limit reached.\<close>

theorem RunUntil_total:
  assumes "eng_inv e" "inv e s" "\<not> running e" "eng_now e \<le> until" "until \<le> end_time e"
    "max_events e \<le> max_u64" "next_id e + budget * (max_events e - executed e) \<le> max_u64"
  shows "\<exists>r e' s'. RunUntil handler until e s = Some (r, e', s') \<and> eng_inv e' \<and> inv e' s' \<and>
    \<not> running e' \<and>
    run_result (max_events e) until r e'"
proof -
  obtain r e' s' where r: "run_loop handler until (e\<lparr>running := True\<rparr>) s = Some (r, e', s')"
    "eng_inv e'" "inv e' s'"
    "run_result (max_events e) until r e'" "end_time e' = end_time e"
    using run_loop_total[of "e\<lparr>running := True\<rparr>" s until] assms inv_running[OF assms(2), of True]
    by auto
  then show ?thesis
    using assms(3-5) inv_running[OF r(3), of False]
    by (auto simp: RunUntil_def run_result_def split: option.splits)
qed

text \<open>The events of a run are executed in strictly increasing order of time and identifier.\<close>

lemma exec_run_sorted:
  assumes "exec_run handler until (e, s) xs es'" "eng_inv e" "inv e s" "max_events e \<le> max_u64"
    "next_id e + budget * (max_events e - executed e) \<le> max_u64"
  shows "sorted_wrt (<) (map event_key xs) \<and> (\<forall>k. eng_floor k e \<longrightarrow> (\<forall>x \<in> set xs. k < event_key x))"
  using assms
proof (induction xs arbitrary: e s)
  case Nil then show ?case by simp
next
  case (Cons x xs)
  from Cons.prems(1) obtain e1 es2 where st: "arr (queue e) \<noteq> []" "executed e < max_events e"
    "take_event e = Some (x, e1)" "handler (ev_callback x) (e1, s) = Some es2"
    "exec_run handler until es2 xs es'"
    by (cases rule: exec_run.cases) auto
  obtain e2 s2 where it: "es2 = (e2, s2)" "eng_inv e2" "inv e2 s2" "x \<in> pending e"
    "max_events e2 = max_events e" "eng_floor (event_key x) e2"
    "next_id e2 + budget * (max_events e2 - executed e2) \<le> max_u64"
    using iteration[OF Cons.prems(2,3) st(1,2) Cons.prems(4,5)] st(3,4) by auto
  have IH: "sorted_wrt (<) (map event_key xs) \<and>
      (\<forall>k. eng_floor k e2 \<longrightarrow> (\<forall>x \<in> set xs. k < event_key x))"
    using Cons.IH[of e2 s2] st(5) it Cons.prems(4) by simp
  have "\<forall>y \<in> set xs. event_key x < event_key y" using IH it(6) by blast
  moreover have "k < event_key x" if "eng_floor k e" for k
    using that it(4) by (auto simp: eng_floor_def)
  ultimately show ?case using IH by (auto intro: less_trans)
qed

text \<open>What the loop computes is a run.\<close>

lemma run_loop_exec_run:
  assumes "run_loop handler until e s = Some (r, e', s')" "eng_inv e" "inv e s" "max_events e \<le> max_u64"
    "next_id e + budget * (max_events e - executed e) \<le> max_u64"
  shows "\<exists>xs e2. exec_run handler until (e, s) xs (e2, s') \<and> executed e2 = executed e + length xs \<and>
    e' = (if r = None then e2\<lparr>eng_now := until\<rparr> else e2)"
  using assms
proof (induction "max_events e - executed e" arbitrary: e s rule: less_induct)
  case less
  note p = less.prems
  show ?case
  proof (cases "arr (queue e) \<noteq> [] \<and> ev_at (arr (queue e) ! 0) \<le> until \<and> executed e < max_events e")
    case False
    then have "s' = s \<and> e' = (if r = None then e\<lparr>eng_now := until\<rparr> else e)"
      using p(1) by (subst (asm) run_loop.simps) (auto split: if_splits)
    then show ?thesis by (auto intro!: exI[of _ "[]"] exI[of _ e] run_stop)
  next
    case True
    then obtain x e1 e2 s2 where it: "take_event e = Some (x, e1)"
      "handler (ev_callback x) (e1, s) = Some (e2, s2)" "eng_inv e2" "inv e2 s2"
      "max_events e2 = max_events e" "executed e2 = executed e + 1"
      "next_id e2 + budget * (max_events e2 - executed e2) \<le> max_u64"
      using iteration[of e s] p by blast
    have "run_loop handler until e2 s2 = Some (r, e', s')"
      using p(1) True it(1,2) by (subst (asm) run_loop.simps) auto
    moreover have "max_events e2 - executed e2 < max_events e - executed e"
      using it(5,6) True by linarith
    ultimately obtain xs e3 where xs: "exec_run handler until (e2, s2) xs (e3, s')"
      "executed e3 = executed e2 + length xs"
      "e' = (if r = None then e3\<lparr>eng_now := until\<rparr> else e3)"
      using less.hyps[of e2 s2] it p by auto
    have "exec_run handler until (e, s) (x # xs) (e3, s')"
      using True it(1,2) xs(1) by (auto intro: run_event)
    with xs it show ?thesis by (intro exI[of _ "x # xs"] exI[of _ e3]) auto
  qed
qed

end

section \<open>Properties of the queue\<close>

text \<open>
  The engines that calls can produce: a new engine, any call, and the loop taking the event
  at the head of the queue.
\<close>

inductive engine_reach :: "'c engine \<Rightarrow> bool" where
  engine_fresh: "engine_New t = Some e \<Longrightarrow> t \<le> max_i64 \<Longrightarrow> engine_reach e"
| engine_call: "engine_reach e \<Longrightarrow> api_step e e' \<Longrightarrow> engine_reach e'"
| engine_take: "engine_reach e \<Longrightarrow> take_event e = Some (x, e') \<Longrightarrow> engine_reach e'"

lemma engine_reach_inv: "engine_reach e \<Longrightarrow> eng_inv e"
proof (induction rule: engine_reach.induct)
  case (engine_take e x e')
  have "arr (queue e) \<noteq> []"
    using engine_take(2) by (auto simp: take_event_def heap_Pop_def split: if_splits)
  then show ?case using take_event_inv[OF engine_take(3)] engine_take(2) by auto
qed (use engine_New_inv api_step_keeps in blast)+

definition demo_queue :: "nat engine" where
  "demo_queue = fst (the (ScheduleAt (the (engine_New 100)) 10 7))"

lemmas engine_eval = demo_queue_def engine_New_def ScheduleAt_def ScheduleAfter_def Cancel_def Let_def
  max_u64_def max_i64_def u64_def i64_def heap_Push_def heap_empty_def heap_append_def heap_up.simps
  heap_Remove_def heap_Pop_def heap_drop_last_def heap_Swap_def heap_down.simps heap_child_def
  take_event_def pending_def

lemma demo_queue_reach: "engine_reach demo_queue"
proof -
  obtain e :: "nat engine" where e: "engine_New 100 = Some e" by (simp add: engine_New_def)
  then have "ScheduleAt e 10 7 = Some (demo_queue, 1)"
    by (auto simp: engine_eval)
  with engine_fresh[OF e] show ?thesis
    by (auto simp: max_i64_def intro: engine_call api_schedule)
qed

text \<open>C4: ScheduleAt panics exactly when the time has passed or no identifier is left, refuses a time
  beyond the end with identifier zero and without any change, and otherwise adds one event, with
  the next identifier, to the pending ones.\<close>

theorem engine_ScheduleAt_spec:
  assumes "engine_reach e"
  shows "case ScheduleAt e at cb of
      None \<Rightarrow> at < eng_now e \<or> (at \<le> end_time e \<and> next_id e = max_u64)
    | Some (e', i) \<Rightarrow> eng_now e \<le> at \<and>
        (if end_time e < at then i = 0 \<and> e' = e
         else i = next_id e + 1 \<and> (\<forall>x \<in> pending e. ev_id x \<noteq> i) \<and> eng_inv e' \<and>
           pending e' = insert \<lparr>ev_id = i, ev_at = at, ev_callback = cb\<rparr> (pending e))"
proof -
  note e = engine_reach_inv[OF assms]
  show ?thesis
  proof (cases "ScheduleAt e at cb")
    case None
    then show ?thesis using eng_invD(2)[OF e] by (auto simp: ScheduleAt_def Let_def split: if_splits)
  next
    case (Some r)
    obtain e' i where r: "r = (e', i)" by force
    note s = Some[unfolded r]
    have "eng_now e \<le> at" using s by (auto simp: ScheduleAt_def split: if_splits)
    moreover have "i = 0 \<and> e' = e" if "end_time e < at"
      using s that by (auto simp: ScheduleAt_def split: if_splits)
    moreover have "i \<noteq> 0" if "\<not> end_time e < at"
      using s that eng_invD(5)[OF e] by (auto simp: ScheduleAt_def Let_def split: if_splits)
    moreover have "\<forall>x \<in> pending e. ev_id x \<noteq> next_id e + 1"
      using e by (force simp: eng_inv_def)
    ultimately show ?thesis using ScheduleAt_inv[OF e s] Some r by auto
  qed
qed

theorem engine_ScheduleAt_spec_witness:
  "engine_reach demo_queue \<and> (\<exists>e'. ScheduleAt demo_queue 10 8 = Some (e', 2)) \<and>
   (case ScheduleAt demo_queue 10 8 of
      None \<Rightarrow> 10 < eng_now demo_queue \<or> (10 \<le> end_time demo_queue \<and> next_id demo_queue = max_u64)
    | Some (e', i) \<Rightarrow> eng_now demo_queue \<le> 10 \<and>
        (if end_time demo_queue < 10 then i = 0 \<and> e' = demo_queue
         else i = next_id demo_queue + 1 \<and> (\<forall>x \<in> pending demo_queue. ev_id x \<noteq> i) \<and> eng_inv e' \<and>
           pending e' = insert \<lparr>ev_id = i, ev_at = 10, ev_callback = 8\<rparr> (pending demo_queue)))"
proof -
  have "\<exists>e'. ScheduleAt demo_queue 10 8 = Some (e', 2)" by (simp add: engine_eval)
  with demo_queue_reach engine_ScheduleAt_spec[OF demo_queue_reach, of 10 8] show ?thesis by simp
qed

text \<open>C5: ScheduleAfter adds the delay to the clock exactly: no delay, however large, wraps around the
  range of \<open>time.Duration\<close> into an event that is due too early.\<close>

theorem engine_ScheduleAfter_exact:
  assumes "engine_reach e"
  shows "ScheduleAfter e delay cb =
    (if delay < 0 then None else if end_time e < eng_now e + delay then Some (e, 0)
     else ScheduleAt e (eng_now e + delay) cb)"
  using ScheduleAfter_eq[OF engine_reach_inv[OF assms]] .

theorem engine_ScheduleAfter_exact_witness:
  "engine_reach demo_queue \<and> ScheduleAfter demo_queue max_i64 8 = Some (demo_queue, 0)"
  using demo_queue_reach engine_ScheduleAfter_exact[OF demo_queue_reach, of max_i64 8]
  by (simp add: engine_eval)

text \<open>Cancel removes the event with the given identifier and no other, and answers false without a
  change when no such event is pending.\<close>

lemma engine_Cancel_exact:
  assumes "engine_reach e"
  shows "\<exists>e' b. Cancel e i = Some (e', b) \<and> eng_inv e' \<and> b = (\<exists>x \<in> pending e. ev_id x = i) \<and>
    pending e' = {x \<in> pending e. ev_id x \<noteq> i} \<and> (\<not> b \<longrightarrow> e' = e) \<and> eng_now e' = eng_now e"
proof (cases "\<exists>x \<in> pending e. ev_id x = i")
  case True
  note e = engine_reach_inv[OF assms]
  from True obtain x where x: "x \<in> pending e" "ev_id x = i" by blast
  obtain e' where c: "Cancel e i = Some (e', True)" "eng_inv e'" "pending e' = pending e - {x}"
    "e' = e\<lparr>queue := queue e', by_id := by_id e'\<rparr>"
    using Cancel_inv[OF e x] by blast
  have "eng_now e' = eng_now e" by (subst c(4)) simp
  moreover have "y = x \<longleftrightarrow> ev_id y = i" if "y \<in> pending e" for y
    using pending_id_inj[OF e that x(1)] x(2) by metis
  ultimately show ?thesis using c(1-3) True by blast
next
  case False
  then have "Cancel e i = Some (e, False)" using Cancel_unknown[OF engine_reach_inv[OF assms]] by blast
  moreover have "pending e = {x \<in> pending e. ev_id x \<noteq> i}" using False by blast
  ultimately show ?thesis
    using False engine_reach_inv[OF assms] by (intro exI[of _ e] exI[of _ False]) simp
qed

lemma engine_Cancel_exact_witness:
  "engine_reach demo_queue \<and> ev_id ` pending demo_queue = {1} \<and>
   (\<exists>e' b. Cancel demo_queue 1 = Some (e', b) \<and> eng_inv e' \<and> b = (\<exists>x \<in> pending demo_queue. ev_id x = 1) \<and>
      pending e' = {x \<in> pending demo_queue. ev_id x \<noteq> 1} \<and> (\<not> b \<longrightarrow> e' = demo_queue) \<and>
      eng_now e' = eng_now demo_queue)"
proof -
  have "ev_id ` pending demo_queue = {1}" by (simp add: engine_eval)
  with demo_queue_reach engine_Cancel_exact[OF demo_queue_reach, of 1] show ?thesis by blast
qed

text \<open>C6: The loop takes the pending event that is least in time and, at equal times, the one scheduled
  first; the others stay, and the clock moves forward to the event's time.\<close>

theorem engine_takes_earliest:
  assumes "engine_reach e" "pending e \<noteq> {}"
  shows "\<exists>x e'. take_event e = Some (x, e') \<and> x \<in> pending e \<and> pending e' = pending e - {x} \<and>
    (\<forall>y \<in> pending e - {x}. ev_at x < ev_at y \<or> (ev_at x = ev_at y \<and> ev_id x < ev_id y)) \<and>
    eng_now e' = ev_at x \<and> eng_now e \<le> ev_at x"
proof -
  note e = engine_reach_inv[OF assms(1)]
  have ne: "arr (queue e) \<noteq> []" using assms(2) by (simp add: pending_def)
  obtain x e' where t: "take_event e = Some (x, e')" using take_event_inv[OF e ne] by blast
  note f = take_event_facts[OF e ne t]
  have "ev_at x < ev_at y \<or> (ev_at x = ev_at y \<and> ev_id x < ev_id y)" if "y \<in> pending e - {x}" for y
    using f(3)[of y] that unfolding f(2) by (auto simp: event_key_def)
  with t f show ?thesis by auto
qed

theorem engine_takes_earliest_witness:
  "engine_reach demo_queue \<and> pending demo_queue \<noteq> {} \<and>
   (\<exists>x e'. take_event demo_queue = Some (x, e') \<and> x \<in> pending demo_queue \<and> eng_now e' = ev_at x)"
proof -
  have "pending demo_queue \<noteq> {}" by (simp add: engine_eval)
  with demo_queue_reach engine_takes_earliest[OF demo_queue_reach] show ?thesis by blast
qed

end
