(* ===== verification/SliceQueue.thy ===== *)
theory SliceQueue
  imports Prelude
begin

text \<open>
  The FIFO that the host, the links, the egress outputs and the ingress inputs each keep: a
  slice with a moving head, whose consumed prefix is reclaimed only when it is long and at
  least as long as the rest.  A consumed slot holds the zero value, \<open>None\<close> here.
  The locale \<open>fifo\<close> states what the clients rely on and proves the first-in first-out
  discipline from it; it is interpreted on the slice at the end.
\<close>

text \<open>Go's \<open>copy\<close>: as many leading elements as both slices have.\<close>

definition go_copy :: "'a list \<Rightarrow> 'a list \<Rightarrow> 'a list" where
  "go_copy dst src = take (length dst) src @ drop (length src) dst"

lemma length_go_copy [simp]: "length (go_copy dst src) = length dst"
  by (simp add: go_copy_def)

lemma take_go_copy: "length src \<le> length dst \<Longrightarrow> take (length src) (go_copy dst src) = src"
  by (simp add: go_copy_def)

record 'a slice_queue =
  sq_slots :: "'a option list"
  sq_head :: nat

definition sq_empty :: "'a slice_queue" where
  "sq_empty = \<lparr>sq_slots = [], sq_head = 0\<rparr>"

definition sq_queued :: "'a slice_queue \<Rightarrow> nat" where
  "sq_queued q = length (sq_slots q) - sq_head q"

definition sq_append :: "'a \<Rightarrow> 'a slice_queue \<Rightarrow> 'a slice_queue" where
  "sq_append x q = q\<lparr>sq_slots := sq_slots q @ [Some x]\<rparr>"

definition minConsumedSlots :: nat where
  "minConsumedSlots = 1024"

definition sq_front :: "'a slice_queue \<Rightarrow> 'a option" where
  "sq_front q = (if sq_head q < length (sq_slots q) then sq_slots q ! sq_head q else None)"

text \<open>Taking the front of an exhausted queue is an index out of range: a panic.\<close>

definition sq_drop_front :: "'a slice_queue \<Rightarrow> 'a slice_queue option" where
  "sq_drop_front q =
     (if length (sq_slots q) \<le> sq_head q then None
      else
        let slots = (sq_slots q)[sq_head q := None];
            head = sq_head q + 1;
            remaining = length slots - head
        in if remaining = 0 then Some \<lparr>sq_slots = [], sq_head = 0\<rparr>
           else if minConsumedSlots \<le> head \<and> remaining \<le> head
           then Some \<lparr>sq_slots = take remaining (go_copy slots (drop head slots)), sq_head = 0\<rparr>
           else Some \<lparr>sq_slots = slots, sq_head = head\<rparr>)"

definition sq_ok :: "'a slice_queue \<Rightarrow> bool" where
  "sq_ok q \<longleftrightarrow> sq_head q \<le> length (sq_slots q) \<and> None \<notin> set (drop (sq_head q) (sq_slots q))"

definition sq_list :: "'a slice_queue \<Rightarrow> 'a list" where
  "sq_list q = map the (drop (sq_head q) (sq_slots q))"

lemma sq_queued_list [simp]: "sq_queued q = length (sq_list q)"
  by (simp add: sq_queued_def sq_list_def)

lemma sq_ok_empty [simp]: "sq_ok sq_empty"
  by (simp add: sq_ok_def sq_empty_def)

lemma sq_list_empty [simp]: "sq_list sq_empty = []"
  by (simp add: sq_list_def sq_empty_def)

lemma sq_append_ok [simp]: "sq_ok q \<Longrightarrow> sq_ok (sq_append x q)"
  by (auto simp: sq_ok_def sq_append_def)

lemma sq_append_list [simp]: "sq_ok q \<Longrightarrow> sq_list (sq_append x q) = sq_list q @ [x]"
  by (simp add: sq_ok_def sq_append_def sq_list_def)

lemma sq_front_list:
  "sq_ok q \<Longrightarrow> sq_front q = (case sq_list q of [] \<Rightarrow> None | x # _ \<Rightarrow> Some x)"
proof (cases "sq_head q < length (sq_slots q)")
  case True
  assume "sq_ok q"
  then have "sq_slots q ! sq_head q \<noteq> None"
    using True unfolding sq_ok_def by (metis Cons_nth_drop_Suc list.set_intros(1))
  then show ?thesis
    using True by (auto simp: sq_front_def sq_list_def simp flip: Cons_nth_drop_Suc)
qed (simp add: sq_front_def sq_list_def)

lemma sq_drop_front_correct:
  assumes ok: "sq_ok q" and l: "sq_list q = x # xs"
  shows "\<exists>q'. sq_drop_front q = Some q' \<and> sq_ok q' \<and> sq_list q' = xs"
proof -
  have h: "sq_head q < length (sq_slots q)"
    using l by (metis drop_all leI list.distinct(1) list.map(1) sq_list_def)
  let ?s = "(sq_slots q)[sq_head q := None]" let ?h = "sq_head q + 1"
  have d: "drop ?h ?s = drop ?h (sq_slots q)" by simp
  have split: "drop (sq_head q) (sq_slots q) = sq_slots q ! sq_head q # drop ?h (sq_slots q)"
    using Cons_nth_drop_Suc[OF h] by simp
  have xs: "xs = map the (drop ?h (sq_slots q))" using l split by (simp add: sq_list_def)
  have nn: "None \<notin> set (drop ?h (sq_slots q))" using ok split by (simp add: sq_ok_def)
  have cp: "take (length ?s - ?h) (go_copy ?s (drop ?h ?s)) = drop ?h (sq_slots q)"
    using take_go_copy[of "drop ?h ?s" ?s] by simp
  show ?thesis
    using h xs nn cp by (auto simp: sq_drop_front_def Let_def sq_ok_def sq_list_def)
qed

section \<open>What the clients rely on\<close>

locale fifo =
  fixes emp :: "'q"
    and enq :: "'a \<Rightarrow> 'q \<Rightarrow> 'q"
    and front :: "'q \<Rightarrow> 'a option"
    and deq :: "'q \<Rightarrow> 'q option"
    and contents :: "'q \<Rightarrow> 'a list"
    and ok :: "'q \<Rightarrow> bool"
  assumes ok_emp: "ok emp" and contents_emp: "contents emp = []"
    and ok_enq: "ok q \<Longrightarrow> ok (enq x q)"
    and contents_enq: "ok q \<Longrightarrow> contents (enq x q) = contents q @ [x]"
    and front_contents: "ok q \<Longrightarrow> front q = (case contents q of [] \<Rightarrow> None | x # _ \<Rightarrow> Some x)"
    and deq_contents: "ok q \<Longrightarrow> contents q = x # xs \<Longrightarrow>
      \<exists>q'. deq q = Some q' \<and> ok q' \<and> contents q' = xs"
begin

definition pull :: "'q \<Rightarrow> ('a \<times> 'q) option" where
  "pull q = (case front q of None \<Rightarrow> None | Some x \<Rightarrow> map_option (Pair x) (deq q))"

lemma pull_contents:
  "ok q \<Longrightarrow> contents q = x # xs \<Longrightarrow> \<exists>q'. pull q = Some (x, q') \<and> ok q' \<and> contents q' = xs"
  using deq_contents[of q x xs] by (auto simp: pull_def front_contents)

lemma pull_inverse:
  "ok q \<Longrightarrow> pull q = Some (x, q') \<Longrightarrow> ok q' \<and> contents q = x # contents q'"
  using pull_contents[of q] by (cases "contents q") (auto simp: pull_def front_contents)

text \<open>Elements leave in the order in which they entered, whatever the interleaving.\<close>

fun drain :: "nat \<Rightarrow> 'q \<Rightarrow> 'a list \<times> 'q" where
  "drain 0 q = ([], q)"
| "drain (Suc n) q =
     (case pull q of None \<Rightarrow> ([], q) | Some (x, q') \<Rightarrow> let (xs, r) = drain n q' in (x # xs, r))"

lemma drain_contents:
  "ok q \<Longrightarrow> fst (drain n q) = take n (contents q) \<and> ok (snd (drain n q)) \<and>
     contents (snd (drain n q)) = drop n (contents q)"
proof (induction n arbitrary: q)
  case (Suc n)
  show ?case
  proof (cases "contents q")
    case Nil
    then have "pull q = None" using Suc.prems by (simp add: pull_def front_contents)
    with Nil Suc.prems show ?thesis by simp
  next
    case (Cons x xs)
    then obtain q' where q': "pull q = Some (x, q')" "ok q'" "contents q' = xs"
      using pull_contents[OF Suc.prems] by blast
    with Suc.IH[OF q'(2)] Cons show ?thesis by (simp add: case_prod_beta Let_def)
  qed
qed simp

lemma fold_enq: "ok q \<Longrightarrow> ok (fold enq xs q) \<and> contents (fold enq xs q) = contents q @ xs"
  by (induction xs arbitrary: q) (auto simp: ok_enq contents_enq)

end

interpretation sq: fifo sq_empty sq_append sq_front sq_drop_front sq_list sq_ok
  by unfold_locales (auto simp: sq_front_list intro: sq_drop_front_correct)

text \<open>The front element and the rest, as \<open>Link.pop\<close> and \<open>Host.pop\<close> return them.\<close>

definition sq_pop :: "'a slice_queue \<Rightarrow> ('a \<times> 'a slice_queue) option" where
  "sq_pop q = (case sq_front q of None \<Rightarrow> None | Some x \<Rightarrow> map_option (Pair x) (sq_drop_front q))"

lemma sq_pop_pull: "sq_pop q = sq.pull q"
  by (simp add: sq_pop_def sq.pull_def)

lemmas sq_pop_contents = sq.pull_contents[folded sq_pop_pull]
lemmas sq_pop_inverse = sq.pull_inverse[folded sq_pop_pull]

lemma sq_pop_None: "sq_ok q \<Longrightarrow> sq_pop q = None \<longleftrightarrow> sq_list q = []"
  using sq_pop_contents[of q] by (cases "sq_list q") (auto simp: sq_pop_def sq_front_list)

end
