(* ===== verification/Float64.thy ===== *)
theory Float64
  imports Complex_Main "HOL-Library.Log_Nat"
begin

text \<open>
  Go's \<open>float64\<close>: rational numbers rounded to 53 significant bits, ties to even, with
  gradual underflow and the two infinities, and NaN.  The sign of zero is not kept: no code
  of the simulator can tell the two zeros apart.  The functions compute, so that thresholds and
  windows that the code derives in floating point are derived in the same way here.
\<close>

datatype f64 = Fin rat | Inf bool | NaN

text \<open>The floor of the binary logarithm of a positive rational.\<close>

definition rat_log2 :: "rat \<Rightarrow> int" where
  "rat_log2 x =
     (if 1 \<le> x then int (floorlog 2 (nat \<lfloor>x\<rfloor>)) - 1
      else - int (floorlog 2 (nat (\<lceil>1 / x\<rceil> - 1))))"

definition round_half_even :: "rat \<Rightarrow> int" where
  "round_half_even x =
     (let r = \<lfloor>x\<rfloor>; d = x - of_int r
      in if d < 1 / 2 then r else if 1 / 2 < d then r + 1 else if even r then r else r + 1)"

definition pow2 :: "int \<Rightarrow> rat" where
  "pow2 e = (if 0 \<le> e then 2 ^ nat e else 1 / 2 ^ nat (- e))"

definition f64_round :: "rat \<Rightarrow> f64" where
  "f64_round x =
     (if x = 0 then Fin 0
      else
        let ulp = pow2 (max (rat_log2 \<bar>x\<bar> - 52) (- 1074));
            y = of_int (round_half_even (x / ulp)) * ulp
        in if 2 ^ 1024 \<le> \<bar>y\<bar> then Inf (y < 0) else Fin y)"

definition f64_of_int :: "int \<Rightarrow> f64" where
  "f64_of_int n = f64_round (of_int n)"

fun f64_mul :: "f64 \<Rightarrow> f64 \<Rightarrow> f64" where
  "f64_mul (Fin a) (Fin b) = f64_round (a * b)"
| "f64_mul (Inf s) (Inf t) = Inf (s \<noteq> t)"
| "f64_mul (Fin a) (Inf t) = (if a = 0 then NaN else Inf ((a < 0) \<noteq> t))"
| "f64_mul (Inf s) (Fin b) = (if b = 0 then NaN else Inf (s \<noteq> (b < 0)))"
| "f64_mul _ _ = NaN"

text \<open>A zero divisor is taken as positive; the code divides by positive numbers only.\<close>

fun f64_div :: "f64 \<Rightarrow> f64 \<Rightarrow> f64" where
  "f64_div (Fin a) (Fin b) = (if b = 0 then if a = 0 then NaN else Inf (a < 0) else f64_round (a / b))"
| "f64_div (Inf s) (Fin b) = Inf (s \<noteq> (b < 0))"
| "f64_div (Fin a) (Inf t) = Fin 0"
| "f64_div _ _ = NaN"

fun f64_ceil :: "f64 \<Rightarrow> f64" where
  "f64_ceil (Fin a) = Fin (of_int \<lceil>a\<rceil>)"
| "f64_ceil x = x"

fun f64_lt :: "f64 \<Rightarrow> f64 \<Rightarrow> bool" where
  "f64_lt (Fin a) (Fin b) = (a < b)"
| "f64_lt (Inf s) (Inf t) = (s \<and> \<not> t)"
| "f64_lt (Fin a) (Inf t) = (\<not> t)"
| "f64_lt (Inf s) (Fin b) = s"
| "f64_lt _ _ = False"

fun f64_eq :: "f64 \<Rightarrow> f64 \<Rightarrow> bool" where
  "f64_eq NaN _ = False"
| "f64_eq _ NaN = False"
| "f64_eq x y = (x = y)"

fun f64_is_inf :: "f64 \<Rightarrow> bool" where
  "f64_is_inf (Inf _) = True"
| "f64_is_inf _ = False"

fun f64_min :: "f64 \<Rightarrow> f64 \<Rightarrow> f64" where
  "f64_min NaN _ = NaN"
| "f64_min _ NaN = NaN"
| "f64_min x y = (if f64_lt y x then y else x)"

fun f64_max :: "f64 \<Rightarrow> f64 \<Rightarrow> f64" where
  "f64_max NaN _ = NaN"
| "f64_max _ NaN = NaN"
| "f64_max x y = (if f64_lt x y then y else x)"

fun f64_add :: "f64 \<Rightarrow> f64 \<Rightarrow> f64" where
  "f64_add (Fin a) (Fin b) = f64_round (a + b)"
| "f64_add (Inf s) (Inf t) = (if s = t then Inf s else NaN)"
| "f64_add (Fin a) (Inf t) = Inf t"
| "f64_add (Inf s) (Fin b) = Inf s"
| "f64_add _ _ = NaN"

fun f64_neg :: "f64 \<Rightarrow> f64" where
  "f64_neg (Fin a) = Fin (- a)"
| "f64_neg (Inf s) = Inf (\<not> s)"
| "f64_neg NaN = NaN"

definition f64_sub :: "f64 \<Rightarrow> f64 \<Rightarrow> f64" where
  "f64_sub x y = f64_add x (f64_neg y)"

definition f64_le :: "f64 \<Rightarrow> f64 \<Rightarrow> bool" where
  "f64_le x y \<longleftrightarrow> f64_lt x y \<or> f64_eq x y"

section \<open>Exact integers\<close>

lemma pow2_pos [simp]: "0 < pow2 e"
  by (simp add: pow2_def)

lemma pow2_add: "pow2 (a + b) = pow2 a * pow2 b"
proof -
  have p: "pow2 e = 2 powi e" for e
    by (simp add: pow2_def power_int_def inverse_eq_divide power_one_over)
  show ?thesis unfolding p by (simp add: power_int_add)
qed

lemma round_half_even_int [simp]: "round_half_even (of_int n) = n"
  by (simp add: round_half_even_def Let_def)

lemma round_half_even_mono: "x \<le> y \<Longrightarrow> round_half_even x \<le> round_half_even y"
proof -
  assume xy: "x \<le> y"
  have f: "\<lfloor>x\<rfloor> \<le> \<lfloor>y\<rfloor>" using xy by (rule floor_mono)
  have b: "\<lfloor>z\<rfloor> \<le> round_half_even z \<and> round_half_even z \<le> \<lfloor>z\<rfloor> + 1" for z
    by (simp add: round_half_even_def Let_def)
  show ?thesis
  proof (cases "\<lfloor>x\<rfloor> = \<lfloor>y\<rfloor>")
    case True
    then show ?thesis using xy by (auto simp: round_half_even_def Let_def)
  next
    case False
    then have "\<lfloor>x\<rfloor> + 1 \<le> \<lfloor>y\<rfloor>" using f by linarith
    then show ?thesis using b[of x] b[of y] by linarith
  qed
qed

text \<open>Integers below \<open>2^53\<close> are represented exactly.\<close>

lemma rat_log2_of_int:
  assumes "0 < n"
  shows "rat_log2 (of_int n) = int (floorlog 2 (nat n)) - 1"
  using assms by (simp add: rat_log2_def)

lemma f64_of_int_exact:
  assumes "\<bar>n\<bar> < 2 ^ 53"
  shows "f64_of_int n = Fin (of_int n)"
proof (cases "n = 0")
  case True then show ?thesis by (simp add: f64_of_int_def f64_round_def)
next
  case False
  then have pos: "0 < \<bar>n\<bar>" by simp
  let ?l = "rat_log2 \<bar>of_int n :: rat\<bar>"
  have "nat \<bar>n\<bar> < 2 ^ 53" using assms by (simp add: nat_less_iff)
  then have "floorlog 2 (nat \<bar>n\<bar>) \<le> 53"
    by (intro floorlog_leI) auto
  then have l: "?l - 52 \<le> 0"
    using rat_log2_of_int[OF pos] by simp
  let ?e = "max (?l - 52) (- 1074)"
  have e: "?e \<le> 0" using l by simp
  then have inv: "(of_int n :: rat) / pow2 ?e = of_int (n * 2 ^ nat (- ?e))"
    by (simp add: pow2_def)
  have "of_int (round_half_even (of_int n / pow2 ?e)) * pow2 ?e = (of_int n :: rat)"
    unfolding inv round_half_even_int using inv pow2_pos[of ?e]
    by (simp add: field_simps)
  moreover have "\<not> (2::rat) ^ 1024 \<le> \<bar>of_int n\<bar>"
  proof -
    have "\<bar>of_int n :: rat\<bar> < 2 ^ 53" using assms by (metis of_int_abs of_int_less_iff of_int_numeral of_int_power)
    also have "(2::rat) ^ 53 \<le> 2 ^ 1024" by (rule power_increasing) auto
    finally show ?thesis by simp
  qed
  ultimately show ?thesis using False by (simp add: f64_of_int_def f64_round_def Let_def)
qed


section \<open>Rounding of numbers from one upwards\<close>

text \<open>Bounds of the binade of a number.\<close>

lemma rat_log2_bounds:
  assumes "1 \<le> x"
  shows "0 \<le> rat_log2 x" "pow2 (rat_log2 x) \<le> x" "x < pow2 (rat_log2 x + 1)"
proof -
  define n where "n = nat \<lfloor>x\<rfloor>"
  define k where "k = floorlog 2 n"
  have n: "0 < n" using assms by (simp add: n_def)
  have nx: "of_nat n \<le> x" "x < of_nat n + 1"
    using assms floor_correct [of x] by (simp_all add: n_def)
  have k: "2 ^ (k - 1) \<le> n" "n < 2 ^ k" "0 < k"
    using floorlog_bounds [of n 2] n by (auto simp: k_def floorlog_def)
  have l: "rat_log2 x = int k - 1" using assms by (simp add: rat_log2_def k_def n_def)
  show "0 \<le> rat_log2 x" using k(3) l by simp
  have p: "pow2 (rat_log2 x) = 2 ^ (k - 1)" "pow2 (rat_log2 x + 1) = 2 ^ k"
    using k(3) by (simp_all add: l pow2_def nat_diff_distrib)
  have "(2::rat) ^ (k - 1) \<le> of_nat n"
    using k(1) by (metis of_nat_le_iff of_nat_numeral of_nat_power)
  then show "pow2 (rat_log2 x) \<le> x" using nx p by linarith
  have "n + 1 \<le> 2 ^ k" using k(2) by simp
  then have "(of_nat (n + 1) :: rat) \<le> 2 ^ k"
    by (metis of_nat_le_iff of_nat_numeral of_nat_power)
  then show "x < pow2 (rat_log2 x + 1)" using nx p by simp
qed

lemma pow2_mono: "a \<le> b \<Longrightarrow> pow2 a \<le> pow2 b"
proof -
  assume ab: "a \<le> b"
  have "1 \<le> pow2 (b - a)" using ab by (simp add: pow2_def)
  then have "pow2 a * 1 \<le> pow2 a * pow2 (b - a)" by (intro mult_left_mono) (simp_all add: less_imp_le)
  then show ?thesis using pow2_add [of a "b - a"] by simp
qed

lemma pow2_less_cancel: "pow2 a < pow2 b \<Longrightarrow> a < b"
  using pow2_mono [of b a] by (cases "a < b") auto

lemma rat_log2_eqI:
  assumes "1 \<le> x" "pow2 e \<le> x" "x < pow2 (e + 1)"
  shows "rat_log2 x = e"
proof -
  note b = rat_log2_bounds [OF assms(1)]
  have "pow2 e < pow2 (rat_log2 x + 1)" "pow2 (rat_log2 x) < pow2 (e + 1)"
    using b assms by linarith+
  from this [THEN pow2_less_cancel] show ?thesis by linarith
qed

text \<open>In a binade, rounding is to a multiple of the last place and stays between its ends.\<close>

lemma pow2_52: "pow2 e = 4503599627370496 * pow2 (e - 52)"
  using pow2_add [of 52 "e - 52"] by (simp add: pow2_def [of 52])

lemma pow2_53: "pow2 (e + 1) = 9007199254740992 * pow2 (e - 52)"
  using pow2_add [of 53 "e - 52"] by (simp add: pow2_def [of 53] add.commute [of e 1])

definition mantissa_of :: "rat \<Rightarrow> int" where
  "mantissa_of x = round_half_even (x / pow2 (rat_log2 x - 52))"

lemma f64_round_ge_1:
  assumes "1 \<le> x" "x < 2 ^ 1000"
  shows "f64_round x = Fin (of_int (mantissa_of x) * pow2 (rat_log2 x - 52))"
    and "2 ^ 52 \<le> mantissa_of x" "mantissa_of x \<le> 2 ^ 53"
    and "pow2 (rat_log2 x) \<le> of_int (mantissa_of x) * pow2 (rat_log2 x - 52)"
    and "of_int (mantissa_of x) * pow2 (rat_log2 x - 52) \<le> pow2 (rat_log2 x + 1)"
proof -
  define e where "e = rat_log2 x"
  define u where "u = pow2 (e - 52)"
  note b = rat_log2_bounds [OF assms(1), folded e_def]
  have u: "0 < u" by (simp add: u_def)
  have pe: "pow2 e = of_int (2 ^ 52) * u" "pow2 (e + 1) = of_int (2 ^ 53) * u"
    using pow2_52 [of e] pow2_53 [of e] by (simp_all add: u_def)
  have "of_int (2 ^ 52) \<le> x / u" "x / u \<le> of_int (2 ^ 53)"
    using b(2,3) u unfolding pe by (simp_all only: pos_le_divide_eq pos_divide_le_eq less_imp_le)
  from this [THEN round_half_even_mono]
  show m: "2 ^ 52 \<le> mantissa_of x" "mantissa_of x \<le> 2 ^ 53"
    unfolding round_half_even_int mantissa_of_def u_def e_def by simp_all
  then have m': "of_int (2 ^ 52) \<le> (of_int (mantissa_of x) :: rat)" "(of_int (mantissa_of x) :: rat) \<le> of_int (2 ^ 53)"
    by (simp_all only: of_int_le_iff)
  show lo: "pow2 (rat_log2 x) \<le> of_int (mantissa_of x) * pow2 (rat_log2 x - 52)"
    unfolding e_def [symmetric] u_def [symmetric] pe using m'(1) u by (intro mult_right_mono) auto
  show hi: "of_int (mantissa_of x) * pow2 (rat_log2 x - 52) \<le> pow2 (rat_log2 x + 1)"
    unfolding e_def [symmetric] u_def [symmetric] pe using m'(2) u by (intro mult_right_mono) auto
  have "pow2 e < pow2 1000" using b(2) assms(2) by (simp add: pow2_def [of 1000])
  then have "e < 1000" by (rule pow2_less_cancel)
  then have "pow2 (e + 1) \<le> pow2 1000" by (intro pow2_mono) simp
  moreover have "pow2 1000 < 2 ^ 1024" by (simp add: pow2_def [of 1000])
  ultimately have "\<not> 2 ^ 1024 \<le> \<bar>of_int (mantissa_of x) * u\<bar>"
  proof -
    have "0 < of_int (mantissa_of x) * u"
      by (rule less_le_trans [OF pow2_pos [of e]]) (use lo in \<open>simp add: u_def e_def\<close>)
    moreover have "of_int (mantissa_of x) * u \<le> pow2 (e + 1)" using hi by (simp add: u_def e_def)
    ultimately show ?thesis
      using \<open>pow2 (e + 1) \<le> pow2 1000\<close> \<open>pow2 1000 < 2 ^ 1024\<close> by linarith
  qed
  moreover have "max (rat_log2 \<bar>x\<bar> - 52) (- 1074) = e - 52"
    using b(1) assms by (simp add: e_def)
  moreover have "round_half_even (x / u) = mantissa_of x"
    by (simp add: mantissa_of_def u_def e_def)
  ultimately show "f64_round x = Fin (of_int (mantissa_of x) * pow2 (rat_log2 x - 52))"
    using assms by (simp add: f64_round_def Let_def u_def [symmetric] e_def [symmetric])
qed

text \<open>Rounding keeps order, and a rounded number is a fixed point of it.\<close>

lemma f64_round_mono:
  assumes "1 \<le> x" "x \<le> y" "y < 2 ^ 1000" "f64_round x = Fin a" "f64_round y = Fin b"
  shows "a \<le> b"
proof -
  have x: "x < 2 ^ 1000" and y: "1 \<le> y" using assms by linarith+
  note rx = f64_round_ge_1 [OF assms(1) x] and ry = f64_round_ge_1 [OF y assms(3)]
  have a: "a = of_int (mantissa_of x) * pow2 (rat_log2 x - 52)" using rx(1) assms(4) by simp
  have b: "b = of_int (mantissa_of y) * pow2 (rat_log2 y - 52)" using ry(1) assms(5) by simp
  have "pow2 (rat_log2 x) < pow2 (rat_log2 y + 1)"
    using rat_log2_bounds [OF assms(1)] rat_log2_bounds [OF y] assms(2) by linarith
  then have le: "rat_log2 x \<le> rat_log2 y" using pow2_less_cancel by fastforce
  show ?thesis
  proof (cases "rat_log2 x = rat_log2 y")
    case True
    have "x / pow2 (rat_log2 y - 52) \<le> y / pow2 (rat_log2 y - 52)"
      using assms(2) by (simp add: divide_right_mono less_imp_le)
    then have "mantissa_of x \<le> mantissa_of y"
      unfolding mantissa_of_def True by (rule round_half_even_mono)
    then show ?thesis unfolding a b True by (intro mult_right_mono) (simp_all add: less_imp_le)
  next
    case False
    then have "pow2 (rat_log2 x + 1) \<le> pow2 (rat_log2 y)" using le by (intro pow2_mono) simp
    then show ?thesis using rx(5) ry(4) a b by linarith
  qed
qed

lemma f64_round_fixed:
  assumes "1 \<le> x" "x < 2 ^ 999" "f64_round x = Fin a"
  shows "1 \<le> a" "a < 2 ^ 1000" "f64_round a = Fin a"
proof -
  have "(2::rat) ^ 999 < 2 ^ 1000" by simp
  then have x: "x < 2 ^ 1000" using assms(2) by linarith
  define e where "e = rat_log2 x"
  note r = f64_round_ge_1 [OF assms(1) x, folded e_def]
  note l = rat_log2_bounds [OF assms(1), folded e_def]
  have a: "a = of_int (mantissa_of x) * pow2 (e - 52)" using r(1) assms(3) by simp
  have "pow2 0 \<le> pow2 e" using l(1) by (rule pow2_mono)
  then show a1: "1 \<le> a" using r(4) a by (simp add: pow2_def [of 0])
  have "pow2 e < pow2 999" using l(2) assms(2) by (simp add: pow2_def [of 999])
  then have "e + 1 \<le> 999" using pow2_less_cancel by fastforce
  then have "pow2 (e + 1) \<le> pow2 999" by (rule pow2_mono)
  then show a2: "a < 2 ^ 1000" using r(5) a by (simp add: pow2_def [of 999])
  have "of_int (mantissa_of a) * pow2 (rat_log2 a - 52) = a"
  proof (cases "mantissa_of x = 2 ^ 53")
    case False
    then have "mantissa_of x < 2 ^ 53" using r(3) by simp
    then have "(of_int (mantissa_of x) :: rat) < of_int (2 ^ 53)" by (simp only: of_int_less_iff)
    then have "of_int (mantissa_of x) * pow2 (e - 52) < of_int (2 ^ 53) * pow2 (e - 52)"
      by (intro mult_strict_right_mono) simp_all
    then have "a < pow2 (e + 1)"
      using pow2_53 [of e] a by simp
    then have "rat_log2 a = e" using a1 r(4) a by (intro rat_log2_eqI) simp_all
    then show ?thesis by (simp add: mantissa_of_def a)
  next
    case True
    then have ap: "a = pow2 (e + 1)"
      using pow2_53 [of e] a by simp
    have "pow2 (e + 1) < pow2 (e + 1 + 1)" using pow2_add [of "e + 1" 1] by (simp add: pow2_def [of 1])
    then have l: "rat_log2 a = e + 1" using a1 ap by (intro rat_log2_eqI) simp_all
    have eq: "pow2 (e + 1) = of_int (2 ^ 52) * pow2 (e + 1 - 52)"
      using pow2_52 [of "e + 1"] by simp
    have nz: "pow2 (e + 1 - 52) \<noteq> 0" using pow2_pos by (metis less_irrefl)
    have "a / pow2 (e + 1 - 52) = of_int (2 ^ 52)"
      unfolding ap by (subst eq) (rule nonzero_mult_div_cancel_right [OF nz])
    then have "mantissa_of a = 2 ^ 52"
      by (simp only: mantissa_of_def l ap [symmetric] round_half_even_int)
    then show ?thesis using l ap eq by simp
  qed
  then show "f64_round a = Fin a" using f64_round_ge_1(1) [OF a1 a2] by simp
qed

lemma f64_of_int_ge:
  assumes "1 \<le> n" "n < 2 ^ 64"
  obtains a where "f64_of_int n = Fin a" "1 \<le> a" "a < 2 ^ 1000" "f64_round a = Fin a"
proof -
  have n: "1 \<le> (of_int n :: rat)" "(of_int n :: rat) < 2 ^ 999"
  proof -
    show "1 \<le> (of_int n :: rat)" using assms by simp
    have "(of_int n :: rat) < of_int (2 ^ 64)" using assms(2) by (simp only: of_int_less_iff)
    also have "\<dots> < 2 ^ 999" by simp
    finally show "(of_int n :: rat) < 2 ^ 999" .
  qed
  have "(2::rat) ^ 999 < 2 ^ 1000" by simp
  with n have "(of_int n :: rat) < 2 ^ 1000" by linarith
  then obtain a where "f64_round (of_int n) = Fin a" using f64_round_ge_1(1) [OF n(1)] by blast
  then show thesis using f64_round_fixed [OF n] that by (simp add: f64_of_int_def)
qed


section \<open>Finite results and results that are numbers\<close>

lemma round_half_even_bounds: "\<bar>of_int (round_half_even x) - x\<bar> \<le> 1"
proof -
  have "round_half_even x = \<lfloor>x\<rfloor> \<or> round_half_even x = \<lfloor>x\<rfloor> + 1"
    by (simp add: round_half_even_def Let_def)
  moreover have "of_int \<lfloor>x\<rfloor> \<le> x" "x < of_int \<lfloor>x\<rfloor> + 1" using floor_correct [of x] by simp_all
  ultimately show ?thesis unfolding abs_le_iff by (auto simp del: of_int_floor_le)
qed

text \<open>Rounding at most doubles a magnitude, and numbers far below the largest stay finite.\<close>

lemma f64_round_finite:
  assumes "\<bar>x\<bar> < 2 ^ 1000"
  obtains y where "f64_round x = Fin y" "\<bar>y\<bar> \<le> 2 * max \<bar>x\<bar> 1"
proof (cases "x = 0")
  case True
  then show thesis using that [of 0] by (simp add: f64_round_def)
next
  case False
  define u where "u = pow2 (max (rat_log2 \<bar>x\<bar> - 52) (- 1074))"
  define y where "y = of_int (round_half_even (x / u)) * u"
  have u0: "0 < u" by (simp add: u_def)
  have u: "u \<le> max \<bar>x\<bar> 1"
  proof (cases "1 \<le> \<bar>x\<bar>")
    case True
    have "u \<le> pow2 (rat_log2 \<bar>x\<bar>)"
      unfolding u_def using rat_log2_bounds(1) [OF True] by (intro pow2_mono) simp
    then show ?thesis using rat_log2_bounds(2) [OF True] by simp
  next
    case False
    then have "rat_log2 \<bar>x\<bar> \<le> 0" by (simp add: rat_log2_def)
    then have "u \<le> pow2 0" unfolding u_def by (intro pow2_mono) simp
    then show ?thesis by (simp add: pow2_def)
  qed
  have "\<bar>y - x\<bar> = \<bar>of_int (round_half_even (x / u)) - x / u\<bar> * u"
  proof -
    have "y - x = (of_int (round_half_even (x / u)) - x / u) * u"
      using u0 by (simp add: y_def left_diff_distrib)
    then show ?thesis using u0 by (simp add: abs_mult)
  qed
  also have "\<dots> \<le> 1 * u" using round_half_even_bounds u0 by (intro mult_right_mono) simp_all
  finally have y: "\<bar>y\<bar> \<le> 2 * max \<bar>x\<bar> 1" using u by (simp add: abs_le_iff) linarith
  have "max \<bar>x\<bar> 1 < 2 ^ 1000" using assms by simp
  then have "2 * max \<bar>x\<bar> 1 < 2 ^ 1024" by simp
  then have "\<not> 2 ^ 1024 \<le> \<bar>y\<bar>" using y by linarith
  then have "f64_round x = Fin y" using False by (simp add: f64_round_def Let_def u_def y_def)
  then show thesis using that y by blast
qed

lemma f64_round_number [simp]: "f64_round x \<noteq> NaN"
  by (simp add: f64_round_def Let_def)

lemma f64_round_0 [simp]: "f64_round 0 = Fin 0"
  by (simp add: f64_round_def)

text \<open>Numbers that are not negative.\<close>

fun f64_nonneg :: "f64 \<Rightarrow> bool" where
  "f64_nonneg (Fin a) = (0 \<le> a)"
| "f64_nonneg (Inf s) = (\<not> s)"
| "f64_nonneg NaN = False"

lemma f64_round_nonneg: "0 \<le> x \<Longrightarrow> f64_nonneg (f64_round x)"
proof -
  assume x: "0 \<le> x"
  define u where "u = pow2 (max (rat_log2 \<bar>x\<bar> - 52) (- 1074))"
  have u: "0 < u" by (simp add: u_def)
  then have "of_int 0 \<le> x / u" using x by simp
  then have "0 \<le> round_half_even (x / u)"
    using round_half_even_mono [of "of_int 0" "x / u"] round_half_even_int [of 0] by simp
  then have "0 \<le> of_int (round_half_even (x / u)) * u" using u by simp
  then show ?thesis by (auto simp: f64_round_def Let_def u_def [symmetric])
qed

lemma f64_nonneg_add: "f64_nonneg x \<Longrightarrow> f64_nonneg y \<Longrightarrow> f64_nonneg (f64_add x y)"
  by (cases x; cases y) (auto intro: f64_round_nonneg)

lemma f64_nonneg_mul: "0 < a \<Longrightarrow> f64_nonneg y \<Longrightarrow> f64_nonneg (f64_mul (Fin a) y)"
  by (cases y) (auto intro: f64_round_nonneg)

lemma f64_nonneg_div: "0 < b \<Longrightarrow> f64_nonneg x \<Longrightarrow> f64_nonneg (f64_div x (Fin b))"
  by (cases x) (auto intro: f64_round_nonneg)

lemma f64_number_add: "y \<noteq> NaN \<Longrightarrow> f64_add (Fin a) y \<noteq> NaN" "y \<noteq> NaN \<Longrightarrow> f64_add y (Fin a) \<noteq> NaN"
  by (cases y; simp)+

lemma f64_number_sub: "y \<noteq> NaN \<Longrightarrow> f64_sub (Fin a) y \<noteq> NaN" "y \<noteq> NaN \<Longrightarrow> f64_sub y (Fin a) \<noteq> NaN"
  by (cases y; simp add: f64_sub_def)+

lemma f64_number_div: "x \<noteq> NaN \<Longrightarrow> b \<noteq> 0 \<Longrightarrow> f64_div x (Fin b) \<noteq> NaN"
  by (cases x) auto

lemma f64_number_minmax:
  "x \<noteq> NaN \<Longrightarrow> y \<noteq> NaN \<Longrightarrow> f64_min x y \<noteq> NaN" "x \<noteq> NaN \<Longrightarrow> y \<noteq> NaN \<Longrightarrow> f64_max x y \<noteq> NaN"
  by (cases x; cases y; simp)+

text \<open>The cube of a number, scaled by a positive constant, is a number.\<close>

lemma f64_number_cube:
  assumes "0 < c" "d \<noteq> NaN"
  shows "f64_mul (f64_mul (f64_mul (Fin c) d) d) d \<noteq> NaN"
proof (cases d)
  case (Fin a)
  have step: "x \<noteq> NaN \<and> (a = 0 \<longrightarrow> x = Fin 0) \<Longrightarrow>
      f64_mul x (Fin a) \<noteq> NaN \<and> (a = 0 \<longrightarrow> f64_mul x (Fin a) = Fin 0)" for x
    by (cases x) auto
  have "f64_mul (Fin c) (Fin a) \<noteq> NaN \<and> (a = 0 \<longrightarrow> f64_mul (Fin c) (Fin a) = Fin 0)" by simp
  from step [OF step [OF this]] show ?thesis by (simp add: Fin)
next
  case (Inf s)
  then show ?thesis using assms by simp
qed (use assms in simp)

end
