(* ===== verification/Host.thy ===== *)
theory Host
  imports Engine SliceQueue Float64
begin

text \<open>
  The packet-processing resource of \<open>simulator/host\<close>: a bounded FIFO in front of a fixed
  number of virtual cores, with its accounting.

  A packet's \<open>onProcessed\<close> closure is a value of type \<open>'a\<close>; an operation whose last
  action in the code is to run that closure returns it instead, for the caller to run.  The
  set of active \<open>*packetWork\<close> pointers is a map from allocated pointers to work records;
  the completion event of a pointer \<open>p\<close> carries the callback \<open>wrap p\<close>.
\<close>

record host_config =
  Cores :: int
  PacketProcessingTime :: duration
  QueueCapacity :: int

definition host_DefaultConfig :: host_config where
  "host_DefaultConfig = \<lparr>Cores = 1, PacketProcessingTime = 0, QueueCapacity = 1024\<rparr>"

datatype host_error =
  CoresNotPositive | NegativeProcessingTime | NegativeQueueCapacity | NegativeDuration | HostTooLarge

text \<open>\<open>None\<close> is a nil error.\<close>

definition host_Validate :: "host_config \<Rightarrow> duration \<Rightarrow> host_error option" where
  "host_Validate config duration =
     (if Cores config < 1 then Some CoresNotPositive
      else if PacketProcessingTime config < 0 then Some NegativeProcessingTime
      else if QueueCapacity config < 0 then Some NegativeQueueCapacity
      else if duration < 0 then Some NegativeDuration
      else if PacketProcessingTime config = 0 \<or> duration = 0 then None
      else if go_div max_i64 duration < max (Cores config) (QueueCapacity config) then Some HostTooLarge
      else None)"

record host_stats =
  Enabled :: bool
  StatStopped :: bool
  StatCores :: int
  StatProcessingTime :: duration
  BusyCores :: nat
  StatQueueCapacity :: int
  QueuedPackets :: nat
  MaxQueuedPackets :: nat
  OfferedPackets :: nat
  AcceptedPackets :: nat
  StartedPackets :: nat
  ProcessedPackets :: nat
  QueueDroppedPackets :: nat
  DiscardedPackets :: nat
  ObservedTime :: duration
  BusyTime :: duration
  QueueWaitTotal :: duration
  MaxQueueWait :: duration

definition zero_host_stats :: host_stats where
  "zero_host_stats = \<lparr>Enabled = False, StatStopped = False, StatCores = 0, StatProcessingTime = 0,
     BusyCores = 0, StatQueueCapacity = 0, QueuedPackets = 0, MaxQueuedPackets = 0,
     OfferedPackets = 0, AcceptedPackets = 0, StartedPackets = 0, ProcessedPackets = 0,
     QueueDroppedPackets = 0, DiscardedPackets = 0, ObservedTime = 0, BusyTime = 0,
     QueueWaitTotal = 0, MaxQueueWait = 0\<rparr>"

record 'a packet_work =
  queuedAt :: duration
  onProcessed :: 'a
  completion :: nat

record 'a host =
  h_config :: host_config
  h_stats :: host_stats
  h_queue :: "'a packet_work slice_queue"
  h_active :: "(nat \<times> 'a packet_work) list"
  h_nextPtr :: nat
  h_stopped :: bool
  createdAt :: duration
  accountedAt :: duration
  stoppedAt :: duration

definition host_New :: "'c engine \<Rightarrow> host_config \<Rightarrow> 'a host option" where
  "host_New e config =
     (if host_Validate config (i64 (end_time e - eng_now e)) \<noteq> None then None
      else Some \<lparr>h_config = config, h_stats = zero_host_stats, h_queue = sq_empty, h_active = [],
                 h_nextPtr = 0, h_stopped = False, createdAt = eng_now e, accountedAt = eng_now e,
                 stoppedAt = 0\<rparr>)"

definition host_queued :: "'a host \<Rightarrow> nat" where
  "host_queued h = sq_queued (h_queue h)"

definition host_pop :: "'a host \<Rightarrow> ('a packet_work \<times> 'a host) option" where
  "host_pop h = map_option (\<lambda>(work, q). (work, h\<lparr>h_queue := q\<rparr>)) (sq_pop (h_queue h))"

definition accountBusyTime :: "'c engine \<Rightarrow> 'a host \<Rightarrow> 'a host" where
  "accountBusyTime e h =
     h\<lparr>h_stats := (h_stats h)\<lparr>BusyTime :=
          i64 (BusyTime (h_stats h) +
               i64 (i64 (eng_now e - accountedAt h) * int (length (h_active h))))\<rparr>,
       accountedAt := eng_now e\<rparr>"

definition host_start ::
  "(nat \<Rightarrow> 'c) \<Rightarrow> 'a packet_work \<Rightarrow> 'c engine \<times> 'a host \<Rightarrow> ('c engine \<times> 'a host) option"
where
  "host_start wrap work = (\<lambda>(e, h0). do {
     let h = accountBusyTime e h0;
     let wait = i64 (eng_now e - queuedAt work);
     let st = (h_stats h)\<lparr>StartedPackets := StartedPackets (h_stats h) + 1,
                QueueWaitTotal := i64 (QueueWaitTotal (h_stats h) + wait),
                MaxQueueWait := max (MaxQueueWait (h_stats h)) wait\<rparr>;
     let p = h_nextPtr h;
     (e', i) \<leftarrow> ScheduleAfter e (PacketProcessingTime (h_config h)) (wrap p);
     Some (e', h\<lparr>h_stats := st, h_active := (p, work\<lparr>completion := i\<rparr>) # h_active h,
                  h_nextPtr := p + 1\<rparr>)
   })"

text \<open>\<open>Submit\<close> returns the callback to run now, if the cost is zero, and whether it accepted.\<close>

definition host_Submit ::
  "(nat \<Rightarrow> 'c) \<Rightarrow> 'a \<Rightarrow> 'c engine \<times> 'a host \<Rightarrow> ('c engine \<times> 'a host \<times> 'a option \<times> bool) option"
where
  "host_Submit wrap cb = (\<lambda>(e, h).
     if h_stopped h then Some (e, h, None, False)
     else
       let st = (h_stats h)\<lparr>OfferedPackets := OfferedPackets (h_stats h) + 1\<rparr> in
       if PacketProcessingTime (h_config h) = 0 then
         Some (e, h\<lparr>h_stats := st\<lparr>AcceptedPackets := AcceptedPackets st + 1,
                                 StartedPackets := StartedPackets st + 1,
                                 ProcessedPackets := ProcessedPackets st + 1\<rparr>\<rparr>, Some cb, True)
       else
         let work = \<lparr>queuedAt = eng_now e, onProcessed = cb, completion = 0\<rparr> in
         if int (length (h_active h)) < Cores (h_config h) then do {
           (e', h') \<leftarrow> host_start wrap work
                          (e, h\<lparr>h_stats := st\<lparr>AcceptedPackets := AcceptedPackets st + 1\<rparr>\<rparr>);
           Some (e', h', None, True)
         }
         else if QueueCapacity (h_config h) \<le> int (host_queued h) then
           Some (e, h\<lparr>h_stats := st\<lparr>QueueDroppedPackets := QueueDroppedPackets st + 1\<rparr>\<rparr>, None, False)
         else
           let q = sq_append work (h_queue h) in
           Some (e, h\<lparr>h_queue := q,
                      h_stats := st\<lparr>AcceptedPackets := AcceptedPackets st + 1,
                                  MaxQueuedPackets := max (MaxQueuedPackets st) (sq_queued q)\<rparr>\<rparr>,
                 None, True))"

text \<open>\<open>complete\<close> hands the freed core to the oldest waiter and returns the packet's callback.\<close>

definition host_complete ::
  "(nat \<Rightarrow> 'c) \<Rightarrow> nat \<Rightarrow> 'c engine \<times> 'a host \<Rightarrow> ('c engine \<times> 'a host \<times> 'a option) option"
where
  "host_complete wrap p = (\<lambda>(e, h0).
     case map_of (h_active h0) p of
       None \<Rightarrow> Some (e, h0, None)
     | Some work \<Rightarrow>
         let h1 = accountBusyTime e h0;
             h = h1\<lparr>h_active := filter (\<lambda>(r, _). r \<noteq> p) (h_active h1),
                    h_stats := (h_stats h1)\<lparr>ProcessedPackets := ProcessedPackets (h_stats h1) + 1\<rparr>\<rparr>
         in if 0 < host_queued h then do {
              (next_work, h') \<leftarrow> host_pop h;
              (e'', h'') \<leftarrow> host_start wrap next_work (e, h');
              Some (e'', h'', Some (onProcessed work))
            }
            else Some (e, h, Some (onProcessed work)))"

definition host_Stats :: "'c engine \<Rightarrow> 'a host \<Rightarrow> host_stats" where
  "host_Stats e h =
     (let now = (if h_stopped h then stoppedAt h else eng_now e);
          busy = length (h_active h);
          st = (h_stats h)\<lparr>
            Enabled := 0 < PacketProcessingTime (h_config h),
            StatStopped := h_stopped h,
            StatCores := Cores (h_config h),
            StatProcessingTime := PacketProcessingTime (h_config h),
            BusyCores := busy,
            StatQueueCapacity := QueueCapacity (h_config h),
            QueuedPackets := host_queued h,
            ObservedTime := i64 (now - createdAt h),
            BusyTime := i64 (BusyTime (h_stats h) + i64 (i64 (now - accountedAt h) * int busy))\<rparr>
      in case sq_front (h_queue h) of
           None \<Rightarrow> st
         | Some w \<Rightarrow> st\<lparr>MaxQueueWait := max (MaxQueueWait st) (i64 (now - queuedAt w))\<rparr>)"

definition Utilization :: "host_stats \<Rightarrow> f64" where
  "Utilization st =
     (if \<not> Enabled st \<or> StatCores st < 1 \<or> ObservedTime st \<le> 0 then Fin 0
      else
        let capacity = f64_mul (f64_of_int (StatCores st)) (f64_of_int (ObservedTime st))
        in f64_min (Fin 1) (f64_max (Fin 0) (f64_div (f64_of_int (BusyTime st)) capacity)))"

fun cancel_all :: "nat list \<Rightarrow> 'c engine \<Rightarrow> 'c engine option" where
  "cancel_all [] e = Some e"
| "cancel_all (i # is) e = do { (e', _) \<leftarrow> Cancel e i; cancel_all is e' }"

definition host_DiscardPending :: "'c engine \<times> 'a host \<Rightarrow> ('c engine \<times> 'a host) option" where
  "host_DiscardPending = (\<lambda>(e, h0).
     if h_stopped h0 then Some (e, h0)
     else do {
       let h = accountBusyTime e h0;
       let st = (h_stats h)\<lparr>MaxQueueWait := MaxQueueWait (host_Stats e h),
                  DiscardedPackets := DiscardedPackets (h_stats h)
                    + (length (h_active h) + host_queued h)\<rparr>;
       e' \<leftarrow> cancel_all (map (completion \<circ> snd) (h_active h)) e;
       Some (e', h\<lparr>h_stats := st, h_active := [], h_queue := sq_empty\<rparr>)
     })"

definition host_Stop :: "'c engine \<times> 'a host \<Rightarrow> ('c engine \<times> 'a host) option" where
  "host_Stop = (\<lambda>(e, h).
     if h_stopped h then Some (e, h)
     else do {
       (e', h') \<leftarrow> host_DiscardPending (e, h);
       Some (e', h'\<lparr>h_stopped := True, stoppedAt := eng_now e'\<rparr>)
     })"

section \<open>The host's invariant\<close>

text \<open>The time packets of a queue have waited at time \<open>t\<close>.\<close>

definition wait_sum :: "duration \<Rightarrow> 'a packet_work list \<Rightarrow> duration" where
  "wait_sum t ws = (\<Sum>w\<leftarrow>ws. t - queuedAt w)"

lemma wait_sum_simps [simp]:
  "wait_sum t [] = 0" "wait_sum t (w # ws) = (t - queuedAt w) + wait_sum t ws"
  "wait_sum t (xs @ ys) = wait_sum t xs + wait_sum t ys"
  by (simp_all add: wait_sum_def)

lemma wait_sum_later: "wait_sum (t + d) ws = wait_sum t ws + d * int (length ws)"
  by (induction ws) (simp_all add: algebra_simps)

lemma wait_sum_nonneg: "(\<And>w. w \<in> set ws \<Longrightarrow> queuedAt w \<le> t) \<Longrightarrow> 0 \<le> wait_sum t ws"
  by (induction ws) (auto intro: add_nonneg_nonneg)

text \<open>The limits that \<open>Validate\<close> checks when the host is created.\<close>

definition host_config_ok :: "host_config \<Rightarrow> duration \<Rightarrow> bool" where
  "host_config_ok config duration \<longleftrightarrow>
     1 \<le> Cores config \<and> 0 \<le> PacketProcessingTime config \<and> 0 \<le> QueueCapacity config \<and>
     0 \<le> duration \<and>
     (PacketProcessingTime config = 0 \<or>
        Cores config * duration \<le> max_i64 \<and> QueueCapacity config * duration \<le> max_i64)"

lemma host_Validate_ok:
  "host_Validate config duration = None \<Longrightarrow> host_config_ok config duration"
proof -
  assume v: "host_Validate config duration = None"
  have div: "c * duration \<le> max_i64" if "0 < duration" "c \<le> max_i64 div duration" for c
  proof -
    have "c * duration \<le> (max_i64 div duration) * duration"
      using that by (simp add: mult_right_mono)
    also have "\<dots> \<le> max_i64" by (simp add: minus_mod_eq_div_mult[symmetric] max_i64_def that)
    finally show ?thesis .
  qed
  show ?thesis
    using v div by (auto simp: host_Validate_def host_config_ok_def max_i64_def split: if_splits)
qed

text \<open>
  \<open>host_inv_with limbo\<close> holds while the packets of \<open>limbo\<close> are on their way to a core:
  accepted, no longer or never in the queue, and not yet active.
\<close>

definition host_inv_with :: "'a packet_work list \<Rightarrow> 'c engine \<Rightarrow> 'a host \<Rightarrow> bool" where
  "host_inv_with limbo e h \<longleftrightarrow>
     host_config_ok (h_config h) (end_time e - createdAt h) \<and>
     0 \<le> createdAt h \<and> createdAt h \<le> accountedAt h \<and> accountedAt h \<le> eng_now e \<and>
     sq_ok (h_queue h) \<and> distinct (map fst (h_active h)) \<and>
     (\<forall>(p, w) \<in> set (h_active h). p < h_nextPtr h) \<and>
     int (length (h_active h)) + int (length limbo) \<le> Cores (h_config h) \<and>
     int (host_queued h) \<le> QueueCapacity (h_config h) \<and>
     (sq_list (h_queue h) \<noteq> [] \<longrightarrow>
        int (length (h_active h)) + int (length limbo) = Cores (h_config h)) \<and>
     (PacketProcessingTime (h_config h) = 0 \<longrightarrow>
        h_active h = [] \<and> sq_list (h_queue h) = [] \<and> limbo = []) \<and>
     OfferedPackets (h_stats h) = AcceptedPackets (h_stats h) + QueueDroppedPackets (h_stats h) \<and>
     AcceptedPackets (h_stats h) = ProcessedPackets (h_stats h) + DiscardedPackets (h_stats h)
       + length (h_active h) + host_queued h + length limbo \<and>
     0 \<le> BusyTime (h_stats h) \<and>
     (PacketProcessingTime (h_config h) = 0 \<longrightarrow>
        BusyTime (h_stats h) = 0 \<and> QueueWaitTotal (h_stats h) = 0) \<and>
     BusyTime (h_stats h) \<le> Cores (h_config h) * (accountedAt h - createdAt h) \<and>
     0 \<le> QueueWaitTotal (h_stats h) \<and>
     QueueWaitTotal (h_stats h) + wait_sum (eng_now e) (limbo @ sq_list (h_queue h))
       \<le> QueueCapacity (h_config h) * (eng_now e - createdAt h) \<and>
     (\<forall>w \<in> set (limbo @ sq_list (h_queue h)). createdAt h \<le> queuedAt w \<and> queuedAt w \<le> eng_now e)"

abbreviation host_inv :: "'c engine \<Rightarrow> 'a host \<Rightarrow> bool" where
  "host_inv \<equiv> host_inv_with []"

lemma host_New_inv:
  assumes "eng_inv e" "host_New e config = Some h"
  shows "host_inv e h"
proof -
  have "in_i64 (end_time e - eng_now e)"
    using eng_invD[OF assms(1)] by (simp add: in_i64_def max_i64_def)
  then have "host_config_ok config (end_time e - eng_now e)"
    using assms(2) host_Validate_ok by (auto simp: host_New_def split: if_splits)
  then show ?thesis
    using assms eng_invD[OF assms(1)]
    by (auto simp: host_New_def host_inv_with_def host_config_ok_def host_queued_def zero_host_stats_def
        split: if_splits)
qed

text \<open>The busy-time counter is exact: neither the product nor the sum leaves the range.\<close>

lemma accountBusyTime_eq:
  assumes e: "eng_inv e" and h: "host_inv_with limbo e h"
  shows "accountBusyTime e h =
    h\<lparr>h_stats := (h_stats h)\<lparr>BusyTime := BusyTime (h_stats h) +
          (eng_now e - accountedAt h) * int (length (h_active h))\<rparr>,
      accountedAt := eng_now e\<rparr>"
    and "BusyTime (h_stats h) + (eng_now e - accountedAt h) * int (length (h_active h))
      \<le> Cores (h_config h) * (eng_now e - createdAt h)"
proof -
  let ?d = "eng_now e - accountedAt h" let ?n = "int (length (h_active h))"
  let ?c = "Cores (h_config h)" let ?b = "BusyTime (h_stats h)"
  have t: "0 \<le> createdAt h" "createdAt h \<le> accountedAt h" "accountedAt h \<le> eng_now e"
    "0 \<le> ?b" "?b \<le> ?c * (accountedAt h - createdAt h)" "?n \<le> ?c"
    using h by (simp_all add: host_inv_with_def)
  note now = eng_invD[OF e]
  have dn: "?d * ?n \<le> ?d * ?c" using t by (simp add: mult_left_mono)
  have dist: "?c * (accountedAt h - createdAt h) + ?d * ?c = ?c * (eng_now e - createdAt h)"
    by (simp add: algebra_simps)
  show le: "?b + ?d * ?n \<le> ?c * (eng_now e - createdAt h)" using dn t(5) dist by linarith
  have d: "in_i64 ?d" using t now by (simp add: in_i64_def max_i64_def)
  have n0: "0 \<le> ?d * ?n" using t by simp
  have "?b + ?d * ?n \<le> max_i64"
  proof (cases "PacketProcessingTime (h_config h) = 0")
    case True
    then have "h_active h = []" "?b = 0" using h by (simp_all add: host_inv_with_def)
    then show ?thesis by (simp add: max_i64_def)
  next
    case False
    then have "?c * (end_time e - createdAt h) \<le> max_i64"
      using h by (simp add: host_inv_with_def host_config_ok_def)
    moreover have "?c * (eng_now e - createdAt h) \<le> ?c * (end_time e - createdAt h)"
      using h now(3) by (intro mult_left_mono) (auto simp: host_inv_with_def host_config_ok_def)
    ultimately show ?thesis using le by linarith
  qed
  then have "in_i64 (?d * ?n)" "in_i64 (?b + ?d * ?n)"
    using n0 t(4) by (simp_all add: in_i64_def max_i64_def)
  with d show "accountBusyTime e h =
    h\<lparr>h_stats := (h_stats h)\<lparr>BusyTime := ?b + ?d * ?n\<rparr>, accountedAt := eng_now e\<rparr>"
    by (simp add: accountBusyTime_def)
qed

lemma host_inv_account:
  assumes "eng_inv e" "host_inv_with limbo e h"
  shows "host_inv_with limbo e (accountBusyTime e h)"
  using assms(2) accountBusyTime_eq[OF assms] eng_invD[OF assms(1)]
  by (auto simp: host_inv_with_def host_queued_def intro: add_nonneg_nonneg)

lemma host_inv_tick:
  assumes "host_inv e h" "eng_now e \<le> t" "t \<le> end_time e"
  shows "host_inv (e\<lparr>eng_now := t\<rparr>) h"
proof -
  let ?q = "sq_list (h_queue h)" let ?k = "QueueCapacity (h_config h)"
  have tot: "QueueWaitTotal (h_stats h) + wait_sum (eng_now e) ?q \<le> ?k * (eng_now e - createdAt h)"
    using assms(1) by (simp add: host_inv_with_def)
  have "wait_sum t ?q = wait_sum (eng_now e) ?q + (t - eng_now e) * int (length ?q)"
    using wait_sum_later[of "eng_now e" "t - eng_now e" ?q] by simp
  moreover have "(t - eng_now e) * int (length ?q) \<le> (t - eng_now e) * ?k"
    using assms by (intro mult_left_mono) (auto simp: host_inv_with_def host_queued_def)
  moreover have "?k * (eng_now e - createdAt h) + (t - eng_now e) * ?k = ?k * (t - createdAt h)"
    by (simp add: algebra_simps)
  ultimately have "QueueWaitTotal (h_stats h) + wait_sum t ?q \<le> ?k * (t - createdAt h)"
    using tot by linarith
  then show ?thesis
    using assms by (auto simp: host_inv_with_def intro: order_trans)
qed

text \<open>The invariant does not depend on the engine's queue.\<close>

lemma host_inv_frame:
  "host_inv e h \<Longrightarrow> eng_now e' = eng_now e \<Longrightarrow> end_time e' = end_time e \<Longrightarrow> host_inv e' h"
  by (simp add: host_inv_with_def)

lemma host_inv_stop [simp]:
  "host_inv e (h\<lparr>h_stopped := b, stoppedAt := t\<rparr>) = host_inv e h"
  by (simp add: host_inv_with_def host_queued_def)

section \<open>The operations keep it\<close>

lemma host_start_inv:
  assumes e: "eng_inv e" and h: "host_inv_with [work] e h" and room: "next_id e < max_u64"
  shows "\<exists>e' h' i. host_start wrap work (e, h) = Some (e', h') \<and>
    ScheduleAfter e (PacketProcessingTime (h_config h)) (wrap (h_nextPtr h)) = Some (e', i) \<and>
    api e e' \<and> eng_inv e' \<and> host_inv e' h' \<and> h_active h' = (h_nextPtr h, work\<lparr>completion := i\<rparr>) # h_active h \<and>
    h_queue h' = h_queue h \<and> h_config h' = h_config h \<and> h_nextPtr h' = h_nextPtr h + 1 \<and>
    h_stopped h' = h_stopped h"
proof -
  let ?d = "PacketProcessingTime (h_config h)"
  have d: "0 < ?d" using h by (auto simp: host_inv_with_def host_config_ok_def)
  obtain e' i where s: "ScheduleAfter e ?d (wrap (h_nextPtr h)) = Some (e', i)"
    using ScheduleAfter_Some[OF e _ room] d by (meson less_imp_le)
  have fr: "eng_now e' = eng_now e" "end_time e' = end_time e"
    using api_keeps[OF api_ScheduleAfter[OF s] e] by auto
  let ?h = "accountBusyTime e h"
  let ?w = "eng_now e - queuedAt work"
  note acc = host_inv_account[OF e h]
  have cfg: "h_config ?h = h_config h" "h_active ?h = h_active h" "h_queue ?h = h_queue h"
    "h_nextPtr ?h = h_nextPtr h" "h_stopped ?h = h_stopped h" "createdAt ?h = createdAt h"
    by (simp_all add: accountBusyTime_def)
  have w: "createdAt h \<le> queuedAt work" "queuedAt work \<le> eng_now e"
    using h by (auto simp: host_inv_with_def)
  let ?t = "QueueWaitTotal (h_stats ?h)" let ?k = "QueueCapacity (h_config h)"
  have sum: "0 \<le> ?t" "?t + ?w + wait_sum (eng_now e) (sq_list (h_queue h)) \<le> ?k * (eng_now e - createdAt h)"
    using acc by (auto simp: host_inv_with_def cfg)
  have ws: "0 \<le> wait_sum (eng_now e) (sq_list (h_queue h))"
    using h by (intro wait_sum_nonneg) (auto simp: host_inv_with_def)
  have "?k * (eng_now e - createdAt h) \<le> ?k * (end_time e - createdAt h)"
    using h eng_invD(3)[OF e] by (intro mult_left_mono) (auto simp: host_inv_with_def host_config_ok_def)
  also have "\<dots> \<le> max_i64" using h d by (simp add: host_inv_with_def host_config_ok_def)
  finally have fit: "in_i64 (?t + ?w)" "in_i64 ?w"
    using sum ws w h eng_invD[OF e] by (auto simp: in_i64_def max_i64_def host_inv_with_def)
  define h' where "h' = ?h\<lparr>h_stats := (h_stats ?h)\<lparr>StartedPackets := StartedPackets (h_stats ?h) + 1,
                QueueWaitTotal := ?t + ?w, MaxQueueWait := max (MaxQueueWait (h_stats ?h)) ?w\<rparr>,
      h_active := (h_nextPtr h, work\<lparr>completion := i\<rparr>) # h_active h, h_nextPtr := h_nextPtr h + 1\<rparr>"
  have eq: "host_start wrap work (e, h) = Some (e', h')"
    using s fit by (simp add: host_start_def Let_def cfg h'_def)
  have "host_inv e' h'"
    using acc sum w d unfolding host_inv_with_def
    by (auto simp: h'_def cfg fr host_queued_def)
  moreover have "api e e'" "eng_inv e'"
    using api_ScheduleAfter[OF s] api_keeps[OF api_ScheduleAfter[OF s] e] by auto
  ultimately show ?thesis using eq s by (auto simp: h'_def cfg)
qed

lemma host_Submit_inv:
  assumes e: "eng_inv e" and h: "host_inv e h" and room: "next_id e < max_u64"
  shows "\<exists>e' h' now ok. host_Submit wrap cb (e, h) = Some (e', h', now, ok) \<and> host_inv e' h' \<and>
    eng_inv e' \<and> api e e'"
proof -
  let ?st = "(h_stats h)\<lparr>OfferedPackets := OfferedPackets (h_stats h) + 1\<rparr>"
  let ?work = "\<lparr>queuedAt = eng_now e, onProcessed = cb, completion = 0\<rparr>"
  let ?acc = "h\<lparr>h_stats := ?st\<lparr>AcceptedPackets := AcceptedPackets ?st + 1\<rparr>\<rparr>"
  consider (off) "h_stopped h" | (bypass) "\<not> h_stopped h" "PacketProcessingTime (h_config h) = 0"
    | (start) "\<not> h_stopped h" "PacketProcessingTime (h_config h) \<noteq> 0"
        "int (length (h_active h)) < Cores (h_config h)"
    | (drop) "\<not> h_stopped h" "PacketProcessingTime (h_config h) \<noteq> 0"
        "\<not> int (length (h_active h)) < Cores (h_config h)"
        "QueueCapacity (h_config h) \<le> int (host_queued h)"
    | (wait) "\<not> h_stopped h" "PacketProcessingTime (h_config h) \<noteq> 0"
        "\<not> int (length (h_active h)) < Cores (h_config h)"
        "int (host_queued h) < QueueCapacity (h_config h)"
    by linarith
  then show ?thesis
  proof cases
    case off then show ?thesis using e h by (auto simp: host_Submit_def)
  next
    case bypass then show ?thesis using e h by (auto simp: host_Submit_def host_inv_with_def host_queued_def Let_def)
  next
    case start
    have "host_inv_with [?work] e ?acc"
      using h start by (auto simp: host_inv_with_def host_queued_def)
    from host_start_inv[OF e this room, of wrap] start
    obtain e' h' where "host_start wrap ?work (e, ?acc) = Some (e', h')" "host_inv e' h'"
      "eng_inv e'" "api e e'"
      by blast
    then show ?thesis using start by (auto simp: host_Submit_def Let_def)
  next
    case drop
    then show ?thesis using e h by (auto simp: host_Submit_def host_inv_with_def host_queued_def Let_def)
  next
    case wait
    then have "host_inv e (h\<lparr>h_queue := sq_append ?work (h_queue h),
        h_stats := ?st\<lparr>AcceptedPackets := AcceptedPackets ?st + 1,
           MaxQueuedPackets := max (MaxQueuedPackets ?st) (sq_queued (sq_append ?work (h_queue h)))\<rparr>\<rparr>)"
      using h by (auto simp: host_inv_with_def host_queued_def)
    with wait e show ?thesis by (auto simp: host_Submit_def Let_def)
  qed
qed

text \<open>A completion frees one core, and the oldest waiting packet takes it.\<close>

lemma host_complete_inv:
  assumes e: "eng_inv e" and h: "host_inv e h" and room: "next_id e < max_u64"
    and p: "map_of (h_active h) p = Some work"
  shows "\<exists>e' h'. host_complete wrap p (e, h) = Some (e', h', Some (onProcessed work)) \<and>
    host_inv e' h' \<and> eng_inv e' \<and> api e e' \<and> h_config h' = h_config h \<and>
    (case sq_list (h_queue h) of
       [] \<Rightarrow> e' = e \<and> h_active h' = filter (\<lambda>(r, _). r \<noteq> p) (h_active h) \<and>
             sq_list (h_queue h') = [] \<and> h_nextPtr h' = h_nextPtr h
     | w # ws \<Rightarrow> sq_list (h_queue h') = ws \<and> h_nextPtr h' = h_nextPtr h + 1 \<and>
         (\<exists>i. ScheduleAfter e (PacketProcessingTime (h_config h)) (wrap (h_nextPtr h)) = Some (e', i) \<and>
              h_active h' = (h_nextPtr h, w\<lparr>completion := i\<rparr>) # filter (\<lambda>(r, _). r \<noteq> p) (h_active h)))"
proof -
  let ?h = "accountBusyTime e h"
  let ?as = "filter (\<lambda>(r, _). r \<noteq> p) (h_active h)"
  note acc = host_inv_account[OF e h]
  have cfg: "h_config ?h = h_config h" "h_active ?h = h_active h" "h_queue ?h = h_queue h"
    "h_nextPtr ?h = h_nextPtr h" "createdAt ?h = createdAt h"
    by (simp_all add: accountBusyTime_def)
  let ?f = "?h\<lparr>h_active := ?as,
    h_stats := (h_stats ?h)\<lparr>ProcessedPackets := ProcessedPackets (h_stats ?h) + 1\<rparr>\<rparr>"
  have d: "distinct (map fst (h_active h))" using h by (simp add: host_inv_with_def)
  have len: "length (h_active h) = Suc (length ?as)" and das: "distinct (map fst ?as)"
    using length_filter_key[OF d p] distinct_filter_key[OF d] by auto
  have call: "host_complete wrap p (e, h) =
    (if 0 < host_queued h then do {
       (next_work, h') \<leftarrow> host_pop ?f;
       (e'', h'') \<leftarrow> host_start wrap next_work (e, h');
       Some (e'', h'', Some (onProcessed work))
     } else Some (e, ?f, Some (onProcessed work)))"
    using p by (simp add: host_complete_def Let_def cfg host_queued_def)
  show ?thesis
  proof (cases "sq_list (h_queue h)")
    case Nil
    have "host_inv e ?f"
      using acc len das Nil unfolding host_inv_with_def
      by (auto simp: cfg host_queued_def)
    with Nil call e show ?thesis by (auto simp: host_queued_def cfg)
  next
    case (Cons w ws)
    have ok: "sq_ok (h_queue h)" using h by (simp add: host_inv_with_def)
    obtain q where q: "sq_pop (h_queue h) = Some (w, q)" "sq_ok q" "sq_list q = ws"
      using sq_pop_contents[OF ok Cons] by blast
    let ?g = "?f\<lparr>h_queue := q\<rparr>"
    have g: "host_inv_with [w] e ?g"
      using acc len das Cons q unfolding host_inv_with_def
      by (auto simp: cfg host_queued_def)
    obtain e' h' i where s: "host_start wrap w (e, ?g) = Some (e', h')"
      "ScheduleAfter e (PacketProcessingTime (h_config h)) (wrap (h_nextPtr h)) = Some (e', i)"
      "api e e'" "eng_inv e'" "host_inv e' h'"
      "h_active h' = (h_nextPtr h, w\<lparr>completion := i\<rparr>) # ?as" "h_queue h' = q"
      "h_config h' = h_config h" "h_nextPtr h' = h_nextPtr h + 1"
      using host_start_inv[OF e g room, of wrap] by (auto simp: cfg)
    have "host_complete wrap p (e, h) = Some (e', h', Some (onProcessed work))"
      using call Cons q(1) s(1) by (simp add: host_pop_def host_queued_def cfg)
    with s q Cons show ?thesis by auto
  qed
qed

lemma ids_cancel_all:
  "eng_inv e \<Longrightarrow> \<exists>e'. cancel_all ids e = Some e' \<and> eng_inv e' \<and> api e e' \<and>
     pending e' = {x \<in> pending e. ev_id x \<notin> set ids}"
proof (induction ids arbitrary: e)
  case Nil then show ?case by auto
next
  case (Cons i ids)
  obtain e1 b where c: "Cancel e i = Some (e1, b)" using Cancel_Some[OF Cons.prems] by blast
  have a: "api e e1" using c by (intro api_one api_cancel)
  have k: "eng_inv e1" using api_keeps[OF a Cons.prems] by simp
  have p: "pending e1 = {x \<in> pending e. ev_id x \<noteq> i}"
  proof (cases "\<exists>x \<in> pending e. ev_id x = i")
    case True
    then obtain x where x: "x \<in> pending e" "ev_id x = i" by blast
    have "pending e1 = pending e - {x}" using Cancel_inv[OF Cons.prems x] c by auto
    moreover have "y = x \<longleftrightarrow> ev_id y = i" if "y \<in> pending e" for y
      using pending_id_inj[OF Cons.prems that x(1)] x(2) by metis
    ultimately show ?thesis by blast
  next
    case False
    then have "e1 = e" using Cancel_unknown[OF Cons.prems, of i] c by auto
    with False show ?thesis by auto
  qed
  obtain e2 where "cancel_all ids e1 = Some e2" "eng_inv e2" "api e1 e2"
    "pending e2 = {x \<in> pending e1. ev_id x \<notin> set ids}"
    using Cons.IH[OF k] by blast
  then show ?case using c p api_trans[OF a] by auto
qed

lemma host_Discard_inv:
  assumes e: "eng_inv e" and h: "host_inv e h" and up: "\<not> h_stopped h"
  shows "\<exists>e' h'. host_DiscardPending (e, h) = Some (e', h') \<and> eng_inv e' \<and> api e e' \<and>
    host_inv e' h' \<and> h_active h' = [] \<and> sq_list (h_queue h') = [] \<and> \<not> h_stopped h' \<and>
    h_config h' = h_config h \<and> h_nextPtr h' = h_nextPtr h \<and>
    DiscardedPackets (h_stats h') =
      DiscardedPackets (h_stats h) + length (h_active h) + host_queued h \<and>
    pending e' = {x \<in> pending e. ev_id x \<notin> completion ` snd ` set (h_active h)}"
proof -
  let ?h = "accountBusyTime e h"
  have cfg: "h_config ?h = h_config h" "h_active ?h = h_active h" "h_queue ?h = h_queue h"
    "h_nextPtr ?h = h_nextPtr h" "createdAt ?h = createdAt h" "h_stopped ?h = h_stopped h"
    "DiscardedPackets (h_stats ?h) = DiscardedPackets (h_stats h)"
    by (simp_all add: accountBusyTime_def)
  obtain e' where c: "cancel_all (map (completion \<circ> snd) (h_active ?h)) e = Some e'" "eng_inv e'"
    "api e e'" "pending e' = {x \<in> pending e. ev_id x \<notin> set (map (completion \<circ> snd) (h_active ?h))}"
    using ids_cancel_all[OF e] by blast
  have fr: "eng_now e' = eng_now e" "end_time e' = end_time e"
    using api_keeps[OF c(3) e] by auto
  let ?st = "(h_stats ?h)\<lparr>MaxQueueWait := MaxQueueWait (host_Stats e ?h),
    DiscardedPackets := DiscardedPackets (h_stats ?h) + (length (h_active ?h) + host_queued ?h)\<rparr>"
  have w: "0 \<le> wait_sum (eng_now e) (sq_list (h_queue h))"
    using h by (intro wait_sum_nonneg) (auto simp: host_inv_with_def)
  have i: "host_inv e' (?h\<lparr>h_stats := ?st, h_active := [], h_queue := sq_empty\<rparr>)"
    using host_inv_account[OF e h] w unfolding host_inv_with_def
    by (auto simp: cfg fr host_queued_def)
  show ?thesis
    using c i up by (auto simp: host_DiscardPending_def Let_def cfg image_image host_queued_def)
qed

lemma host_Stop_inv:
  assumes "eng_inv e" "host_inv e h"
  shows "\<exists>e' h'. host_Stop (e, h) = Some (e', h') \<and> eng_inv e' \<and> api e e' \<and> host_inv e' h' \<and>
    h_stopped h'"
proof (cases "h_stopped h")
  case True then show ?thesis using assms by (auto simp: host_Stop_def)
next
  case False
  obtain e' h' where "host_DiscardPending (e, h) = Some (e', h')" "eng_inv e'" "api e e'" "host_inv e' h'"
    using host_Discard_inv[OF assms False] by blast
  then show ?thesis using False by (auto simp: host_Stop_def)
qed

end
