(* ===== verification/HostRun.thy ===== *)
theory HostRun
  imports Host
begin

text \<open>
  One host alone on its engine: the callbacks of the engine are the completions of the host's
  work, and the packets' own callbacks are recorded in a list in the order in which they run.
  The section shows that such a system is a client of the engine, and that packets are
  processed in the order in which they were accepted.
\<close>

definition host_handler :: "(nat, 'a host \<times> 'a list) handler" where
  "host_handler p = (\<lambda>(e, h, out). do {
     (e', h', cb) \<leftarrow> host_complete (\<lambda>q. q) p (e, h);
     Some (e', h', out @ (case cb of None \<Rightarrow> [] | Some c \<Rightarrow> [c]))
   })"

text \<open>The packets a host has accepted and not yet processed, oldest first.\<close>

definition host_contents :: "'a host \<Rightarrow> 'a list" where
  "host_contents h = map (onProcessed \<circ> snd) (rev (h_active h)) @ map onProcessed (sq_list (h_queue h))"

text \<open>
  The completion events of the active packets: each is pending under the identifier kept in
  the packet's record, at most one service time away, and in the order of the starts.  A
  packet whose completion lies beyond the experiment has the identifier zero.
\<close>

definition started_before :: "nat engine \<Rightarrow> nat \<times> 'a packet_work \<Rightarrow> nat \<times> 'a packet_work \<Rightarrow> bool" where
  "started_before e = (\<lambda>(p, w) (q, v). completion w = 0 \<or>
     (completion v \<noteq> 0 \<and> completion v < completion w \<and>
      (\<forall>x \<in> pending e. \<forall>y \<in> pending e. ev_id x = completion v \<longrightarrow> ev_id y = completion w \<longrightarrow>
         ev_at x \<le> ev_at y)))"

definition host_linked :: "nat engine \<Rightarrow> 'a host \<Rightarrow> bool" where
  "host_linked e h \<longleftrightarrow>
     (\<forall>(p, w) \<in> set (h_active h). completion w \<noteq> 0 \<longrightarrow>
        (\<exists>x \<in> pending e. ev_id x = completion w \<and> ev_callback x = p \<and>
           ev_at x \<le> eng_now e + PacketProcessingTime (h_config h))) \<and>
     (\<forall>x \<in> pending e. \<exists>w. (ev_callback x, w) \<in> set (h_active h) \<and> completion w = ev_id x) \<and>
     ((\<exists>(p, w) \<in> set (h_active h). completion w = 0) \<longrightarrow>
        end_time e < eng_now e + PacketProcessingTime (h_config h)) \<and>
     sorted_wrt (started_before e) (h_active h)"

lemma host_linkedD:
  assumes "host_linked e h"
  shows "(p, w) \<in> set (h_active h) \<Longrightarrow> completion w \<noteq> 0 \<Longrightarrow>
      \<exists>x \<in> pending e. ev_id x = completion w \<and> ev_callback x = p \<and>
        ev_at x \<le> eng_now e + PacketProcessingTime (h_config h)"
    and "x \<in> pending e \<Longrightarrow> \<exists>w. (ev_callback x, w) \<in> set (h_active h) \<and> completion w = ev_id x"
    and "(p, w) \<in> set (h_active h) \<Longrightarrow> completion w = 0 \<Longrightarrow>
      end_time e < eng_now e + PacketProcessingTime (h_config h)"
    and "sorted_wrt (started_before e) (h_active h)"
  using assms unfolding host_linked_def by (blast, blast, blast, blast)

lemma host_linked_cong:
  "host_linked e h \<Longrightarrow> pending e' = pending e \<Longrightarrow> eng_now e \<le> eng_now e' \<Longrightarrow> end_time e' = end_time e \<Longrightarrow>
   h_active h' = h_active h \<Longrightarrow> h_config h' = h_config h \<Longrightarrow> host_linked e' h'"
  unfolding host_linked_def started_before_def by fastforce

text \<open>Starting a packet keeps the link.\<close>

lemma host_linked_start:
  assumes e: "eng_inv e" and l: "host_linked e h"
    and s: "ScheduleAfter e (PacketProcessingTime (h_config h)) p = Some (e', i)"
    and a: "h_active h' = (p, w\<lparr>completion := i\<rparr>) # h_active h" "h_config h' = h_config h"
  shows "host_linked e' h'"
proof (cases "i = 0")
  case True
  then have "e' = e" "end_time e < eng_now e + PacketProcessingTime (h_config h)"
    using ScheduleAfter_zero[OF e] s by auto
  with l a True show ?thesis by (auto simp: host_linked_def started_before_def)
next
  case False
  let ?x = "\<lparr>ev_id = i, ev_at = eng_now e + PacketProcessingTime (h_config h), ev_callback = p\<rparr>"
  note n = ScheduleAfter_inv[OF e s False]
  have fr: "eng_now e' = eng_now e" "end_time e' = end_time e"
    using api_keeps[OF api_ScheduleAfter[OF s] e] by auto
  have pe: "pending e' = insert ?x (pending e)" using n by simp
  have old: "ev_id y < i" if "y \<in> pending e" for y using that n e by (force simp: eng_inv_def)
  have nz: "completion v \<noteq> 0" if "(q, v) \<in> set (h_active h)" for q v
    using host_linkedD(3)[OF l that] n by auto
  have lt: "completion v < i" if "(q, v) \<in> set (h_active h)" for q v
    using host_linkedD(1)[OF l that nz[OF that]] old by metis
  have "sorted_wrt (started_before e') (h_active h)"
  proof (rule sorted_wrt_mono_rel[OF _ host_linkedD(4)[OF l]])
    fix u v assume uv: "u \<in> set (h_active h)" "v \<in> set (h_active h)" "started_before e u v"
    then have "completion (snd u) < i" "completion (snd v) < i"
      using lt[of "fst u" "snd u"] lt[of "fst v" "snd v"] by simp_all
    then show "started_before e' u v"
      using uv(3) unfolding started_before_def pe by (cases u; cases v) auto
  qed
  moreover have "started_before e' (p, w\<lparr>completion := i\<rparr>) (q, v)" if qv: "(q, v) \<in> set (h_active h)" for q v
  proof -
    obtain y where y: "y \<in> pending e" "ev_id y = completion v"
        "ev_at y \<le> eng_now e + PacketProcessingTime (h_config h)"
      using host_linkedD(1)[OF l qv nz[OF qv]] by blast
    have u: "z = y" if "z \<in> pending e" "ev_id z = completion v" for z
      using pending_id_inj[OF e that(1) y(1)] that(2) y(2) by simp
    show ?thesis
      using nz[OF qv] lt[OF qv] u y(3) old unfolding started_before_def pe by fastforce
  qed
  ultimately have "sorted_wrt (started_before e') (h_active h')" using a by auto
  moreover have "\<exists>z \<in> pending e'. ev_id z = completion v \<and> ev_callback z = q \<and>
      ev_at z \<le> eng_now e' + PacketProcessingTime (h_config h')"
    if "(q, v) \<in> set (h_active h')" for q v
    using that host_linkedD(1)[OF l] nz a by (auto simp: pe fr)
  moreover have "\<exists>v. (ev_callback z, v) \<in> set (h_active h') \<and> completion v = ev_id z"
    if "z \<in> pending e'" for z
  proof (cases "z \<in> pending e")
    case True
    then show ?thesis using host_linkedD(2)[OF l] a by auto
  next
    case False
    then have "z = ?x" using that pe by simp
    then show ?thesis using a(1) by (intro exI[of _ "w\<lparr>completion := i\<rparr>"]) simp
  qed
  moreover have "\<not> (\<exists>(q, v) \<in> set (h_active h'). completion v = 0)"
    using nz False a by auto
  ultimately show ?thesis unfolding host_linked_def by blast
qed

text \<open>The event at the head of the engine's queue belongs to the packet that started first.\<close>

lemma host_head_event:
  assumes e: "eng_inv e" and l: "host_linked e h" and ne: "arr (queue e) \<noteq> []"
    and t: "take_event e = Some (x, e1)" and d: "distinct (map fst (h_active h))"
  shows "\<exists>as w. h_active h = as @ [(ev_callback x, w)] \<and> map_of (h_active h) (ev_callback x) = Some w \<and>
    filter (\<lambda>(r, _). r \<noteq> ev_callback x) (h_active h) = as \<and>
    (\<forall>h'. h_active h' = as \<longrightarrow> h_config h' = h_config h \<longrightarrow> host_linked e1 h')"
proof -
  have x: "x \<in> pending e" "pending e1 = pending e - {x}" "\<And>y. y \<in> pending e1 \<Longrightarrow> event_key x < event_key y"
    "eng_inv e1" "eng_now e1 = ev_at x" "end_time e1 = end_time e"
    using take_event_facts[OF e ne t] by auto
  obtain w where w: "(ev_callback x, w) \<in> set (h_active h)" "completion w = ev_id x"
    using host_linkedD(2)[OF l x(1)] by blast
  obtain as bs where sp: "h_active h = as @ (ev_callback x, w) # bs"
    using split_list[OF w(1)] by blast
  have id0: "ev_id x \<noteq> 0" using e x(1) by (force simp: eng_inv_def)
  have srt: "sorted_wrt (started_before e) (as @ (ev_callback x, w) # bs)"
    using host_linkedD(4)[OF l] sp by simp
  have "bs = []"
  proof (rule ccontr)
    assume "bs \<noteq> []"
    then obtain q v where qv: "(q, v) \<in> set bs" by (metis list.set_sel(1) surj_pair)
    then have b: "started_before e (ev_callback x, w) (q, v)"
      using srt by (auto simp: sorted_wrt_append)
    then have nz: "completion v \<noteq> 0" "completion v < ev_id x"
      using w(2) id0 by (auto simp: started_before_def)
    have "(q, v) \<in> set (h_active h)" using qv sp by simp
    then obtain y where y: "y \<in> pending e" "ev_id y = completion v"
      using host_linkedD(1)[OF l _ nz(1)] by blast
    have "ev_at y \<le> ev_at x" using b y x(1) w(2) id0 by (auto simp: started_before_def)
    moreover have "y \<noteq> x" using y(2) nz(2) by (metis less_irrefl)
    then have "y \<in> pending e1" using y(1) unfolding x(2) by blast
    ultimately show False using x(3)[of y] nz(2) y(2) by (auto simp: event_key_def less_prod_def)
  qed
  then have act: "h_active h = as @ [(ev_callback x, w)]" using sp by simp
  have nin: "ev_callback x \<notin> fst ` set as" using d act by auto
  have f: "filter (\<lambda>(r, _). r \<noteq> ev_callback x) (h_active h) = as"
    using filter_key_absent[OF nin] act by simp
  have m: "map_of (h_active h) (ev_callback x) = Some w"
    using d w(1) by simp
  have other: "completion v \<noteq> ev_id x" if "(q, v) \<in> set as" for q v
  proof -
    have "started_before e (q, v) (ev_callback x, w)" using that srt by (auto simp: sorted_wrt_append)
    then show ?thesis using id0 w(2) by (auto simp: started_before_def)
  qed
  have "host_linked e1 h'" if h': "h_active h' = as" "h_config h' = h_config h" for h'
  proof -
    have later: "eng_now e \<le> eng_now e1" using e x(1,5) by (auto simp: eng_inv_def)
    have srt1: "sorted_wrt (started_before e1) as"
    proof (rule sorted_wrt_mono_rel)
      show "sorted_wrt (started_before e) as" using srt by (simp add: sorted_wrt_append)
      show "started_before e1 u v" if "started_before e u v" for u v
        using that unfolding started_before_def x(2) by auto
    qed
    have ev: "\<exists>z \<in> pending e1. ev_id z = completion v \<and> ev_callback z = q \<and>
        ev_at z \<le> eng_now e1 + PacketProcessingTime (h_config h')"
      if qv: "(q, v) \<in> set as" "completion v \<noteq> 0" for q v
    proof -
      obtain z where z: "z \<in> pending e" "ev_id z = completion v" "ev_callback z = q"
        "ev_at z \<le> eng_now e + PacketProcessingTime (h_config h)"
        using host_linkedD(1)[OF l _ qv(2), of q] qv(1) unfolding act by fastforce
      then have "z \<in> pending e1" using other[OF qv(1)] unfolding x(2) by force
      with z later h'(2) show ?thesis by fastforce
    qed
    have cov: "\<exists>v. (ev_callback z, v) \<in> set as \<and> completion v = ev_id z" if z: "z \<in> pending e1" for z
    proof -
      obtain v where v: "(ev_callback z, v) \<in> set (h_active h)" "completion v = ev_id z"
        using host_linkedD(2)[OF l, of z] z unfolding x(2) by blast
      have "ev_id z \<noteq> ev_id x" using z x(1) pending_id_inj[OF e, of z x] unfolding x(2) by blast
      then show ?thesis using v act w(2) by auto
    qed
    have zero: "end_time e1 < eng_now e1 + PacketProcessingTime (h_config h')"
      if "(q, v) \<in> set as" "completion v = 0" for q v
      using host_linkedD(3)[OF l, of q v] that act later x(6) h'(2) by auto
    show ?thesis using srt1 ev cov zero h'(1) unfolding host_linked_def by blast
  qed
  with act f m show ?thesis by blast
qed

section \<open>A client of the engine\<close>

definition host_sys_inv :: "'a list \<Rightarrow> nat engine \<Rightarrow> 'a host \<times> 'a list \<Rightarrow> bool" where
  "host_sys_inv A e = (\<lambda>(h, out). host_inv e h \<and> host_linked e h \<and> out @ host_contents h = A)"

lemma host_contents_congs:
  "h_active h = as \<Longrightarrow> sq_list (h_queue h) = ws \<Longrightarrow>
   host_contents h = map (onProcessed \<circ> snd) (rev as) @ map onProcessed ws"
  by (simp add: host_contents_def)

lemma host_handler_ok:
  assumes e: "eng_inv e" and inv: "host_sys_inv A e (h, out)" and ne: "arr (queue e) \<noteq> []"
    and t: "take_event e = Some (x, e1)" and room: "next_id e1 + 1 \<le> max_u64"
  shows "\<exists>e2 s2. host_handler (ev_callback x) (e1, h, out) = Some (e2, s2) \<and> api e1 e2 \<and>
    next_id e2 \<le> next_id e1 + 1 \<and> host_sys_inv A e2 s2"
proof -
  note x = take_event_facts[OF e ne t]
  have hi: "host_inv e h" and l: "host_linked e h" and A: "out @ host_contents h = A"
    using inv by (simp_all add: host_sys_inv_def)
  have d: "distinct (map fst (h_active h))" using hi by (simp add: host_inv_with_def)
  obtain as w where hd: "h_active h = as @ [(ev_callback x, w)]"
    "map_of (h_active h) (ev_callback x) = Some w"
    "filter (\<lambda>(r, _). r \<noteq> ev_callback x) (h_active h) = as"
    "\<And>h'. h_active h' = as \<Longrightarrow> h_config h' = h_config h \<Longrightarrow> host_linked e1 h'"
    using host_head_event[OF e l ne t d] by blast
  have "host_inv (e\<lparr>eng_now := eng_now e1\<rparr>) h" using host_inv_tick[OF hi x(8,9)] .
  then have h1: "host_inv e1 h" by (rule host_inv_frame) (simp_all add: x)
  have room1: "next_id e1 < max_u64" using room by simp
  obtain e2 h2 where c: "host_complete (\<lambda>q. q) (ev_callback x) (e1, h) = Some (e2, h2, Some (onProcessed w))"
    "host_inv e2 h2" "eng_inv e2" "api e1 e2" "h_config h2 = h_config h"
    "case sq_list (h_queue h) of
       [] \<Rightarrow> e2 = e1 \<and> h_active h2 = as \<and> sq_list (h_queue h2) = [] \<and> h_nextPtr h2 = h_nextPtr h
     | v # ws \<Rightarrow> sq_list (h_queue h2) = ws \<and> h_nextPtr h2 = h_nextPtr h + 1 \<and>
         (\<exists>i. ScheduleAfter e1 (PacketProcessingTime (h_config h)) (h_nextPtr h) = Some (e2, i) \<and>
              h_active h2 = (h_nextPtr h, v\<lparr>completion := i\<rparr>) # as)"
    using host_complete_inv[OF x(4) h1 room1 hd(2), of "\<lambda>q. q", unfolded hd(3)]
    by (elim exE conjE) (rule that; assumption)
  have run: "host_handler (ev_callback x) (e1, h, out) = Some (e2, h2, out @ [onProcessed w])"
    using c(1) by (simp add: host_handler_def)
  have "next_id e2 \<le> next_id e1 + 1 \<and> host_linked e2 h2 \<and>
      host_contents h = onProcessed w # host_contents h2"
  proof (cases "sq_list (h_queue h)")
    case Nil
    then have n: "e2 = e1" "h_active h2 = as" "sq_list (h_queue h2) = []" using c(6) by simp_all
    have "host_contents h = onProcessed w # host_contents h2"
      unfolding host_contents_def hd(1) n(2,3) Nil by simp
    then show ?thesis using hd(4)[OF n(2) c(5)] n(1) by simp
  next
    case (Cons v ws)
    then obtain i where i: "sq_list (h_queue h2) = ws"
      "ScheduleAfter e1 (PacketProcessingTime (h_config h)) (h_nextPtr h) = Some (e2, i)"
      "h_active h2 = (h_nextPtr h, v\<lparr>completion := i\<rparr>) # as"
      using c(6) Cons by auto
    have cont: "host_contents h = onProcessed w # host_contents h2"
      unfolding host_contents_def hd(1) i(1,3) Cons by simp
    have "host_linked e1 (h\<lparr>h_active := as\<rparr>)" using hd(4) by simp
    then have "host_linked e2 h2"
      using host_linked_start[OF x(4), of "h\<lparr>h_active := as\<rparr>"] i(2,3) c(5) by simp
    with cont ScheduleAfter_next_id[OF x(4) i(2)] show ?thesis by simp
  qed
  with run c(2,4) A show ?thesis by (simp add: host_sys_inv_def)
qed

interpretation hostc: engine_client host_handler "host_sys_inv A" 1 for A
proof unfold_locales
  fix e :: "nat engine" and s :: "'a host \<times> 'a list" and x e1
  assume a: "eng_inv e" "host_sys_inv A e s" "arr (queue e) \<noteq> []" "take_event e = Some (x, e1)"
    "eng_inv e1" "next_id e1 + 1 \<le> max_u64"
  show "\<exists>e2 s2. host_handler (ev_callback x) (e1, s) = Some (e2, s2) \<and> api e1 e2 \<and>
      next_id e2 \<le> next_id e1 + 1 \<and> host_sys_inv A e2 s2"
    using host_handler_ok[OF a(1) _ a(3,4,6)] a(2) by (cases s) auto
next
  fix e :: "nat engine" and s :: "'a host \<times> 'a list" and t
  assume "host_sys_inv A e s" "eng_now e \<le> t" "t \<le> end_time e"
  then show "host_sys_inv A (e\<lparr>eng_now := t\<rparr>) s"
    by (cases s) (auto simp: host_sys_inv_def intro: host_inv_tick elim: host_linked_cong)
next
  fix e :: "nat engine" and s :: "'a host \<times> 'a list" and b
  assume "host_sys_inv A e s"
  then show "host_sys_inv A (e\<lparr>running := b\<rparr>) s"
    by (cases s) (auto simp: host_sys_inv_def intro: host_inv_frame elim: host_linked_cong)
qed

section \<open>The states a host can reach\<close>

text \<open>
  \<open>host_reach A e h out\<close>: from a new host on a new engine, any sequence of submissions,
  runs, discards and stops leads to the engine \<open>e\<close>, the host \<open>h\<close> and the processed packets
  \<open>out\<close>; \<open>A\<close> lists the accepted packets in order, less those a discard or a stop
  abandoned.
\<close>

inductive host_reach :: "'a list \<Rightarrow> nat engine \<Rightarrow> 'a host \<Rightarrow> 'a list \<Rightarrow> bool" where
  reach_new: "engine_New t = Some e \<Longrightarrow> t \<le> max_i64 \<Longrightarrow> host_New e config = Some h \<Longrightarrow> host_reach [] e h []"
| reach_submit: "host_reach A e h out \<Longrightarrow> next_id e < max_u64 \<Longrightarrow>
    host_Submit (\<lambda>q. q) cb (e, h) = Some (e', h', now, ok) \<Longrightarrow>
    host_reach (if ok then A @ [cb] else A) e' h' (case now of None \<Rightarrow> out | Some c \<Rightarrow> out @ [c])"
| reach_run: "host_reach A e h out \<Longrightarrow> next_id e + max_events e \<le> max_u64 \<Longrightarrow>
    RunUntil host_handler until e (h, out) = Some (r, e', h', out') \<Longrightarrow> host_reach A e' h' out'"
| reach_discard: "host_reach A e h out \<Longrightarrow> host_DiscardPending (e, h) = Some (e', h') \<Longrightarrow> \<not> h_stopped h \<Longrightarrow>
    host_reach out e' h' out"
| reach_stop: "host_reach A e h out \<Longrightarrow> host_Stop (e, h) = Some (e', h') \<Longrightarrow> \<not> h_stopped h \<Longrightarrow>
    host_reach out e' h' out"

lemma host_Submit_link:
  assumes e: "eng_inv e" and h: "host_inv e h" and l: "host_linked e h" and room: "next_id e < max_u64"
    and s: "host_Submit (\<lambda>q. q) cb (e, h) = Some (e', h', now, ok)"
  shows "host_linked e' h' \<and>
    (\<forall>out A. out @ host_contents h = A \<longrightarrow>
      (case now of None \<Rightarrow> out | Some c \<Rightarrow> out @ [c]) @ host_contents h' = (if ok then A @ [cb] else A))"
proof (cases "\<not> h_stopped h \<and> PacketProcessingTime (h_config h) \<noteq> 0 \<and>
    int (length (h_active h)) < Cores (h_config h)")
  case False
  have "e' = e \<and> h_active h' = h_active h \<and> h_config h' = h_config h"
    using s False by (auto simp: host_Submit_def Let_def split: if_splits)
  then have "host_linked e' h'" using host_linked_cong[OF l, of e h'] by simp
  moreover have "sq_ok (h_queue h)" using h by (simp add: host_inv_with_def)
  then have "(case now of None \<Rightarrow> out | Some c \<Rightarrow> out @ [c]) @ host_contents h' =
      (if ok then (out @ host_contents h) @ [cb] else out @ host_contents h)" for out
    using s False h
    by (auto simp: host_Submit_def Let_def host_contents_def host_inv_with_def split: if_splits)
  ultimately show ?thesis by blast
next
  case True
  let ?w = "\<lparr>queuedAt = eng_now e, onProcessed = cb, completion = 0\<rparr>"
  let ?st = "(h_stats h)\<lparr>OfferedPackets := OfferedPackets (h_stats h) + 1\<rparr>"
  let ?h = "h\<lparr>h_stats := ?st\<lparr>AcceptedPackets := AcceptedPackets ?st + 1\<rparr>\<rparr>"
  have empty: "sq_list (h_queue h) = []" using h True by (auto simp: host_inv_with_def)
  have "host_inv_with [?w] e ?h"
    using h True by (auto simp: host_inv_with_def host_queued_def)
  from host_start_inv[OF e this room, of "\<lambda>q. q"]
  obtain e2 h2 i where st: "host_start (\<lambda>q. q) ?w (e, ?h) = Some (e2, h2)"
    "ScheduleAfter e (PacketProcessingTime (h_config h)) (h_nextPtr h) = Some (e2, i)"
    "h_active h2 = (h_nextPtr h, ?w\<lparr>completion := i\<rparr>) # h_active h" "h_queue h2 = h_queue h"
    "h_config h2 = h_config h"
    by auto
  have r: "e' = e2" "h' = h2" "now = None" "ok"
    using s True st(1) by (auto simp: host_Submit_def Let_def)
  have "host_linked e2 h2" using host_linked_start[OF e l st(2,3,5)] .
  with r st(3,4) empty show ?thesis by (simp add: host_contents_def)
qed

lemma host_linked_empty:
  "pending e = {} \<Longrightarrow> h_active h = [] \<Longrightarrow> host_linked e h"
  by (simp add: host_linked_def)

text \<open>Discarding cancels the completion of every active packet, and nothing else is pending.\<close>

lemma host_Discard_link:
  assumes "eng_inv e" "host_inv e h" "host_linked e h" "\<not> h_stopped h"
    "host_DiscardPending (e, h) = Some (e', h')"
  shows "eng_inv e' \<and> api e e' \<and> host_inv e' h' \<and> host_linked e' h' \<and> host_contents h' = [] \<and> pending e' = {}"
proof -
  have d: "eng_inv e'" "api e e'" "host_inv e' h'" "h_active h' = []" "sq_list (h_queue h') = []"
    "pending e' = {x \<in> pending e. ev_id x \<notin> completion ` snd ` set (h_active h)}"
    using host_Discard_inv[OF assms(1,2,4)] assms(5) by auto
  have "pending e' = {}"
    using host_linkedD(2)[OF assms(3)] unfolding d(6) by force
  with d host_linked_empty show ?thesis by (auto simp: host_contents_def)
qed

lemma host_reach_inv:
  "host_reach A e h out \<Longrightarrow> eng_inv e \<and> \<not> running e \<and> host_sys_inv A e (h, out)"
proof (induction rule: host_reach.induct)
  case (reach_new t e config h)
  have i: "eng_inv e" using engine_New_inv[OF reach_new(1,2)] .
  have "pending e = {}" "\<not> running e"
    using reach_new(1) by (auto simp: engine_New_def pending_def heap_empty_def split: if_splits)
  moreover have "h_active h = []" "sq_list (h_queue h) = []"
    using reach_new(3) by (auto simp: host_New_def split: if_splits)
  ultimately show ?case
    using i host_New_inv[OF i reach_new(3)] host_linked_empty[of e h]
    by (simp add: host_sys_inv_def host_contents_def)
next
  case (reach_submit A e h out cb e' h' now ok)
  then have i: "eng_inv e" "\<not> running e" "host_inv e h" "host_linked e h" "out @ host_contents h = A"
    by (simp_all add: host_sys_inv_def)
  have k: "host_inv e' h'" "eng_inv e'" "api e e'"
    using host_Submit_inv[OF i(1,3) reach_submit(2), of "\<lambda>q. q" cb] reach_submit(3) by auto
  show ?case
    using k i(2,5) host_Submit_link[OF i(1,3,4) reach_submit(2,3)] api_keeps[OF k(3) i(1)]
    by (simp add: host_sys_inv_def)
next
  case (reach_run A e h out until r e' h' out')
  then have i: "eng_inv e" "\<not> running e" "host_sys_inv A e (h, out)" by simp_all
  show ?case
  proof (cases "eng_now e \<le> until \<and> until \<le> end_time e")
    case False
    then show ?thesis using reach_run(3) i by (auto simp: RunUntil_def split: if_splits)
  next
    case True
    have b: "next_id e + 1 * (max_events e - executed e) \<le> max_u64" "max_events e \<le> max_u64"
      using reach_run(2) by auto
    show ?thesis
      using hostc.RunUntil_total[OF i(1,3,2) conjunct1[OF True] conjunct2[OF True] b(2,1)] reach_run(3)
      by auto
  qed
next
  case (reach_discard A e h out e' h')
  then have i: "eng_inv e" "\<not> running e" "host_inv e h" "host_linked e h"
    by (simp_all add: host_sys_inv_def)
  show ?case
    using host_Discard_link[OF i(1,3,4) reach_discard(3,2)] i(2) api_keeps[OF _ i(1), of e']
    by (simp add: host_sys_inv_def)
next
  case (reach_stop A e h out e' h')
  then have i: "eng_inv e" "\<not> running e" "host_inv e h" "host_linked e h"
    by (simp_all add: host_sys_inv_def)
  obtain h1 where d: "host_DiscardPending (e, h) = Some (e', h1)"
    "h' = h1\<lparr>h_stopped := True, stoppedAt := eng_now e'\<rparr>"
    using reach_stop(2,3) by (auto simp: host_Stop_def split: Option.bind_splits)
  note k = host_Discard_link[OF i(1,3,4) reach_stop(3) d(1)]
  have "host_inv e' h'" "host_linked e' h'" "host_contents h' = []"
    using k host_linked_cong[of e' h1 e' h'] unfolding d(2) by (simp_all add: host_contents_def)
  then show ?case
    using k i(2) api_keeps[OF _ i(1), of e'] by (simp add: host_sys_inv_def)
qed

text \<open>A run only appends to the list of processed packets.\<close>

lemma exec_run_log:
  "exec_run host_handler until es xs es' \<Longrightarrow> \<exists>more. snd (snd es') = snd (snd es) @ more"
proof (induction rule: exec_run.induct)
  case (run_event e x e1 s es2 xs es3)
  then show ?case
    by (cases s; cases es2) (auto simp: host_handler_def split: Option.bind_splits option.splits)
qed simp

lemma RunUntil_log:
  assumes "eng_inv e" "\<not> running e" "host_sys_inv A e (h, out)" "next_id e + max_events e \<le> max_u64"
    "eng_now e \<le> until" "until \<le> end_time e"
    "RunUntil host_handler until e (h, out) = Some (r, e', h', out')"
  shows "\<exists>more. out' = out @ more"
proof -
  obtain e2 where l: "run_loop host_handler until (e\<lparr>running := True\<rparr>) (h, out) = Some (r, e2, h', out')"
    using assms(2,5-7) by (auto simp: RunUntil_def split: if_splits Option.bind_splits)
  obtain xs e3 where "exec_run host_handler until (e\<lparr>running := True\<rparr>, h, out) xs (e3, h', out')"
    using hostc.run_loop_exec_run[OF l _ hostc.inv_running[OF assms(3)]] assms(1,4) by fastforce
  from exec_run_log[OF this] show ?thesis by simp
qed

section \<open>Properties\<close>

text \<open>
  A host with one core, room for one waiting packet and 10 ns of work per packet: two packets
  are submitted at time 0, and 15 ns later one is done and the other is on the core.
\<close>

definition demo_config :: host_config where
  "demo_config = \<lparr>Cores = 1, PacketProcessingTime = 10, QueueCapacity = 1\<rparr>"

definition demo_engine :: "nat engine" where
  "demo_engine = \<lparr>max_events = DefaultMaxEvents, eng_now = 0, end_time = 100, next_id = 0,
     queue = heap_empty, by_id = Map.empty, executed = 0, running = False\<rparr>"

lemmas host_eval = host_New_def host_Validate_def demo_config_def demo_engine_def go_div_def max_i64_def
  i64_def host_Submit_def host_start_def accountBusyTime_def Let_def zero_host_stats_def sq_empty_def
  host_queued_def sq_queued_def sq_list_def ScheduleAfter_def ScheduleAt_def max_u64_def u64_def
  heap_Push_def heap_empty_def heap_append_def heap_up.simps sq_append_def RunUntil_def run_loop.simps
  take_event_def heap_Pop_def heap_drop_last_def heap_Swap_def heap_down.simps host_handler_def
  host_complete_def host_pop_def sq_pop_def sq_front_def sq_drop_front_def minConsumedSlots_def
  DefaultMaxEvents_def heap_child_def

lemma host_demo_states:
  "\<exists>h e1 h1 e2 h2 e3 h3. host_New demo_engine demo_config = Some h \<and>
     host_Submit (\<lambda>q. q) (1::nat) (demo_engine, h) = Some (e1, h1, None, True) \<and> next_id e1 = 1 \<and>
     host_Submit (\<lambda>q. q) 2 (e1, h1) = Some (e2, h2, None, True) \<and>
     next_id e2 = 1 \<and> max_events e2 = 5000000000 \<and> end_time e2 = 100 \<and> eng_now e2 = 0 \<and>
     RunUntil host_handler 15 e2 (h2, []) = Some (None, e3, h3, [1]) \<and> length (h_active h3) = 1"
  by (simp add: host_eval)

lemma host_demo:
  "\<exists>e h e' h'. host_reach [1, 2] e h ([] :: nat list) \<and> eng_now e = 0 \<and> end_time e = 100 \<and>
     next_id e + max_events e \<le> max_u64 \<and>
     RunUntil host_handler 15 e (h, []) = Some (None, e', h', [1]) \<and>
     host_reach [1, 2] e' h' [1] \<and> length (h_active h') = 1"
proof -
  obtain h e1 h1 e2 h2 e3 h3 where r: "host_New demo_engine demo_config = Some h"
     "host_Submit (\<lambda>q. q) (1::nat) (demo_engine, h) = Some (e1, h1, None, True)" "next_id e1 = 1"
     "host_Submit (\<lambda>q. q) 2 (e1, h1) = Some (e2, h2, None, True)"
     "next_id e2 = 1" "max_events e2 = 5000000000" "end_time e2 = 100" "eng_now e2 = 0"
     "RunUntil host_handler 15 e2 (h2, []) = Some (None, e3, h3, [1])" "length (h_active h3) = 1"
    using host_demo_states by blast
  have "engine_New 100 = Some demo_engine" by (simp add: engine_New_def demo_engine_def)
  from reach_new[OF this _ r(1)] have "host_reach [] demo_engine h []" by (simp add: max_i64_def)
  from reach_submit[OF this _ r(2)] have "host_reach [1] e1 h1 []"
    by (simp add: demo_engine_def max_u64_def)
  from reach_submit[OF this _ r(4)] have two: "host_reach [1, 2] e2 h2 []"
    using r(3) by (simp add: max_u64_def)
  have room: "next_id e2 + max_events e2 \<le> max_u64" using r(5,6) by (simp add: max_u64_def)
  from reach_run[OF two room r(9)] two room r show ?thesis by blast
qed





text \<open>C3: A run of a host's events always returns, at its bound or at the event limit, and only
  extends what has been processed; at the bound, no completion that was due is left.\<close>

theorem host_run_returns:
  assumes "host_reach A e h out" "eng_now e \<le> until" "until \<le> end_time e"
    "next_id e + max_events e \<le> max_u64"
  shows "\<exists>r e' h' done. RunUntil host_handler until e (h, out) = Some (r, e', h', out @ done) \<and>
    A = out @ done @ host_contents h' \<and> run_result (max_events e) until r e' \<and> \<not> running e'"
proof -
  have i: "eng_inv e" "\<not> running e" "host_sys_inv A e (h, out)"
    using host_reach_inv[OF assms(1)] by auto
  have b: "next_id e + 1 * (max_events e - executed e) \<le> max_u64" "max_events e \<le> max_u64"
    using assms(4) by auto
  obtain r e' h' out' where r: "RunUntil host_handler until e (h, out) = Some (r, e', h', out')"
    "host_sys_inv A e' (h', out')" "\<not> running e'" "run_result (max_events e) until r e'"
    using hostc.RunUntil_total[OF i(1,3,2) assms(2,3) b(2,1)] by auto
  obtain more where "out' = out @ more"
    using RunUntil_log[OF i assms(4,2,3) r(1)] by blast
  then show ?thesis using r by (auto simp: host_sys_inv_def)
qed

theorem host_run_returns_witness:
  "\<exists>e h. host_reach [1, 2] e h ([] :: nat list) \<and>
     (\<exists>r e' h' done. RunUntil host_handler 15 e (h, []) = Some (r, e', h', [] @ done) \<and>
        [1, 2] = [] @ done @ host_contents h' \<and> run_result (max_events e) 15 r e' \<and> \<not> running e')"
proof -
  obtain e h where d: "host_reach [1, 2] e h ([] :: nat list)" "eng_now e = 0" "end_time e = 100"
    "next_id e + max_events e \<le> max_u64"
    using host_demo by blast
  then show ?thesis using host_run_returns[of "[1, 2]" e h "[]" 15] by (intro exI[of _ e] exI[of _ h]) simp
qed

end
