(* ===== verification/Rng.thy ===== *)
theory Rng
  imports Prelude Float64
begin

text \<open>
  The random generators of Go's \<open>math/rand\<close>, over an arbitrary source of 63-bit draws.
  A generator is the source and the number of draws taken; a seed fixes the source.
  \<open>Float64\<close> and \<open>Intn\<close> derive their results from the draws as the library does,
  \<open>Intn\<close> by rejection, so that a source of unacceptable draws makes it run forever
  (\<open>None\<close>).
\<close>

record rng =
  src :: "nat \<Rightarrow> nat"
  drawn :: nat

definition rng_new :: "(nat \<Rightarrow> nat) \<Rightarrow> rng" where
  "rng_new s = \<lparr>src = s, drawn = 0\<rparr>"

definition Int63 :: "rng \<Rightarrow> nat \<times> rng" where
  "Int63 r = (src r (drawn r) mod 2 ^ 63, r\<lparr>drawn := drawn r + 1\<rparr>)"

definition Int31 :: "rng \<Rightarrow> nat \<times> rng" where
  "Int31 r = (let (v, r') = Int63 r in (v div 2 ^ 32, r'))"

definition rng_Float64 :: "rng \<Rightarrow> f64 \<times> rng" where
  "rng_Float64 r = (let (v, r') = Int63 r in (Fin (of_nat (v mod 2 ^ 53) / 2 ^ 53), r'))"

partial_function (option) reject :: "(rng \<Rightarrow> nat \<times> rng) \<Rightarrow> nat \<Rightarrow> rng \<Rightarrow> (nat \<times> rng) option" where
  "reject draw limit r = (let (v, r') = draw r in if limit < v then reject draw limit r' else Some (v, r'))"

definition below :: "(rng \<Rightarrow> nat \<times> rng) \<Rightarrow> nat \<Rightarrow> nat \<Rightarrow> rng \<Rightarrow> (nat \<times> rng) option" where
  "below draw full n r =
     (if \<exists>k \<in> set [0..<64]. n = 2 ^ k then let (v, r') = draw r in Some (v mod n, r')
      else map_option (\<lambda>(v, r'). (v mod n, r')) (reject draw (full - 1 - full mod n) r))"

definition Intn :: "int \<Rightarrow> rng \<Rightarrow> (nat \<times> rng) option" where
  "Intn n r =
     (if n \<le> 0 then None
      else if n \<le> 2147483647 then below Int31 (2 ^ 31) (nat n) r
      else below Int63 (2 ^ 63) (nat n) r)"

text \<open>A source whose draws are eventually acceptable again, whatever the bound: no seed of the
  library has any other.\<close>

definition rng_live :: "rng \<Rightarrow> bool" where
  "rng_live r \<longleftrightarrow> (\<forall>i. \<exists>j \<ge> i. src r j mod 2 ^ 63 < 2 ^ 62)"

lemma rng_Float64_Fin: "\<exists>x r'. rng_Float64 r = (Fin x, r') \<and> 0 \<le> x \<and> x < 1"
proof -
  obtain v r' where v: "Int63 r = (v, r')" by fastforce
  have "v mod 2 ^ 53 < 2 ^ 53" by simp
  then have "of_nat (v mod 2 ^ 53) < (2 ^ 53 :: rat)"
    by (metis of_nat_less_iff of_nat_numeral of_nat_power)
  then show ?thesis
    using v by (intro exI[of _ "of_nat (v mod 2 ^ 53) / 2 ^ 53"] exI[of _ r']) (simp add: rng_Float64_def)
qed

lemma rng_Float64_range: "rng_Float64 r = (Fin x, r') \<Longrightarrow> 0 \<le> x \<and> x < 1"
  using rng_Float64_Fin[of r] by auto

lemma reject_below:
  assumes "reject draw limit r = Some res"
  shows "fst res \<le> limit"
  by (rule reject.raw_induct[OF _ assms, of "\<lambda>_ l _ y. fst y \<le> l"])
    (auto split: prod.splits if_splits)

lemma below_bound: "0 < n \<Longrightarrow> below draw full n r = Some (v, r') \<Longrightarrow> v < n"
  by (auto simp: below_def Let_def split: if_splits prod.splits)

lemma Intn_bound: "Intn n r = Some (v, r') \<Longrightarrow> 0 < n \<and> int v < n"
  using below_bound[of "nat n" Int31 "2 ^ 31" r v r'] below_bound[of "nat n" Int63 "2 ^ 63" r v r']
  by (auto simp: Intn_def split: if_splits)

text \<open>On a live source, rejection ends: half of the range is accepted whatever the divisor.\<close>

lemma reject_total:
  assumes draw: "\<And>r. snd (draw r) = r\<lparr>drawn := drawn r + 1\<rparr>"
    and ok: "\<And>r. src r (drawn r) mod 2 ^ 63 < 2 ^ 62 \<Longrightarrow> fst (draw r) \<le> limit"
    and live: "\<exists>j \<ge> drawn r. src r j mod 2 ^ 63 < 2 ^ 62"
  shows "\<exists>v r'. reject draw limit r = Some (v, r') \<and> src r' = src r"
proof -
  obtain j where j: "j \<ge> drawn r" "src r j mod 2 ^ 63 < 2 ^ 62" using live by blast
  from j show ?thesis
  proof (induction "j - drawn r" arbitrary: r)
    case 0
    then have "fst (draw r) \<le> limit" using ok[of r] by simp
    then show ?case using draw[of r]
      by (subst reject.simps) (auto simp: Let_def split: prod.splits)
  next
    case (Suc n)
    have "\<exists>v r'. reject draw limit (snd (draw r)) = Some (v, r') \<and> src r' = src r"
      using Suc.hyps(1)[of "snd (draw r)"] Suc.hyps(2) Suc.prems by (simp add: draw)
    then show ?case using draw[of r]
      by (subst reject.simps) (auto simp: Let_def split: prod.splits)
  qed
qed

lemma reject_limit:
  fixes m N :: nat
  assumes "0 < m" "m \<le> 2 * N" "0 < N"
  shows "N \<le> 2 * N - 1 - 2 * N mod m"
proof -
  let ?q = "2 * N div m" let ?r = "2 * N mod m"
  have q: "2 * N = m * ?q + ?r" by simp
  have "1 \<le> ?q" using assms by (simp add: Suc_le_eq div_greater_zero_iff)
  then have "m * 1 \<le> m * ?q" by (rule mult_le_mono2)
  moreover have "?r < m" using assms by simp
  ultimately have "2 * ?r < 2 * N" using q by linarith
  then show ?thesis by linarith
qed

lemma Intn_total:
  assumes "rng_live r" "0 < n" "n \<le> max_i64"
  shows "\<exists>v r'. Intn n r = Some (v, r') \<and> src r' = src r"
proof -
  have live: "\<exists>j \<ge> drawn r. src r j mod 2 ^ 63 < 2 ^ 62" using assms(1) by (simp add: rng_live_def)
  have s: "snd (Int31 (q :: rng)) = q\<lparr>drawn := drawn q + 1\<rparr>" "snd (Int63 q) = q\<lparr>drawn := drawn q + 1\<rparr>"
    "src (snd (Int31 q)) = src q" "src (snd (Int63 q)) = src q" for q :: rng
    by (simp_all add: Int31_def Int63_def Let_def split: prod.splits)
  have small: "\<exists>v r'. reject Int31 (2 ^ 31 - 1 - 2 ^ 31 mod m) r = Some (v, r') \<and> src r' = src r"
    if "0 < m" "m \<le> 2 ^ 31" for m
  proof (rule reject_total[OF s(1) _ live])
    fix q :: rng assume "src q (drawn q) mod 2 ^ 63 < 2 ^ 62"
    then have "fst (Int31 q) \<le> 2 ^ 30" by (simp add: Int31_def Int63_def Let_def)
    then show "fst (Int31 q) \<le> 2 ^ 31 - 1 - 2 ^ 31 mod m"
      using reject_limit[of m "2 ^ 30"] that by simp
  qed
  have big: "\<exists>v r'. reject Int63 (2 ^ 63 - 1 - 2 ^ 63 mod m) r = Some (v, r') \<and> src r' = src r"
    if "0 < m" "m \<le> 2 ^ 63" for m
  proof (rule reject_total[OF s(2) _ live])
    fix q :: rng assume "src q (drawn q) mod 2 ^ 63 < 2 ^ 62"
    then have "fst (Int63 q) \<le> 2 ^ 62" by (simp add: Int63_def)
    then show "fst (Int63 q) \<le> 2 ^ 63 - 1 - 2 ^ 63 mod m"
      using reject_limit[of m "2 ^ 62"] that by simp
  qed
  have tot: "\<exists>v r'. below d full m r = Some (v, r') \<and> src r' = src r"
    if "\<exists>v r'. reject d (full - 1 - full mod m) r = Some (v, r') \<and> src r' = src r"
      "src (snd (d r)) = src r" for d full m
    using that by (auto simp: below_def Let_def split: prod.splits)
  show ?thesis
  proof (cases "n \<le> 2147483647")
    case True
    then have "Intn n r = below Int31 (2 ^ 31) (nat n) r" using assms(2) by (simp add: Intn_def)
    then show ?thesis using tot[OF small s(3), of "nat n"] True assms(2) by simp
  next
    case False
    then have "Intn n r = below Int63 (2 ^ 63) (nat n) r" using assms(2) by (simp add: Intn_def)
    then show ?thesis using tot[OF big s(4), of "nat n"] assms(2,3) by (simp add: max_i64_def)
  qed
qed

end
