(* ===== verification/Link.thy ===== *)
theory Link
  imports Engine SliceQueue Rng
begin

text \<open>
  The directed link of \<open>simulator/network/link.go\<close> and \<open>queue_policy.go\<close>: one
  transmitter, a bounded waiting queue with tail drop or threshold signalling, random loss
  after serialization, and a constant travel time.

  The two closures a link hands to the engine are the constructors of \<open>link_event\<close>;
  \<open>wrap\<close> embeds them in the engine's callback type.  A packet's \<open>onArrival\<close>
  closure is a value of type \<open>'a\<close>, returned by the arrival for the caller to run.  On a
  managed link the manager's \<open>onReady\<close> is the last action of a completed serialization;
  \<open>link_serialized\<close> returns whether it is due.
\<close>

record link_config =
  BandwidthBitsPerSecond :: int
  PacketTravelTime :: duration
  LinkQueueCapacity :: int
  LossRate :: f64
  QueuePolicy :: string
  CongestionThresholdPercent :: f64
  CongestionSignalProbability :: f64

record link_stats =
  l_OfferedPackets :: nat
  l_OfferedBytes :: nat
  l_AcceptedPackets :: nat
  l_AcceptedBytes :: nat
  l_QueueDroppedPackets :: nat
  l_QueueDroppedBytes :: nat
  l_ECNMarkedPackets :: nat
  l_ECNMarkedBytes :: nat
  l_CongestionDroppedPackets :: nat
  l_CongestionDroppedBytes :: nat
  l_TransmittedBytes :: nat
  l_LostPackets :: nat
  l_LostBytes :: nat
  l_DeliveredPackets :: nat
  l_DeliveredBytes :: nat
  l_QueuedPackets :: int
  l_Transmitting :: bool
  l_TravellingPackets :: int

definition zero_link_stats :: link_stats where
  "zero_link_stats = \<lparr>l_OfferedPackets = 0, l_OfferedBytes = 0, l_AcceptedPackets = 0,
     l_AcceptedBytes = 0, l_QueueDroppedPackets = 0, l_QueueDroppedBytes = 0, l_ECNMarkedPackets = 0,
     l_ECNMarkedBytes = 0, l_CongestionDroppedPackets = 0, l_CongestionDroppedBytes = 0,
     l_TransmittedBytes = 0, l_LostPackets = 0, l_LostBytes = 0, l_DeliveredPackets = 0,
     l_DeliveredBytes = 0, l_QueuedPackets = 0, l_Transmitting = False, l_TravellingPackets = 0\<rparr>"

record 'a transmission =
  sizeBytes :: int
  tx_duration :: duration
  onArrival :: 'a

record 'a link =
  l_config :: link_config
  l_rng :: "rng option"
  l_congestionRNG :: "rng option"
  l_queue :: "'a transmission slice_queue"
  l_transmitting :: bool
  l_travelling :: int
  l_stats :: link_stats
  l_managed :: bool

datatype 'a link_event = Serialized "'a transmission" | Arrived "'a transmission"

section \<open>Serialization time\<close>

text \<open>\<open>bits.Mul64\<close> and \<open>bits.Div64\<close>; the division panics when the quotient overflows.\<close>

definition Mul64 :: "nat \<Rightarrow> nat \<Rightarrow> nat \<times> nat" where
  "Mul64 x y = (x * y div 18446744073709551616, x * y mod 18446744073709551616)"

definition Div64 :: "nat \<Rightarrow> nat \<Rightarrow> nat \<Rightarrow> (nat \<times> nat) option" where
  "Div64 hi lo y =
     (if y \<le> hi then None
      else Some ((hi * 18446744073709551616 + lo) div y, (hi * 18446744073709551616 + lo) mod y))"

definition serializationDuration :: "int \<Rightarrow> int \<Rightarrow> duration option" where
  "serializationDuration sz bandwidth = do {
     let (hi, lo) = Mul64 (nat sz) 8000000000;
     let divisor = nat bandwidth;
     if divisor \<le> hi then None
     else do {
       (ns, remainder) \<leftarrow> Div64 hi lo divisor;
       ns \<leftarrow> (if 0 < remainder then if ns = max_u64 then None else Some (ns + 1) else Some ns);
       if max_i64 < int ns then None else Some (int ns)
     }
   }"

section \<open>Construction\<close>

definition f64_outside :: "f64 \<Rightarrow> rat \<Rightarrow> bool" where
  "f64_outside x hi \<longleftrightarrow> x = NaN \<or> f64_is_inf x \<or> f64_lt x (Fin 0) \<or> f64_lt (Fin hi) x"

definition validateCongestionConfig :: "link_config \<Rightarrow> bool" where
  "validateCongestionConfig config \<longleftrightarrow>
     \<not> (QueuePolicy config \<noteq> [] \<and> QueuePolicy config \<noteq> ''tailDrop'' \<and> QueuePolicy config \<noteq> ''threshold'') \<and>
     \<not> f64_outside (CongestionThresholdPercent config) 100 \<and>
     \<not> f64_outside (CongestionSignalProbability config) 1"

definition NewLink :: "link_config \<Rightarrow> rng option \<Rightarrow> 'a link option" where
  "NewLink config r =
     (if BandwidthBitsPerSecond config \<le> 0 \<or> PacketTravelTime config < 0 \<or> LinkQueueCapacity config < 0 \<or>
         f64_outside (LossRate config) 1 \<or>
         (f64_lt (Fin 0) (LossRate config) \<and> f64_lt (LossRate config) (Fin 1) \<and> r = None) \<or>
         \<not> validateCongestionConfig config
      then None
      else Some \<lparr>l_config = config, l_rng = r, l_congestionRNG = None, l_queue = sq_empty,
                 l_transmitting = False, l_travelling = 0, l_stats = zero_link_stats, l_managed = False\<rparr>)"

definition link_queued :: "'a link \<Rightarrow> nat" where
  "link_queued l = sq_queued (l_queue l)"

definition link_has_traffic :: "'a link \<Rightarrow> bool" where
  "link_has_traffic l \<longleftrightarrow> l_OfferedPackets (l_stats l) \<noteq> 0 \<or> l_transmitting l \<or> link_queued l \<noteq> 0 \<or> l_travelling l \<noteq> 0"

definition useExternalQueue :: "'a link \<Rightarrow> 'a link option" where
  "useExternalQueue l = (if l_managed l \<or> link_has_traffic l then None else Some (l\<lparr>l_managed := True\<rparr>))"

definition SetCongestionRNG :: "rng option \<Rightarrow> 'a link \<Rightarrow> 'a link option" where
  "SetCongestionRNG r l =
     (if link_has_traffic l then None
      else if QueuePolicy (l_config l) = ''threshold'' \<and>
              f64_lt (Fin 0) (CongestionSignalProbability (l_config l)) \<and>
              f64_lt (CongestionSignalProbability (l_config l)) (Fin 1) \<and> r = None then None
      else Some (l\<lparr>l_congestionRNG := r\<rparr>))"

section \<open>Congestion signalling\<close>

definition NotCapable :: nat where "NotCapable = 0"

definition Capable :: nat where "Capable = 1"

definition AlreadyMarked :: nat where "AlreadyMarked = 2"

definition validateECNState :: "nat \<Rightarrow> bool" where
  "validateECNState state \<longleftrightarrow> \<not> AlreadyMarked < state"

definition shouldSignalCongestion :: "nat \<Rightarrow> 'a link \<Rightarrow> (bool \<times> 'a link) option" where
  "shouldSignalCongestion waiting l =
     (let config = l_config l in
      if QueuePolicy config \<noteq> ''threshold'' \<or> LinkQueueCapacity config = 0 \<or>
         f64_eq (CongestionSignalProbability config) (Fin 0) then Some (False, l)
      else
        let threshold = f64_ceil (f64_div (f64_mul (f64_of_int (LinkQueueCapacity config))
                                             (CongestionThresholdPercent config)) (Fin 100)) in
        if f64_lt (f64_of_int (int waiting)) threshold then Some (False, l)
        else if f64_eq (CongestionSignalProbability config) (Fin 1) then Some (True, l)
        else
          (case l_congestionRNG l of
             None \<Rightarrow> None
           | Some r \<Rightarrow>
               let (x, r') = rng_Float64 r
               in Some (f64_lt x (CongestionSignalProbability config), l\<lparr>l_congestionRNG := Some r'\<rparr>)))"

section \<open>Transmission\<close>

definition link_start ::
  "('a link_event \<Rightarrow> 'c) \<Rightarrow> 'a transmission \<Rightarrow> 'c engine \<times> 'a link \<Rightarrow> ('c engine \<times> 'a link) option"
where
  "link_start wrap packet = (\<lambda>(e, l). do {
     (e', _) \<leftarrow> ScheduleAfter e (tx_duration packet) (wrap (Serialized packet));
     Some (e', l\<lparr>l_transmitting := True\<rparr>)
   })"

definition link_offer :: "int \<Rightarrow> link_stats \<Rightarrow> link_stats" where
  "link_offer sz st = st\<lparr>l_OfferedPackets := l_OfferedPackets st + 1,
     l_OfferedBytes := l_OfferedBytes st + nat sz\<rparr>"

definition link_accept :: "int \<Rightarrow> link_stats \<Rightarrow> link_stats" where
  "link_accept sz st = st\<lparr>l_AcceptedPackets := l_AcceptedPackets st + 1,
     l_AcceptedBytes := l_AcceptedBytes st + nat sz\<rparr>"

definition link_drop :: "int \<Rightarrow> bool \<Rightarrow> link_stats \<Rightarrow> link_stats" where
  "link_drop sz early st0 =
     (let st = st0\<lparr>l_QueueDroppedPackets := l_QueueDroppedPackets st0 + 1,
                  l_QueueDroppedBytes := l_QueueDroppedBytes st0 + nat sz\<rparr>
      in if early then st\<lparr>l_CongestionDroppedPackets := l_CongestionDroppedPackets st + 1,
                         l_CongestionDroppedBytes := l_CongestionDroppedBytes st + nat sz\<rparr>
         else st)"

definition link_mark :: "int \<Rightarrow> link_stats \<Rightarrow> link_stats" where
  "link_mark sz st = st\<lparr>l_ECNMarkedPackets := l_ECNMarkedPackets st + 1,
     l_ECNMarkedBytes := l_ECNMarkedBytes st + nat sz\<rparr>"

definition TransmitECN ::
  "('a link_event \<Rightarrow> 'c) \<Rightarrow> int \<Rightarrow> nat \<Rightarrow> (bool \<Rightarrow> 'a) \<Rightarrow> 'c engine \<times> 'a link \<Rightarrow>
   ('c engine \<times> 'a link \<times> bool) option"
where
  "TransmitECN wrap sz state arrival = (\<lambda>(e, l0).
     if l_managed l0 \<or> sz < 0 \<or> \<not> validateECNState state then None
     else do {
       d \<leftarrow> serializationDuration sz (BandwidthBitsPerSecond (l_config l0));
       let queueFull = (l_transmitting l0 \<and> LinkQueueCapacity (l_config l0) \<le> int (link_queued l0));
       (selected, l) \<leftarrow> (if \<not> queueFull \<and> l_transmitting l0
                        then shouldSignalCongestion (link_queued l0 + 1) l0 else Some (False, l0));
       let marked = (state = AlreadyMarked \<or> (selected \<and> state = Capable));
       let packet = \<lparr>sizeBytes = sz, tx_duration = d, onArrival = arrival marked\<rparr>;
       let st = link_offer sz (l_stats l);
       if queueFull \<or> (selected \<and> state = NotCapable)
       then Some (e, l\<lparr>l_stats := link_drop sz (\<not> queueFull) st\<rparr>, False)
       else do {
         let st = (if selected \<and> state = Capable then link_mark sz st else st);
         let l = l\<lparr>l_stats := link_accept sz st\<rparr>;
         if l_transmitting l then Some (e, l\<lparr>l_queue := sq_append packet (l_queue l)\<rparr>, True)
         else do { (e', l') \<leftarrow> link_start wrap packet (e, l); Some (e', l', True) }
       }
     })"

definition link_Transmit ::
  "('a link_event \<Rightarrow> 'c) \<Rightarrow> int \<Rightarrow> 'a \<Rightarrow> 'c engine \<times> 'a link \<Rightarrow> ('c engine \<times> 'a link \<times> bool) option"
where
  "link_Transmit wrap sz arrival = TransmitECN wrap sz NotCapable (\<lambda>_. arrival)"

definition Ready :: "'a link \<Rightarrow> bool" where
  "Ready l \<longleftrightarrow> \<not> l_transmitting l"

definition TryStart ::
  "('a link_event \<Rightarrow> 'c) \<Rightarrow> int \<Rightarrow> 'a \<Rightarrow> 'c engine \<times> 'a link \<Rightarrow> ('c engine \<times> 'a link \<times> bool) option"
where
  "TryStart wrap sz arrival = (\<lambda>(e, l).
     if sz < 0 then None
     else if \<not> Ready l then Some (e, l, False)
     else do {
       d \<leftarrow> serializationDuration sz (BandwidthBitsPerSecond (l_config l));
       let packet = \<lparr>sizeBytes = sz, tx_duration = d, onArrival = arrival\<rparr>;
       (e', l') \<leftarrow> link_start wrap packet (e, l\<lparr>l_stats := link_accept sz (link_offer sz (l_stats l))\<rparr>);
       Some (e', l', True)
     })"

definition link_pop :: "'a link \<Rightarrow> ('a transmission \<times> 'a link) option" where
  "link_pop l = map_option (\<lambda>(packet, q). (packet, l\<lparr>l_queue := q\<rparr>)) (sq_pop (l_queue l))"

text \<open>Whether the packet just serialized is lost; only a rate strictly between zero and one draws.\<close>

definition link_loses :: "'a link \<Rightarrow> (bool \<times> 'a link) option" where
  "link_loses l =
     (let rate = LossRate (l_config l) in
      if f64_lt (Fin 0) rate \<and> f64_lt rate (Fin 1) then
        (case l_rng l of
           None \<Rightarrow> None
         | Some r \<Rightarrow> let (x, r') = rng_Float64 r in Some (f64_lt x rate, l\<lparr>l_rng := Some r'\<rparr>))
      else Some (f64_eq rate (Fin 1), l))"

definition link_serialized ::
  "('a link_event \<Rightarrow> 'c) \<Rightarrow> 'a transmission \<Rightarrow> 'c engine \<times> 'a link \<Rightarrow>
   ('c engine \<times> 'a link \<times> bool) option"
where
  "link_serialized wrap packet = (\<lambda>(e, l0). do {
     (lost, l) \<leftarrow> link_loses (l0\<lparr>l_transmitting := False,
          l_stats := (l_stats l0)\<lparr>l_TransmittedBytes := l_TransmittedBytes (l_stats l0) + nat (sizeBytes packet)\<rparr>\<rparr>);
     (e, l) \<leftarrow>
       (if lost then
          Some (e, l\<lparr>l_stats := (l_stats l)\<lparr>l_LostPackets := l_LostPackets (l_stats l) + 1,
                       l_LostBytes := l_LostBytes (l_stats l) + nat (sizeBytes packet)\<rparr>\<rparr>)
        else do {
          (e', _) \<leftarrow> ScheduleAfter e (PacketTravelTime (l_config l)) (wrap (Arrived packet));
          Some (e', l\<lparr>l_travelling := l_travelling l + 1\<rparr>)
        });
     if l_managed l then Some (e, l, True)
     else if 0 < link_queued l then do {
       (next_packet, l) \<leftarrow> link_pop l;
       (e, l) \<leftarrow> link_start wrap next_packet (e, l);
       Some (e, l, False)
     }
     else Some (e, l, False)
   })"

definition link_arrived :: "'a transmission \<Rightarrow> 'a link \<Rightarrow> 'a link \<times> 'a" where
  "link_arrived packet l =
     (l\<lparr>l_travelling := l_travelling l - 1,
        l_stats := (l_stats l)\<lparr>l_DeliveredPackets := l_DeliveredPackets (l_stats l) + 1,
          l_DeliveredBytes := l_DeliveredBytes (l_stats l) + nat (sizeBytes packet)\<rparr>\<rparr>,
      onArrival packet)"

definition link_Stats :: "'a link \<Rightarrow> link_stats" where
  "link_Stats l = (l_stats l)\<lparr>l_QueuedPackets := int (link_queued l), l_Transmitting := l_transmitting l,
     l_TravellingPackets := l_travelling l\<rparr>"

definition link_DiscardPending :: "'a link \<Rightarrow> 'a link" where
  "link_DiscardPending l = l\<lparr>l_queue := sq_empty, l_transmitting := False, l_travelling := 0\<rparr>"

section \<open>The serialization time is exact\<close>

text \<open>The time of a transmission, rounded up to a nanosecond.\<close>

definition transmission_time :: "int \<Rightarrow> int \<Rightarrow> int" where
  "transmission_time sz bandwidth = \<lceil>of_int (sz * 8 * 1000000000) / (of_int bandwidth :: rat)\<rceil>"

lemma ceiling_div_eq:
  fixes n d :: nat
  assumes "0 < d"
  shows "\<lceil>of_nat n / (of_nat d :: rat)\<rceil> = int (n div d + (if 0 < n mod d then 1 else 0))"
proof -
  have "\<lceil>rat_of_int (int n) / rat_of_int (int d)\<rceil> = - (- int n div int d)"
    by (rule ceiling_divide_eq_div)
  then have c: "\<lceil>of_nat n / (of_nat d :: rat)\<rceil> = - (- int n div int d)" by simp
  have "- int n div int d = - int (n div d) - (if int n mod int d = 0 then 0 else 1)"
    using assms by (simp add: zdiv_zminus1_eq_if zdiv_int)
  with c show ?thesis by (auto simp: zmod_int)
qed

lemma serializationDuration_exact:
  assumes "0 \<le> sz" "sz \<le> max_i64" "0 < bandwidth" "bandwidth \<le> max_i64"
  shows "serializationDuration sz bandwidth =
    (if transmission_time sz bandwidth \<le> max_i64 then Some (transmission_time sz bandwidth) else None)"
proof -
  define n where "n = nat sz * 8000000000"
  define d where "d = nat bandwidth"
  let ?w = "18446744073709551616 :: nat"
  let ?up = "n div d + (if 0 < n mod d then 1 else 0)"
  have d: "0 < d" using assms(3) by (simp add: d_def)
  have "of_nat n = (of_int (sz * 8 * 1000000000) :: rat)" "of_nat d = (of_int bandwidth :: rat)"
    using assms by (simp_all add: n_def d_def)
  then have t: "transmission_time sz bandwidth = int ?up"
    using ceiling_div_eq[OF d, of n] by (simp add: transmission_time_def)
  have mul: "Mul64 (nat sz) 8000000000 = (n div ?w, n mod ?w)"
    by (simp only: Mul64_def n_def)
  have dv: "Div64 (n div ?w) (n mod ?w) d = (if d \<le> n div ?w then None else Some (n div d, n mod d))"
    by (simp only: Div64_def div_mult_mod_eq)
  have ovf: "d \<le> n div ?w \<longleftrightarrow> ?w \<le> n div d"
    using d by (simp add: less_eq_div_iff_mult_less_eq mult.commute)
  have gen: "(if ?w \<le> q then None
     else Option.bind (if ?w \<le> q then None else Some (q, r)) (\<lambda>(ns, remainder).
       Option.bind (if 0 < remainder then if ns = max_u64 then None else Some (ns + 1) else Some ns)
       (\<lambda>ns. if max_i64 < int ns then None else Some (int ns)))) =
    (if int (q + (if 0 < r then 1 else 0)) \<le> max_i64
     then Some (int (q + (if 0 < r then 1 else 0))) else None)" for q r :: nat
    by (simp add: max_i64_def max_u64_def)
  show ?thesis
    unfolding serializationDuration_def mul Let_def prod.case d_def[symmetric] dv ovf t by (rule gen)
qed

end
