(* ===== verification/LinkRun.thy ===== *)
theory LinkRun
  imports Link "HOL-Library.Sublist"
begin

text \<open>
  The link's invariant, and one link alone on its engine.  The packets of a link are those
  travelling, the one being transmitted and those waiting; the invariant ties the first two to
  the events pending in the engine, and the counters to all of them.
\<close>

definition link_config_ok :: "'a link \<Rightarrow> bool" where
  "link_config_ok l \<longleftrightarrow>
     0 < BandwidthBitsPerSecond (l_config l) \<and> 0 \<le> PacketTravelTime (l_config l) \<and>
     0 \<le> LinkQueueCapacity (l_config l) \<and>
     (\<exists>x. LossRate (l_config l) = Fin x \<and> 0 \<le> x \<and> x \<le> 1 \<and> (0 < x \<and> x < 1 \<longrightarrow> l_rng l \<noteq> None))"

definition bytes_of :: "'a transmission list \<Rightarrow> nat" where
  "bytes_of ts = (\<Sum>t\<leftarrow>ts. nat (sizeBytes t))"

lemma bytes_of_simps [simp]:
  "bytes_of [] = 0" "bytes_of (t # ts) = nat (sizeBytes t) + bytes_of ts"
  "bytes_of (xs @ ys) = bytes_of xs + bytes_of ys"
  by (simp_all add: bytes_of_def)

text \<open>The counters, for the packets \<open>ts\<close> inside the link and those of them travelling.\<close>

definition link_counts :: "'a link \<Rightarrow> 'a transmission list \<Rightarrow> 'a transmission list \<Rightarrow> bool" where
  "link_counts l ts travelling \<longleftrightarrow>
     l_OfferedPackets (l_stats l) = l_AcceptedPackets (l_stats l) + l_QueueDroppedPackets (l_stats l) \<and>
     l_OfferedBytes (l_stats l) = l_AcceptedBytes (l_stats l) + l_QueueDroppedBytes (l_stats l) \<and>
     l_AcceptedPackets (l_stats l) =
       l_DeliveredPackets (l_stats l) + l_LostPackets (l_stats l) + length ts \<and>
     l_AcceptedBytes (l_stats l) =
       l_DeliveredBytes (l_stats l) + l_LostBytes (l_stats l) + bytes_of ts \<and>
     l_TransmittedBytes (l_stats l) =
       l_DeliveredBytes (l_stats l) + l_LostBytes (l_stats l) + bytes_of travelling \<and>
     l_CongestionDroppedPackets (l_stats l) \<le> l_QueueDroppedPackets (l_stats l) \<and>
     l_travelling l = int (length travelling)"

text \<open>
  The pending events: \<open>arrs\<close> are the arrivals of the first travelling packets, in order, and
  \<open>ser\<close> the completion of the transmission.  Those beyond the end of the experiment have
  no event.
\<close>

definition link_events ::
  "('a link_event \<Rightarrow> 'c) \<Rightarrow> 'c engine \<Rightarrow> duration \<Rightarrow> 'a transmission list \<Rightarrow> 'a transmission list \<Rightarrow>
   'c event list \<Rightarrow> 'c event list \<Rightarrow> bool"
where
  "link_events wrap e travel trav cur arrs ser \<longleftrightarrow>
     (\<forall>x \<in> pending e. ev_callback x \<in> range wrap \<longrightarrow> x \<in> set arrs \<or> x \<in> set ser) \<and>
     (\<forall>x \<in> set arrs \<union> set ser. x \<in> pending e) \<and>
     map ev_callback arrs = map (\<lambda>t. wrap (Arrived t)) (take (length arrs) trav) \<and>
     map ev_callback ser = map (\<lambda>t. wrap (Serialized t)) (take (length ser) cur) \<and>
     length arrs \<le> length trav \<and> length ser \<le> length cur \<and> length cur \<le> 1 \<and>
     (length arrs < length trav \<longrightarrow> end_time e < eng_now e + travel) \<and>
     sorted_wrt (\<lambda>x y. event_key x < event_key y) arrs \<and>
     (\<forall>x \<in> set arrs. ev_at x \<le> eng_now e + travel)"

definition link_queue_ok :: "'a link \<Rightarrow> 'a transmission list \<Rightarrow> bool" where
  "link_queue_ok l cur \<longleftrightarrow>
     sq_ok (l_queue l) \<and> l_transmitting l = (cur \<noteq> []) \<and>
     (sq_list (l_queue l) \<noteq> [] \<longrightarrow> \<not> l_managed l \<and> cur \<noteq> []) \<and>
     int (link_queued l) \<le> LinkQueueCapacity (l_config l) \<and>
     (\<forall>t \<in> set (cur @ sq_list (l_queue l)). 0 \<le> tx_duration t \<and> 0 \<le> sizeBytes t)"

definition link_inv ::
  "('a link_event \<Rightarrow> 'c) \<Rightarrow> 'c engine \<Rightarrow> 'a link \<Rightarrow> 'a transmission list \<Rightarrow> 'a transmission list \<Rightarrow>
   'c event list \<Rightarrow> 'c event list \<Rightarrow> bool"
where
  "link_inv wrap e l trav cur arrs ser \<longleftrightarrow>
     link_config_ok l \<and> link_queue_ok l cur \<and>
     link_counts l (trav @ cur @ sq_list (l_queue l)) trav \<and>
     link_events wrap e (PacketTravelTime (l_config l)) trav cur arrs ser"

lemma f64_outside_False:
  "\<not> f64_outside x hi \<Longrightarrow> \<exists>q. x = Fin q \<and> 0 \<le> q \<and> q \<le> hi"
  by (cases x) (auto simp: f64_outside_def)

lemma NewLink_inv:
  assumes "NewLink config r = Some l" "\<forall>x \<in> pending e. ev_callback x \<notin> range wrap"
  shows "link_inv wrap e l [] [] [] []"
proof -
  have "\<not> f64_outside (LossRate config) 1" using assms(1) by (auto simp: NewLink_def split: if_splits)
  from f64_outside_False[OF this] show ?thesis
    using assms
    by (auto simp: NewLink_def link_inv_def link_config_ok_def link_queue_ok_def link_counts_def
        link_events_def link_queued_def zero_link_stats_def split: if_splits)
qed

lemma serializationDuration_nonneg: "serializationDuration sz bw = Some d \<Longrightarrow> 0 \<le> d"
  by (auto simp: serializationDuration_def Let_def split: if_splits Option.bind_splits prod.splits)

section \<open>Scheduling\<close>

text \<open>What the two kinds of event a link schedules do to its pending events.\<close>

lemma link_events_start:
  assumes e: "eng_inv e" and l: "link_events wrap e travel trav [] arrs []"
    and s: "ScheduleAfter e d (wrap (Serialized p)) = Some (e', i)"
  shows "\<exists>ser. link_events wrap e' travel trav [p] arrs ser"
proof (cases "i = 0")
  case True
  then have "e' = e" using ScheduleAfter_zero[OF e] s by blast
  with l show ?thesis by (intro exI[of _ "[]"]) (simp add: link_events_def)
next
  case False
  let ?x = "\<lparr>ev_id = i, ev_at = eng_now e + d, ev_callback = wrap (Serialized p)\<rparr>"
  have n: "pending e' = insert ?x (pending e)" using ScheduleAfter_inv[OF e s False] by simp
  have fr: "eng_now e' = eng_now e" "end_time e' = end_time e"
    using api_keeps[OF api_ScheduleAfter[OF s] e] by auto
  show ?thesis
    using l unfolding link_events_def n fr by (intro exI[of _ "[?x]"]) auto
qed

lemma link_events_travel:
  assumes e: "eng_inv e" and l: "link_events wrap e travel trav cur arrs ser"
    and s: "ScheduleAfter e travel (wrap (Arrived p)) = Some (e', i)"
  shows "\<exists>arrs'. link_events wrap e' travel (trav @ [p]) cur arrs' ser"
proof (cases "i = 0")
  case True
  then have "e' = e" "end_time e < eng_now e + travel" using ScheduleAfter_zero[OF e] s by auto
  with l show ?thesis by (intro exI[of _ arrs]) (auto simp: link_events_def)
next
  case False
  let ?x = "\<lparr>ev_id = i, ev_at = eng_now e + travel, ev_callback = wrap (Arrived p)\<rparr>"
  note k = ScheduleAfter_inv[OF e s False]
  have n: "pending e' = insert ?x (pending e)" "eng_now e + travel \<le> end_time e" using k by simp_all
  have fr: "eng_now e' = eng_now e" "end_time e' = end_time e"
    using api_keeps[OF api_ScheduleAfter[OF s] e] by auto
  have len: "length arrs = length trav" using l n(2) by (auto simp: link_events_def)
  have old: "event_key y < event_key ?x" if "y \<in> set arrs" for y
  proof -
    have "y \<in> pending e" "ev_at y \<le> eng_now e + travel" using l that by (auto simp: link_events_def)
    moreover have "ev_id y < i" using k e \<open>y \<in> pending e\<close> by (force simp: eng_inv_def)
    ultimately show ?thesis by (auto simp: event_key_def less_prod_def)
  qed
  show ?thesis
    using l len old unfolding link_events_def n(1) fr
    by (intro exI[of _ "arrs @ [?x]"]) (auto simp: sorted_wrt_append)
qed

text \<open>Events of others, and the clock, do not matter.\<close>

lemma link_events_cong:
  assumes "link_events wrap e travel trav cur arrs ser"
    and "\<And>x. ev_callback x \<in> range wrap \<Longrightarrow> x \<in> pending e' \<longleftrightarrow> x \<in> pending e"
    and "eng_now e \<le> eng_now e'" "end_time e' = end_time e"
  shows "link_events wrap e' travel trav cur arrs ser"
proof -
  have cb: "ev_callback x \<in> range wrap" if "x \<in> set arrs \<or> x \<in> set ser" for x
  proof -
    have "ev_callback x \<in> set (map ev_callback arrs) \<union> set (map ev_callback ser)" using that by auto
    then show ?thesis using assms(1) unfolding link_events_def by (auto dest: in_set_takeD)
  qed
  show ?thesis
    using assms(1,3,4) assms(2) cb unfolding link_events_def by fastforce
qed

section \<open>The operations keep the invariant\<close>

lemma link_start_inv:
  assumes e: "eng_inv e" and room: "next_id e < max_u64" and d: "0 \<le> tx_duration p"
    and l: "link_events wrap e travel trav [] arrs []"
  shows "\<exists>e' ser. link_start wrap p (e, l0) = Some (e', l0\<lparr>l_transmitting := True\<rparr>) \<and>
    link_events wrap e' travel trav [p] arrs ser \<and> eng_inv e' \<and> api e e' \<and> next_id e' \<le> next_id e + 1"
proof -
  obtain e' i where s: "ScheduleAfter e (tx_duration p) (wrap (Serialized p)) = Some (e', i)"
    using ScheduleAfter_Some[OF e d room] by blast
  obtain ser where "link_events wrap e' travel trav [p] arrs ser"
    using link_events_start[OF e l s] by blast
  moreover have "api e e'" using api_ScheduleAfter[OF s] .
  ultimately show ?thesis
    using s api_keeps[of e e'] e ScheduleAfter_next_id[OF e s] by (auto simp: link_start_def)
qed

text \<open>The congestion generator is there when the policy may draw from it.\<close>

definition congestion_ready :: "'a link \<Rightarrow> bool" where
  "congestion_ready l \<longleftrightarrow> QueuePolicy (l_config l) \<noteq> ''threshold'' \<or> l_congestionRNG l \<noteq> None \<or>
     f64_eq (CongestionSignalProbability (l_config l)) (Fin 0) \<or>
     f64_eq (CongestionSignalProbability (l_config l)) (Fin 1)"

lemma shouldSignal_ok:
  "congestion_ready l \<Longrightarrow> \<exists>b r. shouldSignalCongestion w l = Some (b, l\<lparr>l_congestionRNG := r\<rparr>) \<and>
     congestion_ready (l\<lparr>l_congestionRNG := r\<rparr>)"
  by (cases "l_congestionRNG l")
    (auto simp: shouldSignalCongestion_def congestion_ready_def Let_def split: prod.splits
      intro: exI[of _ "l_congestionRNG l"])

lemma link_inv_rng:
  "link_inv wrap e (l\<lparr>l_congestionRNG := r\<rparr>) trav cur arrs ser = link_inv wrap e l trav cur arrs ser"
  by (simp add: link_inv_def link_config_ok_def link_queue_ok_def link_counts_def link_queued_def)

lemma TransmitECN_inv:
  assumes e: "eng_inv e" and room: "next_id e < max_u64" and l: "link_inv wrap e l trav cur arrs ser"
    and auto: "\<not> l_managed l" "congestion_ready l" and sz: "0 \<le> sz" "validateECNState state"
    and d: "serializationDuration sz (BandwidthBitsPerSecond (l_config l)) = Some d"
  shows "\<exists>e' l' ok cur' ser' marked. TransmitECN wrap sz state arrival (e, l) = Some (e', l', ok) \<and>
    link_inv wrap e' l' trav cur' arrs ser' \<and> eng_inv e' \<and> api e e' \<and> next_id e' \<le> next_id e + 1 \<and>
    \<not> l_managed l' \<and> congestion_ready l' \<and> l_config l' = l_config l \<and>
    cur' @ sq_list (l_queue l') = cur @ sq_list (l_queue l) @
      (if ok then [\<lparr>sizeBytes = sz, tx_duration = d, onArrival = arrival marked\<rparr>] else [])"
proof -
  let ?full = "l_transmitting l \<and> LinkQueueCapacity (l_config l) \<le> int (link_queued l)"
  obtain sel r where sel: "(if \<not> ?full \<and> l_transmitting l
      then shouldSignalCongestion (link_queued l + 1) l else Some (False, l)) =
      Some (sel, l\<lparr>l_congestionRNG := r\<rparr>)"
    "congestion_ready (l\<lparr>l_congestionRNG := r\<rparr>)" "\<not> l_transmitting l \<Longrightarrow> \<not> sel"
  proof (cases "\<not> ?full \<and> l_transmitting l")
    case True
    then show ?thesis using shouldSignal_ok[OF auto(2), of "link_queued l + 1"] that by auto
  next
    case False
    then have "(if \<not> ?full \<and> l_transmitting l then shouldSignalCongestion (link_queued l + 1) l
        else Some (False, l)) = Some (False, l\<lparr>l_congestionRNG := l_congestionRNG l\<rparr>)"
      by (subst if_not_P[OF False]) simp
    then show ?thesis using that[of False "l_congestionRNG l"] auto(2) by simp
  qed
  let ?l = "l\<lparr>l_congestionRNG := r\<rparr>"
  have li: "link_inv wrap e ?l trav cur arrs ser" using l by (simp add: link_inv_rng)
  let ?marked = "state = AlreadyMarked \<or> (sel \<and> state = Capable)"
  let ?p = "\<lparr>sizeBytes = sz, tx_duration = d, onArrival = arrival ?marked\<rparr>"
  let ?st = "link_offer sz (l_stats ?l)"
  let ?st2 = "if sel \<and> state = Capable then link_mark sz ?st else ?st"
  have d0: "0 \<le> d" using serializationDuration_nonneg[OF d] .
  have call: "TransmitECN wrap sz state arrival (e, l) =
      (if ?full \<or> (sel \<and> state = NotCapable)
       then Some (e, ?l\<lparr>l_stats := link_drop sz (\<not> ?full) ?st\<rparr>, False)
       else if l_transmitting l
       then Some (e, ?l\<lparr>l_stats := link_accept sz ?st2, l_queue := sq_append ?p (l_queue ?l)\<rparr>, True)
       else do { (e', l') \<leftarrow> link_start wrap ?p (e, ?l\<lparr>l_stats := link_accept sz ?st2\<rparr>); Some (e', l', True) })"
    using auto(1) sz d sel(1) unfolding TransmitECN_def by (simp add: Let_def)
  consider (drop) "?full \<or> (sel \<and> state = NotCapable)"
    | (wait) "\<not> (?full \<or> (sel \<and> state = NotCapable))" "l_transmitting l"
    | (start) "\<not> l_transmitting l" "\<not> (?full \<or> (sel \<and> state = NotCapable))"
    using sel(3) by blast
  then show ?thesis
  proof cases
    case drop
    have "link_inv wrap e (?l\<lparr>l_stats := link_drop sz (\<not> ?full) ?st\<rparr>) trav cur arrs ser"
      using li by (auto simp: link_inv_def link_config_ok_def link_queue_ok_def link_counts_def
          link_queued_def link_drop_def link_offer_def Let_def)
    moreover have "congestion_ready (?l\<lparr>l_stats := link_drop sz (\<not> ?full) ?st\<rparr>)"
      using sel(2) by (simp add: congestion_ready_def)
    ultimately show ?thesis
      using call drop e auto(1) by (intro exI[of _ e] exI[of _ "?l\<lparr>l_stats := link_drop sz (\<not> ?full) ?st\<rparr>"]
          exI[of _ False] exI[of _ cur] exI[of _ ser]) auto
  next
    case wait
    let ?n = "?l\<lparr>l_stats := link_accept sz ?st2, l_queue := sq_append ?p (l_queue ?l)\<rparr>"
    have "link_inv wrap e ?n trav cur arrs ser"
      using li wait sz(1) d0 auto(1) by (auto simp: link_inv_def link_config_ok_def link_queue_ok_def link_counts_def
          link_queued_def link_accept_def link_offer_def link_mark_def)
    moreover have "congestion_ready ?n" "sq_ok (l_queue l)"
      using sel(2) l by (simp_all add: congestion_ready_def link_inv_def link_queue_ok_def)
    ultimately show ?thesis
      using call wait e auto(1) by (intro exI[of _ e] exI[of _ ?n]
          exI[of _ True] exI[of _ cur] exI[of _ ser] exI[of _ ?marked]) auto
  next
    case start
    let ?n = "?l\<lparr>l_stats := link_accept sz ?st2\<rparr>"
    have q: "cur = []" "sq_list (l_queue l) = []" "ser = []"
      using l start(1) by (auto simp: link_inv_def link_queue_ok_def link_events_def)
    have ev: "link_events wrap e (PacketTravelTime (l_config l)) trav [] arrs []"
      using l q by (simp add: link_inv_def)
    obtain e' ser' where s: "link_start wrap ?p (e, ?n) = Some (e', ?n\<lparr>l_transmitting := True\<rparr>)"
      "link_events wrap e' (PacketTravelTime (l_config l)) trav [?p] arrs ser'" "eng_inv e'" "api e e'"
      "next_id e' \<le> next_id e + 1"
      using link_start_inv[OF e room _ ev, of ?p ?n] d0 by auto
    have "link_inv wrap e' (?n\<lparr>l_transmitting := True\<rparr>) trav [?p] arrs ser'"
      using li s(2) q sz(1) d0 by (auto simp: link_inv_def link_config_ok_def link_queue_ok_def link_counts_def
          link_queued_def link_accept_def link_offer_def link_mark_def)
    moreover have "congestion_ready (?n\<lparr>l_transmitting := True\<rparr>)"
      using sel(2) by (simp add: congestion_ready_def)
    ultimately show ?thesis
      using call start s q auto(1) by (intro exI[of _ e'] exI[of _ "?n\<lparr>l_transmitting := True\<rparr>"]
          exI[of _ True] exI[of _ "[?p]"] exI[of _ ser'] exI[of _ ?marked]) auto
  qed
qed

lemma link_events_kinds:
  assumes "link_events wrap e travel trav cur arrs ser"
  shows "x \<in> set arrs \<Longrightarrow> \<exists>t. ev_callback x = wrap (Arrived t)"
    and "x \<in> set ser \<Longrightarrow> \<exists>t. ev_callback x = wrap (Serialized t)"
proof -
  have m: "map ev_callback arrs = map (\<lambda>t. wrap (Arrived t)) (take (length arrs) trav)"
    "map ev_callback ser = map (\<lambda>t. wrap (Serialized t)) (take (length ser) cur)"
    using assms by (simp_all add: link_events_def)
  show "\<exists>t. ev_callback x = wrap (Arrived t)" if "x \<in> set arrs"
  proof -
    have "ev_callback x \<in> set (map ev_callback arrs)" using that by simp
    then show ?thesis unfolding m(1) by auto
  qed
  show "\<exists>t. ev_callback x = wrap (Serialized t)" if "x \<in> set ser"
  proof -
    have "ev_callback x \<in> set (map ev_callback ser)" using that by simp
    then show ?thesis unfolding m(2) by auto
  qed
qed

text \<open>The event that leaves the queue: the transmission's end, or the oldest packet's arrival.\<close>

lemma link_head_serialized:
  assumes e: "eng_inv e" "arr (queue e) \<noteq> []" "take_event e = Some (x, e1)" and i: "inj wrap"
    and l: "link_events wrap e travel trav cur arrs ser" and x: "ev_callback x = wrap (Serialized p)"
  shows "cur = [p] \<and> link_events wrap e1 travel trav [p] arrs []"
proof -
  note t = take_event_facts[OF e]
  have "x \<in> set arrs \<or> x \<in> set ser" using l t(1) x by (auto simp: link_events_def)
  moreover have "x \<notin> set arrs"
  proof
    assume "x \<in> set arrs"
    then obtain t where "ev_callback x = wrap (Arrived t)" using link_events_kinds(1)[OF l] by blast
    with x i show False by (metis injD link_event.distinct(1))
  qed
  ultimately have xs: "x \<in> set ser" "x \<notin> set arrs" by auto
  have len: "length ser \<le> length cur" "length cur \<le> 1" using l by (auto simp: link_events_def)
  then have "length ser = 1" using xs(1) length_pos_if_in_set[OF xs(1)] by linarith
  then have ser: "ser = [x]" using xs(1) by (auto simp: length_Suc_conv)
  then obtain q where cur: "cur = [q]" using len by (cases cur) auto
  have "map ev_callback ser = map (\<lambda>t. wrap (Serialized t)) (take (length ser) cur)"
    using l by (simp add: link_events_def)
  then have "wrap (Serialized q) = wrap (Serialized p)" using ser cur x by simp
  then have "q = p" using i by (auto dest: injD)
  have old: "\<forall>z \<in> pending e. ev_callback z \<in> range wrap \<longrightarrow> z \<in> set arrs \<or> z \<in> set ser"
    "\<forall>z \<in> set arrs \<union> set ser. z \<in> pending e"
    "length arrs < length trav \<longrightarrow> end_time e < eng_now e + travel"
    "\<forall>z \<in> set arrs. ev_at z \<le> eng_now e + travel"
    "map ev_callback arrs = map (\<lambda>t. wrap (Arrived t)) (take (length arrs) trav)"
    "length arrs \<le> length trav" "sorted_wrt (\<lambda>x y. event_key x < event_key y) arrs"
    using l by (simp_all add: link_events_def)
  have "\<forall>z \<in> pending e1. ev_callback z \<in> range wrap \<longrightarrow> z \<in> set arrs"
    using old(1) unfolding t(2) ser by auto
  moreover have "\<forall>z \<in> set arrs. z \<in> pending e1"
    using old(2) xs(2) unfolding t(2) by auto
  moreover have "\<forall>z \<in> set arrs. ev_at z \<le> eng_now e1 + travel"
    using old(4) t(8) by fastforce
  moreover have "length arrs < length trav \<longrightarrow> end_time e1 < eng_now e1 + travel"
    using old(3) t(8) unfolding t(6) by auto
  ultimately have "link_events wrap e1 travel trav [p] arrs []"
    using old(5-7) unfolding link_events_def by auto
  with cur \<open>q = p\<close> show ?thesis by simp
qed

lemma link_head_arrived:
  assumes e: "eng_inv e" "arr (queue e) \<noteq> []" "take_event e = Some (x, e1)" and i: "inj wrap"
    and l: "link_events wrap e travel trav cur arrs ser" and x: "ev_callback x = wrap (Arrived p)"
  shows "\<exists>trav' arrs'. trav = p # trav' \<and> link_events wrap e1 travel trav' cur arrs' ser"
proof -
  note t = take_event_facts[OF e]
  have "x \<in> set arrs \<or> x \<in> set ser" using l t(1) x by (auto simp: link_events_def)
  moreover have "x \<notin> set ser"
  proof
    assume "x \<in> set ser"
    then obtain t where "ev_callback x = wrap (Serialized t)" using link_events_kinds(2)[OF l] by blast
    with x i show False by (metis injD link_event.distinct(1))
  qed
  ultimately have xs: "x \<in> set arrs" "x \<notin> set ser" by auto
  obtain y arrs' where arrs: "arrs = y # arrs'" using xs(1) by (cases arrs) auto
  have srt: "sorted_wrt (\<lambda>x y. event_key x < event_key y) (y # arrs')"
    using l arrs by (simp add: link_events_def)
  have "y \<in> pending e" using l arrs by (simp add: link_events_def)
  have yx: "y = x"
  proof (rule ccontr)
    assume ne: "y \<noteq> x"
    then have "y \<in> pending e1" using \<open>y \<in> pending e\<close> unfolding t(2) by simp
    then have "event_key x < event_key y" using t(3) by simp
    moreover have "event_key y < event_key x" using srt xs(1) arrs ne by auto
    ultimately show False by simp
  qed
  have nin: "x \<notin> set arrs'" using srt yx by auto
  have cb: "map ev_callback arrs = map (\<lambda>t. wrap (Arrived t)) (take (length arrs) trav)"
    "length arrs \<le> length trav"
    using l by (simp_all add: link_events_def)
  then obtain q trav' where trav: "trav = q # trav'" using arrs by (cases trav) auto
  then have "wrap (Arrived q) = wrap (Arrived p)" using cb arrs x yx by simp
  then have "q = p" using i by (auto dest: injD)
  have old: "\<forall>z \<in> pending e. ev_callback z \<in> range wrap \<longrightarrow> z \<in> set arrs \<or> z \<in> set ser"
    "\<forall>z \<in> set arrs \<union> set ser. z \<in> pending e"
    "length arrs < length trav \<longrightarrow> end_time e < eng_now e + travel"
    "\<forall>z \<in> set arrs. ev_at z \<le> eng_now e + travel"
    "map ev_callback ser = map (\<lambda>t. wrap (Serialized t)) (take (length ser) cur)"
    "length ser \<le> length cur" "length cur \<le> 1"
    using l by (simp_all add: link_events_def)
  have "\<forall>z \<in> pending e1. ev_callback z \<in> range wrap \<longrightarrow> z \<in> set arrs' \<or> z \<in> set ser"
    using old(1) unfolding t(2) arrs yx by auto
  moreover have "\<forall>z \<in> set arrs' \<union> set ser. z \<in> pending e1"
    using old(2) nin xs(2) unfolding t(2) arrs by auto
  moreover have "\<forall>z \<in> set arrs'. ev_at z \<le> eng_now e1 + travel"
    using old(4) t(8) unfolding arrs by fastforce
  moreover have "length arrs' < length trav' \<longrightarrow> end_time e1 < eng_now e1 + travel"
    using old(3) t(8) unfolding arrs trav t(6) by auto
  ultimately have "link_events wrap e1 travel trav' cur arrs' ser"
    using old(5-7) cb srt unfolding link_events_def arrs trav by auto
  with trav \<open>q = p\<close> show ?thesis by blast
qed

lemma link_head_other:
  assumes e: "eng_inv e" "arr (queue e) \<noteq> []" "take_event e = Some (x, e1)"
    and l: "link_events wrap e travel trav cur arrs ser" and x: "ev_callback x \<notin> range wrap"
  shows "link_events wrap e1 travel trav cur arrs ser"
proof -
  note t = take_event_facts[OF e]
  show ?thesis
  proof (rule link_events_cong[OF l])
    show "y \<in> pending e1 \<longleftrightarrow> y \<in> pending e" if "ev_callback y \<in> range wrap" for y
      using that x unfolding t(2) by auto
  qed (use t in simp_all)
qed

lemma link_loses_ok:
  assumes "link_config_ok l"
  shows "\<exists>b r. link_loses l = Some (b, l\<lparr>l_rng := r\<rparr>) \<and> (l_rng l \<noteq> None \<longrightarrow> r \<noteq> None) \<and>
    (LossRate (l_config l) = Fin 0 \<longrightarrow> \<not> b) \<and> (LossRate (l_config l) = Fin 1 \<longrightarrow> b)"
proof -
  obtain x where x: "LossRate (l_config l) = Fin x" "0 < x \<and> x < 1 \<longrightarrow> l_rng l \<noteq> None"
    using assms by (auto simp: link_config_ok_def)
  show ?thesis
  proof (cases "0 < x \<and> x < 1")
    case True
    then obtain g where "l_rng l = Some g" using x by auto
    then show ?thesis using x True
      by (cases "rng_Float64 g") (auto simp: link_loses_def Let_def)
  next
    case False
    then show ?thesis using x
      by (auto simp: link_loses_def Let_def intro!: exI[of _ "l_rng l"])
  qed
qed

text \<open>
  The end of a serialization: the packet is lost or travels, and the next waiting packet
  starts unless a manager decides.
\<close>

lemma link_serialized_inv:
  assumes e1: "eng_inv e1" and room: "next_id e1 + 2 \<le> max_u64"
    and c: "link_config_ok l" and q: "link_queue_ok l [p]"
    and n: "link_counts l (trav @ [p] @ sq_list (l_queue l)) trav"
    and ev: "link_events wrap e1 (PacketTravelTime (l_config l)) trav [p] arrs []"
  shows "\<exists>e2 l2 b trav' cur' arrs' ser'.
    link_serialized wrap p (e1, l) = Some (e2, l2, l_managed l) \<and>
    link_inv wrap e2 l2 trav' cur' arrs' ser' \<and> eng_inv e2 \<and> api e1 e2 \<and> next_id e2 \<le> next_id e1 + 2 \<and>
    l_managed l2 = l_managed l \<and> congestion_ready l2 = congestion_ready l \<and> l_config l2 = l_config l \<and>
    trav' @ cur' @ sq_list (l_queue l2) = trav @ (if b then [] else [p]) @ sq_list (l_queue l) \<and>
    (LossRate (l_config l) = Fin 0 \<longrightarrow> \<not> b) \<and> (l_managed l \<longrightarrow> cur' = []) \<and>
    l_LostPackets (l_stats l2) = l_LostPackets (l_stats l) + (if b then 1 else 0)"
proof -
  let ?st = "(l_stats l)\<lparr>l_TransmittedBytes := l_TransmittedBytes (l_stats l) + nat (sizeBytes p)\<rparr>"
  let ?l0 = "l\<lparr>l_transmitting := False, l_stats := ?st\<rparr>"
  let ?d = "PacketTravelTime (l_config l)"
  have c0: "link_config_ok ?l0" using c by (simp add: link_config_ok_def)
  obtain b r where b: "link_loses ?l0 = Some (b, ?l0\<lparr>l_rng := r\<rparr>)" "l_rng l \<noteq> None \<longrightarrow> r \<noteq> None"
    "LossRate (l_config l) = Fin 0 \<longrightarrow> \<not> b"
    using link_loses_ok[OF c0] by auto
  have ev0: "link_events wrap e1 ?d trav [] arrs []" using ev by (simp add: link_events_def)
  have "\<exists>e2 l2 trav' arrs'. (if b then
          Some (e1, ?l0\<lparr>l_rng := r\<rparr>\<lparr>l_stats := ?st\<lparr>l_LostPackets := l_LostPackets ?st + 1,
                       l_LostBytes := l_LostBytes ?st + nat (sizeBytes p)\<rparr>\<rparr>)
        else do {
          (e', _) \<leftarrow> ScheduleAfter e1 ?d (wrap (Arrived p));
          Some (e', ?l0\<lparr>l_rng := r\<rparr>\<lparr>l_travelling := l_travelling l + 1\<rparr>)
        }) = Some (e2, l2) \<and> eng_inv e2 \<and> api e1 e2 \<and> next_id e2 \<le> next_id e1 + 1 \<and>
        link_events wrap e2 ?d trav' [] arrs' [] \<and> trav' = trav @ (if b then [] else [p]) \<and>
        link_config_ok l2 \<and> link_counts l2 (trav' @ sq_list (l_queue l2)) trav' \<and>
        l_queue l2 = l_queue l \<and> l_managed l2 = l_managed l \<and> l_config l2 = l_config l \<and>
        \<not> l_transmitting l2 \<and> l_congestionRNG l2 = l_congestionRNG l \<and>
        l_LostPackets (l_stats l2) = l_LostPackets (l_stats l) + (if b then 1 else 0)"
  proof (cases b)
    case True
    then show ?thesis
      using e1 ev0 c b(2) n
      by (intro exI[of _ e1] exI[of _ "?l0\<lparr>l_rng := r\<rparr>\<lparr>l_stats := ?st\<lparr>l_LostPackets := l_LostPackets ?st + 1,
                       l_LostBytes := l_LostBytes ?st + nat (sizeBytes p)\<rparr>\<rparr>"] exI[of _ trav] exI[of _ arrs])
        (auto simp: link_config_ok_def link_counts_def)
  next
    case False
    have "0 \<le> ?d" using c by (simp add: link_config_ok_def)
    then obtain e2 i where s: "ScheduleAfter e1 ?d (wrap (Arrived p)) = Some (e2, i)"
      using ScheduleAfter_Some[OF e1, of ?d] room by force
    obtain arrs' where "link_events wrap e2 ?d (trav @ [p]) [] arrs' []"
      using link_events_travel[OF e1 ev0 s] by blast
    moreover have "api e1 e2" using api_ScheduleAfter[OF s] .
    moreover have "link_config_ok (?l0\<lparr>l_rng := r\<rparr>\<lparr>l_travelling := l_travelling l + 1\<rparr>)"
      "link_counts (?l0\<lparr>l_rng := r\<rparr>\<lparr>l_travelling := l_travelling l + 1\<rparr>) ((trav @ [p]) @ sq_list (l_queue l)) (trav @ [p])"
      using c b(2) n by (auto simp: link_config_ok_def link_counts_def)
    ultimately show ?thesis
      using s False api_keeps[of e1 e2] e1 ScheduleAfter_next_id[OF e1 s]
      by (intro exI[of _ e2] exI[of _ "?l0\<lparr>l_rng := r\<rparr>\<lparr>l_travelling := l_travelling l + 1\<rparr>"]
          exI[of _ "trav @ [p]"] exI[of _ arrs']) auto
  qed
  then obtain e2 l2 trav' arrs' where two: "(if b then
          Some (e1, ?l0\<lparr>l_rng := r\<rparr>\<lparr>l_stats := ?st\<lparr>l_LostPackets := l_LostPackets ?st + 1,
                       l_LostBytes := l_LostBytes ?st + nat (sizeBytes p)\<rparr>\<rparr>)
        else do {
          (e', _) \<leftarrow> ScheduleAfter e1 ?d (wrap (Arrived p));
          Some (e', ?l0\<lparr>l_rng := r\<rparr>\<lparr>l_travelling := l_travelling l + 1\<rparr>)
        }) = Some (e2, l2)" "eng_inv e2" "api e1 e2" "next_id e2 \<le> next_id e1 + 1"
     "link_events wrap e2 ?d trav' [] arrs' []" "trav' = trav @ (if b then [] else [p])"
     "link_config_ok l2" "link_counts l2 (trav' @ sq_list (l_queue l2)) trav'"
     "l_queue l2 = l_queue l" "l_managed l2 = l_managed l" "l_config l2 = l_config l"
     "\<not> l_transmitting l2" "l_congestionRNG l2 = l_congestionRNG l"
     "l_LostPackets (l_stats l2) = l_LostPackets (l_stats l) + (if b then 1 else 0)"
    by (elim exE conjE) (rule that; assumption)
  have cg: "congestion_ready l2 = congestion_ready l" using two(11,13) by (simp add: congestion_ready_def)
  have run: "link_serialized wrap p (e1, l) =
     (if l_managed l then Some (e2, l2, True)
      else if 0 < link_queued l then do {
        (next_packet, l) \<leftarrow> link_pop l2;
        (e, l) \<leftarrow> link_start wrap next_packet (e2, l);
        Some (e, l, False)
      } else Some (e2, l2, False))"
    using b(1) two(1,9,10) unfolding link_serialized_def
    by (cases b) (auto simp: link_queued_def split: Option.bind_splits)
  show ?thesis
  proof (cases "sq_list (l_queue l)")
    case Nil
    have "link_queue_ok l2 []"
      using q Nil two(9-12) by (simp add: link_queue_ok_def link_queued_def)
    then have "link_inv wrap e2 l2 trav' [] arrs' []"
      using two by (simp add: link_inv_def)
    then show ?thesis
      using run two Nil cg b(3) by (intro exI[of _ e2] exI[of _ l2] exI[of _ b] exI[of _ trav']
          exI[of _ "[]"] exI[of _ arrs']) (auto simp: link_queued_def)
  next
    case (Cons w ws)
    have nm: "\<not> l_managed l" and ok: "sq_ok (l_queue l)" and w: "0 \<le> tx_duration w" "0 \<le> sizeBytes w"
      using q Cons by (auto simp: link_queue_ok_def)
    obtain qq where qq: "sq_pop (l_queue l) = Some (w, qq)" "sq_ok qq" "sq_list qq = ws"
      using sq_pop_contents[OF ok Cons] by blast
    let ?n = "l2\<lparr>l_queue := qq\<rparr>"
    obtain e3 ser where s: "link_start wrap w (e2, ?n) = Some (e3, ?n\<lparr>l_transmitting := True\<rparr>)"
      "link_events wrap e3 ?d trav' [w] arrs' ser" "eng_inv e3" "api e2 e3" "next_id e3 \<le> next_id e2 + 1"
      using link_start_inv[OF two(2) _ w(1) two(5), of ?n] two(4) room by auto
    have "link_queue_ok (?n\<lparr>l_transmitting := True\<rparr>) [w]"
      using q Cons qq nm two(10,11) by (auto simp: link_queue_ok_def link_queued_def)
    moreover have "link_counts (?n\<lparr>l_transmitting := True\<rparr>) (trav' @ [w] @ ws) trav'"
      using two(8,9) Cons by (simp add: link_counts_def)
    ultimately have "link_inv wrap e3 (?n\<lparr>l_transmitting := True\<rparr>) trav' [w] arrs' ser"
      using s(2) two(7,11) qq(3) by (simp add: link_inv_def link_config_ok_def)
    moreover have "link_serialized wrap p (e1, l) = Some (e3, ?n\<lparr>l_transmitting := True\<rparr>, False)"
      using run nm Cons qq(1) s(1) two(9) by (simp add: link_queued_def link_pop_def)
    ultimately show ?thesis
      using s two nm Cons qq(3) cg b(3) api_trans[OF two(3) s(4)]
      by (intro exI[of _ e3] exI[of _ "?n\<lparr>l_transmitting := True\<rparr>"] exI[of _ b] exI[of _ trav']
          exI[of _ "[w]"] exI[of _ arrs'] exI[of _ ser]) (auto simp: congestion_ready_def)
  qed
qed

text \<open>A manager starts a transmission on an idle link.\<close>

lemma TryStart_inv:
  assumes e: "eng_inv e" and room: "next_id e < max_u64" and l: "link_inv wrap e l trav [] arrs ser"
    and sz: "0 \<le> sz" and d: "serializationDuration sz (BandwidthBitsPerSecond (l_config l)) = Some d"
    and q: "sq_list (l_queue l) = []"
  shows "\<exists>e' l' ser'. TryStart wrap sz arrival (e, l) = Some (e', l', True) \<and>
    link_inv wrap e' l' trav [\<lparr>sizeBytes = sz, tx_duration = d, onArrival = arrival\<rparr>] arrs ser' \<and>
    eng_inv e' \<and> api e e' \<and> next_id e' \<le> next_id e + 1 \<and> sq_list (l_queue l') = [] \<and>
    l_managed l' = l_managed l \<and> l_config l' = l_config l \<and> congestion_ready l' = congestion_ready l \<and>
    l_LostPackets (l_stats l') = l_LostPackets (l_stats l)"
proof -
  let ?p = "\<lparr>sizeBytes = sz, tx_duration = d, onArrival = arrival\<rparr>"
  let ?n = "l\<lparr>l_stats := link_accept sz (link_offer sz (l_stats l))\<rparr>"
  have d0: "0 \<le> d" using serializationDuration_nonneg[OF d] .
  have s0: "ser = []" "\<not> l_transmitting l" using l by (simp_all add: link_inv_def link_events_def link_queue_ok_def)
  have ev: "link_events wrap e (PacketTravelTime (l_config l)) trav [] arrs []"
    using l s0 by (simp add: link_inv_def)
  obtain e' ser' where s: "link_start wrap ?p (e, ?n) = Some (e', ?n\<lparr>l_transmitting := True\<rparr>)"
    "link_events wrap e' (PacketTravelTime (l_config l)) trav [?p] arrs ser'" "eng_inv e'" "api e e'"
    "next_id e' \<le> next_id e + 1"
    using link_start_inv[OF e room _ ev, of ?p ?n] d0 by auto
  have "link_inv wrap e' (?n\<lparr>l_transmitting := True\<rparr>) trav [?p] arrs ser'"
    using l s(2) q sz d0 by (auto simp: link_inv_def link_config_ok_def link_queue_ok_def link_counts_def
        link_queued_def link_accept_def link_offer_def)
  then show ?thesis
    using s s0 q sz d
    by (auto simp: TryStart_def Ready_def congestion_ready_def link_accept_def link_offer_def
        intro!: exI[of _ e'] exI[of _ "?n\<lparr>l_transmitting := True\<rparr>"] exI[of _ ser'])
qed

lemma link_arrived_inv:
  assumes "link_config_ok l" "link_queue_ok l cur"
    and "link_counts l ((p # trav) @ cur @ sq_list (l_queue l)) (p # trav)"
    and "link_events wrap e (PacketTravelTime (l_config l)) trav cur arrs ser"
  shows "link_inv wrap e (fst (link_arrived p l)) trav cur arrs ser"
  using assms
  by (auto simp: link_arrived_def link_inv_def link_config_ok_def link_queue_ok_def link_counts_def link_queued_def)

section \<open>A link alone\<close>

text \<open>The arrivals are recorded in a list.\<close>

definition link_handler :: "('a link_event, 'a link \<times> 'a list) handler" where
  "link_handler ev = (\<lambda>(e, l, out).
     case ev of
       Serialized p \<Rightarrow> do { (e', l', _) \<leftarrow> link_serialized (\<lambda>x. x) p (e, l); Some (e', l', out) }
     | Arrived p \<Rightarrow> let (l', a) = link_arrived p l in Some (e, l', out @ [a]))"

definition link_sys_inv ::
  "'p list \<Rightarrow> ('p \<times> bool) link_event engine \<Rightarrow> ('p \<times> bool) link \<times> ('p \<times> bool) list \<Rightarrow> bool"
where
  "link_sys_inv A e = (\<lambda>(l, out). \<not> l_managed l \<and> congestion_ready l \<and>
     (\<exists>trav cur arrs ser. link_inv (\<lambda>x. x) e l trav cur arrs ser \<and>
        subseq (map fst (out @ map onArrival (trav @ cur @ sq_list (l_queue l)))) A \<and>
        (LossRate (l_config l) = Fin 0 \<longrightarrow> map fst (out @ map onArrival (trav @ cur @ sq_list (l_queue l))) = A)))"

lemma subseq_drop_mid: "subseq (xs @ ys @ zs) A \<Longrightarrow> subseq (xs @ zs) A"
  by (meson subseq_order.order_trans list_emb_append_mono subseq_order.order_refl list_emb_append2)

lemma link_handler_ok:
  assumes e: "eng_inv e" and inv: "link_sys_inv A e (l, out)" and ne: "arr (queue e) \<noteq> []"
    and t: "take_event e = Some (x, e1)" and room: "next_id e1 + 2 \<le> max_u64"
  shows "\<exists>e2 s2. link_handler (ev_callback x) (e1, l, out) = Some (e2, s2) \<and> api e1 e2 \<and>
    next_id e2 \<le> next_id e1 + 2 \<and> link_sys_inv A e2 s2"
proof -
  note x = take_event_facts[OF e ne t]
  obtain trav cur arrs ser where l: "\<not> l_managed l" "congestion_ready l" "link_config_ok l" "link_queue_ok l cur"
    "link_counts l (trav @ cur @ sq_list (l_queue l)) trav"
    "link_events (\<lambda>x. x) e (PacketTravelTime (l_config l)) trav cur arrs ser"
    and A: "subseq (map fst (out @ map onArrival (trav @ cur @ sq_list (l_queue l)))) A"
    "LossRate (l_config l) = Fin 0 \<longrightarrow> map fst (out @ map onArrival (trav @ cur @ sq_list (l_queue l))) = A"
    using inv by (auto simp: link_sys_inv_def link_inv_def)
  have inj: "inj (\<lambda>x. x)" by simp
  show ?thesis
  proof (cases "ev_callback x")
    case (Serialized p)
    have hd: "cur = [p]" "link_events (\<lambda>x. x) e1 (PacketTravelTime (l_config l)) trav [p] arrs []"
      using link_head_serialized[OF e ne t inj l(6) Serialized] by auto
    obtain e2 l2 b trav' cur' arrs' ser' where s: "link_serialized (\<lambda>x. x) p (e1, l) = Some (e2, l2, l_managed l)"
      "link_inv (\<lambda>x. x) e2 l2 trav' cur' arrs' ser'" "eng_inv e2" "api e1 e2" "next_id e2 \<le> next_id e1 + 2"
      "l_managed l2 = l_managed l" "congestion_ready l2 = congestion_ready l" "l_config l2 = l_config l"
      "trav' @ cur' @ sq_list (l_queue l2) = trav @ (if b then [] else [p]) @ sq_list (l_queue l)"
      "LossRate (l_config l) = Fin 0 \<longrightarrow> \<not> b" "l_managed l \<longrightarrow> cur' = []"
      "l_LostPackets (l_stats l2) = l_LostPackets (l_stats l) + (if b then 1 else 0)"
      using link_serialized_inv[OF x(4) room l(3) l(4)[unfolded hd(1)] l(5)[unfolded hd(1)] hd(2)]
      by (elim exE conjE) (rule that; assumption)
    have "subseq (map fst (out @ map onArrival (trav' @ cur' @ sq_list (l_queue l2)))) A"
      using A(1) subseq_drop_mid[of "map fst (out @ map onArrival trav)" "[fst (onArrival p)]" "map fst (map onArrival (sq_list (l_queue l)))" A]
      unfolding s(9) hd(1) by (cases b) auto
    moreover have "LossRate (l_config l2) = Fin 0 \<longrightarrow>
        map fst (out @ map onArrival (trav' @ cur' @ sq_list (l_queue l2))) = A"
      using A(2) s(8,10) unfolding s(9) hd(1) by auto
    ultimately have "link_sys_inv A e2 (l2, out)"
      using s(2,6,7) l(1,2) unfolding link_sys_inv_def by auto
    then show ?thesis using s(1,4,5) Serialized by (auto simp: link_handler_def)
  next
    case (Arrived p)
    obtain trav' arrs' where hd: "trav = p # trav'"
      "link_events (\<lambda>x. x) e1 (PacketTravelTime (l_config l)) trav' cur arrs' ser"
      using link_head_arrived[OF e ne t inj l(6) Arrived] by blast
    let ?l = "fst (link_arrived p l)"
    have i: "link_inv (\<lambda>x. x) e1 ?l trav' cur arrs' ser"
      using link_arrived_inv[OF l(3,4) l(5)[unfolded hd(1)] hd(2)] .
    have q: "l_queue ?l = l_queue l" "l_managed ?l = l_managed l" "l_config ?l = l_config l"
      "congestion_ready ?l = congestion_ready l" "snd (link_arrived p l) = onArrival p"
      by (simp_all add: link_arrived_def congestion_ready_def)
    have "link_sys_inv A e1 (?l, out @ [onArrival p])"
      using i A l(1,2) q unfolding link_sys_inv_def hd(1) by auto
    then show ?thesis using q(5) Arrived
      by (auto simp: link_handler_def Let_def split: prod.splits)
  qed
qed

lemma link_inv_cong:
  assumes "link_inv wrap e l trav cur arrs ser"
    and "\<And>x. ev_callback x \<in> range wrap \<Longrightarrow> x \<in> pending e' \<longleftrightarrow> x \<in> pending e"
    and "eng_now e \<le> eng_now e'" "end_time e' = end_time e"
  shows "link_inv wrap e' l trav cur arrs ser"
  using assms(1) link_events_cong[OF _ assms(2-4)] by (auto simp: link_inv_def)

lemma link_sys_inv_cong:
  assumes "link_sys_inv A e s" "pending e' = pending e" "eng_now e \<le> eng_now e'" "end_time e' = end_time e"
  shows "link_sys_inv A e' s"
  using assms(1) link_inv_cong[OF _ _ assms(3,4)] unfolding link_sys_inv_def assms(2)
  by (cases s) fastforce

interpretation linkc: engine_client link_handler "link_sys_inv A" 2 for A :: "'p list"
proof unfold_locales
  fix e :: "('p \<times> bool) link_event engine" and s :: "('p \<times> bool) link \<times> ('p \<times> bool) list" and x e1
  assume a: "eng_inv e" "link_sys_inv A e s" "arr (queue e) \<noteq> []" "take_event e = Some (x, e1)"
    "eng_inv e1" "next_id e1 + 2 \<le> max_u64"
  show "\<exists>e2 s2. link_handler (ev_callback x) (e1, s) = Some (e2, s2) \<and> api e1 e2 \<and>
      next_id e2 \<le> next_id e1 + 2 \<and> link_sys_inv A e2 s2"
    using link_handler_ok[OF a(1) _ a(3,4,6)] a(2) by (cases s) auto
qed (auto elim: link_sys_inv_cong)

section \<open>The states a link can reach\<close>

text \<open>
  A packet's callback is the packet with its congestion mark; \<open>A\<close> lists the accepted
  packets in order.  A discard of the pending work clears the
  engine's queue first, as the session does.
\<close>

inductive link_reach ::
  "'p list \<Rightarrow> ('p \<times> bool) link_event engine \<Rightarrow> ('p \<times> bool) link \<Rightarrow> ('p \<times> bool) list \<Rightarrow> bool"
where
  link_fresh: "engine_New t = Some e \<Longrightarrow> t \<le> max_i64 \<Longrightarrow> NewLink config r = Some l \<Longrightarrow>
    SetCongestionRNG c l = Some l' \<Longrightarrow> link_reach [] e l' []"
| link_transmit: "link_reach A e l out \<Longrightarrow> next_id e < max_u64 \<Longrightarrow>
    TransmitECN (\<lambda>x. x) sz state (\<lambda>marked. (p, marked)) (e, l) = Some (e', l', ok) \<Longrightarrow>
    link_reach (if ok then A @ [p] else A) e' l' out"
| link_run: "link_reach A e l out \<Longrightarrow> next_id e + 2 * max_events e \<le> max_u64 \<Longrightarrow>
    RunUntil link_handler until e (l, out) = Some (r, e', l', out') \<Longrightarrow> link_reach A e' l' out'"

lemma NewLink_congestion:
  assumes "NewLink config r = Some l" "SetCongestionRNG c l = Some l'"
  shows "congestion_ready l' \<and> \<not> l_managed l' \<and> l' = l\<lparr>l_congestionRNG := c\<rparr>"
proof -
  have cf: "l_config l = config" "\<not> l_managed l" "\<not> f64_outside (CongestionSignalProbability config) 1"
    using assms(1) by (auto simp: NewLink_def validateCongestionConfig_def split: if_splits)
  obtain q where "CongestionSignalProbability config = Fin q" "0 \<le> q" "q \<le> 1"
    using f64_outside_False[OF cf(3)] by blast
  then show ?thesis
    using assms(2) cf by (auto simp: SetCongestionRNG_def congestion_ready_def split: if_splits)
qed

lemma TransmitECN_Some:
  "TransmitECN wrap sz state arrival (e, l) = Some r \<Longrightarrow>
   0 \<le> sz \<and> validateECNState state \<and> (\<exists>d. serializationDuration sz (BandwidthBitsPerSecond (l_config l)) = Some d)"
  by (auto simp: TransmitECN_def split: if_splits Option.bind_splits)

lemma link_reach_inv:
  "link_reach A e l out \<Longrightarrow> eng_inv e \<and> \<not> running e \<and> link_sys_inv A e (l, out)"
proof (induction rule: link_reach.induct)
  case (link_fresh t e config r l c l')
  have i: "eng_inv e" using engine_New_inv[OF link_fresh(1,2)] .
  have p: "pending e = {}" "\<not> running e"
    using link_fresh(1) by (auto simp: engine_New_def pending_def heap_empty_def split: if_splits)
  have li: "link_inv (\<lambda>x. x) e l [] [] [] []" using NewLink_inv[OF link_fresh(3), of e "\<lambda>x. x"] p(1) by simp
  note c = NewLink_congestion[OF link_fresh(3,4)]
  have "link_inv (\<lambda>x. x) e l' [] [] [] []" using li c link_inv_rng by metis
  moreover from this have "sq_list (l_queue l') = []" by (simp add: link_inv_def link_queue_ok_def)
  ultimately have "link_sys_inv [] e (l', [])"
    using c unfolding link_sys_inv_def by (auto intro!: exI[of _ "[]"])
  then show ?case using i p by simp
next
  case (link_transmit A e l out sz state p e' l' ok)
  then have i: "eng_inv e" "\<not> running e" "link_sys_inv A e (l, out)" by simp_all
  obtain trav cur arrs ser where l: "\<not> l_managed l" "congestion_ready l" "link_inv (\<lambda>x. x) e l trav cur arrs ser"
    and A: "subseq (map fst (out @ map onArrival (trav @ cur @ sq_list (l_queue l)))) A"
    "LossRate (l_config l) = Fin 0 \<longrightarrow> map fst (out @ map onArrival (trav @ cur @ sq_list (l_queue l))) = A"
    using i(3) by (auto simp: link_sys_inv_def)
  obtain d where d: "0 \<le> sz" "validateECNState state"
    "serializationDuration sz (BandwidthBitsPerSecond (l_config l)) = Some d"
    using TransmitECN_Some[OF link_transmit(3)] by blast
  obtain cur' ser' m where t: "link_inv (\<lambda>x. x) e' l' trav cur' arrs ser'" "eng_inv e'" "api e e'"
    "\<not> l_managed l'" "congestion_ready l'" "l_config l' = l_config l"
    "cur' @ sq_list (l_queue l') = cur @ sq_list (l_queue l) @
      (if ok then [\<lparr>sizeBytes = sz, tx_duration = d, onArrival = (p, m)\<rparr>] else [])"
    using TransmitECN_inv[OF i(1) link_transmit(2) l(3,1,2) d, of "\<lambda>m. (p, m)"] link_transmit(3) by auto
  let ?old = "map fst (out @ map onArrival (trav @ cur @ sq_list (l_queue l)))"
  have new: "map fst (out @ map onArrival (trav @ cur' @ sq_list (l_queue l'))) =
      ?old @ (if ok then [p] else [])"
    unfolding t(7) by simp
  have "link_sys_inv (if ok then A @ [p] else A) e' (l', out)"
    using t(1,4-6) A unfolding link_sys_inv_def prod.case
    by (intro conjI exI[of _ trav] exI[of _ cur'] exI[of _ arrs] exI[of _ ser'])
      (auto simp only: new if_True if_False append_Nil2 intro: list_emb_append_mono split: if_split)
  then show ?case using t(2,3) i(1,2) api_keeps[of e e'] by simp
next
  case (link_run A e l out until r e' l' out')
  then have i: "eng_inv e" "\<not> running e" "link_sys_inv A e (l, out)" by simp_all
  show ?case
  proof (cases "eng_now e \<le> until \<and> until \<le> end_time e")
    case False
    then show ?thesis using link_run(3) i by (auto simp: RunUntil_def split: if_splits)
  next
    case True
    have b: "max_events e \<le> max_u64" "next_id e + 2 * (max_events e - executed e) \<le> max_u64"
      using link_run(2) by auto
    show ?thesis
      using linkc.RunUntil_total[OF i(1,3,2) conjunct1[OF True] conjunct2[OF True] b] link_run(3) by auto
  qed
qed

section \<open>Properties\<close>

text \<open>
  A loss-free link of one byte per nanosecond and 5 ns of travel: two packets of 10 bytes are
  sent at time 0; at 16 ns the first has arrived and the second is in transmission.
\<close>

definition demo_link_config :: link_config where
  "demo_link_config = \<lparr>BandwidthBitsPerSecond = 8000000000, PacketTravelTime = 5, LinkQueueCapacity = 1,
     LossRate = Fin 0, QueuePolicy = [], CongestionThresholdPercent = Fin 0,
     CongestionSignalProbability = Fin 0\<rparr>"

definition demo_link :: "(nat \<times> bool) link" where
  "demo_link = \<lparr>l_config = demo_link_config, l_rng = None, l_congestionRNG = None, l_queue = sq_empty,
     l_transmitting = False, l_travelling = 0, l_stats = zero_link_stats, l_managed = False\<rparr>"

definition demo_link_engine :: "(nat \<times> bool) link_event engine" where
  "demo_link_engine = \<lparr>max_events = DefaultMaxEvents, eng_now = 0, end_time = 100, next_id = 0,
     queue = heap_empty, by_id = Map.empty, executed = 0, running = False\<rparr>"

lemmas link_eval = demo_link_def demo_link_config_def demo_link_engine_def max_i64_def i64_def
  zero_link_stats_def sq_empty_def sq_queued_def sq_list_def ScheduleAfter_def ScheduleAt_def max_u64_def
  u64_def heap_Push_def heap_empty_def heap_append_def heap_up.simps sq_append_def RunUntil_def
  run_loop.simps take_event_def heap_Pop_def heap_drop_last_def heap_Swap_def heap_down.simps
  sq_pop_def sq_front_def sq_drop_front_def minConsumedSlots_def DefaultMaxEvents_def heap_child_def
  TransmitECN_def validateECNState_def AlreadyMarked_def NotCapable_def Capable_def
  serializationDuration_def Mul64_def Div64_def Let_def link_queued_def shouldSignalCongestion_def
  link_offer_def link_accept_def link_mark_def link_drop_def link_start_def link_pop_def
  link_handler_def link_serialized_def link_loses_def link_arrived_def event_less_def heap_parent_def

lemma link_demo_states:
  "\<exists>e1 l1 e2 l2 e3 l3. TransmitECN (\<lambda>x. x) 10 0 (\<lambda>m. (1, m)) (demo_link_engine, demo_link) = Some (e1, l1, True) \<and>
     next_id e1 = 1 \<and> TransmitECN (\<lambda>x. x) 10 0 (\<lambda>m. (2, m)) (e1, l1) = Some (e2, l2, True) \<and>
     next_id e2 = 1 \<and> max_events e2 = 5000000000 \<and>
     RunUntil link_handler 16 e2 (l2, []) = Some (None, e3, l3, [(1, False)]) \<and>
     LossRate (l_config l3) = Fin 0 \<and> l_transmitting l3"
  by (simp add: link_eval)

lemma link_demo:
  "\<exists>e l. link_reach [1, 2] e l [(1 :: nat, False)] \<and> LossRate (l_config l) = Fin 0 \<and> l_transmitting l"
proof -
  obtain e1 l1 e2 l2 e3 l3 where r:
    "TransmitECN (\<lambda>x. x) 10 0 (\<lambda>m. (1, m)) (demo_link_engine, demo_link) = Some (e1, l1, True)"
    "next_id e1 = 1" "TransmitECN (\<lambda>x. x) 10 0 (\<lambda>m. (2, m)) (e1, l1) = Some (e2, l2, True)"
    "next_id e2 = 1" "max_events e2 = 5000000000"
    "RunUntil link_handler 16 e2 (l2, []) = Some (None, e3, l3, [(1, False)])"
    "LossRate (l_config l3) = Fin 0" "l_transmitting l3"
    using link_demo_states by blast
  have "engine_New 100 = Some demo_link_engine" by (simp add: engine_New_def demo_link_engine_def)
  moreover have "NewLink demo_link_config None = Some demo_link"
    by (simp add: NewLink_def demo_link_def demo_link_config_def validateCongestionConfig_def f64_outside_def)
  moreover have "SetCongestionRNG None demo_link = Some demo_link"
    by (simp add: SetCongestionRNG_def link_has_traffic_def link_eval)
  ultimately have "link_reach [] demo_link_engine demo_link []"
    using link_fresh[of 100 demo_link_engine demo_link_config None demo_link None demo_link]
    by (simp add: max_i64_def)
  from link_transmit[OF this _ r(1)] have "link_reach [1] e1 l1 []"
    by (simp add: demo_link_engine_def max_u64_def)
  from link_transmit[OF this _ r(3)] have two: "link_reach [1, 2] e2 l2 []"
    using r(2) by (simp add: max_u64_def)
  have "next_id e2 + 2 * max_events e2 \<le> max_u64" using r(4,5) by (simp add: max_u64_def)
  from link_run[OF two this r(6)] r(7,8) show ?thesis by blast
qed

text \<open>C9: The serialization time is the exact number of bits divided by the bandwidth, rounded up to a
  nanosecond, for every size and bandwidth; the only panic is a time beyond the range of
  \<open>time.Duration\<close>.\<close>

theorem serialization_time_exact:
  assumes "0 \<le> sz" "sz \<le> max_i64" "0 < bandwidth" "bandwidth \<le> max_i64"
  shows "serializationDuration sz bandwidth =
    (let d = \<lceil>of_int (sz * 8 * 1000000000) / (of_int bandwidth :: rat)\<rceil>
     in if d \<le> max_i64 then Some d else None)"
  using serializationDuration_exact[OF assms] by (simp add: transmission_time_def Let_def)

theorem serialization_time_exact_witness:
  "serializationDuration 1500 7 = Some 1714285714286"
proof -
  have "\<lceil>12000000000000 / 7 :: rat\<rceil> = 1714285714286" by (rule ceiling_unique) simp_all
  then show ?thesis using serialization_time_exact[of 1500 7] by (simp add: max_i64_def Let_def)
qed

text \<open>C10: A link delivers packets in the order in which it accepted them, each at most once; a link
  without loss delivers exactly the first accepted packets.\<close>

theorem link_delivers_in_order:
  assumes "link_reach A e l out"
  shows "subseq (map fst out) A \<and>
    (LossRate (l_config l) = Fin 0 \<longrightarrow> (\<exists>rest. A = map fst out @ rest))"
proof -
  obtain inside where "subseq (map fst out @ inside) A"
    "LossRate (l_config l) = Fin 0 \<longrightarrow> map fst out @ inside = A"
    using link_reach_inv[OF assms] by (auto simp: link_sys_inv_def)
  then show ?thesis using subseq_drop_mid[of "map fst out" inside "[]" A] by auto
qed

theorem link_delivers_in_order_witness:
  "\<exists>e l. link_reach [1, 2] e l [(1 :: nat, False)] \<and> LossRate (l_config l) = Fin 0 \<and>
     (\<exists>rest. [1, 2] = map fst [(1 :: nat, False)] @ rest)"
proof -
  obtain e l where d: "link_reach [1, 2] e l [(1 :: nat, False)]" "LossRate (l_config l) = Fin 0"
    using link_demo by blast
  with link_delivers_in_order[OF d(1)] show ?thesis by blast
qed



end
