(* ===== verification/Ingress.thy ===== *)
theory Ingress
  imports LinkRun
begin

text \<open>
  The shared incoming link of \<open>simulator/network/ingress.go\<close>: several inputs, each with its
  own bounded FIFO and counters, merged onto one managed link in the order of admission.

  An \<open>*Input\<close> is its position in the ingress's list of inputs.  The closure handed to
  the link for an arrival holds the input and the packet, and is that pair here.
\<close>

record 'a ingress_packet =
  ip_sizeBytes :: int
  ip_onArrival :: 'a
  ip_sequence :: nat

record 'a input =
  i_queue :: "'a ingress_packet slice_queue"
  i_stats :: link_stats

record 'a ingress =
  in_link :: "(nat \<times> 'a ingress_packet) link"
  inputs :: "'a input list"
  in_nextSequence :: nat
  in_stats :: link_stats
  transmittingInput :: "nat option"
  transmittingBytes :: int
  lossesBefore :: nat

definition NewIngress :: "(nat \<times> 'a ingress_packet) link \<Rightarrow> 'a ingress option" where
  "NewIngress l = do {
     l' \<leftarrow> useExternalQueue l;
     Some \<lparr>in_link = l', inputs = [], in_nextSequence = 0, in_stats = zero_link_stats,
           transmittingInput = None, transmittingBytes = 0, lossesBefore = 0\<rparr>
   }"

definition AddInput :: "'a ingress \<Rightarrow> nat \<times> 'a ingress" where
  "AddInput ing = (length (inputs ing),
     ing\<lparr>inputs := inputs ing @ [\<lparr>i_queue = sq_empty, i_stats = zero_link_stats\<rparr>]\<rparr>)"

definition input_queued :: "'a input \<Rightarrow> nat" where
  "input_queued i = sq_queued (i_queue i)"

definition update_input :: "nat \<Rightarrow> ('a input \<Rightarrow> 'a input) \<Rightarrow> 'a ingress \<Rightarrow> 'a ingress" where
  "update_input k f ing = ing\<lparr>inputs := (inputs ing)[k := f (inputs ing ! k)]\<rparr>"

text \<open>The input with the oldest head: the scan keeps the first of the least sequence numbers.\<close>

fun oldest_input :: "nat \<Rightarrow> 'a input list \<Rightarrow> (nat \<times> 'a ingress_packet) option \<Rightarrow>
    (nat \<times> 'a ingress_packet) option" where
  "oldest_input k [] oldest = oldest"
| "oldest_input k (i # is) oldest =
     (case sq_front (i_queue i) of
        None \<Rightarrow> oldest_input (k + 1) is oldest
      | Some candidate \<Rightarrow>
          (case oldest of
             None \<Rightarrow> oldest_input (k + 1) is (Some (k, candidate))
           | Some (j, head) \<Rightarrow>
               if ip_sequence candidate < ip_sequence head
               then oldest_input (k + 1) is (Some (k, candidate))
               else oldest_input (k + 1) is oldest))"

definition ingress_dispatch ::
  "((nat \<times> 'a ingress_packet) link_event \<Rightarrow> 'c) \<Rightarrow> 'c engine \<times> 'a ingress \<Rightarrow> ('c engine \<times> 'a ingress) option"
where
  "ingress_dispatch wrap = (\<lambda>(e, ing0).
     if \<not> Ready (in_link ing0) then Some (e, ing0)
     else
       case oldest_input 0 (inputs ing0) None of
         None \<Rightarrow> Some (e, ing0)
       | Some (k, packet) \<Rightarrow> do {
           let ing = update_input k (\<lambda>i. i\<lparr>i_stats := (i_stats i)\<lparr>l_Transmitting := True\<rparr>\<rparr>)
                       (ing0\<lparr>transmittingInput := Some k, transmittingBytes := ip_sizeBytes packet,
                             lossesBefore := l_LostPackets (l_stats (in_link ing0))\<rparr>);
           (e', l', started) \<leftarrow> TryStart wrap (ip_sizeBytes packet) (k, packet) (e, in_link ing);
           if \<not> started then None
           else do {
             q \<leftarrow> sq_drop_front (i_queue (inputs ing ! k));
             let ing' = update_input k (\<lambda>i. i\<lparr>i_queue := q\<rparr>) (ing\<lparr>in_link := l'\<rparr>);
             Some (e', ing'\<lparr>in_stats := (in_stats ing')\<lparr>l_QueuedPackets := l_QueuedPackets (in_stats ing') - 1\<rparr>\<rparr>)
           }
         })"

definition input_TransmitECN ::
  "((nat \<times> 'a ingress_packet) link_event \<Rightarrow> 'c) \<Rightarrow> nat \<Rightarrow> int \<Rightarrow> nat \<Rightarrow> (bool \<Rightarrow> 'a) \<Rightarrow>
   'c engine \<times> 'a ingress \<Rightarrow> ('c engine \<times> 'a ingress \<times> bool) option"
where
  "input_TransmitECN wrap k sz state arrival = (\<lambda>(e, ing0).
     if sz < 0 \<or> \<not> validateECNState state \<or> length (inputs ing0) \<le> k then None
     else do {
       _ \<leftarrow> serializationDuration sz (BandwidthBitsPerSecond (l_config (in_link ing0)));
       let input = inputs ing0 ! k;
       let canStartNow = Ready (in_link ing0);
       let queueFull = (LinkQueueCapacity (l_config (in_link ing0)) \<le> int (input_queued input));
       let accepted = (canStartNow \<or> \<not> queueFull);
       if accepted \<and> in_nextSequence ing0 = max_u64 then None
       else do {
         (selected, l) \<leftarrow> (if accepted \<and> \<not> canStartNow
                          then shouldSignalCongestion (input_queued input + 1) (in_link ing0)
                          else Some (False, in_link ing0));
         let earlyDrop = (selected \<and> state = NotCapable);
         let marked = (state = AlreadyMarked \<or> (selected \<and> state = Capable));
         let ing = update_input k (\<lambda>i. i\<lparr>i_stats := link_offer sz (i_stats i)\<rparr>)
                     (ing0\<lparr>in_link := l, in_stats := link_offer sz (in_stats ing0)\<rparr>);
         if \<not> accepted \<or> earlyDrop then
           Some (e, update_input k (\<lambda>i. i\<lparr>i_stats := link_drop sz earlyDrop (i_stats i)\<rparr>)
                      (ing\<lparr>in_stats := link_drop sz earlyDrop (in_stats ing)\<rparr>), False)
         else do {
           let mark = (if selected \<and> state = Capable then link_mark sz else (\<lambda>st. st));
           let ing = update_input k (\<lambda>i. i\<lparr>i_stats := link_accept sz (mark (i_stats i))\<rparr>)
                       (ing\<lparr>in_stats := link_accept sz (mark (in_stats ing))\<rparr>);
           let n = u64 (in_nextSequence ing + 1);
           let packet = \<lparr>ip_sizeBytes = sz, ip_onArrival = arrival marked, ip_sequence = n\<rparr>;
           let ing = update_input k (\<lambda>i. i\<lparr>i_queue := sq_append packet (i_queue i)\<rparr>)
                       (ing\<lparr>in_stats := (in_stats ing)\<lparr>l_QueuedPackets := l_QueuedPackets (in_stats ing) + 1\<rparr>,
                            in_nextSequence := n\<rparr>);
           (e', ing') \<leftarrow> ingress_dispatch wrap (e, ing);
           Some (e', ing', True)
         }
       }
     })"

text \<open>A packet that has arrived: its input's counters, and its own callback.\<close>

definition input_arrived :: "nat \<times> 'a ingress_packet \<Rightarrow> 'a ingress \<Rightarrow> 'a ingress \<times> 'a" where
  "input_arrived = (\<lambda>(k, packet) ing.
     (update_input k (\<lambda>i. i\<lparr>i_stats := (i_stats i)\<lparr>
          l_TravellingPackets := l_TravellingPackets (i_stats i) - 1,
          l_DeliveredPackets := l_DeliveredPackets (i_stats i) + 1,
          l_DeliveredBytes := l_DeliveredBytes (i_stats i) + nat (ip_sizeBytes packet)\<rparr>\<rparr>) ing,
      ip_onArrival packet))"

definition finishTransmission ::
  "((nat \<times> 'a ingress_packet) link_event \<Rightarrow> 'c) \<Rightarrow> 'c engine \<times> 'a ingress \<Rightarrow> ('c engine \<times> 'a ingress) option"
where
  "finishTransmission wrap = (\<lambda>(e, ing).
     case transmittingInput ing of
       None \<Rightarrow> None
     | Some k \<Rightarrow>
         let bytes = nat (transmittingBytes ing);
             done = update_input k (\<lambda>i. i\<lparr>i_stats := (i_stats i)\<lparr>l_Transmitting := False,
                      l_TransmittedBytes := l_TransmittedBytes (i_stats i) + bytes\<rparr>\<rparr>) ing;
             attributed =
               (if l_LostPackets (l_stats (in_link ing)) \<noteq> lossesBefore ing
                then update_input k (\<lambda>i. i\<lparr>i_stats := (i_stats i)\<lparr>
                       l_LostPackets := l_LostPackets (i_stats i) + 1,
                       l_LostBytes := l_LostBytes (i_stats i) + bytes\<rparr>\<rparr>) done
                else update_input k (\<lambda>i. i\<lparr>i_stats := (i_stats i)\<lparr>
                       l_TravellingPackets := l_TravellingPackets (i_stats i) + 1\<rparr>\<rparr>) done)
         in ingress_dispatch wrap (e, attributed\<lparr>transmittingInput := None, transmittingBytes := 0\<rparr>))"

text \<open>The link's two events, as the ingress sees them.\<close>

definition ingress_event ::
  "((nat \<times> 'a ingress_packet) link_event \<Rightarrow> 'c) \<Rightarrow> (nat \<times> 'a ingress_packet) link_event \<Rightarrow>
   'c engine \<times> 'a ingress \<Rightarrow> ('c engine \<times> 'a ingress \<times> 'a option) option"
where
  "ingress_event wrap ev = (\<lambda>(e, ing).
     case ev of
       Serialized p \<Rightarrow> do {
         (e', l', notify) \<leftarrow> link_serialized wrap p (e, in_link ing);
         (e'', ing') \<leftarrow> (if notify then finishTransmission wrap (e', ing\<lparr>in_link := l'\<rparr>)
                        else Some (e', ing\<lparr>in_link := l'\<rparr>));
         Some (e'', ing', None)
       }
     | Arrived p \<Rightarrow>
         let (l', a) = link_arrived p (in_link ing);
             (ing', cb) = input_arrived a (ing\<lparr>in_link := l'\<rparr>)
         in Some (e, ing', Some cb))"

definition ingress_Stats :: "'a ingress \<Rightarrow> link_stats" where
  "ingress_Stats ing =
     (let s = in_stats ing in (link_Stats (in_link ing))\<lparr>
        l_OfferedPackets := l_OfferedPackets s, l_OfferedBytes := l_OfferedBytes s,
        l_AcceptedPackets := l_AcceptedPackets s, l_AcceptedBytes := l_AcceptedBytes s,
        l_QueueDroppedPackets := l_QueueDroppedPackets s, l_QueueDroppedBytes := l_QueueDroppedBytes s,
        l_ECNMarkedPackets := l_ECNMarkedPackets s, l_ECNMarkedBytes := l_ECNMarkedBytes s,
        l_CongestionDroppedPackets := l_CongestionDroppedPackets s,
        l_CongestionDroppedBytes := l_CongestionDroppedBytes s,
        l_QueuedPackets := l_QueuedPackets s\<rparr>)"

definition input_Stats :: "'a input \<Rightarrow> link_stats" where
  "input_Stats i = (i_stats i)\<lparr>l_QueuedPackets := int (input_queued i)\<rparr>"

definition ingress_DiscardPending :: "'a ingress \<Rightarrow> 'a ingress" where
  "ingress_DiscardPending ing =
     ing\<lparr>in_link := link_DiscardPending (in_link ing), transmittingInput := None,
         in_stats := (in_stats ing)\<lparr>l_QueuedPackets := 0\<rparr>,
         inputs := map (\<lambda>i. i\<lparr>i_queue := sq_empty,
           i_stats := (i_stats i)\<lparr>l_Transmitting := False, l_TravellingPackets := 0\<rparr>\<rparr>) (inputs ing)\<rparr>"

end
