(* ===== verification/IngressRun.thy ===== *)
theory IngressRun
  imports Ingress
begin

text \<open>
  An ingress alone on its engine.  \<open>W\<close> is the list of waiting packets with their inputs in
  the order of admission; each input's queue is the part of \<open>W\<close> that belongs to it, so the
  oldest head over all inputs is the first element of \<open>W\<close>.
\<close>

definition part :: "nat \<Rightarrow> (nat \<times> 'b) list \<Rightarrow> (nat \<times> 'b) list" where
  "part k ws = filter (\<lambda>(j, _). j = k) ws"

lemma part_simps [simp]:
  "part k [] = []" "part k ((j, p) # ws) = (if j = k then (j, p) # part k ws else part k ws)"
  "part k (xs @ ys) = part k xs @ part k ys"
  by (simp_all add: part_def)

definition waiting_ok :: "'a ingress \<Rightarrow> (nat \<times> 'a ingress_packet) list \<Rightarrow> bool" where
  "waiting_ok ing W \<longleftrightarrow>
     (\<forall>k < length (inputs ing). sq_ok (i_queue (inputs ing ! k)) \<and>
        map (Pair k) (sq_list (i_queue (inputs ing ! k))) = part k W) \<and>
     (\<forall>(k, p) \<in> set W. k < length (inputs ing) \<and> ip_sequence p \<le> in_nextSequence ing \<and> 0 \<le> ip_sizeBytes p \<and>
        serializationDuration (ip_sizeBytes p) (BandwidthBitsPerSecond (l_config (in_link ing))) \<noteq> None) \<and>
     sorted_wrt (\<lambda>x y. ip_sequence (snd x) < ip_sequence (snd y)) W \<and>
     in_nextSequence ing \<le> max_u64 \<and> l_QueuedPackets (in_stats ing) = int (length W)"

text \<open>The scan finds the least head.\<close>

lemma oldest_input_least:
  assumes "k < length is" "sq_front (i_queue (is ! k)) = Some w"
    and "\<And>j p. j < length is \<Longrightarrow> j \<noteq> k \<Longrightarrow> sq_front (i_queue (is ! j)) = Some p \<Longrightarrow>
      ip_sequence w < ip_sequence p"
    and "\<And>j p. acc = Some (j, p) \<Longrightarrow> ip_sequence w < ip_sequence p"
  shows "oldest_input n is acc = Some (n + k, w)"
  using assms
proof (induction "is" arbitrary: n k acc)
  case (Cons i "is")
  note prems = Cons.prems
  have tail: "ip_sequence w < ip_sequence p"
    if "j < length is" "Suc j \<noteq> k" "sq_front (i_queue (is ! j)) = Some p" for j p
    using prems(3)[of "Suc j" p] that by simp
  show ?case
  proof (cases k)
    case 0
    then have f: "sq_front (i_queue i) = Some w" using prems(2) by simp
    have keep: "oldest_input m is (Some (a, w)) = Some (a, w)"
      if "\<And>j p. j < length is \<Longrightarrow> sq_front (i_queue (is ! j)) = Some p \<Longrightarrow> ip_sequence w < ip_sequence p"
      for m a "is"
      using that
    proof (induction "is" arbitrary: m)
      case (Cons b bs)
      have "oldest_input (m + 1) bs (Some (a, w)) = Some (a, w)"
        using Cons.IH[of "m + 1"] Cons.prems[of "Suc j" for j] by fastforce
      then show ?case using Cons.prems[of 0] by (auto split: option.splits)
    qed simp
    show ?thesis
      using 0 f keep[of "is" "n + 1" n] tail prems(4) by (auto split: option.splits)
  next
    case (Suc k')
    have rest: "oldest_input (n + 1) is acc' = Some (n + k, w)"
      if "\<And>j p. acc' = Some (j, p) \<Longrightarrow> ip_sequence w < ip_sequence p" for acc'
      using Cons.IH[of k' acc' "n + 1"] prems(1,2) tail that Suc by simp
    have "ip_sequence w < ip_sequence p" if "sq_front (i_queue i) = Some p" for p
      using prems(3)[of 0 p] Suc that by simp
    then have some: "oldest_input (n + 1) is (Some (n, p)) = Some (n + k, w)"
      if "sq_front (i_queue i) = Some p" for p
      using rest[of "Some (n, p)"] that by simp
    show ?thesis
      using rest[of acc] some prems(4) by (auto split: option.splits)
  qed
qed simp

lemma oldest_input_none:
  "(\<And>i. i \<in> set is \<Longrightarrow> sq_front (i_queue i) = None) \<Longrightarrow> oldest_input n is acc = acc"
  by (induction n "is" acc rule: oldest_input.induct) auto

lemma waiting_front:
  assumes "waiting_ok ing W" "k < length (inputs ing)"
  shows "sq_front (i_queue (inputs ing ! k)) = (case part k W of [] \<Rightarrow> None | (_, p) # _ \<Rightarrow> Some p)"
proof -
  let ?q = "i_queue (inputs ing ! k)"
  have "sq_ok ?q" "map (Pair k) (sq_list ?q) = part k W" using assms by (auto simp: waiting_ok_def)
  then show ?thesis by (cases "sq_list ?q"; cases "part k W") (auto simp: sq_front_list)
qed

lemma oldest_waiting:
  assumes "waiting_ok ing W"
  shows "oldest_input 0 (inputs ing) None = (case W of [] \<Rightarrow> None | w # _ \<Rightarrow> Some w)"
proof (cases W)
  case Nil
  have "sq_front (i_queue i) = None" if "i \<in> set (inputs ing)" for i
    using that waiting_front[OF assms] Nil by (auto simp: in_set_conv_nth)
  then have "oldest_input 0 (inputs ing) None = None" by (rule oldest_input_none)
  then show ?thesis using Nil by simp
next
  case (Cons w W')
  obtain k p where w: "w = (k, p)" by force
  have k: "k < length (inputs ing)" using assms Cons w by (auto simp: waiting_ok_def)
  have "sq_front (i_queue (inputs ing ! k)) = Some p"
    using waiting_front[OF assms k] Cons w by simp
  moreover have "ip_sequence p < ip_sequence q"
    if jk: "j < length (inputs ing)" "j \<noteq> k" "sq_front (i_queue (inputs ing ! j)) = Some q" for j q
  proof -
    obtain j' ws where "part j W = (j', q) # ws"
      using jk(3) waiting_front[OF assms jk(1)] by (auto split: list.splits)
    then have "(j', q) \<in> set (part j W)" by simp
    then have "(j, q) \<in> set W" by (auto simp: part_def)
    then have "(j, q) \<in> set W'" using Cons w jk(2) by simp
    then show ?thesis using assms Cons w by (auto simp: waiting_ok_def)
  qed
  ultimately show ?thesis
    using oldest_input_least[OF k, of p None 0] Cons w by simp
qed

section \<open>The invariant\<close>

definition input_counts ::
  "nat \<Rightarrow> 'a input \<Rightarrow> (nat \<times> 'a ingress_packet) list \<Rightarrow> (nat \<times> 'a ingress_packet) list \<Rightarrow>
   (nat \<times> 'a ingress_packet) list \<Rightarrow> bool"
where
  "input_counts k i trav cur W \<longleftrightarrow>
     l_OfferedPackets (i_stats i) = l_AcceptedPackets (i_stats i) + l_QueueDroppedPackets (i_stats i) \<and>
     l_AcceptedPackets (i_stats i) = l_DeliveredPackets (i_stats i) + l_LostPackets (i_stats i)
       + length (part k trav) + length (part k cur) + length (part k W) \<and>
     l_TravellingPackets (i_stats i) = int (length (part k trav)) \<and>
     l_Transmitting (i_stats i) = (part k cur \<noteq> [])"

definition ingress_inv0 ::
  "((nat \<times> 'a ingress_packet) link_event \<Rightarrow> 'c) \<Rightarrow> 'c engine \<Rightarrow> 'a ingress \<Rightarrow>
   (nat \<times> 'a ingress_packet) transmission list \<Rightarrow> (nat \<times> 'a ingress_packet) transmission list \<Rightarrow>
   (nat \<times> 'a ingress_packet) list \<Rightarrow> 'c event list \<Rightarrow> 'c event list \<Rightarrow> bool"
where
  "ingress_inv0 wrap e ing trav cur W arrs ser \<longleftrightarrow>
     link_inv wrap e (in_link ing) trav cur arrs ser \<and> l_managed (in_link ing) \<and>
     congestion_ready (in_link ing) \<and> sq_list (l_queue (in_link ing)) = [] \<and> waiting_ok ing W \<and>
     (case cur of
        [] \<Rightarrow> transmittingInput ing = None
      | t # _ \<Rightarrow> transmittingInput ing = Some (fst (onArrival t)) \<and> transmittingBytes ing = sizeBytes t \<and>
          lossesBefore ing = l_LostPackets (l_stats (in_link ing))) \<and>
     (\<forall>t \<in> set (trav @ cur). fst (onArrival t) < length (inputs ing)) \<and>
     (\<forall>k < length (inputs ing). input_counts k (inputs ing ! k) (map onArrival trav) (map onArrival cur) W)"

text \<open>
  Whenever no handler is running, packets wait only while the transmitter is busy, and every
  queue is within the capacity.
\<close>

definition capacity_ok :: "'a ingress \<Rightarrow> bool" where
  "capacity_ok ing \<longleftrightarrow>
     (\<forall>i \<in> set (inputs ing). int (input_queued i) \<le> LinkQueueCapacity (l_config (in_link ing)))"

definition ingress_inv where
  "ingress_inv wrap e ing trav cur W arrs ser \<longleftrightarrow>
     ingress_inv0 wrap e ing trav cur W arrs ser \<and> (W \<noteq> [] \<longrightarrow> cur \<noteq> []) \<and> capacity_ok ing"

lemma update_input_simps [simp]:
  "length (inputs (update_input k f ing)) = length (inputs ing)"
  "in_link (update_input k f ing) = in_link ing"
  "in_stats (update_input k f ing) = in_stats ing"
  "in_nextSequence (update_input k f ing) = in_nextSequence ing"
  "transmittingInput (update_input k f ing) = transmittingInput ing"
  "transmittingBytes (update_input k f ing) = transmittingBytes ing"
  "lossesBefore (update_input k f ing) = lossesBefore ing"
  by (simp_all add: update_input_def)

lemma update_input_nth [simp]:
  "k < length (inputs ing) \<Longrightarrow> inputs (update_input k f ing) ! j = (if j = k then f (inputs ing ! k) else inputs ing ! j)"
  by (simp add: update_input_def nth_list_update)

lemma capacity_okI:
  "(\<And>j. j < length (inputs ing) \<Longrightarrow>
      int (input_queued (inputs ing ! j)) \<le> LinkQueueCapacity (l_config (in_link ing))) \<Longrightarrow> capacity_ok ing"
  by (auto simp: capacity_ok_def in_set_conv_nth)

lemma capacity_ok_mono:
  assumes "capacity_ok ing" "length (inputs ing') = length (inputs ing)"
    and "\<And>j. j < length (inputs ing) \<Longrightarrow> input_queued (inputs ing' ! j) \<le> input_queued (inputs ing ! j)"
    and "l_config (in_link ing') = l_config (in_link ing)"
  shows "capacity_ok ing'"
  unfolding capacity_ok_def
proof
  fix i assume "i \<in> set (inputs ing')"
  then obtain j where j: "j < length (inputs ing)" "i = inputs ing' ! j"
    using assms(2) by (auto simp: in_set_conv_nth)
  then have "int (input_queued (inputs ing ! j)) \<le> LinkQueueCapacity (l_config (in_link ing))"
    using assms(1) by (simp add: capacity_ok_def)
  then show "int (input_queued i) \<le> LinkQueueCapacity (l_config (in_link ing'))"
    using assms(3)[OF j(1)] j(2) assms(4) by simp
qed

lemma waiting_few:
  assumes "waiting_ok ing W" "link_inv wrap e (in_link ing) trav cur arrs ser" "W = []"
  shows "capacity_ok ing"
proof -
  have "0 \<le> LinkQueueCapacity (l_config (in_link ing))"
    using assms(2) by (simp add: link_inv_def link_config_ok_def)
  moreover have "input_queued i = 0" if "i \<in> set (inputs ing)" for i
    using that assms(1,3) by (auto simp: waiting_ok_def input_queued_def in_set_conv_nth)
  ultimately show ?thesis by (simp add: capacity_ok_def)
qed

lemma ingress_dispatch_inv:
  assumes e: "eng_inv e" and room: "next_id e < max_u64"
    and i: "ingress_inv0 wrap e ing trav [] W arrs ser" and cap: "capacity_ok ing \<or> length W \<le> 1"
  shows "\<exists>e' ing' cur' W' ser'. ingress_dispatch wrap (e, ing) = Some (e', ing') \<and>
    ingress_inv wrap e' ing' trav cur' W' arrs ser' \<and> map onArrival cur' @ W' = W \<and>
    eng_inv e' \<and> api e e' \<and> next_id e' \<le> next_id e + 1 \<and>
    length (inputs ing') = length (inputs ing) \<and> l_config (in_link ing') = l_config (in_link ing)"
proof -
  have w: "waiting_ok ing W" and l: "link_inv wrap e (in_link ing) trav [] arrs ser"
    and lq: "sq_list (l_queue (in_link ing)) = []"
    using i by (simp_all add: ingress_inv0_def)
  have ready: "Ready (in_link ing)" using l by (simp add: Ready_def link_inv_def link_queue_ok_def)
  show ?thesis
  proof (cases W)
    case Nil
    then have "ingress_dispatch wrap (e, ing) = Some (e, ing)"
      using ready oldest_waiting[OF w] by (simp add: ingress_dispatch_def)
    moreover have "capacity_ok ing" using waiting_few[OF w l] Nil by simp
    ultimately show ?thesis using i e Nil
      by (intro exI[of _ e] exI[of _ ing] exI[of _ "[]"] exI[of _ "[]"] exI[of _ ser]) (auto simp: ingress_inv_def)
  next
    case (Cons w' W')
    obtain k p where kp: "w' = (k, p)" by force
    have old: "oldest_input 0 (inputs ing) None = Some (k, p)" using oldest_waiting[OF w] Cons kp by simp
    have k: "k < length (inputs ing)" and sz: "0 \<le> ip_sizeBytes p"
      using w Cons kp by (auto simp: waiting_ok_def)
    obtain d where d: "serializationDuration (ip_sizeBytes p) (BandwidthBitsPerSecond (l_config (in_link ing))) = Some d"
      using w Cons kp by (auto simp: waiting_ok_def)
    let ?t = "\<lparr>sizeBytes = ip_sizeBytes p, tx_duration = d, onArrival = (k, p)\<rparr>"
    obtain e' l' ser' where s: "TryStart wrap (ip_sizeBytes p) (k, p) (e, in_link ing) = Some (e', l', True)"
      "link_inv wrap e' l' trav [?t] arrs ser'" "eng_inv e'" "api e e'" "next_id e' \<le> next_id e + 1"
      "sq_list (l_queue l') = []" "l_managed l' = l_managed (in_link ing)" "l_config l' = l_config (in_link ing)"
      "congestion_ready l' = congestion_ready (in_link ing)"
      "l_LostPackets (l_stats l') = l_LostPackets (l_stats (in_link ing))"
      using TryStart_inv[OF e room l sz d lq] by blast
    have qk: "sq_ok (i_queue (inputs ing ! k))" "map (Pair k) (sq_list (i_queue (inputs ing ! k))) = (k, p) # part k W'"
      using w k Cons kp by (auto simp: waiting_ok_def)
    then obtain ps where ps: "sq_list (i_queue (inputs ing ! k)) = p # ps" "map (Pair k) ps = part k W'"
      by auto
    obtain q where q: "sq_drop_front (i_queue (inputs ing ! k)) = Some q" "sq_ok q" "sq_list q = ps"
      using sq_drop_front_correct[OF qk(1) ps(1)] by blast
    let ?mid = "update_input k (\<lambda>i. i\<lparr>i_stats := (i_stats i)\<lparr>l_Transmitting := True\<rparr>\<rparr>)
        (ing\<lparr>transmittingInput := Some k, transmittingBytes := ip_sizeBytes p,
             lossesBefore := l_LostPackets (l_stats (in_link ing))\<rparr>)"
    let ?n = "update_input k (\<lambda>i. i\<lparr>i_queue := q\<rparr>) (?mid\<lparr>in_link := l'\<rparr>)"
    let ?r = "?n\<lparr>in_stats := (in_stats ?n)\<lparr>l_QueuedPackets := l_QueuedPackets (in_stats ?n) - 1\<rparr>\<rparr>"
    have kmid: "i_queue (inputs ?mid ! k) = i_queue (inputs ing ! k)" using k by simp
    have run: "ingress_dispatch wrap (e, ing) = Some (e', ?r)"
      using ready old s(1) q(1) kmid by (simp add: ingress_dispatch_def Let_def)
    have len: "length (inputs ?mid) = length (inputs ing)" by simp
    have nth: "inputs ?r ! j = (if j = k then (inputs ing ! k)\<lparr>i_queue := q,
        i_stats := (i_stats (inputs ing ! k))\<lparr>l_Transmitting := True\<rparr>\<rparr> else inputs ing ! j)" for j
      using k by simp
    have W': "waiting_ok ?r W'"
      using w Cons kp k q ps s(8) unfolding waiting_ok_def nth by (auto simp: input_queued_def)
    have cnt: "input_counts j (inputs ?r ! j) (map onArrival trav) (map onArrival [?t]) W'"
      if "j < length (inputs ing)" for j
    proof -
      have "input_counts j (inputs ing ! j) (map onArrival trav) [] W"
        using i that by (simp add: ingress_inv0_def)
      then show ?thesis unfolding nth using Cons kp by (auto simp: input_counts_def)
    qed
    have "capacity_ok ?r"
    proof (cases "W' = []")
      case True
      then show ?thesis using waiting_few[of ?r W' wrap e' trav "[?t]" arrs ser'] W' s(2) by simp
    next
      case False
      then have "capacity_ok ing" using cap Cons by simp
      then show ?thesis
        by (rule capacity_ok_mono) (use q ps s(8) k in \<open>simp_all add: nth input_queued_def\<close>)
    qed
    then have "ingress_inv wrap e' ?r trav [?t] W' arrs ser'"
      using i s W' cnt k unfolding ingress_inv_def ingress_inv0_def by simp
    then show ?thesis using run s Cons kp
      by (intro exI[of _ e'] exI[of _ ?r] exI[of _ "[?t]"] exI[of _ W'] exI[of _ ser']) simp
  qed
qed

lemma ingress_invD:
  assumes "ingress_inv0 wrap e ing trav cur W arrs ser"
  shows "link_inv wrap e (in_link ing) trav cur arrs ser" "l_managed (in_link ing)"
    "congestion_ready (in_link ing)" "sq_list (l_queue (in_link ing)) = []" "waiting_ok ing W"
    "\<And>t. t \<in> set (trav @ cur) \<Longrightarrow> fst (onArrival t) < length (inputs ing)"
    "\<And>k. k < length (inputs ing) \<Longrightarrow>
       input_counts k (inputs ing ! k) (map onArrival trav) (map onArrival cur) W"
  using assms by (auto simp: ingress_inv0_def)

text \<open>The end of a transmission is attributed to its input, and the next packet starts.\<close>

lemma ingress_serialized_inv:
  assumes e1: "eng_inv e1" and room: "next_id e1 + 3 \<le> max_u64"
    and i: "ingress_inv0 wrap e0 ing trav [p] W arrs0 ser0" and cap: "capacity_ok ing"
    and ev: "link_events wrap e1 (PacketTravelTime (l_config (in_link ing))) trav [p] arrs []"
  shows "\<exists>e2 ing2 b cur' W' arrs' ser'.
    ingress_event wrap (Serialized p) (e1, ing) = Some (e2, ing2, None) \<and>
    ingress_inv wrap e2 ing2 (trav @ (if b then [] else [p])) cur' W' arrs' ser' \<and>
    map onArrival cur' @ W' = W \<and> eng_inv e2 \<and> api e1 e2 \<and> next_id e2 \<le> next_id e1 + 3 \<and>
    length (inputs ing2) = length (inputs ing) \<and> l_config (in_link ing2) = l_config (in_link ing) \<and>
    (LossRate (l_config (in_link ing)) = Fin 0 \<longrightarrow> \<not> b)"
proof -
  note D = ingress_invD[OF i]
  have c: "link_config_ok (in_link ing)" "link_queue_ok (in_link ing) [p]"
    "link_counts (in_link ing) (trav @ [p] @ sq_list (l_queue (in_link ing))) trav"
    using D(1) by (simp_all add: link_inv_def)
  have room2: "next_id e1 + 2 \<le> max_u64" using room by simp
  obtain e2 l2 b trav' cur' arrs' ser' where s: "link_serialized wrap p (e1, in_link ing) = Some (e2, l2, l_managed (in_link ing))"
    "link_inv wrap e2 l2 trav' cur' arrs' ser'" "eng_inv e2" "api e1 e2" "next_id e2 \<le> next_id e1 + 2"
    "l_managed l2 = l_managed (in_link ing)" "congestion_ready l2 = congestion_ready (in_link ing)"
    "l_config l2 = l_config (in_link ing)"
    "trav' @ cur' @ sq_list (l_queue l2) = trav @ (if b then [] else [p]) @ sq_list (l_queue (in_link ing))"
    "LossRate (l_config (in_link ing)) = Fin 0 \<longrightarrow> \<not> b" "l_managed (in_link ing) \<longrightarrow> cur' = []"
    "l_LostPackets (l_stats l2) = l_LostPackets (l_stats (in_link ing)) + (if b then 1 else 0)"
    using link_serialized_inv[OF e1 room2 c ev]
    by (elim exE conjE) (rule that; assumption)
  have cur': "cur' = []" and lq: "sq_list (l_queue l2) = []"
    using s(2,6,11) D(2) by (auto simp: link_inv_def link_queue_ok_def)
  have trav': "trav' = trav @ (if b then [] else [p])" using s(9) cur' lq D(4) by simp
  let ?k = "fst (onArrival p)" and ?B = "nat (transmittingBytes ing)"
  have k: "?k < length (inputs ing)" using D(6) by simp
  have tr: "transmittingInput ing = Some ?k" "lossesBefore ing = l_LostPackets (l_stats (in_link ing))"
    using i by (simp_all add: ingress_inv0_def)
  let ?i = "ing\<lparr>in_link := l2\<rparr>"
  let ?done = "update_input ?k (\<lambda>i. i\<lparr>i_stats := (i_stats i)\<lparr>l_Transmitting := False,
      l_TransmittedBytes := l_TransmittedBytes (i_stats i) + ?B\<rparr>\<rparr>) ?i"
  let ?att = "if b then update_input ?k (\<lambda>i. i\<lparr>i_stats := (i_stats i)\<lparr>
        l_LostPackets := l_LostPackets (i_stats i) + 1, l_LostBytes := l_LostBytes (i_stats i) + ?B\<rparr>\<rparr>) ?done
      else update_input ?k (\<lambda>i. i\<lparr>i_stats := (i_stats i)\<lparr>
        l_TravellingPackets := l_TravellingPackets (i_stats i) + 1\<rparr>\<rparr>) ?done"
  let ?n = "?att\<lparr>transmittingInput := None, transmittingBytes := 0\<rparr>"
  have fin: "finishTransmission wrap (e2, ?i) = ingress_dispatch wrap (e2, ?n)"
    using tr s(12) by (simp add: finishTransmission_def Let_def)
  have q: "i_queue (inputs ?n ! j) = i_queue (inputs ing ! j)" if "j < length (inputs ing)" for j
    using k by (cases b) simp_all
  have fr: "length (inputs ?n) = length (inputs ing)" "in_nextSequence ?n = in_nextSequence ing"
    "in_stats ?n = in_stats ing" "in_link ?n = l2"
    by (cases b; simp)+
  have "waiting_ok ?n W"
    using D(5) q s(8) unfolding waiting_ok_def fr input_queued_def by simp
  moreover have "input_counts j (inputs ?n ! j) (map onArrival trav') [] W"
    if j: "j < length (inputs ing)" for j
  proof -
    obtain kp pk where kp: "onArrival p = (kp, pk)" by force
    show ?thesis
      using D(7)[OF j] k kp unfolding trav' by (cases b) (auto simp: input_counts_def)
  qed
  moreover have "fst (onArrival t) < length (inputs ing)" if "t \<in> set trav'" for t
    using D(6)[of t] that unfolding trav' by (auto split: if_splits)
  moreover have "transmittingInput ?n = None" by simp
  ultimately have i2: "ingress_inv0 wrap e2 ?n trav' [] W arrs' ser'"
    using s(2,6,7) D(2,3) lq cur' fr unfolding ingress_inv0_def by simp
  have cap2: "capacity_ok ?n"
    by (rule capacity_ok_mono[OF cap fr(1)]) (use q s(8) fr(4) in \<open>simp_all add: input_queued_def\<close>)
  obtain e3 ing3 cur3 W3 ser3 where d: "ingress_dispatch wrap (e2, ?n) = Some (e3, ing3)"
    "ingress_inv wrap e3 ing3 trav' cur3 W3 arrs' ser3" "map onArrival cur3 @ W3 = W"
    "eng_inv e3" "api e2 e3" "next_id e3 \<le> next_id e2 + 1" "length (inputs ing3) = length (inputs ?n)"
    "l_config (in_link ing3) = l_config (in_link ?n)"
    using ingress_dispatch_inv[OF s(3) _ i2] s(5) room cap2 by auto
  have "ingress_event wrap (Serialized p) (e1, ing) = Some (e3, ing3, None)"
    using s(1) D(2) fin d(1) by (simp add: ingress_event_def)
  moreover have "next_id e3 \<le> next_id e1 + 3" using d(6) s(5) by simp
  moreover have "l_config (in_link ing3) = l_config (in_link ing)" using d(8) fr(4) s(8) by simp
  moreover have "length (inputs ing3) = length (inputs ing)" using d(7) fr(1) by simp
  ultimately show ?thesis
    using d(2-4) s(10) api_trans[OF s(4) d(5)] unfolding trav'
    by (intro exI[of _ e3] exI[of _ ing3] exI[of _ b] exI[of _ cur3] exI[of _ W3] exI[of _ arrs'] exI[of _ ser3])
      (intro conjI; assumption)
qed

lemma ingress_arrived_inv:
  assumes i: "ingress_inv wrap e0 ing (p # trav) cur W arrs0 ser0"
    and ev: "link_events wrap e (PacketTravelTime (l_config (in_link ing))) trav cur arrs ser"
  shows "\<exists>ing2. ingress_event wrap (Arrived p) (e, ing) = Some (e, ing2, Some (ip_onArrival (snd (onArrival p)))) \<and>
    ingress_inv wrap e ing2 trav cur W arrs ser \<and> length (inputs ing2) = length (inputs ing) \<and>
    l_config (in_link ing2) = l_config (in_link ing)"
proof -
  have i0: "ingress_inv0 wrap e0 ing (p # trav) cur W arrs0 ser0" and wc: "W \<noteq> [] \<longrightarrow> cur \<noteq> []"
    and cap: "capacity_ok ing"
    using i by (simp_all add: ingress_inv_def)
  note D = ingress_invD[OF i0]
  obtain k pk where kp: "onArrival p = (k, pk)" by force
  have k: "k < length (inputs ing)" using D(6)[of p] kp by simp
  let ?l = "fst (link_arrived p (in_link ing))"
  have a: "snd (link_arrived p (in_link ing)) = (k, pk)" using kp by (simp add: link_arrived_def)
  have li: "link_inv wrap e ?l trav cur arrs ser"
    using link_arrived_inv[of "in_link ing" cur p trav wrap e arrs ser] D(1) ev by (simp add: link_inv_def)
  have lf: "l_managed ?l = l_managed (in_link ing)" "congestion_ready ?l = congestion_ready (in_link ing)"
    "l_queue ?l = l_queue (in_link ing)" "l_config ?l = l_config (in_link ing)"
    "l_LostPackets (l_stats ?l) = l_LostPackets (l_stats (in_link ing))"
    by (simp_all add: link_arrived_def congestion_ready_def)
  let ?n = "fst (input_arrived (k, pk) (ing\<lparr>in_link := ?l\<rparr>))"
  have run: "ingress_event wrap (Arrived p) (e, ing) = Some (e, ?n, Some (ip_onArrival pk))"
    using a by (simp add: ingress_event_def Let_def input_arrived_def case_prod_beta)
  have fr: "length (inputs ?n) = length (inputs ing)" "in_nextSequence ?n = in_nextSequence ing"
    "in_stats ?n = in_stats ing" "in_link ?n = ?l" "transmittingInput ?n = transmittingInput ing"
    "transmittingBytes ?n = transmittingBytes ing" "lossesBefore ?n = lossesBefore ing"
    by (simp_all add: input_arrived_def)
  have nth: "inputs ?n ! j = (if j = k then (inputs ing ! k)\<lparr>i_stats := (i_stats (inputs ing ! k))\<lparr>
          l_TravellingPackets := l_TravellingPackets (i_stats (inputs ing ! k)) - 1,
          l_DeliveredPackets := l_DeliveredPackets (i_stats (inputs ing ! k)) + 1,
          l_DeliveredBytes := l_DeliveredBytes (i_stats (inputs ing ! k)) + nat (ip_sizeBytes pk)\<rparr>\<rparr>
      else inputs ing ! j)" for j
    using k by (simp add: input_arrived_def)
  have "waiting_ok ?n W"
    using D(5) lf(4) unfolding waiting_ok_def fr nth by (auto simp: input_queued_def)
  moreover have "input_counts j (inputs ?n ! j) (map onArrival trav) (map onArrival cur) W"
    if j: "j < length (inputs ing)" for j
    using D(7)[OF j] kp unfolding nth by (auto simp: input_counts_def)
  moreover have "capacity_ok ?n"
    by (rule capacity_ok_mono[OF cap fr(1)]) (use fr(4) lf(4) in \<open>simp_all add: nth input_queued_def\<close>)
  ultimately have "ingress_inv wrap e ?n trav cur W arrs ser"
    using i0 wc li lf D(6) unfolding ingress_inv_def ingress_inv0_def fr by (auto split: list.splits)
  then show ?thesis using run fr lf(4) kp by (intro exI[of _ ?n]) simp
qed

lemma link_queued_zero: "sq_list (l_queue l) = [] \<Longrightarrow> link_queued l = 0"
  by (simp add: link_queued_def)

lemma waiting_append:
  assumes w: "waiting_ok ing W" and k: "k < length (inputs ing)" and n: "in_nextSequence ing < max_u64"
    and p: "ip_sequence p = in_nextSequence ing + 1" "0 \<le> ip_sizeBytes p"
      "serializationDuration (ip_sizeBytes p) (BandwidthBitsPerSecond (l_config (in_link ing))) \<noteq> None"
    and f: "\<And>j. j < length (inputs ing) \<Longrightarrow> i_queue (inputs ing' ! j) =
        (if j = k then sq_append p (i_queue (inputs ing ! k)) else i_queue (inputs ing ! j))"
      "length (inputs ing') = length (inputs ing)" "in_nextSequence ing' = in_nextSequence ing + 1"
      "l_config (in_link ing') = l_config (in_link ing)"
      "l_QueuedPackets (in_stats ing') = l_QueuedPackets (in_stats ing) + 1"
  shows "waiting_ok ing' (W @ [(k, p)])"
proof -
  have q: "sq_ok (i_queue (inputs ing ! j))" if "j < length (inputs ing)" for j
    using w that by (simp add: waiting_ok_def)
  have lt: "ip_sequence (snd x) < ip_sequence p" if "x \<in> set W" for x
    using w that p(1) by (force simp: waiting_ok_def)
  have "(\<forall>j < length (inputs ing'). sq_ok (i_queue (inputs ing' ! j)) \<and>
        map (Pair j) (sq_list (i_queue (inputs ing' ! j))) = part j (W @ [(k, p)]))"
    using w q k unfolding waiting_ok_def f(2,4) by (auto simp: f(1))
  moreover have "\<forall>(j, x) \<in> set (W @ [(k, p)]). j < length (inputs ing') \<and>
      ip_sequence x \<le> in_nextSequence ing' \<and> 0 \<le> ip_sizeBytes x \<and>
      serializationDuration (ip_sizeBytes x) (BandwidthBitsPerSecond (l_config (in_link ing'))) \<noteq> None"
    using w k p unfolding waiting_ok_def f(2-4) by fastforce
  moreover have "sorted_wrt (\<lambda>x y. ip_sequence (snd x) < ip_sequence (snd y)) (W @ [(k, p)])"
    using w lt by (auto simp: waiting_ok_def sorted_wrt_append)
  ultimately show ?thesis
    using w n f(3,5) unfolding waiting_ok_def by simp
qed

lemma input_TransmitECN_inv:
  assumes e: "eng_inv e" and room: "next_id e < max_u64"
    and i: "ingress_inv wrap e ing trav cur W arrs ser" and k: "k < length (inputs ing)"
    and sz: "0 \<le> sz" "validateECNState state" and n: "in_nextSequence ing < max_u64"
    and d: "serializationDuration sz (BandwidthBitsPerSecond (l_config (in_link ing))) = Some d"
  shows "\<exists>e' ing' ok cur' W' arrs' ser' m. input_TransmitECN wrap k sz state arrival (e, ing) = Some (e', ing', ok) \<and>
    ingress_inv wrap e' ing' trav cur' W' arrs' ser' \<and> eng_inv e' \<and> api e e' \<and> next_id e' \<le> next_id e + 1 \<and>
    length (inputs ing') = length (inputs ing) \<and> l_config (in_link ing') = l_config (in_link ing) \<and>
    map (ip_onArrival \<circ> snd) (map onArrival cur' @ W') =
      map (ip_onArrival \<circ> snd) (map onArrival cur @ W) @ (if ok then [arrival m] else [])"
proof -
  have i0: "ingress_inv0 wrap e ing trav cur W arrs ser" and wc: "W \<noteq> [] \<longrightarrow> cur \<noteq> []"
    and cap: "capacity_ok ing"
    using i by (simp_all add: ingress_inv_def)
  note D = ingress_invD[OF i0]
  let ?inp = "inputs ing ! k"
  let ?ready = "Ready (in_link ing)"
  let ?full = "LinkQueueCapacity (l_config (in_link ing)) \<le> int (input_queued ?inp)"
  have ready: "?ready \<longleftrightarrow> cur = []" using D(1) by (auto simp: Ready_def link_inv_def link_queue_ok_def)
  obtain sel r where sel: "(if (?ready \<or> \<not> ?full) \<and> \<not> ?ready
      then shouldSignalCongestion (input_queued ?inp + 1) (in_link ing) else Some (False, in_link ing)) =
      Some (sel, (in_link ing)\<lparr>l_congestionRNG := r\<rparr>)"
    "congestion_ready ((in_link ing)\<lparr>l_congestionRNG := r\<rparr>)" "?ready \<Longrightarrow> \<not> sel"
  proof (cases "(?ready \<or> \<not> ?full) \<and> \<not> ?ready")
    case True
    then show ?thesis
      using shouldSignal_ok[OF D(3), of "input_queued ?inp + 1"] that by auto
  next
    case False
    then have "(if (?ready \<or> \<not> ?full) \<and> \<not> ?ready
      then shouldSignalCongestion (input_queued ?inp + 1) (in_link ing) else Some (False, in_link ing)) =
      Some (False, (in_link ing)\<lparr>l_congestionRNG := l_congestionRNG (in_link ing)\<rparr>)"
      by (subst if_not_P[OF False]) simp
    then show ?thesis using that[of False "l_congestionRNG (in_link ing)"] D(3) by simp
  qed
  let ?l = "(in_link ing)\<lparr>l_congestionRNG := r\<rparr>"
  let ?early = "sel \<and> state = NotCapable" and ?m = "state = AlreadyMarked \<or> (sel \<and> state = Capable)"
  let ?acc = "?ready \<or> \<not> ?full"
  let ?mark = "if sel \<and> state = Capable then link_mark sz else (\<lambda>st. st)"
  let ?ing1 = "update_input k (\<lambda>i. i\<lparr>i_stats := link_offer sz (i_stats i)\<rparr>)
      (ing\<lparr>in_link := ?l, in_stats := link_offer sz (in_stats ing)\<rparr>)"
  have li: "link_inv wrap e ?l trav cur arrs ser" using D(1) by (simp add: link_inv_rng)
  have n1: "u64 (in_nextSequence ing + 1) = in_nextSequence ing + 1" using n by simp
  let ?p = "\<lparr>ip_sizeBytes = sz, ip_onArrival = arrival ?m, ip_sequence = in_nextSequence ing + 1\<rparr>"
  let ?ing2 = "update_input k (\<lambda>i. i\<lparr>i_stats := link_accept sz (?mark (i_stats i))\<rparr>)
      (?ing1\<lparr>in_stats := link_accept sz (?mark (in_stats ?ing1))\<rparr>)"
  have call: "input_TransmitECN wrap k sz state arrival (e, ing) =
    (if \<not> ?acc \<or> ?early
     then Some (e, update_input k (\<lambda>i. i\<lparr>i_stats := link_drop sz ?early (i_stats i)\<rparr>)
        (?ing1\<lparr>in_stats := link_drop sz ?early (in_stats ?ing1)\<rparr>), False)
     else do { (e', ing') \<leftarrow> ingress_dispatch wrap (e,
         update_input k (\<lambda>i. i\<lparr>i_queue := sq_append ?p (i_queue i)\<rparr>)
          (?ing2\<lparr>in_stats := (in_stats ?ing2)\<lparr>l_QueuedPackets := l_QueuedPackets (in_stats ?ing2) + 1\<rparr>,
               in_nextSequence := in_nextSequence ing + 1\<rparr>)); Some (e', ing', True) })"
  proof -
    have g: "\<not> (sz < 0 \<or> \<not> validateECNState state \<or> length (inputs ing) \<le> k)"
      "\<not> (?acc \<and> in_nextSequence ing = max_u64)"
      using sz k n by simp_all
    have fr: "in_nextSequence ?ing2 = in_nextSequence ing" by simp
    show ?thesis
      unfolding input_TransmitECN_def prod.case if_not_P[OF g(1)] d Let_def bind.bind_lunit
        if_not_P[OF g(2)] sel(1) fr n1 by (rule refl)
  qed
  show ?thesis
  proof (cases "\<not> ?acc \<or> ?early")
    case True
    let ?n = "update_input k (\<lambda>i. i\<lparr>i_stats := link_drop sz ?early (i_stats i)\<rparr>)
        (?ing1\<lparr>in_stats := link_drop sz ?early (in_stats ?ing1)\<rparr>)"
    have run: "input_TransmitECN wrap k sz state arrival (e, ing) = Some (e, ?n, False)"
      unfolding call using True by (simp only: if_True)
    have nth: "inputs ?n ! j = (if j = k then ?inp\<lparr>i_stats := link_drop sz ?early (link_offer sz (i_stats ?inp))\<rparr>
        else inputs ing ! j)" for j
      using k by simp
    have fr: "length (inputs ?n) = length (inputs ing)" "in_nextSequence ?n = in_nextSequence ing"
      "in_link ?n = ?l" "transmittingInput ?n = transmittingInput ing" "l_config ?l = l_config (in_link ing)"
      "transmittingBytes ?n = transmittingBytes ing" "lossesBefore ?n = lossesBefore ing"
      "l_QueuedPackets (in_stats ?n) = l_QueuedPackets (in_stats ing)"
      by (simp_all add: link_drop_def link_offer_def Let_def)
    have "waiting_ok ?n W"
      using D(5) unfolding waiting_ok_def fr nth by auto
    moreover have "input_counts j (inputs ?n ! j) (map onArrival trav) (map onArrival cur) W"
      if j: "j < length (inputs ing)" for j
      using D(7)[OF j] unfolding nth by (auto simp: input_counts_def link_drop_def link_offer_def Let_def)
    moreover have "capacity_ok ?n"
      by (rule capacity_ok_mono[OF cap fr(1)]) (use fr(3,5) k in \<open>simp_all add: nth input_queued_def\<close>)
    ultimately have "ingress_inv wrap e ?n trav cur W arrs ser"
      using i0 wc li sel(2) D(6) unfolding ingress_inv_def ingress_inv0_def fr by (auto split: list.splits)
    then show ?thesis using run e fr
      by (intro exI[of _ e] exI[of _ ?n] exI[of _ False] exI[of _ cur] exI[of _ W] exI[of _ arrs] exI[of _ ser]) auto
  next
    case False
    let ?n = "update_input k (\<lambda>i. i\<lparr>i_queue := sq_append ?p (i_queue i)\<rparr>)
        (?ing2\<lparr>in_stats := (in_stats ?ing2)\<lparr>l_QueuedPackets := l_QueuedPackets (in_stats ?ing2) + 1\<rparr>,
               in_nextSequence := in_nextSequence ing + 1\<rparr>)"
    have run: "input_TransmitECN wrap k sz state arrival (e, ing) =
        do { (e', ing') \<leftarrow> ingress_dispatch wrap (e, ?n); Some (e', ing', True) }"
      unfolding call using False by (simp only: if_False)
    have nth: "inputs ?n ! j = (if j = k then ?inp\<lparr>i_queue := sq_append ?p (i_queue ?inp),
          i_stats := link_accept sz (?mark (link_offer sz (i_stats ?inp)))\<rparr> else inputs ing ! j)" for j
      using k by simp
    have fr: "length (inputs ?n) = length (inputs ing)" "in_nextSequence ?n = in_nextSequence ing + 1"
      "in_link ?n = ?l" "transmittingInput ?n = transmittingInput ing" "l_config ?l = l_config (in_link ing)"
      "transmittingBytes ?n = transmittingBytes ing" "lossesBefore ?n = lossesBefore ing"
      "l_QueuedPackets (in_stats ?n) = l_QueuedPackets (in_stats ing) + 1"
      by (simp_all add: link_accept_def link_offer_def link_mark_def)
    let ?W = "W @ [(k, ?p)]"
    have w: "waiting_ok ?n ?W"
      by (rule waiting_append[OF D(5) k n]) (use sz d fr k in \<open>simp_all add: nth\<close>)
    have cnt: "input_counts j (inputs ?n ! j) (map onArrival trav) (map onArrival cur) ?W"
      if j: "j < length (inputs ing)" for j
      using D(7)[OF j] unfolding nth by (auto simp: input_counts_def link_accept_def link_offer_def link_mark_def)
    have i1: "ingress_inv0 wrap e ?n trav cur ?W arrs ser"
      using i0 li sel(2) w cnt D(6) unfolding ingress_inv0_def fr by (auto split: list.splits)
    show ?thesis
    proof (cases "cur = []")
      case True
      then have W: "W = []" using wc by blast
      obtain e' ing' cur' W' ser' where g: "ingress_dispatch wrap (e, ?n) = Some (e', ing')"
        "ingress_inv wrap e' ing' trav cur' W' arrs ser'" "map onArrival cur' @ W' = ?W"
        "eng_inv e'" "api e e'" "next_id e' \<le> next_id e + 1" "length (inputs ing') = length (inputs ?n)"
        "l_config (in_link ing') = l_config (in_link ?n)"
        using ingress_dispatch_inv[OF e room i1[unfolded True]] W by auto
      have "map (ip_onArrival \<circ> snd) (map onArrival cur' @ W') =
          map (ip_onArrival \<circ> snd) (map onArrival cur @ W) @ [arrival ?m]"
        unfolding g(3) True by simp
      then show ?thesis using run g fr(1,3,5)
        by (intro exI[of _ e'] exI[of _ ing'] exI[of _ True] exI[of _ cur'] exI[of _ W'] exI[of _ arrs]
            exI[of _ ser'] exI[of _ ?m]) auto
    next
      case busy: False
      then have nr: "\<not> ?ready" using ready by simp
      then have "ingress_dispatch wrap (e, ?n) = Some (e, ?n)"
        using fr(3) by (simp add: ingress_dispatch_def Ready_def)
      moreover have "capacity_ok ?n"
      proof (rule capacity_okI)
        fix j assume "j < length (inputs ?n)"
        then have j: "j < length (inputs ing)" unfolding fr(1) .
        have c: "int (input_queued (inputs ing ! j)) \<le> LinkQueueCapacity (l_config (in_link ing))"
          using cap j by (simp add: capacity_ok_def)
        have "sq_ok (i_queue ?inp)" using D(5) k by (simp add: waiting_ok_def)
        then show "int (input_queued (inputs ?n ! j)) \<le> LinkQueueCapacity (l_config (in_link ?n))"
          using c False nr unfolding nth fr(3,5) by (auto simp: input_queued_def)
      qed
      ultimately show ?thesis
        using run e i1 busy fr(1,3,5) unfolding ingress_inv_def
        by (intro exI[of _ e] exI[of _ ?n] exI[of _ True] exI[of _ cur] exI[of _ ?W] exI[of _ arrs]
            exI[of _ ser] exI[of _ ?m]) auto
    qed
  qed
qed

section \<open>An ingress alone\<close>

definition ingress_handler ::
  "((nat \<times> 'a ingress_packet) link_event, 'a ingress \<times> 'a list) handler"
where
  "ingress_handler ev = (\<lambda>(e, ing, out). do {
     (e', ing', cb) \<leftarrow> ingress_event (\<lambda>x. x) ev (e, ing);
     Some (e', ing', out @ (case cb of None \<Rightarrow> [] | Some a \<Rightarrow> [a]))
   })"

abbreviation arrival_values where
  "arrival_values ts W \<equiv> map (ip_onArrival \<circ> snd) (map onArrival ts @ W)"

definition ingress_sys_inv where
  "ingress_sys_inv A e = (\<lambda>(ing, out). \<exists>trav cur W arrs ser.
     ingress_inv (\<lambda>x. x) e ing trav cur W arrs ser \<and>
     subseq (map fst (out @ arrival_values (trav @ cur) W)) A \<and>
     (LossRate (l_config (in_link ing)) = Fin 0 \<longrightarrow> map fst (out @ arrival_values (trav @ cur) W) = A))"

lemma ingress_handler_ok:
  assumes e: "eng_inv e" and inv: "ingress_sys_inv A e (ing, out)" and ne: "arr (queue e) \<noteq> []"
    and t: "take_event e = Some (x, e1)" and room: "next_id e1 + 3 \<le> max_u64"
  shows "\<exists>e2 s2. ingress_handler (ev_callback x) (e1, ing, out) = Some (e2, s2) \<and> api e1 e2 \<and>
    next_id e2 \<le> next_id e1 + 3 \<and> ingress_sys_inv A e2 s2"
proof -
  note x = take_event_facts[OF e ne t]
  obtain trav cur W arrs ser where i: "ingress_inv (\<lambda>x. x) e ing trav cur W arrs ser"
    and A: "subseq (map fst (out @ arrival_values (trav @ cur) W)) A"
    "LossRate (l_config (in_link ing)) = Fin 0 \<longrightarrow> map fst (out @ arrival_values (trav @ cur) W) = A"
    using inv by (auto simp: ingress_sys_inv_def)
  have i0: "ingress_inv0 (\<lambda>x. x) e ing trav cur W arrs ser" and cap: "capacity_ok ing"
    using i by (simp_all add: ingress_inv_def)
  have ev: "link_events (\<lambda>x. x) e (PacketTravelTime (l_config (in_link ing))) trav cur arrs ser"
    using ingress_invD(1)[OF i0] by (simp add: link_inv_def)
  have inj: "inj (\<lambda>x. x)" by simp
  show ?thesis
  proof (cases "ev_callback x")
    case (Serialized p)
    have hd: "cur = [p]" "link_events (\<lambda>x. x) e1 (PacketTravelTime (l_config (in_link ing))) trav [p] arrs []"
      using link_head_serialized[OF e ne t inj ev Serialized] by auto
    obtain e2 ing2 b cur' W' arrs' ser' where s: "ingress_event (\<lambda>x. x) (Serialized p) (e1, ing) = Some (e2, ing2, None)"
      "ingress_inv (\<lambda>x. x) e2 ing2 (trav @ (if b then [] else [p])) cur' W' arrs' ser'"
      "map onArrival cur' @ W' = W" "eng_inv e2" "api e1 e2" "next_id e2 \<le> next_id e1 + 3"
      "length (inputs ing2) = length (inputs ing)" "l_config (in_link ing2) = l_config (in_link ing)"
      "LossRate (l_config (in_link ing)) = Fin 0 \<longrightarrow> \<not> b"
      using ingress_serialized_inv[OF x(4) room i0[unfolded hd(1)] cap hd(2)]
      by (elim exE conjE) (rule that; assumption)
    let ?new = "map fst (out @ arrival_values ((trav @ (if b then [] else [p])) @ cur') W')"
    let ?F = "fst \<circ> (ip_onArrival \<circ> snd)"
    have new: "?new = (map fst out @ map (?F \<circ> onArrival) trav) @
        (if b then [] else [?F (onArrival p)]) @ map ?F W"
      unfolding s(3)[symmetric] by simp
    have old: "map fst (out @ arrival_values (trav @ cur) W) =
        (map fst out @ map (?F \<circ> onArrival) trav) @ [?F (onArrival p)] @ map ?F W"
      unfolding hd(1) by simp
    have "subseq ?new A"
    proof (cases b)
      case True
      then show ?thesis using subseq_drop_mid[OF A(1)[unfolded old]] unfolding new by simp
    next
      case False
      then show ?thesis using A(1) unfolding new old by simp
    qed
    moreover have "LossRate (l_config (in_link ing2)) = Fin 0 \<longrightarrow> ?new = A"
      using A(2) s(8,9) unfolding new old by auto
    ultimately have "ingress_sys_inv A e2 (ing2, out)"
      using s(2) unfolding ingress_sys_inv_def prod.case by blast
    then show ?thesis using s(1,5,6) Serialized by (simp add: ingress_handler_def)
  next
    case (Arrived p)
    obtain trav' arrs' where hd: "trav = p # trav'"
      "link_events (\<lambda>x. x) e1 (PacketTravelTime (l_config (in_link ing))) trav' cur arrs' ser"
      using link_head_arrived[OF e ne t inj ev Arrived] by blast
    obtain ing2 where s: "ingress_event (\<lambda>x. x) (Arrived p) (e1, ing) = Some (e1, ing2, Some (ip_onArrival (snd (onArrival p))))"
      "ingress_inv (\<lambda>x. x) e1 ing2 trav' cur W arrs' ser"
      "l_config (in_link ing2) = l_config (in_link ing)"
      using ingress_arrived_inv[OF i[unfolded hd(1)] hd(2)] by blast
    have "map fst ((out @ [ip_onArrival (snd (onArrival p))]) @ arrival_values (trav' @ cur) W) =
        map fst (out @ arrival_values (trav @ cur) W)"
      unfolding hd(1) by simp
    then have "ingress_sys_inv A e1 (ing2, out @ [ip_onArrival (snd (onArrival p))])"
      using s(2,3) A unfolding ingress_sys_inv_def prod.case by (metis (no_types, lifting))
    then show ?thesis using s(1) Arrived by (auto simp: ingress_handler_def)
  qed
qed

lemma ingress_sys_inv_cong:
  assumes "ingress_sys_inv A e s" "pending e' = pending e" "eng_now e \<le> eng_now e'" "end_time e' = end_time e"
  shows "ingress_sys_inv A e' s"
proof -
  have "ingress_inv (\<lambda>x. x) e' ing trav cur W arrs ser" if "ingress_inv (\<lambda>x. x) e ing trav cur W arrs ser"
    for ing trav cur W arrs ser
  proof -
    have "link_inv (\<lambda>x. x) e (in_link ing) trav cur arrs ser"
      using that by (simp add: ingress_inv_def ingress_inv0_def)
    then have "link_inv (\<lambda>x. x) e' (in_link ing) trav cur arrs ser"
      by (rule link_inv_cong[OF _ _ assms(3,4)]) (simp add: assms(2))
    then show ?thesis using that by (simp add: ingress_inv_def ingress_inv0_def)
  qed
  then show ?thesis using assms(1) unfolding ingress_sys_inv_def by (cases s) (simp only: prod.case, blast)
qed

interpretation ingressc: engine_client ingress_handler "ingress_sys_inv A" 3 for A :: "'p list"
proof unfold_locales
  fix e :: "(nat \<times> ('p \<times> 'b) ingress_packet) link_event engine"
    and s :: "('p \<times> 'b) ingress \<times> ('p \<times> 'b) list" and x e1
  assume a: "eng_inv e" "ingress_sys_inv A e s" "arr (queue e) \<noteq> []" "take_event e = Some (x, e1)"
    "eng_inv e1" "next_id e1 + 3 \<le> max_u64"
  show "\<exists>e2 s2. ingress_handler (ev_callback x) (e1, s) = Some (e2, s2) \<and> api e1 e2 \<and>
      next_id e2 \<le> next_id e1 + 3 \<and> ingress_sys_inv A e2 s2"
    using ingress_handler_ok[OF a(1) _ a(3,4,6)] a(2) by (cases s) auto
qed (auto elim: ingress_sys_inv_cong)

section \<open>The states an ingress can reach\<close>

text \<open>A packet's callback is the packet with its congestion mark; \<open>A\<close> lists the packets
  accepted by any input, in order.\<close>

inductive ingress_reach ::
  "'p list \<Rightarrow> (nat \<times> ('p \<times> bool) ingress_packet) link_event engine \<Rightarrow> ('p \<times> bool) ingress \<Rightarrow>
   ('p \<times> bool) list \<Rightarrow> bool"
where
  ingress_fresh: "engine_New t = Some e \<Longrightarrow> t \<le> max_i64 \<Longrightarrow> NewLink config r = Some l \<Longrightarrow>
    SetCongestionRNG c l = Some l' \<Longrightarrow> NewIngress l' = Some ing \<Longrightarrow> ingress_reach [] e ing []"
| ingress_add: "ingress_reach A e ing out \<Longrightarrow> ingress_reach A e (snd (AddInput ing)) out"
| ingress_transmit: "ingress_reach A e ing out \<Longrightarrow> next_id e < max_u64 \<Longrightarrow>
    input_TransmitECN (\<lambda>x. x) k sz state (\<lambda>marked. (p, marked)) (e, ing) = Some (e', ing', ok) \<Longrightarrow>
    in_nextSequence ing < max_u64 \<Longrightarrow>
    ingress_reach (if ok then A @ [p] else A) e' ing' out"
| ingress_run: "ingress_reach A e ing out \<Longrightarrow> next_id e + 3 * max_events e \<le> max_u64 \<Longrightarrow>
    RunUntil ingress_handler until e (ing, out) = Some (r, e', ing', out') \<Longrightarrow> ingress_reach A e' ing' out'"

lemma part_none: "(\<And>j p. (j, p) \<in> set ws \<Longrightarrow> j < n) \<Longrightarrow> part n ws = []"
  by (fastforce simp: part_def filter_empty_conv)

lemma AddInput_inv:
  assumes "ingress_inv wrap e ing trav cur W arrs ser"
  shows "ingress_inv wrap e (snd (AddInput ing)) trav cur W arrs ser"
proof -
  let ?n = "length (inputs ing)"
  have i0: "ingress_inv0 wrap e ing trav cur W arrs ser" and cap: "capacity_ok ing"
    using assms by (simp_all add: ingress_inv_def)
  note D = ingress_invD[OF i0]
  have pw: "part ?n W = []"
    by (rule part_none) (use D(5) in \<open>auto simp: waiting_ok_def\<close>)
  have "part ?n (map onArrival ts) = []" if "set ts \<subseteq> set (trav @ cur)" for ts
  proof (rule part_none)
    fix j q assume "(j, q) \<in> set (map onArrival ts)"
    then obtain t where "t \<in> set ts" "onArrival t = (j, q)" by auto
    moreover from this have "t \<in> set (trav @ cur)" using \<open>set ts \<subseteq> _\<close> by blast
    ultimately show "j < ?n" using D(6)[of t] by simp
  qed
  then have pt: "part ?n (map onArrival trav) = []" "part ?n (map onArrival cur) = []" by simp_all
  have "0 \<le> LinkQueueCapacity (l_config (in_link ing))"
    using D(1) by (simp add: link_inv_def link_config_ok_def)
  then show ?thesis
    using assms pw pt D(5)
    unfolding ingress_inv_def ingress_inv0_def waiting_ok_def capacity_ok_def AddInput_def
    by (auto simp: nth_append less_Suc_eq input_counts_def zero_link_stats_def input_queued_def split: list.splits)
qed

lemma input_TransmitECN_Some:
  "input_TransmitECN wrap k sz state arrival (e, ing) = Some r \<Longrightarrow>
   0 \<le> sz \<and> validateECNState state \<and> k < length (inputs ing) \<and>
   (\<exists>d. serializationDuration sz (BandwidthBitsPerSecond (l_config (in_link ing))) = Some d)"
  by (auto simp: input_TransmitECN_def split: if_splits Option.bind_splits)

lemma ingress_reach_inv:
  "ingress_reach A e ing out \<Longrightarrow> eng_inv e \<and> \<not> running e \<and> ingress_sys_inv A e (ing, out)"
proof (induction rule: ingress_reach.induct)
  case (ingress_fresh t e config r l c l' ing)
  have i: "eng_inv e" using engine_New_inv[OF ingress_fresh(1,2)] .
  have p: "pending e = {}" "\<not> running e"
    using ingress_fresh(1) by (auto simp: engine_New_def pending_def heap_empty_def split: if_splits)
  have li: "link_inv (\<lambda>x. x) e l [] [] [] []" using NewLink_inv[OF ingress_fresh(3), of e "\<lambda>x. x"] p(1) by simp
  note c = NewLink_congestion[OF ingress_fresh(3,4)]
  have l': "link_inv (\<lambda>x. x) e l' [] [] [] []" using li c link_inv_rng by metis
  have g: "ing = \<lparr>in_link = l'\<lparr>l_managed := True\<rparr>, inputs = [], in_nextSequence = 0, in_stats = zero_link_stats,
           transmittingInput = None, transmittingBytes = 0, lossesBefore = 0\<rparr>"
    using ingress_fresh(5) by (auto simp: NewIngress_def useExternalQueue_def split: if_splits)
  have "link_inv (\<lambda>x. x) e (l'\<lparr>l_managed := True\<rparr>) [] [] [] []" "sq_list (l_queue l') = []"
    using l' by (auto simp: link_inv_def link_config_ok_def link_queue_ok_def link_counts_def link_queued_def)
  then have "ingress_inv (\<lambda>x. x) e ing [] [] [] [] []"
    using conjunct1[OF c] unfolding g ingress_inv_def ingress_inv0_def
    by (simp add: waiting_ok_def capacity_ok_def congestion_ready_def zero_link_stats_def)
  then have "ingress_sys_inv [] e (ing, [])"
    unfolding ingress_sys_inv_def prod.case by (auto intro!: exI[of _ "[]"])
  then show ?case using i p by simp
next
  case (ingress_add A e ing out)
  have "l_config (in_link (snd (AddInput ing))) = l_config (in_link ing)" by (simp add: AddInput_def)
  then show ?case
    using ingress_add(2) AddInput_inv unfolding ingress_sys_inv_def prod.case by metis
next
  case (ingress_transmit A e ing out k sz state p e' ing' ok)
  then have i: "eng_inv e" "\<not> running e" "ingress_sys_inv A e (ing, out)" by simp_all
  obtain trav cur W arrs ser where g: "ingress_inv (\<lambda>x. x) e ing trav cur W arrs ser"
    and A: "subseq (map fst (out @ arrival_values (trav @ cur) W)) A"
    "LossRate (l_config (in_link ing)) = Fin 0 \<longrightarrow> map fst (out @ arrival_values (trav @ cur) W) = A"
    using i(3) by (auto simp: ingress_sys_inv_def)
  obtain d where d: "0 \<le> sz" "validateECNState state" "k < length (inputs ing)"
    "serializationDuration sz (BandwidthBitsPerSecond (l_config (in_link ing))) = Some d"
    using input_TransmitECN_Some[OF ingress_transmit(3)] by blast
  obtain e2 ing2 ok2 cur' W' arrs' ser' m where x:
    "input_TransmitECN (\<lambda>x. x) k sz state (\<lambda>m. (p, m)) (e, ing) = Some (e2, ing2, ok2)"
    "ingress_inv (\<lambda>x. x) e2 ing2 trav cur' W' arrs' ser'" "eng_inv e2" "api e e2" "next_id e2 \<le> next_id e + 1"
    "length (inputs ing2) = length (inputs ing)" "l_config (in_link ing2) = l_config (in_link ing)"
    "arrival_values cur' W' = arrival_values cur W @ (if ok2 then [(p, m)] else [])"
    using input_TransmitECN_inv[OF i(1) ingress_transmit(2) g d(3,1,2) ingress_transmit(4) d(4), of "\<lambda>m. (p, m)"]
    by (elim exE conjE) (rule that; assumption)
  have eq: "e2 = e'" "ing2 = ing'" "ok2 = ok" using x(1) ingress_transmit(3) by simp_all
  note t = x(2)[unfolded eq] x(3)[unfolded eq] x(4)[unfolded eq] x(7)[unfolded eq] x(8)[unfolded eq]
  let ?old = "map fst (out @ arrival_values (trav @ cur) W)"
  have new: "map fst (out @ arrival_values (trav @ cur') W') = ?old @ (if ok then [p] else [])"
    using arg_cong[OF t(5), of "map fst"] by simp
  have "ingress_sys_inv (if ok then A @ [p] else A) e' (ing', out)"
    using t(1,4) A unfolding ingress_sys_inv_def prod.case
    by (intro exI[of _ trav] exI[of _ cur'] exI[of _ W'] exI[of _ arrs'] exI[of _ ser'] conjI)
      (auto simp only: new if_True if_False append_Nil2 intro: list_emb_append_mono split: if_split)
  then show ?case using t(2,3) i(1,2) api_keeps[of e e'] by simp
next
  case (ingress_run A e ing out until r e' ing' out')
  then have i: "eng_inv e" "\<not> running e" "ingress_sys_inv A e (ing, out)" by simp_all
  show ?case
  proof (cases "eng_now e \<le> until \<and> until \<le> end_time e")
    case False
    then show ?thesis using ingress_run(3) i by (auto simp: RunUntil_def split: if_splits)
  next
    case True
    have b: "max_events e \<le> max_u64" "next_id e + 3 * (max_events e - executed e) \<le> max_u64"
      using ingress_run(2) by auto
    show ?thesis
      using ingressc.RunUntil_total[OF i(1,3,2) conjunct1[OF True] conjunct2[OF True] b] ingress_run(3) by auto
  qed
qed

section \<open>Properties\<close>

definition demo_ingress :: "(nat \<times> bool) ingress" where
  "demo_ingress = \<lparr>in_link = \<lparr>l_config = demo_link_config, l_rng = None, l_congestionRNG = None,
       l_queue = sq_empty, l_transmitting = False, l_travelling = 0, l_stats = zero_link_stats, l_managed = True\<rparr>,
     inputs = [\<lparr>i_queue = sq_empty, i_stats = zero_link_stats\<rparr>, \<lparr>i_queue = sq_empty, i_stats = zero_link_stats\<rparr>],
     in_nextSequence = 0, in_stats = zero_link_stats,
     transmittingInput = None, transmittingBytes = 0, lossesBefore = 0\<rparr>"

definition demo_ingress_engine :: "(nat \<times> (nat \<times> bool) ingress_packet) link_event engine" where
  "demo_ingress_engine = \<lparr>max_events = DefaultMaxEvents, eng_now = 0, end_time = 100, next_id = 0,
     queue = heap_empty, by_id = Map.empty, executed = 0, running = False\<rparr>"

lemmas ingress_eval = demo_ingress_def demo_ingress_engine_def input_TransmitECN_def update_input_def
  input_queued_def ingress_dispatch_def oldest_input.simps TryStart_def Ready_def ingress_handler_def
  ingress_event_def finishTransmission_def input_arrived_def

text \<open>Two packets from two inputs of a loss-free link: at 16 ns the first has arrived.\<close>

lemma ingress_demo_states:
  "\<exists>e1 g1 e2 g2 e3 g3.
     input_TransmitECN (\<lambda>x. x) 1 10 0 (\<lambda>m. (1, m)) (demo_ingress_engine, demo_ingress) = Some (e1, g1, True) \<and>
     next_id e1 = 1 \<and> in_nextSequence g1 = 1 \<and>
     input_TransmitECN (\<lambda>x. x) 0 10 0 (\<lambda>m. (2, m)) (e1, g1) = Some (e2, g2, True) \<and>
     next_id e2 = 1 \<and> max_events e2 = 5000000000 \<and>
     RunUntil ingress_handler 16 e2 (g2, []) = Some (None, e3, g3, [(1, False)]) \<and>
     LossRate (l_config (in_link g3)) = Fin 0 \<and> length (inputs g3) = 2"
  by (simp add: link_eval ingress_eval)

lemma ingress_demo:
  "\<exists>e g. ingress_reach [1, 2] e g [(1 :: nat, False)] \<and> LossRate (l_config (in_link g)) = Fin 0 \<and> length (inputs g) = 2"
proof -
  obtain e1 g1 e2 g2 e3 g3 where r:
    "input_TransmitECN (\<lambda>x. x) 1 10 0 (\<lambda>m. (1, m)) (demo_ingress_engine, demo_ingress) = Some (e1, g1, True)"
    "next_id e1 = 1" "in_nextSequence g1 = 1"
    "input_TransmitECN (\<lambda>x. x) 0 10 0 (\<lambda>m. (2, m)) (e1, g1) = Some (e2, g2, True)"
    "next_id e2 = 1" "max_events e2 = 5000000000"
    "RunUntil ingress_handler 16 e2 (g2, []) = Some (None, e3, g3, [(1, False)])"
    "LossRate (l_config (in_link g3)) = Fin 0" "length (inputs g3) = 2"
    using ingress_demo_states by blast
  let ?l = "\<lparr>l_config = demo_link_config, l_rng = None, l_congestionRNG = None, l_queue = sq_empty,
     l_transmitting = False, l_travelling = 0, l_stats = zero_link_stats, l_managed = False\<rparr>
     :: (nat \<times> (nat \<times> bool) ingress_packet) link"
  let ?g = "\<lparr>in_link = ?l\<lparr>l_managed := True\<rparr>, inputs = [], in_nextSequence = 0, in_stats = zero_link_stats,
     transmittingInput = None, transmittingBytes = 0, lossesBefore = 0\<rparr>"
  have "engine_New 100 = Some demo_ingress_engine" by (simp add: engine_New_def demo_ingress_engine_def)
  moreover have "NewLink demo_link_config None = Some ?l"
    by (simp add: NewLink_def demo_link_config_def validateCongestionConfig_def f64_outside_def)
  moreover have "SetCongestionRNG None ?l = Some ?l" "NewIngress ?l = Some ?g"
    by (simp_all add: SetCongestionRNG_def NewIngress_def useExternalQueue_def link_has_traffic_def link_eval)
  ultimately have "ingress_reach [] demo_ingress_engine ?g []"
    using ingress_fresh[of 100 demo_ingress_engine demo_link_config None ?l None ?l ?g]
    by (simp add: max_i64_def)
  from ingress_add[OF ingress_add[OF this]] have "ingress_reach [] demo_ingress_engine demo_ingress []"
    by (simp add: AddInput_def demo_ingress_def)
  from ingress_transmit[OF this _ r(1)] have "ingress_reach [1] e1 g1 []"
    by (simp add: demo_ingress_engine_def demo_ingress_def max_u64_def)
  from ingress_transmit[OF this _ r(4)] have two: "ingress_reach [1, 2] e2 g2 []"
    using r(2,3) by (simp add: max_u64_def)
  have "next_id e2 + 3 * max_events e2 \<le> max_u64" using r(5,6) by (simp add: max_u64_def)
  from ingress_run[OF two this r(7)] r(8,9) show ?thesis by blast
qed

text \<open>C12: The ingress is fair to the order of arrival: whatever inputs the packets come from, the shared
  link delivers them in the order in which they were admitted, and without loss it delivers
  exactly the first of them.\<close>

theorem ingress_merges_in_order:
  assumes "ingress_reach A e ing out"
  shows "subseq (map fst out) A \<and>
    (LossRate (l_config (in_link ing)) = Fin 0 \<longrightarrow> (\<exists>rest. A = map fst out @ rest))"
proof -
  obtain inside where "subseq (map fst out @ inside) A"
    "LossRate (l_config (in_link ing)) = Fin 0 \<longrightarrow> map fst out @ inside = A"
    using ingress_reach_inv[OF assms] by (auto simp: ingress_sys_inv_def)
  then show ?thesis using subseq_drop_mid[of "map fst out" inside "[]" A] by auto
qed

theorem ingress_merges_in_order_witness:
  "\<exists>e g. ingress_reach [1, 2] e g [(1 :: nat, False)] \<and> LossRate (l_config (in_link g)) = Fin 0 \<and>
     (\<exists>rest. [1, 2] = map fst [(1 :: nat, False)] @ rest)"
proof -
  obtain e g where d: "ingress_reach [1, 2] e g [(1 :: nat, False)]" "LossRate (l_config (in_link g)) = Fin 0"
    using ingress_demo by blast
  with ingress_merges_in_order[OF d(1)] show ?thesis by blast
qed

text \<open>C13: Each input's counters describe its own packets only: what it accepted is delivered, lost,
  travelling, in transmission or in its queue, the loss of a packet on the shared link is charged
  to the input it came from, and its queue stays within the link's capacity.\<close>

theorem ingress_input_accounting:
  assumes "ingress_reach A e ing out" "k < length (inputs ing)"
  shows "let i = inputs ing ! k; st = i_stats i in
    l_OfferedPackets st = l_AcceptedPackets st + l_QueueDroppedPackets st \<and>
    int (l_AcceptedPackets st) = int (l_DeliveredPackets st + l_LostPackets st) + l_TravellingPackets st
      + (if l_Transmitting st then 1 else 0) + int (input_queued i) \<and>
    0 \<le> l_TravellingPackets st \<and>
    (l_Transmitting st \<longleftrightarrow> transmittingInput ing = Some k) \<and>
    int (input_queued i) \<le> LinkQueueCapacity (l_config (in_link ing))"
proof -
  obtain trav cur W arrs ser where g: "ingress_inv (\<lambda>x. x) e ing trav cur W arrs ser"
    using ingress_reach_inv[OF assms(1)] by (auto simp: ingress_sys_inv_def)
  then have i0: "ingress_inv0 (\<lambda>x. x) e ing trav cur W arrs ser" and cap: "capacity_ok ing"
    by (simp_all add: ingress_inv_def)
  note D = ingress_invD[OF i0]
  have "length cur \<le> 1" using D(1) by (simp add: link_inv_def link_events_def)
  then consider (idle) "cur = []" | (busy) t where "cur = [t]" by (cases cur) auto
  then have c: "length (part k (map onArrival cur)) = (if l_Transmitting (i_stats (inputs ing ! k)) then 1 else 0) \<and>
    (l_Transmitting (i_stats (inputs ing ! k)) \<longleftrightarrow> transmittingInput ing = Some k)"
  proof cases
    case idle
    then show ?thesis using D(7)[OF assms(2)] i0 by (simp add: input_counts_def ingress_inv0_def)
  next
    case (busy t)
    obtain j q where jq: "onArrival t = (j, q)" by force
    have "transmittingInput ing = Some j" using i0 busy jq by (simp add: ingress_inv0_def)
    moreover have "l_Transmitting (i_stats (inputs ing ! k)) = (part k [(j, q)] \<noteq> [])"
      using D(7)[OF assms(2)] busy jq by (simp add: input_counts_def)
    ultimately show ?thesis using busy jq by simp
  qed
  have "map (Pair k) (sq_list (i_queue (inputs ing ! k))) = part k W"
    using D(5) assms(2) by (simp add: waiting_ok_def)
  then have "length (part k W) = input_queued (inputs ing ! k)"
    by (metis input_queued_def length_map sq_queued_list)
  then show ?thesis
    using D(7)[OF assms(2)] c cap assms(2) unfolding input_counts_def Let_def
    by (auto simp: capacity_ok_def)
qed

theorem ingress_input_accounting_witness:
  "\<exists>e g. ingress_reach [1, 2] e g [(1 :: nat, False)] \<and> 1 < length (inputs g) \<and>
     l_OfferedPackets (i_stats (inputs g ! 1)) =
       l_AcceptedPackets (i_stats (inputs g ! 1)) + l_QueueDroppedPackets (i_stats (inputs g ! 1))"
proof -
  obtain e g where d: "ingress_reach [1, 2] e g [(1 :: nat, False)]" "length (inputs g) = 2"
    using ingress_demo by blast
  have k: "1 < length (inputs g)" using d(2) by simp
  from ingress_input_accounting[OF d(1) k]
  have "l_OfferedPackets (i_stats (inputs g ! 1)) =
      l_AcceptedPackets (i_stats (inputs g ! 1)) + l_QueueDroppedPackets (i_stats (inputs g ! 1))"
    unfolding Let_def by (rule conjunct1)
  with d(1) k show ?thesis by blast
qed

end
