(* ===== verification/Algorithms.thy ===== *)
theory Algorithms
  imports Rng
begin

text \<open>
  The selection algorithms of \<open>simulator/algorithms\<close>: round robin and uniform random choice
  among the candidates that are below their mapping limit.  The result is an error or the index
  of the selected candidate, with the algorithm's new state.
\<close>

record candidate =
  MaxConnections :: nat
  MappedConnections :: nat

datatype pick_error = NoBackends | NoAvailableBackends

definition has_room :: "candidate \<Rightarrow> bool" where
  "has_room c \<longleftrightarrow> MaxConnections c = 0 \<or> MappedConnections c < MaxConnections c"

text \<open>At most \<open>left\<close> candidates are checked from \<open>index\<close> on.\<close>

fun rr_scan :: "candidate list \<Rightarrow> nat \<Rightarrow> nat \<Rightarrow> (pick_error + nat) \<times> nat" where
  "rr_scan cs 0 index = (Inl NoAvailableBackends, index)"
| "rr_scan cs (Suc left) index =
     (let index' = (index + 1) mod length cs
      in if has_room (cs ! index) then (Inr index, index') else rr_scan cs left index')"

definition RoundRobin_Pick :: "nat \<Rightarrow> candidate list \<Rightarrow> (pick_error + nat) \<times> nat" where
  "RoundRobin_Pick index cs =
     (if cs = [] then (Inl NoBackends, index)
      else rr_scan cs (length cs) (index mod length cs))"

definition available :: "candidate list \<Rightarrow> nat list" where
  "available cs = filter (\<lambda>i. has_room (cs ! i)) [0..<length cs]"

text \<open>\<open>fallback\<close> is the generator of the zero value, seeded with one.\<close>

definition Random_Pick ::
  "rng \<Rightarrow> rng option \<Rightarrow> candidate list \<Rightarrow> ((pick_error + nat) \<times> rng option) option"
where
  "Random_Pick fallback r cs =
     (let av = available cs in
      if av = [] then Some (Inl NoAvailableBackends, r)
      else do {
        (i, r') \<leftarrow> Intn (int (length av)) (case r of None \<Rightarrow> fallback | Some g \<Rightarrow> g);
        Some (Inr (av ! i), Some r')
      })"

text \<open>The balancer's algorithm, by the kind the user selects, with its state.\<close>

datatype algorithm = RoundRobin nat | Random "rng option"

fun Pick :: "rng \<Rightarrow> algorithm \<Rightarrow> candidate list \<Rightarrow> ((pick_error + nat) \<times> algorithm) option" where
  "Pick fallback (RoundRobin i) cs = (let (res, i') = RoundRobin_Pick i cs in Some (res, RoundRobin i'))"
| "Pick fallback (Random r) cs = map_option (\<lambda>(res, r'). (res, Random r')) (Random_Pick fallback r cs)"

section \<open>Round robin\<close>

text \<open>\<open>rr_scan\<close> finds the first candidate with room in the cyclic order.\<close>

lemma rr_scan_correct:
  assumes "cs \<noteq> []" "index < length cs"
  shows "case rr_scan cs left index of
      (Inr i, next) \<Rightarrow> \<exists>k < left. i = (index + k) mod length cs \<and> has_room (cs ! i) \<and>
          (\<forall>j < k. \<not> has_room (cs ! ((index + j) mod length cs))) \<and> next = (i + 1) mod length cs
    | (Inl err, next) \<Rightarrow> err = NoAvailableBackends \<and> next = (index + left) mod length cs \<and>
          (\<forall>j < left. \<not> has_room (cs ! ((index + j) mod length cs)))"
  using assms(2)
proof (induction left arbitrary: index)
  case (Suc left)
  let ?n = "length cs"
  let ?i = "(index + 1) mod ?n"
  have n: "0 < ?n" using assms(1) by simp
  have shift: "(?i + k) mod ?n = (index + Suc k) mod ?n" for k
    by (simp add: mod_add_left_eq)
  show ?case
  proof (cases "has_room (cs ! index)")
    case True
    then show ?thesis using Suc.prems by (auto simp: Let_def intro!: exI[of _ 0])
  next
    case False
    have all: "(\<forall>j < Suc k. \<not> has_room (cs ! ((index + j) mod ?n))) \<longleftrightarrow>
        (\<forall>j < k. \<not> has_room (cs ! ((?i + j) mod ?n)))" for k
    proof -
      have "(\<forall>j < Suc k. \<not> has_room (cs ! ((index + j) mod ?n))) \<longleftrightarrow>
          \<not> has_room (cs ! (index mod ?n)) \<and> (\<forall>j < k. \<not> has_room (cs ! ((index + Suc j) mod ?n)))"
        by (auto simp: less_Suc_eq_0_disj)
      then show ?thesis using False Suc.prems shift by simp
    qed
    have r: "rr_scan cs (Suc left) index = rr_scan cs left ?i" using False by (simp add: Let_def)
    note IH = Suc.IH[of ?i] n
    show ?thesis
    proof (cases "rr_scan cs left ?i")
      case (Pair res nxt)
      show ?thesis
      proof (cases res)
        case (Inl err)
        then show ?thesis using IH Pair r all[of left] shift[of left] by simp
      next
        case (Inr i)
        then obtain k where "k < left" "i = (?i + k) mod ?n" "has_room (cs ! i)"
          "\<forall>j < k. \<not> has_room (cs ! ((?i + j) mod ?n))" "nxt = (i + 1) mod ?n"
          using IH Pair by auto
        then show ?thesis using r Pair Inr all[of k] shift[of k] by (auto intro!: exI[of _ "Suc k"])
      qed
    qed
  qed
qed simp

lemma cyclic_cover:
  fixes n s i :: nat
  assumes "i < n"
  shows "\<exists>j < n. (s + j) mod n = i"
proof -
  have "s mod n < n" using assms by simp
  let ?j = "if s mod n \<le> i then i - s mod n else n + i - s mod n"
  have "(s + ?j) mod n = (s mod n + ?j) mod n" by (simp add: mod_add_left_eq)
  also have "\<dots> = i"
  proof (cases "s mod n \<le> i")
    case False
    then have "s mod n + ?j = i + n" using \<open>s mod n < n\<close> by simp
    then show ?thesis using assms by (simp only: mod_add_self2 mod_less)
  qed (use assms in simp)
  finally show ?thesis using assms \<open>s mod n < n\<close> by (intro exI[of _ ?j]) auto
qed

lemma cyclic_inj:
  fixes n s j k :: nat
  assumes "j < n" "k < n" "(s + j) mod n = (s + k) mod n"
  shows "j = k"
proof -
  have "(int s + int j) mod int n = (int s + int k) mod int n"
    using assms(3) by (metis of_nat_add zmod_int)
  then have "int n dvd int j - int k" by (simp add: mod_eq_dvd_iff)
  then have "int j - int k = 0"
    using dvd_imp_le_int[of "int j - int k" "int n"] assms(1,2) by linarith
  then show ?thesis by simp
qed

text \<open>
  The round robin as a rotation: the candidates with room, in cyclic order from the state, are
  a list that each pick rotates by one.
\<close>

definition rr_order :: "candidate list \<Rightarrow> nat \<Rightarrow> nat list" where
  "rr_order cs s = filter (\<lambda>i. has_room (cs ! i)) (rotate s [0..<length cs])"

lemma nth_cycle: "j < n \<Longrightarrow> rotate s [0..<n] ! j = (s + j) mod n"
  by (simp add: nth_rotate add.commute)

lemma rr_order_mod: "rr_order cs (s mod length cs) = rr_order cs s"
  by (metis rr_order_def length_upt minus_nat.diff_0 rotate_conv_mod)

lemma rr_order_empty: "rr_order cs s = [] \<longleftrightarrow> (\<forall>c \<in> set cs. \<not> has_room c)"
  by (simp add: rr_order_def filter_empty_conv all_set_conv_all_nth atLeast0LessThan lessThan_def)

lemma rr_order_pick:
  assumes k: "k < length cs" "has_room (cs ! ((s + k) mod length cs))"
    "\<forall>j < k. \<not> has_room (cs ! ((s + j) mod length cs))"
  shows "rr_order cs s = (s + k) mod length cs # tl (rr_order cs s) \<and>
    rr_order cs ((s + k) mod length cs + 1) = rotate1 (rr_order cs s)"
proof -
  let ?n = "length cs" and ?i = "(s + k) mod length cs"
  let ?xs = "rotate s [0..<?n]" and ?P = "\<lambda>i. has_room (cs ! i)"
  have split: "?xs = take k ?xs @ ?i # drop (Suc k) ?xs"
    using id_take_nth_drop[of k ?xs] k(1) by (simp add: nth_cycle)
  have none: "filter ?P (take k ?xs) = []"
    using k(1,3) by (auto simp: filter_empty_conv in_set_conv_nth nth_cycle)
  have f: "filter ?P ?xs = ?i # filter ?P (drop (Suc k) ?xs)"
    by (subst split) (simp add: none k(2))
  have "rotate (Suc (s + k)) [0..<?n] = rotate (Suc k) ?xs"
    by (simp add: rotate_rotate add.commute)
  also have "\<dots> = drop (Suc k) ?xs @ take k ?xs @ [?i]"
    using k(1) split rotate_drop_take[of "Suc k" ?xs]
    by (cases "Suc k = ?n") (auto simp: take_Suc_conv_app_nth nth_cycle)
  finally have "rr_order cs (Suc (s + k)) = filter ?P (drop (Suc k) ?xs) @ [?i]"
    by (simp add: rr_order_def none k(2))
  then have "rr_order cs (Suc (s + k)) = rotate1 (rr_order cs s)"
    by (simp add: rr_order_def f)
  moreover have "rr_order cs (?i + 1) = rr_order cs (Suc (s + k))"
    using rr_order_mod[of cs "?i + 1"] rr_order_mod[of cs "Suc (s + k)"] by (simp add: mod_Suc_eq)
  ultimately show ?thesis by (simp add: rr_order_def f)
qed

lemma RoundRobin_step:
  assumes "cs \<noteq> []"
  shows "(rr_order cs s = [] \<longrightarrow> fst (RoundRobin_Pick s cs) = Inl NoAvailableBackends) \<and>
    (rr_order cs s \<noteq> [] \<longrightarrow> (\<exists>s'. RoundRobin_Pick s cs = (Inr (hd (rr_order cs s)), s') \<and>
       rr_order cs s' = rotate1 (rr_order cs s)))"
proof -
  let ?n = "length cs" and ?s = "s mod length cs"
  have n: "0 < ?n" using assms by simp
  have p: "RoundRobin_Pick s cs = rr_scan cs ?n ?s" using assms by (simp add: RoundRobin_Pick_def)
  note c = rr_scan_correct[OF assms, of ?s ?n]
  show ?thesis
  proof (cases "rr_scan cs ?n ?s")
    case (Pair res nxt)
    show ?thesis
    proof (cases res)
      case (Inl err)
      have none: "\<not> has_room (cs ! ((?s + j) mod ?n))" if "j < ?n" for j
        using c n Pair Inl that by simp
      have "\<forall>i < ?n. \<not> has_room (cs ! i)"
        using none cyclic_cover[of _ ?n ?s] by metis
      then have "rr_order cs s = []" by (auto simp: rr_order_empty in_set_conv_nth)
      then show ?thesis using c n Pair Inl p by simp
    next
      case (Inr i)
      then obtain k where k: "k < ?n" "i = (?s + k) mod ?n" "has_room (cs ! i)"
        "\<forall>j < k. \<not> has_room (cs ! ((?s + j) mod ?n))" "nxt = (i + 1) mod ?n"
        using c n Pair by auto
      have o: "rr_order cs ?s = i # tl (rr_order cs ?s)" "rr_order cs (i + 1) = rotate1 (rr_order cs ?s)"
        using rr_order_pick[OF k(1) k(3)[unfolded k(2)] k(4)] k(2) by simp_all
      then have h: "hd (rr_order cs s) = i" "rr_order cs s \<noteq> []"
        by (metis rr_order_mod list.sel(1), metis rr_order_mod list.distinct(1))
      have "rr_order cs nxt = rotate1 (rr_order cs s)"
        using o(2) k(5) by (simp add: rr_order_mod)
      with h show ?thesis using p Pair Inr by simp
    qed
  qed
qed

text \<open>The results of \<open>k\<close> picks from the same candidates.\<close>

fun rr_picks :: "candidate list \<Rightarrow> nat \<Rightarrow> nat \<Rightarrow> (pick_error + nat) list" where
  "rr_picks cs 0 s = []"
| "rr_picks cs (Suc k) s = (let (r, s') = RoundRobin_Pick s cs in r # rr_picks cs k s')"

section \<open>Properties\<close>

text \<open>C7: Round robin is fair: over candidates that do not change, its picks run through those with room
  in cyclic order, again and again, so that each of them is picked once in every round.\<close>

theorem round_robin_fair:
  assumes "rr_order cs s \<noteq> []"
  shows "rr_picks cs k s = map (\<lambda>j. Inr (rr_order cs s ! (j mod length (rr_order cs s)))) [0..<k] \<and>
    distinct (rr_order cs s) \<and> set (rr_order cs s) = {i. i < length cs \<and> has_room (cs ! i)}"
proof -
  have cs: "cs \<noteq> []" using assms by (auto simp: rr_order_def)
  have "rr_picks cs k s = map (\<lambda>j. Inr (rr_order cs s ! (j mod length (rr_order cs s)))) [0..<k]"
    using assms
  proof (induction k arbitrary: s)
    case (Suc k)
    let ?L = "rr_order cs s"
    obtain s' where s': "RoundRobin_Pick s cs = (Inr (hd ?L), s')" "rr_order cs s' = rotate1 ?L"
      using RoundRobin_step[OF cs, of s] Suc.prems by blast
    then have "rr_order cs s' \<noteq> []" using Suc.prems by simp
    have nth: "rotate1 ?L ! (j mod length ?L) = ?L ! (Suc j mod length ?L)" for j
      using Suc.prems nth_rotate[of "j mod length ?L" ?L 1] by (simp add: mod_Suc_eq)
    have m: "[0..<Suc k] = 0 # map Suc [0..<k]" by (simp add: map_Suc_upt upt_conv_Cons)
    show ?case
      using Suc.IH[OF \<open>rr_order cs s' \<noteq> []\<close>] s' Suc.prems nth
      by (simp add: m hd_conv_nth comp_def del: upt_Suc)
  qed simp
  then show ?thesis by (auto simp: rr_order_def)
qed

definition demo_candidates :: "candidate list" where
  "demo_candidates = [\<lparr>MaxConnections = 0, MappedConnections = 7\<rparr>,
     \<lparr>MaxConnections = 2, MappedConnections = 2\<rparr>, \<lparr>MaxConnections = 5, MappedConnections = 2\<rparr>]"

theorem round_robin_fair_witness:
  "rr_order demo_candidates 1 = [2, 0] \<and>
   rr_picks demo_candidates 3 1 = [Inr 2, Inr 0, Inr 2]"
proof -
  have o: "rr_order demo_candidates 1 = [2, 0]" by code_simp
  have "[0..<3] = [0, 1, 2::nat]" "(2::nat) mod Suc (Suc 0) = 0" by code_simp+
  then show ?thesis using o round_robin_fair[of demo_candidates 1 3] by simp
qed

text \<open>Both algorithms are sound and complete.\<close>

lemma Pick_total:
  assumes "int (length cs) \<le> max_i64"
    and "\<And>r. algo = Random r \<Longrightarrow> rng_live (case r of None \<Rightarrow> fallback | Some g \<Rightarrow> g)"
  shows "\<exists>res algo'. Pick fallback algo cs = Some (res, algo') \<and>
    (case res of
       Inr i \<Rightarrow> i < length cs \<and> has_room (cs ! i)
     | Inl err \<Rightarrow> \<forall>c \<in> set cs. \<not> has_room c)"
proof (cases algo)
  case (RoundRobin s)
  show ?thesis
  proof (cases "cs = []")
    case False
    show ?thesis
    proof (cases "rr_order cs s = []")
      case True
      then show ?thesis using RoundRobin RoundRobin_step[OF False, of s] rr_order_empty[of cs s]
        by (auto simp: Let_def split: prod.splits)
    next
      case ne: False
      then have "hd (rr_order cs s) \<in> set (rr_order cs s)" by simp
      then have "hd (rr_order cs s) < length cs" "has_room (cs ! hd (rr_order cs s))"
        unfolding rr_order_def by auto
      then show ?thesis using RoundRobin RoundRobin_step[OF False, of s] ne by (auto simp: Let_def)
    qed
  qed (use RoundRobin in \<open>simp add: RoundRobin_Pick_def\<close>)
next
  case (Random r)
  let ?g = "case r of None \<Rightarrow> fallback | Some g \<Rightarrow> g"
  show ?thesis
  proof (cases "available cs = []")
    case True
    then have "\<forall>c \<in> set cs. \<not> has_room c"
      by (auto simp: available_def filter_empty_conv in_set_conv_nth)
    then show ?thesis using Random True by (simp add: Random_Pick_def)
  next
    case False
    have "length (available cs) \<le> length cs"
      unfolding available_def by (metis length_filter_le length_upt minus_nat.diff_0)
    then have "int (length (available cs)) \<le> max_i64" using assms(1) by linarith
    then obtain i g' where i: "Intn (int (length (available cs))) ?g = Some (i, g')"
      using Intn_total[OF assms(2)[OF Random], of "int (length (available cs))"] False by auto
    then have "i < length (available cs)" using Intn_bound[OF i] by simp
    then have "available cs ! i \<in> set (available cs)" by simp
    then show ?thesis using Random False i by (auto simp: Random_Pick_def Let_def available_def)
  qed
qed

text \<open>C8: A pick, by either algorithm, returns a candidate of the input that is below its limit, and an
  error only when there is none; the random one ends whatever the number of candidates.\<close>

theorem pick_sound:
  assumes "int (length cs) \<le> max_i64"
    and "\<And>r. algo = Random r \<Longrightarrow> rng_live (case r of None \<Rightarrow> fallback | Some g \<Rightarrow> g)"
  shows "\<exists>res algo'. Pick fallback algo cs = Some (res, algo') \<and>
    (case res of
       Inr i \<Rightarrow> i < length cs \<and> has_room (cs ! i)
     | Inl err \<Rightarrow> \<forall>c \<in> set cs. \<not> has_room c)"
  by (rule Pick_total) (rule assms)+

theorem pick_sound_witness:
  "\<exists>res algo'. Pick (rng_new (\<lambda>_. 5)) (Random (Some (rng_new (\<lambda>_. 3)))) demo_candidates = Some (res, algo') \<and>
    (case res of
       Inr i \<Rightarrow> i < length demo_candidates \<and> has_room (demo_candidates ! i)
     | Inl err \<Rightarrow> \<forall>c \<in> set demo_candidates. \<not> has_room c)"
proof (rule pick_sound)
  show "int (length demo_candidates) \<le> max_i64" by (simp add: demo_candidates_def max_i64_def)
  show "rng_live (case r of None \<Rightarrow> rng_new (\<lambda>_. 5) | Some g \<Rightarrow> g)"
    if "Random (Some (rng_new (\<lambda>_. 3))) = Random r" for r
    using that by (auto simp: rng_live_def rng_new_def)
qed

end
