(* ===== verification/Packet.thy ===== *)
theory Packet
  imports Prelude "HOL-Library.Word"
begin

unbundle bit_operations_syntax

text \<open>
  The data model of \<open>simulator/model\<close>: packets, their flags and options, and the
  configurations of the transport.  Flags are eight-bit words as in the code; sequence
  positions are \<open>uint64\<close> values, kept as \<open>nat\<close> below \<open>2^64\<close>.
\<close>

section \<open>Packets\<close>

type_synonym flag = "8 word"

definition FlagSYN :: flag where "FlagSYN = 1"

definition FlagFIN :: flag where "FlagFIN = 2"

definition FlagRST :: flag where "FlagRST = 4"

definition FlagACK :: flag where "FlagACK = 8"

definition FlagPSH :: flag where "FlagPSH = 16"

definition FlagURG :: flag where "FlagURG = 32"

definition FlagECE :: flag where "FlagECE = 64"

definition FlagCWR :: flag where "FlagCWR = 128"

lemmas flag_defs = FlagSYN_def FlagFIN_def FlagRST_def FlagACK_def FlagPSH_def FlagURG_def FlagECE_def
  FlagCWR_def

text \<open>\<open>pkt.Flag & f != 0\<close>\<close>

definition has_flag :: "flag \<Rightarrow> flag \<Rightarrow> bool" where
  "has_flag fl f \<longleftrightarrow> fl AND f \<noteq> 0"

text \<open>\<open>pkt.Flag &^ (FlagECE | FlagCWR)\<close>\<close>

definition base_flags :: "flag \<Rightarrow> flag" where
  "base_flags fl = fl AND NOT (FlagECE OR FlagCWR)"

datatype protocol = TCP | UDP

record client_key =
  SrcIP :: string
  SrcPort :: nat
  DstIP :: string
  DstPort :: nat
  Protocol :: protocol

datatype codepoint = NotECT | ECT1 | ECT0 | CE

record sack_block =
  Start :: nat
  End :: nat

record packet =
  Key :: client_key
  Flag :: flag
  Size :: int
  Seq :: nat
  Ack :: nat
  ECN :: codepoint
  ReceiveWindowBytes :: nat
  SACKPermitted :: bool
  SACKBlocks :: "sack_block list"

definition MaxSACKBlocks :: nat where
  "MaxSACKBlocks = 4"

text \<open>\<open>None\<close> stands for the result \<open>(0, false)\<close>.\<close>

definition SequenceEnd :: "packet \<Rightarrow> nat option" where
  "SequenceEnd p =
     (if Size p < 0 then None
      else
        let len = nat (Size p);
            len = (if has_flag (Flag p) FlagSYN then len + 1 else len);
            len = (if has_flag (Flag p) FlagFIN then len + 1 else len);
            remainingRange = max_u64 - Seq p
        in if remainingRange < len then None else Some (u64 (Seq p + len)))"

definition WireSize :: "packet \<Rightarrow> int" where
  "WireSize p =
     (let opt = (if SACKPermitted p then 2 else 0);
          opt = (if SACKBlocks p \<noteq> [] then opt + 2 + 8 * min (length (SACKBlocks p)) MaxSACKBlocks else opt);
          opt = (opt + 3) div 4 * 4
      in Size p + 40 + int opt)"

definition ValidSACKOptions :: "packet \<Rightarrow> bool" where
  "ValidSACKOptions p \<longleftrightarrow>
     (if SACKPermitted p \<and> \<not> has_flag (Flag p) FlagSYN then False
      else if SACKBlocks p = [] then True
      else if MaxSACKBlocks < length (SACKBlocks p) \<or> \<not> has_flag (Flag p) FlagACK \<or>
              has_flag (Flag p) (FlagSYN OR FlagRST) then False
      else list_all (\<lambda>b. \<not> End b \<le> Start b) (SACKBlocks p))"

section \<open>Configurations\<close>

definition DefaultMSSBytes :: int where "DefaultMSSBytes = 1024"

definition MaxMSSBytes :: int where "MaxMSSBytes = 65535 - 40"

definition PayloadUnitBytes :: int where "PayloadUnitBytes = 1024"

definition ValidMSSBytes :: "int \<Rightarrow> bool" where
  "ValidMSSBytes bytes \<longleftrightarrow> 1 \<le> bytes \<and> bytes \<le> MaxMSSBytes"

definition DefaultReceiveBufferBytes :: nat where "DefaultReceiveBufferBytes = 65535"

definition MAX_RETRANSMISIONS :: nat where "MAX_RETRANSMISIONS = 30"

definition ms :: duration where "ms = 1000000"

definition DefaultClientIdleTimeout :: duration where "DefaultClientIdleTimeout = 20000 * ms"

datatype congestion_mode = CongestionNone | CongestionReno | CongestionNewReno | CongestionTahoe
  | CongestionCubic | OtherCongestionMode string

fun congestion_mode_Valid :: "congestion_mode \<Rightarrow> bool" where
  "congestion_mode_Valid (OtherCongestionMode _) = False"
| "congestion_mode_Valid _ = True"

definition MaxCongestionWindowBytes :: nat where
  "MaxCongestionWindowBytes = 9223372036854775807"

record congestion_config =
  cc_Mode :: congestion_mode
  cc_FastRetransmit :: bool
  cc_CubicFastConvergence :: bool
  cc_InitialWindowSegments :: int
  cc_MaximumWindowSegments :: int
  cc_InitialSlowStartThresholdBytes :: nat

definition DefaultCongestionConfig :: congestion_config where
  "DefaultCongestionConfig = \<lparr>cc_Mode = CongestionReno, cc_FastRetransmit = True,
     cc_CubicFastConvergence = True, cc_InitialWindowSegments = 4, cc_MaximumWindowSegments = 0,
     cc_InitialSlowStartThresholdBytes = DefaultReceiveBufferBytes\<rparr>"

datatype rto_mode = RTOFixed | RTOAdaptive | OtherRTOMode string

record rto_config =
  rto_Mode :: rto_mode
  ExponentialBackoff :: bool
  InitialTimeout :: duration
  MinimumTimeout :: duration
  MaximumTimeout :: duration

definition DefaultRTOConfig :: rto_config where
  "DefaultRTOConfig = \<lparr>rto_Mode = RTOAdaptive, ExponentialBackoff = True, InitialTimeout = 1000 * ms,
     MinimumTimeout = 200 * ms, MaximumTimeout = 60000 * ms\<rparr>"

record rto_state =
  LatestRTT :: duration
  SmoothedRTT :: duration
  RTTVariation :: duration
  BaseRTO :: duration
  CurrentRTO :: duration
  Samples :: nat

record delayed_ack_config =
  da_Enabled :: bool
  SegmentsPerACK :: int
  MaxDelay :: duration

definition DefaultDelayedACKConfig :: delayed_ack_config where
  "DefaultDelayedACKConfig = \<lparr>da_Enabled = False, SegmentsPerACK = 2, MaxDelay = 40 * ms\<rparr>"

definition delayed_ack_Valid :: "delayed_ack_config \<Rightarrow> bool" where
  "delayed_ack_Valid c \<longleftrightarrow>
     1 \<le> SegmentsPerACK c \<and> SegmentsPerACK c \<le> 2 \<and> 0 < MaxDelay c \<and> MaxDelay c \<le> 500 * ms"

record close_config =
  MSL :: duration
  FinWaitTimeout :: duration
  MaxFINRetries :: int

definition DefaultCloseConfig :: close_config where
  "DefaultCloseConfig = \<lparr>MSL = 30000 * ms, FinWaitTimeout = 60000 * ms, MaxFINRetries = 5\<rparr>"

definition close_config_Valid :: "close_config \<Rightarrow> bool" where
  "close_config_Valid c \<longleftrightarrow>
     0 < MSL c \<and> MSL c \<le> max_i64 div 2 \<and> 0 < FinWaitTimeout c \<and>
     0 \<le> MaxFINRetries c \<and> MaxFINRetries c \<le> 30"

section \<open>States reported to observers\<close>

datatype close_outcome = CloseGraceful | CloseReset | CloseFINRetryLimit | CloseWaitTimeout | CloseAborted

datatype tcp_state = TCPClosed | TCPSynSent | TCPSynReceived | TCPEstablished | TCPFinWait1 | TCPFinWait2
  | TCPCloseWait | TCPClosing | TCPLastAck | TCPTimeWait

record close_state =
  cs_State :: tcp_state
  cs_Outcome :: "close_outcome option"
  FINRetransmissions :: nat
  cs_Elapsed :: duration

datatype transfer_status = TransferInProgress | TransferSucceeded | TransferFailed

datatype transfer_failure = TransferSynRetryLimit | TransferDataRetryLimit | TransferReadTimeout
  | TransferRemoteClosed | TransferClosedEarly | TransferInterrupted | TransferBalancerTimeout
  | TransferBackendRemoved | TransferReset | TransferCloseTimeout

record transfer_state =
  Status :: transfer_status
  FailureReason :: "transfer_failure option"
  Elapsed :: duration
  HandshakeCompleted :: bool
  HandshakeDuration :: duration
  PayloadDuration :: duration
  SynRetransmissions :: nat
  DataRetransmissions :: nat

record ecn_state =
  ecn_Enabled :: bool
  Negotiated :: bool
  ReceivedCEPacketCount :: nat
  SentECECount :: nat
  ReceivedECECount :: nat
  SentCWRCount :: nat
  ECNResponseCount :: nat

definition zero_ecn_state :: ecn_state where
  "zero_ecn_state = \<lparr>ecn_Enabled = False, Negotiated = False, ReceivedCEPacketCount = 0, SentECECount = 0,
     ReceivedECECount = 0, SentCWRCount = 0, ECNResponseCount = 0\<rparr>"

section \<open>The end of a packet's sequence range\<close>

text \<open>SYN and FIN each take a position; a result never wraps.\<close>

lemma SequenceEnd_Some:
  assumes "SequenceEnd p = Some e" "Seq p \<le> max_u64"
  shows "e = Seq p + nat (Size p) + (if has_flag (Flag p) FlagSYN then 1 else 0)
      + (if has_flag (Flag p) FlagFIN then 1 else 0) \<and> e \<le> max_u64 \<and> 0 \<le> Size p"
  using assms by (auto simp: SequenceEnd_def Let_def split: if_splits)

lemma SequenceEnd_None:
  "SequenceEnd p = None \<longleftrightarrow> Size p < 0 \<or>
     max_u64 - Seq p < nat (Size p) + (if has_flag (Flag p) FlagSYN then 1 else 0)
       + (if has_flag (Flag p) FlagFIN then 1 else 0)"
  by (auto simp: SequenceEnd_def Let_def)

end
