(* ===== verification/Rto.thy ===== *)
theory Rto
  imports Packet
begin

text \<open>
  The retransmission-timeout estimator of \<open>protocols/tcp/rto.go\<close>: smoothing of measured
  round trips, the clamped timeout, exponential backoff and the conservative timeout after a
  repeated SYN.  Durations are 64-bit; every sum, difference and product of the source is wrapped
  here, and the lemmas show that no wrap ever happens.
\<close>

record rto_estimator =
  re_config :: rto_config
  re_state :: rto_state

fun rto_mode_valid :: "rto_mode \<Rightarrow> bool" where
  "rto_mode_valid RTOFixed = True"
| "rto_mode_valid RTOAdaptive = True"
| "rto_mode_valid (OtherRTOMode _) = False"

definition newRTOEstimator :: "rto_config \<Rightarrow> rto_estimator option" where
  "newRTOEstimator c =
     (let validMode = rto_mode_valid (rto_Mode c);
          validLimits = 0 < MinimumTimeout c \<and> MinimumTimeout c \<le> InitialTimeout c \<and>
            InitialTimeout c \<le> MaximumTimeout c
      in if \<not> validMode \<or> \<not> validLimits then None
         else Some \<lparr>re_config = c, re_state = \<lparr>LatestRTT = 0, SmoothedRTT = 0, RTTVariation = 0,
                BaseRTO = InitialTimeout c, CurrentRTO = InitialTimeout c, Samples = 0\<rparr>\<rparr>)"

definition smoothDuration :: "duration \<Rightarrow> duration \<Rightarrow> int \<Rightarrow> duration" where
  "smoothDuration previous sample weight =
     (let change = i64 (sample - previous);
          weightedChange = go_div change weight;
          weightedChange = (if change < 0 \<and> go_mod change weight \<noteq> 0 then weightedChange - 1
                            else weightedChange)
      in i64 (previous + weightedChange))"

definition measuredTimeout :: "rto_config \<Rightarrow> rto_state \<Rightarrow> duration" where
  "measuredTimeout c s =
     (let maximum = MaximumTimeout c; variation = RTTVariation s
      in if go_div maximum 4 < variation then maximum
         else let margin = max 1 (i64 (4 * variation)); smoothed = SmoothedRTT s
              in if maximum \<le> smoothed \<or> i64 (maximum - smoothed) \<le> margin then maximum
                 else max (MinimumTimeout c) (i64 (smoothed + margin)))"

text \<open>The variation uses the previous mean, before that estimate changes.\<close>

definition smoothedState :: "duration \<Rightarrow> rto_state \<Rightarrow> rto_state" where
  "smoothedState sample s =
     (if Samples s = 0 then s\<lparr>SmoothedRTT := sample, RTTVariation := go_div sample 2\<rparr>
      else
        let difference = i64 (SmoothedRTT s - sample);
            difference = (if difference < 0 then i64 (- difference) else difference)
        in s\<lparr>RTTVariation := smoothDuration (RTTVariation s) difference 4,
             SmoothedRTT := smoothDuration (SmoothedRTT s) sample 8\<rparr>)"

definition observeRTT :: "duration \<Rightarrow> rto_estimator \<Rightarrow> rto_estimator option" where
  "observeRTT sample r =
     (if sample < 0 then None
      else
        let s = smoothedState sample (re_state r);
            s = s\<lparr>LatestRTT := sample, Samples := u64 (Samples s + 1)\<rparr>;
            base = (if rto_Mode (re_config r) = RTOAdaptive then measuredTimeout (re_config r) s
                    else InitialTimeout (re_config r))
        in Some (r\<lparr>re_state := s\<lparr>BaseRTO := base, CurrentRTO := base\<rparr>\<rparr>))"

definition backOff :: "rto_estimator \<Rightarrow> rto_estimator" where
  "backOff r =
     (if \<not> ExponentialBackoff (re_config r) then r
      else
        let current = CurrentRTO (re_state r); maximum = MaximumTimeout (re_config r)
        in if i64 (maximum - current) \<le> current
           then r\<lparr>re_state := (re_state r)\<lparr>CurrentRTO := maximum\<rparr>\<rparr>
           else r\<lparr>re_state := (re_state r)\<lparr>CurrentRTO := i64 (current * 2)\<rparr>\<rparr>)"

definition afterSYNRetry :: "rto_estimator \<Rightarrow> rto_estimator" where
  "afterSYNRetry r =
     (if rto_Mode (re_config r) \<noteq> RTOAdaptive then r
      else
        let conservativeTimeout = min (3000 * ms) (MaximumTimeout (re_config r))
        in r\<lparr>re_state := (re_state r)\<lparr>CurrentRTO := max (CurrentRTO (re_state r)) conservativeTimeout\<rparr>\<rparr>)"

section \<open>Arithmetic\<close>

lemma go_div_floor:
  assumes "0 < w"
  shows "(if c < 0 \<and> go_mod c w \<noteq> 0 then go_div c w - 1 else go_div c w) = c div w"
proof (cases "c < 0")
  case True
  define q r where "q = (- c) div w" and "r = (- c) mod w"
  have r: "0 \<le> r" "r < w" using assms by (simp_all add: r_def)
  have c: "c = - (w * q) - r"
    using mult_div_mod_eq [of w "- c"] unfolding q_def r_def by linarith
  have d: "go_div c w = - q" using True assms by (simp add: go_div_def q_def)
  have "go_mod c w = c + w * q" by (simp add: go_mod_def d)
  then have m: "go_mod c w = - r" using c by linarith
  show ?thesis
  proof (cases "r = 0")
    case True
    have "c div w = - q" by (rule int_div_pos_eq [where r = 0]) (use c True assms in auto)
    then show ?thesis using True by (simp add: d m)
  next
    case False
    have "c div w = - q - 1"
      by (rule int_div_pos_eq [where r = "w - r"]) (use c False r in \<open>auto simp: algebra_simps\<close>)
    then show ?thesis using False \<open>c < 0\<close> by (simp add: d m)
  qed
next
  case False
  then show ?thesis using assms by simp
qed

text \<open>Smoothing is the weighted mean rounded down, without a weighted sum.\<close>

lemma smoothDuration_exact:
  assumes "0 \<le> p" "p \<le> max_i64" "0 \<le> s" "s \<le> max_i64" "1 < w"
  shows "smoothDuration p s w = ((w - 1) * p + s) div w"
    and "min p s \<le> smoothDuration p s w" "smoothDuration p s w \<le> max p s"
proof -
  have d: "i64 (s - p) = s - p" using assms in_i64_diff by simp
  have lo: "min p s \<le> p + (s - p) div w"
  proof (cases "p \<le> s")
    case True then show ?thesis using assms by (simp add: pos_imp_zdiv_nonneg_iff)
  next
    case False
    then have "s - p \<le> (s - p) div w"
      using zdiv_mono2_neg [of "s - p" 1 w] assms by simp
    then show ?thesis using False by simp
  qed
  have hi: "p + (s - p) div w \<le> max p s"
  proof (cases "p \<le> s")
    case True
    have "(s - p) div w \<le> s - p"
      using zdiv_mono2 [of "s - p" 1 w] True assms by simp
    then show ?thesis using True by simp
  next
    case False
    then have "(s - p) div w < 0" using div_neg_pos_less0 [of "s - p" w] assms by simp
    then show ?thesis by simp
  qed
  have bounds: "0 \<le> p + (s - p) div w" "p + (s - p) div w \<le> max_i64"
    using lo hi assms by auto
  have e: "smoothDuration p s w = p + (s - p) div w"
    using go_div_floor [of w "s - p"] assms bounds in_i64_between
    by (simp add: smoothDuration_def Let_def d)
  also have "\<dots> = (p * w + (s - p)) div w" using assms by simp
  also have "\<dots> = ((w - 1) * p + s) div w" by (simp add: algebra_simps)
  finally show "smoothDuration p s w = ((w - 1) * p + s) div w" .
  show "min p s \<le> smoothDuration p s w" "smoothDuration p s w \<le> max p s"
    using e lo hi by simp_all
qed


section \<open>The estimator's invariant\<close>

definition rto_config_ok :: "rto_config \<Rightarrow> bool" where
  "rto_config_ok c \<longleftrightarrow> rto_mode_valid (rto_Mode c) \<and> 0 < MinimumTimeout c \<and>
     MinimumTimeout c \<le> InitialTimeout c \<and> InitialTimeout c \<le> MaximumTimeout c \<and> MaximumTimeout c \<le> max_i64"

definition rto_ok :: "rto_estimator \<Rightarrow> bool" where
  "rto_ok r \<longleftrightarrow> rto_config_ok (re_config r) \<and>
     0 \<le> SmoothedRTT (re_state r) \<and> SmoothedRTT (re_state r) \<le> max_i64 \<and>
     0 \<le> RTTVariation (re_state r) \<and> RTTVariation (re_state r) \<le> max_i64 \<and>
     MinimumTimeout (re_config r) \<le> BaseRTO (re_state r) \<and>
     BaseRTO (re_state r) \<le> CurrentRTO (re_state r) \<and>
     CurrentRTO (re_state r) \<le> MaximumTimeout (re_config r)"

text \<open>The estimators the program can reach from one configuration.\<close>

inductive rto_reach :: "rto_config \<Rightarrow> rto_estimator \<Rightarrow> bool" for c where
  new: "newRTOEstimator c = Some r \<Longrightarrow> rto_reach c r"
| sample: "rto_reach c r \<Longrightarrow> R \<le> max_i64 \<Longrightarrow> observeRTT R r = Some r' \<Longrightarrow> rto_reach c r'"
| backed_off: "rto_reach c r \<Longrightarrow> rto_reach c (backOff r)"
| syn: "rto_reach c r \<Longrightarrow> rto_reach c (afterSYNRetry r)"

lemma measuredTimeout_exact:
  assumes "rto_config_ok c" "0 \<le> SmoothedRTT s" "SmoothedRTT s \<le> max_i64" "0 \<le> RTTVariation s"
  shows "measuredTimeout c s =
    min (MaximumTimeout c) (max (MinimumTimeout c) (SmoothedRTT s + max 1 (4 * RTTVariation s)))"
proof (cases "MaximumTimeout c div 4 < RTTVariation s")
  case True
  then have "MaximumTimeout c < 4 * RTTVariation s" by linarith
  with True assms show ?thesis
    by (auto simp: measuredTimeout_def Let_def rto_config_ok_def min_def max_def)
next
  case False
  define m where "m = max 1 (4 * RTTVariation s)"
  have v: "4 * RTTVariation s \<le> MaximumTimeout c" using False by linarith
  have i: "i64 (4 * RTTVariation s) = 4 * RTTVariation s"
    using v assms by (intro i64_id in_i64_between) (auto simp: rto_config_ok_def)
  have d: "i64 (MaximumTimeout c - SmoothedRTT s) = MaximumTimeout c - SmoothedRTT s"
    using assms by (intro i64_id in_i64_diff) (auto simp: rto_config_ok_def)
  have g: "go_div (MaximumTimeout c) 4 = MaximumTimeout c div 4"
    using assms by (simp add: rto_config_ok_def)
  have m1: "1 \<le> m" by (simp add: m_def)
  have e: "measuredTimeout c s = (if MaximumTimeout c \<le> SmoothedRTT s + m then MaximumTimeout c
      else max (MinimumTimeout c) (i64 (SmoothedRTT s + m)))"
    using False m1 by (auto simp: measuredTimeout_def Let_def i d g m_def [symmetric])
  show ?thesis
  proof (cases "MaximumTimeout c \<le> SmoothedRTT s + m")
    case True
    then show ?thesis unfolding m_def [symmetric] e by simp
  next
    case False
    then have "i64 (SmoothedRTT s + m) = SmoothedRTT s + m"
      using assms m1 by (intro i64_id in_i64_between) (auto simp: rto_config_ok_def)
    then show ?thesis using False assms unfolding m_def [symmetric] e
      by (auto simp: rto_config_ok_def)
  qed
qed

text \<open>One measurement in the exact arithmetic of RFC 6298.\<close>

lemma observeRTT_exact:
  assumes "rto_ok r" "0 \<le> R" "R \<le> max_i64"
  obtains s where "observeRTT R r = Some (r\<lparr>re_state := s\<rparr>)" "LatestRTT s = R"
    "SmoothedRTT s = (if Samples (re_state r) = 0 then R else (7 * SmoothedRTT (re_state r) + R) div 8)"
    "RTTVariation s = (if Samples (re_state r) = 0 then R div 2
       else (3 * RTTVariation (re_state r) + \<bar>SmoothedRTT (re_state r) - R\<bar>) div 4)"
    "BaseRTO s = (if rto_Mode (re_config r) = RTOAdaptive
       then min (MaximumTimeout (re_config r)) (max (MinimumTimeout (re_config r))
              (SmoothedRTT s + max 1 (4 * RTTVariation s)))
       else InitialTimeout (re_config r))"
    "CurrentRTO s = BaseRTO s"
    "0 \<le> SmoothedRTT s" "SmoothedRTT s \<le> max_i64" "0 \<le> RTTVariation s" "RTTVariation s \<le> max_i64"
proof -
  define S V where "S = SmoothedRTT (re_state r)" and "V = RTTVariation (re_state r)"
  define D where "D = \<bar>S - R\<bar>"
  have S: "0 \<le> S" "S \<le> max_i64" and V: "0 \<le> V" "V \<le> max_i64" and c: "rto_config_ok (re_config r)"
    using assms by (auto simp: rto_ok_def S_def V_def)
  have D: "0 \<le> D" "D \<le> max_i64" using S assms by (auto simp: D_def)
  have d: "i64 (S - R) = S - R" "i64 (- (S - R)) = R - S"
    using S assms in_i64_diff [of S R] in_i64_diff [of R S] by (simp_all add: algebra_simps)
  have D': "(if S - R < 0 then i64 (- (S - R)) else S - R) = D"
    using d by (auto simp: D_def)
  have sm: "smoothDuration S R 8 = (7 * S + R) div 8" "smoothDuration V D 4 = (3 * V + D) div 4"
    using smoothDuration_exact(1) S V D assms by simp_all
  have b: "0 \<le> (7 * S + R) div 8" "(7 * S + R) div 8 \<le> max_i64" "0 \<le> (3 * V + D) div 4"
    "(3 * V + D) div 4 \<le> max_i64" "0 \<le> R div 2" "R div 2 \<le> max_i64"
    using S V D assms by linarith+
  define s1 where "s1 = smoothedState R (re_state r)"
  have s1: "SmoothedRTT s1 = (if Samples (re_state r) = 0 then R else (7 * S + R) div 8)"
    "RTTVariation s1 = (if Samples (re_state r) = 0 then R div 2 else (3 * V + D) div 4)"
    using assms(2) unfolding s1_def smoothedState_def Let_def S_def [symmetric] V_def [symmetric] d(1) D' sm
    by simp_all
  define s2 where "s2 = s1\<lparr>LatestRTT := R, Samples := u64 (Samples s1 + 1)\<rparr>"
  define base where "base = (if rto_Mode (re_config r) = RTOAdaptive
      then measuredTimeout (re_config r) s2 else InitialTimeout (re_config r))"
  define s4 where "s4 = s2\<lparr>BaseRTO := base, CurrentRTO := base\<rparr>"
  have e: "observeRTT R r = Some (r\<lparr>re_state := s4\<rparr>)"
    using assms(2) by (simp only: observeRTT_def Let_def s4_def base_def s2_def s1_def if_False not_less [symmetric])
  have v: "0 \<le> SmoothedRTT s2" "SmoothedRTT s2 \<le> max_i64" "0 \<le> RTTVariation s2" "RTTVariation s2 \<le> max_i64"
    using b assms by (auto simp: s2_def s1)
  have s4: "SmoothedRTT s4 = SmoothedRTT s2" "RTTVariation s4 = RTTVariation s2" "BaseRTO s4 = base"
    "CurrentRTO s4 = base" "LatestRTT s4 = R" "SmoothedRTT s2 = SmoothedRTT s1" "RTTVariation s2 = RTTVariation s1"
    by (simp_all add: s4_def s2_def)
  have base: "base = (if rto_Mode (re_config r) = RTOAdaptive
       then min (MaximumTimeout (re_config r)) (max (MinimumTimeout (re_config r))
              (SmoothedRTT s4 + max 1 (4 * RTTVariation s4)))
       else InitialTimeout (re_config r))"
    unfolding base_def s4 using measuredTimeout_exact [OF c v(1-3)] s4 by simp
  show thesis
    by (rule that [of s4, OF e]) (use v base in \<open>simp_all add: s4 s1 S_def V_def D_def\<close>)
qed

lemma observeRTT_ok:
  assumes "rto_ok r" "R \<le> max_i64" "observeRTT R r = Some r'"
  shows "rto_ok r'" "re_config r' = re_config r"
proof -
  have R: "0 \<le> R" using assms(3) by (auto simp: observeRTT_def split: if_splits)
  obtain s where s: "observeRTT R r = Some (r\<lparr>re_state := s\<rparr>)"
    "BaseRTO s = (if rto_Mode (re_config r) = RTOAdaptive
       then min (MaximumTimeout (re_config r)) (max (MinimumTimeout (re_config r))
              (SmoothedRTT s + max 1 (4 * RTTVariation s)))
       else InitialTimeout (re_config r))"
    "CurrentRTO s = BaseRTO s"
    "0 \<le> SmoothedRTT s" "SmoothedRTT s \<le> max_i64" "0 \<le> RTTVariation s" "RTTVariation s \<le> max_i64"
    using observeRTT_exact [OF assms(1) R assms(2)] by metis
  then show "rto_ok r'" "re_config r' = re_config r"
    using assms(1,3) by (auto simp: rto_ok_def rto_config_ok_def)
qed

lemma backOff_exact:
  assumes "rto_ok r"
  shows "backOff r = (if ExponentialBackoff (re_config r)
    then r\<lparr>re_state := (re_state r)\<lparr>CurrentRTO :=
           min (MaximumTimeout (re_config r)) (2 * CurrentRTO (re_state r))\<rparr>\<rparr>
    else r)"
proof -
  have i: "i64 (MaximumTimeout (re_config r) - CurrentRTO (re_state r)) =
      MaximumTimeout (re_config r) - CurrentRTO (re_state r)"
    using assms by (intro i64_id in_i64_diff) (auto simp: rto_ok_def rto_config_ok_def)
  have j: "2 * CurrentRTO (re_state r) < MaximumTimeout (re_config r) \<Longrightarrow>
      i64 (CurrentRTO (re_state r) * 2) = 2 * CurrentRTO (re_state r)"
    using assms by (subst i64_id) (auto intro!: in_i64_between simp: rto_ok_def rto_config_ok_def)
  show ?thesis by (auto simp: backOff_def Let_def i j min_def)
qed

lemma backOff_ok: "rto_ok r \<Longrightarrow> rto_ok (backOff r)" "rto_ok r \<Longrightarrow> re_config (backOff r) = re_config r"
  by (auto simp: backOff_exact) (auto simp: rto_ok_def rto_config_ok_def)

lemma afterSYNRetry_ok: "rto_ok r \<Longrightarrow> rto_ok (afterSYNRetry r)"
  "re_config (afterSYNRetry r) = re_config r"
  by (auto simp: afterSYNRetry_def rto_ok_def rto_config_ok_def Let_def)

lemma newRTOEstimator_ok:
  assumes "newRTOEstimator c = Some r" "MaximumTimeout c \<le> max_i64"
  shows "rto_ok r" "re_config r = c"
  using assms by (auto simp: newRTOEstimator_def rto_ok_def rto_config_ok_def max_i64_def Let_def split: if_splits)

lemma rto_reach_ok: "rto_reach c r \<Longrightarrow> MaximumTimeout c \<le> max_i64 \<Longrightarrow> rto_ok r \<and> re_config r = c"
  by (induction rule: rto_reach.induct)
    (auto dest: newRTOEstimator_ok observeRTT_ok simp: backOff_ok afterSYNRetry_ok)

section \<open>What the estimator promises\<close>

text \<open>C19: However measurements, timeouts and repeated SYNs follow one another, the timeout in use
  is never below the measured (or configured) base, and both stay within the configured limits.\<close>
theorem rto_within_limits:
  assumes "MaximumTimeout c \<le> max_i64" "rto_reach c r"
  shows "0 < MinimumTimeout c \<and> MinimumTimeout c \<le> BaseRTO (re_state r) \<and>
    BaseRTO (re_state r) \<le> CurrentRTO (re_state r) \<and> CurrentRTO (re_state r) \<le> MaximumTimeout c"
  using rto_reach_ok [OF assms(2,1)] by (auto simp: rto_ok_def rto_config_ok_def)

definition demo_rto :: rto_estimator where
  "demo_rto = \<lparr>re_config = DefaultRTOConfig, re_state = \<lparr>LatestRTT = 0, SmoothedRTT = 0, RTTVariation = 0,
     BaseRTO = 1000000000, CurrentRTO = 1000000000, Samples = 0\<rparr>\<rparr>"

lemma demo_rto_reach: "rto_reach DefaultRTOConfig demo_rto"
  by (rule rto_reach.new) (simp add: newRTOEstimator_def DefaultRTOConfig_def demo_rto_def ms_def)

theorem rto_within_limits_witness:
  "CurrentRTO (re_state (backOff (afterSYNRetry demo_rto))) \<le> 60000000000"
  using rto_within_limits [of DefaultRTOConfig "backOff (afterSYNRetry demo_rto)"] demo_rto_reach
  by (simp add: rto_reach.intros DefaultRTOConfig_def max_i64_def ms_def)

text \<open>C20: A round-trip measurement is applied exactly as RFC 6298 prescribes, in unbounded
  arithmetic rounded down to a nanosecond: the first sample sets the mean and half of it as
  variation, later ones move the mean by an eighth and the variation by a quarter, the adaptive
  base is the clamped sum of the mean and the margin, and a previous backoff is removed.\<close>
theorem rto_follows_rfc6298:
  assumes "MaximumTimeout c \<le> max_i64" "rto_reach c r" "0 \<le> R" "R \<le> max_i64"
  shows "\<exists>s. observeRTT R r = Some (r\<lparr>re_state := s\<rparr>) \<and>
    SmoothedRTT s = (if Samples (re_state r) = 0 then R else (7 * SmoothedRTT (re_state r) + R) div 8) \<and>
    RTTVariation s = (if Samples (re_state r) = 0 then R div 2
       else (3 * RTTVariation (re_state r) + \<bar>SmoothedRTT (re_state r) - R\<bar>) div 4) \<and>
    BaseRTO s = (if rto_Mode c = RTOAdaptive
       then min (MaximumTimeout c) (max (MinimumTimeout c) (SmoothedRTT s + max 1 (4 * RTTVariation s)))
       else InitialTimeout c) \<and>
    CurrentRTO s = BaseRTO s"
proof -
  from rto_reach_ok [OF assms(2,1)] have r: "rto_ok r" "re_config r = c" by simp_all
  show ?thesis by (rule observeRTT_exact [OF r(1) assms(3,4)]) (use r(2) in blast)
qed

theorem rto_follows_rfc6298_witness:
  "\<exists>s. observeRTT 400000000 demo_rto = Some (demo_rto\<lparr>re_state := s\<rparr>) \<and> CurrentRTO s = 1200000000"
  using rto_follows_rfc6298 [of DefaultRTOConfig demo_rto 400000000] demo_rto_reach
  by (auto simp: DefaultRTOConfig_def max_i64_def ms_def demo_rto_def)

text \<open>C21: \<open>n\<close> timeouts in a row multiply the timeout by \<open>2 ^ n\<close>, saturating at the configured maximum.\<close>
theorem rto_backoff_doubles:
  assumes "MaximumTimeout c \<le> max_i64" "rto_reach c r" "ExponentialBackoff c"
  shows "CurrentRTO (re_state ((backOff ^^ n) r)) =
    min (MaximumTimeout c) (2 ^ n * CurrentRTO (re_state r))"
proof -
  have "rto_reach c ((backOff ^^ n) r) \<and> CurrentRTO (re_state ((backOff ^^ n) r)) =
    min (MaximumTimeout c) (2 ^ n * CurrentRTO (re_state r))"
  proof (induction n)
    case 0
    then show ?case using assms rto_reach_ok [OF assms(2,1)] by (auto simp: rto_ok_def min_def)
  next
    case (Suc n)
    then have r: "rto_reach c ((backOff ^^ n) r)" by simp
    then have "rto_ok ((backOff ^^ n) r)" "re_config ((backOff ^^ n) r) = c"
      using rto_reach_ok [OF _ assms(1)] by auto
    moreover have "min M (2 * min M x) = min M (2 * x)" if "0 < M" for M x :: int
      using that by (auto simp: min_def)
    ultimately show ?case using Suc assms(3) rto_reach.backed_off [OF r]
      by (simp add: backOff_exact rto_ok_def rto_config_ok_def mult.assoc)
  qed
  then show ?thesis ..
qed

theorem rto_backoff_doubles_witness:
  "CurrentRTO (re_state ((backOff ^^ 3) demo_rto)) = 8000000000 \<and>
   CurrentRTO (re_state ((backOff ^^ 7) demo_rto)) = 60000000000"
  using rto_backoff_doubles [of DefaultRTOConfig demo_rto 3] rto_backoff_doubles [of DefaultRTOConfig demo_rto 7]
    demo_rto_reach
  by (simp add: DefaultRTOConfig_def max_i64_def ms_def demo_rto_def)

end
