(* ===== verification/Congestion.thy ===== *)
theory Congestion
  imports Packet
begin

text \<open>
  The window-based congestion policies of \<open>protocols/tcp/congestion_control\<close>: the classic
  slow-start and congestion-avoidance rules (\<open>window.go\<close>) and the Reno, NewReno and Tahoe
  policies that embed them.  Go's embedding of \<open>classicWindow\<close> is a record extension here, so
  the embedded operations act on every policy that carries the fields.

  Windows are \<open>uint64\<close> byte counts; additions that could leave the range go through
  \<open>addCongestionBytes\<close>, which saturates, and multiples of the segment size stay far below it
  because a valid segment has at most 65495 bytes.
\<close>

section \<open>What the transport reports\<close>

datatype phase = Disabled | SlowStart | CongestionAvoidance | FastRecovery

record policy_state =
  WindowBytes :: nat
  ThresholdBytes :: nat
  Phase :: phase
  LimitsNewData :: bool
  NextSendAt :: duration

record ack_info =
  ack_At :: duration
  NewBytes :: nat
  CumulativeACK :: nat
  ack_FlightBytes :: nat
  ack_SmoothedRTT :: duration
  ack_ECN :: bool
  ack_SACKRecovery :: bool
  EndSACKRecovery :: bool

record ack_response =
  RetransmitOldest :: bool
  PreserveRetransmitTimer :: bool

definition no_response :: ack_response where
  "no_response = \<lparr>RetransmitOldest = False, PreserveRetransmitTimer = False\<rparr>"

record sender_info =
  si_At :: duration
  ReadyAt :: duration
  HasData :: bool
  si_FlightBytes :: nat
  si_ReceiveWindowBytes :: nat

datatype loss_kind = FastRetransmitLoss | TimeoutLoss | HandshakeLoss

record loss_info =
  loss_At :: duration
  loss_kind :: loss_kind
  loss_FlightBytes :: nat
  loss_CumulativeACK :: nat
  NextSendSeq :: nat
  PendingSegments :: int
  AlreadyTimedOut :: bool
  AlreadyReduced :: bool
  loss_SACKRecovery :: bool

record loss_response =
  SuppressFastRetransmit :: bool

definition no_loss_response :: loss_response where
  "no_loss_response = \<lparr>SuppressFastRetransmit = False\<rparr>"

record ecn_info =
  ecn_At :: duration
  ecn_FlightBytes :: nat

section \<open>The classic window\<close>

record classic_window =
  mssBytes :: nat
  startupWindowBytes :: nat
  cwnd :: nat
  maximumWindowBytes :: nat
  ssthresh :: nat
  avoidanceAcknowledgedBytes :: nat

definition newClassicWindow :: "congestion_config \<Rightarrow> int \<Rightarrow> classic_window" where
  "newClassicWindow c mss =
     (let segmentBytes = nat mss;
          maximum = (if 0 < cc_MaximumWindowSegments c
                     then u64 (nat (cc_MaximumWindowSegments c) * segmentBytes)
                     else MaxCongestionWindowBytes);
          initial = min (u64 (nat (cc_InitialWindowSegments c) * segmentBytes)) maximum
      in \<lparr>mssBytes = segmentBytes, startupWindowBytes = initial, cwnd = initial,
          maximumWindowBytes = maximum, ssthresh = cc_InitialSlowStartThresholdBytes c,
          avoidanceAcknowledgedBytes = 0\<rparr>)"

definition addCongestionBytes :: "nat \<Rightarrow> nat \<Rightarrow> nat" where
  "addCongestionBytes current increase =
     (if u64_sub MaxCongestionWindowBytes current \<le> increase then MaxCongestionWindowBytes
      else u64 (current + increase))"

definition window_ceiling :: "'a classic_window_scheme \<Rightarrow> nat" where
  "window_ceiling w = (if maximumWindowBytes w = 0 then MaxCongestionWindowBytes else maximumWindowBytes w)"

definition setWindowBytes :: "nat \<Rightarrow> 'a classic_window_scheme \<Rightarrow> 'a classic_window_scheme" where
  "setWindowBytes bytes w = w\<lparr>cwnd := min bytes (window_ceiling w)\<rparr>"

definition classic_OnACK :: "ack_info \<Rightarrow> 'a classic_window_scheme \<Rightarrow> 'a classic_window_scheme \<times> ack_response" where
  "classic_OnACK ack w =
     (if ack_ECN ack then (w, no_response)
      else if cwnd w < ssthresh w then
        let increase = min (NewBytes ack) (mssBytes w)
        in (setWindowBytes (addCongestionBytes (cwnd w) increase) w, no_response)
      else
        let w = w\<lparr>avoidanceAcknowledgedBytes := addCongestionBytes (avoidanceAcknowledgedBytes w) (NewBytes ack)\<rparr>
        in if cwnd w \<le> avoidanceAcknowledgedBytes w
           then let w = w\<lparr>avoidanceAcknowledgedBytes := avoidanceAcknowledgedBytes w - cwnd w\<rparr>
                in (setWindowBytes (addCongestionBytes (cwnd w) (mssBytes w)) w, no_response)
           else (w, no_response))"

definition halvedFlight :: "nat \<Rightarrow> 'a classic_window_scheme \<Rightarrow> nat" where
  "halvedFlight flight w = max (flight div 2) (2 * mssBytes w)"

definition classic_OnECN :: "ecn_info \<Rightarrow> 'a classic_window_scheme \<Rightarrow> 'a classic_window_scheme" where
  "classic_OnECN ecn w =
     (let w = w\<lparr>ssthresh := halvedFlight (ecn_FlightBytes ecn) w\<rparr>;
          w = setWindowBytes (max (cwnd w div 2) (mssBytes w)) w
      in w\<lparr>avoidanceAcknowledgedBytes := 0\<rparr>)"

definition restartAfterLoss :: "nat \<Rightarrow> bool \<Rightarrow> 'a classic_window_scheme \<Rightarrow> 'a classic_window_scheme" where
  "restartAfterLoss flight alreadyTimedOut w =
     (let w = (if \<not> alreadyTimedOut then w\<lparr>ssthresh := halvedFlight flight w\<rparr> else w);
          w = setWindowBytes (mssBytes w) w
      in w\<lparr>avoidanceAcknowledgedBytes := 0\<rparr>)"

definition restartAfterHandshakeLoss :: "'a classic_window_scheme \<Rightarrow> 'a classic_window_scheme" where
  "restartAfterHandshakeLoss w =
     (let w = w\<lparr>startupWindowBytes := mssBytes w\<rparr>;
          w = setWindowBytes (mssBytes w) w
      in w\<lparr>avoidanceAcknowledgedBytes := 0\<rparr>)"

definition classic_OnIdle :: "'a classic_window_scheme \<Rightarrow> 'a classic_window_scheme" where
  "classic_OnIdle w =
     (setWindowBytes (min (cwnd w) (startupWindowBytes w)) w)\<lparr>avoidanceAcknowledgedBytes := 0\<rparr>"

definition classic_State :: "'a classic_window_scheme \<Rightarrow> policy_state" where
  "classic_State w =
     \<lparr>WindowBytes = cwnd w, ThresholdBytes = ssthresh w,
      Phase = (if cwnd w < ssthresh w then SlowStart else CongestionAvoidance),
      LimitsNewData = True, NextSendAt = 0\<rparr>"

section \<open>Reno\<close>

record reno_policy = classic_window +
  rn_active :: bool
  rn_remainingInflations :: nat
  rn_recoveryWindowBytes :: nat

definition reno_StopRecovery :: "reno_policy \<Rightarrow> reno_policy" where
  "reno_StopRecovery p = p\<lparr>rn_active := False, rn_remainingInflations := 0\<rparr>"

definition reno_OnACK :: "ack_info \<Rightarrow> reno_policy \<Rightarrow> reno_policy \<times> ack_response" where
  "reno_OnACK ack p =
     (if rn_active p then
        if ack_SACKRecovery ack \<and> \<not> EndSACKRecovery ack then (p, no_response)
        else
          let p = reno_StopRecovery p; p = setWindowBytes (rn_recoveryWindowBytes p) p
          in (p\<lparr>avoidanceAcknowledgedBytes := 0\<rparr>, no_response)
      else classic_OnACK ack p)"

definition reno_OnDuplicateACK :: "reno_policy \<Rightarrow> reno_policy" where
  "reno_OnDuplicateACK p =
     (if rn_active p \<and> 0 < rn_remainingInflations p then
        let p = p\<lparr>rn_remainingInflations := rn_remainingInflations p - 1\<rparr>
        in setWindowBytes (addCongestionBytes (cwnd p) (mssBytes p)) p
      else p)"

definition furtherInflations :: "loss_info \<Rightarrow> nat" where
  "furtherInflations loss = nat (max (PendingSegments loss - 3) 0)"

definition reno_OnLoss :: "loss_info \<Rightarrow> reno_policy \<Rightarrow> reno_policy \<times> loss_response" where
  "reno_OnLoss loss p =
     (case loss_kind loss of
        FastRetransmitLoss \<Rightarrow>
          let p = (if \<not> AlreadyReduced loss
                   then let p = p\<lparr>ssthresh := halvedFlight (loss_FlightBytes loss) p\<rparr>
                        in p\<lparr>rn_recoveryWindowBytes := ssthresh p\<rparr>
                   else p\<lparr>rn_recoveryWindowBytes := cwnd p\<rparr>);
              p = setWindowBytes (rn_recoveryWindowBytes p) p;
              p = p\<lparr>avoidanceAcknowledgedBytes := 0, rn_active := True, rn_remainingInflations := 0\<rparr>;
              p = (if \<not> loss_SACKRecovery loss
                   then let p = setWindowBytes (addCongestionBytes (rn_recoveryWindowBytes p) (3 * mssBytes p)) p
                        in p\<lparr>rn_remainingInflations := furtherInflations loss\<rparr>
                   else p)
          in (p, no_loss_response)
      | TimeoutLoss \<Rightarrow>
          let p = reno_StopRecovery p
          in (restartAfterLoss (loss_FlightBytes loss) (AlreadyTimedOut loss \<or> AlreadyReduced loss) p, no_loss_response)
      | HandshakeLoss \<Rightarrow> (restartAfterHandshakeLoss p, no_loss_response))"

definition reno_OnECN :: "ecn_info \<Rightarrow> reno_policy \<Rightarrow> reno_policy" where
  "reno_OnECN ecn p =
     (let p = classic_OnECN ecn p
      in if rn_active p then p\<lparr>rn_recoveryWindowBytes := cwnd p\<rparr> else p)"

definition reno_State :: "reno_policy \<Rightarrow> policy_state" where
  "reno_State p = (let s = classic_State p in if rn_active p then s\<lparr>Phase := FastRecovery\<rparr> else s)"

section \<open>NewReno\<close>

record newreno_policy = classic_window +
  nr_active :: bool
  recoveryEndSeq :: nat
  nr_remainingInflations :: nat
  partialACKSeen :: bool
  nr_recoveryWindowBytes :: nat

definition newNewRenoPolicy :: "congestion_config \<Rightarrow> int \<Rightarrow> newreno_policy" where
  "newNewRenoPolicy c mss = classic_window.extend (newClassicWindow c mss)
     (newreno_policy.fields False 1 0 False 0)"

definition newreno_StopRecovery :: "newreno_policy \<Rightarrow> newreno_policy" where
  "newreno_StopRecovery p = p\<lparr>nr_active := False, nr_remainingInflations := 0, partialACKSeen := False\<rparr>"

definition newreno_partialACK :: "ack_info \<Rightarrow> newreno_policy \<Rightarrow> newreno_policy \<times> ack_response" where
  "newreno_partialACK ack p =
     (let p = setWindowBytes (cwnd p - min (cwnd p) (NewBytes ack)) p;
          p = (if mssBytes p \<le> NewBytes ack
               then setWindowBytes (addCongestionBytes (cwnd p) (mssBytes p)) p else p);
          p = setWindowBytes (max (cwnd p) (mssBytes p)) p;
          response = \<lparr>RetransmitOldest = True, PreserveRetransmitTimer = partialACKSeen p\<rparr>
      in (p\<lparr>partialACKSeen := True\<rparr>, response))"

definition newreno_OnACK :: "ack_info \<Rightarrow> newreno_policy \<Rightarrow> newreno_policy \<times> ack_response" where
  "newreno_OnACK ack p =
     (if \<not> nr_active p then classic_OnACK ack p
      else if ack_SACKRecovery ack then
        if EndSACKRecovery ack then
          let p = newreno_StopRecovery p; p = setWindowBytes (nr_recoveryWindowBytes p) p
          in (p\<lparr>avoidanceAcknowledgedBytes := 0\<rparr>, no_response)
        else (p, no_response)
      else if recoveryEndSeq p \<le> CumulativeACK ack then
        let p = newreno_StopRecovery p;
            remainingFlight = max (ack_FlightBytes ack) (mssBytes p);
            flightWindow = addCongestionBytes remainingFlight (mssBytes p);
            p = setWindowBytes (min (nr_recoveryWindowBytes p) flightWindow) p
        in (p\<lparr>avoidanceAcknowledgedBytes := 0\<rparr>, no_response)
      else newreno_partialACK ack p)"

definition newreno_OnDuplicateACK :: "newreno_policy \<Rightarrow> newreno_policy" where
  "newreno_OnDuplicateACK p =
     (if nr_active p \<and> 0 < nr_remainingInflations p then
        let p = p\<lparr>nr_remainingInflations := nr_remainingInflations p - 1\<rparr>
        in setWindowBytes (addCongestionBytes (cwnd p) (mssBytes p)) p
      else p)"

definition newreno_fastLoss :: "loss_info \<Rightarrow> newreno_policy \<Rightarrow> newreno_policy \<times> loss_response" where
  "newreno_fastLoss loss p =
     (let oldNewRenoFlight = (\<not> loss_SACKRecovery loss \<and> \<not> AlreadyReduced loss \<and>
            loss_CumulativeACK loss \<le> recoveryEndSeq p)
      in if nr_active p \<or> oldNewRenoFlight then (p, \<lparr>SuppressFastRetransmit = True\<rparr>)
         else
           let p = p\<lparr>recoveryEndSeq := NextSendSeq loss\<rparr>;
               p = (if \<not> AlreadyReduced loss
                    then let p = p\<lparr>ssthresh := halvedFlight (loss_FlightBytes loss) p\<rparr>
                         in p\<lparr>nr_recoveryWindowBytes := ssthresh p\<rparr>
                    else p\<lparr>nr_recoveryWindowBytes := cwnd p\<rparr>);
               p = setWindowBytes (nr_recoveryWindowBytes p) p;
               p = p\<lparr>avoidanceAcknowledgedBytes := 0, nr_active := True, nr_remainingInflations := 0,
                     partialACKSeen := False\<rparr>;
               p = (if \<not> loss_SACKRecovery loss
                    then let p = setWindowBytes (addCongestionBytes (nr_recoveryWindowBytes p) (3 * mssBytes p)) p
                         in p\<lparr>nr_remainingInflations := furtherInflations loss\<rparr>
                    else p)
           in (p, no_loss_response))"

definition newreno_OnLoss :: "loss_info \<Rightarrow> newreno_policy \<Rightarrow> newreno_policy \<times> loss_response" where
  "newreno_OnLoss loss p =
     (case loss_kind loss of
        FastRetransmitLoss \<Rightarrow> newreno_fastLoss loss p
      | TimeoutLoss \<Rightarrow>
          let p = newreno_StopRecovery p; p = p\<lparr>recoveryEndSeq := NextSendSeq loss\<rparr>
          in (restartAfterLoss (loss_FlightBytes loss) (AlreadyTimedOut loss \<or> AlreadyReduced loss) p, no_loss_response)
      | HandshakeLoss \<Rightarrow> (restartAfterHandshakeLoss (newreno_StopRecovery p), no_loss_response))"

definition newreno_OnECN :: "ecn_info \<Rightarrow> newreno_policy \<Rightarrow> newreno_policy" where
  "newreno_OnECN ecn p =
     (let p = classic_OnECN ecn p
      in if nr_active p then p\<lparr>nr_recoveryWindowBytes := cwnd p\<rparr> else p)"

definition newreno_State :: "newreno_policy \<Rightarrow> policy_state" where
  "newreno_State p = (let s = classic_State p in if nr_active p then s\<lparr>Phase := FastRecovery\<rparr> else s)"

section \<open>Tahoe\<close>

definition tahoe_OnLoss :: "loss_info \<Rightarrow> classic_window \<Rightarrow> classic_window \<times> loss_response" where
  "tahoe_OnLoss loss p =
     (case loss_kind loss of
        FastRetransmitLoss \<Rightarrow>
          (if \<not> AlreadyReduced loss then restartAfterLoss (loss_FlightBytes loss) False p else p, no_loss_response)
      | TimeoutLoss \<Rightarrow>
          (restartAfterLoss (loss_FlightBytes loss) (AlreadyTimedOut loss \<or> AlreadyReduced loss) p, no_loss_response)
      | HandshakeLoss \<Rightarrow> (restartAfterHandshakeLoss p, no_loss_response))"

section \<open>The window's invariant\<close>

text \<open>
  One segment fits the window, the window fits its ceiling, and both restart windows and the
  threshold are at least as large as the rules need.
\<close>

definition window_ok :: "nat \<Rightarrow> nat \<Rightarrow> 'a classic_window_scheme \<Rightarrow> bool" where
  "window_ok mss ceil w \<longleftrightarrow> mssBytes w = mss \<and> maximumWindowBytes w = ceil \<and> 0 < mss \<and> mss \<le> 65495 \<and> mss \<le> ceil \<and>
     ceil \<le> MaxCongestionWindowBytes \<and> mss \<le> cwnd w \<and> cwnd w \<le> ceil \<and>
     mss \<le> startupWindowBytes w \<and> 2 * mss \<le> ssthresh w \<and>
     avoidanceAcknowledgedBytes w \<le> MaxCongestionWindowBytes"

lemma addCongestionBytes_exact:
  "a \<le> MaxCongestionWindowBytes \<Longrightarrow> addCongestionBytes a b = min MaxCongestionWindowBytes (a + b)"
  by (auto simp: addCongestionBytes_def min_def MaxCongestionWindowBytes_def max_u64_def)

lemmas window_defs = Let_def setWindowBytes_def window_ceiling_def window_ok_def halvedFlight_def
  addCongestionBytes_exact

lemma setWindowBytes_ok [inv_intros]:
  assumes "window_ok mss ceil w" "mss \<le> b"
  shows "window_ok mss ceil (setWindowBytes b w)"
  using assms by (auto simp: window_defs)

text \<open>Fields the window's invariant does not speak about.\<close>

lemma window_ok_frame [simp]:
  "window_ok mss ceil (p\<lparr>rn_active := a\<rparr>) = window_ok mss ceil p"
  "window_ok mss ceil (p\<lparr>rn_remainingInflations := n\<rparr>) = window_ok mss ceil p"
  "window_ok mss ceil (p\<lparr>rn_recoveryWindowBytes := n\<rparr>) = window_ok mss ceil p"
  "window_ok mss ceil (q\<lparr>nr_active := a\<rparr>) = window_ok mss ceil q"
  "window_ok mss ceil (q\<lparr>recoveryEndSeq := n\<rparr>) = window_ok mss ceil q"
  "window_ok mss ceil (q\<lparr>nr_remainingInflations := n\<rparr>) = window_ok mss ceil q"
  "window_ok mss ceil (q\<lparr>partialACKSeen := a\<rparr>) = window_ok mss ceil q"
  "window_ok mss ceil (q\<lparr>nr_recoveryWindowBytes := n\<rparr>) = window_ok mss ceil q"
  by (simp_all add: window_ok_def)

lemma window_ok_avoidance [simp]:
  "window_ok mss ceil w \<Longrightarrow> window_ok mss ceil (w\<lparr>avoidanceAcknowledgedBytes := 0\<rparr>)"
  "window_ok mss ceil w \<Longrightarrow> window_ok mss ceil (w\<lparr>ssthresh := halvedFlight f w\<rparr>)"
  by (simp_all add: window_ok_def halvedFlight_def)

lemma setWindowBytes_frame [simp]:
  "rn_active (setWindowBytes b p) = rn_active p"
  "rn_remainingInflations (setWindowBytes b p) = rn_remainingInflations p"
  "rn_recoveryWindowBytes (setWindowBytes b p) = rn_recoveryWindowBytes p"
  "nr_active (setWindowBytes b q) = nr_active q"
  "nr_recoveryWindowBytes (setWindowBytes b q) = nr_recoveryWindowBytes q"
  "partialACKSeen (setWindowBytes b q) = partialACKSeen q"
  "mssBytes (setWindowBytes b w) = mssBytes w"
  "ssthresh (setWindowBytes b w) = ssthresh w"
  by (simp_all add: setWindowBytes_def)

lemma window_okD:
  assumes "window_ok mss ceil w"
  shows "mssBytes w = mss" "0 < mss" "mss \<le> 65495" "mss \<le> cwnd w" "cwnd w \<le> MaxCongestionWindowBytes"
    "2 * mss \<le> ssthresh w" "mss \<le> startupWindowBytes w" "cwnd w \<le> ceil"
  using assms by (auto simp: window_ok_def)

text \<open>Growth by at least a segment leaves at least a segment.\<close>

lemma grown_ge:
  assumes "a \<le> MaxCongestionWindowBytes" "mss \<le> b" "mss \<le> 65495"
  shows "mss \<le> addCongestionBytes a b"
  using assms by (auto simp: addCongestionBytes_exact MaxCongestionWindowBytes_def)

lemma halvedFlight_bounds:
  assumes "window_ok mss ceil w"
  shows "2 * mss \<le> halvedFlight f w" "f \<le> max_u64 \<Longrightarrow> halvedFlight f w \<le> MaxCongestionWindowBytes"
  using window_okD [OF assms]
  by (auto simp: halvedFlight_def MaxCongestionWindowBytes_def max_u64_def)

lemma classic_ok [inv_intros]:
  assumes "window_ok mss ceil w"
  shows "window_ok mss ceil (fst (classic_OnACK ack w))"
    and "window_ok mss ceil (classic_OnECN ecn w)"
    and "window_ok mss ceil (restartAfterLoss flight again w)"
    and "window_ok mss ceil (restartAfterHandshakeLoss w)"
    and "window_ok mss ceil (classic_OnIdle w)"
proof -
  show "window_ok mss ceil (fst (classic_OnACK ack w))"
    using assms by (auto simp: classic_OnACK_def window_defs)
  show "window_ok mss ceil (classic_OnECN ecn w)"
    using assms by (auto simp: classic_OnECN_def window_defs)
  show "window_ok mss ceil (restartAfterLoss flight again w)"
    using assms by (auto simp: restartAfterLoss_def window_defs)
  show "window_ok mss ceil (restartAfterHandshakeLoss w)"
    using assms by (auto simp: restartAfterHandshakeLoss_def window_defs)
  show "window_ok mss ceil (classic_OnIdle w)"
    using assms by (auto simp: classic_OnIdle_def window_defs)
qed

definition reno_ok :: "nat \<Rightarrow> nat \<Rightarrow> reno_policy \<Rightarrow> bool" where
  "reno_ok mss ceil p \<longleftrightarrow> window_ok mss ceil p \<and> (rn_active p \<longrightarrow> mss \<le> rn_recoveryWindowBytes p)"

lemma classic_frame [frame_simps]:
  "rn_active (fst (classic_OnACK ack p)) = rn_active p"
  "rn_recoveryWindowBytes (fst (classic_OnACK ack p)) = rn_recoveryWindowBytes p"
  "rn_active (classic_OnECN ecn p) = rn_active p"
  "rn_active (restartAfterLoss flight again p) = rn_active p"
  "rn_active (restartAfterHandshakeLoss p) = rn_active p"
  "rn_recoveryWindowBytes (restartAfterHandshakeLoss p) = rn_recoveryWindowBytes p"
  "rn_active (classic_OnIdle p) = rn_active p"
  "rn_recoveryWindowBytes (classic_OnIdle p) = rn_recoveryWindowBytes p"
  "nr_active (fst (classic_OnACK ack q)) = nr_active q"
  "nr_recoveryWindowBytes (fst (classic_OnACK ack q)) = nr_recoveryWindowBytes q"
  "nr_active (classic_OnECN ecn q) = nr_active q"
  "nr_active (restartAfterLoss flight again q) = nr_active q"
  "nr_active (restartAfterHandshakeLoss q) = nr_active q"
  "nr_active (classic_OnIdle q) = nr_active q"
  "nr_recoveryWindowBytes (classic_OnIdle q) = nr_recoveryWindowBytes q"
  by (simp_all add: classic_OnACK_def classic_OnECN_def restartAfterLoss_def restartAfterHandshakeLoss_def
      classic_OnIdle_def Let_def setWindowBytes_def)

lemma reno_StopRecovery_ok: "window_ok mss ceil (reno_StopRecovery p) = window_ok mss ceil p"
  "\<not> rn_active (reno_StopRecovery p)"
  by (simp_all add: reno_StopRecovery_def window_ok_def)

lemma reno_ops_ok [inv_intros]:
  assumes "reno_ok mss ceil p" "loss_FlightBytes loss \<le> max_u64"
  shows "reno_ok mss ceil (fst (reno_OnACK ack p))"
    and "reno_ok mss ceil (reno_OnDuplicateACK p)"
    and "reno_ok mss ceil (fst (reno_OnLoss loss p))"
    and "reno_ok mss ceil (reno_OnECN ecn p)"
    and "reno_ok mss ceil (classic_OnIdle p)"
    and "reno_ok mss ceil (reno_StopRecovery p)"
proof -
  note w = assms(1) [unfolded reno_ok_def, THEN conjunct1]
  show "reno_ok mss ceil (fst (reno_OnACK ack p))"
    using assms classic_ok(1) [OF w]
    by (auto simp: reno_OnACK_def reno_ok_def frame_simps reno_StopRecovery_def Let_def setWindowBytes_ok)
  show "reno_ok mss ceil (reno_OnDuplicateACK p)"
    using assms by (auto simp: reno_OnDuplicateACK_def reno_ok_def window_defs)
  show "reno_ok mss ceil (reno_OnECN ecn p)"
    using assms classic_ok(2) [OF w]
    by (auto simp: reno_OnECN_def reno_ok_def Let_def frame_simps window_ok_def)
  show "reno_ok mss ceil (classic_OnIdle p)"
    using assms classic_ok(5) [OF w] by (simp add: reno_ok_def frame_simps)
  show "reno_ok mss ceil (reno_StopRecovery p)"
    using w by (simp add: reno_ok_def reno_StopRecovery_ok)
  show "reno_ok mss ceil (fst (reno_OnLoss loss p))"
  proof (cases "loss_kind loss")
    case FastRetransmitLoss
    let ?q = "if \<not> AlreadyReduced loss
      then p\<lparr>ssthresh := halvedFlight (loss_FlightBytes loss) p, rn_recoveryWindowBytes := halvedFlight (loss_FlightBytes loss) p\<rparr>
      else p\<lparr>rn_recoveryWindowBytes := cwnd p\<rparr>"
    have q: "window_ok mss ceil ?q" "mss \<le> rn_recoveryWindowBytes ?q"
      "rn_recoveryWindowBytes ?q \<le> MaxCongestionWindowBytes"
      using w window_okD [OF w] halvedFlight_bounds [OF w, of "loss_FlightBytes loss"] assms(2) by auto
    then show ?thesis using FastRetransmitLoss window_okD [OF q(1)]
      by (auto simp: reno_OnLoss_def reno_ok_def Let_def grown_ge intro!: setWindowBytes_ok window_ok_avoidance)
  next
    case TimeoutLoss
    then show ?thesis using classic_ok(3) [of mss ceil "reno_StopRecovery p"] w
      by (simp add: reno_OnLoss_def reno_ok_def Let_def frame_simps reno_StopRecovery_ok)
  next
    case HandshakeLoss
    then show ?thesis using assms classic_ok(4) [OF w]
      by (simp add: reno_OnLoss_def reno_ok_def frame_simps)
  qed
qed

definition newreno_ok :: "nat \<Rightarrow> nat \<Rightarrow> newreno_policy \<Rightarrow> bool" where
  "newreno_ok mss ceil p \<longleftrightarrow> window_ok mss ceil p \<and> (nr_active p \<longrightarrow> mss \<le> nr_recoveryWindowBytes p)"

lemma newreno_StopRecovery_ok: "window_ok mss ceil (newreno_StopRecovery p) = window_ok mss ceil p"
  "\<not> nr_active (newreno_StopRecovery p)"
  by (simp_all add: newreno_StopRecovery_def window_ok_def)

lemma newreno_partialACK_ok:
  assumes "newreno_ok mss ceil p"
  shows "newreno_ok mss ceil (fst (newreno_partialACK ack p))"
  using assms by (cases "mssBytes p \<le> NewBytes ack")
    (auto simp: newreno_partialACK_def newreno_ok_def window_defs)

lemma newreno_fastLoss_ok:
  assumes "newreno_ok mss ceil p" "loss_FlightBytes loss \<le> max_u64"
  shows "newreno_ok mss ceil (fst (newreno_fastLoss loss p))"
proof -
  note w = assms(1) [unfolded newreno_ok_def, THEN conjunct1]
  let ?p = "p\<lparr>recoveryEndSeq := NextSendSeq loss\<rparr>"
  let ?q = "if \<not> AlreadyReduced loss
      then ?p\<lparr>ssthresh := halvedFlight (loss_FlightBytes loss) ?p, nr_recoveryWindowBytes := halvedFlight (loss_FlightBytes loss) ?p\<rparr>
      else ?p\<lparr>nr_recoveryWindowBytes := cwnd ?p\<rparr>"
  have p: "window_ok mss ceil ?p" using w by simp
  have q: "window_ok mss ceil ?q" "mss \<le> nr_recoveryWindowBytes ?q"
      "nr_recoveryWindowBytes ?q \<le> MaxCongestionWindowBytes"
    using p window_okD [OF p] halvedFlight_bounds [OF p, of "loss_FlightBytes loss"] assms(2) by auto
  then show ?thesis using window_okD [OF q(1)] assms(1)
    by (auto simp: newreno_fastLoss_def newreno_ok_def Let_def grown_ge intro!: setWindowBytes_ok window_ok_avoidance)
qed

lemma newreno_ops_ok [inv_intros]:
  assumes "newreno_ok mss ceil p" "loss_FlightBytes loss \<le> max_u64"
    "ack_FlightBytes ack \<le> MaxCongestionWindowBytes"
  shows "newreno_ok mss ceil (fst (newreno_OnACK ack p))"
    and "newreno_ok mss ceil (newreno_OnDuplicateACK p)"
    and "newreno_ok mss ceil (fst (newreno_OnLoss loss p))"
    and "newreno_ok mss ceil (newreno_OnECN ecn p)"
    and "newreno_ok mss ceil (classic_OnIdle p)"
    and "newreno_ok mss ceil (newreno_StopRecovery p)"
proof -
  note w = assms(1) [unfolded newreno_ok_def, THEN conjunct1]
  show "newreno_ok mss ceil (fst (newreno_OnACK ack p))"
    using assms classic_ok(1) [OF w] newreno_partialACK_ok [OF assms(1), of ack] window_okD [OF w]
      grown_ge [of "max (ack_FlightBytes ack) mss" mss mss]
    by (auto simp: newreno_OnACK_def newreno_ok_def frame_simps newreno_StopRecovery_def Let_def setWindowBytes_ok)
  show "newreno_ok mss ceil (newreno_OnDuplicateACK p)"
    using assms by (auto simp: newreno_OnDuplicateACK_def newreno_ok_def window_defs)
  show "newreno_ok mss ceil (newreno_OnECN ecn p)"
    using assms classic_ok(2) [OF w]
    by (auto simp: newreno_OnECN_def newreno_ok_def Let_def frame_simps window_ok_def)
  show "newreno_ok mss ceil (classic_OnIdle p)"
    using assms classic_ok(5) [OF w] by (simp add: newreno_ok_def frame_simps)
  show "newreno_ok mss ceil (newreno_StopRecovery p)"
    using w by (simp add: newreno_ok_def newreno_StopRecovery_ok)
  show "newreno_ok mss ceil (fst (newreno_OnLoss loss p))"
  proof (cases "loss_kind loss")
    case FastRetransmitLoss
    then show ?thesis using newreno_fastLoss_ok [OF assms(1,2)] by (simp add: newreno_OnLoss_def)
  next
    case TimeoutLoss
    have "window_ok mss ceil ((newreno_StopRecovery p)\<lparr>recoveryEndSeq := NextSendSeq loss\<rparr>)"
      using w by (simp add: window_ok_def newreno_StopRecovery_def)
    from classic_ok(3) [OF this] TimeoutLoss show ?thesis
      by (simp add: newreno_OnLoss_def newreno_ok_def Let_def frame_simps newreno_StopRecovery_def)
  next
    case HandshakeLoss
    then show ?thesis using classic_ok(4) [of mss ceil "newreno_StopRecovery p"] w
      by (simp add: newreno_OnLoss_def newreno_ok_def frame_simps newreno_StopRecovery_ok)
  qed
qed

lemma tahoe_OnLoss_ok [inv_intros]:
  "window_ok mss ceil p \<Longrightarrow> window_ok mss ceil (fst (tahoe_OnLoss loss p))"
  by (auto simp: tahoe_OnLoss_def classic_ok split: loss_kind.splits)

end
