(* ===== verification/Cubic.thy ===== *)
theory Cubic
  imports Congestion Float64
begin

text \<open>
  The CUBIC policy (\<open>cubic.go\<close>, \<open>cubic_clock.go\<close>, \<open>cubic_math.go\<close>).  Windows in segments are
  floating-point numbers, computed here operation by operation with the rounding of \<open>Float64\<close>
  (no multiplication is fused with an addition).  The cube root \<open>math.Cbrt\<close> and the
  processor's conversion of a float outside the range of \<open>uint64\<close> are arguments.
\<close>

record float_env =
  Cbrt :: "f64 \<Rightarrow> f64"
  outside_u64 :: "f64 \<Rightarrow> nat"

text \<open>\<open>uint64(x)\<close> truncates towards zero.\<close>

fun u64_of_f64 :: "float_env \<Rightarrow> f64 \<Rightarrow> nat" where
  "u64_of_f64 env (Fin q) =
     (if - 1 < q \<and> q < 2 ^ 64 then nat \<lfloor>q\<rfloor> else outside_u64 env (Fin q))"
| "u64_of_f64 env x = outside_u64 env x"

text \<open>\<open>time.Duration.Seconds\<close>\<close>

definition duration_seconds :: "duration \<Rightarrow> f64" where
  "duration_seconds d =
     f64_add (f64_of_int (go_div d 1000000000))
       (f64_div (f64_of_int (go_mod d 1000000000)) (f64_of_int 1000000000))"

section \<open>The clock of usable time\<close>

record cubic_clock =
  limited :: bool
  pausedAt :: duration
  pausedUntil :: duration
  totalPaused :: duration

text \<open>The pause between the last observation and \<open>now\<close>.\<close>

definition current_pause :: "duration \<Rightarrow> cubic_clock \<Rightarrow> duration" where
  "current_pause now k =
     (if limited k then
        let end' = (if pausedUntil k \<noteq> 0 then min now (pausedUntil k) else now)
        in max (i64 (end' - pausedAt k)) 0
      else 0)"

definition activeAt :: "duration \<Rightarrow> cubic_clock \<Rightarrow> duration" where
  "activeAt now k =
     (let paused = i64 (totalPaused k + current_pause now k) in max (i64 (now - paused)) 0)"

definition clock_observe :: "sender_info \<Rightarrow> nat \<Rightarrow> cubic_clock \<Rightarrow> cubic_clock" where
  "clock_observe sender window k =
     (let k = k\<lparr>totalPaused := i64 (totalPaused k + current_pause (si_At sender) k)\<rparr>;
          hasSpareWindow = (si_FlightBytes sender < window);
          noData = (\<not> HasData sender);
          receiverLimited = (si_ReceiveWindowBytes sender < window);
          waitingForGap = (si_At sender < ReadyAt sender);
          k = k\<lparr>limited := hasSpareWindow \<and> (noData \<or> receiverLimited \<or> waitingForGap),
                pausedAt := si_At sender, pausedUntil := 0\<rparr>
      in if limited k \<and> waitingForGap \<and> \<not> noData \<and> \<not> receiverLimited
         then k\<lparr>pausedUntil := ReadyAt sender\<rparr> else k)"

section \<open>The policy\<close>

record cubic_policy = classic_window +
  clock :: cubic_clock
  windowSegments :: f64
  previousMaximumSegments :: f64
  priorWindowSegments :: f64
  fastConvergence :: bool
  hasCongestionEvent :: bool
  epochStarted :: bool
  epochActiveAt :: duration
  returnToMaximumSecs :: f64
  renoWindowSegments :: f64
  renoAlpha :: f64
  resetMaximumAtEpoch :: bool
  cb_active :: bool
  cb_remainingInflations :: nat
  cb_recoveryWindowBytes :: nat

definition cubicScale :: f64 where "cubicScale = f64_round (2 / 5)"

definition cubicAlpha :: f64 where "cubicAlpha = f64_round (9 / 17)"

definition cubicConvergence :: f64 where "cubicConvergence = f64_round (17 / 20)"

definition cubicRetainedBytes :: "nat \<Rightarrow> nat" where
  "cubicRetainedBytes bytes = (bytes div 10) * 7 + (bytes mod 10) * 7 div 10"

definition cubicLossThreshold :: "nat \<Rightarrow> nat \<Rightarrow> nat" where
  "cubicLossThreshold flight mss = max (cubicRetainedBytes flight) (2 * mss)"

definition segments_of :: "nat \<Rightarrow> nat \<Rightarrow> f64" where
  "segments_of bytes mss = f64_div (f64_of_int (int bytes)) (f64_of_int (int mss))"

definition newCubicPolicy :: "congestion_config \<Rightarrow> int \<Rightarrow> cubic_policy" where
  "newCubicPolicy c mss =
     (let w = newClassicWindow c mss; initialSegments = segments_of (cwnd w) (mssBytes w)
      in classic_window.extend w
           (cubic_policy.fields \<lparr>limited = False, pausedAt = 0, pausedUntil = 0, totalPaused = 0\<rparr>
              initialSegments (Fin 0) initialSegments (cc_CubicFastConvergence c) False False 0
              (Fin 0) (Fin 0) (Fin 0) True False 0 0))"

definition cubic_setWindowBytes :: "nat \<Rightarrow> cubic_policy \<Rightarrow> cubic_policy" where
  "cubic_setWindowBytes bytes p =
     (let p = setWindowBytes bytes p
      in p\<lparr>windowSegments := segments_of (cwnd p) (mssBytes p), avoidanceAcknowledgedBytes := 0\<rparr>)"

definition cubic_StopRecovery :: "cubic_policy \<Rightarrow> cubic_policy" where
  "cubic_StopRecovery p = p\<lparr>cb_active := False, cb_remainingInflations := 0\<rparr>"

definition curveWindow :: "f64 \<Rightarrow> cubic_policy \<Rightarrow> f64" where
  "curveWindow elapsed p =
     (let distance = f64_sub elapsed (returnToMaximumSecs p)
      in f64_add (f64_mul (f64_mul (f64_mul cubicScale distance) distance) distance)
           (previousMaximumSegments p))"

definition startEpoch :: "float_env \<Rightarrow> duration \<Rightarrow> cubic_policy \<Rightarrow> cubic_policy" where
  "startEpoch env now p =
     (let p = (if resetMaximumAtEpoch p
               then p\<lparr>previousMaximumSegments := windowSegments p, resetMaximumAtEpoch := False\<rparr> else p)
      in p\<lparr>epochStarted := True, epochActiveAt := activeAt now (clock p),
           returnToMaximumSecs :=
             Cbrt env (f64_div (f64_sub (previousMaximumSegments p) (windowSegments p)) cubicScale),
           renoWindowSegments := windowSegments p, renoAlpha := cubicAlpha\<rparr>)"

definition storeFractionalWindow :: "float_env \<Rightarrow> cubic_policy \<Rightarrow> cubic_policy" where
  "storeFractionalWindow env p =
     (let maximumBytes = window_ceiling p;
          maximum = segments_of maximumBytes (mssBytes p);
          p = p\<lparr>windowSegments := f64_max (Fin 1) (f64_min (windowSegments p) maximum)\<rparr>;
          bytes = f64_mul (windowSegments p) (f64_of_int (int (mssBytes p)))
      in if f64_le (f64_of_int (int maximumBytes)) bytes then p\<lparr>cwnd := maximumBytes\<rparr>
         else p\<lparr>cwnd := u64_of_f64 env bytes\<rparr>)"

definition reno_alpha_check :: "cubic_policy \<Rightarrow> cubic_policy" where
  "reno_alpha_check p =
     (if f64_le (priorWindowSegments p) (renoWindowSegments p) then p\<lparr>renoAlpha := Fin 1\<rparr> else p)"

definition reno_estimate :: "nat \<Rightarrow> cubic_policy \<Rightarrow> cubic_policy" where
  "reno_estimate newBytes p =
     (let p = reno_alpha_check p;
          segmentsACKed = segments_of newBytes (mssBytes p);
          p = p\<lparr>renoWindowSegments := f64_add (renoWindowSegments p)
                 (f64_div (f64_mul (renoAlpha p) segmentsACKed) (windowSegments p))\<rparr>
      in reno_alpha_check p)"

text \<open>The window after an ACK: the larger of the Reno estimate and the step towards the curve.\<close>

definition curve_step :: "f64 \<Rightarrow> duration \<Rightarrow> cubic_policy \<Rightarrow> f64" where
  "curve_step elapsed smoothedRTT p =
     (let window = windowSegments p; curveNow = curveWindow elapsed p
      in if f64_lt curveNow (renoWindowSegments p) then f64_max window (renoWindowSegments p)
         else
           let rtt = duration_seconds (max smoothedRTT 1);
               target = curveWindow (f64_add elapsed rtt) p;
               target = f64_max window (f64_min target (f64_mul (Fin (3 / 2)) window))
           in f64_add window (f64_div (f64_sub target window) window))"

definition growCongestionAvoidance :: "float_env \<Rightarrow> ack_info \<Rightarrow> cubic_policy \<Rightarrow> cubic_policy" where
  "growCongestionAvoidance env ack p =
     (let p = (if \<not> epochStarted p then startEpoch env (ack_At ack) p else p);
          elapsed = duration_seconds (i64 (activeAt (ack_At ack) (clock p) - epochActiveAt p));
          elapsed = f64_max elapsed (Fin 0);
          p = reno_estimate (NewBytes ack) p;
          p = p\<lparr>windowSegments := curve_step elapsed (ack_SmoothedRTT ack) p\<rparr>
      in storeFractionalWindow env p)"

definition cubic_OnACK :: "float_env \<Rightarrow> ack_info \<Rightarrow> cubic_policy \<Rightarrow> cubic_policy \<times> ack_response" where
  "cubic_OnACK env ack p =
     (if cb_active p then
        if ack_SACKRecovery ack \<and> \<not> EndSACKRecovery ack then (p, no_response)
        else
          let p = cubic_StopRecovery p
          in (cubic_setWindowBytes (cb_recoveryWindowBytes p) p, no_response)
      else if ack_ECN ack then (p, no_response)
      else if limited (clock p) then (p, no_response)
      else if cwnd p \<le> ssthresh p then
        let increase = min (NewBytes ack) (mssBytes p);
            p = cubic_setWindowBytes (addCongestionBytes (cwnd p) increase) p;
            p = (if \<not> hasCongestionEvent p then p\<lparr>priorWindowSegments := windowSegments p\<rparr> else p)
        in (p, no_response)
      else (growCongestionAvoidance env ack p, no_response))"

definition cubic_OnDuplicateACK :: "cubic_policy \<Rightarrow> cubic_policy" where
  "cubic_OnDuplicateACK p =
     (if cb_active p \<and> 0 < cb_remainingInflations p then
        let p = p\<lparr>cb_remainingInflations := cb_remainingInflations p - 1\<rparr>
        in cubic_setWindowBytes (addCongestionBytes (cwnd p) (mssBytes p)) p
      else p)"

definition rememberCongestionWindow :: "cubic_policy \<Rightarrow> cubic_policy" where
  "rememberCongestionWindow p =
     (let window = windowSegments p;
          maximum = (if fastConvergence p \<and> f64_lt window (previousMaximumSegments p)
                     then f64_mul window cubicConvergence else window)
      in p\<lparr>previousMaximumSegments := maximum, priorWindowSegments := window, hasCongestionEvent := True\<rparr>)"

text \<open>The reduction shared by fast losses and first timeouts.\<close>

definition cubic_reduce :: "nat \<Rightarrow> cubic_policy \<Rightarrow> cubic_policy" where
  "cubic_reduce flight p =
     (let p = rememberCongestionWindow p in p\<lparr>ssthresh := cubicLossThreshold flight (mssBytes p)\<rparr>)"

text \<open>Entry of fast recovery once the recovery window is chosen.\<close>

definition cubic_enterRecovery :: "loss_info \<Rightarrow> cubic_policy \<Rightarrow> cubic_policy" where
  "cubic_enterRecovery loss p =
     (let p = cubic_setWindowBytes (cb_recoveryWindowBytes p) p;
          p = p\<lparr>cb_active := True, cb_remainingInflations := 0\<rparr>;
          p = (if \<not> loss_SACKRecovery loss
               then let p = cubic_setWindowBytes (addCongestionBytes (cb_recoveryWindowBytes p) (3 * mssBytes p)) p
                    in p\<lparr>cb_remainingInflations := furtherInflations loss\<rparr>
               else p)
      in p\<lparr>epochStarted := False, resetMaximumAtEpoch := False\<rparr>)"

definition cubic_OnLoss :: "loss_info \<Rightarrow> cubic_policy \<Rightarrow> cubic_policy \<times> loss_response" where
  "cubic_OnLoss loss p =
     (case loss_kind loss of
        FastRetransmitLoss \<Rightarrow>
          let p = (if \<not> AlreadyReduced loss
                   then let p = cubic_reduce (loss_FlightBytes loss) p
                        in p\<lparr>cb_recoveryWindowBytes := ssthresh p\<rparr>
                   else p\<lparr>cb_recoveryWindowBytes := cwnd p\<rparr>)
          in (cubic_enterRecovery loss p, no_loss_response)
      | TimeoutLoss \<Rightarrow>
          let p = cubic_StopRecovery p;
              p = (if \<not> AlreadyTimedOut loss \<and> \<not> AlreadyReduced loss
                   then cubic_reduce (loss_FlightBytes loss) p else p);
              p = cubic_setWindowBytes (mssBytes p) p
          in (p\<lparr>epochStarted := False, resetMaximumAtEpoch := True\<rparr>, no_loss_response)
      | HandshakeLoss \<Rightarrow>
          let p = restartAfterHandshakeLoss p; p = cubic_setWindowBytes (cwnd p) p
          in (p\<lparr>epochStarted := False, resetMaximumAtEpoch := True\<rparr>, no_loss_response))"

definition cubic_OnECN :: "ecn_info \<Rightarrow> cubic_policy \<Rightarrow> cubic_policy" where
  "cubic_OnECN ecn p =
     (let p = cubic_reduce (ecn_FlightBytes ecn) p;
          p = cubic_setWindowBytes (max (cubicRetainedBytes (cwnd p)) (mssBytes p)) p;
          p = (if cb_active p then p\<lparr>cb_recoveryWindowBytes := cwnd p\<rparr> else p)
      in p\<lparr>epochStarted := False, resetMaximumAtEpoch := False\<rparr>)"

definition cubic_OnIdle :: "cubic_policy \<Rightarrow> cubic_policy" where
  "cubic_OnIdle p =
     (let p = classic_OnIdle p; p = cubic_setWindowBytes (cwnd p) p in p\<lparr>epochStarted := False\<rparr>)"

definition cubic_OnSenderState :: "sender_info \<Rightarrow> cubic_policy \<Rightarrow> cubic_policy" where
  "cubic_OnSenderState sender p = p\<lparr>clock := clock_observe sender (cwnd p) (clock p)\<rparr>"

definition cubic_State :: "cubic_policy \<Rightarrow> policy_state" where
  "cubic_State p =
     (let s = classic_State p;
          s = (if cwnd p \<le> ssthresh p then s\<lparr>Phase := SlowStart\<rparr> else s)
      in if cb_active p then s\<lparr>Phase := FastRecovery\<rparr> else s)"

section \<open>Integer arithmetic\<close>

text \<open>Seven tenths without an intermediate that could leave 64 bits.\<close>

lemma cubicRetainedBytes_exact: "cubicRetainedBytes b = 7 * b div 10"
proof -
  have "7 * b = 10 * (7 * (b div 10)) + 7 * (b mod 10)"
    using mult_div_mod_eq [of 10 b] by presburger
  then have "7 * b div 10 = 7 * (b div 10) + 7 * (b mod 10) div 10" by simp
  then show ?thesis by (simp add: cubicRetainedBytes_def mult.commute)
qed


section \<open>Floating-point facts\<close>

lemma small_int_exact: "\<bar>n\<bar> < 2 ^ 53 \<Longrightarrow> f64_of_int n = Fin (of_int n)"
  by (rule f64_of_int_exact)

lemma duration_seconds_finite:
  assumes "in_i64 d"
  obtains y where "duration_seconds d = Fin y" "\<bar>y\<bar> \<le> 2 ^ 60"
proof -
  define q r where "q = go_div d 1000000000" and "r = go_mod d 1000000000"
  have "\<bar>q\<bar> \<le> \<bar>d\<bar> div 1000000000"
    by (auto simp: q_def go_div_def abs_mult sgn_if)
  also have "\<dots> \<le> 9223372036854775808 div 1000000000"
    using assms by (intro zdiv_mono1) (auto simp: in_i64_def abs_le_iff)
  finally have q: "\<bar>q\<bar> < 2 ^ 35" by simp
  have "\<bar>r\<bar> = \<bar>d\<bar> mod 1000000000"
    by (cases "0 \<le> d") (auto simp: r_def go_mod_def go_div_def sgn_if minus_mult_div_eq_mod)
  then have r: "\<bar>r\<bar> < 1000000000" by simp
  have e: "f64_of_int q = Fin (of_int q)" "f64_of_int r = Fin (of_int r)"
    "f64_of_int 1000000000 = Fin (of_int 1000000000)"
    using q r by (simp_all add: small_int_exact)
  have "\<bar>of_int r\<bar> < (of_int 1000000000 :: rat)"
    using r by (metis of_int_abs of_int_less_iff)
  define t where "t = (of_int r / 1000000000 :: rat)"
  have s: "\<bar>t\<bar> < 1" using \<open>\<bar>of_int r\<bar> < (of_int 1000000000 :: rat)\<close> by (simp add: t_def)
  then have "\<bar>t\<bar> < 2 ^ 1000" by (rule order_less_trans) simp
  then obtain z where z: "f64_round t = Fin z" "\<bar>z\<bar> \<le> 2 * max \<bar>t\<bar> 1" by (rule f64_round_finite)
  have z2: "\<bar>z\<bar> \<le> 2" using z(2) s by (simp add: max_def split: if_splits)
  have qq: "\<bar>of_int q :: rat\<bar> < of_int (2 ^ 35)" using q by (metis of_int_abs of_int_less_iff)
  have sum: "\<bar>of_int q + z\<bar> \<le> 2 ^ 36" using z2 qq by (simp add: abs_le_iff abs_less_iff)
  then have "\<bar>of_int q + z\<bar> < 2 ^ 1000" by (rule order_le_less_trans) simp
  then obtain y where y: "f64_round (of_int q + z) = Fin y" "\<bar>y\<bar> \<le> 2 * max \<bar>of_int q + z\<bar> 1"
    by (rule f64_round_finite)
  have "\<bar>y\<bar> \<le> 2 ^ 60" using y(2) sum by (simp add: max_def split: if_splits)
  then show thesis using that [of y] y(1) e z(1) by (simp add: duration_seconds_def q_def r_def t_def)
qed

text \<open>A window of at least one segment, counted in segments.\<close>

lemma segments_of_window:
  assumes "0 < mss" "mss \<le> 65495" "mss \<le> b" "b \<le> MaxCongestionWindowBytes"
  obtains w where "segments_of b mss = Fin w" "1 \<le> w" "w \<le> 2 ^ 66"
proof -
  have m: "f64_of_int (int mss) = Fin (of_nat mss)"
    using assms by (simp add: small_int_exact)
  have mm: "1 \<le> (of_nat mss :: rat)" using assms(1) by (simp add: Suc_le_eq)
  have bb: "1 \<le> int b" "int b < 2 ^ 64" using assms by (auto simp: MaxCongestionWindowBytes_def)
  obtain a where a: "f64_of_int (int b) = Fin a" "1 \<le> a" "a < 2 ^ 1000"
    using f64_of_int_ge [OF bb] by metis
  have small: "(of_int (int b) :: rat) < 2 ^ 64" using bb(2)
    by (metis of_int_less_iff of_int_numeral of_int_power)
  have big: "(of_int (int b) :: rat) < 2 ^ 1000"
    using small by (rule order_less_trans) simp
  have le: "of_nat mss \<le> a"
    using f64_round_mono [of "of_nat mss" "of_int (int b)"] mm assms(3) big m a(1) by (simp add: f64_of_int_def)
  have "\<bar>of_int (int b) :: rat\<bar> < 2 ^ 1000" using big by simp
  then obtain y where "f64_round (of_int (int b)) = Fin y" "\<bar>y\<bar> \<le> 2 * max \<bar>of_int (int b)\<bar> 1"
    by (rule f64_round_finite)
  then have a65: "a \<le> 2 ^ 65" using a(1) small bb(1) by (simp add: f64_of_int_def max_def split: if_splits)
  define x where "x = a / of_nat mss"
  have x1: "1 \<le> x" using le mm by (simp add: x_def)
  have "x \<le> a" using mm a(2) by (simp add: x_def divide_le_eq)
  then have x65: "x \<le> 2 ^ 65" using a65 by simp
  then have "\<bar>x\<bar> < 2 ^ 1000" using x1 by (simp add: order_le_less_trans [of x])
  then obtain w where w: "f64_round x = Fin w" "\<bar>w\<bar> \<le> 2 * max \<bar>x\<bar> 1"
    by (rule f64_round_finite)
  have "w \<le> 2 ^ 66" using w(2) x1 x65 by (simp add: max_def split: if_splits)
  moreover have "1 \<le> w" using f64_round_fixed(1) [OF x1 _ w(1)] x65 by (simp add: order_le_less_trans [of x])
  moreover have "segments_of b mss = Fin w"
    using w(1) a(1) m assms(1) by (simp add: segments_of_def x_def)
  ultimately show thesis using that by blast
qed

lemma segments_of_nonneg:
  assumes "0 < mss" "mss \<le> 65495"
  shows "f64_nonneg (segments_of b mss)"
proof -
  have "f64_of_int (int mss) = Fin (of_nat mss)" using assms by (simp add: small_int_exact)
  moreover have "f64_nonneg (f64_of_int (int b))" by (simp add: f64_of_int_def f64_round_nonneg)
  ultimately show ?thesis using assms by (simp add: segments_of_def f64_nonneg_div)
qed

section \<open>The policy's invariant\<close>

definition cubic_ok :: "nat \<Rightarrow> nat \<Rightarrow> cubic_policy \<Rightarrow> bool" where
  "cubic_ok mss ceil p \<longleftrightarrow> window_ok mss ceil p \<and>
     (\<exists>w. windowSegments p = Fin w \<and> 1 \<le> w \<and> w \<le> 2 ^ 66) \<and>
     (\<exists>m. previousMaximumSegments p = Fin m) \<and>
     (epochStarted p \<longrightarrow> returnToMaximumSecs p \<noteq> NaN \<and> f64_nonneg (renoWindowSegments p) \<and>
        (\<exists>a. renoAlpha p = Fin a \<and> 0 < a)) \<and>
     (cb_active p \<longrightarrow> mss \<le> cb_recoveryWindowBytes p)"

lemma cubic_okD:
  assumes "cubic_ok mss ceil p"
  obtains w m where "window_ok mss ceil p" "windowSegments p = Fin w" "1 \<le> w" "w \<le> 2 ^ 66"
    "previousMaximumSegments p = Fin m" "cb_active p \<longrightarrow> mss \<le> cb_recoveryWindowBytes p"
  using assms by (auto simp: cubic_ok_def)

text \<open>Fields the window's invariant does not speak about.\<close>

lemma window_ok_cubic_frame [simp]:
  "window_ok mss ceil (p\<lparr>clock := k\<rparr>) = window_ok mss ceil p"
  "window_ok mss ceil (p\<lparr>windowSegments := x\<rparr>) = window_ok mss ceil p"
  "window_ok mss ceil (p\<lparr>previousMaximumSegments := x\<rparr>) = window_ok mss ceil p"
  "window_ok mss ceil (p\<lparr>priorWindowSegments := x\<rparr>) = window_ok mss ceil p"
  "window_ok mss ceil (p\<lparr>hasCongestionEvent := b\<rparr>) = window_ok mss ceil p"
  "window_ok mss ceil (p\<lparr>epochStarted := b\<rparr>) = window_ok mss ceil p"
  "window_ok mss ceil (p\<lparr>epochActiveAt := d\<rparr>) = window_ok mss ceil p"
  "window_ok mss ceil (p\<lparr>returnToMaximumSecs := x\<rparr>) = window_ok mss ceil p"
  "window_ok mss ceil (p\<lparr>renoWindowSegments := x\<rparr>) = window_ok mss ceil p"
  "window_ok mss ceil (p\<lparr>renoAlpha := x\<rparr>) = window_ok mss ceil p"
  "window_ok mss ceil (p\<lparr>resetMaximumAtEpoch := b\<rparr>) = window_ok mss ceil p"
  "window_ok mss ceil (p\<lparr>cb_active := b\<rparr>) = window_ok mss ceil p"
  "window_ok mss ceil (p\<lparr>cb_remainingInflations := n\<rparr>) = window_ok mss ceil p"
  "window_ok mss ceil (p\<lparr>cb_recoveryWindowBytes := n\<rparr>) = window_ok mss ceil p"
  by (simp_all add: window_ok_def)

lemma cubic_setWindowBytes_ok [inv_intros]:
  assumes "cubic_ok mss ceil p" "mss \<le> b"
  shows "cubic_ok mss ceil (cubic_setWindowBytes b p)"
proof -
  obtain w m where p: "window_ok mss ceil p" "previousMaximumSegments p = Fin m"
    using assms(1) by (rule cubic_okD)
  have s: "window_ok mss ceil (setWindowBytes b p)" by (rule setWindowBytes_ok [OF p(1) assms(2)])
  then obtain w where "segments_of (cwnd (setWindowBytes b p)) mss = Fin w" "1 \<le> w" "w \<le> 2 ^ 66"
    using segments_of_window [of mss "cwnd (setWindowBytes b p)"] window_okD [OF s] by metis
  then show ?thesis using assms(1) s window_okD(1) [OF p(1)]
    by (auto simp: cubic_ok_def cubic_setWindowBytes_def Let_def setWindowBytes_def window_ok_def)
qed

lemma cubic_setWindowBytes_frame [simp]:
  "cb_active (cubic_setWindowBytes b p) = cb_active p"
  "cb_recoveryWindowBytes (cubic_setWindowBytes b p) = cb_recoveryWindowBytes p"
  "mssBytes (cubic_setWindowBytes b p) = mssBytes p"
  "ssthresh (cubic_setWindowBytes b p) = ssthresh p"
  "epochStarted (cubic_setWindowBytes b p) = epochStarted p"
  by (simp_all add: cubic_setWindowBytes_def Let_def setWindowBytes_def)

lemma cubicConvergence_finite: "\<exists>c. cubicConvergence = Fin c \<and> \<bar>c\<bar> \<le> 2"
proof -
  have "\<bar>17 / 20 :: rat\<bar> < 2 ^ 1000" by simp
  then obtain y where "f64_round (17 / 20) = Fin y" "\<bar>y\<bar> \<le> 2 * max \<bar>17 / 20\<bar> 1"
    by (rule f64_round_finite)
  then show ?thesis by (simp add: cubicConvergence_def)
qed

lemma cubic_reduce_ok [inv_intros]:
  assumes "cubic_ok mss ceil p"
  shows "cubic_ok mss ceil (cubic_reduce flight p)"
proof -
  obtain w m where p: "window_ok mss ceil p" "windowSegments p = Fin w" "1 \<le> w" "w \<le> 2 ^ 66"
    using assms by (rule cubic_okD)
  obtain c where c: "cubicConvergence = Fin c" "\<bar>c\<bar> \<le> 2" using cubicConvergence_finite by blast
  have "\<bar>w * c\<bar> \<le> 2 ^ 66 * 2" using mult_mono [of w "2 ^ 66" "\<bar>c\<bar>" 2] p c by (simp add: abs_mult)
  then have "\<bar>w * c\<bar> < 2 ^ 1000" by (rule order_le_less_trans) simp
  then obtain y where "f64_mul (windowSegments p) cubicConvergence = Fin y"
    using f64_round_finite p(2) c(1) by (metis f64_mul.simps(1))
  then show ?thesis using assms p(2) window_okD [OF p(1)]
    by (auto simp: cubic_ok_def cubic_reduce_def rememberCongestionWindow_def Let_def window_ok_def
        cubicLossThreshold_def)
qed

lemma cubic_reduce_frame [simp]:
  "cb_active (cubic_reduce f p) = cb_active p" "cwnd (cubic_reduce f p) = cwnd p"
  "mssBytes (cubic_reduce f p) = mssBytes p"
  "ssthresh (cubic_reduce f p) = cubicLossThreshold f (mssBytes p)"
  by (simp_all add: cubic_reduce_def rememberCongestionWindow_def Let_def)


text \<open>The published byte window fits its limits whatever the fractional window was.\<close>

lemma clamp_segments:
  assumes "x \<noteq> NaN" "1 \<le> m"
  obtains w where "f64_max (Fin 1) (f64_min x (Fin m)) = Fin w" "1 \<le> w" "w \<le> m"
  using assms by (cases x) (fastforce split: if_splits)+

lemma whole_bytes:
  assumes "0 < mss" "mss \<le> 65495" "1 \<le> w" "w \<le> 2 ^ 66"
  obtains y where "f64_mul (Fin w) (f64_of_int (int mss)) = Fin y" "of_nat mss \<le> y" "y < 2 ^ 1000"
    "f64_round y = Fin y"
proof -
  have m: "f64_of_int (int mss) = Fin (of_nat mss)" using assms by (simp add: small_int_exact)
  have mm: "1 \<le> (of_nat mss :: rat)" using assms(1) by (simp add: Suc_le_eq)
  define x where "x = w * of_nat mss"
  have mx: "of_nat mss \<le> x" using assms(3) mm by (simp add: x_def mult_le_cancel_right1)
  have "(of_nat mss :: rat) \<le> of_nat 65495" using assms(2) by (simp only: of_nat_le_iff)
  then have "x \<le> 2 ^ 66 * 65495" unfolding x_def using assms mm by (intro mult_mono) simp_all
  then have x: "x < 2 ^ 999" by (rule order_le_less_trans) simp
  then have x': "x < 2 ^ 1000" by (rule order_less_trans) simp
  have x1: "1 \<le> x" using mx mm by simp
  obtain y where y: "f64_round x = Fin y" using f64_round_ge_1(1) [OF x1 x'] by blast
  have "f64_round (of_nat mss) = Fin (of_nat mss)" using m by (simp add: f64_of_int_def)
  then have "of_nat mss \<le> y" using f64_round_mono [OF mm mx x' _ y] by blast
  then show thesis using that [of y] f64_round_fixed [OF x1 x y] y m by (simp add: x_def)
qed

lemma storeFractionalWindow_ok:
  assumes "window_ok mss ceil p" "windowSegments p \<noteq> NaN"
  shows "window_ok mss ceil (storeFractionalWindow env p)"
    "\<exists>w. windowSegments (storeFractionalWindow env p) = Fin w \<and> 1 \<le> w \<and> w \<le> 2 ^ 66"
proof -
  note ok = window_okD [OF assms(1)]
  have ceil: "mss \<le> ceil" "ceil \<le> MaxCongestionWindowBytes" "window_ceiling p = ceil"
    using assms(1) by (auto simp: window_ok_def window_ceiling_def)
  obtain m where m: "segments_of ceil mss = Fin m" "1 \<le> m" "m \<le> 2 ^ 66"
    using segments_of_window [OF ok(2,3) ceil(1,2)] .
  obtain w where w: "f64_max (Fin 1) (f64_min (windowSegments p) (Fin m)) = Fin w" "1 \<le> w" "w \<le> m"
    using clamp_segments [OF assms(2) m(2)] .
  then have w66: "w \<le> 2 ^ 66" using m(3) by linarith
  obtain y where y: "f64_mul (Fin w) (f64_of_int (int mss)) = Fin y" "of_nat mss \<le> y" "y < 2 ^ 1000"
    "f64_round y = Fin y"
    using whole_bytes [OF ok(2,3) w(2) w66] .
  have c64: "1 \<le> int ceil" "int ceil < 2 ^ 64"
    using ok(2) ceil by (auto simp: MaxCongestionWindowBytes_def)
  obtain c where c: "f64_of_int (int ceil) = Fin c" using f64_of_int_ge [OF c64] by metis
  define b where "b = (if f64_le (Fin c) (Fin y) then ceil else u64_of_f64 env (Fin y))"
  have e: "storeFractionalWindow env p = p\<lparr>windowSegments := Fin w, cwnd := b\<rparr>"
    by (auto simp: storeFractionalWindow_def Let_def ceil(3) ok(1) m(1) w(1) y(1) c b_def simp del: f64_mul.simps f64_max.simps)
  show "\<exists>w. windowSegments (storeFractionalWindow env p) = Fin w \<and> 1 \<le> w \<and> w \<le> 2 ^ 66"
    using e w(2) w66 by simp
  have "mss \<le> b \<and> b \<le> ceil"
  proof (cases "c \<le> y")
    case True
    then show ?thesis using ceil by (auto simp: b_def f64_le_def)
  next
    case False
    have yc: "y \<le> of_nat ceil"
    proof (rule ccontr)
      assume "\<not> y \<le> of_nat ceil"
      then have "of_int (int ceil) \<le> y" by simp
      moreover have "1 \<le> (of_int (int ceil) :: rat)" using c64 by simp
      ultimately have "c \<le> y"
        using f64_round_mono [of "of_int (int ceil)" y c y] y(3,4) c by (simp add: f64_of_int_def)
      then show False using False by simp
    qed
    have "(of_nat ceil :: rat) < 2 ^ 64" using c64(2)
      by (metis of_int_less_iff of_int_numeral of_int_of_nat_eq of_int_power)
    then have "y < 2 ^ 64" using yc by linarith
    moreover have y0: "0 \<le> y" using y(2) by (rule order_trans [rotated]) simp
    ultimately have b: "b = nat \<lfloor>y\<rfloor>" using False by (simp add: b_def f64_le_def)
    have "int mss \<le> \<lfloor>y\<rfloor>" using y(2) by (simp add: le_floor_iff)
    moreover have "\<lfloor>y\<rfloor> \<le> int ceil" using floor_mono [OF yc] by simp
    ultimately show ?thesis using b by linarith
  qed
  then show "window_ok mss ceil (storeFractionalWindow env p)"
    using assms(1) ok(1) e by (auto simp: window_ok_def)
qed

text \<open>The curve's constants are positive numbers.\<close>

lemma fraction_pos:
  assumes "pow2 (- 52) \<le> x" "x < 1"
  shows "\<exists>y. f64_round x = Fin y \<and> 0 < y"
proof -
  define u where "u = pow2 (max (rat_log2 \<bar>x\<bar> - 52) (- 1074))"
  have x0: "0 < x" using assms(1) pow2_pos [of "- 52"] by linarith
  have "rat_log2 \<bar>x\<bar> \<le> 0" using assms x0 by (simp add: rat_log2_def)
  then have "u \<le> pow2 (- 52)" unfolding u_def by (intro pow2_mono) simp
  then have "u \<le> x" using assms(1) by linarith
  moreover have u: "0 < u" by (simp add: u_def)
  ultimately have "of_int 1 \<le> x / u" by simp
  then have "1 \<le> round_half_even (x / u)"
    using round_half_even_mono [of "of_int 1" "x / u"] round_half_even_int [of 1] by simp
  then have pos: "0 < of_int (round_half_even (x / u)) * u" using u by simp
  have "x < 2 ^ 1000" using assms(2) by (rule order_less_trans) simp
  then have "\<bar>x\<bar> < 2 ^ 1000" using x0 by simp
  then obtain y where y: "f64_round x = Fin y" by (rule f64_round_finite)
  then have "y = of_int (round_half_even (x / u)) * u"
    using x0 by (simp add: f64_round_def Let_def u_def split: if_splits)
  then show ?thesis using pos y by blast
qed

lemma cubicScale_pos: "\<exists>c. cubicScale = Fin c \<and> 0 < c"
  unfolding cubicScale_def by (rule fraction_pos) (simp_all add: pow2_def)

lemma cubicAlpha_pos: "\<exists>c. cubicAlpha = Fin c \<and> 0 < c"
  unfolding cubicAlpha_def by (rule fraction_pos) (simp_all add: pow2_def)

text \<open>The curve is a number wherever it is evaluated.\<close>

lemma curveWindow_number:
  assumes "returnToMaximumSecs p \<noteq> NaN" "previousMaximumSegments p = Fin m"
  shows "curveWindow (Fin t) p \<noteq> NaN"
proof -
  obtain c where c: "cubicScale = Fin c" "0 < c" using cubicScale_pos by blast
  have "f64_sub (Fin t) (returnToMaximumSecs p) \<noteq> NaN" using assms(1) by (rule f64_number_sub)
  from f64_number_cube [OF c(2) this] show ?thesis
    unfolding curveWindow_def Let_def c(1) assms(2) by (rule f64_number_add)
qed

lemma curve_step_number:
  assumes "returnToMaximumSecs p \<noteq> NaN" "previousMaximumSegments p = Fin m"
    "windowSegments p = Fin w" "1 \<le> w" "f64_nonneg (renoWindowSegments p)"
    "\<bar>t\<bar> \<le> 2 ^ 60" "rtt \<le> max_i64"
  shows "curve_step (Fin t) rtt p \<noteq> NaN"
proof -
  have reno: "renoWindowSegments p \<noteq> NaN" using assms(5) by auto
  have "in_i64 (max rtt 1)" using assms(7) by (intro in_i64_between) (simp_all add: max_i64_def)
  then obtain r where r: "duration_seconds (max rtt 1) = Fin r" "\<bar>r\<bar> \<le> 2 ^ 60"
    by (rule duration_seconds_finite)
  have "\<bar>t + r\<bar> \<le> 2 ^ 61" using assms(6) r(2) by (simp add: abs_le_iff)
  then have "\<bar>t + r\<bar> < 2 ^ 1000" by (rule order_le_less_trans) simp
  then obtain s where s: "f64_add (Fin t) (Fin r) = Fin s"
    using f64_round_finite [of "t + r"] by (metis f64_add.simps(1))
  define target where "target = f64_max (Fin w) (f64_min (curveWindow (Fin s) p) (f64_mul (Fin (3 / 2)) (Fin w)))"
  have tn: "target \<noteq> NaN"
    unfolding target_def by (intro f64_number_minmax curveWindow_number [OF assms(1,2)]) simp_all
  have "f64_div (f64_sub target (Fin w)) (Fin w) \<noteq> NaN"
    using assms(4) by (intro f64_number_div f64_number_sub tn) simp
  then have "f64_add (Fin w) (f64_div (f64_sub target (Fin w)) (Fin w)) \<noteq> NaN" by (rule f64_number_add)
  moreover have "f64_max (Fin w) (renoWindowSegments p) \<noteq> NaN" using reno by (intro f64_number_minmax) simp_all
  ultimately show ?thesis
    by (simp add: curve_step_def Let_def assms(3) r(1) s target_def del: f64_max.simps f64_add.simps f64_mul.simps)
qed

lemma reno_estimate_ok:
  assumes "f64_nonneg (renoWindowSegments p)" "renoAlpha p = Fin a" "0 < a" "windowSegments p = Fin w"
    "1 \<le> w" "0 < mssBytes p" "mssBytes p \<le> 65495"
  shows "f64_nonneg (renoWindowSegments (reno_estimate n p))" "\<exists>a. renoAlpha (reno_estimate n p) = Fin a \<and> 0 < a"
proof -
  have alpha: "\<exists>a. renoAlpha (reno_alpha_check q) = Fin a \<and> 0 < a" if "\<exists>a. renoAlpha q = Fin a \<and> 0 < a" for q
    using that by (simp add: reno_alpha_check_def)
  have frame: "renoWindowSegments (reno_alpha_check q) = renoWindowSegments q"
    "windowSegments (reno_alpha_check q) = windowSegments q" "mssBytes (reno_alpha_check q) = mssBytes q" for q
    by (simp_all add: reno_alpha_check_def)
  obtain b where b: "renoAlpha (reno_alpha_check p) = Fin b" "0 < b" using alpha [of p] assms by blast
  have "f64_nonneg (f64_add (renoWindowSegments p)
      (f64_div (f64_mul (Fin b) (segments_of n (mssBytes p))) (Fin w)))"
    using assms by (intro f64_nonneg_add f64_nonneg_div f64_nonneg_mul segments_of_nonneg b(2)) simp_all
  then show "f64_nonneg (renoWindowSegments (reno_estimate n p))"
    by (simp add: reno_estimate_def Let_def frame b(1) assms(4))
  show "\<exists>a. renoAlpha (reno_estimate n p) = Fin a \<and> 0 < a"
    unfolding reno_estimate_def Let_def by (rule alpha) (use b in simp)
qed


text \<open>The cube root of a number is a number, as \<open>math.Cbrt\<close> documents (only NaN gives NaN).\<close>

definition cbrt_ok :: "float_env \<Rightarrow> bool" where
  "cbrt_ok env \<longleftrightarrow> (\<forall>x. x \<noteq> NaN \<longrightarrow> Cbrt env x \<noteq> NaN)"

lemma startEpoch_ok:
  assumes "cubic_ok mss ceil p" "cbrt_ok env"
  shows "cubic_ok mss ceil (startEpoch env now p)" "epochStarted (startEpoch env now p)"
    "cb_active (startEpoch env now p) = cb_active p"
proof -
  obtain w m where p: "window_ok mss ceil p" "windowSegments p = Fin w" "1 \<le> w" "w \<le> 2 ^ 66"
    "previousMaximumSegments p = Fin m"
    using assms(1) by (rule cubic_okD)
  obtain c where c: "cubicScale = Fin c" "0 < c" using cubicScale_pos by blast
  have cb: "Cbrt env (f64_div (f64_sub (Fin z) (Fin w)) (Fin c)) \<noteq> NaN" for z
  proof -
    have "f64_sub (Fin z) (Fin w) \<noteq> NaN" by (rule f64_number_sub) simp
    then have "f64_div (f64_sub (Fin z) (Fin w)) (Fin c) \<noteq> NaN"
      using c(2) by (intro f64_number_div) simp_all
    then show ?thesis using assms(2) by (simp add: cbrt_ok_def)
  qed
  obtain a where a: "cubicAlpha = Fin a" "0 < a" using cubicAlpha_pos by blast
  show "epochStarted (startEpoch env now p)" "cb_active (startEpoch env now p) = cb_active p"
    by (simp_all add: startEpoch_def Let_def)
  show "cubic_ok mss ceil (startEpoch env now p)"
    using assms(1) p a cb by (auto simp: cubic_ok_def startEpoch_def Let_def c(1) window_ok_def)
qed

lemma reno_estimate_frame [frame_simps]:
  "window_ok mss ceil (reno_estimate n p) = window_ok mss ceil p"
  "windowSegments (reno_estimate n p) = windowSegments p"
  "previousMaximumSegments (reno_estimate n p) = previousMaximumSegments p"
  "returnToMaximumSecs (reno_estimate n p) = returnToMaximumSecs p"
  "epochStarted (reno_estimate n p) = epochStarted p"
  "cb_active (reno_estimate n p) = cb_active p"
  "cb_recoveryWindowBytes (reno_estimate n p) = cb_recoveryWindowBytes p"
  by (simp_all add: reno_estimate_def reno_alpha_check_def Let_def window_ok_def)

lemma storeFractionalWindow_frame [frame_simps]:
  "previousMaximumSegments (storeFractionalWindow env p) = previousMaximumSegments p"
  "returnToMaximumSecs (storeFractionalWindow env p) = returnToMaximumSecs p"
  "renoWindowSegments (storeFractionalWindow env p) = renoWindowSegments p"
  "renoAlpha (storeFractionalWindow env p) = renoAlpha p"
  "epochStarted (storeFractionalWindow env p) = epochStarted p"
  "cb_active (storeFractionalWindow env p) = cb_active p"
  "cb_recoveryWindowBytes (storeFractionalWindow env p) = cb_recoveryWindowBytes p"
  by (simp_all add: storeFractionalWindow_def Let_def)

lemma growCongestionAvoidance_ok:
  assumes "cubic_ok mss ceil p" "cbrt_ok env" "ack_SmoothedRTT ack \<le> max_i64"
  shows "cubic_ok mss ceil (growCongestionAvoidance env ack p)"
proof -
  define q where "q = (if \<not> epochStarted p then startEpoch env (ack_At ack) p else p)"
  have q: "cubic_ok mss ceil q" "epochStarted q"
    using assms(1) startEpoch_ok [OF assms(1,2)] by (auto simp: q_def)
  obtain w m where w: "window_ok mss ceil q" "windowSegments q = Fin w" "1 \<le> w" "w \<le> 2 ^ 66"
    "previousMaximumSegments q = Fin m"
    using q(1) by (rule cubic_okD)
  obtain a where a: "renoAlpha q = Fin a" "0 < a" "f64_nonneg (renoWindowSegments q)"
    "returnToMaximumSecs q \<noteq> NaN"
    using q by (auto simp: cubic_ok_def)
  note mss = window_okD [OF w(1)]
  obtain t where t: "duration_seconds (i64 (activeAt (ack_At ack) (clock q) - epochActiveAt q)) = Fin t" "\<bar>t\<bar> \<le> 2 ^ 60"
    using i64_range by (rule duration_seconds_finite)
  define t' where "t' = (if t < 0 then 0 else t)"
  have t': "f64_max (Fin t) (Fin 0) = Fin t'" "\<bar>t'\<bar> \<le> 2 ^ 60" using t(2) by (auto simp: t'_def)
  define r where "r = reno_estimate (NewBytes ack) q"
  have r: "f64_nonneg (renoWindowSegments r)" "\<exists>a. renoAlpha r = Fin a \<and> 0 < a"
    unfolding r_def using reno_estimate_ok [OF a(3,1,2) w(2,3)] mss by simp_all
  have rf: "window_ok mss ceil r" "windowSegments r = Fin w" "previousMaximumSegments r = Fin m"
    "returnToMaximumSecs r \<noteq> NaN" "epochStarted r" "cb_active r \<longrightarrow> mss \<le> cb_recoveryWindowBytes r"
    using w a q by (auto simp: r_def frame_simps cubic_ok_def)
  have step: "curve_step (Fin t') (ack_SmoothedRTT ack) r \<noteq> NaN"
    by (rule curve_step_number [OF rf(4,3,2) w(3) r(1) t'(2) assms(3)])
  define v where "v = r\<lparr>windowSegments := curve_step (Fin t') (ack_SmoothedRTT ack) r\<rparr>"
  have g: "growCongestionAvoidance env ack p = storeFractionalWindow env v"
    unfolding growCongestionAvoidance_def Let_def q_def [symmetric] t(1) t'(1) r_def [symmetric] v_def [symmetric] ..
  have "window_ok mss ceil v" "windowSegments v \<noteq> NaN" using rf(1) step by (simp_all add: v_def)
  from storeFractionalWindow_ok [OF this, of env] show ?thesis
    unfolding g cubic_ok_def frame_simps using rf r by (simp add: v_def)
qed

lemma cubic_ok_frame [simp]:
  "cubic_ok mss ceil (p\<lparr>priorWindowSegments := x\<rparr>) = cubic_ok mss ceil p"
  "cubic_ok mss ceil (p\<lparr>clock := k\<rparr>) = cubic_ok mss ceil p"
  "cubic_ok mss ceil (p\<lparr>cb_remainingInflations := n\<rparr>) = cubic_ok mss ceil p"
  "cubic_ok mss ceil (p\<lparr>resetMaximumAtEpoch := b\<rparr>) = cubic_ok mss ceil p"
  by (simp_all add: cubic_ok_def)

lemma cubic_ok_updates:
  "cubic_ok mss ceil p \<Longrightarrow> cubic_ok mss ceil (p\<lparr>epochStarted := False\<rparr>)"
  "cubic_ok mss ceil p \<Longrightarrow> cubic_ok mss ceil (p\<lparr>cb_active := False\<rparr>)"
  "cubic_ok mss ceil p \<Longrightarrow> mss \<le> n \<Longrightarrow> cubic_ok mss ceil (p\<lparr>cb_recoveryWindowBytes := n\<rparr>)"
  "cubic_ok mss ceil p \<Longrightarrow> mss \<le> cb_recoveryWindowBytes p \<Longrightarrow> cubic_ok mss ceil (p\<lparr>cb_active := b\<rparr>)"
  by (simp_all add: cubic_ok_def)

lemma cubic_ok_classic:
  assumes "cubic_ok mss ceil p"
  shows "cubic_ok mss ceil (restartAfterHandshakeLoss p)" "cubic_ok mss ceil (classic_OnIdle p)"
proof -
  have w: "window_ok mss ceil p" using assms by (simp add: cubic_ok_def)
  show "cubic_ok mss ceil (restartAfterHandshakeLoss p)"
    using assms classic_ok(4) [OF w]
    by (simp add: cubic_ok_def restartAfterHandshakeLoss_def Let_def setWindowBytes_def window_ceiling_def)
  show "cubic_ok mss ceil (classic_OnIdle p)"
    using assms classic_ok(5) [OF w] by (simp add: cubic_ok_def classic_OnIdle_def setWindowBytes_def)
qed

lemma cubicRetained_le: "cubicRetainedBytes b \<le> b"
  by (simp add: cubicRetainedBytes_exact)

lemma cubic_fast_ok:
  assumes "cubic_ok mss ceil p" "loss_FlightBytes loss \<le> max_u64" "loss_kind loss = FastRetransmitLoss"
  shows "cubic_ok mss ceil (fst (cubic_OnLoss loss p))"
proof -
  have w: "window_ok mss ceil p" using assms(1) by (simp add: cubic_ok_def)
  note mss = window_okD [OF w]
  define q where "q = (if \<not> AlreadyReduced loss
      then (cubic_reduce (loss_FlightBytes loss) p)\<lparr>cb_recoveryWindowBytes := cubicLossThreshold (loss_FlightBytes loss) mss\<rparr>
      else p\<lparr>cb_recoveryWindowBytes := cwnd p\<rparr>)"
  have th: "2 * mss \<le> cubicLossThreshold f mss" for f by (simp add: cubicLossThreshold_def)
  have rec: "mss \<le> cb_recoveryWindowBytes q"
    using mss th [of "loss_FlightBytes loss"] by (auto simp: q_def)
  have q: "cubic_ok mss ceil q"
    unfolding q_def using assms(1) cubic_reduce_ok [OF assms(1)] mss th [of "loss_FlightBytes loss"]
    by (auto intro!: cubic_ok_updates)
  have grow: "mss \<le> addCongestionBytes (cb_recoveryWindowBytes q) (3 * mss)"
  proof (cases "cb_recoveryWindowBytes q \<le> MaxCongestionWindowBytes")
    case True
    then show ?thesis using mss by (intro grown_ge) simp_all
  next
    case False
    have big: "cb_recoveryWindowBytes q \<le> max 12912720851596686131 (2 * mss)"
      using assms(2) mss(5) unfolding q_def
      by (auto simp: cubicLossThreshold_def cubicRetainedBytes_exact max_u64_def MaxCongestionWindowBytes_def)
    then show ?thesis using False mss
      by (auto simp: addCongestionBytes_def u64_sub_def u64_def MaxCongestionWindowBytes_def max_def split: if_splits)
  qed
  have "fst (cubic_OnLoss loss p) = cubic_enterRecovery loss q"
    using assms(3) mss(1) by (simp add: cubic_OnLoss_def Let_def q_def)
  moreover have "mssBytes q = mss" using mss by (simp add: q_def)
  ultimately show ?thesis using q rec grow
    by (auto simp: cubic_enterRecovery_def Let_def intro!: cubic_ok_updates cubic_setWindowBytes_ok)
qed

lemma cubic_ops_ok [inv_intros]:
  assumes "cubic_ok mss ceil p" "loss_FlightBytes loss \<le> max_u64" "cbrt_ok env"
    "ack_SmoothedRTT ack \<le> max_i64"
  shows "cubic_ok mss ceil (fst (cubic_OnACK env ack p))"
    and "cubic_ok mss ceil (cubic_OnDuplicateACK p)"
    and "cubic_ok mss ceil (fst (cubic_OnLoss loss p))"
    and "cubic_ok mss ceil (cubic_OnECN ecn p)"
    and "cubic_ok mss ceil (cubic_OnIdle p)"
    and "cubic_ok mss ceil (cubic_StopRecovery p)"
    and "cubic_ok mss ceil (cubic_OnSenderState sender p)"
proof -
  have w: "window_ok mss ceil p" using assms(1) by (simp add: cubic_ok_def)
  note mss = window_okD [OF w]
  have stop: "cubic_ok mss ceil (cubic_StopRecovery q)" if "cubic_ok mss ceil q" for q
    using that by (simp add: cubic_StopRecovery_def cubic_ok_updates)
  show "cubic_ok mss ceil (cubic_StopRecovery p)" using assms(1) by (rule stop)
  have up: "mss \<le> addCongestionBytes (cwnd p) i" for i
    using mss by (auto simp: addCongestionBytes_exact MaxCongestionWindowBytes_def)
  show "cubic_ok mss ceil (fst (cubic_OnACK env ack p))"
  proof (cases "cb_active p")
    case True
    then have "mss \<le> cb_recoveryWindowBytes p" using assms(1) by (simp add: cubic_ok_def)
    then show ?thesis using True assms(1) stop [OF assms(1)]
      by (auto simp: cubic_OnACK_def Let_def cubic_StopRecovery_def intro!: cubic_setWindowBytes_ok)
  next
    case False
    then show ?thesis using assms(1) up growCongestionAvoidance_ok [OF assms(1,3,4)]
      by (auto simp: cubic_OnACK_def Let_def intro!: cubic_setWindowBytes_ok)
  qed
  show "cubic_ok mss ceil (cubic_OnDuplicateACK p)"
    using assms(1) up by (auto simp: cubic_OnDuplicateACK_def Let_def intro!: cubic_setWindowBytes_ok)
  show "cubic_ok mss ceil (cubic_OnECN ecn p)"
  proof -
    define q where "q = cubic_setWindowBytes
      (max (cubicRetainedBytes (cwnd p)) mss) (cubic_reduce (ecn_FlightBytes ecn) p)"
    have q: "cubic_ok mss ceil q"
      unfolding q_def by (intro cubic_setWindowBytes_ok cubic_reduce_ok assms(1)) simp
    then have "mss \<le> cwnd q" by (simp add: cubic_ok_def window_ok_def)
    then show ?thesis using q mss(1)
      by (auto simp: cubic_OnECN_def Let_def q_def [symmetric] intro!: cubic_ok_updates)
  qed
  show "cubic_ok mss ceil (cubic_OnIdle p)"
  proof -
    have c: "cubic_ok mss ceil (classic_OnIdle p)" by (rule cubic_ok_classic) (rule assms)
    then have "mss \<le> cwnd (classic_OnIdle p)" by (simp add: cubic_ok_def window_ok_def)
    with c show ?thesis by (auto simp: cubic_OnIdle_def Let_def intro!: cubic_ok_updates cubic_setWindowBytes_ok)
  qed
  show "cubic_ok mss ceil (cubic_OnSenderState sender p)"
    using assms(1) by (simp add: cubic_OnSenderState_def)
  show "cubic_ok mss ceil (fst (cubic_OnLoss loss p))"
  proof (cases "loss_kind loss")
    case FastRetransmitLoss
    then show ?thesis by (rule cubic_fast_ok [OF assms(1,2)])
  next
    case TimeoutLoss
    define q where "q = (if \<not> AlreadyTimedOut loss \<and> \<not> AlreadyReduced loss
      then cubic_reduce (loss_FlightBytes loss) (cubic_StopRecovery p) else cubic_StopRecovery p)"
    have "cubic_ok mss ceil q" using stop [OF assms(1)] cubic_reduce_ok by (simp add: q_def)
    moreover have "mssBytes q = mss" using mss(1) by (simp add: q_def cubic_StopRecovery_def)
    ultimately show ?thesis using TimeoutLoss
      by (auto simp: cubic_OnLoss_def Let_def q_def [symmetric] intro!: cubic_ok_updates cubic_setWindowBytes_ok)
  next
    case HandshakeLoss
    have c: "cubic_ok mss ceil (restartAfterHandshakeLoss p)" by (rule cubic_ok_classic) (rule assms)
    then have "mss \<le> cwnd (restartAfterHandshakeLoss p)" by (simp add: cubic_ok_def window_ok_def)
    with c HandshakeLoss show ?thesis
      by (auto simp: cubic_OnLoss_def Let_def intro!: cubic_ok_updates cubic_setWindowBytes_ok)
  qed
qed

end
