(* ===== verification/Policy.thy ===== *)
theory Policy
  imports Cubic
begin

text \<open>
  The interface \<open>Policy\<close> (\<open>policy.go\<close>) and its factory (\<open>factory.go\<close>): the dynamic dispatch over
  the five implementations is a case distinction.  The theory shows what every policy promises its
  transport.
\<close>

datatype policy = Unlimited | Reno reno_policy | NewReno newreno_policy | Tahoe classic_window
  | Cubic cubic_policy

definition unlimited_State :: policy_state where
  "unlimited_State = \<lparr>WindowBytes = 0, ThresholdBytes = 0, Phase = Disabled, LimitsNewData = False, NextSendAt = 0\<rparr>"

definition congestion_config_ok :: "congestion_config \<Rightarrow> int \<Rightarrow> bool" where
  "congestion_config_ok c mss =
     (let segmentBytes = nat mss;
          validMode = congestion_mode_Valid (cc_Mode c);
          maximumInitialSegments = MaxCongestionWindowBytes div segmentBytes;
          validInitialWindow = (1 \<le> cc_InitialWindowSegments c \<and>
            nat (cc_InitialWindowSegments c) \<le> maximumInitialSegments);
          validMaximumWindow = (0 \<le> cc_MaximumWindowSegments c \<and>
            nat (cc_MaximumWindowSegments c) \<le> maximumInitialSegments);
          validMaximumWindow =
            (if cc_Mode c = CongestionNone \<and> cc_MaximumWindowSegments c \<noteq> 0 then False else validMaximumWindow);
          minimumThresholdBytes = 2 * segmentBytes;
          validThreshold = (minimumThresholdBytes \<le> cc_InitialSlowStartThresholdBytes c \<and>
            cc_InitialSlowStartThresholdBytes c \<le> MaxCongestionWindowBytes);
          validRetransmit = (\<not> cc_FastRetransmit c \<or> cc_Mode c \<noteq> CongestionNone)
      in validMode \<and> validInitialWindow \<and> validMaximumWindow \<and> validThreshold \<and> validRetransmit)"

definition NewWithMSS :: "congestion_config \<Rightarrow> int \<Rightarrow> policy option" where
  "NewWithMSS c mss =
     (if \<not> ValidMSSBytes mss then None
      else if \<not> congestion_config_ok c mss then None
      else case cc_Mode c of
          CongestionReno \<Rightarrow>
            Some (Reno (classic_window.extend (newClassicWindow c mss) (reno_policy.fields False 0 0)))
        | CongestionNewReno \<Rightarrow> Some (NewReno (newNewRenoPolicy c mss))
        | CongestionTahoe \<Rightarrow> Some (Tahoe (newClassicWindow c mss))
        | CongestionCubic \<Rightarrow> Some (Cubic (newCubicPolicy c mss))
        | _ \<Rightarrow> Some Unlimited)"

section \<open>Dispatch\<close>

fun OnACK :: "float_env \<Rightarrow> ack_info \<Rightarrow> policy \<Rightarrow> policy \<times> ack_response" where
  "OnACK env ack Unlimited = (Unlimited, no_response)"
| "OnACK env ack (Reno p) = (let (p, r) = reno_OnACK ack p in (Reno p, r))"
| "OnACK env ack (NewReno p) = (let (p, r) = newreno_OnACK ack p in (NewReno p, r))"
| "OnACK env ack (Tahoe p) = (let (p, r) = classic_OnACK ack p in (Tahoe p, r))"
| "OnACK env ack (Cubic p) = (let (p, r) = cubic_OnACK env ack p in (Cubic p, r))"

fun OnSenderState :: "sender_info \<Rightarrow> policy \<Rightarrow> policy" where
  "OnSenderState sender (Cubic p) = Cubic (cubic_OnSenderState sender p)"
| "OnSenderState sender p = p"

fun OnDuplicateACK :: "policy \<Rightarrow> policy" where
  "OnDuplicateACK (Reno p) = Reno (reno_OnDuplicateACK p)"
| "OnDuplicateACK (NewReno p) = NewReno (newreno_OnDuplicateACK p)"
| "OnDuplicateACK (Cubic p) = Cubic (cubic_OnDuplicateACK p)"
| "OnDuplicateACK p = p"

fun OnLoss :: "loss_info \<Rightarrow> policy \<Rightarrow> policy \<times> loss_response" where
  "OnLoss loss Unlimited = (Unlimited, no_loss_response)"
| "OnLoss loss (Reno p) = (let (p, r) = reno_OnLoss loss p in (Reno p, r))"
| "OnLoss loss (NewReno p) = (let (p, r) = newreno_OnLoss loss p in (NewReno p, r))"
| "OnLoss loss (Tahoe p) = (let (p, r) = tahoe_OnLoss loss p in (Tahoe p, r))"
| "OnLoss loss (Cubic p) = (let (p, r) = cubic_OnLoss loss p in (Cubic p, r))"

fun OnECN :: "ecn_info \<Rightarrow> policy \<Rightarrow> policy" where
  "OnECN ecn Unlimited = Unlimited"
| "OnECN ecn (Reno p) = Reno (reno_OnECN ecn p)"
| "OnECN ecn (NewReno p) = NewReno (newreno_OnECN ecn p)"
| "OnECN ecn (Tahoe p) = Tahoe (classic_OnECN ecn p)"
| "OnECN ecn (Cubic p) = Cubic (cubic_OnECN ecn p)"

fun OnIdle :: "policy \<Rightarrow> policy" where
  "OnIdle Unlimited = Unlimited"
| "OnIdle (Reno p) = Reno (classic_OnIdle p)"
| "OnIdle (NewReno p) = NewReno (classic_OnIdle p)"
| "OnIdle (Tahoe p) = Tahoe (classic_OnIdle p)"
| "OnIdle (Cubic p) = Cubic (cubic_OnIdle p)"

fun StopRecovery :: "policy \<Rightarrow> policy" where
  "StopRecovery (Reno p) = Reno (reno_StopRecovery p)"
| "StopRecovery (NewReno p) = NewReno (newreno_StopRecovery p)"
| "StopRecovery (Cubic p) = Cubic (cubic_StopRecovery p)"
| "StopRecovery p = p"

fun State :: "policy \<Rightarrow> policy_state" where
  "State Unlimited = unlimited_State"
| "State (Reno p) = reno_State p"
| "State (NewReno p) = newreno_State p"
| "State (Tahoe p) = classic_State p"
| "State (Cubic p) = cubic_State p"

lemma State_fields [simp]:
  "WindowBytes (reno_State q) = cwnd q" "ThresholdBytes (reno_State q) = ssthresh q"
  "Phase (reno_State q) = CongestionAvoidance \<longleftrightarrow> \<not> rn_active q \<and> ssthresh q \<le> cwnd q"
  "WindowBytes (newreno_State r) = cwnd r" "ThresholdBytes (newreno_State r) = ssthresh r"
  "Phase (newreno_State r) = CongestionAvoidance \<longleftrightarrow> \<not> nr_active r \<and> ssthresh r \<le> cwnd r"
  "WindowBytes (classic_State w) = cwnd w" "ThresholdBytes (classic_State w) = ssthresh w"
  "Phase (classic_State w) = CongestionAvoidance \<longleftrightarrow> ssthresh w \<le> cwnd w"
  "WindowBytes (cubic_State c) = cwnd c" "ThresholdBytes (cubic_State c) = ssthresh c"
  "LimitsNewData (reno_State q)" "LimitsNewData (newreno_State r)" "LimitsNewData (classic_State w)"
  "LimitsNewData (cubic_State c)" "\<not> LimitsNewData unlimited_State"
  by (auto simp: reno_State_def newreno_State_def classic_State_def cubic_State_def unlimited_State_def Let_def)

section \<open>The invariant shared by all policies\<close>

fun policy_ok :: "nat \<Rightarrow> nat \<Rightarrow> policy \<Rightarrow> bool" where
  "policy_ok mss ceil Unlimited = True"
| "policy_ok mss ceil (Reno p) = reno_ok mss ceil p"
| "policy_ok mss ceil (NewReno p) = newreno_ok mss ceil p"
| "policy_ok mss ceil (Tahoe p) = window_ok mss ceil p"
| "policy_ok mss ceil (Cubic p) = cubic_ok mss ceil p"

definition config_ceiling :: "congestion_config \<Rightarrow> int \<Rightarrow> nat" where
  "config_ceiling c mss =
     (if 0 < cc_MaximumWindowSegments c then nat (cc_MaximumWindowSegments c) * nat mss
      else MaxCongestionWindowBytes)"

lemma segments_fit: "n \<le> MaxCongestionWindowBytes div m \<Longrightarrow> n * m \<le> MaxCongestionWindowBytes"
  using div_times_less_eq_dividend [of MaxCongestionWindowBytes m] by (meson le_trans mult_le_mono1)

lemma newClassicWindow_ok:
  assumes "ValidMSSBytes mss" "congestion_config_ok c mss"
  shows "window_ok (nat mss) (config_ceiling c mss) (newClassicWindow c mss)"
proof -
  have m: "0 < nat mss" "nat mss \<le> 65495" using assms(1) by (auto simp: ValidMSSBytes_def MaxMSSBytes_def)
  have c: "1 \<le> cc_InitialWindowSegments c"
    "nat (cc_InitialWindowSegments c) * nat mss \<le> MaxCongestionWindowBytes"
    "nat (cc_MaximumWindowSegments c) * nat mss \<le> MaxCongestionWindowBytes"
    "2 * nat mss \<le> cc_InitialSlowStartThresholdBytes c"
    using assms(2) segments_fit by (auto simp: congestion_config_ok_def Let_def split: if_splits)
  have u: "u64 n = n" if "n \<le> MaxCongestionWindowBytes" for n
    using that by (simp add: MaxCongestionWindowBytes_def max_u64_def)
  have i: "nat mss \<le> nat (cc_InitialWindowSegments c) * nat mss"
    using mult_le_mono1 [of 1 "nat (cc_InitialWindowSegments c)" "nat mss"] c(1) by (simp add: Suc_le_eq)
  have x: "0 < cc_MaximumWindowSegments c \<Longrightarrow> nat mss \<le> nat (cc_MaximumWindowSegments c) * nat mss" by (simp add: Suc_le_eq)
  have b: "nat mss \<le> MaxCongestionWindowBytes" using m(2) by (simp add: MaxCongestionWindowBytes_def)
  show ?thesis
    using m c i x b by (auto simp: newClassicWindow_def config_ceiling_def window_ok_def Let_def u)
qed

lemma extended_window_ok:
  "window_ok mss ceil w \<Longrightarrow> window_ok mss ceil (classic_window.extend w x)"
  by (simp add: window_ok_def classic_window.defs)

lemma NewWithMSS_ok:
  assumes "NewWithMSS c mss = Some p"
  shows "policy_ok (nat mss) (config_ceiling c mss) p"
proof -
  have v: "ValidMSSBytes mss" "congestion_config_ok c mss"
    using assms by (auto simp: NewWithMSS_def split: if_splits)
  note w = newClassicWindow_ok [OF v]
  note ww = extended_window_ok [OF w]
  have cubic: "cubic_ok (nat mss) (config_ceiling c mss) (newCubicPolicy c mss)"
  proof -
    note d = window_okD [OF w]
    obtain s where s: "segments_of (cwnd (newClassicWindow c mss)) (nat mss) = Fin s" "1 \<le> s" "s \<le> 2 ^ 66"
      using segments_of_window [OF d(2,3,4,5)] .
    then have "\<exists>s. windowSegments (newCubicPolicy c mss) = Fin s \<and> 1 \<le> s \<and> s \<le> 2 ^ 66"
      by (simp add: newCubicPolicy_def Let_def d(1) classic_window.defs cubic_policy.defs)
    moreover have "window_ok (nat mss) (config_ceiling c mss) (newCubicPolicy c mss)"
      unfolding newCubicPolicy_def Let_def by (rule ww)
    ultimately show ?thesis
      by (simp add: cubic_ok_def) (simp add: newCubicPolicy_def Let_def classic_window.defs cubic_policy.defs)
  qed
  have "newreno_ok (nat mss) (config_ceiling c mss) (newNewRenoPolicy c mss)"
    using ww by (simp add: newreno_ok_def newNewRenoPolicy_def)
      (simp add: classic_window.defs newreno_policy.defs)
  moreover have "reno_ok (nat mss) (config_ceiling c mss)
      (classic_window.extend (newClassicWindow c mss) (reno_policy.fields False 0 0))"
    using ww by (simp add: reno_ok_def) (simp add: classic_window.defs reno_policy.defs)
  ultimately show ?thesis
    using assms v w cubic by (auto simp: NewWithMSS_def split: congestion_mode.splits)
qed

text \<open>The policies a connection can reach, for reports a transport can make.\<close>

definition ack_in_range :: "ack_info \<Rightarrow> bool" where
  "ack_in_range ack \<longleftrightarrow> ack_FlightBytes ack \<le> MaxCongestionWindowBytes \<and> ack_SmoothedRTT ack \<le> max_i64"

inductive policy_reach :: "float_env \<Rightarrow> congestion_config \<Rightarrow> int \<Rightarrow> policy \<Rightarrow> bool"
  for env c mss where
  created: "NewWithMSS c mss = Some p \<Longrightarrow> policy_reach env c mss p"
| acked: "policy_reach env c mss p \<Longrightarrow> ack_in_range ack \<Longrightarrow> policy_reach env c mss (fst (OnACK env ack p))"
| observed: "policy_reach env c mss p \<Longrightarrow> policy_reach env c mss (OnSenderState sender p)"
| duplicate: "policy_reach env c mss p \<Longrightarrow> policy_reach env c mss (OnDuplicateACK p)"
| lost: "policy_reach env c mss p \<Longrightarrow> loss_FlightBytes loss \<le> max_u64 \<Longrightarrow>
    policy_reach env c mss (fst (OnLoss loss p))"
| marked: "policy_reach env c mss p \<Longrightarrow> policy_reach env c mss (OnECN ecn p)"
| idle: "policy_reach env c mss p \<Longrightarrow> policy_reach env c mss (OnIdle p)"
| stopped: "policy_reach env c mss p \<Longrightarrow> policy_reach env c mss (StopRecovery p)"

definition some_ack :: ack_info where
  "some_ack = \<lparr>ack_At = 0, NewBytes = 0, CumulativeACK = 0, ack_FlightBytes = 0, ack_SmoothedRTT = 0,
     ack_ECN = False, ack_SACKRecovery = False, EndSACKRecovery = False\<rparr>"

definition some_loss :: loss_info where
  "some_loss = \<lparr>loss_At = 0, loss_kind = TimeoutLoss, loss_FlightBytes = 0, loss_CumulativeACK = 0,
     NextSendSeq = 0, PendingSegments = 0, AlreadyTimedOut = False, AlreadyReduced = False,
     loss_SACKRecovery = False\<rparr>"

lemma policy_ops_ok [inv_intros]:
  assumes "policy_ok mss ceil p" "cbrt_ok env"
  shows "ack_in_range ack \<Longrightarrow> policy_ok mss ceil (fst (OnACK env ack p))"
    and "policy_ok mss ceil (OnSenderState sender p)"
    and "policy_ok mss ceil (OnDuplicateACK p)"
    and "loss_FlightBytes loss \<le> max_u64 \<Longrightarrow> policy_ok mss ceil (fst (OnLoss loss p))"
    and "policy_ok mss ceil (OnECN ecn p)"
    and "policy_ok mss ceil (OnIdle p)"
    and "policy_ok mss ceil (StopRecovery p)"
proof -
  have a: "ack_in_range some_ack" by (simp add: ack_in_range_def some_ack_def max_i64_def)
  have l: "loss_FlightBytes some_loss \<le> max_u64" by (simp add: some_loss_def)
  note r = reno_ops_ok [OF _ l] and n = newreno_ops_ok [OF _ l]
  have aa: "ack_FlightBytes some_ack \<le> MaxCongestionWindowBytes" "ack_SmoothedRTT some_ack \<le> max_i64"
    using a by (simp_all add: ack_in_range_def)
  show "ack_in_range ack \<Longrightarrow> policy_ok mss ceil (fst (OnACK env ack p))"
    using assms r(1) newreno_ops_ok(1) [OF _ l] cubic_ops_ok(1) [OF _ l assms(2)] classic_ok(1)
    by (cases p) (auto simp: ack_in_range_def split_beta Let_def)
  show "policy_ok mss ceil (OnSenderState sender p)"
    using assms cubic_ops_ok(7) [OF _ l assms(2) aa(2)] by (cases p) auto
  show "policy_ok mss ceil (OnDuplicateACK p)"
    using assms r(2) n(2) [OF _ aa(1)] cubic_ops_ok(2) [OF _ l assms(2) aa(2)] by (cases p) auto
  show "loss_FlightBytes loss \<le> max_u64 \<Longrightarrow> policy_ok mss ceil (fst (OnLoss loss p))"
    using assms reno_ops_ok(3) newreno_ops_ok(3) [OF _ _ aa(1)] cubic_ops_ok(3) [OF _ _ assms(2) aa(2)] tahoe_OnLoss_ok
    by (cases p) (auto simp: split_beta Let_def)
  show "policy_ok mss ceil (OnECN ecn p)"
    using assms r(4) n(4) [OF _ aa(1)] cubic_ops_ok(4) [OF _ l assms(2) aa(2)] classic_ok(2) by (cases p) auto
  show "policy_ok mss ceil (OnIdle p)"
    using assms r(5) n(5) [OF _ aa(1)] cubic_ops_ok(5) [OF _ l assms(2) aa(2)] classic_ok(5) by (cases p) auto
  show "policy_ok mss ceil (StopRecovery p)"
    using assms r(6) n(6) [OF _ aa(1)] cubic_ops_ok(6) [OF _ l assms(2) aa(2)] by (cases p) auto
qed

lemma policy_reach_ok:
  assumes "policy_reach env c mss p" "cbrt_ok env"
  shows "policy_ok (nat mss) (config_ceiling c mss) p"
  using assms(1) by (induction rule: policy_reach.induct) (use assms(2) in \<open>auto intro: NewWithMSS_ok policy_ops_ok\<close>)


section \<open>What every policy promises\<close>

definition demo_env :: float_env where
  "demo_env = \<lparr>Cbrt = (\<lambda>x. x), outside_u64 = (\<lambda>_. 0)\<rparr>"

definition demo_congestion :: "congestion_mode \<Rightarrow> congestion_config" where
  "demo_congestion m = DefaultCongestionConfig\<lparr>cc_Mode := m\<rparr>"

lemma demo_env_ok: "cbrt_ok demo_env"
  by (simp add: cbrt_ok_def demo_env_def)

lemmas demo_congestion_defs = demo_congestion_def DefaultCongestionConfig_def NewWithMSS_def ValidMSSBytes_def
  MaxMSSBytes_def congestion_config_ok_def newClassicWindow_def MaxCongestionWindowBytes_def
  DefaultReceiveBufferBytes_def Let_def

definition demo_reno :: reno_policy where
  "demo_reno = \<lparr>mssBytes = 1000, startupWindowBytes = 4000, cwnd = 4000,
     maximumWindowBytes = MaxCongestionWindowBytes, ssthresh = 65535, avoidanceAcknowledgedBytes = 0,
     rn_active = False, rn_remainingInflations = 0, rn_recoveryWindowBytes = 0\<rparr>"

lemma demo_reno_reach: "policy_reach demo_env (demo_congestion CongestionReno) 1000 (Reno demo_reno)"
  by (rule policy_reach.created)
    (simp add: demo_congestion_defs demo_reno_def classic_window.defs reno_policy.defs max_u64_def)

text \<open>C14: Whatever a connection reports to its congestion policy, the window always holds at least
  one segment and never exceeds the configured ceiling (which is itself below \<open>2^63\<close>), and the
  slow-start threshold never falls below two segments; this includes CUBIC's floating-point window.\<close>
theorem policy_window_bounds:
  assumes "cbrt_ok env" "policy_reach env c mss p" "LimitsNewData (State p)"
  shows "nat mss \<le> WindowBytes (State p) \<and> WindowBytes (State p) \<le> config_ceiling c mss \<and>
    config_ceiling c mss \<le> MaxCongestionWindowBytes \<and> 2 * nat mss \<le> ThresholdBytes (State p) \<and> 0 < nat mss"
  using policy_reach_ok [OF assms(2,1)] assms(3)
  by (cases p) (auto simp: unlimited_State_def reno_State_def newreno_State_def cubic_State_def classic_State_def
      Let_def reno_ok_def newreno_ok_def cubic_ok_def window_ok_def)

theorem policy_window_bounds_witness:
  "1000 \<le> WindowBytes (State (fst (OnLoss some_loss (Reno demo_reno))))"
  using policy_window_bounds [of demo_env "demo_congestion CongestionReno" 1000 "fst (OnLoss some_loss (Reno demo_reno))"]
    demo_env_ok policy_reach.lost [OF demo_reno_reach, of some_loss]
  by (simp add: some_loss_def split_beta Let_def reno_State_def classic_State_def)

text \<open>The share of the outstanding bytes a policy keeps after a loss or a mark.\<close>

fun retained :: "policy \<Rightarrow> nat \<Rightarrow> nat" where
  "retained (Cubic _) bytes = 7 * bytes div 10"
| "retained _ bytes = bytes div 2"

lemma restartAfterLoss_State:
  assumes "window_ok mss ceil w"
  shows "classic_State (restartAfterLoss flight again w) = \<lparr>WindowBytes = mss,
      ThresholdBytes = (if again then ssthresh w else max (flight div 2) (2 * mss)),
      Phase = SlowStart, LimitsNewData = True, NextSendAt = 0\<rparr>"
proof -
  have "mss < 2 * mss" "mss < ssthresh w" using window_okD [OF assms] by linarith+
  moreover have "mss < max (flight div 2) (2 * mss)" using window_okD [OF assms] by (simp add: less_max_iff_disj)
  ultimately show ?thesis using assms
    by (simp add: classic_State_def restartAfterLoss_def Let_def setWindowBytes_def window_ceiling_def window_ok_def
        halvedFlight_def)
qed

text \<open>C15: After a retransmission timeout every limiting policy restarts slow start with exactly one
  segment, and the threshold becomes the retained share of the flight (a half, or seven tenths for
  CUBIC), at least two segments, unless this flight has already timed out or been reduced.\<close>
theorem timeout_restarts_slow_start:
  assumes "cbrt_ok env" "policy_reach env c mss p" "LimitsNewData (State p)" "loss_kind loss = TimeoutLoss"
  shows "State (fst (OnLoss loss p)) = \<lparr>WindowBytes = nat mss,
      ThresholdBytes = (if AlreadyTimedOut loss \<or> AlreadyReduced loss then ThresholdBytes (State p)
        else max (retained p (loss_FlightBytes loss)) (2 * nat mss)),
      Phase = SlowStart, LimitsNewData = True, NextSendAt = 0\<rparr>"
proof (cases p)
  case (Cubic q)
  then show ?thesis using policy_reach_ok [OF assms(2,1)] assms(4)
    by (auto simp: cubic_OnLoss_def cubic_State_def classic_State_def cubic_ok_def Let_def window_ok_def
        cubic_StopRecovery_def cubic_setWindowBytes_def setWindowBytes_def window_ceiling_def
        cubic_reduce_def rememberCongestionWindow_def cubicLossThreshold_def cubicRetainedBytes_exact le_max_iff_disj)
next
  case (Reno q)
  then have "window_ok (nat mss) (config_ceiling c mss) (reno_StopRecovery q)"
    using policy_reach_ok [OF assms(2,1)] by (simp add: reno_ok_def reno_StopRecovery_ok)
  from restartAfterLoss_State [OF this] Reno assms(4) show ?thesis
    by (simp add: reno_OnLoss_def reno_State_def [of "restartAfterLoss _ _ _"] frame_simps reno_StopRecovery_ok)
      (simp add: reno_StopRecovery_def)
next
  case (NewReno q)
  define r where "r = (newreno_StopRecovery q)\<lparr>recoveryEndSeq := NextSendSeq loss\<rparr>"
  have "window_ok (nat mss) (config_ceiling c mss) r"
    using NewReno policy_reach_ok [OF assms(2,1)] by (simp add: newreno_ok_def r_def newreno_StopRecovery_ok)
  from restartAfterLoss_State [OF this] NewReno assms(4) show ?thesis
    by (simp add: newreno_OnLoss_def newreno_State_def [of "restartAfterLoss _ _ _"] frame_simps r_def [symmetric])
      (simp add: r_def newreno_StopRecovery_def frame_simps)
next
  case (Tahoe q)
  then have "window_ok (nat mss) (config_ceiling c mss) q" using policy_reach_ok [OF assms(2,1)] by simp
  from restartAfterLoss_State [OF this] Tahoe assms(4) show ?thesis
    by (simp add: tahoe_OnLoss_def)
qed (use assms(3) in simp)

theorem timeout_restarts_slow_start_witness:
  "WindowBytes (State (fst (OnLoss (some_loss\<lparr>loss_FlightBytes := 9000\<rparr>) (Reno demo_reno)))) = 1000 \<and>
   ThresholdBytes (State (fst (OnLoss (some_loss\<lparr>loss_FlightBytes := 9000\<rparr>) (Reno demo_reno)))) = 4500"
  using timeout_restarts_slow_start [OF demo_env_ok demo_reno_reach, of "some_loss\<lparr>loss_FlightBytes := 9000\<rparr>"]
  by (simp add: some_loss_def reno_State_def classic_State_def demo_reno_def Let_def)

text \<open>C16: A congestion mark reduces the window once to its retained share, never below one segment
  and never above its previous size.\<close>
theorem ecn_reduces_window:
  assumes "cbrt_ok env" "policy_reach env c mss p" "LimitsNewData (State p)"
  shows "WindowBytes (State (OnECN ecn p)) = max (retained p (WindowBytes (State p))) (nat mss) \<and>
    WindowBytes (State (OnECN ecn p)) \<le> WindowBytes (State p) \<and>
    ThresholdBytes (State (OnECN ecn p)) = max (retained p (ecn_FlightBytes ecn)) (2 * nat mss)"
proof (cases p)
  case (Cubic q)
  then show ?thesis using policy_reach_ok [OF assms(2,1)] cubicRetained_le [of "cwnd q"]
    by (auto simp: cubic_OnECN_def cubic_State_def classic_State_def cubic_ok_def Let_def window_ok_def
        cubic_setWindowBytes_def setWindowBytes_def window_ceiling_def
        cubic_reduce_def rememberCongestionWindow_def cubicLossThreshold_def cubicRetainedBytes_exact)
qed (use policy_reach_ok [OF assms(2,1)] assms(3) in \<open>auto simp: unlimited_State_def reno_OnECN_def
      reno_State_def newreno_OnECN_def newreno_State_def classic_OnECN_def classic_State_def Let_def reno_ok_def
      newreno_ok_def window_defs\<close>)

theorem ecn_reduces_window_witness:
  "WindowBytes (State (OnECN \<lparr>ecn_At = 0, ecn_FlightBytes = 4000\<rparr> (Reno demo_reno))) = 2000"
  using ecn_reduces_window [OF demo_env_ok demo_reno_reach, of "\<lparr>ecn_At = 0, ecn_FlightBytes = 4000\<rparr>"]
  by (simp add: reno_State_def classic_State_def demo_reno_def Let_def)












section \<open>CUBIC's clock\<close>











end
