(* ===== verification/Ranges.thy ===== *)
theory Ranges
  imports Packet SliceQueue
begin

text \<open>
  Sorted lists of disjoint half-open ranges of sequence positions, as the receive buffer
  (\<open>receiver_buffer.go\<close>) and the SACK scoreboard (\<open>sack/scoreboard.go\<close>) keep them.  The source's
  \<open>byteRange\<close> and \<open>SACKBlock\<close> have the same two fields; one record stands for both.  The theory
  defines the search for the ranges an incoming range touches and the slice operations that put
  the merged range in their place, and shows what they do to the set of positions.
\<close>

type_synonym ranges = "sack_block list"

definition block :: "nat \<Rightarrow> nat \<Rightarrow> sack_block" where
  "block s e = \<lparr>Start = s, End = e\<rparr>"

lemma block_sel [simp]: "Start (block s e) = s" "End (block s e) = e"
  by (simp_all add: block_def)

section \<open>The code\<close>

text \<open>\<open>for first < len(ranges) && ranges[first].End < start { first++ }\<close>\<close>

definition first_touching :: "nat \<Rightarrow> ranges \<Rightarrow> nat" where
  "first_touching start rs = length (takeWhile (\<lambda>b. End b < start) rs)"

text \<open>The loop that absorbs the following ranges while they touch; it counts them.\<close>

fun absorb :: "sack_block \<Rightarrow> ranges \<Rightarrow> sack_block \<times> nat" where
  "absorb incoming [] = (incoming, 0)"
| "absorb incoming (b # rs) =
     (if Start b \<le> End incoming then
        let (m, n) = absorb (block (min (Start incoming) (Start b)) (max (End incoming) (End b))) rs
        in (m, Suc n)
      else (incoming, 0))"

text \<open>
  Putting \<open>merged\<close> in place of \<open>rs[first:afterLast]\<close> by the slice operations of the code:
  room is made by an append and a copy to the right, or the tail is copied to the left.
\<close>

definition make_room :: "nat \<Rightarrow> sack_block \<Rightarrow> ranges \<Rightarrow> ranges" where
  "make_room first merged rs =
     (let longer = rs @ [block 0 0];
          moved = take (first + 1) longer @ go_copy (drop (first + 1) longer) (drop first longer)
      in moved[first := merged])"

definition close_gap :: "nat \<Rightarrow> nat \<Rightarrow> ranges \<Rightarrow> ranges" where
  "close_gap writeAt afterLast rs =
     (let source = drop afterLast rs;
          moved = take writeAt rs @ go_copy (drop writeAt rs) source;
          remaining = min (length (drop writeAt rs)) (length source)
      in take (writeAt + remaining) moved)"

section \<open>Sorted ranges\<close>

text \<open>Every range starts at or after \<open>lo\<close>, is not empty, and leaves a gap before the next one.\<close>

fun ranges_ok :: "nat \<Rightarrow> ranges \<Rightarrow> bool" where
  "ranges_ok lo [] = True"
| "ranges_ok lo (b # rs) \<longleftrightarrow> lo \<le> Start b \<and> Start b < End b \<and> ranges_ok (Suc (End b)) rs"

definition positions :: "ranges \<Rightarrow> nat set" where
  "positions rs = (\<Union>b\<in>set rs. {Start b..<End b})"

definition total_length :: "ranges \<Rightarrow> nat" where
  "total_length rs = (\<Sum>b\<leftarrow>rs. End b - Start b)"

lemma positions_simps [simp]:
  "positions [] = {}" "positions (b # rs) = {Start b..<End b} \<union> positions rs"
  "positions (rs @ rs') = positions rs \<union> positions rs'"
  by (auto simp: positions_def)

lemma finite_positions [simp]: "finite (positions rs)"
  by (simp add: positions_def)

lemma ranges_ok_mono: "ranges_ok lo rs \<Longrightarrow> lo' \<le> lo \<Longrightarrow> ranges_ok lo' rs"
  by (cases rs) auto

lemma ranges_ok_lower: "ranges_ok lo rs \<Longrightarrow> n \<in> positions rs \<Longrightarrow> lo \<le> n"
proof (induction rs arbitrary: lo)
  case (Cons b rs)
  then have "n \<in> positions rs \<Longrightarrow> Suc (End b) \<le> n" by simp
  then show ?case using Cons.prems by auto
qed simp

lemma ranges_ok_Start: "ranges_ok lo rs \<Longrightarrow> b \<in> set rs \<Longrightarrow> lo \<le> Start b \<and> Start b < End b"
proof (induction rs arbitrary: lo)
  case (Cons c rs)
  show ?case
  proof (cases "b = c")
    case False
    then have "Suc (End c) \<le> Start b \<and> Start b < End b" using Cons by auto
    then show ?thesis using Cons.prems by auto
  qed (use Cons.prems in auto)
qed simp

lemma total_length_card: "ranges_ok lo rs \<Longrightarrow> total_length rs = card (positions rs)"
proof (induction rs arbitrary: lo)
  case (Cons b rs)
  have "{Start b..<End b} \<inter> positions rs = {}"
    using Cons.prems ranges_ok_lower [of "Suc (End b)" rs] by fastforce
  moreover have "total_length rs = card (positions rs)" using Cons.IH [of "Suc (End b)"] Cons.prems by simp
  ultimately show ?case by (simp add: card_Un_disjoint total_length_def)
qed (simp add: total_length_def)

lemma ranges_ok_append:
  "ranges_ok lo (xs @ ys) \<longleftrightarrow> ranges_ok lo xs \<and> ranges_ok (if xs = [] then lo else Suc (End (last xs))) ys"
  by (induction xs arbitrary: lo) auto

lemma ranges_unique:
  "ranges_ok lo rs \<Longrightarrow> b \<in> set rs \<Longrightarrow> c \<in> set rs \<Longrightarrow> n \<in> {Start b..<End b} \<Longrightarrow> n \<in> {Start c..<End c} \<Longrightarrow> b = c"
proof (induction rs arbitrary: lo)
  case (Cons d rs)
  have later: "\<And>x. x \<in> set rs \<Longrightarrow> End d < Start x"
    using Cons.prems(1) ranges_ok_Start [of "Suc (End d)" rs] by fastforce
  show ?case
  proof (cases "b = d \<or> c = d")
    case True
    then show ?thesis using Cons.prems later by fastforce
  next
    case False
    then show ?thesis using Cons by auto
  qed
qed simp

text \<open>Counting a property of positions range by range.\<close>

lemma sum_holes:
  assumes "ranges_ok s hs" "\<And>h. h \<in> set hs \<Longrightarrow> f h = card {n \<in> {Start h..<End h}. P n}"
  shows "(\<Sum>h\<leftarrow>hs. f h) = card {n \<in> positions hs. P n}"
  using assms
proof (induction hs arbitrary: s)
  case (Cons h hs)
  have "{n \<in> positions (h # hs). P n} = {n \<in> {Start h..<End h}. P n} \<union> {n \<in> positions hs. P n}"
    by auto
  moreover have "{n \<in> {Start h..<End h}. P n} \<inter> {n \<in> positions hs. P n} = {}"
    using Cons.prems(1) ranges_ok_lower [of "Suc (End h)" hs] by fastforce
  ultimately have "card {n \<in> positions (h # hs). P n} = card {n \<in> {Start h..<End h}. P n} + card {n \<in> positions hs. P n}"
    by (simp add: card_Un_disjoint)
  moreover have "(\<Sum>h\<leftarrow>hs. f h) = card {n \<in> positions hs. P n}"
    using Cons.IH [of "Suc (End h)"] Cons.prems by simp
  ultimately show ?case using Cons.prems(2) [of h] by simp
qed simp

section \<open>The slice operations\<close>

lemma make_room_eq:
  assumes "first \<le> length rs"
  shows "make_room first m rs = take first rs @ m # drop first rs"
proof -
  have "go_copy (drop (first + 1) (rs @ [block 0 0])) (drop first (rs @ [block 0 0])) = drop first rs"
    using assms by (simp add: go_copy_def)
  moreover have t: "take first (rs @ [block 0 0]) = take first rs"
    using assms by simp
  moreover have "take (first + 1) (rs @ [block 0 0]) = take first rs @ [(rs @ [block 0 0]) ! first]"
    using assms t by (simp add: take_Suc_conv_app_nth del: take_append)
  ultimately show ?thesis using assms
    by (simp add: make_room_def Let_def list_update_append del: take_append drop_append)
qed

lemma close_gap_eq:
  assumes "writeAt \<le> afterLast" "afterLast \<le> length rs"
  shows "close_gap writeAt afterLast rs = take writeAt rs @ drop afterLast rs"
proof -
  let ?dst = "drop writeAt rs" and ?src = "drop afterLast rs"
  have le: "length ?src \<le> length ?dst" using assms by simp
  have "take (length ?src) (go_copy ?dst ?src) = ?src" using le by (rule take_go_copy)
  moreover have "length (take writeAt rs) = writeAt" using assms by simp
  ultimately show ?thesis using le by (simp add: close_gap_def Let_def min_absorb2)
qed

section \<open>Absorbing\<close>

text \<open>The merged range covers exactly the incoming one and the absorbed ones.\<close>

lemma absorb_all:
  "ranges_ok lo rs \<Longrightarrow> Start inc < End inc \<Longrightarrow> rs = [] \<or> Start inc \<le> End (hd rs) \<Longrightarrow>
   absorb inc rs = (m, n) \<Longrightarrow>
   n \<le> length rs \<and> {Start m..<End m} = {Start inc..<End inc} \<union> positions (take n rs) \<and>
   Start m < End m \<and> Start m \<le> Start inc \<and> End inc \<le> End m \<and>
   min lo (Start inc) \<le> Start m \<and> ranges_ok (Suc (End m)) (drop n rs)"
proof (induction rs arbitrary: inc lo m n)
  case Nil
  then show ?case by simp
next
  case (Cons b rs)
  define inc' where "inc' = block (min (Start inc) (Start b)) (max (End inc) (End b))"
  show ?case
  proof (cases "Start b \<le> End inc")
    case True
    obtain k where k: "absorb inc' rs = (m, k)" "n = Suc k"
      using Cons.prems(4) True by (auto simp: inc'_def split: prod.splits)
    have b: "lo \<le> Start b" "Start b < End b" "ranges_ok (Suc (End b)) rs" "Start inc \<le> End b"
      using Cons.prems by auto
    have inc': "Start inc' < End inc'" using Cons.prems(2) b by (simp add: inc'_def)
    have hd: "rs = [] \<or> Start inc' \<le> End (hd rs)"
      using b by (cases rs) (auto simp: inc'_def)
    note ih = Cons.IH [OF b(3) inc' hd k(1)]
    have u: "{Start inc'..<End inc'} = {Start inc..<End inc} \<union> {Start b..<End b}"
      using Cons.prems(2) b True by (auto simp: inc'_def)
    have w: "Start inc' \<le> Start inc" "End inc \<le> End inc'" "min lo (Start inc) \<le> min (Suc (End b)) (Start inc')"
      using b by (auto simp: inc'_def)
    from ih have ih': "k \<le> length rs" "{Start m..<End m} = {Start inc'..<End inc'} \<union> positions (take k rs)"
      "Start m < End m" "Start m \<le> Start inc'" "End inc' \<le> End m"
      "min (Suc (End b)) (Start inc') \<le> Start m" "ranges_ok (Suc (End m)) (drop k rs)"
      by blast+
    have "{Start m..<End m} = {Start inc..<End inc} \<union> positions (take n (b # rs))"
      unfolding ih'(2) u k(2) by (simp add: Un_assoc)
    moreover have "Start m \<le> Start inc" "End inc \<le> End m" "min lo (Start inc) \<le> Start m"
      using ih'(4,5,6) w by linarith+
    ultimately show ?thesis using ih'(1,3,7) k(2) by simp
  next
    case False
    then have "m = inc" "n = 0" using Cons.prems(4) by auto
    then show ?thesis using Cons.prems False by auto
  qed
qed

lemmas absorb_spec = absorb_all [THEN conjunct1] absorb_all [THEN conjunct2, THEN conjunct1]
  absorb_all [THEN conjunct2, THEN conjunct2, THEN conjunct1]
  absorb_all [THEN conjunct2, THEN conjunct2, THEN conjunct2, THEN conjunct1]
  absorb_all [THEN conjunct2, THEN conjunct2, THEN conjunct2, THEN conjunct2, THEN conjunct1]
  absorb_all [THEN conjunct2, THEN conjunct2, THEN conjunct2, THEN conjunct2, THEN conjunct2, THEN conjunct1]
  absorb_all [THEN conjunct2, THEN conjunct2, THEN conjunct2, THEN conjunct2, THEN conjunct2, THEN conjunct2]

text \<open>The search stops at the first range that reaches the incoming one.\<close>

lemma first_touching_spec:
  assumes "ranges_ok lo rs"
  shows "first_touching s rs \<le> length rs"
    "\<forall>b\<in>set (take (first_touching s rs) rs). End b < s"
    "drop (first_touching s rs) rs = [] \<or> s \<le> End (hd (drop (first_touching s rs) rs))"
    "ranges_ok lo (take (first_touching s rs) rs)"
    "ranges_ok lo (drop (first_touching s rs) rs)"
proof -
  have d: "drop (first_touching s rs) rs = dropWhile (\<lambda>b. End b < s) rs"
    by (simp add: first_touching_def dropWhile_eq_drop)
  have t: "take (first_touching s rs) rs = takeWhile (\<lambda>b. End b < s) rs"
    by (simp add: first_touching_def takeWhile_eq_take [symmetric])
  show "first_touching s rs \<le> length rs" by (simp add: first_touching_def length_takeWhile_le)
  show "\<forall>b\<in>set (take (first_touching s rs) rs). End b < s"
    unfolding t by (auto dest: set_takeWhileD)
  show "drop (first_touching s rs) rs = [] \<or> s \<le> End (hd (drop (first_touching s rs) rs))"
    unfolding d using hd_dropWhile [of "\<lambda>b. End b < s" rs] by fastforce
  have split: "ranges_ok lo (takeWhile (\<lambda>b. End b < s) rs @ dropWhile (\<lambda>b. End b < s) rs)"
    using assms by simp
  then show "ranges_ok lo (take (first_touching s rs) rs)" unfolding t ranges_ok_append by blast
  have "lo \<le> Suc (End (last xs))" if "ranges_ok lo xs" "xs \<noteq> []" for xs
    using ranges_ok_Start [OF that(1) last_in_set [OF that(2)]] by linarith
  show "ranges_ok lo (drop (first_touching s rs) rs)"
  proof (cases "takeWhile (\<lambda>b. End b < s) rs = []")
    case True
    then show ?thesis using split unfolding d by simp
  next
    case False
    have "ranges_ok lo (takeWhile (\<lambda>b. End b < s) rs)"
      "ranges_ok (Suc (End (last (takeWhile (\<lambda>b. End b < s) rs)))) (dropWhile (\<lambda>b. End b < s) rs)"
      using split False unfolding ranges_ok_append by simp_all
    then show ?thesis
      using \<open>\<And>xs. ranges_ok lo xs \<Longrightarrow> xs \<noteq> [] \<Longrightarrow> lo \<le> Suc (End (last xs))\<close> False
      unfolding d by (meson ranges_ok_mono)
  qed
qed

text \<open>
  What both users obtain from searching, absorbing and replacing: the sorted list whose
  positions are the old ones and the incoming ones.
\<close>

lemma merged_ranges:
  assumes "ranges_ok lo rs" "Start inc < End inc" "lo \<le> Start inc"
    "first = first_touching (Start inc) rs" "absorb inc (drop first rs) = (m, n)"
  shows "ranges_ok lo (take first rs @ m # drop (first + n) rs)"
    "positions (take first rs @ m # drop (first + n) rs) = positions rs \<union> {Start inc..<End inc}"
    "{Start m..<End m} = {Start inc..<End inc} \<union> positions (take n (drop first rs))"
    "n \<le> length rs - first" "lo \<le> Start m" "Start m < End m"
proof -
  note f = first_touching_spec [OF assms(1), of "Start inc", folded assms(4)]
  note a = absorb_spec [OF f(5) assms(2) f(3) assms(5)]
  show n: "n \<le> length rs - first" using a(1) by simp
  show m: "{Start m..<End m} = {Start inc..<End inc} \<union> positions (take n (drop first rs))"
    "lo \<le> Start m" "Start m < End m"
    using a assms(3) by auto
  have parts: "rs = take first rs @ take n (drop first rs) @ drop (first + n) rs"
    by (metis append_take_drop_id drop_drop add.commute)
  have "positions rs = positions (take first rs) \<union> positions (take n (drop first rs)) \<union> positions (drop (first + n) rs)"
    by (subst parts) auto
  then show "positions (take first rs @ m # drop (first + n) rs) = positions rs \<union> {Start inc..<End inc}"
    using m(1) by auto
  have before: "End (last (take first rs)) < Start m" if "take first rs \<noteq> []"
  proof -
    have l: "End (last (take first rs)) < Start inc" using that f(2) last_in_set by blast
    moreover have "Start m \<noteq> Start inc \<Longrightarrow> Start m \<in> positions (take n (drop first rs))"
      using m(1,3) a(4) by (metis Un_iff atLeastLessThan_iff le_neq_implies_less order_refl not_le)
    moreover have "positions (take n (drop first rs)) \<subseteq> positions (drop first rs)"
      unfolding positions_def using set_take_subset [of n "drop first rs"] by auto
    moreover have "ranges_ok (Suc (End (last (take first rs)))) (drop first rs)"
      using assms(1) that ranges_ok_append [of lo "take first rs" "drop first rs"] by simp
    ultimately show ?thesis using ranges_ok_lower by (metis Suc_le_eq subsetD)
  qed
  have d: "drop n (drop first rs) = drop (first + n) rs" by (simp add: add.commute)
  show "ranges_ok lo (take first rs @ m # drop (first + n) rs)"
    unfolding ranges_ok_append using f(4) before m(2,3) a(7) unfolding d by auto
qed

end
