(* ===== verification/Scoreboard.thy ===== *)
theory Scoreboard
  imports Ranges
begin

text \<open>
  The SACK scoreboard of \<open>protocols/tcp/sack/scoreboard.go\<close>: which ranges the peer has reported,
  which gaps between them count as lost, and how many bytes may still be travelling.  The abstract
  specification of a board is the set of reported positions.
\<close>

section \<open>The code\<close>

definition receivedBytes :: "ranges \<Rightarrow> nat" where
  "receivedBytes rs = fold (\<lambda>b total. u64 (total + u64_sub (End b) (Start b))) rs 0"

text \<open>The filter of \<open>discardBefore\<close>, which writes the kept ranges to the front of the slice.\<close>

fun discardBefore :: "nat \<Rightarrow> ranges \<Rightarrow> ranges" where
  "discardBefore ack [] = []"
| "discardBefore ack (b # rs) =
     (if End b \<le> ack then discardBefore ack rs
      else block (max (Start b) ack) (End b) # discardBefore ack rs)"

definition board_insert :: "sack_block \<Rightarrow> ranges \<Rightarrow> ranges" where
  "board_insert incoming rs =
     (let first = first_touching (Start incoming) rs;
          (merged, n) = absorb incoming (drop first rs);
          afterLast = first + n
      in if first = afterLast then make_room first merged rs
         else (close_gap (first + 1) afterLast rs)[first := merged])"

definition reportable :: "nat \<Rightarrow> nat \<Rightarrow> sack_block \<Rightarrow> bool" where
  "reportable ack sentEnd b \<longleftrightarrow> \<not> (Start b \<le> ack \<or> End b \<le> Start b \<or> sentEnd < End b)"

text \<open>One block of a report; those outside sent data are ignored.\<close>

definition board_report :: "nat \<Rightarrow> nat \<Rightarrow> sack_block \<Rightarrow> ranges \<Rightarrow> ranges" where
  "board_report ack sentEnd b rs = (if reportable ack sentEnd b then board_insert b rs else rs)"

definition board_Update :: "nat \<Rightarrow> nat \<Rightarrow> sack_block list \<Rightarrow> ranges \<Rightarrow> ranges \<times> bool" where
  "board_Update ack sentEnd blocks rs =
     (let rs = discardBefore ack rs;
          before = receivedBytes rs;
          rs = fold (board_report ack sentEnd) blocks rs
      in (rs, before < receivedBytes rs))"

text \<open>The loop of \<open>IsLost\<close>; \<open>None\<close> is the early return inside a reported range.\<close>

fun above :: "nat \<Rightarrow> ranges \<Rightarrow> nat \<times> nat \<Rightarrow> (nat \<times> nat) option" where
  "above sequence [] acc = Some acc"
| "above sequence (b # rs) (blocksAbove, bytesAbove) =
     (if Start b \<le> sequence then
        if sequence < End b then None else above sequence rs (blocksAbove, bytesAbove)
      else above sequence rs (blocksAbove + 1, u64 (bytesAbove + u64_sub (End b) (Start b))))"

definition IsLost :: "nat \<Rightarrow> nat \<Rightarrow> ranges \<Rightarrow> bool" where
  "IsLost sequence mss rs =
     (case above sequence rs (0, 0) of
        None \<Rightarrow> False
      | Some (blocksAbove, bytesAbove) \<Rightarrow> 3 \<le> blocksAbove \<or> 2 * mss < bytesAbove)"

text \<open>The visitor of \<open>holes\<close> updates a state and says whether to go on.\<close>

fun visit_holes :: "(sack_block \<Rightarrow> 's \<Rightarrow> 's \<times> bool) \<Rightarrow> nat \<Rightarrow> nat \<Rightarrow> ranges \<Rightarrow> 's \<Rightarrow> 's" where
  "visit_holes visit start end' [] s = (if start < end' then fst (visit (block start end') s) else s)"
| "visit_holes visit start end' (b # rs) s =
     (if End b \<le> start then visit_holes visit start end' rs s
      else if end' \<le> Start b then (if start < end' then fst (visit (block start end') s) else s)
      else if start < Start b then
        let (s, more) = visit (block start (Start b)) s
        in if \<not> more then s else visit_holes visit (max start (End b)) end' rs s
      else visit_holes visit (max start (End b)) end' rs s)"

definition Pipe :: "nat \<Rightarrow> nat \<Rightarrow> nat \<Rightarrow> nat \<Rightarrow> ranges \<Rightarrow> nat" where
  "Pipe start end' retransmittedEnd mss rs =
     visit_holes (\<lambda>hole total.
       let total = (if \<not> IsLost (Start hole) mss rs then u64 (total + u64_sub (End hole) (Start hole)) else total);
           total = (if Start hole < retransmittedEnd
                    then u64 (total + u64_sub (min (End hole) retransmittedEnd) (Start hole)) else total)
       in (total, True)) start end' rs 0"

definition selected_hole :: "sack_block \<Rightarrow> sack_block option" where
  "selected_hole b = (if Start b < End b then Some b else None)"

definition NextHole :: "nat \<Rightarrow> nat \<Rightarrow> bool \<Rightarrow> nat \<Rightarrow> ranges \<Rightarrow> sack_block option" where
  "NextHole start end' requireLoss mss rs =
     selected_hole (visit_holes (\<lambda>hole selected.
       if requireLoss \<and> \<not> IsLost (Start hole) mss rs then (selected, True)
       else (block (Start hole) (u64 (Start hole + min (End hole - Start hole) mss)), False))
       start end' rs (block 0 0))"

definition LastHole :: "nat \<Rightarrow> nat \<Rightarrow> nat \<Rightarrow> ranges \<Rightarrow> sack_block option" where
  "LastHole start end' mss rs =
     selected_hole (visit_holes (\<lambda>hole selected.
       (block (End hole - min (End hole - Start hole) mss) (End hole), True)) start end' rs (block 0 0))"

definition HighestReportedEnd :: "ranges \<Rightarrow> nat" where
  "HighestReportedEnd rs = (if rs = [] then 0 else End (rs ! (length rs - 1)))"

definition RangeCount :: "ranges \<Rightarrow> nat" where
  "RangeCount rs = length rs"

section \<open>The board's invariant\<close>

text \<open>Sorted, disjoint, not adjacent, above the acknowledged position and within sent data.\<close>

definition board_ok :: "nat \<Rightarrow> nat \<Rightarrow> ranges \<Rightarrow> bool" where
  "board_ok lo hi rs \<longleftrightarrow> ranges_ok lo rs \<and> (\<forall>b\<in>set rs. End b \<le> hi)"

lemma board_ok_positions:
  assumes "ranges_ok lo rs"
  shows "board_ok lo hi rs \<longleftrightarrow> positions rs \<subseteq> {lo..<hi}"
proof
  assume "board_ok lo hi rs"
  then show "positions rs \<subseteq> {lo..<hi}"
    using ranges_ok_lower [OF assms] by (fastforce simp: board_ok_def positions_def)
next
  assume p: "positions rs \<subseteq> {lo..<hi}"
  have "End b \<le> hi" if b: "b \<in> set rs" for b
  proof -
    have "End b - 1 \<in> positions rs"
      using ranges_ok_Start [OF assms b] b unfolding positions_def by force
    then have "End b - 1 < hi" using p by auto
    then show ?thesis using ranges_ok_Start [OF assms b] by linarith
  qed
  then show "board_ok lo hi rs" using assms by (simp add: board_ok_def)
qed

lemma receivedBytes_acc:
  assumes "\<forall>b\<in>set rs. Start b \<le> End b \<and> End b \<le> max_u64" "a + total_length rs \<le> max_u64"
  shows "fold (\<lambda>b total. u64 (total + u64_sub (End b) (Start b))) rs a = a + total_length rs"
  using assms by (induction rs arbitrary: a) (simp_all add: total_length_def)

text \<open>The count is the number of reported positions, without wrap-around.\<close>

lemma receivedBytes_exact:
  assumes "board_ok lo hi rs" "hi \<le> max_u64"
  shows "receivedBytes rs = card (positions rs)"
proof -
  have r: "ranges_ok lo rs" using assms(1) by (simp add: board_ok_def)
  have "card (positions rs) \<le> card {lo..<hi}"
    using board_ok_positions [OF r] assms(1) by (intro card_mono) auto
  then have "0 + total_length rs \<le> max_u64" using total_length_card [OF r] assms(2) by simp
  moreover have "\<forall>b\<in>set rs. Start b \<le> End b \<and> End b \<le> max_u64"
    using assms ranges_ok_Start [OF r] unfolding board_ok_def by (meson le_trans less_imp_le)
  ultimately show ?thesis
    using receivedBytes_acc [of rs 0] total_length_card [OF r] by (simp add: receivedBytes_def)
qed

lemma discardBefore_spec:
  "ranges_ok lo rs \<Longrightarrow> ranges_ok (max lo ack) (discardBefore ack rs) \<and>
     positions (discardBefore ack rs) = positions rs \<inter> {ack..}"
proof (induction rs arbitrary: lo)
  case (Cons b rs)
  have ih: "ranges_ok (max (Suc (End b)) ack) (discardBefore ack rs)"
    "positions (discardBefore ack rs) = positions rs \<inter> {ack..}"
    using Cons.IH [of "Suc (End b)"] Cons.prems by simp_all
  show ?case
  proof (cases "End b \<le> ack")
    case True
    then have "positions (b # rs) \<inter> {ack..} = positions rs \<inter> {ack..}" by auto
    then show ?thesis using ih Cons.prems True ranges_ok_mono [OF ih(1), of "max lo ack"] by simp
  next
    case False
    then have "max (Suc (End b)) ack = Suc (End b)" by simp
    then have "ranges_ok (Suc (End b)) (discardBefore ack rs)" using ih(1) by simp
    then have ok: "ranges_ok (max lo ack) (discardBefore ack (b # rs))" using False Cons.prems by auto
    have "positions (discardBefore ack (b # rs)) = {max (Start b) ack..<End b} \<union> (positions rs \<inter> {ack..})"
      using False by (simp add: ih(2))
    also have "\<dots> = positions (b # rs) \<inter> {ack..}" by auto
    finally show ?thesis using ok by blast
  qed
qed simp

lemma board_insert_spec:
  assumes "ranges_ok lo rs" "Start inc < End inc" "lo \<le> Start inc"
  shows "ranges_ok lo (board_insert inc rs)"
    "positions (board_insert inc rs) = positions rs \<union> {Start inc..<End inc}"
proof -
  define first where "first = first_touching (Start inc) rs"
  obtain m n where mn: "absorb inc (drop first rs) = (m, n)" by fastforce
  note s = merged_ranges [OF assms first_def mn]
  have le: "first \<le> length rs" unfolding first_def by (rule first_touching_spec [OF assms(1)])
  have "board_insert inc rs = take first rs @ m # drop (first + n) rs"
  proof (cases "n = 0")
    case True
    then show ?thesis
      using le mn by (simp add: board_insert_def Let_def first_def [symmetric] make_room_eq)
  next
    case False
    then have "first + 1 \<le> first + n" "first + n \<le> length rs" "first < length rs" using s(4) le by linarith+
    then have "(close_gap (first + 1) (first + n) rs)[first := m] = take first rs @ m # drop (first + n) rs"
      by (simp add: close_gap_eq list_update_append take_Suc_conv_app_nth)
    then show ?thesis
      using False mn by (simp add: board_insert_def Let_def first_def [symmetric])
  qed
  then show "ranges_ok lo (board_insert inc rs)"
    "positions (board_insert inc rs) = positions rs \<union> {Start inc..<End inc}"
    using s(1,2) by simp_all
qed

text \<open>The new reports of an ACK.\<close>

definition new_positions :: "nat \<Rightarrow> nat \<Rightarrow> sack_block list \<Rightarrow> nat set" where
  "new_positions ack sentEnd blocks = positions (filter (reportable ack sentEnd) blocks)"

lemma board_report_spec:
  assumes "ranges_ok lo rs" "lo \<le> Suc ack"
  shows "ranges_ok lo (board_report ack sentEnd b rs)"
    "positions (board_report ack sentEnd b rs) = positions rs \<union> new_positions ack sentEnd [b]"
  using assms board_insert_spec [of lo rs b] by (auto simp: board_report_def new_positions_def reportable_def)

lemma Update_fold:
  "ranges_ok lo rs \<Longrightarrow> lo \<le> Suc ack \<Longrightarrow>
   ranges_ok lo (fold (board_report ack sentEnd) blocks rs) \<and>
   positions (fold (board_report ack sentEnd) blocks rs) = positions rs \<union> new_positions ack sentEnd blocks"
proof (induction blocks arbitrary: rs)
  case Nil
  then show ?case by (simp add: new_positions_def)
next
  case (Cons b blocks)
  have "new_positions ack sentEnd (b # blocks) = new_positions ack sentEnd [b] \<union> new_positions ack sentEnd blocks"
    by (simp add: new_positions_def)
  then show ?case
    using Cons.IH [of "board_report ack sentEnd b rs"] board_report_spec [OF Cons.prems, of sentEnd b] Cons.prems(2)
    by (simp add: Un_assoc)
qed

text \<open>
  What \<open>Update\<close> does to the set of reported positions.  The acknowledged position itself
  may be kept in a range that the ACK cuts.
\<close>

lemma board_Update_spec:
  assumes "board_ok lo hi rs" "lo \<le> ack" "hi \<le> sentEnd" "board_Update ack sentEnd blocks rs = (rs', fresh)"
    "sentEnd \<le> max_u64"
  shows "board_ok ack sentEnd rs'"
    "positions rs' = positions rs \<inter> {ack..} \<union> new_positions ack sentEnd blocks"
    "fresh \<longleftrightarrow> \<not> new_positions ack sentEnd blocks \<subseteq> positions rs"
proof -
  have r: "ranges_ok lo rs" "positions rs \<subseteq> {lo..<hi}"
    using assms(1) board_ok_positions [of lo rs hi] by (auto simp: board_ok_def)
  define d where "d = discardBefore ack rs"
  have d: "ranges_ok ack d" "positions d = positions rs \<inter> {ack..}"
    using discardBefore_spec [OF r(1), of ack] assms(2) by (simp_all add: d_def max_absorb2)
  have rs': "rs' = fold (board_report ack sentEnd) blocks d"
    and fresh: "fresh \<longleftrightarrow> receivedBytes d < receivedBytes rs'"
    using assms(4) by (auto simp: board_Update_def Let_def d_def)
  note fold = Update_fold [OF d(1), of ack sentEnd blocks]
  have ok: "ranges_ok ack rs'" and pos: "positions rs' = positions d \<union> new_positions ack sentEnd blocks"
    unfolding rs' using fold by simp_all
  have new: "new_positions ack sentEnd blocks \<subseteq> {Suc ack..<sentEnd}"
    by (auto simp: new_positions_def positions_def reportable_def)
  show "positions rs' = positions rs \<inter> {ack..} \<union> new_positions ack sentEnd blocks" using pos d by simp
  have "positions rs' \<subseteq> {ack..<sentEnd}" using pos d(2) r(2) new assms(3) by fastforce
  then show b: "board_ok ack sentEnd rs'" using board_ok_positions [OF ok] by simp
  have "positions d \<subseteq> {ack..<sentEnd}" using d(2) r(2) assms(3) by fastforce
  then have bd: "board_ok ack sentEnd d" using board_ok_positions [OF d(1)] by simp
  have "card (positions d) < card (positions rs') \<longleftrightarrow> \<not> new_positions ack sentEnd blocks \<subseteq> positions d"
  proof
    assume "card (positions d) < card (positions rs')"
    then show "\<not> new_positions ack sentEnd blocks \<subseteq> positions d" using pos by (auto simp: Un_absorb2)
  next
    assume "\<not> new_positions ack sentEnd blocks \<subseteq> positions d"
    then have "positions d \<subset> positions rs'" using pos by blast
    then show "card (positions d) < card (positions rs')" by (rule psubset_card_mono [OF finite_positions])
  qed
  also have "\<dots> \<longleftrightarrow> \<not> new_positions ack sentEnd blocks \<subseteq> positions rs"
    using d(2) new by auto
  finally show "fresh \<longleftrightarrow> \<not> new_positions ack sentEnd blocks \<subseteq> positions rs"
    using fresh receivedBytes_exact [OF bd assms(5)] receivedBytes_exact [OF b assms(5)] by simp
qed


section \<open>The boards a sender can reach\<close>

text \<open>Acknowledgements and sent data only advance; a reset forgets all reports.\<close>

inductive board_reach :: "nat \<Rightarrow> nat \<Rightarrow> ranges \<Rightarrow> bool" where
  empty: "board_reach 0 0 []"
| updated: "board_reach ack sentEnd rs \<Longrightarrow> ack \<le> ack' \<Longrightarrow> sentEnd \<le> sentEnd' \<Longrightarrow> sentEnd' \<le> max_u64 \<Longrightarrow>
    board_reach ack' sentEnd' (fst (board_Update ack' sentEnd' blocks rs))"
| reset: "board_reach ack sentEnd rs \<Longrightarrow> board_reach ack sentEnd []"

lemma board_reach_ok: "board_reach ack sentEnd rs \<Longrightarrow> board_ok ack sentEnd rs \<and> sentEnd \<le> max_u64"
proof (induction rule: board_reach.induct)
  case (updated ack sentEnd rs ack' sentEnd' blocks)
  obtain rs' fresh where u: "board_Update ack' sentEnd' blocks rs = (rs', fresh)" by fastforce
  show ?case using board_Update_spec(1) [OF _ updated.hyps(2,3) u updated.hyps(4)] updated u by simp
qed (simp_all add: board_ok_def)

section \<open>Holes\<close>

fun hole_list :: "nat \<Rightarrow> nat \<Rightarrow> ranges \<Rightarrow> ranges" where
  "hole_list s e [] = (if s < e then [block s e] else [])"
| "hole_list s e (b # rs) =
     (if End b \<le> s then hole_list s e rs
      else if e \<le> Start b then (if s < e then [block s e] else [])
      else (if s < Start b then [block s (Start b)] else []) @ hole_list (max s (End b)) e rs)"

fun fold_until :: "('a \<Rightarrow> 's \<Rightarrow> 's \<times> bool) \<Rightarrow> 'a list \<Rightarrow> 's \<Rightarrow> 's" where
  "fold_until f [] s = s"
| "fold_until f (x # xs) s = (let (s, more) = f x s in if more then fold_until f xs s else s)"

lemma visit_holes_fold: "visit_holes visit s e rs st = fold_until visit (hole_list s e rs) st"
  by (induction visit s e rs st rule: visit_holes.induct) (auto simp: Let_def split: prod.splits)

lemma fold_until_all: "(\<And>x s. snd (f x s)) \<Longrightarrow> fold_until f xs s = fold (\<lambda>x s. fst (f x s)) xs s"
  by (induction xs arbitrary: s) (auto simp: split_beta Let_def)

text \<open>The holes are the maximal runs of positions that are not reported.\<close>

lemma hole_list_spec:
  "ranges_ok lo rs \<Longrightarrow> ranges_ok s (hole_list s e rs) \<and> positions (hole_list s e rs) = {s..<e} - positions rs"
proof (induction rs arbitrary: lo s)
  case Nil
  show ?case by simp
next
  case (Cons b rs)
  have b: "Start b < End b" "ranges_ok (Suc (End b)) rs" using Cons.prems by auto
  have above: "\<And>n. n \<in> positions rs \<Longrightarrow> End b < n" using ranges_ok_lower [OF b(2)] by (simp add: Suc_le_eq)
  consider "End b \<le> s" | "s < End b" "e \<le> Start b" | "s < End b" "Start b < e" by linarith
  then show ?case
  proof cases
    case 1
    have "{s..<e} - positions (b # rs) = {s..<e} - positions rs" using 1 by auto
    then show ?thesis using Cons.IH [OF b(2), of s] 1 by simp
  next
    case 2
    have "{s..<e} - positions (b # rs) = {s..<e}" using 2 b(1) above by fastforce
    then show ?thesis using 2 by simp
  next
    case 3
    have ih: "ranges_ok (max s (End b)) (hole_list (max s (End b)) e rs)"
      "positions (hole_list (max s (End b)) e rs) = {max s (End b)..<e} - positions rs"
      using Cons.IH [OF b(2), of "max s (End b)"] by blast+
    have m: "max s (End b) = End b" using 3 by simp
    show ?thesis
    proof (cases "s < Start b")
      case True
      have "{s..<e} - positions (b # rs) = {s..<Start b} \<union> ({End b..<e} - positions rs)"
        using True 3 b(1) above by fastforce
      moreover have "ranges_ok (Suc (Start b)) (hole_list (End b) e rs)"
        using ih(1) b(1) unfolding m by (auto intro: ranges_ok_mono)
      ultimately show ?thesis using True 3 ih(2) unfolding m by (simp add: m)
    next
      case False
      have "{s..<e} - positions (b # rs) = {End b..<e} - positions rs"
        using False 3 b(1) above by fastforce
      moreover have "ranges_ok s (hole_list (End b) e rs)"
        using ih(1) 3 unfolding m by (auto intro: ranges_ok_mono)
      ultimately show ?thesis using False 3 ih(2) unfolding m by (simp add: m)
    qed
  qed
qed

lemma filter_ranges_ok: "ranges_ok lo rs \<Longrightarrow> ranges_ok lo (filter P rs)"
proof (induction rs arbitrary: lo)
  case (Cons b rs)
  have "ranges_ok (Suc (End b)) (filter P rs)" using Cons by auto
  then show ?case using Cons.prems ranges_ok_mono [of "Suc (End b)" "filter P rs" lo] by auto
qed simp

section \<open>Loss\<close>

lemma above_spec:
  assumes "\<forall>b\<in>set rs. Start b < End b \<and> End b \<le> max_u64" "t + total_length rs \<le> max_u64"
  shows "above n rs (k, t) = (if n \<in> positions rs then None
    else Some (k + length (filter (\<lambda>b. n < Start b) rs), t + total_length (filter (\<lambda>b. n < Start b) rs)))"
  using assms
proof (induction rs arbitrary: k t)
  case Nil
  show ?case by (simp add: total_length_def)
next
  case (Cons b rs)
  have b: "Start b < End b" "End b \<le> max_u64" using Cons.prems(1) by simp_all
  have t: "t + (End b - Start b) + total_length rs \<le> max_u64" using Cons.prems(2) by (simp add: total_length_def)
  then have t': "t + total_length rs \<le> max_u64" and u: "u64 (t + u64_sub (End b) (Start b)) = t + (End b - Start b)"
    using b by simp_all
  have all: "\<forall>b\<in>set rs. Start b < End b \<and> End b \<le> max_u64" using Cons.prems(1) by simp
  show ?case
  proof (cases "Start b \<le> n")
    case True
    then show ?thesis using Cons.IH [OF all t', of k] by auto
  next
    case False
    then show ?thesis using Cons.IH [OF all t, of "k + 1"] u by (auto simp: total_length_def)
  qed
qed

lemma board_ok_bounds:
  assumes "board_ok lo hi rs" "hi \<le> max_u64"
  shows "\<forall>b\<in>set rs. Start b < End b \<and> End b \<le> max_u64" "0 + total_length rs \<le> max_u64" "ranges_ok lo rs"
proof -
  show r: "ranges_ok lo rs" using assms(1) by (simp add: board_ok_def)
  show "\<forall>b\<in>set rs. Start b < End b \<and> End b \<le> max_u64"
    using assms ranges_ok_Start [OF r] unfolding board_ok_def by (meson le_trans)
  have "card (positions rs) \<le> card {lo..<hi}"
    using board_ok_positions [OF r] assms(1) by (intro card_mono) auto
  then show "0 + total_length rs \<le> max_u64" using total_length_card [OF r] assms(2) by simp
qed

text \<open>A position counts as lost when three ranges, or more than two segments of bytes, lie above it.\<close>

lemma IsLost_exact:
  assumes "board_ok lo hi rs" "hi \<le> max_u64"
  shows "IsLost n mss rs \<longleftrightarrow> n \<notin> positions rs \<and>
    (3 \<le> length (filter (\<lambda>b. n < Start b) rs) \<or> 2 * mss < card {m \<in> positions rs. n < m})"
proof (cases "n \<in> positions rs")
  case True
  then show ?thesis using above_spec [OF board_ok_bounds(1,2) [OF assms], of n 0] by (simp add: IsLost_def)
next
  case False
  have "total_length (filter (\<lambda>b. n < Start b) rs) = card (positions (filter (\<lambda>b. n < Start b) rs))"
    by (rule total_length_card [OF filter_ranges_ok [OF board_ok_bounds(3) [OF assms]]])
  also have "positions (filter (\<lambda>b. n < Start b) rs) = {m \<in> positions rs. n < m}"
    using False by (fastforce simp: positions_def)
  finally show ?thesis
    using False above_spec [OF board_ok_bounds(1,2) [OF assms], of n 0] by (simp add: IsLost_def)
qed

text \<open>All positions of a hole are lost together.\<close>

lemma IsLost_hole:
  assumes "board_ok lo hi rs" "hi \<le> max_u64" "{Start h..<End h} \<inter> positions rs = {}" "n \<in> {Start h..<End h}"
  shows "IsLost n mss rs = IsLost (Start h) mss rs"
proof -
  have r: "ranges_ok lo rs" by (rule board_ok_bounds(3) [OF assms(1,2)])
  have "Start h \<in> {Start h..<End h}" using assms(4) by simp
  then have s: "Start h \<notin> positions rs" "n \<notin> positions rs" using assms(3,4) by blast+
  have "(n < Start b) = (Start h < Start b)" if b: "b \<in> set rs" for b
  proof (rule ccontr)
    assume "(n < Start b) \<noteq> (Start h < Start b)"
    then have "Start h < Start b" "Start b \<le> n" using assms(4) by auto
    moreover have "Start b \<in> positions rs"
      using ranges_ok_Start [OF r b] b unfolding positions_def by force
    moreover from calculation have "Start b \<in> {Start h..<End h}" using assms(4) by simp
    ultimately show False using assms(3) by blast
  qed
  then have f: "filter (\<lambda>b. n < Start b) rs = filter (\<lambda>b. Start h < Start b) rs"
    by (intro filter_cong) auto
  have "n < m \<longleftrightarrow> Start h < m" if "m \<in> positions rs" for m
  proof -
    have "m \<notin> {Start h..<End h}" using that assms(3) by blast
    then show ?thesis using assms(4) by auto
  qed
  then have "{m \<in> positions rs. n < m} = {m \<in> positions rs. Start h < m}" by blast
  then show ?thesis using s by (simp add: IsLost_exact [OF assms(1,2)] f)
qed


section \<open>What the sender reads off the board\<close>

text \<open>The bytes between \<open>start\<close> and \<open>end'\<close> that are not reported.\<close>

definition missing :: "nat \<Rightarrow> nat \<Rightarrow> ranges \<Rightarrow> nat set" where
  "missing start end' rs = {start..<end'} - positions rs"

definition pipe_of :: "nat \<Rightarrow> nat \<Rightarrow> ranges \<Rightarrow> sack_block \<Rightarrow> nat" where
  "pipe_of retransmittedEnd mss rs hole =
     card {n \<in> {Start hole..<End hole}. \<not> IsLost n mss rs} +
     card {n \<in> {Start hole..<End hole}. n < retransmittedEnd}"

lemma Pipe_fold:
  assumes "a + (\<Sum>h\<leftarrow>hs. pipe_of rend mss rs h) \<le> max_u64"
    "\<forall>h\<in>set hs. Start h < End h \<and> End h \<le> max_u64 \<and> (\<forall>n\<in>{Start h..<End h}. IsLost n mss rs = IsLost (Start h) mss rs)"
  shows "fold (\<lambda>hole total.
      let total = (if \<not> IsLost (Start hole) mss rs then u64 (total + u64_sub (End hole) (Start hole)) else total)
      in if Start hole < rend then u64 (total + u64_sub (min (End hole) rend) (Start hole)) else total) hs a =
    a + (\<Sum>h\<leftarrow>hs. pipe_of rend mss rs h)"
  using assms
proof (induction hs arbitrary: a)
  case (Cons h hs)
  have h: "Start h < End h" "End h \<le> max_u64" "\<And>n. n \<in> {Start h..<End h} \<Longrightarrow> IsLost n mss rs = IsLost (Start h) mss rs"
    using bspec [OF Cons.prems(2), of h] by (blast intro: list.set_intros)+
  have e1: "{n \<in> {Start h..<End h}. \<not> IsLost n mss rs} = (if IsLost (Start h) mss rs then {} else {Start h..<End h})"
  proof (cases "IsLost (Start h) mss rs")
    case True
    then have "{n \<in> {Start h..<End h}. \<not> IsLost n mss rs} = {}" using h(3) by blast
    then show ?thesis using True by (simp only: if_True)
  next
    case False
    then have "{n \<in> {Start h..<End h}. \<not> IsLost n mss rs} = {Start h..<End h}" using h(3) by blast
    then show ?thesis using False by (simp only: if_False)
  qed
  have e2: "{n \<in> {Start h..<End h}. n < rend} = {Start h..<min (End h) rend}" by auto
  have c: "pipe_of rend mss rs h = (if IsLost (Start h) mss rs then 0 else End h - Start h) +
      (if Start h < rend then min (End h) rend - Start h else 0)"
    unfolding pipe_of_def e1 e2 by simp
  have b: "a + (if IsLost (Start h) mss rs then 0 else End h - Start h) +
      (if Start h < rend then min (End h) rend - Start h else 0) \<le> max_u64"
    using Cons.prems(1) c by simp
  have step: "(let total = (if \<not> IsLost (Start h) mss rs then u64 (a + u64_sub (End h) (Start h)) else a)
      in if Start h < rend then u64 (total + u64_sub (min (End h) rend) (Start h)) else total) = a + pipe_of rend mss rs h"
  proof -
    have u1: "u64_sub (End h) (Start h) = End h - Start h" using h(1,2) by simp
    have u2: "Start h < rend \<Longrightarrow> u64_sub (min (End h) rend) (Start h) = min (End h) rend - Start h"
      using h(1,2) by (intro u64_sub_le) auto
    define x where "x = (if IsLost (Start h) mss rs then 0 else End h - Start h)"
    have t: "(if \<not> IsLost (Start h) mss rs then u64 (a + u64_sub (End h) (Start h)) else a) = a + x"
    proof (cases "IsLost (Start h) mss rs")
      case True
      then show ?thesis by (simp add: x_def)
    next
      case False
      then have "a + (End h - Start h) \<le> max_u64" using b by simp
      then show ?thesis using False by (simp only: u1 x_def u64_id if_False not_False_eq_True if_True)
    qed
    show ?thesis
    proof (cases "Start h < rend")
      case True
      then have "a + x + (min (End h) rend - Start h) \<le> max_u64" using b by (simp add: x_def)
      then show ?thesis using True by (simp only: Let_def t c x_def [symmetric] u2 u64_id if_True add.assoc)
    next
      case False
      then show ?thesis by (simp only: Let_def t c x_def [symmetric] if_False add_0_right)
    qed
  qed
  have rest: "a + pipe_of rend mss rs h + (\<Sum>h\<leftarrow>hs. pipe_of rend mss rs h) \<le> max_u64"
    using Cons.prems(1) by simp
  have "\<forall>h\<in>set hs. Start h < End h \<and> End h \<le> max_u64 \<and>
      (\<forall>n\<in>{Start h..<End h}. IsLost n mss rs = IsLost (Start h) mss rs)"
    using Cons.prems(2) by (meson list.set_intros(2))
  from Cons.IH [OF rest this] show ?case
    by (simp only: fold_simps step list.map sum_list.Cons add.assoc)
qed simp

text \<open>Facts about the holes of a board.\<close>

lemma board_holes:
  assumes "board_ok lo hi rs" "hi \<le> max_u64" "e \<le> max_u64"
  shows "ranges_ok s (hole_list s e rs)" "positions (hole_list s e rs) = missing s e rs"
    "\<forall>h\<in>set (hole_list s e rs). Start h < End h \<and> End h \<le> e \<and> s \<le> Start h \<and>
       {Start h..<End h} \<subseteq> missing s e rs \<and>
       (\<forall>n\<in>{Start h..<End h}. IsLost n mss rs = IsLost (Start h) mss rs)"
proof -
  note hl = hole_list_spec [OF board_ok_bounds(3) [OF assms(1,2)], of s e]
  show r: "ranges_ok s (hole_list s e rs)" and p: "positions (hole_list s e rs) = missing s e rs"
    using hl by (simp_all add: missing_def)
  show "\<forall>h\<in>set (hole_list s e rs). Start h < End h \<and> End h \<le> e \<and> s \<le> Start h \<and>
       {Start h..<End h} \<subseteq> missing s e rs \<and>
       (\<forall>n\<in>{Start h..<End h}. IsLost n mss rs = IsLost (Start h) mss rs)"
  proof
    fix h assume h: "h \<in> set (hole_list s e rs)"
    have sub: "{Start h..<End h} \<subseteq> missing s e rs" using h p [symmetric] by (auto simp: positions_def)
    have lt: "Start h < End h" "s \<le> Start h" using ranges_ok_Start [OF r h] by auto
    have "End h - 1 \<in> missing s e rs" using sub lt(1) by (auto simp: subset_iff)
    then have "End h \<le> e" by (auto simp: missing_def)
    moreover have "{Start h..<End h} \<inter> positions rs = {}" using sub by (auto simp: missing_def)
    ultimately show "Start h < End h \<and> End h \<le> e \<and> s \<le> Start h \<and>
       {Start h..<End h} \<subseteq> missing s e rs \<and>
       (\<forall>n\<in>{Start h..<End h}. IsLost n mss rs = IsLost (Start h) mss rs)"
      using lt sub IsLost_hole [OF assms(1,2)] by blast
  qed
qed

lemma Pipe_exact:
  assumes "board_ok lo hi rs" "hi \<le> max_u64" "e - s \<le> 9223372036854775807" "e \<le> max_u64"
  shows "Pipe s e rend mss rs = card {n \<in> missing s e rs. \<not> IsLost n mss rs} + card {n \<in> missing s e rs. n < rend}"
proof -
  define hs where "hs = hole_list s e rs"
  note h = board_holes(1,2) [OF assms(1,2,4), of s, folded hs_def] board_holes(3) [OF assms(1,2,4), of s mss, folded hs_def]
  have sum: "(\<Sum>h\<leftarrow>hs. pipe_of rend mss rs h) =
      card {n \<in> missing s e rs. \<not> IsLost n mss rs} + card {n \<in> missing s e rs. n < rend}"
    using sum_holes [OF h(1), of "\<lambda>h. card {n \<in> {Start h..<End h}. \<not> IsLost n mss rs}" "\<lambda>n. \<not> IsLost n mss rs"]
      sum_holes [OF h(1), of "\<lambda>h. card {n \<in> {Start h..<End h}. n < rend}" "\<lambda>n. n < rend"]
    by (simp add: pipe_of_def sum_list_addf h(2))
  have fin: "finite (missing s e rs)" "card (missing s e rs) \<le> e - s"
    using card_mono [of "{s..<e}" "missing s e rs"] by (auto simp: missing_def)
  have le: "card {n \<in> missing s e rs. P n} \<le> e - s" for P
    using card_mono [OF fin(1), of "{n \<in> missing s e rs. P n}"] fin(2) by auto
  have b: "0 + (\<Sum>h\<leftarrow>hs. pipe_of rend mss rs h) \<le> max_u64"
    using sum assms(3) le [of "\<lambda>n. \<not> IsLost n mss rs"] le [of "\<lambda>n. n < rend"] by (simp add: max_u64_def)
  have "\<forall>h\<in>set hs. Start h < End h \<and> End h \<le> max_u64 \<and> (\<forall>n\<in>{Start h..<End h}. IsLost n mss rs = IsLost (Start h) mss rs)"
    using h(3) assms(4) by (meson le_trans)
  from Pipe_fold [OF b this] show ?thesis
    unfolding Pipe_def visit_holes_fold sum [symmetric] hs_def [symmetric]
    by (subst fold_until_all) (simp_all add: Let_def)
qed


lemma fold_until_find:
  "fold_until (\<lambda>h sel. if C h then (sel, True) else (g h, False)) hs s =
    (case find (\<lambda>h. \<not> C h) hs of None \<Rightarrow> s | Some h \<Rightarrow> g h)"
  by (induction hs) (simp_all add: Let_def)

lemma fold_until_last:
  "fold_until (\<lambda>h sel. (g h, True)) hs s = (if hs = [] then s else g (last hs))"
  by (induction hs arbitrary: s) (simp_all add: Let_def)

lemma find_split: "find P xs = Some x \<Longrightarrow> \<exists>ys zs. xs = ys @ x # zs \<and> P x \<and> (\<forall>y\<in>set ys. \<not> P y)"
proof (induction xs)
  case (Cons a xs)
  show ?case
  proof (cases "P a")
    case True
    then have "a = x" using Cons.prems by simp
    then show ?thesis using True by fastforce
  next
    case False
    then obtain ys zs where "xs = ys @ x # zs" "P x" "\<forall>y\<in>set ys. \<not> P y" using Cons by auto
    then have "a # xs = (a # ys) @ x # zs \<and> P x \<and> (\<forall>y\<in>set (a # ys). \<not> P y)" using False by simp
    then show ?thesis by blast
  qed
qed simp

lemma before_in_prefix:
  assumes "ranges_ok lo (ys @ h # zs)" "n \<in> positions (ys @ h # zs)" "n < Start h"
  shows "n \<in> positions ys"
proof -
  have "ranges_ok (Suc (End h)) zs" "Start h < End h" using assms(1) unfolding ranges_ok_append by auto
  then have "\<forall>m\<in>positions zs. End h < m" using ranges_ok_lower by (metis Suc_le_eq)
  then show ?thesis using assms(2,3) \<open>Start h < End h\<close> by fastforce
qed

lemma hole_end_not_missing:
  assumes "ranges_ok lo hs" "h \<in> set hs"
  shows "End h \<notin> positions hs"
proof
  assume "End h \<in> positions hs"
  then obtain g where g: "g \<in> set hs" "End h \<in> {Start g..<End g}" by (auto simp: positions_def)
  obtain ys zs where hs: "hs = ys @ h # zs" using assms(2) by (meson split_list)
  have z: "ranges_ok (Suc (End h)) zs" and y: "ranges_ok lo ys" and h: "Start h < End h"
    using assms(1) unfolding hs ranges_ok_append by auto
  from g(1) consider "g = h" | "g \<in> set zs" | "g \<in> set ys" unfolding hs by auto
  then show False
  proof cases
    case 2
    then show ?thesis using ranges_ok_Start [OF z] g(2) by fastforce
  next
    case 3
    have "ys \<noteq> []" using 3 by auto
    then have "Suc (End (last ys)) \<le> Start h" using assms(1) unfolding hs ranges_ok_append by auto
    moreover have "End g \<le> End (last ys)" using y 3
    proof (induction ys arbitrary: lo)
      case (Cons a ys)
      show ?case
      proof (cases "ys = []")
        case False
        then have l: "last (a # ys) = last ys" "last ys \<in> set ys" by simp_all
        have "Suc (End a) \<le> Start (last ys) \<and> Start (last ys) < End (last ys)"
          using Cons.prems(1) ranges_ok_Start [of "Suc (End a)" ys "last ys"] l(2) by simp
        then show ?thesis using Cons.IH [of "Suc (End a)"] Cons.prems l(1) by auto
      qed (use Cons.prems in auto)
    qed simp
    ultimately show ?thesis using g(2) h by auto
  qed (use g(2) in auto)
qed

text \<open>The gap chosen for a retransmission.\<close>

lemma NextHole_cases:
  assumes "board_ok lo hi rs" "hi \<le> max_u64" "e \<le> max_u64" "0 < mss"
  shows "case NextHole s e requireLoss mss rs of
      None \<Rightarrow> \<forall>n\<in>missing s e rs. requireLoss \<and> \<not> IsLost n mss rs
    | Some h \<Rightarrow> Start h < End h \<and> End h \<le> Start h + mss \<and> {Start h..<End h} \<subseteq> missing s e rs \<and>
        (requireLoss \<longrightarrow> IsLost (Start h) mss rs) \<and>
        (\<forall>n\<in>missing s e rs. n < Start h \<longrightarrow> requireLoss \<and> \<not> IsLost n mss rs) \<and>
        (End h = Start h + mss \<or> End h \<notin> missing s e rs)"
proof -
  define hs where "hs = hole_list s e rs"
  note h = board_holes(1,2) [OF assms(1-3), of s, folded hs_def] board_holes(3) [OF assms(1-3), of s mss, folded hs_def]
  define g where "g hole = block (Start hole) (u64 (Start hole + min (End hole - Start hole) mss))" for hole :: sack_block
  have e: "NextHole s e requireLoss mss rs = selected_hole
      (case find (\<lambda>h. \<not> (requireLoss \<and> \<not> IsLost (Start h) mss rs)) hs of None \<Rightarrow> block 0 0 | Some h \<Rightarrow> g h)"
    unfolding NextHole_def visit_holes_fold hs_def [symmetric] g_def by (subst fold_until_find) (rule refl)
  show ?thesis
  proof (cases "find (\<lambda>h. \<not> (requireLoss \<and> \<not> IsLost (Start h) mss rs)) hs")
    case None
    have "requireLoss \<and> \<not> IsLost n mss rs" if n: "n \<in> missing s e rs" for n
    proof -
      obtain b where b: "b \<in> set hs" "n \<in> {Start b..<End b}" using n unfolding h(2) [symmetric] positions_def by blast
      have "requireLoss \<and> \<not> IsLost (Start b) mss rs" using None b(1) by (auto simp: find_None_iff)
      then show ?thesis using bspec [OF h(3) b(1)] b(2) by blast
    qed
    then show ?thesis using None e by (simp add: selected_hole_def)
  next
    case (Some b)
    obtain ys zs where ys: "hs = ys @ b # zs" "\<not> (requireLoss \<and> \<not> IsLost (Start b) mss rs)"
      "\<forall>y\<in>set ys. requireLoss \<and> \<not> IsLost (Start y) mss rs"
      using find_split [OF Some] by auto
    have bin: "b \<in> set hs" using ys(1) by simp
    have b: "Start b < End b" "End b \<le> e" "{Start b..<End b} \<subseteq> missing s e rs"
      using bspec [OF h(3) bin] by blast+
    define k where "k = Start b + min (End b - Start b) mss"
    have k: "Start b < k" "k \<le> End b" "k \<le> Start b + mss" "k = Start b + mss \<or> k = End b"
      using b(1) assms(4) by (auto simp: k_def)
    have "k \<le> max_u64" using k(2) b(2) assms(3) by linarith
    then have sel: "NextHole s e requireLoss mss rs = Some (block (Start b) k)"
      using e Some k(1) by (simp add: g_def selected_hole_def k_def [symmetric])
    have before: "requireLoss \<and> \<not> IsLost n mss rs" if n: "n \<in> missing s e rs" "n < Start b" for n
    proof -
      have "n \<in> positions ys"
      proof (rule before_in_prefix [of s ys b zs n])
        show "ranges_ok s (ys @ b # zs)" using h(1) by (simp only: ys(1))
        show "n \<in> positions (ys @ b # zs)" using h(2) n(1) by (simp only: ys(1))
      qed (rule n(2))
      then obtain y where y: "y \<in> set ys" "n \<in> {Start y..<End y}" by (auto simp: positions_def)
      then have "y \<in> set hs" using ys(1) by simp
      then show ?thesis using ys(3) y bspec [OF h(3)] by blast
    qed
    have "End b \<notin> missing s e rs" using hole_end_not_missing [OF h(1) bin] h(2) by simp
    moreover have "{Start b..<k} \<subseteq> missing s e rs" 
    proof -
      have "{Start b..<k} \<subseteq> {Start b..<End b}" using k(2) by auto
      then show ?thesis using b(3) by (rule subset_trans)
    qed
    moreover have "requireLoss \<longrightarrow> IsLost (Start b) mss rs" using ys(2) by blast
    moreover have "\<forall>n\<in>missing s e rs. n < Start b \<longrightarrow> requireLoss \<and> \<not> IsLost n mss rs"
      using before by blast
    ultimately show ?thesis
      unfolding sel option.case block_sel using k(1,3,4) by blast
  qed
qed

text \<open>The gap chosen for the rescue retransmission: the highest missing bytes.\<close>

lemma LastHole_cases:
  assumes "board_ok lo hi rs" "hi \<le> max_u64" "e \<le> max_u64" "0 < mss"
  shows "case LastHole s e mss rs of
      None \<Rightarrow> missing s e rs = {}
    | Some h \<Rightarrow> Start h < End h \<and> End h \<le> Start h + mss \<and> {Start h..<End h} \<subseteq> missing s e rs \<and>
        (\<forall>n\<in>missing s e rs. n < End h)"
proof -
  define hs where "hs = hole_list s e rs"
  note h = board_holes(1,2) [OF assms(1-3), of s, folded hs_def] board_holes(3) [OF assms(1-3), of s mss, folded hs_def]
  define g where "g hole = block (End hole - min (End hole - Start hole) mss) (End hole)" for hole :: sack_block
  have e: "LastHole s e mss rs = selected_hole (if hs = [] then block 0 0 else g (last hs))"
    unfolding LastHole_def visit_holes_fold hs_def [symmetric] g_def by (subst fold_until_last) (rule refl)
  show ?thesis
  proof (cases "hs = []")
    case True
    then show ?thesis using e h(2) by (simp add: selected_hole_def)
  next
    case False
    define b where "b = last hs"
    have bin: "b \<in> set hs" and split: "hs = butlast hs @ [b]" using False by (simp_all add: b_def)
    have b: "Start b < End b" "{Start b..<End b} \<subseteq> missing s e rs" using bspec [OF h(3) bin] by blast+
    have sel: "LastHole s e mss rs = Some (g b)"
      using e False b(1) assms(4) by (simp add: b_def [symmetric] selected_hole_def g_def)
    have le: "End b - min (End b - Start b) mss \<ge> Start b" "End b - min (End b - Start b) mss < End b"
      using b(1) assms(4) by auto
    have top: "n < End b" if "n \<in> missing s e rs" for n
    proof (rule ccontr)
      assume n: "\<not> n < End b"
      have r: "ranges_ok s (butlast hs @ [b])" using h(1) split by metis
      have "n \<in> positions (butlast hs @ [b])" using that h(2) split by metis
      then have "n \<in> positions (butlast hs)" using n by auto
      then obtain c where c: "c \<in> set (butlast hs)" "n \<in> {Start c..<End c}" by (auto simp: positions_def)
      have "End c \<le> Start b"
      proof -
        obtain xs zs where xs: "butlast hs = xs @ c # zs" using c(1) by (meson split_list)
        then have "ranges_ok s (xs @ (c # zs @ [b]))" using r by simp
        then have "ranges_ok (Suc (End c)) (zs @ [b])"
          unfolding ranges_ok_append [of s xs] ranges_ok.simps(2) by blast
        then show ?thesis using ranges_ok_Start [of "Suc (End c)" "zs @ [b]" b] by auto
      qed
      then show False using c(2) n b(1) by auto
    qed
    have "{Start (g b)..<End (g b)} \<subseteq> missing s e rs" using b(2) le by (auto simp: g_def)
    then show ?thesis using sel le top by (auto simp: g_def)
  qed
qed

section \<open>What the board promises\<close>

text \<open>C22: A board refines the set of reported positions: an update forgets what the cumulative
  ACK covers, adds exactly the valid new reports, says truthfully whether one of them was new,
  and keeps the ranges sorted, separate and within sent data, so that its byte count is exact.\<close>
theorem scoreboard_refines_set:
  assumes "board_reach ack0 sentEnd0 rs" "ack0 \<le> ack" "sentEnd0 \<le> sentEnd" "sentEnd \<le> max_u64"
    "board_Update ack sentEnd blocks rs = (rs', fresh)"
  shows "positions rs' = positions rs \<inter> {ack..} \<union> new_positions ack sentEnd blocks \<and>
    (fresh \<longleftrightarrow> \<not> new_positions ack sentEnd blocks \<subseteq> positions rs) \<and>
    board_ok ack sentEnd rs' \<and> receivedBytes rs' = card (positions rs')"
  using board_Update_spec [OF _ assms(2,3,5,4)] board_reach_ok [OF assms(1)]
    receivedBytes_exact [OF _ assms(4)] by blast

definition demo_board :: ranges where
  "demo_board = [block 5 9, block 13 17]"

lemma demo_board_reach: "board_reach 1 20 demo_board"
proof -
  have "board_Update 1 20 [block 13 17, block 5 9] [] = (demo_board, True)"
    by (simp add: board_Update_def receivedBytes_def board_report_def reportable_def board_insert_def
        first_touching_def make_room_def go_copy_def demo_board_def Let_def max_u64_def)
  then show ?thesis using board_reach.updated [OF board_reach.empty, of 1 20 "[block 13 17, block 5 9]"]
    by (simp add: max_u64_def)
qed

theorem scoreboard_refines_set_witness:
  "positions (fst (board_Update 6 20 [block 9 13] demo_board)) = {6..<17}"
proof -
  obtain rs' fresh where u: "board_Update 6 20 [block 9 13] demo_board = (rs', fresh)" by fastforce
  have n: "new_positions 6 20 [block 9 13] = {9..<13}" by (simp add: new_positions_def reportable_def)
  have "positions rs' = positions demo_board \<inter> {6..} \<union> new_positions 6 20 [block 9 13]"
    using scoreboard_refines_set [OF demo_board_reach _ _ _ u] by (simp add: max_u64_def)
  also have "\<dots> = {6..<17}" unfolding n by (auto simp: demo_board_def)
  finally show ?thesis using u by simp
qed

text \<open>C23: Loss detection follows RFC 6675: a position counts as lost exactly when it is not reported
  and three separate reports, or more than two segments of reported bytes, lie above it; and
  \<open>Pipe\<close> counts exactly the missing bytes not considered lost plus the missing bytes sent
  again, without overflow for any flight below \<open>2^63\<close>.\<close>
theorem scoreboard_pipe_exact:
  assumes "board_reach ack sentEnd rs" "end' \<le> max_u64" "end' - start \<le> 9223372036854775807"
  shows "Pipe start end' retransmittedEnd mss rs =
      card {n \<in> missing start end' rs. \<not> IsLost n mss rs} +
      card {n \<in> missing start end' rs. n < retransmittedEnd} \<and>
    (IsLost n mss rs \<longleftrightarrow> n \<notin> positions rs \<and>
      (3 \<le> length (filter (\<lambda>b. n < Start b) rs) \<or> 2 * mss < card {m \<in> positions rs. n < m}))"
  using Pipe_exact [OF _ _ assms(3,2)] IsLost_exact board_reach_ok [OF assms(1)] by (intro conjI) blast+

theorem scoreboard_pipe_exact_witness:
  "Pipe 1 20 0 2 demo_board = card {n \<in> missing 1 20 demo_board. \<not> IsLost n 2 demo_board}"
proof -
  have "{n \<in> missing 1 20 demo_board. n < 0} = {}" by simp
  then show ?thesis
    using scoreboard_pipe_exact [OF demo_board_reach, of 20 1 0 2] by (simp add: max_u64_def)
qed

text \<open>C24: A retransmission is chosen soundly and completely: the earliest eligible missing bytes, at
  most one segment of them and all missing; none only if nothing missing is eligible.  The rescue
  retransmission ends with the highest missing byte.\<close>
theorem scoreboard_selects_holes:
  assumes "board_reach ack sentEnd rs" "end' \<le> max_u64" "0 < mss"
  shows "(case NextHole start end' requireLoss mss rs of
      None \<Rightarrow> \<forall>n\<in>missing start end' rs. requireLoss \<and> \<not> IsLost n mss rs
    | Some h \<Rightarrow> Start h < End h \<and> End h \<le> Start h + mss \<and> {Start h..<End h} \<subseteq> missing start end' rs \<and>
        (requireLoss \<longrightarrow> IsLost (Start h) mss rs) \<and>
        (\<forall>n\<in>missing start end' rs. n < Start h \<longrightarrow> requireLoss \<and> \<not> IsLost n mss rs) \<and>
        (End h = Start h + mss \<or> End h \<notin> missing start end' rs)) \<and>
    (case LastHole start end' mss rs of
      None \<Rightarrow> missing start end' rs = {}
    | Some h \<Rightarrow> Start h < End h \<and> End h \<le> Start h + mss \<and> {Start h..<End h} \<subseteq> missing start end' rs \<and>
        (\<forall>n\<in>missing start end' rs. n < End h))"
  using NextHole_cases [OF _ _ assms(2,3)] LastHole_cases [OF _ _ assms(2,3)] board_reach_ok [OF assms(1)]
  by (intro conjI) blast+

theorem scoreboard_selects_holes_witness:
  "NextHole 1 20 False 3 demo_board \<noteq> None"
proof
  assume "NextHole 1 20 False 3 demo_board = None"
  moreover have "1 \<in> missing 1 20 demo_board" by (simp add: missing_def demo_board_def)
  ultimately show False
    using scoreboard_selects_holes [OF demo_board_reach, of 20 3 1 False] by (simp add: max_u64_def)
qed

end
