(* ===== verification/ReceiveBuffer.thy ===== *)
theory ReceiveBuffer
  imports Ranges
begin

text \<open>
  The receive buffer of \<open>protocols/tcp/receiver_buffer.go\<close>: the next expected position, the
  advertised window and the ranges that arrived out of order.  Its abstract specification is the
  set of positions received so far.
\<close>

record receive_buffer =
  nextExpectedSeq :: nat
  capacity :: nat
  bufferedBytes :: int
  rb_ranges :: ranges

definition windowBytes :: "receive_buffer \<Rightarrow> nat" where
  "windowBytes b = (let remainingPositions = max_u64 - nextExpectedSeq b in u16 (min (capacity b) remainingPositions))"

definition window_end :: "receive_buffer \<Rightarrow> nat" where
  "window_end b = u64 (nextExpectedSeq b + windowBytes b)"

definition overlapsWindow :: "nat \<Rightarrow> nat \<Rightarrow> receive_buffer \<Rightarrow> bool" where
  "overlapsWindow start end' b \<longleftrightarrow> start < window_end b \<and> nextExpectedSeq b < end'"

text \<open>The merging loop of \<open>accept\<close>, which also subtracts the bytes that had arrived before.\<close>

fun merge_new :: "nat \<Rightarrow> nat \<Rightarrow> sack_block \<Rightarrow> nat \<Rightarrow> ranges \<Rightarrow> sack_block \<times> nat \<times> nat" where
  "merge_new start end' merged newBytes [] = (merged, newBytes, 0)"
| "merge_new start end' merged newBytes (b # rs) =
     (if Start b \<le> End merged then
        let overlapStart = max start (Start b); overlapEnd = min end' (End b);
            newBytes = (if overlapStart < overlapEnd then u64_sub newBytes (overlapEnd - overlapStart) else newBytes);
            (m, nb, n) = merge_new start end'
              (block (min (Start merged) (Start b)) (max (End merged) (End b))) newBytes rs
        in (m, nb, Suc n)
      else (merged, newBytes, 0))"

definition replaceRanges :: "nat \<Rightarrow> nat \<Rightarrow> sack_block option \<Rightarrow> ranges \<Rightarrow> ranges" where
  "replaceRanges first afterLast merged rs =
     (case merged of
        Some m \<Rightarrow>
          if first = afterLast then make_room first m rs
          else close_gap (first + 1) afterLast (rs[first := m])
      | None \<Rightarrow> close_gap first afterLast rs)"

definition accept :: "nat \<Rightarrow> nat \<Rightarrow> receive_buffer \<Rightarrow> receive_buffer \<times> int" where
  "accept start end' b =
     (let start = max start (nextExpectedSeq b); end' = min end' (window_end b)
      in if end' \<le> start then (b, 0)
         else
           let first = first_touching start (rb_ranges b);
               (merged, newBytes, n) = merge_new start end' (block start end') (end' - start) (drop first (rb_ranges b));
               afterLast = first + n;
               b = b\<lparr>bufferedBytes := bufferedBytes b + int newBytes\<rparr>
           in if Start merged = nextExpectedSeq b then
                let consumedBytes = End merged - nextExpectedSeq b
                in (b\<lparr>nextExpectedSeq := End merged, bufferedBytes := bufferedBytes b - int consumedBytes,
                      rb_ranges := replaceRanges first afterLast None (rb_ranges b)\<rparr>, int newBytes)
              else (b\<lparr>rb_ranges := replaceRanges first afterLast (Some merged) (rb_ranges b)\<rparr>, int newBytes))"

section \<open>The merging loop\<close>

definition overlap :: "nat \<Rightarrow> nat \<Rightarrow> sack_block \<Rightarrow> nat" where
  "overlap s e b = min e (End b) - max s (Start b)"

lemma overlap_card: "overlap s e b = card {n \<in> {Start b..<End b}. n \<in> {s..<e}}"
proof -
  have "{n \<in> {Start b..<End b}. n \<in> {s..<e}} = {max s (Start b)..<min e (End b)}" by auto
  then show ?thesis by (simp add: overlap_def)
qed

lemma sum_overlap: "ranges_ok lo rs \<Longrightarrow> (\<Sum>b\<leftarrow>rs. overlap s e b) = card (positions rs \<inter> {s..<e})"
  using sum_holes [of lo rs "overlap s e" "\<lambda>n. n \<in> {s..<e}"] overlap_card [of s e] by (simp add: Int_def)

lemma merge_new_spec:
  "nb \<le> max_u64 \<Longrightarrow> (\<Sum>b\<leftarrow>rs. overlap s e b) \<le> nb \<Longrightarrow> absorb m rs = (m', n) \<Longrightarrow>
   merge_new s e m nb rs = (m', nb - (\<Sum>b\<leftarrow>take n rs. overlap s e b), n)"
proof (induction rs arbitrary: m nb m' n)
  case (Cons b rs)
  define d where "d = overlap s e b"
  have dS: "d + (\<Sum>b\<leftarrow>rs. overlap s e b) \<le> nb" using Cons.prems(2) by (simp add: d_def)
  have nb: "(if max s (Start b) < min e (End b) then u64_sub nb (min e (End b) - max s (Start b)) else nb) = nb - d"
    using dS Cons.prems(1) by (auto simp: d_def overlap_def)
  show ?case
  proof (cases "Start b \<le> End m")
    case True
    define m1 where "m1 = block (min (Start m) (Start b)) (max (End m) (End b))"
    obtain k where k: "absorb m1 rs = (m', k)" "n = Suc k"
      using Cons.prems(3) True by (auto simp: m1_def split: prod.splits)
    have "nb - d \<le> max_u64" "(\<Sum>b\<leftarrow>rs. overlap s e b) \<le> nb - d" using Cons.prems(1) dS by linarith+
    from Cons.IH [OF this k(1)]
    have "merge_new s e m1 (nb - d) rs = (m', nb - d - (\<Sum>b\<leftarrow>take k rs. overlap s e b), k)" .
    then show ?thesis
      using True by (simp only: merge_new.simps if_True Let_def nb m1_def [symmetric] k(2) prod.case)
        (simp add: d_def)
  next
    case False
    then show ?thesis using Cons.prems(3) by auto
  qed
qed simp

section \<open>Replacing\<close>

lemma replaceRanges_eq:
  assumes "first + n \<le> length rs"
  shows "replaceRanges first (first + n) None rs = take first rs @ drop (first + n) rs"
    "replaceRanges first (first + n) (Some m) rs = take first rs @ m # drop (first + n) rs"
proof -
  show "replaceRanges first (first + n) None rs = take first rs @ drop (first + n) rs"
    using assms by (simp add: replaceRanges_def close_gap_eq)
  show "replaceRanges first (first + n) (Some m) rs = take first rs @ m # drop (first + n) rs"
  proof (cases "n = 0")
    case True
    then show ?thesis using assms by (simp add: replaceRanges_def make_room_eq)
  next
    case False
    then have "first < length rs" using assms by simp
    then have "take (first + 1) (rs[first := m]) = take first rs @ [m]"
      by (simp add: take_Suc_conv_app_nth)
    moreover have "drop (first + n) (rs[first := m]) = drop (first + n) rs" using False by simp
    ultimately show ?thesis using False assms by (simp add: replaceRanges_def close_gap_eq)
  qed
qed

section \<open>The buffer's invariant\<close>

definition rb_ok :: "receive_buffer \<Rightarrow> bool" where
  "rb_ok b \<longleftrightarrow> nextExpectedSeq b \<le> max_u64 \<and> 0 < capacity b \<and> capacity b < 65536 \<and>
     ranges_ok (Suc (nextExpectedSeq b)) (rb_ranges b) \<and> positions (rb_ranges b) \<subseteq> {..<window_end b} \<and>
     bufferedBytes b = int (card (positions (rb_ranges b)))"

text \<open>The abstract state: every position received so far.\<close>

definition received :: "receive_buffer \<Rightarrow> nat set" where
  "received b = {..<nextExpectedSeq b} \<union> positions (rb_ranges b)"

lemma window_end_exact:
  assumes "rb_ok b"
  shows "window_end b = min (nextExpectedSeq b + capacity b) max_u64"
    "windowBytes b = window_end b - nextExpectedSeq b" "nextExpectedSeq b \<le> window_end b"
proof -
  have w: "windowBytes b = min (capacity b) (max_u64 - nextExpectedSeq b)"
    using assms unfolding windowBytes_def Let_def by (intro u16_id) (auto simp: rb_ok_def)
  then have "nextExpectedSeq b + windowBytes b \<le> max_u64" using assms by (auto simp: rb_ok_def)
  then have e: "window_end b = nextExpectedSeq b + windowBytes b" by (simp add: window_end_def)
  then show "window_end b = min (nextExpectedSeq b + capacity b) max_u64"
    using w assms by (auto simp: rb_ok_def)
  show "windowBytes b = window_end b - nextExpectedSeq b" "nextExpectedSeq b \<le> window_end b" using e by simp_all
qed

text \<open>The arriving bytes the window admits.\<close>

definition admitted :: "nat \<Rightarrow> nat \<Rightarrow> receive_buffer \<Rightarrow> nat set" where
  "admitted start end' b = {max start (nextExpectedSeq b)..<min end' (window_end b)}"


lemma accept_nothing:
  assumes "admitted s e b = {}"
  shows "accept s e b = (b, 0)"
proof -
  have "min e (window_end b) \<le> max s (nextExpectedSeq b)"
    using assms by (simp only: admitted_def atLeastLessThan_empty_iff not_less)
  then show ?thesis by (simp only: accept_def Let_def if_True)
qed

lemma accept_spec:
  assumes "rb_ok b" "accept s e b = (b', n)"
  shows "received b' = received b \<union> admitted s e b"
    "n = int (card (admitted s e b - received b))"
    "rb_ok b'" "nextExpectedSeq b \<le> nextExpectedSeq b'" "capacity b' = capacity b"
proof -
  have "received b' = received b \<union> admitted s e b \<and> n = int (card (admitted s e b - received b)) \<and> rb_ok b' \<and>
    nextExpectedSeq b \<le> nextExpectedSeq b' \<and> capacity b' = capacity b"
  proof (cases "admitted s e b = {}")
    case True
    then show ?thesis using assms accept_nothing [OF True] by simp
  next
    case False
    define s' e' where "s' = max s (nextExpectedSeq b)" and "e' = min e (window_end b)"
    define rs where "rs = rb_ranges b"
    have ad: "admitted s e b = {s'..<e'}" by (simp add: admitted_def s'_def e'_def)
    have se: "s' < e'" "nextExpectedSeq b \<le> s'" "e' \<le> window_end b" using False ad by (auto simp: s'_def e'_def)
    have ok: "ranges_ok (Suc (nextExpectedSeq b)) rs" "positions rs \<subseteq> {..<window_end b}"
      "bufferedBytes b = int (card (positions rs))"
      using assms(1) by (auto simp: rb_ok_def rs_def)
    have wmax: "window_end b \<le> max_u64" using window_end_exact(1) [OF assms(1)] by simp
    have ok': "ranges_ok (nextExpectedSeq b) rs" using ok(1) by (rule ranges_ok_mono) simp
    define first where "first = first_touching s' rs"
    obtain m k where mk: "absorb (block s' e') (drop first rs) = (m, k)" by fastforce
    have inc: "Start (block s' e') < End (block s' e')" "nextExpectedSeq b \<le> Start (block s' e')" using se by simp_all
    have f: "first = first_touching (Start (block s' e')) rs" by (simp add: first_def)
    note mr = merged_ranges [OF ok' inc f mk]
    have fle: "first \<le> length rs" unfolding first_def by (rule first_touching_spec [OF ok'])
    have len: "first + k \<le> length rs" using mr(4) fle by linarith
    have dok: "ranges_ok (nextExpectedSeq b) (drop first rs)" unfolding first_def by (rule first_touching_spec [OF ok'])
    define tk where "tk = take k (drop first rs)"
    have tok: "ranges_ok (nextExpectedSeq b) tk"
      using dok unfolding tk_def by (metis append_take_drop_id ranges_ok_append)
    have le: "card (positions xs \<inter> {s'..<e'}) \<le> e' - s'" for xs
      using card_mono [of "{s'..<e'}" "positions xs \<inter> {s'..<e'}"] by simp
    have "e' - s' \<le> max_u64" using se wmax by linarith
    then have mn: "merge_new s' e' (block s' e') (e' - s') (drop first rs) =
        (m, e' - s' - card (positions tk \<inter> {s'..<e'}), k)"
      using merge_new_spec [OF _ _ mk, of "e' - s'" s' e'] sum_overlap [OF dok, of s' e'] le
        sum_overlap [OF tok, of s' e'] unfolding tk_def by simp
    have other: "positions rs \<inter> {s'..<e'} = positions tk \<inter> {s'..<e'}"
    proof -
      have split: "rs = take first rs @ tk @ drop (first + k) rs"
        unfolding tk_def by (metis append_take_drop_id drop_drop add.commute)
      have "End r < s'" if "r \<in> set (take first rs)" for r
        using that first_touching_spec(2) [OF ok', of s'] by (simp add: first_def)
      then have "positions (take first rs) \<inter> {s'..<e'} = {}" by (fastforce simp: positions_def)
      moreover have "ranges_ok (Suc (End m)) (drop (first + k) rs)"
        using mr(1) unfolding ranges_ok_append by simp
      then have "\<forall>j\<in>positions (drop (first + k) rs). End m < j" using ranges_ok_lower by (metis Suc_le_eq)
      moreover have "e' \<le> End m"
      proof -
        have "e' - 1 \<in> {Start m..<End m}" unfolding mr(3) using se(1) by auto
        then show ?thesis by auto
      qed
      ultimately have z: "positions (take first rs) \<inter> {s'..<e'} = {}" "positions (drop (first + k) rs) \<inter> {s'..<e'} = {}"
        by fastforce+
      have "positions rs = positions (take first rs) \<union> (positions tk \<union> positions (drop (first + k) rs))"
        by (subst split) simp
      then show ?thesis using z by blast
    qed
    define nb where "nb = e' - s' - card (positions tk \<inter> {s'..<e'})"
    have nb: "nb = card ({s'..<e'} - positions rs)"
    proof -
      have "card ({s'..<e'} - positions rs) = card {s'..<e'} - card ({s'..<e'} \<inter> positions rs)"
        by (rule card_Diff_subset_Int) simp
      then show ?thesis using other by (simp add: nb_def Int_commute)
    qed
    have news: "admitted s e b - received b = {s'..<e'} - positions rs"
      using se by (auto simp: ad received_def rs_def)
    have acc: "accept s e b = (if Start m = nextExpectedSeq b
      then (b\<lparr>nextExpectedSeq := End m, bufferedBytes := bufferedBytes b + int nb - int (End m - nextExpectedSeq b),
             rb_ranges := take first rs @ drop (first + k) rs\<rparr>, int nb)
      else (b\<lparr>bufferedBytes := bufferedBytes b + int nb, rb_ranges := take first rs @ m # drop (first + k) rs\<rparr>, int nb))"
      using se(1) len replaceRanges_eq [OF len]
      by (simp add: accept_def Let_def s'_def [symmetric] e'_def [symmetric] rs_def [symmetric] first_def [symmetric] mn nb_def)
    have cardU: "card (positions rs \<union> {s'..<e'}) = card (positions rs) + nb"
      using card_Un_disjoint [of "positions rs" "{s'..<e'} - positions rs"] nb by simp
    show ?thesis
    proof (cases "Start m = nextExpectedSeq b")
      case True
      have first0: "take first rs = []"
      proof (rule ccontr)
        assume ne: "take first rs \<noteq> []"
        have "ranges_ok (Suc (nextExpectedSeq b)) (take first rs)"
          unfolding first_def by (rule first_touching_spec [OF ok(1)])
        from ranges_ok_Start [OF this last_in_set [OF ne]]
        have "nextExpectedSeq b < End (last (take first rs))" by linarith
        moreover have "Suc (End (last (take first rs))) \<le> Start m" using mr(1) ne unfolding ranges_ok_append by simp
        ultimately show False using True by linarith
      qed
      have rest: "ranges_ok (Suc (End m)) (drop (first + k) rs)"
        using mr(1) unfolding ranges_ok_append by simp
      then have gt: "\<forall>j\<in>positions (drop (first + k) rs). End m < j" using ranges_ok_lower by (metis Suc_le_eq)
      have U: "positions rs \<union> {s'..<e'} = {nextExpectedSeq b..<End m} \<union> positions (drop (first + k) rs)"
        using mr(2) True first0 by simp
      have b': "b' = b\<lparr>nextExpectedSeq := End m, bufferedBytes := bufferedBytes b + int nb - int (End m - nextExpectedSeq b),
             rb_ranges := drop (first + k) rs\<rparr>" and n: "n = int nb"
        using acc True first0 assms(2) by simp_all
      have r: "received b' = received b \<union> admitted s e b"
      proof -
        have "{..<End m} = {..<nextExpectedSeq b} \<union> {nextExpectedSeq b..<End m}" using mr(6) True by auto
        then have "received b' = {..<nextExpectedSeq b} \<union> (positions rs \<union> {s'..<e'})"
          unfolding U by (simp add: b' received_def Un_assoc)
        then show ?thesis by (simp add: ad received_def rs_def Un_assoc)
      qed
      have "{nextExpectedSeq b..<End m} \<inter> positions (drop (first + k) rs) = {}" using gt by fastforce
      then have "card (positions rs) + nb = (End m - nextExpectedSeq b) + card (positions (drop (first + k) rs))"
        unfolding cardU [symmetric] U by (simp add: card_Un_disjoint)
      then have buf: "bufferedBytes b' = int (card (positions (rb_ranges b')))"
        using ok(3) by (simp add: b')
      have sub: "{nextExpectedSeq b..<End m} \<union> positions (drop (first + k) rs) \<subseteq> {..<window_end b}"
        unfolding U [symmetric] using ok(2) se(3) by auto
      have "End m - 1 \<in> {nextExpectedSeq b..<End m}" using mr(6) True by auto
      then have em: "End m \<le> window_end b" using sub by auto
      have cap: "0 < capacity b" "capacity b < 65536" using assms(1) by (auto simp: rb_ok_def)
      have rb: "rb_ok b'"
      proof -
        have w: "window_end b \<le> window_end b'"
        proof -
          have "windowBytes b' = min (capacity b) (max_u64 - End m)"
            unfolding windowBytes_def Let_def b' using cap by (subst u16_id) auto
          then have "window_end b' = min (End m + capacity b) max_u64"
            unfolding window_end_def using em wmax by (subst u64_id) (auto simp: b')
          then show ?thesis using window_end_exact(1) [OF assms(1)] mr(6) True by auto
        qed
        then have "positions (drop (first + k) rs) \<subseteq> {..<window_end b'}" using sub by fastforce
        then show ?thesis using rest buf cap em wmax by (simp add: rb_ok_def b')
      qed
      show ?thesis using r n nb news rb mr(6) True by (simp add: b')
    next
      case False
      have lt: "nextExpectedSeq b < Start m" using mr(5) False by simp
      have b': "b' = b\<lparr>bufferedBytes := bufferedBytes b + int nb, rb_ranges := take first rs @ m # drop (first + k) rs\<rparr>"
        and n: "n = int nb" using acc False assms(2) by simp_all
      have r: "received b' = received b \<union> admitted s e b"
        unfolding b' received_def ad using mr(2) by (auto simp: rs_def)
      have rok: "ranges_ok (Suc (nextExpectedSeq b)) (take first rs @ m # drop (first + k) rs)"
      proof (cases "take first rs")
        case Nil
        have "ranges_ok (nextExpectedSeq b) (m # drop (first + k) rs)" using mr(1) unfolding Nil by simp
        then show ?thesis unfolding Nil using lt by simp
      next
        case (Cons c cs)
        have "ranges_ok (Suc (nextExpectedSeq b)) (take first rs)"
          unfolding first_def by (rule first_touching_spec [OF ok(1)])
        then show ?thesis using mr(1) unfolding Cons by simp
      qed
      have pos: "positions (take first rs @ m # drop (first + k) rs) = positions rs \<union> {s'..<e'}" using mr(2) by simp
      have same: "window_end b' = window_end b" by (simp add: window_end_def windowBytes_def b')
      have "rb_ok b'"
        using assms(1) rok ok se(3) cardU unfolding rb_ok_def same by (simp add: b' pos [simplified]) auto
      then show ?thesis using r n nb news by (simp add: b')
    qed
  qed
  then show "received b' = received b \<union> admitted s e b"
    "n = int (card (admitted s e b - received b))"
    "rb_ok b'" "nextExpectedSeq b \<le> nextExpectedSeq b'" "capacity b' = capacity b"
    by blast+
qed


section \<open>What the buffer promises\<close>

definition new_buffer :: "nat \<Rightarrow> nat \<Rightarrow> receive_buffer" where
  "new_buffer next' cap = \<lparr>nextExpectedSeq = next', capacity = cap, bufferedBytes = 0, rb_ranges = []\<rparr>"

inductive rb_reach :: "receive_buffer \<Rightarrow> bool" where
  fresh: "next' \<le> max_u64 \<Longrightarrow> 0 < cap \<Longrightarrow> cap < 65536 \<Longrightarrow> rb_reach (new_buffer next' cap)"
| accepted: "rb_reach b \<Longrightarrow> rb_reach (fst (accept start end' b))"

lemma rb_reach_ok: "rb_reach b \<Longrightarrow> rb_ok b"
proof (induction rule: rb_reach.induct)
  case (accepted b start end')
  then show ?case using accept_spec(3) [of b start end'] by (metis prod.collapse)
qed (simp add: rb_ok_def new_buffer_def)

lemma rb_ok_facts:
  assumes "rb_ok b"
  shows "nextExpectedSeq b \<notin> received b" "{..<nextExpectedSeq b} \<subseteq> received b"
    "bufferedBytes b = int (card {n \<in> received b. nextExpectedSeq b < n})"
    "bufferedBytes b \<le> int (windowBytes b)"
proof -
  have gt: "\<forall>n\<in>positions (rb_ranges b). nextExpectedSeq b < n"
    using assms ranges_ok_lower by (metis rb_ok_def Suc_le_eq)
  then show "nextExpectedSeq b \<notin> received b" "{..<nextExpectedSeq b} \<subseteq> received b" by (auto simp: received_def)
  have "{n \<in> received b. nextExpectedSeq b < n} = positions (rb_ranges b)" using gt by (auto simp: received_def)
  then show "bufferedBytes b = int (card {n \<in> received b. nextExpectedSeq b < n})"
    using assms by (simp add: rb_ok_def)
  have "positions (rb_ranges b) \<subseteq> {nextExpectedSeq b..<window_end b}" using assms gt by (force simp: rb_ok_def)
  then have "card (positions (rb_ranges b)) \<le> card {nextExpectedSeq b..<window_end b}" by (intro card_mono) simp_all
  then show "bufferedBytes b \<le> int (windowBytes b)"
    using assms window_end_exact(2) [OF assms] by (simp add: rb_ok_def)
qed

text \<open>C25: The receive buffer refines the set of received positions: arriving data adds exactly the
  positions the window admits, the reported number of new bytes counts those not received before
  (each byte once, however segments overlap), and the acknowledgement never goes back.\<close>
theorem receive_buffer_refines_set:
  assumes "rb_reach b" "accept start end' b = (b', newBytes)"
  shows "received b' = received b \<union> {max start (nextExpectedSeq b)..<min end' (min (nextExpectedSeq b + capacity b) max_u64)} \<and>
    newBytes = int (card (received b' - received b)) \<and> nextExpectedSeq b \<le> nextExpectedSeq b'"
proof -
  note ok = rb_reach_ok [OF assms(1)]
  note a = accept_spec [OF ok assms(2)]
  have "received b' - received b = admitted start end' b - received b" using a(1) by blast
  then show ?thesis using a window_end_exact(1) [OF ok] by (simp add: admitted_def)
qed

theorem receive_buffer_refines_set_witness:
  "received (fst (accept 5 9 (new_buffer 1 100))) = {..<1} \<union> {5..<9} \<and> snd (accept 5 9 (new_buffer 1 100)) = 4"
proof -
  obtain b n where a: "accept 5 9 (new_buffer 1 100) = (b, n)" by fastforce
  have r: "rb_reach (new_buffer 1 100)" by (rule rb_reach.fresh) (simp_all add: max_u64_def)
  have e: "received (new_buffer 1 100) = {..<1}" by (simp add: received_def new_buffer_def)
  have "received b = {..<1} \<union> {5..<9} \<and> n = int (card (received b - {..<1}))"
    using receive_buffer_refines_set [OF r a] unfolding e by (simp add: new_buffer_def max_u64_def)
  moreover have "{..<1} \<union> {5..<9} - {..<1::nat} = {5..<9}" by auto
  ultimately show ?thesis using a by simp
qed

text \<open>C26: The acknowledged position is always the first one missing, everything below it has been
  received, the byte counter is exactly the number of received positions above it, and these fit
  the advertised window.\<close>
theorem receive_buffer_acknowledges_prefix:
  assumes "rb_reach b"
  shows "nextExpectedSeq b = (LEAST n. n \<notin> received b) \<and>
    bufferedBytes b = int (card {n \<in> received b. nextExpectedSeq b < n}) \<and>
    bufferedBytes b \<le> int (windowBytes b) \<and> windowBytes b \<le> capacity b"
proof -
  note ok = rb_reach_ok [OF assms]
  note f = rb_ok_facts [OF ok]
  have "(LEAST n. n \<notin> received b) = nextExpectedSeq b"
    using f(1,2) by (intro Least_equality) (auto simp: subset_iff not_less [symmetric])
  moreover have "windowBytes b \<le> capacity b"
    using window_end_exact [OF ok] by simp
  ultimately show ?thesis using f(3,4) by simp
qed

theorem receive_buffer_acknowledges_prefix_witness:
  "nextExpectedSeq (fst (accept 1 4 (new_buffer 1 100))) =
   (LEAST n. n \<notin> received (fst (accept 1 4 (new_buffer 1 100))))"
  using receive_buffer_acknowledges_prefix [OF rb_reach.accepted [OF rb_reach.fresh [of 1 100]], of 1 4]
  by (simp add: max_u64_def)

end
