(* ===== verification/SendBuffer.thy ===== *)
theory SendBuffer
  imports Packet SliceQueue
begin

text \<open>
  The send buffer of \<open>protocols/tcp/send_buffer.go\<close>: sent segments in sequence order until their
  ACK arrives.  Acknowledged slots are cleared in place and compacted later; the abstract state is
  the list of pending segments.
\<close>

record send_buffer =
  segments :: "packet list"
  firstPendingIndex :: nat

text \<open>\<open>model.Packet{}\<close>\<close>

definition zero_key :: client_key where
  "zero_key = \<lparr>SrcIP = [], SrcPort = 0, DstIP = [], DstPort = 0, Protocol = TCP\<rparr>"

definition zero_packet :: packet where
  "zero_packet = \<lparr>Key = zero_key, Flag = 0, Size = 0, Seq = 0, Ack = 0, ECN = NotECT, ReceiveWindowBytes = 0,
     SACKPermitted = False, SACKBlocks = []\<rparr>"

definition sb_empty :: send_buffer where
  "sb_empty = \<lparr>segments = [], firstPendingIndex = 0\<rparr>"

definition hasPending :: "send_buffer \<Rightarrow> bool" where
  "hasPending b \<longleftrightarrow> firstPendingIndex b < length (segments b)"

text \<open>Out of range, the index panics.\<close>

definition oldest :: "send_buffer \<Rightarrow> packet option" where
  "oldest b = (if firstPendingIndex b < length (segments b) then Some (segments b ! firstPendingIndex b) else None)"

definition sb_append :: "packet \<Rightarrow> send_buffer \<Rightarrow> send_buffer" where
  "sb_append p b = b\<lparr>segments := segments b @ [p]\<rparr>"

definition segment_end :: "packet \<Rightarrow> nat" where
  "segment_end p = u64 (Seq p + nat (Size p))"

function confirm :: "nat \<Rightarrow> packet list \<Rightarrow> nat \<Rightarrow> packet list \<times> nat" where
  "confirm ack segs i =
     (if i < length segs then
        let p = segs ! i
        in if ack \<le> Seq p then (segs, i)
           else if ack < segment_end p then
             (segs[i := p\<lparr>Size := int (segment_end p - ack), Seq := ack\<rparr>], i)
           else confirm ack (segs[i := zero_packet]) (i + 1)
      else (segs, i))"
  by pat_completeness auto
termination by (relation "measure (\<lambda>(_, segs, i). length segs - i)") auto

declare confirm.simps [simp del]

definition sb_acknowledge :: "nat \<Rightarrow> send_buffer \<Rightarrow> send_buffer" where
  "sb_acknowledge ack b =
     (let (segs, first) = confirm ack (segments b) (firstPendingIndex b);
          remainingSegments = length segs - first
      in if remainingSegments = 0 then b\<lparr>segments := [], firstPendingIndex := 0\<rparr>
         else if remainingSegments \<le> first then
           b\<lparr>segments := take remainingSegments (go_copy segs (drop first segs)), firstPendingIndex := 0\<rparr>
         else b\<lparr>segments := segs, firstPendingIndex := first\<rparr>)"

definition sb_reset :: "send_buffer \<Rightarrow> send_buffer" where
  "sb_reset b = b\<lparr>segments := [], firstPendingIndex := 0\<rparr>"

section \<open>The pending segments\<close>

definition pending_segments :: "send_buffer \<Rightarrow> packet list" where
  "pending_segments b = drop (firstPendingIndex b) (segments b)"

text \<open>The abstract acknowledgement of a list of segments.\<close>

fun trim :: "nat \<Rightarrow> packet list \<Rightarrow> packet list" where
  "trim ack [] = []"
| "trim ack (p # ps) =
     (if ack \<le> Seq p then p # ps
      else if ack < segment_end p then p\<lparr>Size := int (segment_end p - ack), Seq := ack\<rparr> # ps
      else trim ack ps)"

text \<open>Segments that follow one another without a gap from \<open>s\<close> to \<open>e\<close>.\<close>

fun contiguous :: "nat \<Rightarrow> packet list \<Rightarrow> nat \<Rightarrow> bool" where
  "contiguous s [] e \<longleftrightarrow> s = e"
| "contiguous s (p # ps) e \<longleftrightarrow> Seq p = s \<and> 0 < Size p \<and> contiguous (s + nat (Size p)) ps e"

lemma confirm_spec:
  "i \<le> length segs \<Longrightarrow> confirm ack segs i = (segs', i') \<Longrightarrow>
   drop i' segs' = trim ack (drop i segs) \<and> i \<le> i' \<and> i' \<le> length segs' \<and> length segs' = length segs"
proof (induction ack segs i rule: confirm.induct)
  case (1 ack segs i)
  show ?case
  proof (cases "i < length segs")
    case True
    then have d: "drop i segs = segs ! i # drop (i + 1) segs" by (simp add: Cons_nth_drop_Suc)
    consider "ack \<le> Seq (segs ! i)" | "Seq (segs ! i) < ack" "ack < segment_end (segs ! i)"
      | "Seq (segs ! i) < ack" "segment_end (segs ! i) \<le> ack" by linarith
    then show ?thesis
    proof cases
      case 1
      then show ?thesis using "1.prems" True d by (auto simp: confirm.simps [of ack segs i] Let_def)
    next
      case 2
      then show ?thesis using "1.prems" True d
        by (auto simp: confirm.simps [of ack segs i] Let_def drop_update_swap)
    next
      case 3
      then have c: "confirm ack (segs[i := zero_packet]) (i + 1) = (segs', i')"
        using "1.prems" True by (simp add: confirm.simps [of ack segs i] Let_def)
      have "drop i' segs' = trim ack (drop (i + 1) (segs[i := zero_packet])) \<and> i + 1 \<le> i' \<and> i' \<le> length segs' \<and>
          length segs' = length (segs[i := zero_packet])"
        using "1.IH" [OF True refl _ _ _ c] 3 True by simp
      then show ?thesis using d 3 by (simp del: One_nat_def)
    qed
  next
    case False
    then show ?thesis using "1.prems" by (auto simp: confirm.simps [of ack segs "length segs"])
  qed
qed

text \<open>Acknowledging the buffer trims its pending segments, and keeps at most twice the slots it needs.\<close>

lemma sb_acknowledge_spec:
  assumes "firstPendingIndex b \<le> length (segments b)"
  shows "pending_segments (sb_acknowledge ack b) = trim ack (pending_segments b)"
    "firstPendingIndex (sb_acknowledge ack b) \<le> length (segments (sb_acknowledge ack b))"
    "length (segments (sb_acknowledge ack b)) \<le> 2 * length (pending_segments (sb_acknowledge ack b))"
proof -
  obtain segs first where c: "confirm ack (segments b) (firstPendingIndex b) = (segs, first)" by fastforce
  note s = confirm_spec [OF assms c]
  have cp: "take (length segs - first) (go_copy segs (drop first segs)) = drop first segs"
    using take_go_copy [of "drop first segs" segs] by simp
  have "pending_segments (sb_acknowledge ack b) = trim ack (pending_segments b) \<and>
    firstPendingIndex (sb_acknowledge ack b) \<le> length (segments (sb_acknowledge ack b)) \<and>
    length (segments (sb_acknowledge ack b)) \<le> 2 * length (pending_segments (sb_acknowledge ack b))"
    using s cp by (auto simp: sb_acknowledge_def c Let_def pending_segments_def)
  then show "pending_segments (sb_acknowledge ack b) = trim ack (pending_segments b)"
    "firstPendingIndex (sb_acknowledge ack b) \<le> length (segments (sb_acknowledge ack b))"
    "length (segments (sb_acknowledge ack b)) \<le> 2 * length (pending_segments (sb_acknowledge ack b))"
    by blast+
qed

lemma contiguous_le: "contiguous s ps e \<Longrightarrow> s \<le> e"
  by (induction s ps e rule: contiguous.induct) auto

lemma contiguous_append: "contiguous s (ps @ qs) e \<longleftrightarrow> (\<exists>m. contiguous s ps m \<and> contiguous m qs e)"
proof (induction ps arbitrary: s)
  case Nil
  show ?case using contiguous.simps(1) by auto
qed auto

lemma trim_contiguous:
  "contiguous s ps e \<Longrightarrow> e \<le> max_u64 \<Longrightarrow> s \<le> ack \<Longrightarrow> ack \<le> e \<Longrightarrow> contiguous ack (trim ack ps) e"
proof (induction s ps e rule: contiguous.induct)
  case (2 s p ps e)
  have p: "Seq p = s" "0 < Size p" "contiguous (s + nat (Size p)) ps e" using "2.prems"(1) by auto
  have "s + nat (Size p) \<le> e" using contiguous_le p(3) by blast
  then have se: "segment_end p = s + nat (Size p)" using "2.prems"(2) p(1) by (simp add: segment_end_def)
  consider "ack = s" | "s < ack" "ack < s + nat (Size p)" | "s < ack" "s + nat (Size p) \<le> ack"
    using "2.prems"(3) by linarith
  then show ?case
  proof cases
    case 1
    then show ?thesis using p by simp
  next
    case 2
    have "nat (int (s + nat (Size p) - ack)) = s + nat (Size p) - ack" by simp
    moreover have "ack + (s + nat (Size p) - ack) = s + nat (Size p)" using 2 by simp
    ultimately show ?thesis using 2 p se by (simp del: of_nat_diff)
  next
    case 3
    then show ?thesis using "2.IH" p se "2.prems" by simp
  qed
qed simp

section \<open>What the buffer promises\<close>

text \<open>The buffers a sender can reach: it appends the next segment and acknowledges sent positions.\<close>

inductive sb_reach :: "nat \<Rightarrow> nat \<Rightarrow> send_buffer \<Rightarrow> bool" where
  empty: "n \<le> max_u64 \<Longrightarrow> sb_reach n n sb_empty"
| appended: "sb_reach una next' b \<Longrightarrow> Seq p = next' \<Longrightarrow> 0 < Size p \<Longrightarrow> next' + nat (Size p) \<le> max_u64 \<Longrightarrow>
    sb_reach una (next' + nat (Size p)) (sb_append p b)"
| acked: "sb_reach una next' b \<Longrightarrow> una \<le> ack \<Longrightarrow> ack \<le> next' \<Longrightarrow> sb_reach ack next' (sb_acknowledge ack b)"
| cleared: "sb_reach una next' b \<Longrightarrow> sb_reach next' next' (sb_reset b)"

lemma sb_reach_inv:
  "sb_reach una next' b \<Longrightarrow> contiguous una (pending_segments b) next' \<and> next' \<le> max_u64 \<and>
     firstPendingIndex b \<le> length (segments b)"
proof (induction rule: sb_reach.induct)
  case (appended una next' b p)
  then show ?case by (auto simp: sb_append_def pending_segments_def contiguous_append)
next
  case (acked una next' b ack)
  then show ?case
    using sb_acknowledge_spec [of b ack] trim_contiguous [of una "pending_segments b" next' ack] by simp
qed (simp_all add: sb_empty_def pending_segments_def sb_reset_def)

text \<open>C27: The pending segments always cover exactly the positions from the first unacknowledged to
  the next to send, in order and without gap or overlap; an acknowledgement removes confirmed
  segments, trims a partly confirmed one and touches no other, and the buffer keeps at most twice as
  many slots as there are pending segments.\<close>
theorem send_buffer_covers_flight:
  assumes "sb_reach una next' b" "una \<le> ack" "ack \<le> next'"
  shows "contiguous una (pending_segments b) next' \<and>
    contiguous ack (pending_segments (sb_acknowledge ack b)) next' \<and>
    pending_segments (sb_acknowledge ack b) = trim ack (pending_segments b) \<and>
    (hasPending (sb_acknowledge ack b) \<longleftrightarrow> ack < next') \<and>
    length (segments (sb_acknowledge ack b)) \<le> 2 * length (pending_segments (sb_acknowledge ack b))"
proof -
  note i = sb_reach_inv [OF assms(1)] and j = sb_reach_inv [OF sb_reach.acked [OF assms]]
  have "hasPending (sb_acknowledge ack b) \<longleftrightarrow> pending_segments (sb_acknowledge ack b) \<noteq> []"
    by (simp add: hasPending_def pending_segments_def not_le)
  moreover have "pending_segments (sb_acknowledge ack b) \<noteq> [] \<longleftrightarrow> ack < next'"
    using j contiguous_le by (cases "pending_segments (sb_acknowledge ack b)") fastforce+
  ultimately show ?thesis using i j sb_acknowledge_spec [of b ack] by blast
qed

definition demo_segment :: "nat \<Rightarrow> int \<Rightarrow> packet" where
  "demo_segment s n = zero_packet\<lparr>Seq := s, Size := n, Flag := FlagACK\<rparr>"

theorem send_buffer_covers_flight_witness:
  "pending_segments (sb_acknowledge 1500 (sb_append (demo_segment 1025 1024) (sb_append (demo_segment 1 1024) sb_empty)))
   = [demo_segment 1500 549]"
proof -
  have a: "sb_reach 1 1025 (sb_append (demo_segment 1 1024) sb_empty)"
    using sb_reach.appended [OF sb_reach.empty [of 1], of "demo_segment 1 1024"]
    by (simp add: demo_segment_def zero_packet_def max_u64_def)
  have b: "sb_reach 1 2049 (sb_append (demo_segment 1025 1024) (sb_append (demo_segment 1 1024) sb_empty))"
    using sb_reach.appended [OF a, of "demo_segment 1025 1024"]
    by (simp add: demo_segment_def zero_packet_def max_u64_def)
  show ?thesis
    using send_buffer_covers_flight [OF b, of 1500]
    by (simp add: sb_append_def sb_empty_def pending_segments_def demo_segment_def zero_packet_def segment_end_def max_u64_def)
qed

end
