(* ===== verification/Receiver.thy ===== *)
theory Receiver
  imports Engine ReceiveBuffer
begin

text \<open>
  The passive side of a TCP connection: \<open>protocols/tcp/receiver.go\<close>, \<open>receiver_connection.go\<close>,
  \<open>receiver_closing.go\<close>, \<open>receiver_ack.go\<close>, \<open>receiver_sack.go\<close>, \<open>receiver_idle.go\<close> and
  \<open>ecn_receiver.go\<close>.

  A \<open>*receiveConnection\<close> is an address in the store \<open>rc_store\<close>, so that the code's comparisons
  \<open>r.connections[key] != conn\<close> are comparisons of addresses and a timer of a forgotten connection
  is told from its successor under the same key.  The closures given to the engine are the values
  of \<open>receiver_timer\<close>; \<open>fire\<close> runs them.  The callbacks of the host act on the host's state
  \<open>'h\<close>; like those of \<open>server/server.go\<close> they do not call the receiver back.  A nil callback is
  the identity, or the constant true.
\<close>

section \<open>State\<close>

record receive_connection =
  startedAt :: duration
  established :: bool
  conn_state :: tcp_state
  peerInitialSeq :: nat
  sendNextSeq :: nat
  rbuf :: receive_buffer
  lastActivity :: duration
  idleEvent :: nat
  pendingACKSegmentCount :: int
  delayedACKEvent :: nat
  sackPermitted :: bool
  sackRecent :: "sack_block list"
  ecnNegotiated :: bool
  ecnEcho :: bool
  closeStarted :: bool
  closeStartedAt :: duration
  rc_outcome :: "close_outcome option"
  finSent :: bool
  finAcked :: bool
  finSeq :: nat
  finRetries :: nat
  finTimeouts :: int
  finRTO :: duration
  finEvent :: nat
  waitEvent :: nat
  peerFIN :: bool
  peerFINSeq :: nat
  pendingFIN :: bool
  pendingFINSeq :: nat

datatype receiver_timer = IdleTimer client_key nat | DelayedACKTimer client_key nat
  | FINTimer client_key nat | FinWaitTimer client_key nat | TimeWaitTimer client_key nat

record ack_state =
  ack_Enabled :: bool
  SentACKCount :: nat
  TimerTriggeredACKCount :: nat

record ('c, 'h) receiver =
  rc_engine :: "'c engine"
  rc_host :: 'h
  rc_store :: "receive_connection list"
  connections :: "(client_key \<times> nat) list"
  rc_stopped :: bool
  trafficStarted :: bool
  activeConnections :: nat
  halfOpenConnections :: nat
  receivedPayloadBytes :: nat
  receiveBufferBytes :: nat
  sackEnabled :: bool
  rc_ecnState :: ecn_state
  delayedACKConfig :: delayed_ack_config
  rc_ackState :: ack_state
  halfOpenIdleTimeout :: duration
  establishedIdleTimeout :: duration
  rc_closeConfig :: close_config
  rc_rtoConfig :: rto_config

text \<open>\<open>timerEvent\<close> embeds the receiver's closures into the events of the engine it shares.\<close>

record ('c, 'h) receiver_callbacks =
  timerEvent :: "receiver_timer \<Rightarrow> 'c"
  Send :: "packet \<Rightarrow> 'h \<Rightarrow> 'h"
  CanOpen :: "'h \<Rightarrow> bool"
  CanEstablish :: "'h \<Rightarrow> bool"
  OnConnectionCounts :: "nat \<Rightarrow> nat \<Rightarrow> 'h \<Rightarrow> 'h"
  OnPayloadReceived :: "int \<Rightarrow> 'h \<Rightarrow> 'h"
  OnPeerFIN :: "duration \<Rightarrow> 'h \<Rightarrow> 'h"

type_synonym ('c, 'h) receiver_op = "('c, 'h) receiver \<Rightarrow> ('c, 'h) receiver option"

definition DefaultBackendHalfOpenIdleTimeout :: duration where
  "DefaultBackendHalfOpenIdleTimeout = 5000 * ms"

definition DefaultBackendEstablishedIdleTimeout :: duration where
  "DefaultBackendEstablishedIdleTimeout = 0"

definition NewReceiver :: "'c engine \<Rightarrow> 'h \<Rightarrow> ('c, 'h) receiver" where
  "NewReceiver e h = \<lparr>rc_engine = e, rc_host = h, rc_store = [], connections = [], rc_stopped = False,
     trafficStarted = False, activeConnections = 0, halfOpenConnections = 0, receivedPayloadBytes = 0,
     receiveBufferBytes = DefaultReceiveBufferBytes, sackEnabled = False, rc_ecnState = zero_ecn_state,
     delayedACKConfig = DefaultDelayedACKConfig,
     rc_ackState = \<lparr>ack_Enabled = False, SentACKCount = 0, TimerTriggeredACKCount = 0\<rparr>,
     halfOpenIdleTimeout = DefaultBackendHalfOpenIdleTimeout,
     establishedIdleTimeout = DefaultBackendEstablishedIdleTimeout,
     rc_closeConfig = DefaultCloseConfig, rc_rtoConfig = DefaultRTOConfig\<rparr>"

definition conn :: "nat \<Rightarrow> ('c, 'h) receiver \<Rightarrow> receive_connection" where
  "conn a r = rc_store r ! a"

definition upd ::
  "nat \<Rightarrow> (receive_connection \<Rightarrow> receive_connection) \<Rightarrow> ('c, 'h) receiver \<Rightarrow> ('c, 'h) receiver" where
  "upd a f r = r\<lparr>rc_store := (rc_store r)[a := f (rc_store r ! a)]\<rparr>"

definition lookup :: "client_key \<Rightarrow> ('c, 'h) receiver \<Rightarrow> nat option" where
  "lookup key r = map_of (connections r) key"

section \<open>Configuration before traffic\<close>

text \<open>\<open>r.trafficStarted || len(r.connections) != 0\<close>\<close>

definition hasTraffic :: "('c, 'h) receiver \<Rightarrow> bool" where
  "hasTraffic r \<longleftrightarrow> trafficStarted r \<or> connections r \<noteq> []"

definition SetReceiveBufferBytes :: "int \<Rightarrow> ('c, 'h) receiver_op" where
  "SetReceiveBufferBytes cap r =
     (if cap < 1 \<or> 65535 < cap then None
      else if hasTraffic r then None
      else Some (r\<lparr>receiveBufferBytes := nat cap\<rparr>))"

definition SetCloseConfig :: "close_config \<Rightarrow> ('c, 'h) receiver_op" where
  "SetCloseConfig config r =
     (if \<not> close_config_Valid config then None
      else if hasTraffic r then None
      else Some (r\<lparr>rc_closeConfig := config\<rparr>))"

definition SetRTOConfig :: "rto_config \<Rightarrow> ('c, 'h) receiver_op" where
  "SetRTOConfig config r =
     (let validMode = rto_Mode config = RTOFixed \<or> rto_Mode config = RTOAdaptive;
          validLimits = 0 < MinimumTimeout config \<and> MinimumTimeout config \<le> InitialTimeout config \<and>
            InitialTimeout config \<le> MaximumTimeout config
      in if \<not> validMode \<or> \<not> validLimits then None
         else if hasTraffic r then None
         else Some (r\<lparr>rc_rtoConfig := config\<rparr>))"

definition SetDelayedACKConfig :: "delayed_ack_config \<Rightarrow> ('c, 'h) receiver_op" where
  "SetDelayedACKConfig config r =
     (if \<not> delayed_ack_Valid config then None
      else if hasTraffic r then None
      else Some (r\<lparr>delayedACKConfig := config,
                   rc_ackState := (rc_ackState r)\<lparr>ack_Enabled := da_Enabled config\<rparr>\<rparr>))"

definition SetSACKEnabled :: "bool \<Rightarrow> ('c, 'h) receiver_op" where
  "SetSACKEnabled enabled r = (if hasTraffic r then None else Some (r\<lparr>sackEnabled := enabled\<rparr>))"

definition SetIdleTimeouts :: "duration \<Rightarrow> duration \<Rightarrow> ('c, 'h) receiver_op" where
  "SetIdleTimeouts halfOpen estab r =
     (if halfOpen < 0 \<or> estab < 0 then None
      else if hasTraffic r then None
      else Some (r\<lparr>halfOpenIdleTimeout := halfOpen, establishedIdleTimeout := estab\<rparr>))"

definition SetECNEnabled :: "bool \<Rightarrow> ('c, 'h) receiver_op" where
  "SetECNEnabled enabled r =
     (if hasTraffic r then None
      else Some (r\<lparr>rc_ecnState := (rc_ecnState r)\<lparr>ecn_Enabled := enabled\<rparr>\<rparr>))"

section \<open>Observations\<close>

definition GetECNState :: "('c, 'h) receiver \<Rightarrow> ecn_state" where
  "GetECNState r =
     (if list_ex (\<lambda>(_, a). ecnNegotiated (conn a r)) (connections r)
      then (rc_ecnState r)\<lparr>Negotiated := True\<rparr> else rc_ecnState r)"

definition GetConnectionState :: "client_key \<Rightarrow> ('c, 'h) receiver \<Rightarrow> close_state" where
  "GetConnectionState key r =
     (case lookup key r of
        None \<Rightarrow> \<lparr>cs_State = TCPClosed, cs_Outcome = None, FINRetransmissions = 0, cs_Elapsed = 0\<rparr>
      | Some a \<Rightarrow>
          let c = conn a r in
          \<lparr>cs_State = conn_state c, cs_Outcome = rc_outcome c, FINRetransmissions = finRetries c,
           cs_Elapsed = (if closeStarted c then i64 (eng_now (rc_engine r) - closeStartedAt c) else 0)\<rparr>)"

section \<open>Timers and messages\<close>

definition rc_cancel :: "nat \<Rightarrow> ('c, 'h) receiver_op" where
  "rc_cancel i r = do { (e, _) \<leftarrow> Cancel (rc_engine r) i; Some (r\<lparr>rc_engine := e\<rparr>) }"

definition rc_schedule ::
  "('c, 'h) receiver_callbacks \<Rightarrow> duration \<Rightarrow> receiver_timer \<Rightarrow> ('c, 'h) receiver \<Rightarrow>
   (('c, 'h) receiver \<times> nat) option" where
  "rc_schedule cb delay t r =
     do { (e, i) \<leftarrow> ScheduleAfter (rc_engine r) delay (timerEvent cb t); Some (r\<lparr>rc_engine := e\<rparr>, i) }"

definition notifyConnectionCounts :: "('c, 'h) receiver_callbacks \<Rightarrow> ('c, 'h) receiver \<Rightarrow> ('c, 'h) receiver" where
  "notifyConnectionCounts cb r =
     r\<lparr>rc_host := OnConnectionCounts cb (activeConnections r) (halfOpenConnections r) (rc_host r)\<rparr>"

definition emit :: "('c, 'h) receiver_callbacks \<Rightarrow> packet \<Rightarrow> ('c, 'h) receiver \<Rightarrow> ('c, 'h) receiver" where
  "emit cb p r = (if \<not> rc_stopped r then r\<lparr>rc_host := Send cb p (rc_host r)\<rparr> else r)"

definition cancelIdleTimer :: "nat \<Rightarrow> ('c, 'h) receiver_op" where
  "cancelIdleTimer a r = do {
     r \<leftarrow> rc_cancel (idleEvent (conn a r)) r;
     Some (upd a (\<lambda>c. c\<lparr>idleEvent := 0\<rparr>) r)
   }"

definition cancelDelayedACK :: "nat \<Rightarrow> ('c, 'h) receiver_op" where
  "cancelDelayedACK a r = do {
     r \<leftarrow> rc_cancel (delayedACKEvent (conn a r)) r;
     Some (upd a (\<lambda>c. c\<lparr>delayedACKEvent := 0, pendingACKSegmentCount := 0\<rparr>) r)
   }"

definition cancelCloseTimers :: "nat \<Rightarrow> ('c, 'h) receiver_op" where
  "cancelCloseTimers a r = do {
     r \<leftarrow> rc_cancel (finEvent (conn a r)) r;
     r \<leftarrow> rc_cancel (waitEvent (conn a r)) r;
     Some (upd a (\<lambda>c. c\<lparr>finEvent := 0, waitEvent := 0\<rparr>) r)
   }"

definition finishConnection ::
  "('c, 'h) receiver_callbacks \<Rightarrow> client_key \<Rightarrow> nat \<Rightarrow> close_outcome \<Rightarrow> ('c, 'h) receiver_op" where
  "finishConnection cb key a outcome r =
     (if lookup key r \<noteq> Some a then Some r
      else do {
        r \<leftarrow> cancelIdleTimer a r;
        r \<leftarrow> cancelCloseTimers a r;
        r \<leftarrow> cancelDelayedACK a r;
        let r = upd a (\<lambda>c. c\<lparr>conn_state := TCPClosed, rc_outcome := Some outcome\<rparr>) r;
        let r = r\<lparr>connections := filter (\<lambda>(k, _). k \<noteq> key) (connections r)\<rparr>;
        let r = (if established (conn a r)
                 then (if 0 < activeConnections r then r\<lparr>activeConnections := activeConnections r - 1\<rparr> else r)
                 else if 0 < halfOpenConnections r then r\<lparr>halfOpenConnections := halfOpenConnections r - 1\<rparr>
                 else r);
        Some (notifyConnectionCounts cb r)
      })"

definition scheduleIdleTimeout ::
  "('c, 'h) receiver_callbacks \<Rightarrow> client_key \<Rightarrow> nat \<Rightarrow> duration \<Rightarrow> ('c, 'h) receiver_op" where
  "scheduleIdleTimeout cb key a delay r =
     (if delay = 0 then Some r
      else do {
        (r, i) \<leftarrow> rc_schedule cb delay (IdleTimer key a) r;
        Some (upd a (\<lambda>c. c\<lparr>idleEvent := i\<rparr>) r)
      })"

definition recordConnectionActivity ::
  "('c, 'h) receiver_callbacks \<Rightarrow> client_key \<Rightarrow> nat \<Rightarrow> ('c, 'h) receiver_op" where
  "recordConnectionActivity cb key a r =
     (if lookup key r \<noteq> Some a \<or> conn_state (conn a r) \<noteq> TCPEstablished then Some r
      else
        let r = upd a (\<lambda>c. c\<lparr>lastActivity := eng_now (rc_engine r)\<rparr>) r
        in if idleEvent (conn a r) = 0 then scheduleIdleTimeout cb key a (establishedIdleTimeout r) r
           else Some r)"

definition fire_idle :: "('c, 'h) receiver_callbacks \<Rightarrow> client_key \<Rightarrow> nat \<Rightarrow> ('c, 'h) receiver_op" where
  "fire_idle cb key a r =
     (if lookup key r \<noteq> Some a then Some r
      else
        let r = upd a (\<lambda>c. c\<lparr>idleEvent := 0\<rparr>) r in
        if conn_state (conn a r) \<noteq> TCPEstablished \<and> conn_state (conn a r) \<noteq> TCPSynReceived then Some r
        else
          let limit = (if conn_state (conn a r) = TCPEstablished then establishedIdleTimeout r
                       else halfOpenIdleTimeout r);
              remaining = i64 (limit - i64 (eng_now (rc_engine r) - lastActivity (conn a r)))
          in if 0 < remaining then scheduleIdleTimeout cb key a remaining r
             else finishConnection cb key a CloseAborted r)"

section \<open>ECN\<close>

definition synAckFlags :: "receive_connection \<Rightarrow> flag" where
  "synAckFlags c =
     (let flags = FlagSYN OR FlagACK in if ecnNegotiated c then flags OR FlagECE else flags)"

definition observeECN :: "nat \<Rightarrow> packet \<Rightarrow> ('c, 'h) receiver \<Rightarrow> ('c, 'h) receiver" where
  "observeECN a pkt r =
     (if \<not> ecnNegotiated (conn a r) then r
      else
        let r = (if has_flag (Flag pkt) FlagCWR then upd a (\<lambda>c. c\<lparr>ecnEcho := False\<rparr>) r else r)
        in if 0 < Size pkt \<and> ECN pkt = CE
           then (upd a (\<lambda>c. c\<lparr>ecnEcho := True\<rparr>) r)
             \<lparr>rc_ecnState := (rc_ecnState r)\<lparr>ReceivedCEPacketCount := u64 (ReceivedCEPacketCount (rc_ecnState r) + 1)\<rparr>\<rparr>
           else r)"

definition ackFlags :: "nat \<Rightarrow> flag \<Rightarrow> ('c, 'h) receiver \<Rightarrow> ('c, 'h) receiver \<times> flag" where
  "ackFlags a flags r =
     (if ecnNegotiated (conn a r) \<and> ecnEcho (conn a r)
      then (r\<lparr>rc_ecnState := (rc_ecnState r)\<lparr>SentECECount := u64 (SentECECount (rc_ecnState r) + 1)\<rparr>\<rparr>,
            flags OR FlagECE)
      else (r, flags))"

section \<open>Selective acknowledgement\<close>

definition include_block :: "sack_block \<Rightarrow> sack_block list \<Rightarrow> sack_block list" where
  "include_block b recent =
     (if b \<in> set recent then recent
      else if length recent < MaxSACKBlocks then recent @ [b] else recent)"

text \<open>The first buffered range that meets \<open>[start, end)\<close>, if there is one.\<close>

definition touched :: "nat \<Rightarrow> nat \<Rightarrow> ranges \<Rightarrow> sack_block option" where
  "touched start end' rs = find (\<lambda>b. Start b < end' \<and> start < End b) rs"

definition include_touched :: "ranges \<Rightarrow> nat \<Rightarrow> nat \<Rightarrow> sack_block list \<Rightarrow> sack_block list" where
  "include_touched rs start end' recent =
     (case touched start end' rs of None \<Rightarrow> recent | Some b \<Rightarrow> include_block b recent)"

definition recordSACKArrival :: "nat \<Rightarrow> nat \<Rightarrow> receive_connection \<Rightarrow> receive_connection" where
  "recordSACKArrival start end' c =
     (if \<not> sackPermitted c then c
      else
        let rs = rb_ranges (rbuf c);
            recent = include_touched rs start end' [];
            recent = fold (\<lambda>previous recent.
              if length recent = MaxSACKBlocks then recent
              else include_touched rs (Start previous) (End previous) recent) (sackRecent c) recent;
            recent = fold (\<lambda>b recent. if length recent = MaxSACKBlocks then recent else include_block b recent) rs recent
        in c\<lparr>sackRecent := recent\<rparr>)"

section \<open>Acknowledgements\<close>

text \<open>The fields common to the segments that acknowledge data.\<close>

definition ack_packet :: "client_key \<Rightarrow> flag \<Rightarrow> nat \<Rightarrow> receive_connection \<Rightarrow> packet" where
  "ack_packet key flags seq c =
     \<lparr>Key = key, Flag = flags, Size = 0, Seq = seq, Ack = nextExpectedSeq (rbuf c), ECN = NotECT,
      ReceiveWindowBytes = windowBytes (rbuf c), SACKPermitted = False, SACKBlocks = sackRecent c\<rparr>"

definition acknowledge :: "('c, 'h) receiver_callbacks \<Rightarrow> client_key \<Rightarrow> nat \<Rightarrow> ('c, 'h) receiver_op" where
  "acknowledge cb key a r =
     (if rc_stopped r \<or> lookup key r \<noteq> Some a then Some r
      else do {
        r \<leftarrow> cancelDelayedACK a r;
        let r = r\<lparr>rc_ackState := (rc_ackState r)\<lparr>SentACKCount := u64 (SentACKCount (rc_ackState r) + 1)\<rparr>\<rparr>;
        let (r, flags) = ackFlags a FlagACK r;
        Some (emit cb (ack_packet key flags (sendNextSeq (conn a r)) (conn a r)) r)
      })"

definition acknowledgeData ::
  "('c, 'h) receiver_callbacks \<Rightarrow> client_key \<Rightarrow> nat \<Rightarrow> bool \<Rightarrow> ('c, 'h) receiver_op" where
  "acknowledgeData cb key a mayDelay r =
     (let config = delayedACKConfig r in
      if \<not> da_Enabled config \<or> \<not> mayDelay \<or> conn_state (conn a r) \<noteq> TCPEstablished \<or> pendingFIN (conn a r)
      then acknowledge cb key a r
      else
        let r = upd a (\<lambda>c. c\<lparr>pendingACKSegmentCount := pendingACKSegmentCount c + 1\<rparr>) r in
        if SegmentsPerACK config \<le> pendingACKSegmentCount (conn a r) then acknowledge cb key a r
        else if pendingACKSegmentCount (conn a r) = 1 then do {
          (r, i) \<leftarrow> rc_schedule cb (MaxDelay config) (DelayedACKTimer key a) r;
          Some (upd a (\<lambda>c. c\<lparr>delayedACKEvent := i\<rparr>) r)
        }
        else Some r)"

definition fire_delayed_ack :: "('c, 'h) receiver_callbacks \<Rightarrow> client_key \<Rightarrow> nat \<Rightarrow> ('c, 'h) receiver_op" where
  "fire_delayed_ack cb key a r =
     (if rc_stopped r \<or> lookup key r \<noteq> Some a \<or> pendingACKSegmentCount (conn a r) = 0 then Some r
      else
        let r = upd a (\<lambda>c. c\<lparr>delayedACKEvent := 0\<rparr>) r;
            r = r\<lparr>rc_ackState := (rc_ackState r)
                   \<lparr>TimerTriggeredACKCount := u64 (TimerTriggeredACKCount (rc_ackState r) + 1)\<rparr>\<rparr>
        in acknowledge cb key a r)"

section \<open>Closing\<close>

definition validACK :: "nat \<Rightarrow> receive_connection \<Rightarrow> bool" where
  "validACK ack c \<longleftrightarrow> 1 \<le> ack \<and> ack \<le> sendNextSeq c"

definition emitFIN :: "('c, 'h) receiver_callbacks \<Rightarrow> client_key \<Rightarrow> nat \<Rightarrow> ('c, 'h) receiver_op" where
  "emitFIN cb key a r = do {
     r \<leftarrow> cancelDelayedACK a r;
     let (r, flags) = ackFlags a (FlagFIN OR FlagACK) r;
     Some (emit cb (ack_packet key flags (finSeq (conn a r)) (conn a r)) r)
   }"

definition scheduleFIN :: "('c, 'h) receiver_callbacks \<Rightarrow> client_key \<Rightarrow> nat \<Rightarrow> ('c, 'h) receiver_op" where
  "scheduleFIN cb key a r = do {
     (r, i) \<leftarrow> rc_schedule cb (finRTO (conn a r)) (FINTimer key a) r;
     Some (upd a (\<lambda>c. c\<lparr>finEvent := i\<rparr>) r)
   }"

definition nextFinRTO :: "rto_config \<Rightarrow> duration \<Rightarrow> duration" where
  "nextFinRTO config rto =
     (if ExponentialBackoff config then
        let maximum = MaximumTimeout config
        in if i64 (maximum - rto) \<le> rto then maximum else i64 (rto * 2)
      else rto)"

definition fire_fin :: "('c, 'h) receiver_callbacks \<Rightarrow> client_key \<Rightarrow> nat \<Rightarrow> ('c, 'h) receiver_op" where
  "fire_fin cb key a r =
     (let r = upd a (\<lambda>c. c\<lparr>finEvent := 0\<rparr>) r in
      if lookup key r \<noteq> Some a \<or> finAcked (conn a r) then Some r
      else if MaxFINRetries (rc_closeConfig r) \<le> finTimeouts (conn a r) then
        finishConnection cb key a CloseFINRetryLimit r
      else do {
        let r = upd a (\<lambda>c. c\<lparr>finTimeouts := finTimeouts c + 1, finRetries := u64 (finRetries c + 1),
                           finRTO := nextFinRTO (rc_rtoConfig r) (finRTO c)\<rparr>) r;
        r \<leftarrow> scheduleFIN cb key a r;
        emitFIN cb key a r
      })"

definition startFIN ::
  "('c, 'h) receiver_callbacks \<Rightarrow> client_key \<Rightarrow> nat \<Rightarrow> tcp_state \<Rightarrow> ('c, 'h) receiver_op" where
  "startFIN cb key a state r = do {
     r \<leftarrow> cancelIdleTimer a r;
     let r = upd a (\<lambda>c. if \<not> closeStarted c
                        then c\<lparr>closeStarted := True, closeStartedAt := eng_now (rc_engine r)\<rparr> else c) r;
     let r = upd a (\<lambda>c. c\<lparr>conn_state := state, finSent := True, finSeq := sendNextSeq c,
                        sendNextSeq := u64 (sendNextSeq c + 1), finRTO := InitialTimeout (rc_rtoConfig r)\<rparr>) r;
     r \<leftarrow> scheduleFIN cb key a r;
     emitFIN cb key a r
   }"

definition enterTimeWait :: "('c, 'h) receiver_callbacks \<Rightarrow> client_key \<Rightarrow> nat \<Rightarrow> ('c, 'h) receiver_op" where
  "enterTimeWait cb key a r = do {
     r \<leftarrow> cancelCloseTimers a r;
     r \<leftarrow> cancelDelayedACK a r;
     let r = upd a (\<lambda>c. c\<lparr>conn_state := TCPTimeWait\<rparr>) r;
     (r, i) \<leftarrow> rc_schedule cb (i64 (2 * MSL (rc_closeConfig r))) (TimeWaitTimer key a) r;
     Some (upd a (\<lambda>c. c\<lparr>waitEvent := i\<rparr>) r)
   }"

text \<open>The result also says whether the connection is still open.\<close>

definition acknowledgeFIN ::
  "('c, 'h) receiver_callbacks \<Rightarrow> client_key \<Rightarrow> nat \<Rightarrow> nat \<Rightarrow> ('c, 'h) receiver \<Rightarrow>
   (bool \<times> ('c, 'h) receiver) option" where
  "acknowledgeFIN cb key a ack r =
     (if \<not> finSent (conn a r) \<or> finAcked (conn a r) \<or> ack \<noteq> sendNextSeq (conn a r) then Some (True, r)
      else do {
        let r = upd a (\<lambda>c. c\<lparr>finAcked := True\<rparr>) r;
        r \<leftarrow> rc_cancel (finEvent (conn a r)) r;
        let r = upd a (\<lambda>c. c\<lparr>finEvent := 0\<rparr>) r;
        (case conn_state (conn a r) of
           TCPFinWait1 \<Rightarrow> do {
             let r = upd a (\<lambda>c. c\<lparr>conn_state := TCPFinWait2\<rparr>) r;
             (r, i) \<leftarrow> rc_schedule cb (FinWaitTimeout (rc_closeConfig r)) (FinWaitTimer key a) r;
             Some (True, upd a (\<lambda>c. c\<lparr>waitEvent := i\<rparr>) r)
           }
         | TCPClosing \<Rightarrow> do { r \<leftarrow> enterTimeWait cb key a r; Some (True, r) }
         | TCPLastAck \<Rightarrow> do { r \<leftarrow> finishConnection cb key a CloseGraceful r; Some (False, r) }
         | _ \<Rightarrow> Some (True, r))
      })"

definition fire_wait ::
  "('c, 'h) receiver_callbacks \<Rightarrow> client_key \<Rightarrow> nat \<Rightarrow> close_outcome \<Rightarrow> ('c, 'h) receiver_op" where
  "fire_wait cb key a outcome r =
     (let r = upd a (\<lambda>c. c\<lparr>waitEvent := 0\<rparr>) r in finishConnection cb key a outcome r)"

definition consumeFIN ::
  "('c, 'h) receiver_callbacks \<Rightarrow> client_key \<Rightarrow> nat \<Rightarrow> nat \<Rightarrow> ('c, 'h) receiver_op" where
  "consumeFIN cb key a sequence r =
     (let now = eng_now (rc_engine r);
          r = upd a (\<lambda>c. c\<lparr>pendingFIN := False, peerFIN := True, peerFINSeq := sequence,
                rbuf := (rbuf c)\<lparr>nextExpectedSeq := u64 (nextExpectedSeq (rbuf c) + 1)\<rparr>\<rparr>) r;
          r = upd a (\<lambda>c. if \<not> closeStarted c
                         then c\<lparr>closeStarted := True, closeStartedAt := now\<rparr> else c) r;
          r = r\<lparr>rc_host := OnPeerFIN cb (i64 (now - startedAt (conn a r))) (rc_host r)\<rparr>
      in if rc_stopped r \<or> lookup key r \<noteq> Some a then Some r
         else case conn_state (conn a r) of
           TCPEstablished \<Rightarrow>
             let r = upd a (\<lambda>c. c\<lparr>conn_state := TCPCloseWait\<rparr>) r in startFIN cb key a TCPLastAck r
         | TCPFinWait1 \<Rightarrow>
             let r = upd a (\<lambda>c. c\<lparr>conn_state := TCPClosing\<rparr>) r in acknowledge cb key a r
         | TCPFinWait2 \<Rightarrow> do { r \<leftarrow> enterTimeWait cb key a r; acknowledge cb key a r }
         | _ \<Rightarrow> acknowledge cb key a r)"

definition establishConnection ::
  "('c, 'h) receiver_callbacks \<Rightarrow> client_key \<Rightarrow> nat \<Rightarrow> ('c, 'h) receiver \<Rightarrow>
   (bool \<times> ('c, 'h) receiver) option" where
  "establishConnection cb key a r =
     (if \<not> CanEstablish cb (rc_host r) then do {
        r \<leftarrow> finishConnection cb key a CloseAborted r;
        Some (False, r)
      }
      else if rc_stopped r \<or> lookup key r \<noteq> Some a then Some (False, r)
      else do {
        let r = upd a (\<lambda>c. c\<lparr>established := True, conn_state := TCPEstablished\<rparr>) r;
        r \<leftarrow> cancelIdleTimer a r;
        r \<leftarrow> recordConnectionActivity cb key a r;
        let r = (if 0 < halfOpenConnections r then r\<lparr>halfOpenConnections := halfOpenConnections r - 1\<rparr> else r);
        let r = r\<lparr>activeConnections := u32 (activeConnections r + 1)\<rparr>;
        let r = notifyConnectionCounts cb r;
        Some (\<not> rc_stopped r \<and> lookup key r = Some a, r)
      })"

definition handleRST :: "('c, 'h) receiver_callbacks \<Rightarrow> packet \<Rightarrow> nat option \<Rightarrow> ('c, 'h) receiver_op" where
  "handleRST cb pkt found r =
     (case found of
        None \<Rightarrow> Some r
      | Some a \<Rightarrow>
          let c = conn a r in
          if conn_state c = TCPClosed \<or> Size pkt \<noteq> 0 \<or> has_flag (Flag pkt) (FlagSYN OR FlagFIN OR FlagPSH) \<or>
             Seq pkt \<noteq> nextExpectedSeq (rbuf c) then Some r
          else if has_flag (Flag pkt) FlagACK \<and> \<not> validACK (Ack pkt) c then Some r
          else if conn_state c = TCPSynReceived \<and> (\<not> has_flag (Flag pkt) FlagACK \<or> Ack pkt \<noteq> sendNextSeq c)
          then Some r
          else finishConnection cb (Key pkt) a CloseReset r)"

definition handleFIN :: "('c, 'h) receiver_callbacks \<Rightarrow> packet \<Rightarrow> nat \<Rightarrow> ('c, 'h) receiver_op" where
  "handleFIN cb pkt a r =
     (let key = Key pkt; next = nextExpectedSeq (rbuf (conn a r)) in
      if Size pkt \<noteq> 0 \<or> has_flag (Flag pkt) FlagPSH then Some r
      else if peerFIN (conn a r) then
        (if Seq pkt \<noteq> peerFINSeq (conn a r) then Some r
         else do {
           (stillOpen, r) \<leftarrow> acknowledgeFIN cb key a (Ack pkt) r;
           if \<not> stillOpen then Some r
           else do {
             let r = observeECN a pkt r;
             r \<leftarrow> (if conn_state (conn a r) = TCPTimeWait then enterTimeWait cb key a r else Some r);
             if conn_state (conn a r) = TCPLastAck
             then emitFIN cb key a (upd a (\<lambda>c. c\<lparr>finRetries := u64 (finRetries c + 1)\<rparr>) r)
             else acknowledge cb key a r
           }
         })
      else if Seq pkt < next \<or> windowBytes (rbuf (conn a r)) \<le> Seq pkt - next then Some r
      else if pendingFIN (conn a r) \<and> Seq pkt \<noteq> pendingFINSeq (conn a r) then Some r
      else if list_ex (\<lambda>b. Seq pkt < End b) (rb_ranges (rbuf (conn a r))) then Some r
      else do {
        (go, r) \<leftarrow> (if \<not> established (conn a r) then establishConnection cb key a r else Some (True, r));
        if \<not> go then Some r
        else do {
          (stillOpen, r) \<leftarrow> acknowledgeFIN cb key a (Ack pkt) r;
          if \<not> stillOpen then Some r
          else do {
            let r = observeECN a pkt r;
            r \<leftarrow> recordConnectionActivity cb key a r;
            if Seq pkt \<noteq> nextExpectedSeq (rbuf (conn a r))
            then acknowledge cb key a (upd a (\<lambda>c. c\<lparr>pendingFIN := True, pendingFINSeq := Seq pkt\<rparr>) r)
            else consumeFIN cb key a (Seq pkt) r
          }
        }
      })"

section \<open>Opening\<close>

definition new_connection :: "packet \<Rightarrow> nat \<Rightarrow> ('c, 'h) receiver \<Rightarrow> receive_connection" where
  "new_connection pkt sequenceEnd r =
     \<lparr>startedAt = eng_now (rc_engine r), established = False, conn_state = TCPSynReceived,
      peerInitialSeq = Seq pkt, sendNextSeq = 1,
      rbuf = \<lparr>nextExpectedSeq = sequenceEnd, capacity = receiveBufferBytes r, bufferedBytes = 0, rb_ranges = []\<rparr>,
      lastActivity = eng_now (rc_engine r), idleEvent = 0, pendingACKSegmentCount = 0, delayedACKEvent = 0,
      sackPermitted = sackEnabled r \<and> SACKPermitted pkt, sackRecent = [],
      ecnNegotiated = ecn_Enabled (rc_ecnState r) \<and>
        Flag pkt AND (FlagECE OR FlagCWR) = FlagECE OR FlagCWR,
      ecnEcho = False, closeStarted = False, closeStartedAt = 0, rc_outcome = None, finSent = False,
      finAcked = False, finSeq = 0, finRetries = 0, finTimeouts = 0, finRTO = 0, finEvent = 0, waitEvent = 0,
      peerFIN = False, peerFINSeq = 0, pendingFIN = False, pendingFINSeq = 0\<rparr>"

definition openConnection :: "('c, 'h) receiver_callbacks \<Rightarrow> packet \<Rightarrow> nat \<Rightarrow> ('c, 'h) receiver_op" where
  "openConnection cb pkt sequenceEnd r = do {
     let a = length (rc_store r);
     let r = r\<lparr>rc_store := rc_store r @ [new_connection pkt sequenceEnd r],
              connections := (Key pkt, a) # connections r,
              halfOpenConnections := u32 (halfOpenConnections r + 1)\<rparr>;
     r \<leftarrow> scheduleIdleTimeout cb (Key pkt) a (halfOpenIdleTimeout r) r;
     Some (notifyConnectionCounts cb r)
   }"

definition answerSYN :: "('c, 'h) receiver_callbacks \<Rightarrow> packet \<Rightarrow> nat \<Rightarrow> ('c, 'h) receiver \<Rightarrow> ('c, 'h) receiver" where
  "answerSYN cb pkt a r =
     (let c = conn a r in
      if Seq pkt \<noteq> peerInitialSeq c \<or> finSent c \<or> conn_state c = TCPClosed then r
      else emit cb \<lparr>Key = Key pkt, Flag = synAckFlags c, Size = 0, Seq = 0, Ack = u64 (peerInitialSeq c + 1),
              ECN = NotECT, ReceiveWindowBytes = windowBytes (rbuf c), SACKPermitted = sackPermitted c,
              SACKBlocks = []\<rparr> r)"

definition handleSYN ::
  "('c, 'h) receiver_callbacks \<Rightarrow> packet \<Rightarrow> nat option \<Rightarrow> nat \<Rightarrow> ('c, 'h) receiver_op" where
  "handleSYN cb pkt found sequenceEnd r =
     (if Size pkt \<noteq> 0 \<or> has_flag (Flag pkt) FlagACK then Some r
      else case found of
        Some a \<Rightarrow> Some (answerSYN cb pkt a r)
      | None \<Rightarrow>
          if \<not> CanOpen cb (rc_host r) then Some r
          else if rc_stopped r \<or> lookup (Key pkt) r \<noteq> None then Some r
          else do {
            let a = length (rc_store r);
            r \<leftarrow> openConnection cb pkt sequenceEnd r;
            if rc_stopped r \<or> lookup (Key pkt) r \<noteq> Some a then Some r
            else Some (answerSYN cb pkt a r)
          })"

section \<open>Packets and host calls\<close>

text \<open>A data segment or a pure ACK completes the handshake when the standalone third ACK was lost.\<close>

definition completeHandshake ::
  "('c, 'h) receiver_callbacks \<Rightarrow> packet \<Rightarrow> nat \<Rightarrow> nat \<Rightarrow> ('c, 'h) receiver \<Rightarrow>
   (bool \<times> ('c, 'h) receiver) option" where
  "completeHandshake cb pkt a sequenceEnd r =
     (if established (conn a r) then Some (True, r)
      else
        let validSequence = (if 0 < Size pkt then overlapsWindow (Seq pkt) sequenceEnd (rbuf (conn a r))
                             else Seq pkt = nextExpectedSeq (rbuf (conn a r)))
        in if \<not> validSequence then Some (False, r) else establishConnection cb (Key pkt) a r)"

definition handlePureACK :: "('c, 'h) receiver_callbacks \<Rightarrow> packet \<Rightarrow> nat \<Rightarrow> ('c, 'h) receiver_op" where
  "handlePureACK cb pkt a r =
     (if Seq pkt = nextExpectedSeq (rbuf (conn a r)) then do {
        (stillOpen, r) \<leftarrow> acknowledgeFIN cb (Key pkt) a (Ack pkt) r;
        if stillOpen then recordConnectionActivity cb (Key pkt) a (observeECN a pkt r) else Some r
      }
      else Some r)"

text \<open>Storing the payload of a segment; the result says how many bytes were new.\<close>

definition storePayload ::
  "('c, 'h) receiver_callbacks \<Rightarrow> nat \<Rightarrow> nat \<Rightarrow> nat \<Rightarrow> ('c, 'h) receiver \<Rightarrow> int \<times> ('c, 'h) receiver" where
  "storePayload cb start sequenceEnd a r =
     (let (b, newBytes) = accept start sequenceEnd (rbuf (conn a r));
          r = upd a (\<lambda>c. recordSACKArrival start sequenceEnd (c\<lparr>rbuf := b\<rparr>)) r
      in if 0 < newBytes
         then (newBytes, r\<lparr>receivedPayloadBytes := u64 (receivedPayloadBytes r + nat newBytes),
                           rc_host := OnPayloadReceived cb newBytes (rc_host r)\<rparr>)
         else (newBytes, r))"

definition receivePayload ::
  "('c, 'h) receiver_callbacks \<Rightarrow> packet \<Rightarrow> nat \<Rightarrow> nat \<Rightarrow> ('c, 'h) receiver_op" where
  "receivePayload cb pkt a sequenceEnd r =
     (let key = Key pkt;
          windowBefore = windowBytes (rbuf (conn a r));
          mayDelayACK = Seq pkt = nextExpectedSeq (rbuf (conn a r)) \<and> rb_ranges (rbuf (conn a r)) = [];
          newECNFeedback = ecnNegotiated (conn a r) \<and> ECN pkt = CE \<and>
            (\<not> ecnEcho (conn a r) \<or> has_flag (Flag pkt) FlagCWR)
      in do {
        (stillOpen, r) \<leftarrow>
          (if overlapsWindow (Seq pkt) sequenceEnd (rbuf (conn a r)) then do {
             (stillOpen, r) \<leftarrow> acknowledgeFIN cb key a (Ack pkt) r;
             if \<not> stillOpen then Some (False, r)
             else do {
               r \<leftarrow> recordConnectionActivity cb key a (observeECN a pkt r);
               Some (True, r)
             }
           }
           else Some (True, r));
        if \<not> stillOpen then Some r
        else do {
          let sequenceEnd = (if pendingFIN (conn a r) then min sequenceEnd (pendingFINSeq (conn a r)) else sequenceEnd);
          let (newBytes, r) = storePayload cb (Seq pkt) sequenceEnd a r;
          if lookup key r \<noteq> Some a then Some r
          else if pendingFIN (conn a r) \<and> nextExpectedSeq (rbuf (conn a r)) = pendingFINSeq (conn a r)
          then consumeFIN cb key a (pendingFINSeq (conn a r)) r
          else acknowledgeData cb key a (mayDelayACK \<and> newBytes = Size pkt \<and>
                 windowBefore = windowBytes (rbuf (conn a r)) \<and> \<not> newECNFeedback) r
        }
      })"

definition HandlePacket :: "('c, 'h) receiver_callbacks \<Rightarrow> packet \<Rightarrow> ('c, 'h) receiver_op" where
  "HandlePacket cb pkt r =
     (if rc_stopped r \<or> Protocol (Key pkt) \<noteq> TCP then Some r
      else
        let r = r\<lparr>trafficStarted := True\<rparr>; found = lookup (Key pkt) r in
        case SequenceEnd pkt of
          None \<Rightarrow> Some r
        | Some sequenceEnd \<Rightarrow>
            if \<not> ValidSACKOptions pkt \<or> has_flag (Flag pkt) FlagSYN \<and> has_flag (Flag pkt) FlagFIN then Some r
            else if has_flag (Flag pkt) FlagRST then handleRST cb pkt found r
            else if has_flag (Flag pkt) FlagSYN then handleSYN cb pkt found sequenceEnd r
            else case found of
              None \<Rightarrow> Some r
            | Some a \<Rightarrow>
                if conn_state (conn a r) = TCPClosed \<or> \<not> has_flag (Flag pkt) FlagACK \<or>
                   \<not> validACK (Ack pkt) (conn a r) then Some r
                else if has_flag (Flag pkt) FlagFIN then handleFIN cb pkt a r
                else do {
                  (go, r) \<leftarrow> completeHandshake cb pkt a sequenceEnd r;
                  if \<not> go then Some r
                  else if Size pkt = 0 then handlePureACK cb pkt a r
                  else if peerFIN (conn a r) then Some r
                  else receivePayload cb pkt a sequenceEnd r
                })"

definition CloseConnection :: "('c, 'h) receiver_callbacks \<Rightarrow> client_key \<Rightarrow> ('c, 'h) receiver_op" where
  "CloseConnection cb key r =
     (case lookup key r of
        None \<Rightarrow> Some r
      | Some a \<Rightarrow>
          if \<not> established (conn a r) \<or> conn_state (conn a r) \<noteq> TCPEstablished then Some r
          else startFIN cb key a TCPFinWait1 r)"

definition AbortConnection :: "('c, 'h) receiver_callbacks \<Rightarrow> client_key \<Rightarrow> ('c, 'h) receiver_op" where
  "AbortConnection cb key r =
     (case lookup key r of
        None \<Rightarrow> Some r
      | Some a \<Rightarrow>
          if conn_state (conn a r) = TCPClosed then Some r
          else do {
            let packet = \<lparr>Key = key, Flag = FlagRST OR FlagACK, Size = 0, Seq = sendNextSeq (conn a r),
              Ack = nextExpectedSeq (rbuf (conn a r)), ECN = NotECT, ReceiveWindowBytes = 0,
              SACKPermitted = False, SACKBlocks = []\<rparr>;
            r \<leftarrow> cancelCloseTimers a r;
            r \<leftarrow> cancelDelayedACK a r;
            let r = upd a (\<lambda>c. c\<lparr>conn_state := TCPClosed, rc_outcome := Some CloseAborted\<rparr>) r;
            finishConnection cb key a CloseAborted (emit cb packet r)
          })"

definition ForgetConnection :: "('c, 'h) receiver_callbacks \<Rightarrow> client_key \<Rightarrow> ('c, 'h) receiver_op" where
  "ForgetConnection cb key r =
     (case lookup key r of None \<Rightarrow> Some r | Some a \<Rightarrow> finishConnection cb key a CloseAborted r)"

text \<open>The order in which Go ranges over the map is not defined; here it is that of the list.\<close>

fun forget_all :: "('c, 'h) receiver_callbacks \<Rightarrow> client_key list \<Rightarrow> ('c, 'h) receiver_op" where
  "forget_all cb [] r = Some r"
| "forget_all cb (key # keys) r = do { r \<leftarrow> ForgetConnection cb key r; forget_all cb keys r }"

definition rc_Shutdown :: "('c, 'h) receiver_callbacks \<Rightarrow> ('c, 'h) receiver_op" where
  "rc_Shutdown cb r =
     (if rc_stopped r then Some r
      else let r = r\<lparr>rc_stopped := True\<rparr> in forget_all cb (map fst (connections r)) r)"

text \<open>The closures run by the engine.\<close>

fun fire :: "('c, 'h) receiver_callbacks \<Rightarrow> receiver_timer \<Rightarrow> ('c, 'h) receiver_op" where
  "fire cb (IdleTimer key a) r = fire_idle cb key a r"
| "fire cb (DelayedACKTimer key a) r = fire_delayed_ack cb key a r"
| "fire cb (FINTimer key a) r = fire_fin cb key a r"
| "fire cb (FinWaitTimer key a) r = fire_wait cb key a CloseWaitTimeout r"
| "fire cb (TimeWaitTimer key a) r = fire_wait cb key a CloseGraceful r"

end
