(* ===== verification/Timers.thy ===== *)
theory Timers
  imports Engine
begin

text \<open>Facts about scheduling and cancelling that the owners of timers share.\<close>

lemma pending_nonzero: "eng_inv e \<Longrightarrow> x \<in> pending e \<Longrightarrow> ev_id x \<noteq> 0"
  by (auto simp: eng_inv_def)

lemma Cancel_pending:
  assumes "eng_inv e"
  shows "\<exists>e' b. Cancel e i = Some (e', b) \<and> eng_inv e' \<and> pending e' = {x \<in> pending e. ev_id x \<noteq> i} \<and>
    next_id e' = next_id e \<and> eng_now e' = eng_now e \<and> end_time e' = end_time e"
proof (cases "\<exists>x \<in> pending e. ev_id x = i")
  case True
  then obtain x where x: "x \<in> pending e" "ev_id x = i" by blast
  obtain e' where c: "Cancel e i = Some (e', True)" "eng_inv e'" "pending e' = pending e - {x}"
    "e' = e\<lparr>queue := queue e', by_id := by_id e'\<rparr>"
    using Cancel_inv [OF assms x] by blast
  have "eng_now e' = eng_now e" "next_id e' = next_id e" "end_time e' = end_time e" by (subst c(4), simp)+
  moreover have "y = x \<longleftrightarrow> ev_id y = i" if "y \<in> pending e" for y
    using pending_id_inj [OF assms that x(1)] x(2) by metis
  ultimately show ?thesis using c(1-3) by blast
next
  case False
  then show ?thesis using Cancel_unknown [OF assms] assms by blast
qed

text \<open>
  What a component does to the engine it shares: only calls, and only its own events are new; \<open>T\<close>
  holds the callbacks of the component.
\<close>

definition own_api :: "'c set \<Rightarrow> 'c engine \<Rightarrow> 'c engine \<Rightarrow> bool" where
  "own_api T e e' \<longleftrightarrow> api e e' \<and> (\<forall>x\<in>pending e'. x \<in> pending e \<or> ev_callback x \<in> T)"

lemma own_api_refl: "own_api T e e"
  by (simp add: own_api_def api_refl)

lemma own_api_trans: "own_api T e e' \<Longrightarrow> own_api T e' e'' \<Longrightarrow> own_api T e e''"
  unfolding own_api_def using api_trans by blast

lemma own_api_Cancel:
  assumes "eng_inv e" "Cancel e i = Some (e', b)"
  shows "own_api T e e'"
  using Cancel_pending [OF assms(1), of i] assms(2) api_Cancel [OF assms(2)] by (auto simp: own_api_def)

lemma own_api_ScheduleAfter:
  assumes "eng_inv e" "ScheduleAfter e d cb = Some (e', i)" "cb \<in> T"
  shows "own_api T e e'"
proof (cases "i = 0")
  case True
  then show ?thesis using ScheduleAfter_zero [OF assms(1)] assms(2) own_api_refl by blast
next
  case False
  then show ?thesis
    using ScheduleAfter_inv [OF assms(1,2)] api_ScheduleAfter [OF assms(2)] assms(3) by (auto simp: own_api_def)
qed

end
