(* ===== verification/ReceiverInv.thy ===== *)
theory ReceiverInv
  imports Receiver Timers
begin

text \<open>
  The invariant of the passive side of TCP and its preservation by every operation.  An operation
  works on one connection; \<open>rc_eng cb a\<close> is the part of the invariant that holds while the
  connection at address \<open>a\<close> is being changed, \<open>quiet\<close> says that a step leaves everything but the
  fields of connections and the timers alone, and \<open>conn_ok\<close> is what must hold of every live
  connection between operations.  The locale \<open>receiver_host\<close> states what the receiver's host
  promises about its callbacks.
\<close>

section \<open>What holds of a connection\<close>

definition config_ok :: "('c, 'h) receiver \<Rightarrow> bool" where
  "config_ok r \<longleftrightarrow> delayed_ack_Valid (delayedACKConfig r) \<and> close_config_Valid (rc_closeConfig r) \<and>
     0 < InitialTimeout (rc_rtoConfig r) \<and> InitialTimeout (rc_rtoConfig r) \<le> MaximumTimeout (rc_rtoConfig r) \<and>
     MaximumTimeout (rc_rtoConfig r) \<le> max_i64 \<and>
     0 \<le> halfOpenIdleTimeout r \<and> 0 \<le> establishedIdleTimeout r \<and>
     0 < receiveBufferBytes r \<and> receiveBufferBytes r < 65536"

text \<open>The states of the passive side, and what each says of the two directions.\<close>

definition state_ok :: "receive_connection \<Rightarrow> bool" where
  "state_ok c \<longleftrightarrow>
     conn_state c \<in> {TCPSynReceived, TCPEstablished, TCPFinWait1, TCPFinWait2, TCPClosing, TCPLastAck, TCPTimeWait} \<and>
     (established c \<longleftrightarrow> conn_state c \<noteq> TCPSynReceived) \<and>
     (finSent c \<longleftrightarrow> conn_state c \<notin> {TCPSynReceived, TCPEstablished}) \<and>
     (finAcked c \<longleftrightarrow> conn_state c \<in> {TCPFinWait2, TCPTimeWait}) \<and>
     (peerFIN c \<longleftrightarrow> conn_state c \<in> {TCPClosing, TCPLastAck, TCPTimeWait}) \<and>
     (pendingFIN c \<longrightarrow> conn_state c \<in> {TCPEstablished, TCPFinWait1, TCPFinWait2}) \<and>
     sendNextSeq c = (if finSent c then 2 else 1) \<and> (finSent c \<longrightarrow> finSeq c = 1) \<and>
     rc_outcome c = None"

text \<open>The byte stream of a connection; a FIN takes the position after the last byte.\<close>

definition stream_ok :: "receive_connection \<Rightarrow> bool" where
  "stream_ok c \<longleftrightarrow> rb_ok (rbuf c) \<and> peerInitialSeq c < nextExpectedSeq (rbuf c) \<and>
     (peerFIN c \<longrightarrow> rb_ranges (rbuf c) = [] \<and> nextExpectedSeq (rbuf c) = peerFINSeq c + 1 \<and>
        peerInitialSeq c < peerFINSeq c) \<and>
     (pendingFIN c \<longrightarrow> received (rbuf c) \<subseteq> {..<pendingFINSeq c} \<and> pendingFINSeq c < max_u64) \<and>
     length (sackRecent c) \<le> MaxSACKBlocks \<and> (\<forall>b\<in>set (sackRecent c). Start b < End b)"

definition timers_ok :: "('c, 'h) receiver \<Rightarrow> receive_connection \<Rightarrow> bool" where
  "timers_ok r c \<longleftrightarrow>
     (idleEvent c \<noteq> 0 \<longrightarrow> conn_state c \<in> {TCPSynReceived, TCPEstablished}) \<and>
     (waitEvent c \<noteq> 0 \<longrightarrow> conn_state c \<in> {TCPFinWait2, TCPTimeWait}) \<and>
     (finEvent c \<noteq> 0 \<longrightarrow> finSent c \<and> \<not> finAcked c) \<and>
     0 \<le> pendingACKSegmentCount c \<and> pendingACKSegmentCount c \<le> 1 \<and>
     (pendingACKSegmentCount c \<noteq> 0 \<longrightarrow> conn_state c = TCPEstablished \<and> \<not> pendingFIN c \<and>
        da_Enabled (delayedACKConfig r) \<and> SegmentsPerACK (delayedACKConfig r) = 2) \<and>
     (pendingACKSegmentCount c = 0 \<longrightarrow> delayedACKEvent c = 0) \<and>
     (finSent c \<longrightarrow> 0 < finRTO c \<and> finRTO c \<le> MaximumTimeout (rc_rtoConfig r)) \<and>
     0 \<le> finTimeouts c \<and> finTimeouts c \<le> MaxFINRetries (rc_closeConfig r) \<and>
     0 \<le> lastActivity c \<and> lastActivity c \<le> eng_now (rc_engine r) \<and>
     0 \<le> startedAt c \<and> startedAt c \<le> eng_now (rc_engine r) \<and>
     (closeStarted c \<longrightarrow> startedAt c \<le> closeStartedAt c \<and> closeStartedAt c \<le> eng_now (rc_engine r))"

definition conn_ok :: "('c, 'h) receiver \<Rightarrow> receive_connection \<Rightarrow> bool" where
  "conn_ok r c \<longleftrightarrow> state_ok c \<and> stream_ok c \<and> timers_ok r c"

text \<open>The payload a connection has received: every position but those of SYN and FIN.\<close>

definition payload_of :: "receive_connection \<Rightarrow> nat" where
  "payload_of c = nextExpectedSeq (rbuf c) + nat (bufferedBytes (rbuf c)) - (peerInitialSeq c + 1)
     - (if peerFIN c then 1 else 0)"

section \<open>Timers\<close>

fun timer_key :: "receiver_timer \<Rightarrow> client_key" where
  "timer_key (IdleTimer k a) = k" | "timer_key (DelayedACKTimer k a) = k" | "timer_key (FINTimer k a) = k"
| "timer_key (FinWaitTimer k a) = k" | "timer_key (TimeWaitTimer k a) = k"

fun timer_addr :: "receiver_timer \<Rightarrow> nat" where
  "timer_addr (IdleTimer k a) = a" | "timer_addr (DelayedACKTimer k a) = a" | "timer_addr (FINTimer k a) = a"
| "timer_addr (FinWaitTimer k a) = a" | "timer_addr (TimeWaitTimer k a) = a"

fun event_of :: "receiver_timer \<Rightarrow> receive_connection \<Rightarrow> nat" where
  "event_of (IdleTimer k a) c = idleEvent c" | "event_of (DelayedACKTimer k a) c = delayedACKEvent c"
| "event_of (FINTimer k a) c = finEvent c" | "event_of (FinWaitTimer k a) c = waitEvent c"
| "event_of (TimeWaitTimer k a) c = waitEvent c"

text \<open>A pending timer belongs to a live connection, which knows it.\<close>

definition timer_live :: "('c, 'h) receiver \<Rightarrow> nat \<Rightarrow> receiver_timer \<Rightarrow> bool" where
  "timer_live r i t \<longleftrightarrow> lookup (timer_key t) r = Some (timer_addr t) \<and> event_of t (conn (timer_addr t) r) = i"

definition rc_eng :: "('c, 'h) receiver_callbacks \<Rightarrow> nat \<Rightarrow> ('c, 'h) receiver \<Rightarrow> bool" where
  "rc_eng cb a r \<longleftrightarrow> eng_inv (rc_engine r) \<and>
     distinct (map fst (connections r)) \<and> distinct (map snd (connections r)) \<and>
     (\<forall>b\<in>snd ` set (connections r). b < length (rc_store r)) \<and>
     (\<forall>x\<in>pending (rc_engine r). \<forall>t. ev_callback x = timerEvent cb t \<longrightarrow> timer_live r (ev_id x) t) \<and>
     (\<forall>b\<in>snd ` set (connections r). b \<noteq> a \<longrightarrow> conn_ok r (conn b r)) \<and> config_ok r"

text \<open>What operations on timers and on the fields of connections leave alone.\<close>

definition quiet :: "('c, 'h) receiver \<Rightarrow> ('c, 'h) receiver \<Rightarrow> bool" where
  "quiet r r' \<longleftrightarrow> connections r' = connections r \<and> rc_stopped r' = rc_stopped r \<and>
     eng_now (rc_engine r') = eng_now (rc_engine r) \<and>
     length (rc_store r') = length (rc_store r) \<and>
     map established (rc_store r') = map established (rc_store r) \<and>
     map payload_of (rc_store r') = map payload_of (rc_store r) \<and>
     rc_host r' = rc_host r \<and> activeConnections r' = activeConnections r \<and>
     halfOpenConnections r' = halfOpenConnections r \<and> receivedPayloadBytes r' = receivedPayloadBytes r \<and>
     trafficStarted r' = trafficStarted r \<and>
     receiveBufferBytes r' = receiveBufferBytes r \<and> delayedACKConfig r' = delayedACKConfig r \<and>
     halfOpenIdleTimeout r' = halfOpenIdleTimeout r \<and> establishedIdleTimeout r' = establishedIdleTimeout r \<and>
     rc_closeConfig r' = rc_closeConfig r \<and> rc_rtoConfig r' = rc_rtoConfig r"

text \<open>At least \<open>n\<close> more events can be scheduled.\<close>

definition ids :: "nat \<Rightarrow> ('c, 'h) receiver \<Rightarrow> bool" where
  "ids n r \<longleftrightarrow> next_id (rc_engine r) + n \<le> max_u64"

lemma quiet_refl [simp]: "quiet r r"
  by (simp add: quiet_def)

lemma quiet_trans: "quiet r r' \<Longrightarrow> quiet r' r'' \<Longrightarrow> quiet r r''"
  by (simp add: quiet_def)

lemma conn_upd [simp]: "a < length (rc_store r) \<Longrightarrow> conn a (upd a f r) = f (conn a r)"
  by (simp add: conn_def upd_def)

lemma conn_upd_other [simp]: "b \<noteq> a \<Longrightarrow> conn b (upd a f r) = conn b r"
  by (simp add: conn_def upd_def)

lemma upd_sel [simp]:
  "rc_engine (upd a f r) = rc_engine r" "rc_host (upd a f r) = rc_host r"
  "connections (upd a f r) = connections r" "rc_stopped (upd a f r) = rc_stopped r"
  "length (rc_store (upd a f r)) = length (rc_store r)" "lookup k (upd a f r) = lookup k r"
  "delayedACKConfig (upd a f r) = delayedACKConfig r" "rc_closeConfig (upd a f r) = rc_closeConfig r"
  "rc_rtoConfig (upd a f r) = rc_rtoConfig r" "establishedIdleTimeout (upd a f r) = establishedIdleTimeout r"
  "halfOpenIdleTimeout (upd a f r) = halfOpenIdleTimeout r" "config_ok (upd a f r) = config_ok r"
  "activeConnections (upd a f r) = activeConnections r" "halfOpenConnections (upd a f r) = halfOpenConnections r"
  "receivedPayloadBytes (upd a f r) = receivedPayloadBytes r" "rc_ecnState (upd a f r) = rc_ecnState r"
  "receiveBufferBytes (upd a f r) = receiveBufferBytes r" "trafficStarted (upd a f r) = trafficStarted r"
  "ids n (upd a f r) = ids n r" "conn_ok (upd a f r) c = conn_ok r c"
  by (simp_all add: upd_def lookup_def config_ok_def ids_def conn_ok_def timers_ok_def)

lemma engine_sel [simp]:
  "conn b (r\<lparr>rc_engine := e\<rparr>) = conn b r" "lookup k (r\<lparr>rc_engine := e\<rparr>) = lookup k r"
  "config_ok (r\<lparr>rc_engine := e\<rparr>) = config_ok r"
  by (simp_all add: conn_def lookup_def config_ok_def)

lemma map_established: "b < length (rc_store r) \<Longrightarrow> established (conn b r) = map established (rc_store r) ! b"
  by (simp add: conn_def)

lemma quiet_upd:
  assumes "\<And>c. established (f c) = established c" "payload_of (f (conn a r)) = payload_of (conn a r)"
    "a < length (rc_store r)"
  shows "quiet r (upd a f r)"
  using assms by (auto simp: quiet_def upd_def conn_def map_update list_update_same_conv)

lemma quiet_lookup: "quiet r r' \<Longrightarrow> lookup k r' = lookup k r"
  by (simp add: quiet_def lookup_def)

lemma conn_ok_quiet: "quiet r r' \<Longrightarrow> conn_ok r' c = conn_ok r c"
  by (simp add: quiet_def conn_ok_def timers_ok_def)

lemma config_ok_quiet: "quiet r r' \<Longrightarrow> config_ok r' = config_ok r"
  by (simp add: quiet_def config_ok_def)

section \<open>Steps on timers and fields\<close>

lemma lookup_in: "lookup k r = Some a \<Longrightarrow> a \<in> snd ` set (connections r)"
  by (force simp: lookup_def dest: map_of_SomeD)

lemma rc_eng_addr: "rc_eng cb a r \<Longrightarrow> lookup k r = Some b \<Longrightarrow> b < length (rc_store r)"
  using lookup_in [of k r b] by (auto simp: rc_eng_def)

lemma rc_eng_upd:
  assumes r: "rc_eng cb a r" and a: "lookup k r = Some a"
    and same: "\<And>x t. x \<in> pending (rc_engine r) \<Longrightarrow> ev_callback x = timerEvent cb t \<Longrightarrow> timer_addr t = a \<Longrightarrow>
      event_of t (conn a r) = ev_id x \<Longrightarrow> event_of t (f (conn a r)) = event_of t (conn a r)"
  shows "rc_eng cb a (upd a f r)"
proof -
  have l: "a < length (rc_store r)" using rc_eng_addr [OF r a] .
  have "timer_live (upd a f r) (ev_id x) t"
    if x: "x \<in> pending (rc_engine r)" "ev_callback x = timerEvent cb t" for x t
  proof -
    have t: "timer_live r (ev_id x) t" using r x by (simp add: rc_eng_def)
    show ?thesis
      using t same [OF x] l by (cases "timer_addr t = a") (simp_all add: timer_live_def)
  qed
  then show ?thesis using r by (simp add: rc_eng_def)
qed

text \<open>A change that does not touch the timers' identifiers.\<close>

definition keeps_events :: "(receive_connection \<Rightarrow> receive_connection) \<Rightarrow> receive_connection \<Rightarrow> bool" where
  "keeps_events f c \<longleftrightarrow> idleEvent (f c) = idleEvent c \<and> delayedACKEvent (f c) = delayedACKEvent c \<and>
     finEvent (f c) = finEvent c \<and> waitEvent (f c) = waitEvent c"

lemma rc_eng_upd_keeps:
  assumes "rc_eng cb a r" "lookup k r = Some a" "keeps_events f (conn a r)"
  shows "rc_eng cb a (upd a f r)"
proof (rule rc_eng_upd [OF assms(1,2)])
  fix t :: receiver_timer
  show "event_of t (f (conn a r)) = event_of t (conn a r)"
    using assms(3) by (cases t) (auto simp: keeps_events_def)
qed

lemma quiet_engine:
  "eng_now e = eng_now (rc_engine r) \<Longrightarrow> quiet r (r\<lparr>rc_engine := e\<rparr>)"
  by (simp add: quiet_def)

lemma rc_cancel_ok:
  assumes "rc_eng cb a r"
  shows "\<exists>e. rc_cancel i r = Some (r\<lparr>rc_engine := e\<rparr>) \<and> rc_eng cb a (r\<lparr>rc_engine := e\<rparr>) \<and>
    pending e = {x \<in> pending (rc_engine r). ev_id x \<noteq> i} \<and> next_id e = next_id (rc_engine r) \<and>
    eng_now e = eng_now (rc_engine r) \<and> own_api (range (timerEvent cb)) (rc_engine r) e"
proof -
  have e: "eng_inv (rc_engine r)" using assms by (simp add: rc_eng_def)
  obtain e' b where c: "Cancel (rc_engine r) i = Some (e', b)" "eng_inv e'"
    "pending e' = {x \<in> pending (rc_engine r). ev_id x \<noteq> i}" "next_id e' = next_id (rc_engine r)"
    "eng_now e' = eng_now (rc_engine r)"
    using Cancel_pending [OF e] by blast
  have "rc_eng cb a (r\<lparr>rc_engine := e'\<rparr>)"
    using assms c unfolding rc_eng_def by (auto simp: timer_live_def conn_ok_def timers_ok_def)
  then show ?thesis using c own_api_Cancel [OF e c(1)] by (auto simp: rc_cancel_def)
qed

text \<open>A new timer, recorded in the connection's field for it, which no pending timer uses.\<close>

lemma rc_schedule_ok:
  assumes r: "rc_eng cb a r" and inj: "inj (timerEvent cb)" and d: "0 \<le> d" and n: "ids (Suc n) r"
    and t: "lookup (timer_key t) r = Some a" "timer_addr t = a"
    and f: "\<And>i. event_of t (f i (conn a r)) = i"
    and same: "\<And>x t' i. x \<in> pending (rc_engine r) \<Longrightarrow> ev_callback x = timerEvent cb t' \<Longrightarrow> timer_addr t' = a \<Longrightarrow>
      event_of t' (conn a r) = ev_id x \<Longrightarrow> event_of t' (f i (conn a r)) = event_of t' (conn a r)"
  shows "\<exists>r' i. rc_schedule cb d t r = Some (r', i) \<and> rc_eng cb a (upd a (f i) r') \<and> quiet r r' \<and>
    conn a r' = conn a r \<and> ids n r' \<and> rc_store r' = rc_store r \<and> own_api (range (timerEvent cb)) (rc_engine r) (rc_engine r') \<and>
    (i \<noteq> 0 \<longrightarrow> (\<exists>x\<in>pending (rc_engine r'). ev_id x = i \<and> ev_at x = eng_now (rc_engine r) + d \<and>
       ev_callback x = timerEvent cb t))"
proof -
  have e: "eng_inv (rc_engine r)" using r by (simp add: rc_eng_def)
  have l: "a < length (rc_store r)" using rc_eng_addr [OF r t(1)] .
  have "next_id (rc_engine r) < max_u64" using n by (simp add: ids_def)
  then obtain e' i where s: "ScheduleAfter (rc_engine r) d (timerEvent cb t) = Some (e', i)"
    using ScheduleAfter_Some [OF e d] by blast
  have sched: "rc_schedule cb d t r = Some (r\<lparr>rc_engine := e'\<rparr>, i)" using s by (simp add: rc_schedule_def)
  have api: "own_api (range (timerEvent cb)) (rc_engine r) e'" using own_api_ScheduleAfter [OF e s] by blast
  have nid: "next_id e' \<le> next_id (rc_engine r) + 1" using ScheduleAfter_next_id [OF e s] .
  show ?thesis
  proof (cases "i = 0")
    case True
    then have "e' = rc_engine r" using ScheduleAfter_zero [OF e] s by blast
    moreover have "rc_eng cb a (upd a (f 0) r)" by (rule rc_eng_upd [OF r t(1)]) (rule same)
    ultimately show ?thesis using sched True n api by (intro exI [of _ r] exI [of _ 0]) (simp add: ids_def)
  next
    case False
    let ?x = "\<lparr>ev_id = i, ev_at = eng_now (rc_engine r) + d, ev_callback = timerEvent cb t\<rparr>"
    from ScheduleAfter_inv [OF e s False]
    have e': "eng_inv e'" "pending e' = insert ?x (pending (rc_engine r))" "i = next_id (rc_engine r) + 1"
      and frame: "e' = rc_engine r\<lparr>next_id := next_id e', queue := queue e', by_id := by_id e'\<rparr>" by blast+
    have now: "eng_now e' = eng_now (rc_engine r)" by (subst frame) simp
    let ?r = "upd a (f i) (r\<lparr>rc_engine := e'\<rparr>)"
    have u: "conn b ?r = (if b = a then f i (conn a r) else conn b r)" for b
      using l by (simp add: conn_def upd_def)
    have lk: "lookup k ?r = lookup k r" for k by simp
    have live: "timer_live ?r (ev_id x) t'" if "x \<in> pending e'" "ev_callback x = timerEvent cb t'" for x t'
    proof (cases "x = ?x")
      case True
      then have "t' = t" using that(2) inj by (simp add: inj_eq)
      then show ?thesis using True t f by (simp add: timer_live_def u del: upd_sel) simp
    next
      case False
      then have x: "x \<in> pending (rc_engine r)" using that e' by simp
      then have tl: "timer_live r (ev_id x) t'" using r that(2) by (simp add: rc_eng_def)
      show ?thesis using tl same [OF x that(2), of i] unfolding timer_live_def u lk by auto
    qed
    have other: "\<forall>b\<in>snd ` set (connections r). b \<noteq> a \<longrightarrow> conn_ok ?r (conn b ?r)"
      using r unfolding u by (auto simp: rc_eng_def conn_ok_def timers_ok_def now)
    have "rc_eng cb a ?r" using r e' live other by (auto simp: rc_eng_def)
    then show ?thesis using sched now nid n e' api
      by (intro exI [of _ "r\<lparr>rc_engine := e'\<rparr>"] exI [of _ i]) (simp add: quiet_engine ids_def)
  qed
qed

section \<open>Operations on timers\<close>

text \<open>A quiet operation that keeps the invariant and schedules at most \<open>n\<close> events.\<close>

definition goes :: "('c, 'h) receiver_callbacks \<Rightarrow> nat \<Rightarrow> nat \<Rightarrow> ('c, 'h) receiver \<Rightarrow> ('c, 'h) receiver \<Rightarrow> bool" where
  "goes cb a n r r' \<longleftrightarrow> rc_eng cb a r' \<and> quiet r r' \<and> next_id (rc_engine r') \<le> next_id (rc_engine r) + n \<and>
     own_api (range (timerEvent cb)) (rc_engine r) (rc_engine r')"

lemma goes_trans: "goes cb a n r r' \<Longrightarrow> goes cb a m r' r'' \<Longrightarrow> goes cb a (n + m) r r''"
  unfolding goes_def using quiet_trans own_api_trans by fastforce

lemma goes_refl: "rc_eng cb a r \<Longrightarrow> goes cb a 0 r r"
  by (simp add: goes_def own_api_refl)

lemma goesD:
  assumes "goes cb a n r r'"
  shows "rc_eng cb a r'" "quiet r r'" "lookup k r' = lookup k r" "ids (n + m) r \<Longrightarrow> ids m r'"
    "rc_stopped r' = rc_stopped r" "conn_ok r' c = conn_ok r c" "config_ok r' = config_ok r"
  using assms quiet_lookup [of r r' k] conn_ok_quiet [of r r' c] config_ok_quiet [of r r']
  by (auto simp: goes_def ids_def quiet_def)

lemma goes_weaken: "goes cb a n r r' \<Longrightarrow> n \<le> m \<Longrightarrow> goes cb a m r r'"
  by (simp add: goes_def)

lemma goes_upd:
  assumes "rc_eng cb a r" "lookup k r = Some a" "keeps_events f (conn a r)"
    "\<And>c. established (f c) = established c" "payload_of (f (conn a r)) = payload_of (conn a r)"
  shows "goes cb a 0 r (upd a f r)" "conn a (upd a f r) = f (conn a r)"
  using rc_eng_upd_keeps [OF assms(1-3)] quiet_upd [OF assms(4,5) rc_eng_addr [OF assms(1,2)]]
    rc_eng_addr [OF assms(1,2)] by (simp_all add: goes_def own_api_refl)

lemmas conn_defs = keeps_events_def payload_of_def

lemma goes_schedule:
  assumes r: "rc_eng cb a r" and inj: "inj (timerEvent cb)" and d: "0 \<le> d" and n: "ids (Suc n) r"
    and t: "lookup (timer_key t) r = Some a" "timer_addr t = a"
    and f: "\<And>i. event_of t (f i (conn a r)) = i"
    and same: "\<And>x t' i. x \<in> pending (rc_engine r) \<Longrightarrow> ev_callback x = timerEvent cb t' \<Longrightarrow> timer_addr t' = a \<Longrightarrow>
      event_of t' (conn a r) = ev_id x \<Longrightarrow> event_of t' (f i (conn a r)) = event_of t' (conn a r)"
    and quiet: "\<And>i c. established (f i c) = established c" "\<And>i c. payload_of (f i c) = payload_of c"
  shows "\<exists>r' i. rc_schedule cb d t r = Some (r', i) \<and> goes cb a 1 r (upd a (f i) r') \<and>
    conn a (upd a (f i) r') = f i (conn a r) \<and>
    (i \<noteq> 0 \<longrightarrow> (\<exists>x\<in>pending (rc_engine (upd a (f i) r')). ev_id x = i \<and>
       ev_at x = eng_now (rc_engine r) + d \<and> ev_callback x = timerEvent cb t))"
proof -
  have n1: "ids (Suc (max_u64 - Suc (next_id (rc_engine r)))) r" using n by (simp add: ids_def)
  have "\<exists>r' i. rc_schedule cb d t r = Some (r', i) \<and> rc_eng cb a (upd a (f i) r') \<and> quiet r r' \<and>
    conn a r' = conn a r \<and> ids (max_u64 - Suc (next_id (rc_engine r))) r' \<and> rc_store r' = rc_store r \<and>
    own_api (range (timerEvent cb)) (rc_engine r) (rc_engine r') \<and> (i \<noteq> 0 \<longrightarrow> (\<exists>x\<in>pending (rc_engine r'). ev_id x = i \<and>
      ev_at x = eng_now (rc_engine r) + d \<and> ev_callback x = timerEvent cb t))"
    by (rule rc_schedule_ok [where f = f, OF r inj d n1 t f]) (rule same)
  then obtain r' i where s: "rc_schedule cb d t r = Some (r', i)" "rc_eng cb a (upd a (f i) r')" "quiet r r'"
      "conn a r' = conn a r" "ids (max_u64 - Suc (next_id (rc_engine r))) r'"
    and api: "own_api (range (timerEvent cb)) (rc_engine r) (rc_engine r')"
    and x: "i \<noteq> 0 \<longrightarrow> (\<exists>x\<in>pending (rc_engine r'). ev_id x = i \<and> ev_at x = eng_now (rc_engine r) + d \<and>
       ev_callback x = timerEvent cb t)" by blast
  have l: "a < length (rc_store r')" using s(3) rc_eng_addr [OF r t(1)] by (simp add: quiet_def)
  have "quiet r (upd a (f i) r')" by (rule quiet_trans [OF s(3) quiet_upd]) (simp_all add: quiet l)
  moreover have "next_id (rc_engine r') \<le> next_id (rc_engine r) + 1" using s(5) n by (auto simp: ids_def)
  ultimately show ?thesis using s(1,2,4) x l api by (auto simp: goes_def)
qed

lemma cancelIdleTimer_ok:
  assumes r: "rc_eng cb a r" and a: "lookup k r = Some a"
  shows "\<exists>r'. cancelIdleTimer a r = Some r' \<and> goes cb a 0 r r' \<and> conn a r' = (conn a r)\<lparr>idleEvent := 0\<rparr>"
proof -
  obtain e where c: "rc_cancel (idleEvent (conn a r)) r = Some (r\<lparr>rc_engine := e\<rparr>)" "rc_eng cb a (r\<lparr>rc_engine := e\<rparr>)"
    "pending e = {x \<in> pending (rc_engine r). ev_id x \<noteq> idleEvent (conn a r)}" "next_id e = next_id (rc_engine r)"
    "eng_now e = eng_now (rc_engine r)" "own_api (range (timerEvent cb)) (rc_engine r) e"
    using rc_cancel_ok [OF r] by blast
  let ?r = "upd a (\<lambda>c. c\<lparr>idleEvent := 0\<rparr>) (r\<lparr>rc_engine := e\<rparr>)"
  have l: "a < length (rc_store r)" using rc_eng_addr [OF r a] .
  have "rc_eng cb a ?r"
  proof (rule rc_eng_upd [OF c(2), of k])
    fix x t
    assume "x \<in> pending (rc_engine (r\<lparr>rc_engine := e\<rparr>))" "event_of t (conn a (r\<lparr>rc_engine := e\<rparr>)) = ev_id x"
    then show "event_of t ((conn a (r\<lparr>rc_engine := e\<rparr>))\<lparr>idleEvent := 0\<rparr>) = event_of t (conn a (r\<lparr>rc_engine := e\<rparr>))"
      using c(3) by (cases t) auto
  qed (simp add: a)
  moreover have "quiet r ?r"
    by (rule quiet_trans [OF quiet_engine quiet_upd]) (simp_all add: c l payload_of_def)
  ultimately show ?thesis using c l by (simp add: cancelIdleTimer_def goes_def)
qed

lemma cancelDelayedACK_ok:
  assumes r: "rc_eng cb a r" and a: "lookup k r = Some a"
  shows "\<exists>r'. cancelDelayedACK a r = Some r' \<and> goes cb a 0 r r' \<and>
    conn a r' = (conn a r)\<lparr>delayedACKEvent := 0, pendingACKSegmentCount := 0\<rparr>"
proof -
  obtain e where c: "rc_cancel (delayedACKEvent (conn a r)) r = Some (r\<lparr>rc_engine := e\<rparr>)"
    "rc_eng cb a (r\<lparr>rc_engine := e\<rparr>)" "pending e = {x \<in> pending (rc_engine r). ev_id x \<noteq> delayedACKEvent (conn a r)}"
    "next_id e = next_id (rc_engine r)" "eng_now e = eng_now (rc_engine r)" "own_api (range (timerEvent cb)) (rc_engine r) e"
    using rc_cancel_ok [OF r] by blast
  let ?f = "\<lambda>c. c\<lparr>delayedACKEvent := 0, pendingACKSegmentCount := 0\<rparr>"
  let ?r = "upd a ?f (r\<lparr>rc_engine := e\<rparr>)"
  have l: "a < length (rc_store r)" using rc_eng_addr [OF r a] .
  have "rc_eng cb a ?r"
  proof (rule rc_eng_upd [OF c(2), of k])
    fix x t
    assume "x \<in> pending (rc_engine (r\<lparr>rc_engine := e\<rparr>))" "event_of t (conn a (r\<lparr>rc_engine := e\<rparr>)) = ev_id x"
    then show "event_of t (?f (conn a (r\<lparr>rc_engine := e\<rparr>))) = event_of t (conn a (r\<lparr>rc_engine := e\<rparr>))"
      using c(3) by (cases t) auto
  qed (simp add: a)
  moreover have "quiet r ?r"
    by (rule quiet_trans [OF quiet_engine quiet_upd]) (simp_all add: c l payload_of_def)
  ultimately show ?thesis using c l by (simp add: cancelDelayedACK_def goes_def)
qed

lemma cancelFIN_ok:
  assumes r: "rc_eng cb a r" and a: "lookup k r = Some a"
  shows "\<exists>r'. rc_cancel (finEvent (conn a r)) r = Some r' \<and> goes cb a 0 r r' \<and> conn a r' = conn a r \<and>
    goes cb a 0 r (upd a (\<lambda>c. c\<lparr>finEvent := 0\<rparr>) r') \<and>
    conn a (upd a (\<lambda>c. c\<lparr>finEvent := 0\<rparr>) r') = (conn a r)\<lparr>finEvent := 0\<rparr> \<and>
    (\<forall>x\<in>pending (rc_engine r'). ev_id x \<noteq> finEvent (conn a r))"
proof -
  obtain e where c: "rc_cancel (finEvent (conn a r)) r = Some (r\<lparr>rc_engine := e\<rparr>)"
    "rc_eng cb a (r\<lparr>rc_engine := e\<rparr>)" "pending e = {x \<in> pending (rc_engine r). ev_id x \<noteq> finEvent (conn a r)}"
    "next_id e = next_id (rc_engine r)" "eng_now e = eng_now (rc_engine r)" "own_api (range (timerEvent cb)) (rc_engine r) e"
    using rc_cancel_ok [OF r] by blast
  let ?r = "upd a (\<lambda>c. c\<lparr>finEvent := 0\<rparr>) (r\<lparr>rc_engine := e\<rparr>)"
  have l: "a < length (rc_store r)" using rc_eng_addr [OF r a] .
  have "rc_eng cb a ?r"
  proof (rule rc_eng_upd [OF c(2), of k])
    fix x t
    assume "x \<in> pending (rc_engine (r\<lparr>rc_engine := e\<rparr>))" "event_of t (conn a (r\<lparr>rc_engine := e\<rparr>)) = ev_id x"
    then show "event_of t ((conn a (r\<lparr>rc_engine := e\<rparr>))\<lparr>finEvent := 0\<rparr>) = event_of t (conn a (r\<lparr>rc_engine := e\<rparr>))"
      using c(3) by (cases t) auto
  qed (simp add: a)
  moreover have "quiet r ?r"
    by (rule quiet_trans [OF quiet_engine quiet_upd]) (simp_all add: c l payload_of_def)
  ultimately show ?thesis using c l quiet_engine [of e r] by (simp add: goes_def)
qed

lemma cancelCloseTimers_ok:
  assumes r: "rc_eng cb a r" and a: "lookup k r = Some a"
  shows "\<exists>r'. cancelCloseTimers a r = Some r' \<and> goes cb a 0 r r' \<and>
    conn a r' = (conn a r)\<lparr>finEvent := 0, waitEvent := 0\<rparr>"
proof -
  obtain r1 where c1: "rc_cancel (finEvent (conn a r)) r = Some r1" "goes cb a 0 r r1" "conn a r1 = conn a r"
    "\<forall>x\<in>pending (rc_engine r1). ev_id x \<noteq> finEvent (conn a r)" using cancelFIN_ok [OF r a] by blast
  note g1 = goesD [OF c1(2)]
  obtain e where c: "rc_cancel (waitEvent (conn a r1)) r1 = Some (r1\<lparr>rc_engine := e\<rparr>)"
    "rc_eng cb a (r1\<lparr>rc_engine := e\<rparr>)" "pending e = {x \<in> pending (rc_engine r1). ev_id x \<noteq> waitEvent (conn a r1)}"
    "next_id e = next_id (rc_engine r1)" "eng_now e = eng_now (rc_engine r1)" "own_api (range (timerEvent cb)) (rc_engine r1) e"
    using rc_cancel_ok [OF g1(1)] by blast
  let ?f = "\<lambda>c. c\<lparr>finEvent := 0, waitEvent := 0\<rparr>"
  let ?r = "upd a ?f (r1\<lparr>rc_engine := e\<rparr>)"
  have a1: "lookup k r1 = Some a" using g1(3) a by simp
  have l: "a < length (rc_store r1)" using rc_eng_addr [OF g1(1) a1] .
  have "rc_eng cb a ?r"
  proof (rule rc_eng_upd [OF c(2), of k])
    fix x t
    assume "x \<in> pending (rc_engine (r1\<lparr>rc_engine := e\<rparr>))" "event_of t (conn a (r1\<lparr>rc_engine := e\<rparr>)) = ev_id x"
    then show "event_of t (?f (conn a (r1\<lparr>rc_engine := e\<rparr>))) = event_of t (conn a (r1\<lparr>rc_engine := e\<rparr>))"
      using c(3) c1(3,4) by (cases t) auto
  qed (simp add: a1)
  moreover have "quiet r1 ?r"
    by (rule quiet_trans [OF quiet_engine quiet_upd]) (simp_all add: c l payload_of_def)
  ultimately have "goes cb a 0 r1 ?r" using c by (simp add: goes_def)
  then have "goes cb a 0 r ?r" using goes_trans [OF c1(2)] by simp
  then show ?thesis using c c1 l by (simp add: cancelCloseTimers_def)
qed

text \<open>A pending timer's field is not zero.\<close>

lemma event_zero:
  assumes "rc_eng cb a r" "x \<in> pending (rc_engine r)" "event_of t (conn a r) = ev_id x"
  shows "event_of t (conn a r) \<noteq> 0"
  using pending_nonzero [of "rc_engine r" x] assms by (simp add: rc_eng_def)

lemma scheduleIdleTimeout_ok:
  assumes r: "rc_eng cb a r" and inj: "inj (timerEvent cb)" and d: "0 \<le> d" and n: "ids (Suc n) r"
    and a: "lookup k r = Some a" and z: "idleEvent (conn a r) = 0"
  shows "\<exists>r' i. scheduleIdleTimeout cb k a d r = Some r' \<and> goes cb a 1 r r' \<and>
    conn a r' = (conn a r)\<lparr>idleEvent := i\<rparr> \<and>
    (i \<noteq> 0 \<longrightarrow> (\<exists>x\<in>pending (rc_engine r'). ev_id x = i \<and> ev_at x = eng_now (rc_engine r) + d \<and>
       ev_callback x = timerEvent cb (IdleTimer k a)))"
proof (cases "d = 0")
  case True
  then show ?thesis using goes_weaken [OF goes_refl [OF r]] z
    by (intro exI [of _ r] exI [of _ 0]) (simp add: scheduleIdleTimeout_def)
next
  case False
  have "\<exists>r' i. rc_schedule cb d (IdleTimer k a) r = Some (r', i) \<and>
    goes cb a 1 r (upd a (\<lambda>c. c\<lparr>idleEvent := i\<rparr>) r') \<and>
    conn a (upd a (\<lambda>c. c\<lparr>idleEvent := i\<rparr>) r') = (conn a r)\<lparr>idleEvent := i\<rparr> \<and>
    (i \<noteq> 0 \<longrightarrow> (\<exists>x\<in>pending (rc_engine (upd a (\<lambda>c. c\<lparr>idleEvent := i\<rparr>) r')). ev_id x = i \<and>
       ev_at x = eng_now (rc_engine r) + d \<and> ev_callback x = timerEvent cb (IdleTimer k a)))"
  proof (rule goes_schedule [where f = "\<lambda>i c. c\<lparr>idleEvent := i\<rparr>", OF r inj d n])
    fix x t' i
    assume "x \<in> pending (rc_engine r)" "event_of t' (conn a r) = ev_id x"
    from event_zero [OF r this] show "event_of t' ((conn a r)\<lparr>idleEvent := i\<rparr>) = event_of t' (conn a r)"
      using z by (cases t') auto
  qed (use a in \<open>simp_all add: payload_of_def\<close>)
  then obtain r' i where "rc_schedule cb d (IdleTimer k a) r = Some (r', i)"
    "goes cb a 1 r (upd a (\<lambda>c. c\<lparr>idleEvent := i\<rparr>) r')"
    "conn a (upd a (\<lambda>c. c\<lparr>idleEvent := i\<rparr>) r') = (conn a r)\<lparr>idleEvent := i\<rparr>"
    "i \<noteq> 0 \<longrightarrow> (\<exists>x\<in>pending (rc_engine (upd a (\<lambda>c. c\<lparr>idleEvent := i\<rparr>) r')). ev_id x = i \<and>
       ev_at x = eng_now (rc_engine r) + d \<and> ev_callback x = timerEvent cb (IdleTimer k a))" by blast
  then show ?thesis using False
    by (intro exI [of _ "upd a (\<lambda>c. c\<lparr>idleEvent := i\<rparr>) r'"] exI [of _ i]) (simp add: scheduleIdleTimeout_def)
qed

lemma recordConnectionActivity_ok:
  assumes r: "rc_eng cb a r" and inj: "inj (timerEvent cb)" and n: "ids (Suc n) r" and a: "lookup k r = Some a"
  shows "\<exists>r' i. recordConnectionActivity cb k a r = Some r' \<and> goes cb a 1 r r' \<and>
    conn a r' = (if conn_state (conn a r) = TCPEstablished
      then (conn a r)\<lparr>lastActivity := eng_now (rc_engine r), idleEvent := i\<rparr> else conn a r)"
proof (cases "conn_state (conn a r) = TCPEstablished")
  case False
  then show ?thesis using goes_weaken [OF goes_refl [OF r]] by (auto simp: recordConnectionActivity_def)
next
  case True
  let ?f = "\<lambda>c. c\<lparr>lastActivity := eng_now (rc_engine r)\<rparr>"
  have u: "goes cb a 0 r (upd a ?f r)" "conn a (upd a ?f r) = ?f (conn a r)"
    by (rule goes_upd [OF r a]; simp add: conn_defs)+
  note g = goesD [OF u(1)]
  show ?thesis
  proof (cases "idleEvent (conn a r) = 0")
    case False
    then show ?thesis using True a u goes_weaken [OF u(1), of 1]
      by (intro exI [of _ "upd a ?f r"] exI [of _ "idleEvent (conn a r)"])
        (simp add: recordConnectionActivity_def Let_def)
  next
    case z: True
    have d: "0 \<le> establishedIdleTimeout r" using r by (simp add: rc_eng_def config_ok_def)
    from scheduleIdleTimeout_ok [of cb a "upd a ?f r" "establishedIdleTimeout r" n k] g(1) inj d n a z u(2)
    obtain r' i where s: "scheduleIdleTimeout cb k a (establishedIdleTimeout r) (upd a ?f r) = Some r'"
      "goes cb a 1 (upd a ?f r) r'" "conn a r' = (conn a (upd a ?f r))\<lparr>idleEvent := i\<rparr>" by auto
    have "goes cb a 1 r r'" using goes_trans [OF u(1) s(2)] by simp
    then show ?thesis using True a z s u(2)
      by (intro exI [of _ r'] exI [of _ i]) (simp add: recordConnectionActivity_def Let_def)
  qed
qed

lemma scheduleFIN_ok:
  assumes r: "rc_eng cb a r" and inj: "inj (timerEvent cb)" and d: "0 \<le> finRTO (conn a r)"
    and n: "ids (Suc n) r" and a: "lookup k r = Some a" and z: "finEvent (conn a r) = 0"
  shows "\<exists>r' i. scheduleFIN cb k a r = Some r' \<and> goes cb a 1 r r' \<and> conn a r' = (conn a r)\<lparr>finEvent := i\<rparr> \<and>
    (i \<noteq> 0 \<longrightarrow> (\<exists>x\<in>pending (rc_engine r'). ev_id x = i \<and> ev_at x = eng_now (rc_engine r) + finRTO (conn a r) \<and>
       ev_callback x = timerEvent cb (FINTimer k a)))"
proof -
  have "\<exists>r' i. rc_schedule cb (finRTO (conn a r)) (FINTimer k a) r = Some (r', i) \<and>
    goes cb a 1 r (upd a (\<lambda>c. c\<lparr>finEvent := i\<rparr>) r') \<and>
    conn a (upd a (\<lambda>c. c\<lparr>finEvent := i\<rparr>) r') = (conn a r)\<lparr>finEvent := i\<rparr> \<and>
    (i \<noteq> 0 \<longrightarrow> (\<exists>x\<in>pending (rc_engine (upd a (\<lambda>c. c\<lparr>finEvent := i\<rparr>) r')). ev_id x = i \<and>
       ev_at x = eng_now (rc_engine r) + finRTO (conn a r) \<and> ev_callback x = timerEvent cb (FINTimer k a)))"
  proof (rule goes_schedule [where f = "\<lambda>i c. c\<lparr>finEvent := i\<rparr>", OF r inj d n])
    fix x t' i
    assume "x \<in> pending (rc_engine r)" "event_of t' (conn a r) = ev_id x"
    from event_zero [OF r this] show "event_of t' ((conn a r)\<lparr>finEvent := i\<rparr>) = event_of t' (conn a r)"
      using z by (cases t') auto
  qed (use a in \<open>simp_all add: payload_of_def\<close>)
  then obtain r' i where "rc_schedule cb (finRTO (conn a r)) (FINTimer k a) r = Some (r', i)"
    "goes cb a 1 r (upd a (\<lambda>c. c\<lparr>finEvent := i\<rparr>) r')"
    "conn a (upd a (\<lambda>c. c\<lparr>finEvent := i\<rparr>) r') = (conn a r)\<lparr>finEvent := i\<rparr>"
    "i \<noteq> 0 \<longrightarrow> (\<exists>x\<in>pending (rc_engine (upd a (\<lambda>c. c\<lparr>finEvent := i\<rparr>) r')). ev_id x = i \<and>
       ev_at x = eng_now (rc_engine r) + finRTO (conn a r) \<and> ev_callback x = timerEvent cb (FINTimer k a))" by blast
  then show ?thesis
    by (intro exI [of _ "upd a (\<lambda>c. c\<lparr>finEvent := i\<rparr>) r'"] exI [of _ i]) (simp add: scheduleFIN_def)
qed

text \<open>The two deadlines kept in \<open>waitEvent\<close>.\<close>

lemma schedule_wait_ok:
  assumes r: "rc_eng cb a r" and inj: "inj (timerEvent cb)" and d: "0 \<le> d"
    and n: "ids (Suc n) r" and a: "lookup k r = Some a" and z: "waitEvent (conn a r) = 0"
    and t: "t = FinWaitTimer k a \<or> t = TimeWaitTimer k a"
  shows "\<exists>r' i. rc_schedule cb d t r = Some (r', i) \<and> goes cb a 1 r (upd a (\<lambda>c. c\<lparr>waitEvent := i\<rparr>) r') \<and>
    conn a (upd a (\<lambda>c. c\<lparr>waitEvent := i\<rparr>) r') = (conn a r)\<lparr>waitEvent := i\<rparr>"
proof -
  have "\<exists>r' i. rc_schedule cb d t r = Some (r', i) \<and>
    goes cb a 1 r (upd a (\<lambda>c. c\<lparr>waitEvent := i\<rparr>) r') \<and>
    conn a (upd a (\<lambda>c. c\<lparr>waitEvent := i\<rparr>) r') = (conn a r)\<lparr>waitEvent := i\<rparr> \<and>
    (i \<noteq> 0 \<longrightarrow> (\<exists>x\<in>pending (rc_engine (upd a (\<lambda>c. c\<lparr>waitEvent := i\<rparr>) r')). ev_id x = i \<and>
       ev_at x = eng_now (rc_engine r) + d \<and> ev_callback x = timerEvent cb t))"
  proof (rule goes_schedule [where f = "\<lambda>i c. c\<lparr>waitEvent := i\<rparr>", OF r inj d n])
    fix x t' i
    assume "x \<in> pending (rc_engine r)" "event_of t' (conn a r) = ev_id x"
    from event_zero [OF r this] show "event_of t' ((conn a r)\<lparr>waitEvent := i\<rparr>) = event_of t' (conn a r)"
      using z by (cases t') auto
  qed (use a t in \<open>auto simp: payload_of_def\<close>)
  then show ?thesis by blast
qed

lemma enterTimeWait_ok:
  assumes r: "rc_eng cb a r" and inj: "inj (timerEvent cb)" and n: "ids (Suc n) r" and a: "lookup k r = Some a"
  shows "\<exists>r' i. enterTimeWait cb k a r = Some r' \<and> goes cb a 1 r r' \<and>
    conn a r' = (conn a r)\<lparr>finEvent := 0, waitEvent := i, delayedACKEvent := 0, pendingACKSegmentCount := 0,
      conn_state := TCPTimeWait\<rparr>"
proof -
  obtain r1 where r1: "cancelCloseTimers a r = Some r1" "goes cb a 0 r r1"
    "conn a r1 = (conn a r)\<lparr>finEvent := 0, waitEvent := 0\<rparr>" using cancelCloseTimers_ok [OF r a] by blast
  note g1 = goesD [OF r1(2)]
  have a1: "lookup k r1 = Some a" using g1(3) a by simp
  obtain r2 where r2: "cancelDelayedACK a r1 = Some r2" "goes cb a 0 r1 r2"
    "conn a r2 = (conn a r1)\<lparr>delayedACKEvent := 0, pendingACKSegmentCount := 0\<rparr>"
    using cancelDelayedACK_ok [OF g1(1) a1] by blast
  note g2 = goesD [OF r2(2)]
  have a2: "lookup k r2 = Some a" using g2(3) a1 by simp
  let ?f = "\<lambda>c. c\<lparr>conn_state := TCPTimeWait\<rparr>"
  have u: "goes cb a 0 r2 (upd a ?f r2)" "conn a (upd a ?f r2) = ?f (conn a r2)"
    by (rule goes_upd [OF g2(1) a2]; simp add: conn_defs)+
  note g3 = goesD [OF u(1)]
  have msl: "0 \<le> i64 (2 * MSL (rc_closeConfig r2))"
    using g2(1) by (auto simp: rc_eng_def config_ok_def close_config_Valid_def max_i64_def in_i64_def)
  have n3: "ids (Suc n) (upd a ?f r2)" using n g1(4) [of "Suc n"] g2(4) [of "Suc n"] by simp
  obtain r4 i where r4: "rc_schedule cb (i64 (2 * MSL (rc_closeConfig r2))) (TimeWaitTimer k a) (upd a ?f r2) = Some (r4, i)"
    "goes cb a 1 (upd a ?f r2) (upd a (\<lambda>c. c\<lparr>waitEvent := i\<rparr>) r4)"
    "conn a (upd a (\<lambda>c. c\<lparr>waitEvent := i\<rparr>) r4) = (conn a (upd a ?f r2))\<lparr>waitEvent := i\<rparr>"
    using schedule_wait_ok [OF g3(1) inj msl n3, of k "TimeWaitTimer k a"] a2 u(2) r1(3) r2(3) by auto
  have "goes cb a 1 r (upd a (\<lambda>c. c\<lparr>waitEvent := i\<rparr>) r4)"
    using goes_trans [OF goes_trans [OF goes_trans [OF r1(2) r2(2)] u(1)] r4(2)] by simp
  then show ?thesis using r1 r2 r4 u(2)
    by (intro exI [of _ "upd a (\<lambda>c. c\<lparr>waitEvent := i\<rparr>) r4"] exI [of _ i]) (simp add: enterTimeWait_def)
qed

end
