(* ===== verification/ReceiverRun.thy ===== *)
theory ReceiverRun
  imports ReceiverInv
begin

text \<open>
  The passive side of TCP together with its host: the locale \<open>receiver_host\<close> names what the host's
  callbacks promise, and every handler of the receiver keeps the invariant \<open>rc_inv\<close> and never
  panics while identifiers for timers are left.
\<close>

section \<open>Which parts of the invariant a field concerns\<close>

lemma state_ok_update [simp]:
  "state_ok (c\<lparr>idleEvent := i\<rparr>) = state_ok c" "state_ok (c\<lparr>delayedACKEvent := i\<rparr>) = state_ok c"
  "state_ok (c\<lparr>finEvent := i\<rparr>) = state_ok c" "state_ok (c\<lparr>waitEvent := i\<rparr>) = state_ok c"
  "state_ok (c\<lparr>pendingACKSegmentCount := n\<rparr>) = state_ok c" "state_ok (c\<lparr>lastActivity := t\<rparr>) = state_ok c"
  "state_ok (c\<lparr>ecnEcho := b\<rparr>) = state_ok c" "state_ok (c\<lparr>finRetries := m\<rparr>) = state_ok c"
  "state_ok (c\<lparr>finTimeouts := n\<rparr>) = state_ok c" "state_ok (c\<lparr>finRTO := t\<rparr>) = state_ok c"
  "state_ok (c\<lparr>closeStarted := b\<rparr>) = state_ok c" "state_ok (c\<lparr>closeStartedAt := t\<rparr>) = state_ok c"
  "state_ok (c\<lparr>rbuf := rb\<rparr>) = state_ok c" "state_ok (c\<lparr>sackRecent := bs\<rparr>) = state_ok c"
  by (simp_all add: state_ok_def)

lemma stream_ok_update [simp]:
  "stream_ok (c\<lparr>idleEvent := i\<rparr>) = stream_ok c" "stream_ok (c\<lparr>delayedACKEvent := i\<rparr>) = stream_ok c"
  "stream_ok (c\<lparr>finEvent := i\<rparr>) = stream_ok c" "stream_ok (c\<lparr>waitEvent := i\<rparr>) = stream_ok c"
  "stream_ok (c\<lparr>pendingACKSegmentCount := n\<rparr>) = stream_ok c" "stream_ok (c\<lparr>lastActivity := t\<rparr>) = stream_ok c"
  "stream_ok (c\<lparr>ecnEcho := b\<rparr>) = stream_ok c" "stream_ok (c\<lparr>finRetries := m\<rparr>) = stream_ok c"
  "stream_ok (c\<lparr>finTimeouts := n\<rparr>) = stream_ok c" "stream_ok (c\<lparr>finRTO := t\<rparr>) = stream_ok c"
  "stream_ok (c\<lparr>closeStarted := b\<rparr>) = stream_ok c" "stream_ok (c\<lparr>closeStartedAt := t\<rparr>) = stream_ok c"
  "stream_ok (c\<lparr>conn_state := st\<rparr>) = stream_ok c" "stream_ok (c\<lparr>established := b\<rparr>) = stream_ok c"
  "stream_ok (c\<lparr>finSent := b\<rparr>) = stream_ok c" "stream_ok (c\<lparr>finAcked := b\<rparr>) = stream_ok c"
  "stream_ok (c\<lparr>finSeq := n'\<rparr>) = stream_ok c" "stream_ok (c\<lparr>sendNextSeq := n'\<rparr>) = stream_ok c"
  by (simp_all add: stream_ok_def)

lemma counts_sel [simp]:
  "lookup k (r\<lparr>halfOpenConnections := m\<rparr>) = lookup k r" "lookup k (r\<lparr>activeConnections := m\<rparr>) = lookup k r"
  "lookup k (r\<lparr>rc_host := H\<rparr>) = lookup k r" "lookup k (r\<lparr>receivedPayloadBytes := m\<rparr>) = lookup k r"
  "lookup k (r\<lparr>trafficStarted := b\<rparr>) = lookup k r" "lookup k (r\<lparr>rc_stopped := b\<rparr>) = lookup k r"
  by (simp_all add: lookup_def)

section \<open>Counters and replies\<close>

text \<open>What a packet sent by the receiver satisfies; a peer's validity checks accept it.\<close>

definition reply_ok :: "packet \<Rightarrow> bool" where
  "reply_ok p \<longleftrightarrow> Size p = 0 \<and> ValidSACKOptions p \<and> SequenceEnd p \<noteq> None \<and> 1 \<le> Ack p \<and> Ack p \<le> max_u64 \<and>
     ReceiveWindowBytes p < 65536 \<and> has_flag (Flag p) FlagACK \<and> ECN p = NotECT"

definition rc_counts :: "(nat \<Rightarrow> nat \<Rightarrow> 'h \<Rightarrow> bool) \<Rightarrow> ('c, 'h) receiver \<Rightarrow> bool" where
  "rc_counts P r \<longleftrightarrow> length (rc_store r) < 4294967296 \<and>
     activeConnections r = length (filter (\<lambda>(_, b). established (conn b r)) (connections r)) \<and>
     halfOpenConnections r = length (filter (\<lambda>(_, b). \<not> established (conn b r)) (connections r)) \<and>
     receivedPayloadBytes r = u64 (\<Sum>c\<leftarrow>rc_store r. payload_of c) \<and>
     P (activeConnections r) (halfOpenConnections r) (rc_host r)"

lemma rc_counts_P: "rc_counts P r \<Longrightarrow> P (activeConnections r) (halfOpenConnections r) (rc_host r)"
  unfolding rc_counts_def by blast

text \<open>The address behind the end of the store belongs to no connection: all live ones are in order.\<close>

definition rc_inv :: "('c, 'h) receiver_callbacks \<Rightarrow> (nat \<Rightarrow> nat \<Rightarrow> 'h \<Rightarrow> bool) \<Rightarrow> ('c, 'h) receiver \<Rightarrow> bool" where
  "rc_inv cb P r \<longleftrightarrow> rc_eng cb (length (rc_store r)) r \<and> rc_counts P r"

text \<open>The end of an operation that schedules at most \<open>n\<close> events.\<close>

definition ends ::
  "('c, 'h) receiver_callbacks \<Rightarrow> (nat \<Rightarrow> nat \<Rightarrow> 'h \<Rightarrow> bool) \<Rightarrow> nat \<Rightarrow> ('c, 'h) receiver \<Rightarrow> ('c, 'h) receiver \<Rightarrow> bool" where
  "ends cb P n r r' \<longleftrightarrow> rc_inv cb P r' \<and> rc_stopped r' = rc_stopped r \<and> next_id (rc_engine r') \<le> next_id (rc_engine r) + n \<and>
     own_api (range (timerEvent cb)) (rc_engine r) (rc_engine r')"

lemma rc_eng_focus:
  assumes "rc_eng cb a r" "\<And>k. lookup k r = Some a \<Longrightarrow> conn_ok r (conn a r)"
  shows "rc_eng cb b r"
proof -
  have "conn_ok r (conn d r)" if "d \<in> snd ` set (connections r)" for d
  proof (cases "d = a")
    case True
    from that obtain k where "(k, d) \<in> set (connections r)" by auto
    then have "lookup k r = Some a" using assms(1) True by (simp add: rc_eng_def lookup_def)
    then show ?thesis using assms(2) True by blast
  next
    case False
    then show ?thesis using assms(1) that unfolding rc_eng_def by blast
  qed
  then show ?thesis using assms(1) unfolding rc_eng_def by blast
qed

lemma rc_invD:
  assumes "rc_inv cb P r"
  shows "rc_eng cb a r" "rc_counts P r" "lookup k r = Some a \<Longrightarrow> conn_ok r (conn a r)"
    "lookup k r = Some a \<Longrightarrow> a < length (rc_store r)"
proof -
  have e: "rc_eng cb (length (rc_store r)) r" using assms by (simp add: rc_inv_def)
  have n: "lookup k r \<noteq> Some (length (rc_store r))" for k using rc_eng_addr [OF e, of k] by auto
  show "rc_eng cb a r" by (rule rc_eng_focus [OF e]) (use n in blast)
  show "rc_counts P r" using assms by (simp add: rc_inv_def)
  show "lookup k r = Some a \<Longrightarrow> a < length (rc_store r)" using rc_eng_addr [OF e] .
  show "lookup k r = Some a \<Longrightarrow> conn_ok r (conn a r)"
    using e lookup_in [of k r a] rc_eng_addr [OF e, of k a] by (auto simp: rc_eng_def)
qed

lemma rc_invI: "rc_eng cb a r \<Longrightarrow> rc_counts P r \<Longrightarrow> conn_ok r (conn a r) \<Longrightarrow> rc_inv cb P r"
  unfolding rc_inv_def using rc_eng_focus by blast

lemma filter_live:
  assumes "rc_eng cb a r" "quiet r r'"
  shows "filter (\<lambda>(_, b). established (conn b r')) (connections r) = filter (\<lambda>(_, b). established (conn b r)) (connections r)"
    "filter (\<lambda>(_, b). \<not> established (conn b r')) (connections r) = filter (\<lambda>(_, b). \<not> established (conn b r)) (connections r)"
proof -
  have "established (conn b r') = established (conn b r)" if "(k, b) \<in> set (connections r)" for k b
  proof -
    have "b \<in> snd ` set (connections r)" using that by force
    then have "b < length (rc_store r)" using assms(1) unfolding rc_eng_def by blast
    moreover have "map established (rc_store r') = map established (rc_store r)"
      "length (rc_store r') = length (rc_store r)" using assms(2) by (simp_all add: quiet_def)
    ultimately show ?thesis using map_established [of b r] map_established [of b r'] by metis
  qed
  then show "filter (\<lambda>(_, b). established (conn b r')) (connections r) = filter (\<lambda>(_, b). established (conn b r)) (connections r)"
    "filter (\<lambda>(_, b). \<not> established (conn b r')) (connections r) = filter (\<lambda>(_, b). \<not> established (conn b r)) (connections r)"
    by (auto intro!: filter_cong)
qed

lemma rc_counts_quiet:
  assumes "rc_eng cb a r" "quiet r r'" "rc_counts P r"
  shows "rc_counts P r'"
  using assms(3) filter_live [OF assms(1,2)] assms(2) by (auto simp: rc_counts_def quiet_def)

lemma map_of_filter_key:
  "map_of (filter (\<lambda>(k, _). k \<noteq> key) xs) k = (if k = key then None else map_of xs k)"
  by (induction xs) auto

lemma length_filter_remove:
  "distinct (map fst xs) \<Longrightarrow> map_of xs key = Some a \<Longrightarrow>
   length (filter Q xs) = length (filter Q (filter (\<lambda>(k, _). k \<noteq> key) xs)) + (if Q (key, a) then 1 else 0)"
proof (induction xs)
  case (Cons x xs)
  show ?case
  proof (cases "fst x = key")
    case True
    then have "filter (\<lambda>(k, _). k \<noteq> key) xs = xs" using Cons.prems filter_key_absent by fastforce
    then show ?thesis using True Cons.prems by (cases x) auto
  next
    case False
    then show ?thesis using Cons by (cases x) auto
  qed
qed simp

lemma ends_trans: "goes cb a n r r' \<Longrightarrow> ends cb P m r' r'' \<Longrightarrow> ends cb P (n + m) r r''"
  unfolding goes_def ends_def quiet_def using own_api_trans by fastforce

lemma ends_weaken: "ends cb P n r r' \<Longrightarrow> n \<le> m \<Longrightarrow> ends cb P m r r'"
  by (simp add: ends_def)

lemma ends_refl: "rc_inv cb P r \<Longrightarrow> ends cb P n r r"
  by (simp add: ends_def own_api_refl)

text \<open>Forgetting a connection whose timers are all cancelled.\<close>

lemma rc_eng_remove:
  assumes r: "rc_eng cb a r" and a: "lookup key r = Some a" and zero: "\<And>t. event_of t (conn a r) = 0"
    and r': "rc_engine r' = rc_engine r" "rc_store r' = rc_store r"
      "connections r' = filter (\<lambda>(k, _). k \<noteq> key) (connections r)"
      "conn_ok r' = conn_ok r" "config_ok r' = config_ok r"
  shows "rc_eng cb b r'"
proof -
  have l: "lookup k r' = (if k = key then None else lookup k r)" for k
    unfolding lookup_def r' by (rule map_of_filter_key)
  have cn: "conn c r' = conn c r" for c by (simp add: conn_def r')
  have d: "distinct (map fst (connections r))" "distinct (map snd (connections r))"
    using r by (simp_all add: rc_eng_def)
  have gone: "a \<notin> snd ` set (connections r')"
  proof
    assume "a \<in> snd ` set (connections r')"
    then obtain k where k: "(k, a) \<in> set (connections r)" "k \<noteq> key" by (auto simp: r')
    moreover have "(key, a) \<in> set (connections r)" using a by (simp add: lookup_def map_of_SomeD)
    ultimately show False using d(2) by (metis inj_on_eq_iff distinct_map fst_conv snd_conv)
  qed
  have live: "timer_live r' (ev_id x) t"
    if x: "x \<in> pending (rc_engine r)" "ev_callback x = timerEvent cb t" for x t
  proof -
    have tl: "timer_live r (ev_id x) t" using r x by (simp add: rc_eng_def)
    have "timer_addr t \<noteq> a"
      using tl zero [of t] event_zero [OF r x(1), of t] by (auto simp: timer_live_def)
    then have "timer_key t \<noteq> key" using tl a by (auto simp: timer_live_def)
    then show ?thesis using tl unfolding timer_live_def l cn by simp
  qed
  have sub: "set (connections r') \<subseteq> set (connections r)" by (auto simp: r')
  have "distinct (map fst (connections r'))" "distinct (map snd (connections r'))"
    using d unfolding r' by (simp_all add: distinct_map inj_on_def)
  moreover have "b < length (rc_store r') \<and> conn_ok r' (conn b r')" if b: "b \<in> snd ` set (connections r')" for b
  proof -
    have "b \<in> snd ` set (connections r)" "b \<noteq> a" using b sub gone by blast+
    then show ?thesis using r unfolding rc_eng_def r'(2,4) cn by blast
  qed
  moreover have "eng_inv (rc_engine r)" "config_ok r" using r by (simp_all add: rc_eng_def)
  ultimately show ?thesis unfolding rc_eng_def r'(1,5) using live by (intro conjI ballI allI impI) simp_all
qed

text \<open>A step between two consistent states that keeps the set of connections.\<close>

definition moves ::
  "('c, 'h) receiver_callbacks \<Rightarrow> (nat \<Rightarrow> nat \<Rightarrow> 'h \<Rightarrow> bool) \<Rightarrow> nat \<Rightarrow> ('c, 'h) receiver \<Rightarrow> ('c, 'h) receiver \<Rightarrow> bool" where
  "moves cb P n r r' \<longleftrightarrow> ends cb P n r r' \<and> connections r' = connections r \<and> rc_stopped r' = rc_stopped r \<and>
     conn_ok r' = conn_ok r \<and> config_ok r' = config_ok r"

text \<open>What acknowledging our FIN and counting activity leave alone of a connection.\<close>

definition stream_same :: "receive_connection \<Rightarrow> receive_connection \<Rightarrow> bool" where
  "stream_same c c' \<longleftrightarrow> rbuf c' = rbuf c \<and> peerFIN c' = peerFIN c \<and> peerFINSeq c' = peerFINSeq c \<and>
     pendingFIN c' = pendingFIN c \<and> pendingFINSeq c' = pendingFINSeq c \<and>
     peerInitialSeq c' = peerInitialSeq c \<and> established c' = established c"

lemma stream_same_trans: "stream_same c c' \<Longrightarrow> stream_same c' c'' \<Longrightarrow> stream_same c c''"
  by (simp add: stream_same_def)

lemma movesD:
  assumes "moves cb P n r r'"
  shows "rc_inv cb P r'" "lookup k r' = lookup k r" "ids (n + m) r \<Longrightarrow> ids m r'"
    "rc_stopped r' = rc_stopped r" "conn_ok r' c = conn_ok r c" "ends cb P n r r'"
  using assms by (simp_all add: moves_def ends_def lookup_def ids_def)

lemma moves_trans: "moves cb P n r r' \<Longrightarrow> moves cb P m r' r'' \<Longrightarrow> moves cb P (n + m) r r''"
  unfolding moves_def ends_def using own_api_trans by fastforce

lemma moves_ends: "moves cb P n r r' \<Longrightarrow> ends cb P m r' r'' \<Longrightarrow> ends cb P (n + m) r r''"
  unfolding moves_def ends_def using own_api_trans by fastforce

lemma moves_refl: "rc_inv cb P r \<Longrightarrow> moves cb P n r r"
  by (simp add: moves_def ends_refl)

lemma moves_weaken: "moves cb P n r r' \<Longrightarrow> n \<le> m \<Longrightarrow> moves cb P m r r'"
  unfolding moves_def using ends_weaken by blast

lemma goes_moves:
  assumes "rc_inv cb P r" "goes cb a n r r'" "conn_ok r (conn a r')"
  shows "moves cb P n r r'"
proof -
  have q: "quiet r r'" "rc_eng cb a r'" using assms(2) by (simp_all add: goes_def)
  have c: "rc_counts P r'" using rc_counts_quiet [OF rc_invD(1) [OF assms(1)] q(1) rc_invD(2) [OF assms(1)]] .
  have k: "conn_ok r' = conn_ok r" using conn_ok_quiet [OF q(1)] by blast
  have "rc_inv cb P r'" using rc_invI [OF q(2) c] assms(3) by (simp add: k)
  then show ?thesis using assms(2) k config_ok_quiet [OF q(1)] by (auto simp: moves_def ends_def goes_def quiet_def)
qed

lemma live_count: "rc_eng cb a r \<Longrightarrow> length (connections r) \<le> length (rc_store r)"
proof -
  assume r: "rc_eng cb a r"
  have "snd ` set (connections r) \<subseteq> {..<length (rc_store r)}" using r unfolding rc_eng_def by blast
  then have "card (snd ` set (connections r)) \<le> length (rc_store r)" using card_mono [of "{..<length (rc_store r)}"] by simp
  moreover have "card (snd ` set (connections r)) = length (connections r)"
    using r distinct_card [of "map snd (connections r)"] by (simp add: rc_eng_def)
  ultimately show ?thesis by simp
qed

section \<open>The host\<close>

locale receiver_host =
  fixes cb :: "('c, 'h) receiver_callbacks"
    and P :: "nat \<Rightarrow> nat \<Rightarrow> 'h \<Rightarrow> bool"
  assumes inj: "inj (timerEvent cb)"
    and send: "P m n H \<Longrightarrow> reply_ok p \<Longrightarrow> P m n (Send cb p H)"
    and opened: "P m n H \<Longrightarrow> CanOpen cb H \<Longrightarrow> P m (Suc n) (OnConnectionCounts cb m (Suc n) H)"
    and promoted: "P m (Suc n) H \<Longrightarrow> CanEstablish cb H \<Longrightarrow> P (Suc m) n (OnConnectionCounts cb (Suc m) n H)"
    and departed: "P (Suc m) n H \<Longrightarrow> P m n (OnConnectionCounts cb m n H)"
    and expired: "P m (Suc n) H \<Longrightarrow> P m n (OnConnectionCounts cb m n H)"
    and payload: "P m n H \<Longrightarrow> 0 < k \<Longrightarrow> P m n (OnPayloadReceived cb k H)"
    and peer_fin: "P m n H \<Longrightarrow> 0 \<le> d \<Longrightarrow> P m n (OnPeerFIN cb d H)"
begin

lemma host_change:
  "rc_eng cb a (r\<lparr>rc_host := H\<rparr>) = rc_eng cb a r"
  "lookup k (r\<lparr>rc_host := H\<rparr>) = lookup k r" "conn b (r\<lparr>rc_host := H\<rparr>) = conn b r"
  "conn_ok (r\<lparr>rc_host := H\<rparr>) c = conn_ok r c"
  by (simp_all add: rc_eng_def lookup_def conn_def timer_live_def conn_ok_def timers_ok_def config_ok_def)

lemma rc_counts_host:
  "rc_counts P r \<Longrightarrow> P (activeConnections r) (halfOpenConnections r) H \<Longrightarrow> rc_counts P (r\<lparr>rc_host := H\<rparr>)"
  by (simp add: rc_counts_def conn_def)

lemma emit_ok:
  assumes "rc_eng cb a r" "rc_counts P r" "conn_ok r (conn a r)" "reply_ok p"
  shows "ends cb P 0 r (emit cb p r)" "lookup k (emit cb p r) = lookup k r" "conn b (emit cb p r) = conn b r"
proof -
  have "P (activeConnections r) (halfOpenConnections r) (Send cb p (rc_host r))"
    using rc_counts_P [OF assms(2)] assms(4) by (rule send)
  then have "rc_inv cb P (emit cb p r)"
    using assms by (intro rc_invI [of cb a]) (auto simp: emit_def host_change rc_counts_host)
  moreover have "rc_engine (emit cb p r) = rc_engine r" "rc_stopped (emit cb p r) = rc_stopped r"
    by (simp_all add: emit_def)
  ultimately show "ends cb P 0 r (emit cb p r)" by (simp add: ends_def own_api_refl)
  show "lookup k (emit cb p r) = lookup k r" "conn b (emit cb p r) = conn b r" by (simp_all add: emit_def host_change)
qed

lemma rc_counts_remove:
  assumes c: "rc_counts P r" and d: "distinct (map fst (connections r))" "map_of (connections r) key = Some a"
    and r': "rc_store r' = rc_store r" "connections r' = filter (\<lambda>(k, _). k \<noteq> key) (connections r)"
      "receivedPayloadBytes r' = receivedPayloadBytes r"
      "activeConnections r' = (if established (conn a r)
        then (if 0 < activeConnections r then activeConnections r - 1 else activeConnections r)
        else activeConnections r)"
      "halfOpenConnections r' = (if established (conn a r) then halfOpenConnections r
        else (if 0 < halfOpenConnections r then halfOpenConnections r - 1 else halfOpenConnections r))"
      "rc_host r' = OnConnectionCounts cb (activeConnections r') (halfOpenConnections r') (rc_host r)"
  shows "rc_counts P r'"
proof -
  have cn: "conn b r' = conn b r" for b by (simp add: conn_def r')
  define act where "act = length (filter (\<lambda>(_, b). established (conn b r)) (connections r'))"
  define half where "half = length (filter (\<lambda>(_, b). \<not> established (conn b r)) (connections r'))"
  have n: "activeConnections r = act + (if established (conn a r) then 1 else 0)"
    "halfOpenConnections r = half + (if established (conn a r) then 0 else 1)"
    using c length_filter_remove [OF d, of "\<lambda>(_, b). established (conn b r)"]
      length_filter_remove [OF d, of "\<lambda>(_, b). \<not> established (conn b r)"]
    by (auto simp: rc_counts_def act_def half_def r'(2) simp del: filter_filter)
  have m: "activeConnections r' = act" "halfOpenConnections r' = half" using n r'(4,5) by simp_all
  have p: "P (activeConnections r) (halfOpenConnections r) (rc_host r)" using rc_counts_P [OF c] .
  have "P act half (OnConnectionCounts cb act half (rc_host r))"
    using p departed [of act half] expired [of act half] unfolding n by (cases "established (conn a r)") simp_all
  moreover have "length (rc_store r') < 4294967296" "receivedPayloadBytes r' = u64 (\<Sum>c\<leftarrow>rc_store r'. payload_of c)"
    using c by (simp_all only: rc_counts_def r')
  ultimately show ?thesis unfolding rc_counts_def cn r'(6) m by (simp only: act_def half_def)
qed

lemma finishConnection_ok:
  assumes r: "rc_eng cb a r" and c: "rc_counts P r" and a: "lookup key r = Some a"
  shows "\<exists>r'. finishConnection cb key a outcome r = Some r' \<and> ends cb P 0 r r' \<and>
    connections r' = filter (\<lambda>(k, _). k \<noteq> key) (connections r) \<and> rc_stopped r' = rc_stopped r \<and>
    conn_state (conn a r') = TCPClosed \<and> rc_outcome (conn a r') = Some outcome"
proof -
  obtain r1 where r1: "cancelIdleTimer a r = Some r1" "goes cb a 0 r r1" "conn a r1 = (conn a r)\<lparr>idleEvent := 0\<rparr>"
    using cancelIdleTimer_ok [OF r a] by blast
  note g1 = goesD [OF r1(2)]
  have a1: "lookup key r1 = Some a" using g1(3) a by simp
  obtain r2 where r2: "cancelCloseTimers a r1 = Some r2" "goes cb a 0 r1 r2"
    "conn a r2 = (conn a r1)\<lparr>finEvent := 0, waitEvent := 0\<rparr>" using cancelCloseTimers_ok [OF g1(1) a1] by blast
  note g2 = goesD [OF r2(2)]
  have a2: "lookup key r2 = Some a" using g2(3) a1 by simp
  obtain r3 where r3: "cancelDelayedACK a r2 = Some r3" "goes cb a 0 r2 r3"
    "conn a r3 = (conn a r2)\<lparr>delayedACKEvent := 0, pendingACKSegmentCount := 0\<rparr>"
    using cancelDelayedACK_ok [OF g2(1) a2] by blast
  note g3 = goesD [OF r3(2)]
  have a3: "lookup key r3 = Some a" using g3(3) a2 by simp
  let ?f = "\<lambda>c. c\<lparr>conn_state := TCPClosed, rc_outcome := Some outcome\<rparr>"
  have u: "goes cb a 0 r3 (upd a ?f r3)" "conn a (upd a ?f r3) = ?f (conn a r3)"
    by (rule goes_upd [OF g3(1) a3]; simp add: conn_defs)+
  let ?r4 = "upd a ?f r3"
  note g4 = goesD [OF u(1)]
  have g: "goes cb a 0 r ?r4" using goes_trans [OF goes_trans [OF goes_trans [OF r1(2) r2(2)] r3(2)] u(1)] by simp
  have q: "quiet r ?r4" using g by (simp add: goes_def)
  have c4: "rc_counts P ?r4" using rc_counts_quiet [OF r q c] .
  have k4: "connections ?r4 = connections r" using q by (simp add: quiet_def)
  have zero: "event_of t (conn a ?r4) = 0" for t using u(2) r1(3) r2(3) r3(3) by (cases t) simp_all
  let ?cs = "filter (\<lambda>(k, _). k \<noteq> key) (connections ?r4)"
  have e4: "rc_eng cb a ?r4" using g4(1) .
  have d4: "distinct (map fst (connections ?r4))" "map_of (connections ?r4) key = Some a"
    using e4 a3 by (simp_all add: rc_eng_def lookup_def)
  let ?act = "if established (conn a ?r4)
      then (if 0 < activeConnections ?r4 then activeConnections ?r4 - 1 else activeConnections ?r4)
      else activeConnections ?r4"
  let ?half = "if established (conn a ?r4) then halfOpenConnections ?r4
      else (if 0 < halfOpenConnections ?r4 then halfOpenConnections ?r4 - 1 else halfOpenConnections ?r4)"
  let ?r5 = "?r4\<lparr>connections := ?cs, activeConnections := ?act, halfOpenConnections := ?half,
     rc_host := OnConnectionCounts cb ?act ?half (rc_host ?r4)\<rparr>"
  have cn5: "conn b ?r5 = conn b ?r4" for b by (simp add: conn_def)
  have i5: "rc_eng cb (length (rc_store ?r5)) ?r5"
    by (rule rc_eng_remove [OF e4 _ zero, of key]) (simp_all add: a3 conn_ok_def timers_ok_def config_ok_def fun_eq_iff)
  have "rc_counts P ?r5" by (rule rc_counts_remove [OF c4 d4]) simp_all
  then have inv5: "rc_inv cb P ?r5" using i5 by (simp add: rc_inv_def)
  have fin: "finishConnection cb key a outcome r = Some ?r5"
    using a r1(1) r2(1) r3(1) by (simp add: finishConnection_def notifyConnectionCounts_def Let_def conn_def)
  have "ends cb P 0 r ?r5" using g inv5 by (simp add: ends_def goes_def quiet_def)
  then show ?thesis using fin k4 q u(2) cn5 [of a]
    by (intro exI [of _ ?r5]) (simp add: quiet_def)
qed

text \<open>Counters of ECN and of acknowledgements are not part of the invariant.\<close>

lemma counter_change:
  "rc_eng cb a (r\<lparr>rc_ecnState := E\<rparr>) = rc_eng cb a r" "rc_eng cb a (r\<lparr>rc_ackState := A\<rparr>) = rc_eng cb a r"
  "lookup k (r\<lparr>rc_ecnState := E\<rparr>) = lookup k r" "lookup k (r\<lparr>rc_ackState := A\<rparr>) = lookup k r"
  "conn b (r\<lparr>rc_ecnState := E\<rparr>) = conn b r" "conn b (r\<lparr>rc_ackState := A\<rparr>) = conn b r"
  "conn_ok (r\<lparr>rc_ecnState := E\<rparr>) c = conn_ok r c" "conn_ok (r\<lparr>rc_ackState := A\<rparr>) c = conn_ok r c"
  "quiet r (r\<lparr>rc_ecnState := E\<rparr>)" "quiet r (r\<lparr>rc_ackState := A\<rparr>)"
  by (simp_all add: rc_eng_def lookup_def conn_def timer_live_def conn_ok_def timers_ok_def config_ok_def quiet_def)

lemma goes_counter:
  assumes "goes cb a n r r'"
  shows "goes cb a n r (r'\<lparr>rc_ecnState := E\<rparr>)" "goes cb a n r (r'\<lparr>rc_ackState := A\<rparr>)"
  using assms quiet_trans [OF _ counter_change(9)] quiet_trans [OF _ counter_change(10)]
  by (auto simp: goes_def counter_change)

lemma ackFlags_ok:
  assumes "goes cb a n r r'" "ackFlags a flags r' = (r'', fl)"
  shows "goes cb a n r r''" "conn a r'' = conn a r'" "fl = flags \<or> fl = flags OR FlagECE"
  using assms goes_counter(1) [OF assms(1)] by (auto simp: ackFlags_def counter_change split: if_splits)

lemma ack_packet_ok:
  assumes c: "conn_ok r c" and fl: "fl \<in> {FlagACK, FlagACK OR FlagECE, FlagFIN OR FlagACK, (FlagFIN OR FlagACK) OR FlagECE}"
    and s: "seq \<le> 2"
  shows "reply_ok (ack_packet key fl seq c)"
proof -
  have st: "rb_ok (rbuf c)" "length (sackRecent c) \<le> MaxSACKBlocks" "\<forall>b\<in>set (sackRecent c). Start b < End b"
    "peerInitialSeq c < nextExpectedSeq (rbuf c)"
    using c by (simp_all add: conn_ok_def stream_ok_def)
  have w: "windowBytes (rbuf c) < 65536" by (simp add: windowBytes_def u16_def Let_def)
  have f: "has_flag fl FlagACK" "\<not> has_flag fl FlagSYN" "\<not> has_flag fl (FlagSYN OR FlagRST)"
    using fl by (auto simp: has_flag_def flag_defs)
  have n: "nextExpectedSeq (rbuf c) \<le> max_u64" using st(1) by (simp add: rb_ok_def)
  have v: "ValidSACKOptions (ack_packet key fl seq c)"
    using st(2,3) f by (auto simp: ValidSACKOptions_def ack_packet_def list_all_iff not_le)
  have "SequenceEnd (ack_packet key fl seq c) \<noteq> None"
    using f s by (auto simp: SequenceEnd_def ack_packet_def Let_def max_u64_def)
  then show ?thesis using v f w n st(4) by (simp add: reply_ok_def) (simp add: ack_packet_def)
qed

lemma sent_seq_le: "conn_ok r c \<Longrightarrow> sendNextSeq c \<le> 2 \<and> (finSent c \<longrightarrow> finSeq c \<le> 2)"
  by (auto simp: conn_ok_def state_ok_def)

lemma conn_ok_clear: "conn_ok r c \<Longrightarrow> conn_ok r (c\<lparr>delayedACKEvent := 0, pendingACKSegmentCount := 0\<rparr>)"
  by (simp add: conn_ok_def timers_ok_def)

lemma conn_ok_goes: "goes cb a n r r' \<Longrightarrow> conn_ok r' c = conn_ok r c"
  using goesD(6) .

text \<open>Sending an acknowledgement cancels the delayed one.\<close>

lemma acknowledge_ok:
  assumes r: "rc_eng cb a r" and c: "rc_counts P r" and a: "lookup key r = Some a"
    and ok: "conn_ok r ((conn a r)\<lparr>delayedACKEvent := 0, pendingACKSegmentCount := 0\<rparr>)"
  shows "\<exists>r'. acknowledge cb key a r = Some r' \<and> (rc_stopped r \<and> r' = r \<or> ends cb P 0 r r')"
proof (cases "rc_stopped r")
  case True
  then show ?thesis by (simp add: acknowledge_def)
next
  case False
  obtain r1 where r1: "cancelDelayedACK a r = Some r1" "goes cb a 0 r r1"
    "conn a r1 = (conn a r)\<lparr>delayedACKEvent := 0, pendingACKSegmentCount := 0\<rparr>"
    using cancelDelayedACK_ok [OF r a] by blast
  define r2 where "r2 = r1\<lparr>rc_ackState := (rc_ackState r1)\<lparr>SentACKCount := u64 (SentACKCount (rc_ackState r1) + 1)\<rparr>\<rparr>"
  have g2: "goes cb a 0 r r2" "conn a r2 = conn a r1" unfolding r2_def
    using goes_counter(2) [OF r1(2)] by (simp_all add: counter_change)
  obtain r3 fl where fl: "ackFlags a FlagACK r2 = (r3, fl)" by fastforce
  note g3 = ackFlags_ok [OF g2(1) fl]
  have q: "quiet r r3" "rc_eng cb a r3" using g3(1) by (simp_all add: goes_def)
  have ok3: "conn_ok r3 (conn a r3)" using ok g3(2) g2(2) r1(3) conn_ok_goes [OF g3(1)] by simp
  have p: "reply_ok (ack_packet key fl (sendNextSeq (conn a r3)) (conn a r3))"
    using ack_packet_ok [OF ok3] g3(3) sent_seq_le [OF ok3] by auto
  have "ends cb P 0 r (emit cb (ack_packet key fl (sendNextSeq (conn a r3)) (conn a r3)) r3)"
    using ends_trans [OF g3(1) emit_ok(1) [OF q(2) rc_counts_quiet [OF r q(1) c] ok3 p]] by simp
  moreover have "acknowledge cb key a r = Some (emit cb (ack_packet key fl (sendNextSeq (conn a r3)) (conn a r3)) r3)"
    using False a r1(1) fl unfolding r2_def by (simp add: acknowledge_def)
  ultimately show ?thesis by blast
qed

lemma emitFIN_ok:
  assumes r: "rc_eng cb a r" and c: "rc_counts P r" and a: "lookup key r = Some a"
    and ok: "conn_ok r ((conn a r)\<lparr>delayedACKEvent := 0, pendingACKSegmentCount := 0\<rparr>)" and f: "finSent (conn a r)"
  shows "\<exists>r'. emitFIN cb key a r = Some r' \<and> ends cb P 0 r r'"
proof -
  obtain r1 where r1: "cancelDelayedACK a r = Some r1" "goes cb a 0 r r1"
    "conn a r1 = (conn a r)\<lparr>delayedACKEvent := 0, pendingACKSegmentCount := 0\<rparr>"
    using cancelDelayedACK_ok [OF r a] by blast
  obtain r3 fl where fl: "ackFlags a (FlagFIN OR FlagACK) r1 = (r3, fl)" by fastforce
  note g3 = ackFlags_ok [OF r1(2) fl]
  have q: "quiet r r3" "rc_eng cb a r3" using g3(1) by (simp_all add: goes_def)
  have ok3: "conn_ok r3 (conn a r3)" using ok g3(2) r1(3) conn_ok_goes [OF g3(1)] by simp
  have "finSent (conn a r3)" using f g3(2) r1(3) by simp
  then have p: "reply_ok (ack_packet key fl (finSeq (conn a r3)) (conn a r3))"
    using ack_packet_ok [OF ok3] g3(3) sent_seq_le [OF ok3] by auto
  have "ends cb P 0 r (emit cb (ack_packet key fl (finSeq (conn a r3)) (conn a r3)) r3)"
    using ends_trans [OF g3(1) emit_ok(1) [OF q(2) rc_counts_quiet [OF r q(1) c] ok3 p]] by simp
  moreover have "emitFIN cb key a r = Some (emit cb (ack_packet key fl (finSeq (conn a r3)) (conn a r3)) r3)"
    using r1(1) fl by (simp add: emitFIN_def)
  ultimately show ?thesis by blast
qed

lemma acknowledgeData_ok:
  assumes r: "rc_inv cb P r" and a: "lookup key r = Some a" and n: "ids 2 r" and run: "\<not> rc_stopped r"
  shows "\<exists>r'. acknowledgeData cb key a mayDelay r = Some r' \<and> ends cb P 1 r r'"
proof -
  note e = rc_invD(1) [OF r, of a] and c = rc_invD(2) [OF r] and ok = rc_invD(3) [OF r a]
  show ?thesis
  proof (cases "\<not> da_Enabled (delayedACKConfig r) \<or> \<not> mayDelay \<or> conn_state (conn a r) \<noteq> TCPEstablished \<or>
      pendingFIN (conn a r)")
    case True
    then show ?thesis using acknowledge_ok [OF e c a conn_ok_clear [OF ok]] ends_weaken [of cb P 0] ends_refl [OF r]
      by (fastforce simp: acknowledgeData_def)
  next
    case False
    let ?f = "\<lambda>c. c\<lparr>pendingACKSegmentCount := pendingACKSegmentCount c + 1\<rparr>"
    let ?r = "upd a ?f r"
    have u: "goes cb a 0 r ?r" "conn a ?r = ?f (conn a r)"
      by (rule goes_upd [OF e a]; simp add: conn_defs)+
    note g = goesD [OF u(1)]
    have c': "rc_counts P ?r" using rc_counts_quiet [OF e g(2) c] .
    have a': "lookup key ?r = Some a" using a by simp
    have cfg: "delayed_ack_Valid (delayedACKConfig r)" using e by (simp add: rc_eng_def config_ok_def)
    have pc: "0 \<le> pendingACKSegmentCount (conn a r)" "pendingACKSegmentCount (conn a r) \<le> 1"
      using ok by (simp_all add: conn_ok_def timers_ok_def)
    show ?thesis
    proof (cases "SegmentsPerACK (delayedACKConfig r) \<le> pendingACKSegmentCount (conn a r) + 1")
      case True
      have "conn_ok ?r ((conn a ?r)\<lparr>delayedACKEvent := 0, pendingACKSegmentCount := 0\<rparr>)"
        using conn_ok_clear [OF ok] u(2) by simp
      from acknowledge_ok [OF g(1) c' a' this] obtain r' where
        "acknowledge cb key a ?r = Some r'" "rc_stopped ?r \<and> r' = ?r \<or> ends cb P 0 ?r r'" by blast
      then show ?thesis
        using False True run u(2) ends_trans [OF u(1), of P 0] ends_weaken [of cb P 0 r _ 1]
        by (auto simp: acknowledgeData_def Let_def)
    next
      case less: False
      then have s2: "SegmentsPerACK (delayedACKConfig r) = 2" "pendingACKSegmentCount (conn a r) = 0"
        using cfg pc by (auto simp: delayed_ack_Valid_def)
      have z: "delayedACKEvent (conn a r) = 0" using ok s2(2) by (simp add: conn_ok_def timers_ok_def)
      have d: "0 \<le> MaxDelay (delayedACKConfig r)" using cfg by (simp add: delayed_ack_Valid_def)
      have "\<exists>r' i. rc_schedule cb (MaxDelay (delayedACKConfig r)) (DelayedACKTimer key a) ?r = Some (r', i) \<and>
        goes cb a 1 ?r (upd a (\<lambda>c. c\<lparr>delayedACKEvent := i\<rparr>) r') \<and>
        conn a (upd a (\<lambda>c. c\<lparr>delayedACKEvent := i\<rparr>) r') = (conn a ?r)\<lparr>delayedACKEvent := i\<rparr> \<and>
        (i \<noteq> 0 \<longrightarrow> (\<exists>x\<in>pending (rc_engine (upd a (\<lambda>c. c\<lparr>delayedACKEvent := i\<rparr>) r')). ev_id x = i \<and>
          ev_at x = eng_now (rc_engine ?r) + MaxDelay (delayedACKConfig r) \<and>
          ev_callback x = timerEvent cb (DelayedACKTimer key a)))"
      proof (rule goes_schedule [where f = "\<lambda>i c. c\<lparr>delayedACKEvent := i\<rparr>", OF g(1) inj d])
        fix x t' i
        assume "x \<in> pending (rc_engine ?r)" "event_of t' (conn a ?r) = ev_id x"
        from event_zero [OF g(1) this]
        show "event_of t' ((conn a ?r)\<lparr>delayedACKEvent := i\<rparr>) = event_of t' (conn a ?r)"
          using z u(2) by (cases t') auto
      next
        show "ids (Suc 1) ?r" using n by (simp add: numeral_2_eq_2)
      qed (use a in \<open>simp_all add: payload_of_def\<close>)
      then obtain r' i where s: "rc_schedule cb (MaxDelay (delayedACKConfig r)) (DelayedACKTimer key a) ?r = Some (r', i)"
        "goes cb a 1 ?r (upd a (\<lambda>c. c\<lparr>delayedACKEvent := i\<rparr>) r')"
        "conn a (upd a (\<lambda>c. c\<lparr>delayedACKEvent := i\<rparr>) r') = (conn a ?r)\<lparr>delayedACKEvent := i\<rparr>" by blast
      have "conn_ok r (conn a (upd a (\<lambda>c. c\<lparr>delayedACKEvent := i\<rparr>) r'))"
        using ok False s2 unfolding s(3) u(2) by (simp add: conn_ok_def timers_ok_def)
      moreover have "goes cb a 1 r (upd a (\<lambda>c. c\<lparr>delayedACKEvent := i\<rparr>) r')" using goes_trans [OF u(1) s(2)] by simp
      ultimately have "moves cb P 1 r (upd a (\<lambda>c. c\<lparr>delayedACKEvent := i\<rparr>) r')" using goes_moves [OF r] by blast
      then show ?thesis using False less s2 s(1) u(2) movesD(6)
        by (intro exI [of _ "upd a (\<lambda>c. c\<lparr>delayedACKEvent := i\<rparr>) r'"]) (simp add: acknowledgeData_def Let_def)
    qed
  qed
qed

lemma observeECN_ok:
  assumes r: "rc_inv cb P r" and a: "lookup key r = Some a"
  shows "moves cb P 0 r (observeECN a pkt r)" "\<exists>b. conn a (observeECN a pkt r) = (conn a r)\<lparr>ecnEcho := b\<rparr>"
proof -
  note e = rc_invD(1) [OF r, of a] and ok = rc_invD(3) [OF r a]
  have l: "a < length (rc_store r)" using rc_invD(4) [OF r a] .
  define r1 where "r1 = (if has_flag (Flag pkt) FlagCWR then upd a (\<lambda>c. c\<lparr>ecnEcho := False\<rparr>) r else r)"
  have g1: "goes cb a 0 r r1" "\<exists>b. conn a r1 = (conn a r)\<lparr>ecnEcho := b\<rparr>"
  proof -
    have "goes cb a 0 r (upd a (\<lambda>c. c\<lparr>ecnEcho := False\<rparr>) r)"
      by (rule goes_upd [OF e a]; simp add: conn_defs)
    then show "goes cb a 0 r r1" "\<exists>b. conn a r1 = (conn a r)\<lparr>ecnEcho := b\<rparr>"
      using goes_refl [OF e] l unfolding r1_def by (auto intro: exI [of _ "ecnEcho (conn a r)"])
  qed
  note d1 = goesD [OF g1(1)]
  have a1: "lookup key r1 = Some a" using d1(3) a by simp
  have g2: "goes cb a 0 r1 (upd a (\<lambda>c. c\<lparr>ecnEcho := True\<rparr>) r1)"
    by (rule goes_upd [OF d1(1) a1]; simp add: conn_defs)
  have g: "goes cb a 0 r (observeECN a pkt r) \<and> (\<exists>b. conn a (observeECN a pkt r) = (conn a r)\<lparr>ecnEcho := b\<rparr>)"
  proof (cases "\<not> ecnNegotiated (conn a r)")
    case True
    then show ?thesis using goes_refl [OF e] by (auto simp: observeECN_def intro: exI [of _ "ecnEcho (conn a r)"])
  next
    case False
    have o: "observeECN a pkt r = (if 0 < Size pkt \<and> ECN pkt = CE
        then (upd a (\<lambda>c. c\<lparr>ecnEcho := True\<rparr>) r1)
          \<lparr>rc_ecnState := (rc_ecnState r1)\<lparr>ReceivedCEPacketCount := u64 (ReceivedCEPacketCount (rc_ecnState r1) + 1)\<rparr>\<rparr>
        else r1)"
      using False by (simp add: observeECN_def r1_def Let_def)
    have g3: "goes cb a 0 r (upd a (\<lambda>c. c\<lparr>ecnEcho := True\<rparr>) r1)" using goes_trans [OF g1(1) g2] by simp
    have l1: "a < length (rc_store r1)" using rc_eng_addr [OF d1(1) a1] .
    show ?thesis
    proof (cases "0 < Size pkt \<and> ECN pkt = CE")
      case True
      then show ?thesis using o goes_counter(1) [OF g3] g1(2) l1 by (auto simp: counter_change)
    next
      case False
      then show ?thesis using o g1 by auto
    qed
  qed
  then obtain b where b: "conn a (observeECN a pkt r) = (conn a r)\<lparr>ecnEcho := b\<rparr>" by blast
  have "conn_ok r (conn a (observeECN a pkt r))" using ok unfolding b by (simp add: conn_ok_def timers_ok_def)
  then show "moves cb P 0 r (observeECN a pkt r)" using goes_moves [OF r] g by blast
  show "\<exists>b. conn a (observeECN a pkt r) = (conn a r)\<lparr>ecnEcho := b\<rparr>" using b by blast
qed

lemma activity_ok:
  assumes r: "rc_inv cb P r" and a: "lookup key r = Some a" and n: "ids 2 r"
  shows "\<exists>r'. recordConnectionActivity cb key a r = Some r' \<and> moves cb P 1 r r' \<and>
    stream_same (conn a r) (conn a r') \<and> conn_state (conn a r') = conn_state (conn a r)"
proof -
  note e = rc_invD(1) [OF r, of a] and ok = rc_invD(3) [OF r a]
  obtain r' i where s: "recordConnectionActivity cb key a r = Some r'" "goes cb a 1 r r'"
    "conn a r' = (if conn_state (conn a r) = TCPEstablished
      then (conn a r)\<lparr>lastActivity := eng_now (rc_engine r), idleEvent := i\<rparr> else conn a r)"
    using recordConnectionActivity_ok [OF e inj, of 1 key] a n by (auto simp: numeral_2_eq_2)
  have "0 \<le> eng_now (rc_engine r)" using e by (simp add: rc_eng_def eng_inv_def)
  then have "conn_ok r (conn a r')" using ok unfolding s(3) by (auto simp: conn_ok_def timers_ok_def)
  from goes_moves [OF r s(2) this] s show ?thesis by (auto simp: stream_same_def)
qed

text \<open>Sending our FIN, from the state \<open>c\<close> the caller has prepared.\<close>

lemma startFIN_ok:
  assumes e: "rc_eng cb a r" and c: "rc_counts P r" and a: "lookup key r = Some a" and n: "ids 2 r"
    and z: "finEvent (conn a r) = 0"
    and ok: "\<And>i. conn_ok r ((if \<not> closeStarted (conn a r)
        then (conn a r)\<lparr>idleEvent := 0, closeStarted := True, closeStartedAt := eng_now (rc_engine r)\<rparr>
        else (conn a r)\<lparr>idleEvent := 0\<rparr>)
      \<lparr>conn_state := state, finSent := True, finSeq := sendNextSeq (conn a r),
       sendNextSeq := u64 (sendNextSeq (conn a r) + 1), finRTO := InitialTimeout (rc_rtoConfig r),
       finEvent := i, delayedACKEvent := 0, pendingACKSegmentCount := 0\<rparr>)"
  shows "\<exists>r'. startFIN cb key a state r = Some r' \<and> ends cb P 1 r r'"
proof -
  obtain r1 where r1: "cancelIdleTimer a r = Some r1" "goes cb a 0 r r1" "conn a r1 = (conn a r)\<lparr>idleEvent := 0\<rparr>"
    using cancelIdleTimer_ok [OF e a] by blast
  note d1 = goesD [OF r1(2)]
  have a1: "lookup key r1 = Some a" using d1(3) a by simp
  let ?f = "\<lambda>c. if \<not> closeStarted c then c\<lparr>closeStarted := True, closeStartedAt := eng_now (rc_engine r1)\<rparr> else c"
  let ?r2 = "upd a ?f r1"
  have u2: "goes cb a 0 r1 ?r2" "conn a ?r2 = ?f (conn a r1)"
    by (rule goes_upd [OF d1(1) a1]; simp add: conn_defs)+
  note d2 = goesD [OF u2(1)]
  have a2: "lookup key ?r2 = Some a" using a1 by simp
  let ?g = "\<lambda>c. c\<lparr>conn_state := state, finSent := True, finSeq := sendNextSeq c,
     sendNextSeq := u64 (sendNextSeq c + 1), finRTO := InitialTimeout (rc_rtoConfig ?r2)\<rparr>"
  let ?r3 = "upd a ?g ?r2"
  have u3: "goes cb a 0 ?r2 ?r3" "conn a ?r3 = ?g (conn a ?r2)"
    by (rule goes_upd [OF d2(1) a2]; simp add: conn_defs)+
  note d3 = goesD [OF u3(1)]
  have a3: "lookup key ?r3 = Some a" using a2 by simp
  have g3: "goes cb a 0 r ?r3" using goes_trans [OF goes_trans [OF r1(2) u2(1)] u3(1)] by simp
  have cfg: "rc_rtoConfig r1 = rc_rtoConfig r" "eng_now (rc_engine r1) = eng_now (rc_engine r)"
    using d1(2) by (simp_all add: quiet_def)
  have "0 \<le> InitialTimeout (rc_rtoConfig r)" using e by (simp add: rc_eng_def config_ok_def)
  then have rto: "0 \<le> finRTO (conn a ?r3)" unfolding u3(2) by (simp add: cfg)
  have z3: "finEvent (conn a ?r3) = 0" using z unfolding u3(2) u2(2) r1(3) by simp
  have n3: "ids (Suc 1) ?r3" using n goesD(4) [OF g3, of 2] by (simp add: numeral_2_eq_2)
  obtain r4 i where r4: "scheduleFIN cb key a ?r3 = Some r4" "goes cb a 1 ?r3 r4"
    "conn a r4 = (conn a ?r3)\<lparr>finEvent := i\<rparr>" using scheduleFIN_ok [OF d3(1) inj rto n3 a3 z3] by blast
  note d4 = goesD [OF r4(2)]
  have g4: "goes cb a 1 r r4" using goes_trans [OF g3 r4(2)] by simp
  have a4: "lookup key r4 = Some a" using d4(3) a3 by simp
  have c4: "rc_counts P r4" using rc_counts_quiet [OF e goesD(2) [OF g4] c] .
  have k4: "conn_ok r4 x = conn_ok r x" for x using conn_ok_goes [OF g4] .
  have "conn a r4 = (if \<not> closeStarted (conn a r)
        then (conn a r)\<lparr>idleEvent := 0, closeStarted := True, closeStartedAt := eng_now (rc_engine r)\<rparr>
        else (conn a r)\<lparr>idleEvent := 0\<rparr>)
      \<lparr>conn_state := state, finSent := True, finSeq := sendNextSeq (conn a r),
       sendNextSeq := u64 (sendNextSeq (conn a r) + 1), finRTO := InitialTimeout (rc_rtoConfig r),
       finEvent := i\<rparr>"
    unfolding r4(3) u3(2) u2(2) r1(3) by (simp add: cfg)
  then have "conn_ok r4 ((conn a r4)\<lparr>delayedACKEvent := 0, pendingACKSegmentCount := 0\<rparr>)"
    using ok [of i] unfolding k4 by (simp only:)
  moreover have "finSent (conn a r4)" unfolding r4(3) u3(2) by simp
  ultimately obtain r5 where r5: "emitFIN cb key a r4 = Some r5" "ends cb P 0 r4 r5"
    using emitFIN_ok [OF d4(1) c4 a4] by blast
  have "startFIN cb key a state r = Some r5" using r1(1) r4(1) r5(1) by (simp add: startFIN_def Let_def)
  moreover have "ends cb P 1 r r5" using ends_trans [OF g4 r5(2)] by simp
  ultimately show ?thesis by blast
qed

lemma acknowledgeFIN_ok:
  assumes r: "rc_inv cb P r" and a: "lookup key r = Some a" and n: "ids 2 r"
  shows "\<exists>b r'. acknowledgeFIN cb key a ack r = Some (b, r') \<and>
    (if b then moves cb P 1 r r' \<and> stream_same (conn a r) (conn a r') else ends cb P 1 r r')"
proof (cases "\<not> finSent (conn a r) \<or> finAcked (conn a r) \<or> ack \<noteq> sendNextSeq (conn a r)")
  case True
  then show ?thesis using moves_refl [OF r]
    by (intro exI [of _ True] exI [of _ r]) (auto simp: acknowledgeFIN_def stream_same_def)
next
  case False
  note e = rc_invD(1) [OF r, of a] and c = rc_invD(2) [OF r] and ok = rc_invD(3) [OF r a]
  let ?f = "\<lambda>c. c\<lparr>finAcked := True\<rparr>"
  let ?r1 = "upd a ?f r"
  have u1: "goes cb a 0 r ?r1" "conn a ?r1 = ?f (conn a r)"
    by (rule goes_upd [OF e a]; simp add: conn_defs)+
  note d1 = goesD [OF u1(1)]
  have a1: "lookup key ?r1 = Some a" using a by simp
  obtain r2 where r2: "rc_cancel (finEvent (conn a ?r1)) ?r1 = Some r2"
    "goes cb a 0 ?r1 (upd a (\<lambda>c. c\<lparr>finEvent := 0\<rparr>) r2)"
    "conn a (upd a (\<lambda>c. c\<lparr>finEvent := 0\<rparr>) r2) = (conn a ?r1)\<lparr>finEvent := 0\<rparr>"
    using cancelFIN_ok [OF d1(1) a1] by blast
  let ?r3 = "upd a (\<lambda>c. c\<lparr>finEvent := 0\<rparr>) r2"
  have g3: "goes cb a 0 r ?r3" using goes_trans [OF u1(1) r2(2)] by simp
  note d3 = goesD [OF g3]
  have c3: "conn a ?r3 = (conn a r)\<lparr>finAcked := True, finEvent := 0\<rparr>" using r2(3) u1(2) by simp
  have a3: "lookup key ?r3 = Some a" using d3(3) [of key] a by simp
  have n3: "ids (Suc 1) ?r3" using n d3(4) [of 2] by (simp add: numeral_2_eq_2)
  have unfold: "acknowledgeFIN cb key a ack r =
    (case conn_state (conn a ?r3) of
       TCPFinWait1 \<Rightarrow> do {
         let r = upd a (\<lambda>c. c\<lparr>conn_state := TCPFinWait2\<rparr>) ?r3;
         (r, i) \<leftarrow> rc_schedule cb (FinWaitTimeout (rc_closeConfig r)) (FinWaitTimer key a) r;
         Some (True, upd a (\<lambda>c. c\<lparr>waitEvent := i\<rparr>) r)
       }
     | TCPClosing \<Rightarrow> do { r \<leftarrow> enterTimeWait cb key a ?r3; Some (True, r) }
     | TCPLastAck \<Rightarrow> do { r \<leftarrow> finishConnection cb key a CloseGraceful ?r3; Some (False, r) }
     | _ \<Rightarrow> Some (True, ?r3))"
    using False r2(1) by (simp add: acknowledgeFIN_def Let_def)
  have st: "conn_state (conn a r) \<in> {TCPFinWait1, TCPClosing, TCPLastAck}"
    using ok False by (auto simp: conn_ok_def state_ok_def)
  have w0: "waitEvent (conn a r) = 0" using ok st by (auto simp: conn_ok_def timers_ok_def)
  consider "conn_state (conn a r) = TCPFinWait1" | "conn_state (conn a r) = TCPClosing"
    | "conn_state (conn a r) = TCPLastAck" using st by blast
  then show ?thesis
  proof cases
    case 1
    let ?g = "\<lambda>c. c\<lparr>conn_state := TCPFinWait2\<rparr>"
    have u4: "goes cb a 0 ?r3 (upd a ?g ?r3)" "conn a (upd a ?g ?r3) = ?g (conn a ?r3)"
      by (rule goes_upd [OF d3(1) a3]; simp add: conn_defs)+
    note d4 = goesD [OF u4(1)]
    have fw: "0 \<le> FinWaitTimeout (rc_closeConfig (upd a ?g ?r3))"
      using d3(1) by (simp add: rc_eng_def config_ok_def close_config_Valid_def)
    have a4: "lookup key (upd a ?g ?r3) = Some a" using d4(3) [of key] a3 by simp
    have n4: "ids (Suc 1) (upd a ?g ?r3)" using d4(4) [of "Suc 1"] n3 by simp
    have w4: "waitEvent (conn a (upd a ?g ?r3)) = 0" using w0 u4(2) c3 by simp
    obtain r5 i where r5: "rc_schedule cb (FinWaitTimeout (rc_closeConfig (upd a ?g ?r3))) (FinWaitTimer key a)
        (upd a ?g ?r3) = Some (r5, i)"
      "goes cb a 1 (upd a ?g ?r3) (upd a (\<lambda>c. c\<lparr>waitEvent := i\<rparr>) r5)"
      "conn a (upd a (\<lambda>c. c\<lparr>waitEvent := i\<rparr>) r5) = (conn a (upd a ?g ?r3))\<lparr>waitEvent := i\<rparr>"
      using schedule_wait_ok [OF d4(1) inj fw n4 a4 w4, of "FinWaitTimer key a"] by blast
    have g5: "goes cb a 1 r (upd a (\<lambda>c. c\<lparr>waitEvent := i\<rparr>) r5)"
      using goes_trans [OF goes_trans [OF g3 u4(1)] r5(2)] by simp
    have c5: "conn a (upd a (\<lambda>c. c\<lparr>waitEvent := i\<rparr>) r5) =
      (conn a r)\<lparr>finAcked := True, finEvent := 0, conn_state := TCPFinWait2, waitEvent := i\<rparr>"
      unfolding r5(3) u4(2) c3 ..
    have "conn_ok r (conn a (upd a (\<lambda>c. c\<lparr>waitEvent := i\<rparr>) r5))"
      unfolding c5 using ok 1 False by (auto simp: conn_ok_def state_ok_def stream_ok_def timers_ok_def)
    then have "moves cb P 1 r (upd a (\<lambda>c. c\<lparr>waitEvent := i\<rparr>) r5)" using goes_moves [OF r g5] by blast
    moreover have "acknowledgeFIN cb key a ack r = Some (True, upd a (\<lambda>c. c\<lparr>waitEvent := i\<rparr>) r5)"
      using unfold c3 1 r5(1) by (simp add: Let_def)
    ultimately show ?thesis using c5 by (auto simp: stream_same_def)
  next
    case 2
    obtain r5 i where r5: "enterTimeWait cb key a ?r3 = Some r5" "goes cb a 1 ?r3 r5"
      "conn a r5 = (conn a ?r3)\<lparr>finEvent := 0, waitEvent := i, delayedACKEvent := 0, pendingACKSegmentCount := 0,
        conn_state := TCPTimeWait\<rparr>" using enterTimeWait_ok [OF d3(1) inj n3 a3] by blast
    have g5: "goes cb a 1 r r5" using goes_trans [OF g3 r5(2)] by simp
    have "conn_ok r (conn a r5)"
      unfolding r5(3) c3 using ok 2 False by (auto simp: conn_ok_def state_ok_def stream_ok_def timers_ok_def)
    then have "moves cb P 1 r r5" using goes_moves [OF r g5] by blast
    moreover have "acknowledgeFIN cb key a ack r = Some (True, r5)" using unfold c3 2 r5(1) by simp
    ultimately show ?thesis using r5(3) c3 by (auto simp: stream_same_def)
  next
    case 3
    obtain r5 where r5: "finishConnection cb key a CloseGraceful ?r3 = Some r5" "ends cb P 0 ?r3 r5"
      using finishConnection_ok [OF d3(1) rc_counts_quiet [OF e d3(2) c] a3] by blast
    have "ends cb P 1 r r5" using ends_weaken [OF ends_trans [OF g3 r5(2)]] by simp
    moreover have "acknowledgeFIN cb key a ack r = Some (False, r5)" using unfold c3 3 r5(1) by simp
    ultimately show ?thesis by auto
  qed
qed

text \<open>A half-open connection becomes active.\<close>

lemma rc_counts_promote:
  assumes e: "rc_eng cb a r" and c: "rc_counts P r" and a: "lookup key r = Some a"
    and half: "\<not> established (conn a r)" and can: "CanEstablish cb (rc_host r)"
    and r': "connections r' = connections r" "length (rc_store r') = length (rc_store r)"
      "map payload_of (rc_store r') = map payload_of (rc_store r)" "established (conn a r')"
      "\<And>b. b < length (rc_store r) \<Longrightarrow> b \<noteq> a \<Longrightarrow> established (conn b r') = established (conn b r)"
      "receivedPayloadBytes r' = receivedPayloadBytes r"
      "activeConnections r' = u32 (activeConnections r + 1)"
      "halfOpenConnections r' = halfOpenConnections r - 1"
      "rc_host r' = OnConnectionCounts cb (activeConnections r') (halfOpenConnections r') (rc_host r)"
  shows "rc_counts P r'"
proof -
  let ?cs = "filter (\<lambda>(k, _). k \<noteq> key) (connections r)"
  have d: "distinct (map fst (connections r))" "distinct (map snd (connections r))"
    "map_of (connections r) key = Some a" using e a by (simp_all add: rc_eng_def lookup_def)
  have ne: "b \<noteq> a \<and> b < length (rc_store r)" if kb: "(k, b) \<in> set ?cs" for k b
  proof -
    have "(k, b) \<in> set (connections r)" "k \<noteq> key" using kb by auto
    moreover have "(key, a) \<in> set (connections r)" using d(3) by (rule map_of_SomeD)
    ultimately have "b \<noteq> a" using d(2) by (metis inj_on_eq_iff distinct_map fst_conv snd_conv)
    moreover have "b \<in> snd ` set (connections r)" using \<open>(k, b) \<in> set (connections r)\<close> by force
    ultimately show ?thesis using e unfolding rc_eng_def by blast
  qed
  have same: "filter (\<lambda>(_, b). established (conn b r')) ?cs = filter (\<lambda>(_, b). established (conn b r)) ?cs"
    "filter (\<lambda>(_, b). \<not> established (conn b r')) ?cs = filter (\<lambda>(_, b). \<not> established (conn b r)) ?cs"
    using ne r'(5) by (auto intro!: filter_cong simp del: filter_filter)
  define act where "act = length (filter (\<lambda>(_, b). established (conn b r)) ?cs)"
  define hal where "hal = length (filter (\<lambda>(_, b). \<not> established (conn b r)) ?cs)"
  have n: "activeConnections r = act" "halfOpenConnections r = Suc hal"
    using c half length_filter_remove [OF d(1,3), of "\<lambda>(_, b). established (conn b r)"]
      length_filter_remove [OF d(1,3), of "\<lambda>(_, b). \<not> established (conn b r)"]
    by (simp_all add: rc_counts_def act_def hal_def del: filter_filter)
  have n': "length (filter (\<lambda>(_, b). established (conn b r')) (connections r')) = Suc act"
    "length (filter (\<lambda>(_, b). \<not> established (conn b r')) (connections r')) = hal"
    using r'(4) length_filter_remove [OF d(1,3), of "\<lambda>(_, b). established (conn b r')"]
      length_filter_remove [OF d(1,3), of "\<lambda>(_, b). \<not> established (conn b r')"]
    unfolding same r'(1) by (simp_all add: act_def hal_def del: filter_filter)
  have "Suc act \<le> length (connections r')" unfolding n'(1) [symmetric] by (rule length_filter_le)
  then have "Suc act < 4294967296" using live_count [OF e] c by (simp add: r'(1) rc_counts_def)
  then have m: "activeConnections r' = Suc act" "halfOpenConnections r' = hal" using n r'(7,8) by simp_all
  have "P (Suc act) hal (OnConnectionCounts cb (Suc act) hal (rc_host r))"
    using promoted [of act hal "rc_host r"] rc_counts_P [OF c] can by (simp add: n)
  moreover have "length (rc_store r') < 4294967296" "receivedPayloadBytes r' = u64 (\<Sum>c\<leftarrow>rc_store r'. payload_of c)"
    using c by (simp_all add: rc_counts_def r'(2,3,6))
  ultimately show ?thesis unfolding rc_counts_def n' r'(9) m by simp
qed

lemma establishConnection_ok:
  assumes r: "rc_inv cb P r" and a: "lookup key r = Some a" and n: "ids 2 r"
    and half: "\<not> established (conn a r)"
  shows "\<exists>b r'. establishConnection cb key a r = Some (b, r') \<and>
    (if b then moves cb P 1 r r' \<and> rbuf (conn a r') = rbuf (conn a r) \<and> conn_state (conn a r') = TCPEstablished
     else ends cb P 1 r r')"
proof -
  note e = rc_invD(1) [OF r, of a] and c = rc_invD(2) [OF r] and ok = rc_invD(3) [OF r a]
  have l: "a < length (rc_store r)" using rc_invD(4) [OF r a] .
  consider "\<not> CanEstablish cb (rc_host r)" | "CanEstablish cb (rc_host r)" "rc_stopped r"
    | "CanEstablish cb (rc_host r)" "\<not> rc_stopped r" by blast
  then show ?thesis
  proof cases
    case 1
    obtain r1 where "finishConnection cb key a CloseAborted r = Some r1" "ends cb P 0 r r1"
      using finishConnection_ok [OF e c a] by blast
    then show ?thesis using 1 ends_weaken [of cb P 0 r r1 1]
      by (intro exI [of _ False] exI [of _ r1]) (simp add: establishConnection_def)
  next
    case 2
    then show ?thesis using ends_refl [OF r]
      by (intro exI [of _ False] exI [of _ r]) (simp add: establishConnection_def)
  next
    case 3
    let ?f = "\<lambda>c. c\<lparr>established := True, conn_state := TCPEstablished\<rparr>"
    let ?r1 = "upd a ?f r"
    have e1: "rc_eng cb a ?r1" by (rule rc_eng_upd_keeps [OF e a]) (simp add: keeps_events_def)
    have a1: "lookup key ?r1 = Some a" using a by simp
    obtain r2 where r2: "cancelIdleTimer a ?r1 = Some r2" "goes cb a 0 ?r1 r2"
      "conn a r2 = (conn a ?r1)\<lparr>idleEvent := 0\<rparr>" using cancelIdleTimer_ok [OF e1 a1] by blast
    note d2 = goesD [OF r2(2)]
    have a2: "lookup key r2 = Some a" using d2(3) a1 by simp
    have n2: "ids (Suc 1) r2" using n d2(4) [of 2] by (simp add: numeral_2_eq_2)
    obtain r3 i where r3: "recordConnectionActivity cb key a r2 = Some r3" "goes cb a 1 r2 r3"
      "conn a r3 = (if conn_state (conn a r2) = TCPEstablished
        then (conn a r2)\<lparr>lastActivity := eng_now (rc_engine r2), idleEvent := i\<rparr> else conn a r2)"
      using recordConnectionActivity_ok [OF d2(1) inj n2 a2] by blast
    have g3: "goes cb a 1 ?r1 r3" using goes_trans [OF r2(2) r3(2)] by simp
    have q3: "quiet ?r1 r3" using g3 by (simp add: goes_def)
    have now: "eng_now (rc_engine r2) = eng_now (rc_engine r)" using d2(2) by (simp add: quiet_def)
    have c3: "conn a r3 = (conn a r)\<lparr>established := True, conn_state := TCPEstablished,
        lastActivity := eng_now (rc_engine r), idleEvent := i\<rparr>"
      using r3(3) r2(3) l now by simp
    define act where "act = u32 (activeConnections r3 + 1)"
    define hal where "hal = halfOpenConnections r3 - 1"
    let ?r5 = "r3\<lparr>activeConnections := act, halfOpenConnections := hal, rc_host := OnConnectionCounts cb act hal (rc_host r3)\<rparr>"
    have cn: "conn b (r3\<lparr>activeConnections := x, halfOpenConnections := y, rc_host := z\<rparr>) = conn b r3" for b x y z
      by (simp add: conn_def)
    have q1: "connections r3 = connections r" "length (rc_store r3) = length (rc_store r)"
      "activeConnections r3 = activeConnections r" "halfOpenConnections r3 = halfOpenConnections r"
      "rc_host r3 = rc_host r" "receivedPayloadBytes r3 = receivedPayloadBytes r" "rc_stopped r3 = rc_stopped r"
      "map established (rc_store r3) = map established (rc_store ?r1)"
      "map payload_of (rc_store r3) = map payload_of (rc_store ?r1)"
      using q3 by (simp_all add: quiet_def)
    have pay: "map payload_of (rc_store r3) = map payload_of (rc_store r)"
      unfolding q1(9) using l by (simp add: upd_def payload_of_def map_update list_update_same_conv)
    have est: "established (conn b r3) = established (conn b r)" if "b < length (rc_store r)" "b \<noteq> a" for b
    proof -
      have "established (conn b r3) = established (conn b ?r1)"
        using map_established [of b r3] map_established [of b ?r1] that(1) q1(2,8) by simp
      then show ?thesis using that(2) by simp
    qed
    have cnt: "rc_counts P ?r5"
      by (rule rc_counts_promote [OF e c a half 3(1)])
        (simp_all add: q1(1-7) pay cn c3 est act_def hal_def)
    have same: "lookup k ?r5 = lookup k r" "conn_ok ?r5 = conn_ok r" "config_ok ?r5 = config_ok r" for k
    proof -
      have "lookup k ?r5 = lookup k r3" "conn_ok ?r5 = conn_ok r3" "config_ok ?r5 = config_ok r3"
        by (simp_all add: lookup_def conn_ok_def timers_ok_def config_ok_def fun_eq_iff)
      then show "lookup k ?r5 = lookup k r" "conn_ok ?r5 = conn_ok r" "config_ok ?r5 = config_ok r"
        using quiet_lookup [OF q3, of k] conn_ok_quiet [OF q3] config_ok_quiet [OF q3] by (simp_all add: fun_eq_iff)
    qed
    have e5: "rc_eng cb a ?r5" using goesD(1) [OF g3] unfolding rc_eng_def
      by (simp add: lookup_def conn_def timer_live_def conn_ok_def timers_ok_def config_ok_def)
    have st: "conn_state (conn a r) = TCPSynReceived" using ok half by (simp add: conn_ok_def state_ok_def)
    have now0: "0 \<le> eng_now (rc_engine r)" using e by (simp add: rc_eng_def eng_inv_def)
    have ok5: "conn_ok r (conn a ?r5)" unfolding cn c3
      using ok st now0 by (simp add: conn_ok_def state_ok_def timers_ok_def) auto
    have "rc_inv cb P ?r5" using rc_invI [OF e5 cnt] ok5 same(2) by simp
    then have "moves cb P 1 r ?r5" using g3 same q1 by (simp add: moves_def ends_def goes_def quiet_def)
    moreover have "establishConnection cb key a r = Some (True, ?r5)"
      using 3 a r2(1) r3(1) same(1) [of key] q1(7)
      by (auto simp: establishConnection_def Let_def notifyConnectionCounts_def act_def hal_def)
    ultimately show ?thesis using c3 by (auto simp: cn)
  qed
qed

end

end
