(* ===== verification/ReceiverHandlers.thy ===== *)
theory ReceiverHandlers
  imports ReceiverRun
begin

text \<open>
  The receiver's handlers: the peer's FIN, the packets by kind, the timers and the calls of the
  host.  Each keeps the invariant and returns, while identifiers for timers are left.
\<close>

section \<open>The peer's FIN\<close>

definition fin_consumed :: "nat \<Rightarrow> duration \<Rightarrow> receive_connection \<Rightarrow> receive_connection" where
  "fin_consumed sequence now c =
     (let c = c\<lparr>pendingFIN := False, peerFIN := True, peerFINSeq := sequence,
                rbuf := (rbuf c)\<lparr>nextExpectedSeq := u64 (nextExpectedSeq (rbuf c) + 1)\<rparr>\<rparr>
      in if \<not> closeStarted c then c\<lparr>closeStarted := True, closeStartedAt := now\<rparr> else c)"

lemma rb_ok_advance:
  assumes "rb_ok b" "rb_ranges b = []" "nextExpectedSeq b < max_u64"
  shows "rb_ok (b\<lparr>nextExpectedSeq := u64 (nextExpectedSeq b + 1)\<rparr>)"
    "u64 (nextExpectedSeq b + 1) = nextExpectedSeq b + 1" "bufferedBytes b = 0"
  using assms by (simp_all add: rb_ok_def)

lemma fin_consumed_sel [simp]:
  "conn_state (fin_consumed q t c) = conn_state c" "established (fin_consumed q t c) = established c"
  "finSent (fin_consumed q t c) = finSent c" "finAcked (fin_consumed q t c) = finAcked c"
  "peerFIN (fin_consumed q t c)" "\<not> pendingFIN (fin_consumed q t c)" "closeStarted (fin_consumed q t c)"
  "sendNextSeq (fin_consumed q t c) = sendNextSeq c" "finSeq (fin_consumed q t c) = finSeq c"
  "rc_outcome (fin_consumed q t c) = rc_outcome c" "idleEvent (fin_consumed q t c) = idleEvent c"
  "waitEvent (fin_consumed q t c) = waitEvent c" "finEvent (fin_consumed q t c) = finEvent c"
  "pendingACKSegmentCount (fin_consumed q t c) = pendingACKSegmentCount c"
  "delayedACKEvent (fin_consumed q t c) = delayedACKEvent c" "finRTO (fin_consumed q t c) = finRTO c"
  "finTimeouts (fin_consumed q t c) = finTimeouts c" "lastActivity (fin_consumed q t c) = lastActivity c"
  "startedAt (fin_consumed q t c) = startedAt c"
  "closeStartedAt (fin_consumed q t c) = (if closeStarted c then closeStartedAt c else t)"
  by (simp_all add: fin_consumed_def Let_def)

lemma stream_consumed:
  assumes "stream_ok c" "sequence = nextExpectedSeq (rbuf c)" "sequence < max_u64" "rb_ranges (rbuf c) = []"
  shows "stream_ok (fin_consumed sequence now c)"
proof -
  have b: "rb_ok (rbuf c)" using assms(1) by (simp add: stream_ok_def)
  note adv = rb_ok_advance [OF b assms(4) assms(3)[unfolded assms(2)]]
  show ?thesis using assms adv by (auto simp: stream_ok_def fin_consumed_def Let_def)
qed

lemma payload_consumed:
  assumes "stream_ok c" "\<not> peerFIN c" "sequence = nextExpectedSeq (rbuf c)" "sequence < max_u64" "rb_ranges (rbuf c) = []"
  shows "payload_of (fin_consumed sequence now c) = payload_of c"
proof -
  have b: "rb_ok (rbuf c)" using assms(1) by (simp add: stream_ok_def)
  note adv = rb_ok_advance [OF b assms(5) assms(4)[unfolded assms(3)]]
  show ?thesis using assms(1,2) adv(2,3) by (auto simp: payload_of_def fin_consumed_def Let_def stream_ok_def)
qed

lemma pending_FIN_ok:
  assumes ok: "conn_ok r c" and f: "\<not> peerFIN c" "established c" "received (rbuf c) \<subseteq> {..<q}" "q < max_u64"
  shows "conn_ok r ((c\<lparr>pendingFIN := True, pendingFINSeq := q\<rparr>)\<lparr>delayedACKEvent := 0, pendingACKSegmentCount := 0\<rparr>)"
proof -
  have s: "state_ok c" "stream_ok c" "timers_ok r c" using ok by (simp_all add: conn_ok_def)
  have "conn_state c \<in> {TCPEstablished, TCPFinWait1, TCPFinWait2}" using s(1) f by (auto simp: state_ok_def)
  then have "state_ok (c\<lparr>pendingFIN := True, pendingFINSeq := q\<rparr>)" using s(1) by (simp add: state_ok_def)
  moreover have "stream_ok (c\<lparr>pendingFIN := True, pendingFINSeq := q\<rparr>)" using s(2) f by (simp add: stream_ok_def)
  moreover have "timers_ok r ((c\<lparr>pendingFIN := True, pendingFINSeq := q\<rparr>)\<lparr>delayedACKEvent := 0, pendingACKSegmentCount := 0\<rparr>)"
    using s(3) by (simp add: timers_ok_def)
  ultimately show ?thesis by (simp add: conn_ok_def)
qed

context receiver_host
begin

lemma consumeFIN_ok:
  assumes r: "rc_inv cb P r" and a: "lookup key r = Some a" and n: "ids 2 r"
    and run: "\<not> rc_stopped r" and fin: "\<not> peerFIN (conn a r)" "established (conn a r)"
    and s: "sequence = nextExpectedSeq (rbuf (conn a r))" "sequence < max_u64" "rb_ranges (rbuf (conn a r)) = []"
  shows "\<exists>r'. consumeFIN cb key a sequence r = Some r' \<and> ends cb P 1 r r'"
proof -
  note e = rc_invD(1) [OF r, of a] and c = rc_invD(2) [OF r] and ok = rc_invD(3) [OF r a]
  have l: "a < length (rc_store r)" using rc_invD(4) [OF r a] .
  define now where "now = eng_now (rc_engine r)"
  have now0: "0 \<le> now" "now \<le> max_i64" using e by (auto simp: rc_eng_def eng_inv_def now_def)
  have st: "state_ok (conn a r)" "stream_ok (conn a r)" "timers_ok r (conn a r)" using ok by (simp_all add: conn_ok_def)
  define f where "f = (\<lambda>c :: receive_connection. c\<lparr>pendingFIN := False, peerFIN := True, peerFINSeq := sequence,
      rbuf := (rbuf c)\<lparr>nextExpectedSeq := u64 (nextExpectedSeq (rbuf c) + 1)\<rparr>\<rparr>)"
  define g where "g = (\<lambda>c :: receive_connection. if \<not> closeStarted c
      then c\<lparr>closeStarted := True, closeStartedAt := now\<rparr> else c)"
  have gf: "g (f x) = fin_consumed sequence now x" for x by (simp add: g_def f_def fin_consumed_def Let_def)
  define r2 where "r2 = upd a g (upd a f r)"
  have c2: "conn a r2 = fin_consumed sequence now (conn a r)" using l by (simp add: r2_def gf)
  have e1: "rc_eng cb a (upd a f r)" by (rule rc_eng_upd_keeps [OF e a]) (simp add: keeps_events_def f_def)
  have e2: "rc_eng cb a r2" unfolding r2_def
    by (rule rc_eng_upd_keeps [OF e1, of key]) (simp_all add: a keeps_events_def g_def)
  have r2': "r2 = upd a (\<lambda>x. g (f x)) r" using l by (simp add: r2_def upd_def)
  have q2: "quiet r r2" unfolding r2'
    by (rule quiet_upd) (simp_all add: gf l payload_consumed [OF st(2) fin(1) s])
  define H where "H = OnPeerFIN cb (i64 (now - startedAt (conn a r2))) (rc_host r2)"
  define r3 where "r3 = r2\<lparr>rc_host := H\<rparr>"
  have dur: "0 \<le> i64 (now - startedAt (conn a r2))"
  proof -
    have "0 \<le> startedAt (conn a r)" "startedAt (conn a r) \<le> now" using st(3) by (simp_all add: timers_ok_def now_def)
    then show ?thesis using now0 by (simp add: c2 in_i64_def max_i64_def)
  qed
  have cnt2: "rc_counts P r2" using rc_counts_quiet [OF e q2 c] .
  have e3: "rc_eng cb a r3" using e2 by (simp add: r3_def host_change)
  have cnt3: "rc_counts P r3"
    using rc_counts_host [OF cnt2] peer_fin [OF rc_counts_P [OF cnt2] dur] by (simp add: r3_def H_def)
  have a3: "lookup key r3 = Some a" using a by (simp add: r3_def r2_def)
  have c3: "conn a r3 = fin_consumed sequence now (conn a r)" using c2 by (simp add: r3_def host_change)
  have k3: "conn_ok r3 = conn_ok r" using conn_ok_quiet [OF q2] by (simp add: r3_def host_change fun_eq_iff)
  have n3: "ids 2 r3" and en: "rc_engine r3 = rc_engine r" and run3: "\<not> rc_stopped r3"
    and cfg3: "rc_rtoConfig r3 = rc_rtoConfig r" using n run by (simp_all add: ids_def r3_def r2_def)
  have unf: "consumeFIN cb key a sequence r =
    (case conn_state (conn a r3) of
       TCPEstablished \<Rightarrow> startFIN cb key a TCPLastAck (upd a (\<lambda>c. c\<lparr>conn_state := TCPCloseWait\<rparr>) r3)
     | TCPFinWait1 \<Rightarrow> acknowledge cb key a (upd a (\<lambda>c. c\<lparr>conn_state := TCPClosing\<rparr>) r3)
     | TCPFinWait2 \<Rightarrow> do { r \<leftarrow> enterTimeWait cb key a r3; acknowledge cb key a r }
     | _ \<Rightarrow> acknowledge cb key a r3)"
    unfolding consumeFIN_def Let_def
    apply (fold now_def)
    apply (fold f_def g_def)
    apply (fold r2_def)
    apply (fold H_def)
    apply (fold r3_def)
    using run3 a3 by simp
  have ending: "\<exists>r'. consumeFIN cb key a sequence r = Some r' \<and> ends cb P 1 r r'"
    if "consumeFIN cb key a sequence r = op" "op = Some r'" "ends cb P 1 r3 r'" for op r'
    using that en run run3 by (auto simp: ends_def)
  have "conn_state (conn a r) \<in> {TCPEstablished, TCPFinWait1, TCPFinWait2}"
    using st(1) fin by (auto simp: state_ok_def)
  then consider "conn_state (conn a r) = TCPEstablished" | "conn_state (conn a r) = TCPFinWait1"
    | "conn_state (conn a r) = TCPFinWait2" by blast
  then show ?thesis
  proof cases
    case 1
    let ?u = "\<lambda>c :: receive_connection. c\<lparr>conn_state := TCPCloseWait\<rparr>"
    define r4 where "r4 = upd a ?u r3"
    have u4: "goes cb a 0 r3 r4" "conn a r4 = ?u (conn a r3)"
      unfolding r4_def by (rule goes_upd [OF e3 a3]; simp add: conn_defs)+
    note d4 = goesD [OF u4(1)]
    have cfg: "rc_rtoConfig r4 = rc_rtoConfig r" "eng_now (rc_engine r4) = now"
      by (simp_all add: r4_def cfg3 en now_def)
    have c4: "conn a r4 = (fin_consumed sequence now (conn a r))\<lparr>conn_state := TCPCloseWait\<rparr>" unfolding u4(2) c3 ..
    have facts: "sendNextSeq (conn a r) = 1" "\<not> finSent (conn a r)" "\<not> finAcked (conn a r)" "rc_outcome (conn a r) = None"
      "finEvent (conn a r) = 0" "waitEvent (conn a r) = 0"
      using st(1,3) 1 by (auto simp: state_ok_def timers_ok_def)
    have z: "finEvent (conn a r4) = 0" unfolding c4 using facts by simp
    have rto: "0 < InitialTimeout (rc_rtoConfig r)" "InitialTimeout (rc_rtoConfig r) \<le> MaximumTimeout (rc_rtoConfig r)"
      using e by (simp_all add: rc_eng_def config_ok_def)
    have k4: "conn_ok r4 = conn_ok r" using d4(6) k3 by (simp add: fun_eq_iff)
    have cs: "closeStarted (conn a r4)" by (simp add: c4)
    have "\<exists>r'. startFIN cb key a TCPLastAck r4 = Some r' \<and> ends cb P 1 r4 r'"
    proof (rule startFIN_ok [OF d4(1) _ _ _ z])
      show "rc_counts P r4" using rc_counts_quiet [OF e3 d4(2) cnt3] .
      show "lookup key r4 = Some a" using a3 by (simp add: r4_def)
      show "ids 2 r4" using n3 by (simp add: r4_def)
    next
      fix i
      have "conn_ok r ((conn a r4)\<lparr>idleEvent := 0, conn_state := TCPLastAck, finSent := True,
          finSeq := sendNextSeq (conn a r4), sendNextSeq := u64 (sendNextSeq (conn a r4) + 1),
          finRTO := InitialTimeout (rc_rtoConfig r4), finEvent := i, delayedACKEvent := 0, pendingACKSegmentCount := 0\<rparr>)"
        unfolding c4 cfg conn_ok_def
      proof (intro conjI)
        show "stream_ok ((fin_consumed sequence now (conn a r))\<lparr>conn_state := TCPCloseWait\<rparr>
          \<lparr>idleEvent := 0, conn_state := TCPLastAck, finSent := True,
          finSeq := sendNextSeq ((fin_consumed sequence now (conn a r))\<lparr>conn_state := TCPCloseWait\<rparr>),
          sendNextSeq := u64 (sendNextSeq ((fin_consumed sequence now (conn a r))\<lparr>conn_state := TCPCloseWait\<rparr>) + 1),
          finRTO := InitialTimeout (rc_rtoConfig r), finEvent := i, delayedACKEvent := 0, pendingACKSegmentCount := 0\<rparr>)"
          using stream_consumed [OF st(2) s] by simp
      qed (use facts fin(2) st(3) rto in \<open>simp_all add: state_ok_def timers_ok_def now_def max_u64_def\<close>)
      then show "conn_ok r4 ((if \<not> closeStarted (conn a r4)
          then (conn a r4)\<lparr>idleEvent := 0, closeStarted := True, closeStartedAt := eng_now (rc_engine r4)\<rparr>
          else (conn a r4)\<lparr>idleEvent := 0\<rparr>)
        \<lparr>conn_state := TCPLastAck, finSent := True, finSeq := sendNextSeq (conn a r4),
         sendNextSeq := u64 (sendNextSeq (conn a r4) + 1), finRTO := InitialTimeout (rc_rtoConfig r4),
         finEvent := i, delayedACKEvent := 0, pendingACKSegmentCount := 0\<rparr>)"
        using cs by (simp add: k4)
    qed
    then obtain r5 where r5: "startFIN cb key a TCPLastAck r4 = Some r5" "ends cb P 1 r4 r5" by blast
    show ?thesis
      by (rule ending [OF unf]) (use r5 c3 1 ends_trans [OF u4(1) r5(2)] in \<open>simp_all add: r4_def [symmetric]\<close>)
  next
    case 2
    let ?u = "\<lambda>c :: receive_connection. c\<lparr>conn_state := TCPClosing\<rparr>"
    define r4 where "r4 = upd a ?u r3"
    have u4: "goes cb a 0 r3 r4" "conn a r4 = ?u (conn a r3)"
      unfolding r4_def by (rule goes_upd [OF e3 a3]; simp add: conn_defs)+
    note d4 = goesD [OF u4(1)]
    have k4: "conn_ok r4 = conn_ok r" using d4(6) k3 by (simp add: fun_eq_iff)
    have facts: "finSent (conn a r)" "\<not> finAcked (conn a r)" "sendNextSeq (conn a r) = 2" "finSeq (conn a r) = 1"
      "rc_outcome (conn a r) = None" "waitEvent (conn a r) = 0" "idleEvent (conn a r) = 0"
      using st(1,3) 2 by (auto simp: state_ok_def timers_ok_def)
    have "conn_ok r4 ((conn a r4)\<lparr>delayedACKEvent := 0, pendingACKSegmentCount := 0\<rparr>)"
      unfolding k4 u4(2) c3 conn_ok_def
    proof (intro conjI)
      show "stream_ok ((fin_consumed sequence now (conn a r))\<lparr>conn_state := TCPClosing\<rparr>
          \<lparr>delayedACKEvent := 0, pendingACKSegmentCount := 0\<rparr>)" using stream_consumed [OF st(2) s] by simp
    qed (use facts fin(2) st(3) in \<open>simp_all add: state_ok_def timers_ok_def now_def\<close>)
    from acknowledge_ok [OF d4(1) rc_counts_quiet [OF e3 d4(2) cnt3] _ this]
    obtain r5 where r5: "acknowledge cb key a r4 = Some r5" "rc_stopped r4 \<and> r5 = r4 \<or> ends cb P 0 r4 r5"
      using a3 by (auto simp: r4_def)
    have "ends cb P 0 r4 r5" using r5(2) run3 by (simp add: r4_def)
    then have "ends cb P 1 r3 r5" using ends_weaken [OF ends_trans [OF u4(1)]] by fastforce
    then show ?thesis by (intro ending [OF unf]) (use r5 c3 2 in \<open>simp_all add: r4_def [symmetric]\<close>)
  next
    case 3
    have n3': "ids (Suc 1) r3" using n3 by (simp add: numeral_2_eq_2)
    obtain r4 i where r4: "enterTimeWait cb key a r3 = Some r4" "goes cb a 1 r3 r4"
      "conn a r4 = (conn a r3)\<lparr>finEvent := 0, waitEvent := i, delayedACKEvent := 0, pendingACKSegmentCount := 0,
        conn_state := TCPTimeWait\<rparr>" using enterTimeWait_ok [OF e3 inj n3' a3] by blast
    note d4 = goesD [OF r4(2)]
    have k4: "conn_ok r4 = conn_ok r" using d4(6) k3 by (simp add: fun_eq_iff)
    have facts: "finSent (conn a r)" "finAcked (conn a r)" "sendNextSeq (conn a r) = 2" "finSeq (conn a r) = 1"
      "rc_outcome (conn a r) = None" "idleEvent (conn a r) = 0"
      using st(1,3) 3 by (auto simp: state_ok_def timers_ok_def)
    have "conn_ok r4 (conn a r4)"
      unfolding k4 r4(3) c3 conn_ok_def
    proof (intro conjI)
      show "stream_ok ((fin_consumed sequence now (conn a r))\<lparr>finEvent := 0, waitEvent := i, delayedACKEvent := 0,
          pendingACKSegmentCount := 0, conn_state := TCPTimeWait\<rparr>)" using stream_consumed [OF st(2) s] by simp
    qed (use facts fin(2) st(3) in \<open>simp_all add: state_ok_def timers_ok_def now_def\<close>)
    from acknowledge_ok [OF d4(1) rc_counts_quiet [OF e3 d4(2) cnt3] _ conn_ok_clear [OF this]]
    obtain r5 where r5: "acknowledge cb key a r4 = Some r5" "rc_stopped r4 \<and> r5 = r4 \<or> ends cb P 0 r4 r5"
      using a3 d4(3) by auto
    have "ends cb P 0 r4 r5" using r5(2) run3 d4(5) by simp
    then have "ends cb P 1 r3 r5" using ends_trans [OF r4(2)] by fastforce
    then show ?thesis by (intro ending [OF unf]) (use r5 c3 3 r4(1) in simp_all)
  qed
qed

lemma emptied: "received b \<subseteq> {..<nextExpectedSeq b} \<Longrightarrow> rb_ok b \<Longrightarrow> rb_ranges b = []"
proof (rule ccontr)
  assume s: "received b \<subseteq> {..<nextExpectedSeq b}" and b: "rb_ok b" and ne: "rb_ranges b \<noteq> []"
  then obtain x xs where x: "rb_ranges b = x # xs" by (cases "rb_ranges b") auto
  have "ranges_ok (Suc (nextExpectedSeq b)) (rb_ranges b)" using b by (simp add: rb_ok_def)
  then have "Suc (nextExpectedSeq b) \<le> Start x" "Start x < End x" using x by auto
  moreover have "Start x \<in> received b" using x calculation by (auto simp: received_def)
  ultimately show False using s by auto
qed

lemma received_below:
  assumes "rb_ok b" "list_all (\<lambda>x. End x \<le> q) (rb_ranges b)" "nextExpectedSeq b \<le> q"
  shows "received b \<subseteq> {..<q}"
  using assms by (fastforce simp: received_def positions_def list_all_iff)

lemma handleRST_ok:
  assumes r: "rc_inv cb P r" and f: "found = lookup (Key pkt) r"
  shows "\<exists>r'. handleRST cb pkt found r = Some r' \<and> ends cb P 0 r r'"
proof (cases found)
  case None
  then show ?thesis using ends_refl [OF r] by (simp add: handleRST_def)
next
  case (Some a)
  then obtain r' where "finishConnection cb (Key pkt) a CloseReset r = Some r'" "ends cb P 0 r r'"
    using finishConnection_ok [OF rc_invD(1,2) [OF r], of "Key pkt" a CloseReset] f by auto
  then show ?thesis using Some ends_refl [OF r] by (auto simp: handleRST_def Let_def)
qed

text \<open>The part of \<open>handleFIN\<close> for a FIN that repeats the peer's.\<close>

lemma repeated_FIN_ok:
  assumes r: "rc_inv cb P r" and a: "lookup key r = Some a" and n: "ids 3 r" and run: "\<not> rc_stopped r"
    and fin: "peerFIN (conn a r)"
  shows "\<exists>r'. do { (stillOpen, r) \<leftarrow> acknowledgeFIN cb key a ack r;
       if \<not> stillOpen then Some r
       else do {
         let r = observeECN a pkt r;
         r \<leftarrow> (if conn_state (conn a r) = TCPTimeWait then enterTimeWait cb key a r else Some r);
         if conn_state (conn a r) = TCPLastAck
         then emitFIN cb key a (upd a (\<lambda>c. c\<lparr>finRetries := u64 (finRetries c + 1)\<rparr>) r)
         else acknowledge cb key a r
       } } = Some r' \<and> ends cb P 2 r r'"
proof -
  have n2: "ids 2 r" using n by (simp add: ids_def)
  obtain b r1 where r1: "acknowledgeFIN cb key a ack r = Some (b, r1)"
    "if b then moves cb P 1 r r1 \<and> stream_same (conn a r) (conn a r1) else ends cb P 1 r r1"
    using acknowledgeFIN_ok [OF r a n2] by blast
  show ?thesis
  proof (cases b)
    case False
    then show ?thesis using r1 ends_weaken [of cb P 1 r r1 2] by simp
  next
    case True
    then have m1: "moves cb P 1 r r1" using r1(2) by simp
    note d1 = movesD [OF m1]
    have a1: "lookup key r1 = Some a" using d1(2) a by simp
    let ?r2 = "observeECN a pkt r1"
    note m2 = observeECN_ok(1) [OF d1(1) a1, of pkt]
    note d2 = movesD [OF m2]
    have a2: "lookup key ?r2 = Some a" using d2(2) a1 by simp
    have n2': "ids (Suc 1) ?r2" using d1(3) [of 2] d2(3) [of 2] n by (simp add: numeral_2_eq_2 numeral_3_eq_3)
    note e2 = rc_invD(1) [OF d2(1), of a] and ok2 = rc_invD(3) [OF d2(1) a2]
    define t where "t = conn_state (conn a ?r2)"
    obtain r3 where r3: "(if t = TCPTimeWait then enterTimeWait cb key a ?r2 else Some ?r2) = Some r3"
      "moves cb P 1 ?r2 r3" "conn_state (conn a r3) = t"
    proof (cases "t = TCPTimeWait")
      case True
      obtain r3 i where s: "enterTimeWait cb key a ?r2 = Some r3" "goes cb a 1 ?r2 r3"
        "conn a r3 = (conn a ?r2)\<lparr>finEvent := 0, waitEvent := i, delayedACKEvent := 0, pendingACKSegmentCount := 0,
          conn_state := TCPTimeWait\<rparr>" using enterTimeWait_ok [OF e2 inj n2' a2] by blast
      have "conn_ok ?r2 (conn a r3)" unfolding s(3)
        using ok2 True by (simp add: conn_ok_def state_ok_def timers_ok_def t_def)
      from goes_moves [OF d2(1) s(2) this] show ?thesis
        by (intro that [of r3]) (simp_all add: s True)
    next
      case False
      show ?thesis by (rule that [of ?r2]) (simp_all add: False moves_refl [OF d2(1)] t_def [symmetric])
    qed
    note d3 = movesD [OF r3(2)]
    have a3: "lookup key r3 = Some a" using d3(2) a2 by simp
    note e3 = rc_invD(1) [OF d3(1), of a] and ok3 = rc_invD(3) [OF d3(1) a3] and c3 = rc_invD(2) [OF d3(1)]
    have run3: "\<not> rc_stopped r3" using run d1(4) d2(4) d3(4) by simp
    have m3: "moves cb P 2 r r3" using moves_trans [OF moves_trans [OF m1 m2] r3(2)] by (simp add: numeral_2_eq_2)
    show ?thesis
    proof (cases "t = TCPLastAck")
      case True
      let ?u = "\<lambda>c. c\<lparr>finRetries := u64 (finRetries c + 1)\<rparr>"
      have u: "goes cb a 0 r3 (upd a ?u r3)" "conn a (upd a ?u r3) = ?u (conn a r3)"
        by (rule goes_upd [OF e3 a3]; simp add: conn_defs)+
      have k: "conn_ok r3 (conn a (upd a ?u r3))" using ok3 unfolding u(2) by (simp add: conn_ok_def timers_ok_def)
      have m4: "moves cb P 0 r3 (upd a ?u r3)" using goes_moves [OF d3(1) u(1) k] .
      note d4 = movesD [OF m4]
      have a4: "lookup key (upd a ?u r3) = Some a" using a3 by simp
      have fs: "finSent (conn a (upd a ?u r3))" using ok3 True r3(3) unfolding u(2) by (simp add: conn_ok_def state_ok_def)
      obtain r5 where "emitFIN cb key a (upd a ?u r3) = Some r5" "ends cb P 0 (upd a ?u r3) r5"
        using emitFIN_ok [OF rc_invD(1,2) [OF d4(1)] a4 conn_ok_clear [OF rc_invD(3) [OF d4(1) a4]] fs] by blast
      then show ?thesis using r1(1) \<open>b\<close> r3(1,3) True moves_ends [OF moves_trans [OF m3 m4]]
        by (auto simp: t_def [symmetric] Let_def numeral_2_eq_2)
    next
      case False
      obtain r5 where "acknowledge cb key a r3 = Some r5" "rc_stopped r3 \<and> r5 = r3 \<or> ends cb P 0 r3 r5"
        using acknowledge_ok [OF e3 c3 a3 conn_ok_clear [OF ok3]] by blast
      then show ?thesis using r1(1) \<open>b\<close> r3(1,3) False run3 moves_ends [OF m3]
        by (auto simp: t_def [symmetric] Let_def numeral_2_eq_2)
    qed
  qed
qed

text \<open>Acknowledging our FIN, the marks of a packet and its activity, in this order.\<close>

lemma packet_effects_ok:
  assumes r: "rc_inv cb P r" and a: "lookup key r = Some a" and n: "ids 3 r"
  shows "\<exists>b r'. acknowledgeFIN cb key a ack r = Some (b, r') \<and>
    (if b then \<exists>r''. recordConnectionActivity cb key a (observeECN a pkt r') = Some r'' \<and> moves cb P 2 r r'' \<and>
        stream_same (conn a r) (conn a r'')
     else ends cb P 2 r r')"
proof -
  have n2: "ids 2 r" using n by (simp add: ids_def)
  obtain b r1 where r1: "acknowledgeFIN cb key a ack r = Some (b, r1)"
    "if b then moves cb P 1 r r1 \<and> stream_same (conn a r) (conn a r1) else ends cb P 1 r r1"
    using acknowledgeFIN_ok [OF r a n2] by blast
  show ?thesis
  proof (cases b)
    case False
    then show ?thesis using r1 ends_weaken [of cb P 1 r r1 2] by auto
  next
    case True
    then have m1: "moves cb P 1 r r1" "stream_same (conn a r) (conn a r1)" using r1(2) by simp_all
    note d1 = movesD [OF m1(1)]
    have a1: "lookup key r1 = Some a" using d1(2) a by simp
    let ?r2 = "observeECN a pkt r1"
    note m2 = observeECN_ok [OF d1(1) a1, of pkt]
    note d2 = movesD [OF m2(1)]
    have a2: "lookup key ?r2 = Some a" using d2(2) a1 by simp
    have s2: "stream_same (conn a r1) (conn a ?r2)" using m2(2) by (auto simp: stream_same_def)
    have n3: "ids 2 ?r2" using d1(3) [of 2] d2(3) [of 2] n by (simp add: numeral_2_eq_2 numeral_3_eq_3)
    obtain r3 where r3: "recordConnectionActivity cb key a ?r2 = Some r3" "moves cb P 1 ?r2 r3"
      "stream_same (conn a ?r2) (conn a r3)" using activity_ok [OF d2(1) a2 n3] by blast
    have "moves cb P 2 r r3"
      using moves_trans [OF moves_trans [OF m1(1) m2(1)] r3(2)] by (simp add: numeral_2_eq_2)
    moreover have "stream_same (conn a r) (conn a r3)"
      using stream_same_trans [OF stream_same_trans [OF m1(2) s2] r3(3)] .
    ultimately show ?thesis using r1(1) True r3(1) by auto
  qed
qed

lemma handleFIN_ok:
  assumes r: "rc_inv cb P r" and a: "lookup (Key pkt) r = Some a" and n: "ids 5 r" and run: "\<not> rc_stopped r"
  shows "\<exists>r'. handleFIN cb pkt a r = Some r' \<and> ends cb P 4 r r'"
proof -
  let ?key = "Key pkt" and ?b = "rbuf (conn a r)"
  have ok: "conn_ok r (conn a r)" using rc_invD(3) [OF r a] .
  consider (skip) "handleFIN cb pkt a r = Some r"
    | (again) "peerFIN (conn a r)" "Size pkt = 0" "\<not> has_flag (Flag pkt) FlagPSH" "Seq pkt = peerFINSeq (conn a r)"
    | (first) "\<not> peerFIN (conn a r)" "Size pkt = 0" "\<not> has_flag (Flag pkt) FlagPSH" "nextExpectedSeq ?b \<le> Seq pkt"
      "Seq pkt - nextExpectedSeq ?b < windowBytes ?b" "\<not> (pendingFIN (conn a r) \<and> Seq pkt \<noteq> pendingFINSeq (conn a r))"
      "list_all (\<lambda>x. End x \<le> Seq pkt) (rb_ranges ?b)"
    by (simp only: handleFIN_def Let_def list_ex_iff list_all_iff not_less not_le) (smt (verit) not_le)
  then show ?thesis
  proof cases
    case skip
    then show ?thesis using ends_refl [OF r] by blast
  next
    case again
    have n3: "ids 3 r" using n by (simp add: ids_def)
    obtain r' where "do { (stillOpen, r) \<leftarrow> acknowledgeFIN cb ?key a (Ack pkt) r;
       if \<not> stillOpen then Some r
       else do {
         let r = observeECN a pkt r;
         r \<leftarrow> (if conn_state (conn a r) = TCPTimeWait then enterTimeWait cb ?key a r else Some r);
         if conn_state (conn a r) = TCPLastAck
         then emitFIN cb ?key a (upd a (\<lambda>c. c\<lparr>finRetries := u64 (finRetries c + 1)\<rparr>) r)
         else acknowledge cb ?key a r
       } } = Some r'" "ends cb P 2 r r'" using repeated_FIN_ok [OF r a n3 run again(1)] by blast
    then show ?thesis using again ends_weaken [of cb P 2 r r' 4] by (simp add: handleFIN_def Let_def)
  next
    case first
    have b: "rb_ok ?b" using ok by (simp add: conn_ok_def stream_ok_def)
    have top: "Seq pkt < max_u64"
      using first(4,5) window_end_exact(1,2) [OF b] by auto
    have rec: "received ?b \<subseteq> {..<Seq pkt}" using received_below [OF b first(7,4)] .
    obtain go r1 where r1: "(if \<not> established (conn a r) then establishConnection cb ?key a r else Some (True, r)) = Some (go, r1)"
      "if go then moves cb P 1 r r1 \<and> rbuf (conn a r1) = ?b \<and> \<not> peerFIN (conn a r1) \<and> established (conn a r1)
       else ends cb P 1 r r1"
    proof (cases "established (conn a r)")
      case True
      then show ?thesis using that [of True r] moves_refl [OF r, of 1] first(1) by auto
    next
      case False
      have n2: "ids 2 r" using n by (simp add: ids_def)
      obtain go r1 where e: "establishConnection cb ?key a r = Some (go, r1)"
        "if go then moves cb P 1 r r1 \<and> rbuf (conn a r1) = rbuf (conn a r) \<and> conn_state (conn a r1) = TCPEstablished
         else ends cb P 1 r r1" using establishConnection_ok [OF r a n2 False] by blast
      have "\<not> peerFIN (conn a r1) \<and> established (conn a r1)" if go
      proof -
        have m: "moves cb P 1 r r1" "conn_state (conn a r1) = TCPEstablished" using e(2) that by simp_all
        have "lookup ?key r1 = Some a" using movesD(2) [OF m(1)] a by simp
        then have "conn_ok r1 (conn a r1)" using rc_invD(3) [OF movesD(1) [OF m(1)]] by blast
        then show ?thesis using m(2) by (simp add: conn_ok_def state_ok_def)
      qed
      then show ?thesis using e False by (intro that [of go r1]) (simp, cases go, simp_all)
    qed
    show ?thesis
    proof (cases go)
      case False
      then show ?thesis using r1 first ends_weaken [of cb P 1 r r1 4]
        by (auto simp: handleFIN_def Let_def list_all_iff list_ex_iff)
    next
      case True
      then have m1: "moves cb P 1 r r1" "rbuf (conn a r1) = ?b" "\<not> peerFIN (conn a r1)" "established (conn a r1)"
        using r1(2) by simp_all
      note d1 = movesD [OF m1(1)]
      have a1: "lookup ?key r1 = Some a" using d1(2) a by simp
      have n1: "ids 3 r1" using d1(3) [of 3] n by (simp add: ids_def)
      obtain go2 r2 where r2: "acknowledgeFIN cb ?key a (Ack pkt) r1 = Some (go2, r2)"
        "if go2 then \<exists>r''. recordConnectionActivity cb ?key a (observeECN a pkt r2) = Some r'' \<and> moves cb P 2 r1 r'' \<and>
           stream_same (conn a r1) (conn a r'')
         else ends cb P 2 r1 r2" using packet_effects_ok [OF d1(1) a1 n1] by blast
      have unf: "handleFIN cb pkt a r =
        (if \<not> go2 then Some r2
         else do {
           r \<leftarrow> recordConnectionActivity cb ?key a (observeECN a pkt r2);
           if Seq pkt \<noteq> nextExpectedSeq (rbuf (conn a r))
           then acknowledge cb ?key a (upd a (\<lambda>c. c\<lparr>pendingFIN := True, pendingFINSeq := Seq pkt\<rparr>) r)
           else consumeFIN cb ?key a (Seq pkt) r
         })"
        using first r1(1) True r2(1) by (auto simp: handleFIN_def Let_def list_all_iff list_ex_iff)
      show ?thesis
      proof (cases go2)
        case False
        then show ?thesis using unf r2(2) ends_weaken [OF moves_ends [OF m1(1)], of 2 r2 4] by simp
      next
        case True
        then obtain r3 where r3: "recordConnectionActivity cb ?key a (observeECN a pkt r2) = Some r3"
          "moves cb P 2 r1 r3" "stream_same (conn a r1) (conn a r3)" using r2(2) by auto
        note d3 = movesD [OF r3(2)]
        have a3: "lookup ?key r3 = Some a" using d3(2) a1 by simp
        note e3 = rc_invD(1) [OF d3(1), of a] and ok3 = rc_invD(3) [OF d3(1) a3] and c3 = rc_invD(2) [OF d3(1)]
        have run3: "\<not> rc_stopped r3" using run d1(4) d3(4) by simp
        have m3: "moves cb P 3 r r3" using moves_trans [OF m1(1) r3(2)] by (simp add: numeral_2_eq_2 numeral_3_eq_3)
        have f3: "rbuf (conn a r3) = ?b" "\<not> peerFIN (conn a r3)" "established (conn a r3)"
          using r3(3) m1 by (simp_all add: stream_same_def)
        show ?thesis
        proof (cases "Seq pkt = nextExpectedSeq ?b")
          case eq: True
          have em: "rb_ranges (rbuf (conn a r3)) = []" using emptied [of ?b] rec eq b f3(1) by simp
          have n3: "ids 2 r3" using movesD(3) [OF m3, of 2] n by (simp add: ids_def)
          obtain r4 where "consumeFIN cb ?key a (Seq pkt) r3 = Some r4" "ends cb P 1 r3 r4"
            using consumeFIN_ok [OF d3(1) a3 n3 run3 f3(2,3) _ top em] eq f3(1) by auto
          then show ?thesis using unf True r3(1) eq f3(1) moves_ends [OF m3] by (auto simp: eval_nat_numeral)
        next
          case ne: False
          let ?u = "\<lambda>c. c\<lparr>pendingFIN := True, pendingFINSeq := Seq pkt\<rparr>"
          have u: "goes cb a 0 r3 (upd a ?u r3)" "conn a (upd a ?u r3) = ?u (conn a r3)"
            by (rule goes_upd [OF e3 a3]; simp add: conn_defs)+
          have "conn_ok (upd a ?u r3) ((conn a (upd a ?u r3))\<lparr>delayedACKEvent := 0, pendingACKSegmentCount := 0\<rparr>)"
            unfolding u(2)
          proof (rule pending_FIN_ok)
            show "conn_ok (upd a ?u r3) (conn a r3)" using ok3 by simp
          qed (use f3 rec top in simp_all)
          from acknowledge_ok [OF goesD(1) [OF u(1)] rc_counts_quiet [OF e3 goesD(2) [OF u(1)] c3] _ this]
          obtain r4 where r4: "acknowledge cb ?key a (upd a ?u r3) = Some r4"
            "rc_stopped (upd a ?u r3) \<and> r4 = upd a ?u r3 \<or> ends cb P 0 (upd a ?u r3) r4" using a3 by auto
          have "ends cb P 0 (upd a ?u r3) r4" using r4(2) run3 by simp
          then have "ends cb P 0 r3 r4" using ends_trans [OF u(1)] by fastforce
          then show ?thesis using unf True r3(1) ne f3(1) r4(1) ends_weaken [OF moves_ends [OF m3], of 0 r4 4]
            by simp
        qed
      qed
    qed
  qed
qed

end

end
