(* ===== verification/ReceiverPackets.thy ===== *)
theory ReceiverPackets
  imports ReceiverHandlers
begin

text \<open>
  Data, SYNs and whole packets at the receiver, its timers and the host's calls; the states a
  receiver can reach, and the properties of all of them.
\<close>

section \<open>Storing payload\<close>

lemma card_received: "rb_ok b \<Longrightarrow> card (received b) = nextExpectedSeq b + nat (bufferedBytes b)"
proof -
  assume b: "rb_ok b"
  then have "\<forall>n\<in>positions (rb_ranges b). nextExpectedSeq b < n"
    using ranges_ok_lower by (metis rb_ok_def Suc_le_eq)
  then have "{..<nextExpectedSeq b} \<inter> positions (rb_ranges b) = {}" by auto
  then have "card (received b) = nextExpectedSeq b + card (positions (rb_ranges b))"
    by (simp add: received_def card_Un_disjoint)
  then show ?thesis using b by (simp add: rb_ok_def)
qed

text \<open>\<open>accept\<close> returns exactly the growth of the received set.\<close>

lemma accept_bytes:
  assumes b: "rb_ok b" and acc: "accept s e b = (b', n)"
  shows "nextExpectedSeq b' + nat (bufferedBytes b') = nextExpectedSeq b + nat (bufferedBytes b) + nat n" "0 \<le> n"
proof -
  note a = accept_spec [OF b acc]
  have fin: "finite (received b)" "finite (admitted s e b)" by (simp_all add: received_def admitted_def)
  have "card (received b') = card (received b) + card (admitted s e b - received b)"
    unfolding a(1) using fin card_Un_disjoint [of "received b" "admitted s e b - received b"] by (simp add: Un_Diff_cancel)
  then show "nextExpectedSeq b' + nat (bufferedBytes b') = nextExpectedSeq b + nat (bufferedBytes b) + nat n"
    using card_received [OF b] card_received [OF a(3)] a(2) by simp
  show "0 \<le> n" using a(2) by simp
qed

definition blocks_ok :: "sack_block list \<Rightarrow> bool" where
  "blocks_ok bs \<longleftrightarrow> length bs \<le> MaxSACKBlocks \<and> (\<forall>b\<in>set bs. Start b < End b)"

lemma include_block_ok: "blocks_ok recent \<Longrightarrow> Start b < End b \<Longrightarrow> blocks_ok (include_block b recent)"
  by (auto simp: include_block_def blocks_ok_def)

lemma include_touched_ok:
  assumes "\<forall>b\<in>set rs. Start b < End b" "blocks_ok recent"
  shows "blocks_ok (include_touched rs s e recent)"
proof (cases "touched s e rs")
  case (Some b)
  then have "b \<in> set rs" by (auto simp: touched_def find_Some_iff in_set_conv_nth)
  then show ?thesis using Some assms include_block_ok by (simp add: include_touched_def)
qed (simp add: include_touched_def assms)

lemma recordSACKArrival_ok:
  assumes "rb_ok (rbuf c)" "blocks_ok (sackRecent c)"
  shows "blocks_ok (sackRecent (recordSACKArrival s e c))"
proof -
  let ?rs = "rb_ranges (rbuf c)"
  have rs: "\<forall>b\<in>set ?rs. Start b < End b"
    using assms(1) ranges_ok_Start by (fastforce simp: rb_ok_def)
  have first: "blocks_ok (include_touched ?rs s e [])" 
    by (rule include_touched_ok [OF rs]) (simp add: blocks_ok_def)
  have second: "blocks_ok (fold (\<lambda>previous recent. if length recent = MaxSACKBlocks then recent
      else include_touched ?rs (Start previous) (End previous) recent) xs recent)" if "blocks_ok recent" for xs :: "sack_block list" and recent
    using that include_touched_ok [OF rs] by (induction xs arbitrary: recent) auto
  have third: "blocks_ok (fold (\<lambda>b recent. if length recent = MaxSACKBlocks then recent else include_block b recent) xs recent)"
    if "blocks_ok recent" "set xs \<subseteq> set ?rs" for xs recent
    using that include_block_ok rs by (induction xs arbitrary: recent) auto
  show ?thesis using assms(2) third [OF second [OF first] subset_refl] by (simp add: recordSACKArrival_def Let_def)
qed

lemma recordSACKArrival_frame:
  "\<exists>bs. recordSACKArrival s e c = c\<lparr>sackRecent := bs\<rparr>"
  by (auto simp: recordSACKArrival_def Let_def intro: exI [of _ "sackRecent c"])

context receiver_host
begin

lemma storePayload_ok:
  assumes r: "rc_inv cb P r" and a: "lookup key r = Some a"
    and f: "\<not> peerFIN (conn a r)" "pendingFIN (conn a r) \<longrightarrow> e \<le> pendingFINSeq (conn a r)"
    and s: "storePayload cb start e a r = (n, r')"
  shows "moves cb P 0 r r'" "peerFIN (conn a r') = peerFIN (conn a r)" "established (conn a r') = established (conn a r)"
    "pendingFIN (conn a r') = pendingFIN (conn a r)" "pendingFINSeq (conn a r') = pendingFINSeq (conn a r)"
proof -
  note e0 = rc_invD(1) [OF r, of a] and c = rc_invD(2) [OF r] and ok = rc_invD(3) [OF r a]
  have l: "a < length (rc_store r)" using rc_invD(4) [OF r a] .
  have st: "state_ok (conn a r)" "stream_ok (conn a r)" "timers_ok r (conn a r)" using ok by (simp_all add: conn_ok_def)
  have b: "rb_ok (rbuf (conn a r))" using st(2) by (simp add: stream_ok_def)
  obtain b' m where acc: "accept start e (rbuf (conn a r)) = (b', m)" by fastforce
  note spec = accept_spec [OF b acc] and ab = accept_bytes [OF b acc]
  define g where "g = (\<lambda>c :: receive_connection. recordSACKArrival start e (c\<lparr>rbuf := b'\<rparr>))"
  obtain bs where g: "g (conn a r) = (conn a r)\<lparr>rbuf := b', sackRecent := bs\<rparr>"
    using recordSACKArrival_frame [of start e "(conn a r)\<lparr>rbuf := b'\<rparr>"] by (auto simp: g_def)
  have ge: "established (g x) = established x" for x
    using recordSACKArrival_frame [of start e "x\<lparr>rbuf := b'\<rparr>"] by (auto simp: g_def)
  have bs: "blocks_ok bs"
    using recordSACKArrival_ok [of "(conn a r)\<lparr>rbuf := b'\<rparr>" start e] spec(3) st(2) g
    by (simp add: g_def stream_ok_def blocks_ok_def)
  let ?r1 = "upd a g r"
  have c1: "conn a ?r1 = (conn a r)\<lparr>rbuf := b', sackRecent := bs\<rparr>" using l g by simp
  have e1: "rc_eng cb a ?r1" by (rule rc_eng_upd_keeps [OF e0 a]) (simp add: keeps_events_def g)
  have sub: "pendingFIN (conn a r) \<longrightarrow> received b' \<subseteq> {..<pendingFINSeq (conn a r)}"
    using st(2) f(2) by (auto simp: stream_ok_def spec(1) admitted_def)
  have "stream_ok (conn a ?r1)"
    using st(2) spec(3,4) bs f(1) sub unfolding c1 by (auto simp: stream_ok_def blocks_ok_def)
  then have ok1: "conn_ok r (conn a ?r1)" using st(1,3) unfolding c1 by (simp add: conn_ok_def timers_ok_def)
  have pay: "payload_of (conn a ?r1) = payload_of (conn a r) + nat m"
    using ab(1) st(2) f(1) spec(4) unfolding c1 by (auto simp: payload_of_def stream_ok_def)
  define T where "T = (if 0 < m then u64 (receivedPayloadBytes r + nat m) else receivedPayloadBytes r)"
  define H where "H = (if 0 < m then OnPayloadReceived cb m (rc_host r) else rc_host r)"
  have r': "r' = ?r1\<lparr>receivedPayloadBytes := T, rc_host := H\<rparr>"
    using s acc by (auto simp: storePayload_def g_def T_def H_def split: if_splits)
  have cn: "conn d r' = conn d ?r1" for d by (simp add: r' conn_def)
  have q: "map established (rc_store ?r1) = map established (rc_store r)"
    using l by (simp add: upd_def map_update ge list_update_same_conv)
  have fl: "filter (\<lambda>(_, b). established (conn b r')) (connections r) = filter (\<lambda>(_, b). established (conn b r)) (connections r)"
    "filter (\<lambda>(_, b). \<not> established (conn b r')) (connections r) = filter (\<lambda>(_, b). \<not> established (conn b r)) (connections r)"
  proof -
    have "established (conn d r') = established (conn d r)" if "(k, d) \<in> set (connections r)" for k d
      unfolding cn using ge l by (cases "d = a") simp_all
    then show "filter (\<lambda>(_, b). established (conn b r')) (connections r) = filter (\<lambda>(_, b). established (conn b r)) (connections r)"
      "filter (\<lambda>(_, b). \<not> established (conn b r')) (connections r) = filter (\<lambda>(_, b). \<not> established (conn b r)) (connections r)"
      by (auto intro!: filter_cong)
  qed
  have sum: "(\<Sum>c\<leftarrow>rc_store r'. payload_of c) = (\<Sum>c\<leftarrow>rc_store r. payload_of c) + nat m"
  proof -
    have "map payload_of (rc_store r') = (map payload_of (rc_store r))[a := payload_of (conn a r) + nat m]"
      using pay unfolding c1 g [symmetric] by (simp add: r' upd_def map_update conn_def)
    then show ?thesis using l sum_list_update [of a "map payload_of (rc_store r)" "payload_of (conn a r) + nat m"]
      by (simp add: conn_def)
  qed
  have tot: "receivedPayloadBytes r' = u64 (\<Sum>c\<leftarrow>rc_store r'. payload_of c)"
  proof (cases "0 < m")
    case True
    then show ?thesis using c unfolding sum by (simp add: r' T_def rc_counts_def u64_def mod_add_left_eq)
  next
    case False
    then show ?thesis using c ab(2) unfolding sum by (simp add: r' T_def rc_counts_def)
  qed
  have host: "P (activeConnections r) (halfOpenConnections r) H"
    using rc_counts_P [OF c] payload by (simp add: H_def)
  have cnt: "rc_counts P r'"
    unfolding rc_counts_def using c tot host fl by (auto simp: r' rc_counts_def conn_def)
  have same: "lookup k r' = lookup k r" "conn_ok r' = conn_ok r" "config_ok r' = config_ok r" for k
    by (simp_all add: r' lookup_def conn_ok_def timers_ok_def config_ok_def fun_eq_iff upd_def)
  have e2: "rc_eng cb a r'" using e1 unfolding rc_eng_def
    by (simp add: r' lookup_def conn_def timer_live_def conn_ok_def timers_ok_def config_ok_def)
  have "rc_inv cb P r'" using rc_invI [OF e2 cnt] ok1 same(2) cn by simp
  then show "moves cb P 0 r r'" using same by (simp add: moves_def ends_def r' own_api_refl)
  show "peerFIN (conn a r') = peerFIN (conn a r)" "established (conn a r') = established (conn a r)"
    "pendingFIN (conn a r') = pendingFIN (conn a r)" "pendingFINSeq (conn a r') = pendingFINSeq (conn a r)"
    unfolding cn c1 by simp_all
qed

lemma receivePayload_ok:
  assumes r: "rc_inv cb P r" and a: "lookup (Key pkt) r = Some a" and n: "ids 4 r" and run: "\<not> rc_stopped r"
    and f: "\<not> peerFIN (conn a r)" "established (conn a r)"
  shows "\<exists>r'. receivePayload cb pkt a sequenceEnd r = Some r' \<and> ends cb P 3 r r'"
proof -
  let ?key = "Key pkt" and ?over = "overlapsWindow (Seq pkt) sequenceEnd (rbuf (conn a r))"
  have n3: "ids 3 r" using n by (simp add: ids_def)
  obtain go r1 where g: "(if ?over then do {
        (stillOpen, r) \<leftarrow> acknowledgeFIN cb ?key a (Ack pkt) r;
        if \<not> stillOpen then Some (False, r)
        else do {
          r \<leftarrow> recordConnectionActivity cb ?key a (observeECN a pkt r);
          Some (True, r)
        } }
      else Some (True, r)) = Some (go, r1)"
    "if go then moves cb P 2 r r1 \<and> stream_same (conn a r) (conn a r1) else ends cb P 2 r r1"
  proof (cases ?over)
    case False
    then show ?thesis using that [of True r] moves_refl [OF r, of 2] by (simp add: stream_same_def)
  next
    case True
    obtain b r0 where e: "acknowledgeFIN cb ?key a (Ack pkt) r = Some (b, r0)"
      "if b then \<exists>r''. recordConnectionActivity cb ?key a (observeECN a pkt r0) = Some r'' \<and> moves cb P 2 r r'' \<and>
        stream_same (conn a r) (conn a r'') else ends cb P 2 r r0"
      using packet_effects_ok [OF r a n3] by blast
    show ?thesis
    proof (cases b)
      case False
      then show ?thesis using e True by (intro that [of False r0]) simp_all
    next
      case bt: True
      then obtain r2 where "recordConnectionActivity cb ?key a (observeECN a pkt r0) = Some r2" "moves cb P 2 r r2"
        "stream_same (conn a r) (conn a r2)" using e(2) by auto
      then show ?thesis using e(1) True bt by (intro that [of True r2]) simp_all
    qed
  qed
  show ?thesis
  proof (cases go)
    case False
    have "receivePayload cb pkt a sequenceEnd r = Some r1"
      unfolding receivePayload_def Let_def g(1) using False by simp
    then show ?thesis using g(2) False ends_weaken [of cb P 2 r r1 3] by simp
  next
    case True
    then have m1: "moves cb P 2 r r1" "stream_same (conn a r) (conn a r1)" using g(2) by simp_all
    note d1 = movesD [OF m1(1)]
    have a1: "lookup ?key r1 = Some a" using d1(2) a by simp
    have f1: "\<not> peerFIN (conn a r1)" "established (conn a r1)" using f m1(2) by (simp_all add: stream_same_def)
    define e' where "e' = (if pendingFIN (conn a r1) then min sequenceEnd (pendingFINSeq (conn a r1)) else sequenceEnd)"
    obtain nb r2 where s: "storePayload cb (Seq pkt) e' a r1 = (nb, r2)" by fastforce
    have e'le: "pendingFIN (conn a r1) \<longrightarrow> e' \<le> pendingFINSeq (conn a r1)" by (simp add: e'_def)
    note m2 = storePayload_ok [OF d1(1) a1 f1(1) e'le s]
    note d2 = movesD [OF m2(1)]
    have a2: "lookup ?key r2 = Some a" using d2(2) a1 by simp
    have ok2: "conn_ok r2 (conn a r2)" using rc_invD(3) [OF d2(1) a2] .
    have f2: "\<not> peerFIN (conn a r2)" "established (conn a r2)" using f1 m2(2,3) by simp_all
    have run2: "\<not> rc_stopped r2" using run d1(4) d2(4) by simp
    have m: "moves cb P 2 r r2" using moves_trans [OF m1(1) m2(1)] by simp
    have n2: "ids 2 r2" using movesD(3) [OF m, of 2] n by simp
    let ?fin = "pendingFIN (conn a r2) \<and> nextExpectedSeq (rbuf (conn a r2)) = pendingFINSeq (conn a r2)"
    have unf: "\<exists>delay. receivePayload cb pkt a sequenceEnd r =
      (if ?fin then consumeFIN cb ?key a (pendingFINSeq (conn a r2)) r2 else acknowledgeData cb ?key a delay r2)"
      unfolding receivePayload_def Let_def g(1) using True s a2 by (auto simp: e'_def [symmetric])
    show ?thesis
    proof (cases ?fin)
      case fin: True
      have st: "stream_ok (conn a r2)" using ok2 by (simp add: conn_ok_def)
      have em: "rb_ranges (rbuf (conn a r2)) = []"
        using st fin emptied [of "rbuf (conn a r2)"] by (simp add: stream_ok_def)
      have top: "pendingFINSeq (conn a r2) < max_u64" using st fin by (simp add: stream_ok_def)
      obtain r3 where "consumeFIN cb ?key a (pendingFINSeq (conn a r2)) r2 = Some r3" "ends cb P 1 r2 r3"
        using consumeFIN_ok [OF d2(1) a2 n2 run2 f2 _ top em] fin by auto
      then show ?thesis using unf fin moves_ends [OF m] by (auto simp: eval_nat_numeral)
    next
      case nofin: False
      obtain delay where u: "receivePayload cb pkt a sequenceEnd r = acknowledgeData cb ?key a delay r2"
        using unf nofin by auto
      obtain r3 where "acknowledgeData cb ?key a delay r2 = Some r3" "ends cb P 1 r2 r3"
        using acknowledgeData_ok [OF d2(1) a2 n2 run2] by blast
      then show ?thesis using u moves_ends [OF m] by (auto simp: eval_nat_numeral)
    qed
  qed
qed

lemma handlePureACK_ok:
  assumes r: "rc_inv cb P r" and a: "lookup (Key pkt) r = Some a" and n: "ids 3 r"
  shows "\<exists>r'. handlePureACK cb pkt a r = Some r' \<and> ends cb P 2 r r'"
proof (cases "Seq pkt = nextExpectedSeq (rbuf (conn a r))")
  case False
  then show ?thesis using ends_refl [OF r] by (simp add: handlePureACK_def)
next
  case True
  obtain b r1 where e: "acknowledgeFIN cb (Key pkt) a (Ack pkt) r = Some (b, r1)"
    "if b then \<exists>r''. recordConnectionActivity cb (Key pkt) a (observeECN a pkt r1) = Some r'' \<and> moves cb P 2 r r'' \<and>
        stream_same (conn a r) (conn a r'') else ends cb P 2 r r1"
    using packet_effects_ok [OF r a n] by blast
  then show ?thesis using True movesD(6) by (cases b) (auto simp: handlePureACK_def)
qed

lemma completeHandshake_ok:
  assumes r: "rc_inv cb P r" and a: "lookup (Key pkt) r = Some a" and n: "ids 2 r"
  shows "\<exists>go r'. completeHandshake cb pkt a sequenceEnd r = Some (go, r') \<and>
    (if go then moves cb P 1 r r' \<and> established (conn a r') else ends cb P 1 r r')"
proof (cases "established (conn a r)")
  case True
  then show ?thesis using moves_refl [OF r, of 1]
    by (intro exI [of _ True] exI [of _ r]) (simp add: completeHandshake_def)
next
  case False
  obtain go r1 where e: "establishConnection cb (Key pkt) a r = Some (go, r1)"
    "if go then moves cb P 1 r r1 \<and> rbuf (conn a r1) = rbuf (conn a r) \<and> conn_state (conn a r1) = TCPEstablished
     else ends cb P 1 r r1" using establishConnection_ok [OF r a n False] by blast
  have "established (conn a r1)" if go
  proof -
    have m: "moves cb P 1 r r1" "conn_state (conn a r1) = TCPEstablished" using e(2) that by simp_all
    have "lookup (Key pkt) r1 = Some a" using movesD(2) [OF m(1)] a by simp
    then have "conn_ok r1 (conn a r1)" using rc_invD(3) [OF movesD(1) [OF m(1)]] by blast
    then show ?thesis using m(2) by (simp add: conn_ok_def state_ok_def)
  qed
  moreover have "completeHandshake cb pkt a sequenceEnd r = Some (False, r) \<or>
    completeHandshake cb pkt a sequenceEnd r = Some (go, r1)"
    using False e(1) by (simp add: completeHandshake_def Let_def)
  ultimately show ?thesis using e(2) ends_refl [OF r, of 1] by (metis (full_types))
qed

section \<open>Opening\<close>

lemma new_connection_ok:
  assumes cfg: "config_ok r" and now: "0 \<le> eng_now (rc_engine r)"
    and e: "e = Seq pkt + 1" "e \<le> max_u64"
  shows "conn_ok r (new_connection pkt e r)" "payload_of (new_connection pkt e r) = 0"
proof -
  have rb: "rb_ok (rbuf (new_connection pkt e r))"
    using cfg e by (simp add: new_connection_def rb_ok_def config_ok_def)
  have "0 \<le> MaxFINRetries (rc_closeConfig r)" using cfg by (simp add: config_ok_def close_config_Valid_def)
  then show "conn_ok r (new_connection pkt e r)" using rb now e(1) unfolding conn_ok_def stream_ok_def
    by (simp add: new_connection_def state_ok_def timers_ok_def)
  show "payload_of (new_connection pkt e r) = 0" using e(1) by (simp add: payload_of_def new_connection_def)
qed

lemma answerSYN_ok:
  assumes r: "rc_inv cb P r" and a: "lookup (Key pkt) r = Some a"
  shows "ends cb P 0 r (answerSYN cb pkt a r)"
proof -
  have ok: "conn_ok r (conn a r)" using rc_invD(3) [OF r a] .
  then have st: "rb_ok (rbuf (conn a r))" "peerInitialSeq (conn a r) < nextExpectedSeq (rbuf (conn a r))"
    by (simp_all add: conn_ok_def stream_ok_def)
  have mx: "peerInitialSeq (conn a r) + 1 \<le> max_u64" using st by (simp add: rb_ok_def)
  have w: "windowBytes (rbuf (conn a r)) < 65536" by (simp add: windowBytes_def u16_def Let_def)
  have fl: "has_flag (synAckFlags (conn a r)) FlagACK" "has_flag (synAckFlags (conn a r)) FlagSYN"
    "\<not> has_flag (synAckFlags (conn a r)) FlagFIN"
    by (auto simp: synAckFlags_def has_flag_def flag_defs Let_def)
  let ?p = "\<lparr>Key = Key pkt, Flag = synAckFlags (conn a r), Size = 0, Seq = 0, Ack = u64 (peerInitialSeq (conn a r) + 1),
              ECN = NotECT, ReceiveWindowBytes = windowBytes (rbuf (conn a r)), SACKPermitted = sackPermitted (conn a r),
              SACKBlocks = []\<rparr>"
  have "reply_ok ?p"
    using fl w mx by (simp add: reply_ok_def ValidSACKOptions_def SequenceEnd_def Let_def max_u64_def)
  then show ?thesis using emit_ok(1) [OF rc_invD(1,2) [OF r] ok] ends_refl [OF r]
    by (simp add: answerSYN_def Let_def)
qed

lemma openConnection_ok:
  assumes r: "rc_inv cb P r" and a: "lookup (Key pkt) r = None" and n: "ids 2 r"
    and e: "e = Seq pkt + 1" "e \<le> max_u64" and can: "CanOpen cb (rc_host r)"
    and room: "Suc (length (rc_store r)) < 4294967296"
  shows "\<exists>r'. openConnection cb pkt e r = Some r' \<and> ends cb P 1 r r' \<and>
    lookup (Key pkt) r' = Some (length (rc_store r)) \<and> rc_stopped r' = rc_stopped r"
proof -
  let ?key = "Key pkt" and ?a = "length (rc_store r)" and ?new = "new_connection pkt e r"
  note e0 = rc_invD(1) [OF r, of ?a] and c = rc_invD(2) [OF r]
  have cfg: "config_ok r" "0 \<le> eng_now (rc_engine r)" using e0 by (simp_all add: rc_eng_def eng_inv_def)
  note new = new_connection_ok [OF cfg e]
  let ?r1 = "r\<lparr>rc_store := rc_store r @ [?new], connections := (?key, ?a) # connections r,
              halfOpenConnections := u32 (halfOpenConnections r + 1)\<rparr>"
  have cn: "conn b ?r1 = (if b = ?a then ?new else conn b r)" if "b \<le> ?a" for b
    using that by (auto simp: conn_def nth_append)
  have lk: "lookup k ?r1 = (if k = ?key then Some ?a else lookup k r)" for k by (simp add: lookup_def)
  have old: "b < ?a" if "b \<in> snd ` set (connections r)" for b using e0 that unfolding rc_eng_def by blast
  have same: "conn_ok ?r1 = conn_ok r" "config_ok ?r1 = config_ok r"
    by (simp_all add: conn_ok_def timers_ok_def config_ok_def fun_eq_iff)
  have live: "timer_live ?r1 (ev_id x) t" if x: "x \<in> pending (rc_engine r)" "ev_callback x = timerEvent cb t" for x t
  proof -
    have tl: "timer_live r (ev_id x) t" using e0 x by (simp add: rc_eng_def)
    then have l: "lookup (timer_key t) r = Some (timer_addr t)" by (simp add: timer_live_def)
    then have "timer_key t \<noteq> ?key" "timer_addr t < ?a" using a old [OF lookup_in [OF l]] by auto
    then show ?thesis using tl cn [of "timer_addr t"] unfolding timer_live_def lk by simp
  qed
  have e1: "rc_eng cb ?a ?r1"
  proof -
    have "?key \<notin> fst ` set (connections r)" using a by (simp add: lookup_def map_of_eq_None_iff)
    moreover have "?a \<notin> snd ` set (connections r)" using old by blast
    moreover have "conn_ok r (conn b ?r1)" if "b \<in> snd ` set (connections r)" for b
      using e0 old [OF that] cn [of b] that unfolding rc_eng_def by auto
    ultimately show ?thesis using e0 live old cfg(1) unfolding rc_eng_def same
      by (auto simp: less_Suc_eq)
  qed
  have a1: "lookup ?key ?r1 = Some ?a" unfolding lk by simp
  have n1: "ids (Suc 1) ?r1" using n by (simp add: ids_def)
  have d: "0 \<le> halfOpenIdleTimeout ?r1" using cfg(1) by (simp add: config_ok_def)
  have z: "idleEvent (conn ?a ?r1) = 0" using cn [of ?a] by (simp add: new_connection_def)
  obtain r2 i where r2: "scheduleIdleTimeout cb ?key ?a (halfOpenIdleTimeout ?r1) ?r1 = Some r2" "goes cb ?a 1 ?r1 r2"
    "conn ?a r2 = (conn ?a ?r1)\<lparr>idleEvent := i\<rparr>" using scheduleIdleTimeout_ok [OF e1 inj d n1 a1 z] by blast
  note d2 = goesD [OF r2(2)]
  have q: "connections r2 = connections ?r1" "length (rc_store r2) = Suc ?a" "activeConnections r2 = activeConnections r"
    "halfOpenConnections r2 = u32 (halfOpenConnections r + 1)" "rc_host r2 = rc_host r"
    "receivedPayloadBytes r2 = receivedPayloadBytes r" "rc_stopped r2 = rc_stopped r"
    "map payload_of (rc_store r2) = map payload_of (rc_store r) @ [0]"
    using d2(2) new(2) by (simp_all add: quiet_def)
  define act where "act = length (filter (\<lambda>(_, b). established (conn b r)) (connections r))"
  define hal where "hal = length (filter (\<lambda>(_, b). \<not> established (conn b r)) (connections r))"
  have n0: "activeConnections r = act" "halfOpenConnections r = hal" using c by (simp_all add: rc_counts_def act_def hal_def)
  have est: "established (conn b ?r1) = (b \<noteq> ?a \<and> established (conn b r))" if "b \<le> ?a" for b
    using cn [OF that] by (simp add: new_connection_def)
  have cnt: "length (filter (\<lambda>(_, b). established (conn b r2)) (connections r2)) = act"
    "length (filter (\<lambda>(_, b). \<not> established (conn b r2)) (connections r2)) = Suc hal"
  proof -
    have "filter (\<lambda>(_, b). established (conn b ?r1)) (connections r) = filter (\<lambda>(_, b). established (conn b r)) (connections r)"
      "filter (\<lambda>(_, b). \<not> established (conn b ?r1)) (connections r) = filter (\<lambda>(_, b). \<not> established (conn b r)) (connections r)"
      using old cn by (fastforce intro!: filter_cong)+
    then show "length (filter (\<lambda>(_, b). established (conn b r2)) (connections r2)) = act"
      "length (filter (\<lambda>(_, b). \<not> established (conn b r2)) (connections r2)) = Suc hal"
      using filter_live [OF e1 d2(2)] est [of ?a] unfolding q(1) by (simp_all add: act_def hal_def)
  qed
  have "hal \<le> length (connections r)" unfolding hal_def by (rule length_filter_le)
  then have u: "u32 (Suc hal) = Suc hal" using live_count [OF e0] room n0 by simp
  let ?r3 = "notifyConnectionCounts cb r2"
  have h3: "rc_host ?r3 = OnConnectionCounts cb act (Suc hal) (rc_host r)"
    by (simp add: notifyConnectionCounts_def q n0 u)
  have host: "P act (Suc hal) (rc_host ?r3)"
    unfolding h3 using opened [OF _ can, of act hal] rc_counts_P [OF c] by (simp add: n0)
  have c3: "rc_counts P ?r3"
  proof -
    have "(\<Sum>c\<leftarrow>rc_store r2. payload_of c) = (\<Sum>c\<leftarrow>rc_store r. payload_of c)" using q(8) by simp
    moreover have "receivedPayloadBytes r = u64 (\<Sum>c\<leftarrow>rc_store r. payload_of c)" using c by (simp add: rc_counts_def)
    ultimately show ?thesis unfolding rc_counts_def
      using cnt host room by (simp add: notifyConnectionCounts_def host_change q n0 u)
  qed
  have e3: "rc_eng cb ?a ?r3" using d2(1) by (simp add: notifyConnectionCounts_def host_change)
  have c2: "conn ?a r2 = ?new\<lparr>idleEvent := i\<rparr>" using r2(3) cn [of ?a] by simp
  have "conn_state ?new = TCPSynReceived" by (simp add: new_connection_def)
  then have "conn_ok r (?new\<lparr>idleEvent := i\<rparr>)" using new(1) by (simp add: conn_ok_def timers_ok_def)
  then have "conn_ok r2 (conn ?a r2)" unfolding c2 d2(6) same(1) .
  then have "conn_ok ?r3 (conn ?a ?r3)" by (simp add: notifyConnectionCounts_def host_change)
  then have inv: "rc_inv cb P ?r3" using rc_invI [OF e3 c3] by blast
  have "ends cb P 1 r ?r3" using inv r2(2) by (simp add: ends_def goes_def quiet_def notifyConnectionCounts_def)
  moreover have "openConnection cb pkt e r = Some ?r3" using r2(1) by (simp add: openConnection_def)
  moreover have "lookup ?key ?r3 = Some ?a" using d2(3) a1 by (simp add: notifyConnectionCounts_def host_change)
  ultimately show ?thesis using q(7) by (simp add: notifyConnectionCounts_def)
qed

lemma handleSYN_ok:
  assumes r: "rc_inv cb P r" and f: "found = lookup (Key pkt) r" and n: "ids 2 r"
    and e: "SequenceEnd pkt = Some e" "has_flag (Flag pkt) FlagSYN" "\<not> has_flag (Flag pkt) FlagFIN" "Seq pkt \<le> max_u64"
    and room: "Suc (length (rc_store r)) < 4294967296"
  shows "\<exists>r'. handleSYN cb pkt found e r = Some r' \<and> ends cb P 1 r r'"
proof (cases "Size pkt \<noteq> 0 \<or> has_flag (Flag pkt) FlagACK")
  case True
  then show ?thesis using ends_refl [OF r] by (auto simp: handleSYN_def)
next
  case False
  show ?thesis
  proof (cases found)
    case (Some a)
    then have "ends cb P 0 r (answerSYN cb pkt a r)" using answerSYN_ok [OF r] f by simp
    then show ?thesis using False Some ends_weaken [of cb P 0 r _ 1] by (simp add: handleSYN_def)
  next
    case None
    then have a: "lookup (Key pkt) r = None" using f by simp
    have e': "e = Seq pkt + 1" "e \<le> max_u64" using SequenceEnd_Some [OF e(1,4)] e(2,3) False by auto
    show ?thesis
    proof (cases "CanOpen cb (rc_host r) \<and> \<not> rc_stopped r")
      case no: False
      then show ?thesis using False None a ends_refl [OF r] by (auto simp: handleSYN_def)
    next
      case yes: True
      obtain r1 where o: "openConnection cb pkt e r = Some r1" "ends cb P 1 r r1"
        "lookup (Key pkt) r1 = Some (length (rc_store r))" "rc_stopped r1 = rc_stopped r"
        using openConnection_ok [OF r a n e' _ room] yes by blast
      have i1: "rc_inv cb P r1" using o(2) by (simp add: ends_def)
      have "ends cb P 1 r (answerSYN cb pkt (length (rc_store r)) r1)"
        using o(2) answerSYN_ok [OF i1 o(3)] own_api_trans unfolding ends_def by fastforce
      moreover have "handleSYN cb pkt found e r = Some (answerSYN cb pkt (length (rc_store r)) r1)"
        using False None a yes o by (simp add: handleSYN_def)
      ultimately show ?thesis by blast
    qed
  qed
qed

section \<open>Packets\<close>

lemma flag_change:
  "rc_inv cb P (r\<lparr>trafficStarted := b\<rparr>) = rc_inv cb P r" "rc_inv cb P (r\<lparr>rc_stopped := b\<rparr>) = rc_inv cb P r"
  "conn a (r\<lparr>trafficStarted := b\<rparr>) = conn a r" "conn a (r\<lparr>rc_stopped := b\<rparr>) = conn a r"
  "ids n (r\<lparr>trafficStarted := b\<rparr>) = ids n r"
  by (simp_all add: rc_inv_def rc_eng_def rc_counts_def timer_live_def conn_def lookup_def conn_ok_def
      timers_ok_def config_ok_def ids_def)

lemma HandlePacket_ok:
  assumes r: "rc_inv cb P r" and n: "ids 6 r" and seq: "Seq pkt \<le> max_u64"
    and room: "Suc (length (rc_store r)) < 4294967296"
  shows "\<exists>r'. HandlePacket cb pkt r = Some r' \<and> ends cb P 4 r r'"
proof (cases "rc_stopped r \<or> Protocol (Key pkt) \<noteq> TCP")
  case True
  then show ?thesis using ends_refl [OF r] by (auto simp: HandlePacket_def)
next
  case False
  let ?r = "r\<lparr>trafficStarted := True\<rparr>" and ?key = "Key pkt"
  have r1: "rc_inv cb P ?r" using r by (simp add: flag_change)
  have run: "\<not> rc_stopped ?r" using False by simp
  have lift: "ends cb P 4 r r'" if "ends cb P m ?r r'" "m \<le> 4" for m r' using that by (simp add: ends_def)
  have ni: "ids m ?r" if "m \<le> 6" for m using n that by (simp add: ids_def)
  have room1: "Suc (length (rc_store ?r)) < 4294967296" using room by simp
  have unf: "HandlePacket cb pkt r = (case SequenceEnd pkt of
          None \<Rightarrow> Some ?r
        | Some sequenceEnd \<Rightarrow>
            if \<not> ValidSACKOptions pkt \<or> has_flag (Flag pkt) FlagSYN \<and> has_flag (Flag pkt) FlagFIN then Some ?r
            else if has_flag (Flag pkt) FlagRST then handleRST cb pkt (lookup ?key ?r) ?r
            else if has_flag (Flag pkt) FlagSYN then handleSYN cb pkt (lookup ?key ?r) sequenceEnd ?r
            else case lookup ?key ?r of
              None \<Rightarrow> Some ?r
            | Some a \<Rightarrow>
                if conn_state (conn a ?r) = TCPClosed \<or> \<not> has_flag (Flag pkt) FlagACK \<or>
                   \<not> validACK (Ack pkt) (conn a ?r) then Some ?r
                else if has_flag (Flag pkt) FlagFIN then handleFIN cb pkt a ?r
                else do {
                  (go, r) \<leftarrow> completeHandshake cb pkt a sequenceEnd ?r;
                  if \<not> go then Some r
                  else if Size pkt = 0 then handlePureACK cb pkt a r
                  else if peerFIN (conn a r) then Some r
                  else receivePayload cb pkt a sequenceEnd r
                })"
    using False by (simp add: HandlePacket_def Let_def)
  note stay = lift [OF ends_refl [OF r1, of 0]]
  show ?thesis
  proof (cases "SequenceEnd pkt")
    case None
    then show ?thesis using unf stay by simp
  next
    case (Some e)
    consider (bad) "\<not> ValidSACKOptions pkt \<or> has_flag (Flag pkt) FlagSYN \<and> has_flag (Flag pkt) FlagFIN"
      | (rst) "ValidSACKOptions pkt" "\<not> (has_flag (Flag pkt) FlagSYN \<and> has_flag (Flag pkt) FlagFIN)"
          "has_flag (Flag pkt) FlagRST"
      | (syn) "ValidSACKOptions pkt" "\<not> has_flag (Flag pkt) FlagFIN" "\<not> has_flag (Flag pkt) FlagRST"
          "has_flag (Flag pkt) FlagSYN"
      | (other) "ValidSACKOptions pkt" "\<not> has_flag (Flag pkt) FlagRST" "\<not> has_flag (Flag pkt) FlagSYN" by blast
    then show ?thesis
    proof cases
      case bad
      then show ?thesis using unf Some stay by auto
    next
      case rst
      obtain r' where "handleRST cb pkt (lookup ?key ?r) ?r = Some r'" "ends cb P 0 ?r r'"
        using handleRST_ok [OF r1 refl] by blast
      then show ?thesis using unf Some rst lift by auto
    next
      case syn
      obtain r' where "handleSYN cb pkt (lookup ?key ?r) e ?r = Some r'" "ends cb P 1 ?r r'"
        using handleSYN_ok [OF r1 refl ni Some syn(4,2) seq room1] by auto
      then show ?thesis using unf Some syn lift by auto
    next
      case other
      show ?thesis
      proof (cases "lookup ?key ?r")
        case None
        then show ?thesis using unf Some other stay by simp
      next
        case found: (Some a)
        have nf: "ids 5 ?r" "ids 2 ?r" using ni by simp_all
        consider (skip) "HandlePacket cb pkt r = Some ?r"
          | (fin) "HandlePacket cb pkt r = handleFIN cb pkt a ?r"
          | (dat) "HandlePacket cb pkt r = do {
                  (go, r) \<leftarrow> completeHandshake cb pkt a e ?r;
                  if \<not> go then Some r
                  else if Size pkt = 0 then handlePureACK cb pkt a r
                  else if peerFIN (conn a r) then Some r
                  else receivePayload cb pkt a e r
                }"
          using unf Some other found by (auto split: if_splits)
        then show ?thesis
        proof cases
          case skip
          then show ?thesis using stay by simp
        next
          case fin
          obtain r' where "handleFIN cb pkt a ?r = Some r'" "ends cb P 4 ?r r'"
            using handleFIN_ok [OF r1 found nf(1) run] by blast
          then show ?thesis using fin lift by auto
        next
          case dat
          obtain go r2 where g: "completeHandshake cb pkt a e ?r = Some (go, r2)"
            "if go then moves cb P 1 ?r r2 \<and> established (conn a r2) else ends cb P 1 ?r r2"
            using completeHandshake_ok [OF r1 found nf(2)] by blast
          show ?thesis
          proof (cases go)
            case False
            then show ?thesis using dat g lift by auto
          next
            case True
            then have m: "moves cb P 1 ?r r2" "established (conn a r2)" using g(2) by simp_all
            note d = movesD [OF m(1)]
            have a2: "lookup ?key r2 = Some a" using d(2) found by simp
            have n2: "ids 3 r2" "ids 4 r2" using d(3) [of 3] d(3) [of 4] ni [of 4] ni [of 5] by (simp_all add: ids_def)
            have run2: "\<not> rc_stopped r2" using d(4) run by simp
            have lift2: "ends cb P 4 r r'" if "ends cb P k r2 r'" "k \<le> 3" for k r'
              using lift [OF moves_ends [OF m(1) that(1)]] that(2) by simp
            show ?thesis
            proof (cases "Size pkt = 0")
              case z: True
              obtain r3 where "handlePureACK cb pkt a r2 = Some r3" "ends cb P 2 r2 r3"
                using handlePureACK_ok [OF d(1) a2 n2(1)] by blast
              then show ?thesis using dat g(1) True z lift2 by auto
            next
              case nz: False
              show ?thesis
              proof (cases "peerFIN (conn a r2)")
                case pf: True
                then show ?thesis using dat g(1) True nz lift [OF d(6)] by auto
              next
                case npf: False
                obtain r3 where "receivePayload cb pkt a e r2 = Some r3" "ends cb P 3 r2 r3"
                  using receivePayload_ok [OF d(1) a2 n2(2) run2 npf m(2)] by blast
                then show ?thesis using dat g(1) True nz npf lift2 by auto
              qed
            qed
          qed
        qed
      qed
    qed
  qed
qed

end

end
