(* ===== verification/ReceiverReach.thy ===== *)
theory ReceiverReach
  imports ReceiverPackets
begin

text \<open>
  The receiver's timers and the host's calls keep the invariant, and so do the receiver's creation and
  what the rest of the program does to the shared engine and to the host.
\<close>

section \<open>Backing off\<close>

text \<open>The doubled FIN timeout saturates at the maximum, without overflow.\<close>

lemma nextFinRTO_exact:
  assumes "0 < rto" "rto \<le> MaximumTimeout config" "MaximumTimeout config \<le> max_i64"
  shows "nextFinRTO config rto = (if ExponentialBackoff config then min (MaximumTimeout config) (2 * rto) else rto)"
  using assms by (simp add: nextFinRTO_def in_i64_def max_i64_def Let_def)

lemma nextFinRTO_bounds:
  assumes "0 < rto" "rto \<le> MaximumTimeout config" "MaximumTimeout config \<le> max_i64"
  shows "0 < nextFinRTO config rto \<and> nextFinRTO config rto \<le> MaximumTimeout config"
  unfolding nextFinRTO_exact [OF assms] using assms by auto

context receiver_host
begin

section \<open>Timers\<close>

text \<open>The running timer's field is cleared first; no other pending event uses its identifier.\<close>

lemma clear_ok:
  assumes r: "rc_inv cb P r" and a: "lookup k r = Some a"
    and p: "\<And>x. x \<in> pending (rc_engine r) \<Longrightarrow> ev_id x \<noteq> event_of t (conn a r)"
    and f: "f = (case t of IdleTimer _ _ \<Rightarrow> (\<lambda>c. c\<lparr>idleEvent := 0\<rparr>) | DelayedACKTimer _ _ \<Rightarrow> (\<lambda>c. c\<lparr>delayedACKEvent := 0\<rparr>)
      | FINTimer _ _ \<Rightarrow> (\<lambda>c. c\<lparr>finEvent := 0\<rparr>) | _ \<Rightarrow> (\<lambda>c. c\<lparr>waitEvent := 0\<rparr>))"
  shows "moves cb P 0 r (upd a f r)" "conn a (upd a f r) = f (conn a r)" "goes cb a 0 r (upd a f r)"
proof -
  note e = rc_invD(1) [OF r, of a] and ok = rc_invD(3) [OF r a]
  have l: "a < length (rc_store r)" using rc_invD(4) [OF r a] .
  have "rc_eng cb a (upd a f r)"
  proof (rule rc_eng_upd [OF e a])
    fix x t'
    assume x: "x \<in> pending (rc_engine r)" "event_of t' (conn a r) = ev_id x"
    then have "event_of t' (conn a r) \<noteq> event_of t (conn a r)" using p by metis
    then show "event_of t' (f (conn a r)) = event_of t' (conn a r)"
      using f by (cases t; cases t') simp_all
  qed
  moreover have "quiet r (upd a f r)"
    by (rule quiet_upd) (use l f in \<open>auto simp: payload_of_def split: receiver_timer.split\<close>)
  ultimately show g: "goes cb a 0 r (upd a f r)" by (simp add: goes_def own_api_refl)
  show c: "conn a (upd a f r) = f (conn a r)" using l by simp
  have "conn_ok r (f (conn a r))" using ok f by (cases t) (simp_all add: conn_ok_def timers_ok_def)
  then show "moves cb P 0 r (upd a f r)" using goes_moves [OF r g] c by simp
qed

lemma fire_idle_ok:
  assumes r: "rc_inv cb P r" and a: "lookup k r = Some a" and n: "ids 2 r"
    and p: "\<And>x. x \<in> pending (rc_engine r) \<Longrightarrow> ev_id x \<noteq> idleEvent (conn a r)"
  shows "\<exists>r'. fire_idle cb k a r = Some r' \<and> ends cb P 1 r r'"
proof -
  let ?r = "upd a (\<lambda>c. c\<lparr>idleEvent := 0\<rparr>) r"
  note c = clear_ok [OF r a, of "IdleTimer k a" "\<lambda>c. c\<lparr>idleEvent := 0\<rparr>", simplified]
  have m: "moves cb P 0 r ?r" "conn a ?r = (conn a r)\<lparr>idleEvent := 0\<rparr>" using c p by blast+
  note d = movesD [OF m(1)]
  have a1: "lookup k ?r = Some a" using a by simp
  note e1 = rc_invD(1) [OF d(1), of a] and c1 = rc_invD(2) [OF d(1)] and ok1 = rc_invD(3) [OF d(1) a1]
  have n1: "ids (Suc 1) ?r" using n by (simp add: numeral_2_eq_2)
  let ?limit = "if conn_state (conn a ?r) = TCPEstablished then establishedIdleTimeout ?r else halfOpenIdleTimeout ?r"
  let ?rem = "i64 (?limit - i64 (eng_now (rc_engine ?r) - lastActivity (conn a ?r)))"
  have unf: "fire_idle cb k a r = (if conn_state (conn a ?r) \<noteq> TCPEstablished \<and> conn_state (conn a ?r) \<noteq> TCPSynReceived
      then Some ?r else if 0 < ?rem then scheduleIdleTimeout cb k a ?rem ?r else finishConnection cb k a CloseAborted ?r)"
    using a by (simp add: fire_idle_def Let_def)
  consider (skip) "conn_state (conn a ?r) \<noteq> TCPEstablished \<and> conn_state (conn a ?r) \<noteq> TCPSynReceived"
    | (again) "conn_state (conn a ?r) \<in> {TCPEstablished, TCPSynReceived}" "0 < ?rem"
    | (stop) "conn_state (conn a ?r) \<in> {TCPEstablished, TCPSynReceived}" "\<not> 0 < ?rem" by blast
  then show ?thesis
  proof cases
    case skip
    then show ?thesis using unf ends_weaken [OF d(6), of 1] by simp
  next
    case again
    have d0: "0 \<le> ?rem" using again(2) by simp
    have z: "idleEvent (conn a ?r) = 0" using m(2) by simp
    obtain r2 i where s: "scheduleIdleTimeout cb k a ?rem ?r = Some r2" "goes cb a 1 ?r r2"
      "conn a r2 = (conn a ?r)\<lparr>idleEvent := i\<rparr>" using scheduleIdleTimeout_ok [OF e1 inj d0 n1 a1 z] by blast
    have "conn_ok ?r (conn a r2)" unfolding s(3) using ok1 again(1) by (auto simp: conn_ok_def timers_ok_def)
    from moves_trans [OF m(1) goes_moves [OF d(1) s(2) this]] have "ends cb P 1 r r2" using movesD(6) by fastforce
    moreover have "fire_idle cb k a r = Some r2" using unf again s(1) by auto
    ultimately show ?thesis by blast
  next
    case stop
    obtain r2 where "finishConnection cb k a CloseAborted ?r = Some r2" "ends cb P 0 ?r r2"
      using finishConnection_ok [OF e1 c1 a1] by blast
    moreover from this have "fire_idle cb k a r = Some r2" using unf stop by auto
    ultimately show ?thesis using ends_weaken [OF moves_ends [OF m(1)], of 0 r2 1] by simp
  qed
qed

lemma fire_delayed_ack_ok:
  assumes r: "rc_inv cb P r" and a: "lookup k r = Some a"
    and p: "\<And>x. x \<in> pending (rc_engine r) \<Longrightarrow> ev_id x \<noteq> delayedACKEvent (conn a r)"
  shows "\<exists>r'. fire_delayed_ack cb k a r = Some r' \<and> ends cb P 0 r r'"
proof (cases "rc_stopped r \<or> pendingACKSegmentCount (conn a r) = 0")
  case True
  then show ?thesis using ends_refl [OF r] by (auto simp: fire_delayed_ack_def)
next
  case False
  let ?r = "upd a (\<lambda>c. c\<lparr>delayedACKEvent := 0\<rparr>) r"
  note c = clear_ok [OF r a, of "DelayedACKTimer k a" "\<lambda>c. c\<lparr>delayedACKEvent := 0\<rparr>", simplified]
  have m: "moves cb P 0 r ?r" "goes cb a 0 r ?r" using c p by blast+
  define r2 where "r2 = ?r\<lparr>rc_ackState := (rc_ackState ?r)
    \<lparr>TimerTriggeredACKCount := u64 (TimerTriggeredACKCount (rc_ackState ?r) + 1)\<rparr>\<rparr>"
  have ok: "conn_ok r (conn a ?r)"
    using rc_invD(3) [OF movesD(1) [OF m(1)], of k a] a movesD(5) [OF m(1)] by simp
  have g2: "goes cb a 0 r r2" unfolding r2_def by (rule goes_counter(2) [OF m(2)])
  have c2: "conn a r2 = conn a ?r" by (simp add: r2_def counter_change)
  have m2: "moves cb P 0 r r2" using goes_moves [OF r g2] ok c2 by simp
  note d2 = movesD [OF m2]
  have a2: "lookup k r2 = Some a" using d2(2) a by simp
  obtain r3 where r3: "acknowledge cb k a r2 = Some r3" "rc_stopped r2 \<and> r3 = r2 \<or> ends cb P 0 r2 r3"
    using acknowledge_ok [OF rc_invD(1,2) [OF d2(1)] a2 conn_ok_clear [OF rc_invD(3) [OF d2(1) a2]]] by blast
  have "ends cb P 0 r2 r3" using r3(2) False d2(4) by auto
  moreover have "fire_delayed_ack cb k a r = Some r3"
    using False a r3(1) unfolding r2_def by (simp add: fire_delayed_ack_def Let_def)
  ultimately show ?thesis using moves_ends [OF m2] by fastforce
qed

lemma fire_fin_ok:
  assumes r: "rc_inv cb P r" and a: "lookup k r = Some a" and n: "ids 2 r" and nz: "finEvent (conn a r) \<noteq> 0"
    and p: "\<And>x. x \<in> pending (rc_engine r) \<Longrightarrow> ev_id x \<noteq> finEvent (conn a r)"
  shows "\<exists>r'. fire_fin cb k a r = Some r' \<and> ends cb P 1 r r'"
proof -
  let ?r = "upd a (\<lambda>c. c\<lparr>finEvent := 0\<rparr>) r"
  note c = clear_ok [OF r a, of "FINTimer k a" "\<lambda>c. c\<lparr>finEvent := 0\<rparr>", simplified]
  have m: "moves cb P 0 r ?r" "conn a ?r = (conn a r)\<lparr>finEvent := 0\<rparr>" using c p by blast+
  note d = movesD [OF m(1)]
  have a1: "lookup k ?r = Some a" using a by simp
  note e1 = rc_invD(1) [OF d(1), of a] and c1 = rc_invD(2) [OF d(1)] and ok1 = rc_invD(3) [OF d(1) a1]
  have ok: "conn_ok r (conn a r)" using rc_invD(3) [OF r a] .
  have fs: "finSent (conn a r)" "\<not> finAcked (conn a r)" using ok nz by (simp_all add: conn_ok_def timers_ok_def)
  show ?thesis
  proof (cases "MaxFINRetries (rc_closeConfig ?r) \<le> finTimeouts (conn a ?r)")
    case True
    obtain r2 where "finishConnection cb k a CloseFINRetryLimit ?r = Some r2" "ends cb P 0 ?r r2"
      using finishConnection_ok [OF e1 c1 a1] by blast
    moreover from this have "fire_fin cb k a r = Some r2" using True a fs m(2) by (simp add: fire_fin_def Let_def)
    ultimately show ?thesis using ends_weaken [OF moves_ends [OF m(1)], of 0 r2 1] by simp
  next
    case False
    let ?u = "\<lambda>c. c\<lparr>finTimeouts := finTimeouts c + 1, finRetries := u64 (finRetries c + 1),
                  finRTO := nextFinRTO (rc_rtoConfig ?r) (finRTO c)\<rparr>"
    have u: "goes cb a 0 ?r (upd a ?u ?r)" "conn a (upd a ?u ?r) = ?u (conn a ?r)"
      by (rule goes_upd [OF e1 a1]; simp add: conn_defs)+
    have rto: "0 < finRTO (conn a r)" "finRTO (conn a r) \<le> MaximumTimeout (rc_rtoConfig r)"
      using ok fs by (simp_all add: conn_ok_def timers_ok_def)
    have mx: "MaximumTimeout (rc_rtoConfig r) \<le> max_i64" using e1 by (simp add: rc_eng_def config_ok_def)
    note nx = nextFinRTO_bounds [OF rto mx]
    have k2: "conn_ok ?r (conn a (upd a ?u ?r))"
      unfolding u(2) m(2) using ok nx False m(2) by (simp add: conn_ok_def timers_ok_def)
    have m2: "moves cb P 0 r (upd a ?u ?r)" using moves_trans [OF m(1) goes_moves [OF d(1) u(1) k2]] by simp
    note d2 = movesD [OF m2]
    let ?r2 = "upd a ?u ?r"
    have a2: "lookup k ?r2 = Some a" using a by simp
    note e2 = rc_invD(1) [OF d2(1), of a] and c2 = rc_invD(2) [OF d2(1)]
    have z: "finEvent (conn a ?r2) = 0" "0 \<le> finRTO (conn a ?r2)" unfolding u(2) m(2) using nx by simp_all
    have n2: "ids (Suc 1) ?r2" using n by (simp add: numeral_2_eq_2)
    obtain r3 i where r3: "scheduleFIN cb k a ?r2 = Some r3" "goes cb a 1 ?r2 r3" "conn a r3 = (conn a ?r2)\<lparr>finEvent := i\<rparr>"
      using scheduleFIN_ok [OF e2 inj z(2) n2 a2 z(1)] by blast
    have "conn_ok ?r2 (conn a r3)"
      unfolding r3(3) u(2) m(2) using k2 fs unfolding u(2) m(2) by (simp add: conn_ok_def timers_ok_def)
    then have m3: "moves cb P 1 r r3" using moves_trans [OF m2 goes_moves [OF d2(1) r3(2)]] by simp
    note d3 = movesD [OF m3]
    have a3: "lookup k r3 = Some a" using d3(2) a by simp
    have f3: "finSent (conn a r3)" unfolding r3(3) u(2) m(2) using fs by simp
    obtain r4 where r4: "emitFIN cb k a r3 = Some r4" "ends cb P 0 r3 r4"
      using emitFIN_ok [OF rc_invD(1,2) [OF d3(1)] a3 conn_ok_clear [OF rc_invD(3) [OF d3(1) a3]] f3] by blast
    have "fire_fin cb k a r = Some r4" using False a fs m(2) r3(1) r4(1) by (simp add: fire_fin_def Let_def)
    then show ?thesis using moves_ends [OF m3 r4(2)] by auto
  qed
qed

lemma fire_wait_ok:
  assumes r: "rc_inv cb P r" and a: "lookup k r = Some a"
    and p: "\<And>x. x \<in> pending (rc_engine r) \<Longrightarrow> ev_id x \<noteq> waitEvent (conn a r)"
  shows "\<exists>r'. fire_wait cb k a outcome r = Some r' \<and> ends cb P 0 r r'"
proof -
  let ?r = "upd a (\<lambda>c. c\<lparr>waitEvent := 0\<rparr>) r"
  note c = clear_ok [OF r a, of "TimeWaitTimer k a" "\<lambda>c. c\<lparr>waitEvent := 0\<rparr>", simplified]
  have m: "moves cb P 0 r ?r" using c p by blast
  have a1: "lookup k ?r = Some a" using a by simp
  obtain r2 where "finishConnection cb k a outcome ?r = Some r2" "ends cb P 0 ?r r2"
    using finishConnection_ok [OF rc_invD(1,2) [OF movesD(1) [OF m]] a1] by blast
  then show ?thesis using moves_ends [OF m] by (fastforce simp: fire_wait_def Let_def)
qed

lemma fire_ok:
  assumes r: "rc_inv cb P r" and t: "timer_live r i t" "i \<noteq> 0"
    and p: "\<And>x. x \<in> pending (rc_engine r) \<Longrightarrow> ev_id x \<noteq> i" and n: "ids 2 r"
  shows "\<exists>r'. fire cb t r = Some r' \<and> ends cb P 1 r r'"
proof (cases t)
  case (IdleTimer k a)
  then show ?thesis using fire_idle_ok [OF r _ n] t p by (simp add: timer_live_def)
next
  case (DelayedACKTimer k a)
  then obtain r' where "fire_delayed_ack cb k a r = Some r'" "ends cb P 0 r r'"
    using fire_delayed_ack_ok [OF r, of k a] t p by (auto simp: timer_live_def)
  then show ?thesis using DelayedACKTimer ends_weaken [of cb P 0 r r' 1] by simp
next
  case (FINTimer k a)
  then show ?thesis using fire_fin_ok [OF r _ n] t p by (simp add: timer_live_def)
next
  case (FinWaitTimer k a)
  then obtain r' where "fire_wait cb k a CloseWaitTimeout r = Some r'" "ends cb P 0 r r'"
    using fire_wait_ok [OF r, of k a] t p by (auto simp: timer_live_def)
  then show ?thesis using FinWaitTimer ends_weaken [of cb P 0 r r' 1] by simp
next
  case (TimeWaitTimer k a)
  then obtain r' where "fire_wait cb k a CloseGraceful r = Some r'" "ends cb P 0 r r'"
    using fire_wait_ok [OF r, of k a] t p by (auto simp: timer_live_def)
  then show ?thesis using TimeWaitTimer ends_weaken [of cb P 0 r r' 1] by simp
qed

section \<open>Calls of the host\<close>

lemma CloseConnection_ok:
  assumes r: "rc_inv cb P r" and n: "ids 2 r"
  shows "\<exists>r'. CloseConnection cb key r = Some r' \<and> ends cb P 1 r r'"
proof (cases "lookup key r")
  case None
  then show ?thesis using ends_refl [OF r] by (simp add: CloseConnection_def)
next
  case (Some a)
  show ?thesis
  proof (cases "established (conn a r) \<and> conn_state (conn a r) = TCPEstablished")
    case False
    then show ?thesis using Some ends_refl [OF r] by (auto simp: CloseConnection_def)
  next
    case True
    note e = rc_invD(1) [OF r, of a] and c = rc_invD(2) [OF r] and ok = rc_invD(3) [OF r Some]
    have st: "state_ok (conn a r)" "stream_ok (conn a r)" "timers_ok r (conn a r)" using ok by (simp_all add: conn_ok_def)
    have facts: "sendNextSeq (conn a r) = 1" "\<not> finSent (conn a r)" "\<not> finAcked (conn a r)" "rc_outcome (conn a r) = None"
      "finEvent (conn a r) = 0" "waitEvent (conn a r) = 0" "\<not> peerFIN (conn a r)"
      using st(1,3) True by (auto simp: state_ok_def timers_ok_def)
    have rto: "0 < InitialTimeout (rc_rtoConfig r)" "InitialTimeout (rc_rtoConfig r) \<le> MaximumTimeout (rc_rtoConfig r)"
      using e by (simp_all add: rc_eng_def config_ok_def)
    have "\<exists>r'. startFIN cb key a TCPFinWait1 r = Some r' \<and> ends cb P 1 r r'"
    proof (rule startFIN_ok [OF e c Some n facts(5)])
      fix i
      show "conn_ok r ((if \<not> closeStarted (conn a r)
          then (conn a r)\<lparr>idleEvent := 0, closeStarted := True, closeStartedAt := eng_now (rc_engine r)\<rparr>
          else (conn a r)\<lparr>idleEvent := 0\<rparr>)
        \<lparr>conn_state := TCPFinWait1, finSent := True, finSeq := sendNextSeq (conn a r),
         sendNextSeq := u64 (sendNextSeq (conn a r) + 1), finRTO := InitialTimeout (rc_rtoConfig r),
         finEvent := i, delayedACKEvent := 0, pendingACKSegmentCount := 0\<rparr>)"
        using st(2) unfolding conn_ok_def
        by (cases "closeStarted (conn a r)")
          (use facts True st(3) rto in \<open>simp_all add: state_ok_def timers_ok_def max_u64_def\<close>)
    qed
    then show ?thesis using Some True by (simp add: CloseConnection_def)
  qed
qed

lemma AbortConnection_ok:
  assumes r: "rc_inv cb P r"
  shows "\<exists>r'. AbortConnection cb key r = Some r' \<and> ends cb P 0 r r'"
proof (cases "lookup key r")
  case None
  then show ?thesis using ends_refl [OF r] by (simp add: AbortConnection_def)
next
  case (Some a)
  note e = rc_invD(1) [OF r, of a] and c = rc_invD(2) [OF r] and ok = rc_invD(3) [OF r Some]
  show ?thesis
  proof (cases "conn_state (conn a r) = TCPClosed")
    case True
    then show ?thesis using Some ends_refl [OF r] by (simp add: AbortConnection_def)
  next
    case False
    let ?p = "\<lparr>Key = key, Flag = FlagRST OR FlagACK, Size = 0, Seq = sendNextSeq (conn a r),
              Ack = nextExpectedSeq (rbuf (conn a r)), ECN = NotECT, ReceiveWindowBytes = 0,
              SACKPermitted = False, SACKBlocks = []\<rparr>"
    have rb: "rb_ok (rbuf (conn a r))" "peerInitialSeq (conn a r) < nextExpectedSeq (rbuf (conn a r))"
      using ok by (simp_all add: conn_ok_def stream_ok_def)
    have fl: "has_flag (FlagRST OR FlagACK) FlagACK" "\<not> has_flag (FlagRST OR FlagACK) FlagSYN"
      "\<not> has_flag (FlagRST OR FlagACK) FlagFIN" by (simp_all add: has_flag_def flag_defs)
    have p: "reply_ok ?p"
      using rb fl sent_seq_le [OF ok]
      by (auto simp: reply_ok_def ValidSACKOptions_def SequenceEnd_def Let_def max_u64_def rb_ok_def)
    obtain r1 where r1: "cancelCloseTimers a r = Some r1" "goes cb a 0 r r1" using cancelCloseTimers_ok [OF e Some] by blast
    note d1 = goesD [OF r1(2)]
    have a1: "lookup key r1 = Some a" using d1(3) Some by simp
    obtain r2 where r2: "cancelDelayedACK a r1 = Some r2" "goes cb a 0 r1 r2" using cancelDelayedACK_ok [OF d1(1) a1] by blast
    note d2 = goesD [OF r2(2)]
    have a2: "lookup key r2 = Some a" using d2(3) a1 by simp
    let ?u = "\<lambda>c. c\<lparr>conn_state := TCPClosed, rc_outcome := Some CloseAborted\<rparr>"
    have u: "goes cb a 0 r2 (upd a ?u r2)" by (rule goes_upd [OF d2(1) a2]; simp add: conn_defs)
    note d3 = goesD [OF u]
    have g3: "goes cb a 0 r (upd a ?u r2)" using goes_trans [OF goes_trans [OF r1(2) r2(2)] u] by simp
    have c3: "rc_counts P (upd a ?u r2)" using rc_counts_quiet [OF e goesD(2) [OF g3] c] .
    let ?r4 = "emit cb ?p (upd a ?u r2)"
    have e4: "rc_eng cb a ?r4" using d3(1) by (simp add: emit_def host_change)
    have c4: "rc_counts P ?r4"
      using rc_counts_host [OF c3 send [OF rc_counts_P [OF c3] p]] c3 by (auto simp: emit_def)
    have a4: "lookup key ?r4 = Some a" using a2 by (simp add: emit_def)
    obtain r5 where r5: "finishConnection cb key a CloseAborted ?r4 = Some r5" "ends cb P 0 ?r4 r5"
      using finishConnection_ok [OF e4 c4 a4] by blast
    have "rc_engine ?r4 = rc_engine (upd a ?u r2)" "rc_stopped ?r4 = rc_stopped (upd a ?u r2)"
      by (simp_all add: emit_def)
    then have "ends cb P 0 (upd a ?u r2) r5" using r5(2) by (simp add: ends_def)
    then have "ends cb P 0 r r5" using ends_trans [OF g3] by fastforce
    then show ?thesis using Some False r1(1) r2(1) r5(1) by (simp add: AbortConnection_def Let_def)
  qed
qed

lemma ForgetConnection_ok:
  assumes r: "rc_inv cb P r"
  shows "\<exists>r'. ForgetConnection cb key r = Some r' \<and> ends cb P 0 r r' \<and> rc_stopped r' = rc_stopped r \<and>
    connections r' = filter (\<lambda>(k, _). k \<noteq> key) (connections r)"
proof (cases "lookup key r")
  case None
  then have "key \<notin> fst ` set (connections r)" by (simp add: lookup_def map_of_eq_None_iff)
  then show ?thesis using None ends_refl [OF r] filter_key_absent [of key "connections r"]
    by (simp add: ForgetConnection_def)
next
  case (Some a)
  then show ?thesis using finishConnection_ok [OF rc_invD(1,2) [OF r] Some, of CloseAborted]
    by (auto simp: ForgetConnection_def)
qed

lemma forget_all_ok:
  "rc_inv cb P r \<Longrightarrow> \<exists>r'. forget_all cb keys r = Some r' \<and> ends cb P 0 r r' \<and> rc_stopped r' = rc_stopped r \<and>
     connections r' = filter (\<lambda>(k, _). k \<notin> set keys) (connections r)"
proof (induction keys arbitrary: r)
  case Nil
  have "filter (\<lambda>(k, _). True) xs = xs" for xs :: "(client_key \<times> nat) list" by (induction xs) auto
  then show ?case using ends_refl [OF Nil] by simp
next
  case (Cons key keys)
  obtain r1 where r1: "ForgetConnection cb key r = Some r1" "ends cb P 0 r r1" "rc_stopped r1 = rc_stopped r"
    "connections r1 = filter (\<lambda>(k, _). k \<noteq> key) (connections r)" using ForgetConnection_ok [OF Cons.prems] by blast
  have i1: "rc_inv cb P r1" using r1(2) by (simp add: ends_def)
  obtain r2 where r2: "forget_all cb keys r1 = Some r2" "ends cb P 0 r1 r2" "rc_stopped r2 = rc_stopped r1"
    "connections r2 = filter (\<lambda>(k, _). k \<notin> set keys) (connections r1)" using Cons.IH [OF i1] by blast
  have "ends cb P 0 r r2" using r1(2) r2(2) own_api_trans unfolding ends_def by fastforce
  moreover have "connections r2 = filter (\<lambda>(k, _). k \<notin> set (key # keys)) (connections r)"
    unfolding r2(4) r1(4) filter_filter by (rule filter_cong) auto
  ultimately show ?case using r1 r2 by simp
qed

text \<open>Shutting down forgets every connection.\<close>

lemma rc_Shutdown_ok:
  assumes r: "rc_inv cb P r"
  shows "\<exists>r'. rc_Shutdown cb r = Some r' \<and> ends cb P 0 (r\<lparr>rc_stopped := True\<rparr>) r' \<and> rc_stopped r' \<and>
    (\<not> rc_stopped r \<longrightarrow> connections r' = [])"
proof (cases "rc_stopped r")
  case True
  then show ?thesis using r by (simp add: rc_Shutdown_def ends_def flag_change own_api_refl)
next
  case False
  let ?r = "r\<lparr>rc_stopped := True\<rparr>"
  have "rc_inv cb P ?r" using r by (simp add: flag_change)
  then obtain r1 where r1: "forget_all cb (map fst (connections ?r)) ?r = Some r1" "ends cb P 0 ?r r1"
    "rc_stopped r1" "connections r1 = filter (\<lambda>(k, _). k \<notin> set (map fst (connections ?r))) (connections ?r)"
    using forget_all_ok by fastforce
  have "connections r1 = []" unfolding r1(4) by (force simp: filter_empty_conv)
  then show ?thesis using False r1(1,2,3) by (simp add: rc_Shutdown_def Let_def)
qed

end

section \<open>Calls as values\<close>

datatype receiver_call = Arrive packet | Close client_key | Abort client_key | Forget client_key | Stop
  | ConfigureBuffer int | ConfigureClose close_config | ConfigureRTO rto_config
  | ConfigureDelayedACK delayed_ack_config | ConfigureSACK bool | ConfigureIdle duration duration | ConfigureECN bool

fun call :: "('c, 'h) receiver_callbacks \<Rightarrow> receiver_call \<Rightarrow> ('c, 'h) receiver_op" where
  "call cb (Arrive pkt) r = HandlePacket cb pkt r"
| "call cb (Close key) r = CloseConnection cb key r"
| "call cb (Abort key) r = AbortConnection cb key r"
| "call cb (Forget key) r = ForgetConnection cb key r"
| "call cb Stop r = rc_Shutdown cb r"
| "call cb (ConfigureBuffer n) r = SetReceiveBufferBytes n r"
| "call cb (ConfigureClose c) r = SetCloseConfig c r"
| "call cb (ConfigureRTO c) r = SetRTOConfig c r"
| "call cb (ConfigureDelayedACK c) r = SetDelayedACKConfig c r"
| "call cb (ConfigureSACK b) r = SetSACKEnabled b r"
| "call cb (ConfigureIdle h e) r = SetIdleTimeouts h e r"
| "call cb (ConfigureECN b) r = SetECNEnabled b r"

text \<open>Arguments in the ranges of their Go types.\<close>

fun call_typed :: "receiver_call \<Rightarrow> bool" where
  "call_typed (Arrive pkt) \<longleftrightarrow> Seq pkt \<le> max_u64"
| "call_typed (ConfigureRTO c) \<longleftrightarrow> MaximumTimeout c \<le> max_i64"
| "call_typed _ \<longleftrightarrow> True"

definition own_events :: "('c, 'h) receiver_callbacks \<Rightarrow> 'c engine \<Rightarrow> 'c event set" where
  "own_events cb e = {x \<in> pending e. \<exists>t. ev_callback x = timerEvent cb t}"

text \<open>What changing the configuration leaves alone.\<close>

definition same_engine :: "('c, 'h) receiver \<Rightarrow> ('c, 'h) receiver \<Rightarrow> bool" where
  "same_engine r r' \<longleftrightarrow> rc_engine r' = rc_engine r \<and> rc_stopped r' = rc_stopped r \<and>
     connections r' = connections r \<and> rc_store r' = rc_store r"

lemma setter_keeps:
  assumes r: "rc_inv cb P r"
  shows "SetReceiveBufferBytes cap r = Some r' \<Longrightarrow> rc_inv cb P r' \<and> same_engine r r'"
    "SetCloseConfig cc r = Some r' \<Longrightarrow> rc_inv cb P r' \<and> same_engine r r'"
    "SetRTOConfig rc r = Some r' \<Longrightarrow> MaximumTimeout rc \<le> max_i64 \<Longrightarrow> rc_inv cb P r' \<and> same_engine r r'"
    "SetDelayedACKConfig dc r = Some r' \<Longrightarrow> rc_inv cb P r' \<and> same_engine r r'"
    "SetSACKEnabled b r = Some r' \<Longrightarrow> rc_inv cb P r' \<and> same_engine r r'"
    "SetIdleTimeouts h e r = Some r' \<Longrightarrow> rc_inv cb P r' \<and> same_engine r r'"
    "SetECNEnabled b r = Some r' \<Longrightarrow> rc_inv cb P r' \<and> same_engine r r'"
  using r
  by (auto simp: SetReceiveBufferBytes_def SetCloseConfig_def SetRTOConfig_def SetDelayedACKConfig_def
      SetSACKEnabled_def SetIdleTimeouts_def SetECNEnabled_def hasTraffic_def rc_inv_def rc_eng_def rc_counts_def
      config_ok_def timer_live_def lookup_def conn_def same_engine_def split: if_splits)

lemma same_engine_ends: "rc_inv cb P r' \<and> same_engine r r' \<Longrightarrow> ends cb P n r r'"
  by (simp add: ends_def same_engine_def own_api_refl)

lemmas setter_ends = setter_keeps [THEN same_engine_ends]

context receiver_host
begin

lemma call_ok:
  assumes r: "rc_inv cb P r" and t: "call_typed c" and n: "ids 6 r"
    and room: "Suc (length (rc_store r)) < 4294967296" and c: "call cb c r = Some r'" and go: "c \<noteq> Stop"
  shows "ends cb P 4 r r'"
proof (cases c)
  case (Arrive pkt)
  then show ?thesis using HandlePacket_ok [OF r n _ room, of pkt] t c by auto
next
  case (Close key)
  have "ids 2 r" using n by (simp add: ids_def)
  then show ?thesis using CloseConnection_ok [OF r, of key] Close c ends_weaken [of cb P 1 r r' 4] by auto
next
  case (Abort key)
  then show ?thesis using AbortConnection_ok [OF r, of key] c ends_weaken [of cb P 0 r r' 4] by auto
next
  case (Forget key)
  then show ?thesis using ForgetConnection_ok [OF r, of key] c ends_weaken [of cb P 0 r r' 4] by auto
qed (use c t go in \<open>auto intro: setter_ends [OF r]\<close>)

lemma timer_ok:
  assumes r: "rc_inv cb P r" and x: "take_event (rc_engine r) = Some (x, e)" "ev_callback x = timerEvent cb t"
    and n: "ids 2 r"
  shows "\<exists>r'. fire cb t (r\<lparr>rc_engine := e\<rparr>) = Some r' \<and> ends cb P 1 (r\<lparr>rc_engine := e\<rparr>) r'"
proof -
  have e: "eng_inv (rc_engine r)" using r by (simp add: rc_inv_def rc_eng_def)
  have ne: "arr (queue (rc_engine r)) \<noteq> []" using x(1) by (auto simp: take_event_def heap_Pop_def split: if_splits)
  note f = take_event_facts [OF e ne x(1)]
  let ?r = "r\<lparr>rc_engine := e\<rparr>"
  have live: "timer_live ?r (ev_id y) t'" if "y \<in> pending (rc_engine r)" "ev_callback y = timerEvent cb t'" for y t'
    using r that by (auto simp: rc_inv_def rc_eng_def timer_live_def)
  have ok: "conn_ok ?r c" if "conn_ok r c" for c
    using that f(8) by (auto simp: conn_ok_def timers_ok_def)
  have i: "rc_inv cb P ?r"
    using r f(2,4) live ok unfolding rc_inv_def rc_eng_def by (auto simp: rc_counts_def)
  have gone: "ev_id y \<noteq> ev_id x" if "y \<in> pending (rc_engine ?r)" for y
    using that f(1,2) pending_id_inj [OF e _ f(1), of y] by auto
  have "ids 2 ?r" using n f(7) by (simp add: ids_def)
  with fire_ok [OF i live [OF f(1) x(2)] pending_nonzero [OF e f(1)] gone] show ?thesis by blast
qed

lemma world_ok:
  assumes r: "rc_inv cb P r" and e: "eng_inv e" "own_events cb e \<subseteq> own_events cb (rc_engine r)"
    "eng_now (rc_engine r) \<le> eng_now e" and h: "P (activeConnections r) (halfOpenConnections r) H"
  shows "rc_inv cb P (r\<lparr>rc_engine := e, rc_host := H\<rparr>)"
proof -
  let ?r = "r\<lparr>rc_engine := e\<rparr>"
  have live: "timer_live ?r (ev_id y) t" if "y \<in> pending e" "ev_callback y = timerEvent cb t" for y t
  proof -
    have "y \<in> own_events cb (rc_engine r)" using e(2) that by (auto simp: own_events_def)
    then show ?thesis using r that by (auto simp: own_events_def rc_inv_def rc_eng_def timer_live_def)
  qed
  have ok: "conn_ok ?r c" if "conn_ok r c" for c
    using that e(3) by (auto simp: conn_ok_def timers_ok_def)
  have "rc_inv cb P ?r" using r e(1) live ok unfolding rc_inv_def rc_eng_def by (auto simp: rc_counts_def)
  then show ?thesis using h rc_counts_host [of ?r H] unfolding rc_inv_def by (simp add: host_change)
qed

lemma fresh_ok:
  assumes "eng_inv e" "own_events cb e = {}" "P 0 0 H"
  shows "rc_inv cb P (NewReceiver e H)"
  using assms
  by (auto simp: rc_inv_def rc_eng_def rc_counts_def NewReceiver_def own_events_def config_ok_def
      DefaultDelayedACKConfig_def DefaultCloseConfig_def DefaultRTOConfig_def delayed_ack_Valid_def
      close_config_Valid_def DefaultReceiveBufferBytes_def DefaultBackendHalfOpenIdleTimeout_def
      DefaultBackendEstablishedIdleTimeout_def max_i64_def ms_def)

end

end
