(* ===== verification/Server.thy ===== *)
theory Server
  imports ReceiverReach Host
begin

text \<open>
  A backend: \<open>server/server.go\<close>, \<open>server/tcp.go\<close> and \<open>model/server-state.go\<close>.  It joins the CPU of
  \<open>Host\<close>, which delays its packets, with the passive TCP of \<open>Receiver\<close>, and adds health, draining
  and admission limits.

  The fields of the Go struct that the receiver's callbacks read or change are the host state
  \<open>backend\<close>; the others are in \<open>server\<close>, which holds the receiver.  The clock that the callbacks read
  with \<open>e.Now()\<close> is copied to \<open>clock\<close> when an operation enters the transport, which never moves it.
  Packets handed to the sender and bytes reported to \<open>OnPayloadReceived\<close> are listed in order; both
  functions are the network's and the observer's and belong to no code of this component.  The
  functions \<open>valid\<close> and \<open>onReply\<close> are named by numbers: \<open>env\<close> says what \<open>valid\<close> returns when it is
  called, and the reply to call is a result.
\<close>

section \<open>State\<close>

record backend =
  be_Active :: bool
  Killed :: bool
  HealthTCP :: bool
  Draining :: bool
  LatencyP95Milli :: nat
  be_MaxConnections :: nat
  ActiveConnections :: nat
  HalfOpenConnections :: nat
  MaxHalfOpen :: nat
  DrainTimeout :: duration
  DrainStartedAt :: duration
  LastUpdated :: duration
  latencySamples :: "int list"
  latencyCount :: nat
  latencyPosition :: nat
  clock :: duration
  hasSender :: bool
  sentPackets :: "packet list"
  hasObserver :: bool
  observedPayload :: "int list"

datatype 'o server_event = TCPTimer receiver_timer | CPUDone nat | ProbeReply nat | Elsewhere 'o

record 'o server =
  sv_ID :: string
  sv_Name :: string
  sv_Address :: string
  sv_Port :: nat
  Distance :: int
  Weight :: int
  NumberOfHandledPackets :: nat
  transport :: "('o server_event, backend) receiver"
  processor :: "(packet \<times> nat option) host"
  sv_started :: bool
  probeEvents :: "nat list"

definition IsHealthy :: "backend \<Rightarrow> bool" where
  "IsHealthy b \<longleftrightarrow> \<not> Killed b \<and> be_Active b \<and> HealthTCP b \<and> \<not> Draining b"

definition CanAcceptNewConnection :: "backend \<Rightarrow> bool" where
  "CanAcceptNewConnection b \<longleftrightarrow> IsHealthy b \<and> (be_MaxConnections b = 0 \<or> ActiveConnections b < be_MaxConnections b)"

definition ShouldBeTerminated :: "backend \<Rightarrow> bool" where
  "ShouldBeTerminated b \<longleftrightarrow> Draining b \<and> ActiveConnections b = 0 \<and> HalfOpenConnections b = 0"

section \<open>The callbacks of the transport\<close>

definition sv_emit :: "packet \<Rightarrow> backend \<Rightarrow> backend" where
  "sv_emit pkt b =
     (if \<not> Killed b \<and> be_Active b \<and> hasSender b then b\<lparr>sentPackets := sentPackets b @ [pkt]\<rparr> else b)"

text \<open>\<open>sort.Slice\<close> with \<open><\<close> on integers has one result, the sorted list.\<close>

definition recordConnectionLatency :: "duration \<Rightarrow> backend \<Rightarrow> backend" where
  "recordConnectionLatency elapsed b =
     (let window = (latencySamples b)[latencyPosition b := go_div elapsed ms];
          position = (latencyPosition b + 1) mod length window;
          count = (if latencyCount b < length window then latencyCount b + 1 else latencyCount b);
          samples = sort (take count window);
          index = (95 * count + 99) div 100 - 1
      in b\<lparr>latencySamples := window, latencyPosition := position, latencyCount := count,
           LatencyP95Milli := nat (min (samples ! index) 4294967295 mod 4294967296)\<rparr>)"

definition sv_CanOpen :: "backend \<Rightarrow> bool" where
  "sv_CanOpen b =
     (let halfOpenFull = 0 < MaxHalfOpen b \<and> MaxHalfOpen b \<le> HalfOpenConnections b
      in CanAcceptNewConnection b \<and> \<not> halfOpenFull)"

definition sv_CanEstablish :: "backend \<Rightarrow> bool" where
  "sv_CanEstablish b \<longleftrightarrow> be_MaxConnections b = 0 \<or> ActiveConnections b < be_MaxConnections b"

definition sv_OnConnectionCounts :: "nat \<Rightarrow> nat \<Rightarrow> backend \<Rightarrow> backend" where
  "sv_OnConnectionCounts active halfOpen b =
     b\<lparr>ActiveConnections := active, HalfOpenConnections := halfOpen, LastUpdated := clock b\<rparr>"

definition sv_OnPayloadReceived :: "int \<Rightarrow> backend \<Rightarrow> backend" where
  "sv_OnPayloadReceived bytes b =
     (if hasObserver b then b\<lparr>observedPayload := observedPayload b @ [bytes]\<rparr> else b)"

definition server_callbacks :: "('o server_event, backend) receiver_callbacks" where
  "server_callbacks = \<lparr>timerEvent = TCPTimer, Send = sv_emit, CanOpen = sv_CanOpen,
     CanEstablish = sv_CanEstablish, OnConnectionCounts = sv_OnConnectionCounts,
     OnPayloadReceived = sv_OnPayloadReceived, OnPeerFIN = recordConnectionLatency\<rparr>"

section \<open>Access to the parts\<close>

definition sv_engine :: "'o server \<Rightarrow> 'o server_event engine" where
  "sv_engine s = rc_engine (transport s)"

definition set_engine :: "'o server_event engine \<Rightarrow> 'o server \<Rightarrow> 'o server" where
  "set_engine e s = s\<lparr>transport := (transport s)\<lparr>rc_engine := e\<rparr>\<rparr>"

definition backend_of :: "'o server \<Rightarrow> backend" where
  "backend_of s = rc_host (transport s)"

definition upd_backend :: "(backend \<Rightarrow> backend) \<Rightarrow> 'o server \<Rightarrow> 'o server" where
  "upd_backend f s = s\<lparr>transport := (transport s)\<lparr>rc_host := f (rc_host (transport s))\<rparr>\<rparr>"

definition on_transport ::
  "(('o server_event, backend) receiver \<Rightarrow> ('o server_event, backend) receiver option) \<Rightarrow> 'o server \<Rightarrow> 'o server option"
where
  "on_transport f s = do {
     r \<leftarrow> f ((transport s)\<lparr>rc_host := (rc_host (transport s))\<lparr>clock := eng_now (rc_engine (transport s))\<rparr>\<rparr>);
     Some (s\<lparr>transport := r\<rparr>)
   }"

section \<open>Life cycle\<close>

definition new_backend :: "nat \<Rightarrow> duration \<Rightarrow> backend" where
  "new_backend maxHalfOpen now =
     \<lparr>be_Active = True, Killed = False, HealthTCP = True, Draining = False, LatencyP95Milli = 0,
      be_MaxConnections = 0, ActiveConnections = 0, HalfOpenConnections = 0, MaxHalfOpen = maxHalfOpen,
      DrainTimeout = 120000 * ms, DrainStartedAt = 0, LastUpdated = now,
      latencySamples = replicate 100 0, latencyCount = 0, latencyPosition = 0, clock = now,
      hasSender = False, sentPackets = [], hasObserver = False, observedPayload = []\<rparr>"

definition NewServer ::
  "'o server_event engine \<Rightarrow> string \<Rightarrow> string \<Rightarrow> string \<Rightarrow> nat \<Rightarrow> int \<Rightarrow> int \<Rightarrow> nat \<Rightarrow> 'o server option"
where
  "NewServer e id' name address port distance weight maxHalfOpen = do {
     p \<leftarrow> host_New e host_DefaultConfig;
     Some \<lparr>sv_ID = id', sv_Name = name, sv_Address = address, sv_Port = port, Distance = distance,
       Weight = weight, NumberOfHandledPackets = 0,
       transport = NewReceiver e (new_backend maxHalfOpen (eng_now e)), processor = p,
       sv_started = False, probeEvents = []\<rparr>
   }"

definition SetSender :: "bool \<Rightarrow> 'o server \<Rightarrow> 'o server" where
  "SetSender sender s = upd_backend (\<lambda>b. b\<lparr>hasSender := sender\<rparr>) s"

definition sv_Start :: "'o server \<Rightarrow> 'o server" where
  "sv_Start s = (if sv_started s \<or> Killed (backend_of s) then s else s\<lparr>sv_started := True\<rparr>)"

text \<open>The probe events are a set; they are cancelled in the order of the list.\<close>

definition sv_Shutdown :: "'o server \<Rightarrow> 'o server option" where
  "sv_Shutdown s =
     (if Killed (backend_of s) then Some s
      else do {
        let s = upd_backend (\<lambda>b. b\<lparr>Killed := True, be_Active := False, HealthTCP := False\<rparr>) s;
        (e, p) \<leftarrow> host_Stop (sv_engine s, processor s);
        e \<leftarrow> cancel_all (probeEvents s) e;
        let s = (set_engine e s)\<lparr>processor := p, probeEvents := []\<rparr>;
        s \<leftarrow> on_transport (rc_Shutdown server_callbacks) s;
        Some (upd_backend (\<lambda>b. b\<lparr>ActiveConnections := 0, HalfOpenConnections := 0,
                                LastUpdated := eng_now (sv_engine s)\<rparr>) s)
      })"

definition MarkFailed :: "'o server \<Rightarrow> 'o server option" where
  "MarkFailed s =
     (if Killed (backend_of s) then Some s
      else do {
        (e, p) \<leftarrow> host_DiscardPending (sv_engine s, processor s);
        let s = (set_engine e s)\<lparr>processor := p\<rparr>;
        Some (upd_backend (\<lambda>b. b\<lparr>be_Active := False, HealthTCP := False, LatencyP95Milli := 4294967295,
               Draining := True, DrainStartedAt := eng_now (sv_engine s), LastUpdated := eng_now (sv_engine s)\<rparr>) s)
      })"

definition MarkHealthy :: "'o server \<Rightarrow> 'o server" where
  "MarkHealthy s =
     (if Killed (backend_of s) then s
      else upd_backend (\<lambda>b. b\<lparr>be_Active := True, HealthTCP := True, LatencyP95Milli := 0, Draining := False,
             DrainStartedAt := 0, LastUpdated := eng_now (sv_engine s)\<rparr>) s)"

definition StartDrain :: "'o server \<Rightarrow> 'o server" where
  "StartDrain s =
     (if Killed (backend_of s) then s
      else upd_backend (\<lambda>b. b\<lparr>Draining := True, DrainStartedAt := eng_now (sv_engine s),
             LastUpdated := eng_now (sv_engine s)\<rparr>) s)"

definition StopDrain :: "'o server \<Rightarrow> 'o server" where
  "StopDrain s =
     (if Killed (backend_of s) then s
      else upd_backend (\<lambda>b. b\<lparr>Draining := False, DrainStartedAt := 0, LastUpdated := eng_now (sv_engine s)\<rparr>) s)"

definition UpdateHealth :: "bool \<Rightarrow> nat \<Rightarrow> 'o server \<Rightarrow> 'o server" where
  "UpdateHealth healthTCP latencyP95Milli s =
     (if Killed (backend_of s) then s
      else upd_backend (\<lambda>b. b\<lparr>HealthTCP := healthTCP, LatencyP95Milli := latencyP95Milli,
             LastUpdated := eng_now (sv_engine s)\<rparr>) s)"

definition SetHostConfig :: "host_config \<Rightarrow> 'o server \<Rightarrow> 'o server option" where
  "SetHostConfig config s =
     (if sv_started s \<or> Killed (backend_of s) \<or> OfferedPackets (host_Stats (sv_engine s) (processor s)) \<noteq> 0 then None
      else do {
        p \<leftarrow> host_New (sv_engine s) config;
        (e, _) \<leftarrow> host_Stop (sv_engine s, processor s);
        Some ((set_engine e s)\<lparr>processor := p\<rparr>)
      })"

section \<open>Packets and probes\<close>

text \<open>\<open>onReply\<close> is None when it is nil.\<close>

definition HandleProbe :: "nat option \<Rightarrow> 'o server \<Rightarrow> 'o server option" where
  "HandleProbe onReply s =
     (case onReply of
        None \<Rightarrow> Some s
      | Some reply \<Rightarrow>
          if Killed (backend_of s) \<or> \<not> be_Active (backend_of s) then Some s
          else do {
            (e, event) \<leftarrow> ScheduleAfter (sv_engine s) 0 (ProbeReply reply);
            let s = set_engine e s;
            Some (if event \<noteq> 0 then s\<lparr>probeEvents := List.insert event (probeEvents s)\<rparr> else s)
          })"

text \<open>The closure given to the CPU, run when the packet has been processed.\<close>

definition deliver :: "(nat \<Rightarrow> bool) \<Rightarrow> packet \<times> nat option \<Rightarrow> 'o server \<Rightarrow> 'o server option" where
  "deliver env work s =
     (case work of (pkt, valid) \<Rightarrow>
        if Killed (backend_of s) \<or> \<not> be_Active (backend_of s) \<or> (case valid of None \<Rightarrow> False | Some v \<Rightarrow> \<not> env v)
        then Some s
        else on_transport (HandlePacket server_callbacks pkt)
               (s\<lparr>NumberOfHandledPackets := u32 (NumberOfHandledPackets s + 1)\<rparr>))"

definition HandlePacketIf :: "(nat \<Rightarrow> bool) \<Rightarrow> packet \<Rightarrow> nat option \<Rightarrow> 'o server \<Rightarrow> 'o server option" where
  "HandlePacketIf env pkt valid s =
     (if Killed (backend_of s) \<or> \<not> be_Active (backend_of s) \<or> Protocol (Key pkt) \<noteq> TCP then Some s
      else do {
        (e, p, now, _) \<leftarrow> host_Submit CPUDone (pkt, valid) (sv_engine s, processor s);
        let s = (set_engine e s)\<lparr>processor := p\<rparr>;
        (case now of None \<Rightarrow> Some s | Some work \<Rightarrow> deliver env work s)
      })"

definition sv_HandlePacket :: "(nat \<Rightarrow> bool) \<Rightarrow> packet \<Rightarrow> 'o server \<Rightarrow> 'o server option" where
  "sv_HandlePacket env pkt s = HandlePacketIf env pkt None s"

text \<open>
  One of the server's events is run.  The result also has the reply that a probe calls.  The variable
  \<open>event\<close> that the probe's closure captures holds the identifier of the event itself.
\<close>

definition sv_fire :: "(nat \<Rightarrow> bool) \<Rightarrow> 'o server_event event \<Rightarrow> 'o server \<Rightarrow> ('o server \<times> nat option) option" where
  "sv_fire env x s =
     (case ev_callback x of
        TCPTimer t \<Rightarrow> do { s \<leftarrow> on_transport (fire server_callbacks t) s; Some (s, None) }
      | CPUDone p \<Rightarrow> do {
          (e, h, work) \<leftarrow> host_complete CPUDone p (sv_engine s, processor s);
          let s = (set_engine e s)\<lparr>processor := h\<rparr>;
          s \<leftarrow> (case work of None \<Rightarrow> Some s | Some w \<Rightarrow> deliver env w s);
          Some (s, None)
        }
      | ProbeReply reply \<Rightarrow>
          let s = s\<lparr>probeEvents := removeAll (ev_id x) (probeEvents s)\<rparr>
          in Some (s, if \<not> Killed (backend_of s) \<and> be_Active (backend_of s) then Some reply else None)
      | Elsewhere _ \<Rightarrow> Some (s, None))"

section \<open>Observations\<close>

definition Score :: "'o server \<Rightarrow> f64" where
  "Score s =
     (if \<not> IsHealthy (backend_of s) then Inf False
      else f64_div (f64_of_int (int (LatencyP95Milli (backend_of s)))) (f64_of_int (max 1 (Weight s))))"

record server_state =
  ss_ID :: string
  ss_Name :: string
  ss_Address :: string
  ss_Port :: nat
  ss_Active :: bool
  ss_ActiveConnections :: nat
  ss_HalfOpenConnections :: nat
  ss_LatencyP95Milli :: nat
  ss_NumberOfHandledPackets :: nat
  ReceivedPayloadBytes :: nat
  CpuUsage :: f64
  ss_Host :: host_stats
  ss_ECN :: ecn_state
  ss_ACK :: ack_state

definition GetState :: "'o server \<Rightarrow> server_state" where
  "GetState s =
     (let processing = host_Stats (sv_engine s) (processor s); b = backend_of s in
      \<lparr>ss_ID = sv_ID s, ss_Name = sv_Name s, ss_Address = sv_Address s, ss_Port = sv_Port s,
       ss_Active = be_Active b, ss_ActiveConnections = ActiveConnections b,
       ss_HalfOpenConnections = HalfOpenConnections b, ss_LatencyP95Milli = LatencyP95Milli b,
       ss_NumberOfHandledPackets = NumberOfHandledPackets s,
       ReceivedPayloadBytes = receivedPayloadBytes (transport s), CpuUsage = Utilization processing,
       ss_Host = processing, ss_ECN = GetECNState (transport s), ss_ACK = rc_ackState (transport s)\<rparr>)"

end
