(* ===== verification/ServerRun.thy ===== *)
theory ServerRun
  imports Server
begin

text \<open>
  The backend is the host of its receiver: its callbacks keep the contract of the locale
  \<open>receiver_host\<close>.  Every operation and event of a server keeps the invariant \<open>sv_inv\<close>, which joins
  those of the receiver and of the CPU.
\<close>

section \<open>What the callbacks keep\<close>

text \<open>The fields that no callback of the transport changes.\<close>

definition static :: "backend \<Rightarrow> backend" where
  "static b = b\<lparr>LatencyP95Milli := 0, ActiveConnections := 0, HalfOpenConnections := 0, LastUpdated := 0,
     latencySamples := [], latencyCount := 0, latencyPosition := 0, clock := 0, sentPackets := [],
     observedPayload := []\<rparr>"

definition samples_ok :: "backend \<Rightarrow> bool" where
  "samples_ok b \<longleftrightarrow> length (latencySamples b) = 100 \<and> latencyCount b \<le> 100 \<and> latencyPosition b < 100 \<and>
     (\<forall>x\<in>set (latencySamples b). 0 \<le> x)"

definition backend_ok :: "backend \<Rightarrow> nat \<Rightarrow> nat \<Rightarrow> backend \<Rightarrow> bool" where
  "backend_ok K m n b \<longleftrightarrow> static b = K \<and> ActiveConnections b = m \<and> HalfOpenConnections b = n \<and>
     (be_MaxConnections b = 0 \<or> m \<le> be_MaxConnections b) \<and> (MaxHalfOpen b = 0 \<or> n \<le> MaxHalfOpen b) \<and>
     (\<forall>p\<in>set (sentPackets b). reply_ok p) \<and> (\<forall>k\<in>set (observedPayload b). 0 < k) \<and> samples_ok b"

lemma static_simps [simp]:
  "static (b\<lparr>clock := t\<rparr>) = static b" "static (b\<lparr>sentPackets := ps\<rparr>) = static b"
  "static (b\<lparr>observedPayload := ks\<rparr>) = static b" "static (b\<lparr>LatencyP95Milli := v\<rparr>) = static b"
  "static (b\<lparr>ActiveConnections := m\<rparr>) = static b" "static (b\<lparr>HalfOpenConnections := n\<rparr>) = static b"
  "static (b\<lparr>LastUpdated := t\<rparr>) = static b" "static (b\<lparr>latencySamples := xs\<rparr>) = static b"
  "static (b\<lparr>latencyCount := n\<rparr>) = static b" "static (b\<lparr>latencyPosition := n\<rparr>) = static b"
  by (simp_all add: static_def)

lemma samples_ok_simps [simp]:
  "samples_ok (b\<lparr>clock := t\<rparr>) = samples_ok b" "samples_ok (b\<lparr>sentPackets := ps\<rparr>) = samples_ok b"
  "samples_ok (b\<lparr>observedPayload := ks\<rparr>) = samples_ok b" "samples_ok (b\<lparr>LatencyP95Milli := v\<rparr>) = samples_ok b"
  "samples_ok (b\<lparr>ActiveConnections := m\<rparr>) = samples_ok b" "samples_ok (b\<lparr>HalfOpenConnections := n\<rparr>) = samples_ok b"
  "samples_ok (b\<lparr>LastUpdated := t\<rparr>) = samples_ok b"
  by (simp_all add: samples_ok_def)

lemma clock_backend_ok [simp]: "backend_ok K m n (b\<lparr>clock := t\<rparr>) = backend_ok K m n b"
  by (simp add: backend_ok_def)

lemma recordConnectionLatency_shape:
  "\<exists>v. recordConnectionLatency d b =
     b\<lparr>latencySamples := (latencySamples b)[latencyPosition b := go_div d ms],
      latencyPosition := (latencyPosition b + 1) mod length (latencySamples b),
      latencyCount := (if latencyCount b < length (latencySamples b) then latencyCount b + 1 else latencyCount b),
      LatencyP95Milli := v\<rparr>"
  unfolding recordConnectionLatency_def Let_def length_list_update by (rule exI) (rule refl)

lemma recordConnectionLatency_frame:
  "static (recordConnectionLatency d b) = static b"
  "ActiveConnections (recordConnectionLatency d b) = ActiveConnections b"
  "HalfOpenConnections (recordConnectionLatency d b) = HalfOpenConnections b"
  "be_MaxConnections (recordConnectionLatency d b) = be_MaxConnections b"
  "MaxHalfOpen (recordConnectionLatency d b) = MaxHalfOpen b"
  "sentPackets (recordConnectionLatency d b) = sentPackets b"
  "observedPayload (recordConnectionLatency d b) = observedPayload b"
  using recordConnectionLatency_shape [of d b] by auto

lemma go_div_nonneg: "0 \<le> d \<Longrightarrow> 0 < k \<Longrightarrow> 0 \<le> go_div d k"
  by (auto simp: go_div_def sgn_if pos_imp_zdiv_nonneg_iff)

lemma recordConnectionLatency_samples:
  assumes "samples_ok b" "0 \<le> d"
  shows "samples_ok (recordConnectionLatency d b)"
proof -
  have m: "0 \<le> go_div d ms" using assms(2) by (rule go_div_nonneg) (simp add: ms_def)
  then have "0 \<le> x" if "x \<in> set ((latencySamples b)[latencyPosition b := go_div d ms])" for x
    using that assms(1) set_update_subset_insert [of "latencySamples b" "latencyPosition b" "go_div d ms"]
    by (auto simp: samples_ok_def)
  then show ?thesis using assms(1) recordConnectionLatency_shape [of d b] by (auto simp: samples_ok_def)
qed

interpretation sv: receiver_host server_callbacks "backend_ok K" for K
proof
  show "inj (timerEvent server_callbacks)" by (simp add: server_callbacks_def inj_def)
  fix m n H p
  assume a: "backend_ok K m n H" "reply_ok p"
  then show "backend_ok K m n (Send server_callbacks p H)"
    by (auto simp: server_callbacks_def sv_emit_def backend_ok_def)
next
  fix m n H
  assume "backend_ok K m n H" "CanOpen server_callbacks H"
  then show "backend_ok K m (Suc n) (OnConnectionCounts server_callbacks m (Suc n) H)"
    by (auto simp: server_callbacks_def sv_CanOpen_def sv_OnConnectionCounts_def backend_ok_def Let_def)
next
  fix m n H
  assume "backend_ok K m (Suc n) H" "CanEstablish server_callbacks H"
  then show "backend_ok K (Suc m) n (OnConnectionCounts server_callbacks (Suc m) n H)"
    by (auto simp: server_callbacks_def sv_CanEstablish_def sv_OnConnectionCounts_def backend_ok_def)
next
  fix m n H
  assume "backend_ok K (Suc m) n H"
  then show "backend_ok K m n (OnConnectionCounts server_callbacks m n H)"
    by (auto simp: server_callbacks_def sv_OnConnectionCounts_def backend_ok_def)
next
  fix m n H
  assume "backend_ok K m (Suc n) H"
  then show "backend_ok K m n (OnConnectionCounts server_callbacks m n H)"
    by (auto simp: server_callbacks_def sv_OnConnectionCounts_def backend_ok_def)
next
  fix m n H k
  assume "backend_ok K m n H" "0 < (k :: int)"
  then show "backend_ok K m n (OnPayloadReceived server_callbacks k H)"
    by (auto simp: server_callbacks_def sv_OnPayloadReceived_def backend_ok_def)
next
  fix m n H d
  assume "backend_ok K m n H" "0 \<le> (d :: duration)"
  then show "backend_ok K m n (OnPeerFIN server_callbacks d H)"
    using recordConnectionLatency_samples [of H d]
    by (simp add: server_callbacks_def backend_ok_def recordConnectionLatency_frame)
qed

section \<open>The CPU's completions\<close>

text \<open>
  A pending completion is that of an active packet, and a pending probe is in the set of probes.  The
  packets inside the CPU have the types of their fields.
\<close>

definition cpu_linked :: "'o server_event engine \<Rightarrow> (packet \<times> nat option) host \<Rightarrow> bool" where
  "cpu_linked e h \<longleftrightarrow>
     (\<forall>x\<in>pending e. \<forall>p. ev_callback x = CPUDone p \<longrightarrow> (\<exists>w. (p, w) \<in> set (h_active h) \<and> completion w = ev_id x)) \<and>
     (\<forall>w\<in>snd ` set (h_active h) \<union> set (sq_list (h_queue h)). Seq (fst (onProcessed w)) \<le> max_u64)"

definition probes_linked :: "'o server_event engine \<Rightarrow> nat list \<Rightarrow> bool" where
  "probes_linked e ps \<longleftrightarrow> (\<forall>x\<in>pending e. \<forall>f. ev_callback x = ProbeReply f \<longrightarrow> ev_id x \<in> set ps)"

definition cpu_events :: "'o server_event set" where
  "cpu_events = range CPUDone"

lemma cpu_linked_start:
  assumes e: "eng_inv e" and l: "cpu_linked e h"
    and s: "ScheduleAfter e d (CPUDone (h_nextPtr h)) = Some (e', i)"
    and a: "h_active h' = (h_nextPtr h, w\<lparr>completion := i\<rparr>) # h_active h" and q: "h_queue h' = h_queue h"
    and w: "Seq (fst (onProcessed w)) \<le> max_u64"
  shows "cpu_linked e' h' \<and> own_api cpu_events e e'"
proof -
  have own: "own_api cpu_events e e'" by (rule own_api_ScheduleAfter [OF e s]) (simp add: cpu_events_def)
  have "\<exists>v. (p, v) \<in> set (h_active h') \<and> completion v = ev_id x"
    if x: "x \<in> pending e'" "ev_callback x = CPUDone p" for x p
  proof (cases "x \<in> pending e")
    case True
    then obtain v where "(p, v) \<in> set (h_active h)" "completion v = ev_id x" using l x(2) unfolding cpu_linked_def by blast
    then show ?thesis using a by auto
  next
    case False
    then have i: "i \<noteq> 0" using ScheduleAfter_zero [OF e] s x(1) by metis
    from ScheduleAfter_inv [OF e s i] x False have "ev_id x = i" "ev_callback x = CPUDone (h_nextPtr h)" by auto
    then show ?thesis using a x(2) by auto
  qed
  then show ?thesis using l own a q w by (auto simp: cpu_linked_def)
qed

lemma Submit_cpu:
  assumes e: "eng_inv e" and h: "host_inv e h" and l: "cpu_linked e h" and n: "next_id e < max_u64"
    and w: "Seq (fst work) \<le> max_u64"
  shows "\<exists>e' h' now ok. host_Submit CPUDone work (e, h) = Some (e', h', now, ok) \<and> host_inv e' h' \<and>
    eng_inv e' \<and> own_api cpu_events e e' \<and> cpu_linked e' h' \<and> h_stopped h' = h_stopped h \<and>
    (now = None \<or> now = Some work) \<and> next_id e' \<le> next_id e + 1"
proof -
  obtain e' h' now ok where s: "host_Submit CPUDone work (e, h) = Some (e', h', now, ok)" "host_inv e' h'"
    "eng_inv e'" using host_Submit_inv [OF e h n] by blast
  show ?thesis
  proof (cases "\<not> h_stopped h \<and> PacketProcessingTime (h_config h) \<noteq> 0 \<and>
      int (length (h_active h)) < Cores (h_config h)")
    case False
    have f: "e' = e" "h_active h' = h_active h" "h_stopped h' = h_stopped h" "now = None \<or> now = Some work"
      "h_queue h' = h_queue h \<or> h_queue h' = sq_append \<lparr>queuedAt = eng_now e, onProcessed = work, completion = 0\<rparr> (h_queue h)"
      using s(1) False by (auto simp: host_Submit_def Let_def split: if_splits)
    have "set (sq_list (h_queue h')) \<subseteq>
        insert \<lparr>queuedAt = eng_now e, onProcessed = work, completion = 0\<rparr> (set (sq_list (h_queue h)))"
      using f(5) h by (auto simp: host_inv_with_def)
    then have "cpu_linked e' h'" using l w f(1,2) unfolding cpu_linked_def by fastforce
    then show ?thesis using s f(1,3,4) own_api_refl by auto
  next
    case True
    let ?w = "\<lparr>queuedAt = eng_now e, onProcessed = work, completion = 0\<rparr>"
    let ?st = "(h_stats h)\<lparr>OfferedPackets := OfferedPackets (h_stats h) + 1\<rparr>"
    let ?h = "h\<lparr>h_stats := ?st\<lparr>AcceptedPackets := AcceptedPackets ?st + 1\<rparr>\<rparr>"
    have "host_inv_with [?w] e ?h" using h True by (auto simp: host_inv_with_def host_queued_def)
    from host_start_inv [OF e this n, of CPUDone]
    obtain e2 h2 i where st: "host_start CPUDone ?w (e, ?h) = Some (e2, h2)"
      "ScheduleAfter e (PacketProcessingTime (h_config h)) (CPUDone (h_nextPtr h)) = Some (e2, i)"
      "h_active h2 = (h_nextPtr h, ?w\<lparr>completion := i\<rparr>) # h_active h" "h_queue h2 = h_queue h"
      "h_stopped h2 = h_stopped h" by auto
    have r: "e' = e2" "h' = h2" "now = None" using s(1) True st(1) by (auto simp: host_Submit_def Let_def)
    have "cpu_linked e2 h2 \<and> own_api cpu_events e e2"
      by (rule cpu_linked_start [OF e l st(2,3,4)]) (simp add: w)
    then show ?thesis using s r st(5) ScheduleAfter_next_id [OF e st(2)] by auto
  qed
qed

lemma host_start_stopped: "host_start wrap w (e, h) = Some (e', h') \<Longrightarrow> h_stopped h' = h_stopped h"
  by (auto simp: host_start_def accountBusyTime_def Let_def split: Option.bind_splits)

lemma host_complete_stopped:
  assumes "host_complete wrap p (e, h) = Some (e', h', now)"
  shows "h_stopped h' = h_stopped h"
proof (cases "map_of (h_active h) p")
  case None
  then show ?thesis using assms by (simp add: host_complete_def)
next
  case (Some work)
  define m where "m = (accountBusyTime e h)\<lparr>h_active := filter (\<lambda>(r, _). r \<noteq> p) (h_active (accountBusyTime e h)),
    h_stats := (h_stats (accountBusyTime e h))\<lparr>ProcessedPackets := ProcessedPackets (h_stats (accountBusyTime e h)) + 1\<rparr>\<rparr>"
  have m: "h_stopped m = h_stopped h" by (simp add: m_def accountBusyTime_def)
  have unf: "host_complete wrap p (e, h) = (if 0 < host_queued m then
      do { (w, h') \<leftarrow> host_pop m; (e'', h'') \<leftarrow> host_start wrap w (e, h'); Some (e'', h'', Some (onProcessed work)) }
      else Some (e, m, Some (onProcessed work)))"
    using Some by (simp add: host_complete_def Let_def m_def)
  show ?thesis
  proof (cases "0 < host_queued m")
    case True
    then obtain w h1 where p: "host_pop m = Some (w, h1)" "host_start wrap w (e, h1) = Some (e', h')"
      using assms unf by (auto split: Option.bind_splits)
    have "h_stopped h1 = h_stopped m" using p(1) by (auto simp: host_pop_def)
    then show ?thesis using host_start_stopped [OF p(2)] m by simp
  qed (use assms unf m in auto)
qed

lemma complete_cpu:
  assumes e: "eng_inv e" and h: "host_inv e h" and n: "next_id e < max_u64"
    and l: "\<And>x q. x \<in> pending e \<Longrightarrow> ev_callback x = CPUDone q \<Longrightarrow> q \<noteq> p \<and> (\<exists>w. (q, w) \<in> set (h_active h) \<and> completion w = ev_id x)"
    and t: "\<And>w. w \<in> snd ` set (h_active h) \<union> set (sq_list (h_queue h)) \<Longrightarrow> Seq (fst (onProcessed w)) \<le> max_u64"
  shows "\<exists>e' h' now. host_complete CPUDone p (e, h) = Some (e', h', now) \<and> host_inv e' h' \<and>
    eng_inv e' \<and> own_api cpu_events e e' \<and> cpu_linked e' h' \<and> h_stopped h' = h_stopped h \<and>
    (\<forall>work. now = Some work \<longrightarrow> Seq (fst work) \<le> max_u64) \<and> next_id e' \<le> next_id e + 1"
proof (cases "map_of (h_active h) p")
  case None
  have "cpu_linked e h" using l t by (auto simp: cpu_linked_def)
  then show ?thesis using None assms(1,2) own_api_refl by (auto simp: host_complete_def)
next
  case (Some work)
  have tw: "Seq (fst (onProcessed work)) \<le> max_u64" using t map_of_SomeD [OF Some] by force
  obtain e' h' where c: "host_complete CPUDone p (e, h) = Some (e', h', Some (onProcessed work))" "host_inv e' h'"
    "eng_inv e'" and q: "case sq_list (h_queue h) of
       [] \<Rightarrow> e' = e \<and> h_active h' = filter (\<lambda>(r, _). r \<noteq> p) (h_active h) \<and>
             sq_list (h_queue h') = [] \<and> h_nextPtr h' = h_nextPtr h
     | w # ws \<Rightarrow> sq_list (h_queue h') = ws \<and> h_nextPtr h' = h_nextPtr h + 1 \<and>
         (\<exists>i. ScheduleAfter e (PacketProcessingTime (h_config h)) (CPUDone (h_nextPtr h)) = Some (e', i) \<and>
              h_active h' = (h_nextPtr h, w\<lparr>completion := i\<rparr>) # filter (\<lambda>(r, _). r \<noteq> p) (h_active h))"
    using host_complete_inv [OF e h n Some] by blast
  have st: "h_stopped h' = h_stopped h" using host_complete_stopped [OF c(1)] .
  have typed: "\<forall>w\<in>snd ` set (filter (\<lambda>(r, _). r \<noteq> p) (h_active h)) \<union> set (sq_list (h_queue h)).
      Seq (fst (onProcessed w)) \<le> max_u64" using t by auto
  have kept: "\<exists>w. (r, w) \<in> set (filter (\<lambda>(r, _). r \<noteq> p) (h_active h)) \<and> completion w = ev_id x"
    if "x \<in> pending e" "ev_callback x = CPUDone r" for x r
    using l [OF that] by auto
  show ?thesis
  proof (cases "sq_list (h_queue h)")
    case Nil
    then have f: "e' = e" "h_active h' = filter (\<lambda>(r, _). r \<noteq> p) (h_active h)" "sq_list (h_queue h') = []"
      using q by simp_all
    have "cpu_linked e' h'" unfolding cpu_linked_def f using kept typed by simp
    then show ?thesis using c st tw f(1) own_api_refl by auto
  next
    case (Cons w ws)
    define m where "m = h\<lparr>h_active := filter (\<lambda>(r, _). r \<noteq> p) (h_active h), h_queue := h_queue h'\<rparr>"
    have mh: "h_nextPtr m = h_nextPtr h" "h_queue h' = h_queue m" "h_active m = filter (\<lambda>(r, _). r \<noteq> p) (h_active h)"
      by (simp_all add: m_def)
    from q obtain i where
      s0: "ScheduleAfter e (PacketProcessingTime (h_config h)) (CPUDone (h_nextPtr h)) = Some (e', i)"
        "h_active h' = (h_nextPtr h, w\<lparr>completion := i\<rparr>) # filter (\<lambda>(r, _). r \<noteq> p) (h_active h)"
        "sq_list (h_queue h') = ws" unfolding Cons list.case by blast
    note s = s0(1,2) [folded mh(1,3)] mh(2) s0(3)
    have m: "h_active m = filter (\<lambda>(r, _). r \<noteq> p) (h_active h)" "sq_list (h_queue m) = ws"
      using s(3,4) by (simp_all add: m_def)
    have "cpu_linked e m" unfolding cpu_linked_def m using kept typed Cons by simp
    then have "cpu_linked e' h' \<and> own_api cpu_events e e'"
      using cpu_linked_start [OF e _ s(1,2,3)] t Cons by auto
    then show ?thesis using c st tw ScheduleAfter_next_id [OF e s(1)] by auto
  qed
qed

end
