(* ===== verification/ServerOps.thy ===== *)
theory ServerOps
  imports ServerRun
begin

text \<open>
  The invariant \<open>sv_inv\<close> of a server, and its preservation by the operations: packets through the CPU,
  probes, failure, configuration and shutdown.
\<close>

section \<open>The invariant\<close>

definition sv_inv :: "'o server \<Rightarrow> bool" where
  "sv_inv s \<longleftrightarrow>
     rc_inv server_callbacks (backend_ok (static (backend_of s))) (transport s) \<and>
     host_inv (sv_engine s) (processor s) \<and> cpu_linked (sv_engine s) (processor s) \<and>
     probes_linked (sv_engine s) (probeEvents s) \<and>
     (Killed (backend_of s) \<longleftrightarrow> rc_stopped (transport s)) \<and>
     (Killed (backend_of s) \<longrightarrow> connections (transport s) = []) \<and>
     (h_stopped (processor s) \<longrightarrow> Killed (backend_of s) \<and> h_active (processor s) = [])"

lemma sv_sel [simp]:
  "sv_engine (set_engine e s) = e" "processor (set_engine e s) = processor s"
  "probeEvents (set_engine e s) = probeEvents s" "backend_of (set_engine e s) = backend_of s"
  "transport (set_engine e s) = (transport s)\<lparr>rc_engine := e\<rparr>" "sv_started (set_engine e s) = sv_started s"
  "sv_engine (upd_backend f s) = sv_engine s" "processor (upd_backend f s) = processor s"
  "probeEvents (upd_backend f s) = probeEvents s" "backend_of (upd_backend f s) = f (backend_of s)"
  "transport (upd_backend f s) = (transport s)\<lparr>rc_host := f (backend_of s)\<rparr>" "sv_started (upd_backend f s) = sv_started s"
  "sv_engine (s\<lparr>processor := p\<rparr>) = sv_engine s" "backend_of (s\<lparr>processor := p\<rparr>) = backend_of s"
  "sv_engine (s\<lparr>probeEvents := ps\<rparr>) = sv_engine s" "backend_of (s\<lparr>probeEvents := ps\<rparr>) = backend_of s"
  "sv_engine (s\<lparr>NumberOfHandledPackets := n\<rparr>) = sv_engine s" "backend_of (s\<lparr>NumberOfHandledPackets := n\<rparr>) = backend_of s"
  "sv_engine (s\<lparr>sv_started := b\<rparr>) = sv_engine s" "backend_of (s\<lparr>sv_started := b\<rparr>) = backend_of s"
  "sv_engine (s\<lparr>transport := r\<rparr>) = rc_engine r" "backend_of (s\<lparr>transport := r\<rparr>) = rc_host r"
  by (simp_all add: sv_engine_def set_engine_def backend_of_def upd_backend_def)

lemma sv_invD:
  assumes "sv_inv s"
  shows "rc_inv server_callbacks (backend_ok (static (backend_of s))) (transport s)"
    "eng_inv (sv_engine s)" "host_inv (sv_engine s) (processor s)" "cpu_linked (sv_engine s) (processor s)"
    "probes_linked (sv_engine s) (probeEvents s)" "Killed (backend_of s) = rc_stopped (transport s)"
    "Killed (backend_of s) \<Longrightarrow> connections (transport s) = []"
    "h_stopped (processor s) \<Longrightarrow> Killed (backend_of s)"
    "h_stopped (processor s) \<Longrightarrow> h_active (processor s) = []"
    "backend_ok (static (backend_of s)) (activeConnections (transport s)) (halfOpenConnections (transport s)) (backend_of s)"
proof -
  show i: "rc_inv server_callbacks (backend_ok (static (backend_of s))) (transport s)"
    "host_inv (sv_engine s) (processor s)" "cpu_linked (sv_engine s) (processor s)"
    "probes_linked (sv_engine s) (probeEvents s)" "Killed (backend_of s) = rc_stopped (transport s)"
    "Killed (backend_of s) \<Longrightarrow> connections (transport s) = []"
    "h_stopped (processor s) \<Longrightarrow> Killed (backend_of s)"
    "h_stopped (processor s) \<Longrightarrow> h_active (processor s) = []"
    using assms unfolding sv_inv_def by blast+
  show "eng_inv (sv_engine s)" using i(1) by (simp add: rc_inv_def rc_eng_def sv_engine_def)
  show "backend_ok (static (backend_of s)) (activeConnections (transport s)) (halfOpenConnections (transport s)) (backend_of s)"
    using rc_counts_P [OF rc_invD(2) [OF i(1)]] by (simp add: backend_of_def)
qed

lemma own_tcp: "own_events server_callbacks e = {x \<in> pending e. ev_callback x \<in> range TCPTimer}"
  by (auto simp: own_events_def server_callbacks_def)

lemma timer_range: "range (timerEvent server_callbacks) = range TCPTimer"
  by (simp add: server_callbacks_def)

lemma own_api_frame:
  assumes "own_api T e e'" "eng_inv e"
  shows "eng_inv e'" "eng_now e' = eng_now e" "end_time e' = end_time e" "next_id e \<le> next_id e'"
    "x \<in> pending e' \<Longrightarrow> x \<in> pending e \<or> ev_callback x \<in> T"
  using assms api_keeps [of e e'] by (auto simp: own_api_def)

lemma cpu_linked_own: "own_api T e e' \<Longrightarrow> T \<inter> range CPUDone = {} \<Longrightarrow> cpu_linked e h \<Longrightarrow> cpu_linked e' h"
  unfolding cpu_linked_def own_api_def by blast

lemma probes_linked_own: "own_api T e e' \<Longrightarrow> T \<inter> range ProbeReply = {} \<Longrightarrow> probes_linked e ps \<Longrightarrow> probes_linked e' ps"
  unfolding probes_linked_def own_api_def by blast

section \<open>Steps of the parts\<close>

definition sv_steps :: "nat \<Rightarrow> 'o server \<Rightarrow> 'o server \<Rightarrow> bool" where
  "sv_steps n s s' \<longleftrightarrow> sv_inv s' \<and> next_id (sv_engine s') \<le> next_id (sv_engine s) + n \<and>
     eng_now (sv_engine s') = eng_now (sv_engine s) \<and> static (backend_of s') = static (backend_of s)"

text \<open>The static part of a backend decides what the other part may be.\<close>

lemma static_sel: "static b = static b' \<Longrightarrow> Killed b = Killed b' \<and> be_Active b = be_Active b' \<and>
    be_MaxConnections b = be_MaxConnections b' \<and> MaxHalfOpen b = MaxHalfOpen b'"
  by (cases b; cases b') (simp add: static_def)

lemma backend_ok_static: "backend_ok K m n b \<Longrightarrow> static b = K"
  by (simp add: backend_ok_def)

lemma transport_step:
  assumes s: "sv_inv s"
    and f: "f ((transport s)\<lparr>rc_host := (backend_of s)\<lparr>clock := eng_now (sv_engine s)\<rparr>\<rparr>) = Some r'"
    and r': "ends server_callbacks (backend_ok (static (backend_of s))) n
      ((transport s)\<lparr>rc_host := (backend_of s)\<lparr>clock := eng_now (sv_engine s)\<rparr>\<rparr>) r'"
    and k: "Killed (backend_of s) \<Longrightarrow> connections r' = []"
  shows "on_transport f s = Some (s\<lparr>transport := r'\<rparr>)" "sv_steps n s (s\<lparr>transport := r'\<rparr>)"
proof -
  show "on_transport f s = Some (s\<lparr>transport := r'\<rparr>)"
    using f by (simp add: on_transport_def sv_engine_def backend_of_def)
  let ?K = "static (backend_of s)"
  have i: "rc_inv server_callbacks (backend_ok ?K) r'" "rc_stopped r' = rc_stopped (transport s)"
    "next_id (rc_engine r') \<le> next_id (sv_engine s) + n" "own_api (range TCPTimer) (sv_engine s) (rc_engine r')"
    using r' by (simp_all add: ends_def timer_range sv_engine_def)
  note fr = own_api_frame [OF i(4) sv_invD(2) [OF s]]
  have st: "static (rc_host r') = ?K"
    using i(1) by (auto simp: rc_inv_def dest!: rc_counts_P backend_ok_static)
  have "host_inv (rc_engine r') (processor s)" using host_inv_frame [OF sv_invD(3) [OF s] fr(2,3)] .
  moreover have "cpu_linked (rc_engine r') (processor s)"
    by (rule cpu_linked_own [OF i(4) _ sv_invD(4) [OF s]]) auto
  moreover have "probes_linked (rc_engine r') (probeEvents s)"
    by (rule probes_linked_own [OF i(4) _ sv_invD(5) [OF s]]) auto
  ultimately have "sv_inv (s\<lparr>transport := r'\<rparr>)"
    using i(1,2) k st static_sel [OF st] sv_invD(6,8,9) [OF s] by (simp add: sv_inv_def)
  then show "sv_steps n s (s\<lparr>transport := r'\<rparr>)" using i(3) fr(2) st by (simp add: sv_steps_def)
qed

text \<open>The receiver before such a step is in order.\<close>

lemma transport_ready:
  assumes "sv_inv s"
  shows "rc_inv server_callbacks (backend_ok (static (backend_of s)))
    ((transport s)\<lparr>rc_host := (backend_of s)\<lparr>clock := t\<rparr>\<rparr>)"
  using sv.world_ok [OF sv_invD(1) [OF assms], of "rc_engine (transport s)" "(backend_of s)\<lparr>clock := t\<rparr>"]
    sv_invD(2,10) [OF assms] by (simp add: sv_engine_def)

text \<open>The engine changes by calls of the CPU or of probes, or by time and other events.\<close>

lemma engine_step:
  assumes s: "sv_inv s" and e: "eng_inv e" "own_events server_callbacks e \<subseteq> own_events server_callbacks (sv_engine s)"
    "eng_now (sv_engine s) \<le> eng_now e"
    and h: "host_inv e p" "cpu_linked e p" "probes_linked e ps"
      "h_stopped p \<Longrightarrow> Killed (backend_of s)" "h_stopped p \<Longrightarrow> h_active p = []"
  shows "sv_inv ((set_engine e s)\<lparr>processor := p, probeEvents := ps\<rparr>)"
proof -
  have "rc_inv server_callbacks (backend_ok (static (backend_of s))) ((transport s)\<lparr>rc_engine := e\<rparr>)"
    using sv.world_ok [OF sv_invD(1) [OF s] e(1), of "backend_of s"] e(2,3) sv_invD(10) [OF s]
    by (simp add: sv_engine_def backend_of_def)
  then show ?thesis using h sv_invD(6,7) [OF s] by (simp add: sv_inv_def)
qed

lemma backend_step:
  assumes s: "sv_inv s" and k: "Killed (f (backend_of s)) = Killed (backend_of s)"
    and b: "backend_ok (static (f (backend_of s))) (activeConnections (transport s))
      (halfOpenConnections (transport s)) (f (backend_of s))"
  shows "sv_inv (upd_backend f s)"
proof -
  have "rc_counts (backend_ok (static (f (backend_of s)))) (transport s\<lparr>rc_host := f (backend_of s)\<rparr>)"
    using rc_invD(2) [OF sv_invD(1) [OF s]] b by (simp add: rc_counts_def conn_def)
  then have "rc_inv server_callbacks (backend_ok (static (f (backend_of s)))) (transport s\<lparr>rc_host := f (backend_of s)\<rparr>)"
    using sv_invD(1) [OF s] by (simp add: rc_inv_def sv.host_change)
  then show ?thesis using sv_invD [OF s] k by (simp add: sv_inv_def)
qed

section \<open>Packets\<close>

definition sv_room :: "'o server \<Rightarrow> bool" where
  "sv_room s \<longleftrightarrow> next_id (sv_engine s) + 8 \<le> max_u64 \<and> Suc (length (rc_store (transport s))) < 4294967296"

lemma sv_steps_trans: "sv_steps n s s' \<Longrightarrow> sv_steps m s' s'' \<Longrightarrow> sv_steps (n + m) s s''"
  by (simp add: sv_steps_def)

lemma sv_steps_weaken: "sv_steps n s s' \<Longrightarrow> n \<le> m \<Longrightarrow> sv_steps m s s'"
  by (simp add: sv_steps_def)

lemma sv_steps_refl: "sv_inv s \<Longrightarrow> sv_steps n s s"
  by (simp add: sv_steps_def)

lemma deliver_ok:
  assumes s: "sv_inv s" and n: "next_id (sv_engine s) + 6 \<le> max_u64"
    and room: "Suc (length (rc_store (transport s))) < 4294967296" and w: "Seq (fst work) \<le> max_u64"
  shows "\<exists>s'. deliver env work s = Some s' \<and> sv_steps 4 s s'"
proof -
  obtain pkt valid where work: "work = (pkt, valid)" by (cases work)
  let ?skip = "Killed (backend_of s) \<or> \<not> be_Active (backend_of s) \<or> (case valid of None \<Rightarrow> False | Some v \<Rightarrow> \<not> env v)"
  show ?thesis
  proof (cases ?skip)
    case True
    then show ?thesis using sv_steps_refl [OF s] by (simp add: deliver_def work)
  next
    case False
    let ?s = "s\<lparr>NumberOfHandledPackets := u32 (NumberOfHandledPackets s + 1)\<rparr>"
    let ?r = "(transport ?s)\<lparr>rc_host := (backend_of ?s)\<lparr>clock := eng_now (sv_engine ?s)\<rparr>\<rparr>"
    have s1: "sv_inv ?s" using sv_invD(1,3-9) [OF s] by (simp add: sv_inv_def)
    have n1: "ids 6 ?r" using n by (simp add: ids_def sv_engine_def)
    obtain r' where "HandlePacket server_callbacks pkt ?r = Some r'"
      "ends server_callbacks (backend_ok (static (backend_of ?s))) 4 ?r r'"
      using sv.HandlePacket_ok [OF transport_ready [OF s1] n1, of pkt] room w work by auto
    from transport_step [where f = "HandlePacket server_callbacks pkt", OF s1 this] False
    have "on_transport (HandlePacket server_callbacks pkt) ?s = Some (?s\<lparr>transport := r'\<rparr>)"
      "sv_steps 4 ?s (?s\<lparr>transport := r'\<rparr>)" by auto
    moreover from this(2) have "sv_steps 4 s (?s\<lparr>transport := r'\<rparr>)" by (simp add: sv_steps_def)
    ultimately show ?thesis using False unfolding deliver_def work by auto
  qed
qed

text \<open>Calls of the CPU.\<close>

lemma cpu_step:
  assumes s: "sv_inv s" and e: "eng_inv e" "own_api cpu_events (sv_engine s) e"
    and h: "host_inv e p" "cpu_linked e p" "h_stopped p = h_stopped (processor s)" "h_stopped p \<Longrightarrow> h_active p = []"
  shows "sv_inv ((set_engine e s)\<lparr>processor := p\<rparr>)"
proof -
  note fr = own_api_frame [OF e(2) sv_invD(2) [OF s]]
  have own: "own_events server_callbacks e \<subseteq> own_events server_callbacks (sv_engine s)"
    by (auto simp: own_tcp cpu_events_def dest!: fr(5))
  have pr: "probes_linked e (probeEvents s)"
    by (rule probes_linked_own [OF e(2) _ sv_invD(5) [OF s]]) (auto simp: cpu_events_def)
  have "sv_inv ((set_engine e s)\<lparr>processor := p, probeEvents := probeEvents s\<rparr>)"
  proof (rule engine_step [OF s e(1) own _ h(1,2) pr])
    show "eng_now (sv_engine s) \<le> eng_now e" using fr(2) by simp
    show "h_stopped p \<Longrightarrow> Killed (backend_of s)" using sv_invD(8) [OF s] h(3) by simp
    show "h_stopped p \<Longrightarrow> h_active p = []" using h(4) .
  qed
  then show ?thesis by (simp add: set_engine_def)
qed

lemma HandlePacketIf_ok:
  assumes s: "sv_inv s" and room: "sv_room s" and w: "Seq pkt \<le> max_u64"
  shows "\<exists>s'. HandlePacketIf env pkt valid s = Some s' \<and> sv_steps 5 s s'"
proof (cases "Killed (backend_of s) \<or> \<not> be_Active (backend_of s) \<or> Protocol (Key pkt) \<noteq> TCP")
  case True
  then show ?thesis using sv_steps_refl [OF s] by (auto simp: HandlePacketIf_def)
next
  case False
  have n: "next_id (sv_engine s) < max_u64" using room by (simp add: sv_room_def)
  obtain e p now ok where c: "host_Submit CPUDone (pkt, valid) (sv_engine s, processor s) = Some (e, p, now, ok)"
    "host_inv e p" "eng_inv e" "own_api cpu_events (sv_engine s) e" "cpu_linked e p"
    "h_stopped p = h_stopped (processor s)" "now = None \<or> now = Some (pkt, valid)" "next_id e \<le> next_id (sv_engine s) + 1"
    using Submit_cpu [OF sv_invD(2,3,4) [OF s] n, of "(pkt, valid)"] w by auto
  let ?s = "(set_engine e s)\<lparr>processor := p\<rparr>"
  have up: "\<not> h_stopped p" using sv_invD(8) [OF s] False c(6) by auto
  have s1: "sv_inv ?s" using cpu_step [OF s c(3,4,2,5,6)] up by simp
  have st: "sv_steps 1 s ?s" using s1 c(8) own_api_frame(2) [OF c(4) sv_invD(2) [OF s]] by (simp add: sv_steps_def)
  have unf: "HandlePacketIf env pkt valid s = (case now of None \<Rightarrow> Some ?s | Some work \<Rightarrow> deliver env work ?s)"
    using False c(1) by (simp add: HandlePacketIf_def Let_def)
  show ?thesis
  proof (cases now)
    case None
    then show ?thesis using unf sv_steps_weaken [OF st] by simp
  next
    case (Some work)
    have "next_id (sv_engine ?s) + 6 \<le> max_u64" using room c(8) by (simp add: sv_room_def)
    then obtain s' where "deliver env work ?s = Some s'" "sv_steps 4 ?s s'"
      using deliver_ok [OF s1, of work env] room w c(7) Some by (auto simp: sv_room_def)
    then show ?thesis using unf Some sv_steps_trans [OF st] by fastforce
  qed
qed

section \<open>Stopping the CPU\<close>

lemma discard_clean:
  assumes s: "sv_inv s" and up: "\<not> h_stopped (processor s)"
  shows "\<exists>e p. host_DiscardPending (sv_engine s, processor s) = Some (e, p) \<and> eng_inv e \<and>
    own_api {} (sv_engine s) e \<and> host_inv e p \<and> \<not> h_stopped p \<and> h_active p = [] \<and> sq_list (h_queue p) = [] \<and>
    (\<forall>x\<in>pending e. ev_callback x \<notin> cpu_events)"
proof -
  obtain e p where d: "host_DiscardPending (sv_engine s, processor s) = Some (e, p)" "eng_inv e" "api (sv_engine s) e"
    "host_inv e p" "h_active p = []" "sq_list (h_queue p) = []" "\<not> h_stopped p"
    "pending e = {x \<in> pending (sv_engine s). ev_id x \<notin> completion ` snd ` set (h_active (processor s))}"
    using host_Discard_inv [OF sv_invD(2,3) [OF s] up] by blast
  have "ev_callback x \<notin> cpu_events" if x: "x \<in> pending e" for x
  proof
    assume "ev_callback x \<in> cpu_events"
    then obtain q where "ev_callback x = CPUDone q" by (auto simp: cpu_events_def)
    moreover have "x \<in> pending (sv_engine s)" using x d(8) by simp
    ultimately obtain w where "(q, w) \<in> set (h_active (processor s))" "completion w = ev_id x"
      using sv_invD(4) [OF s] unfolding cpu_linked_def by blast
    then have "ev_id x \<in> completion ` snd ` set (h_active (processor s))" by force
    then show False using x d(8) by simp
  qed
  moreover have "own_api {} (sv_engine s) e" using d(3,8) by (auto simp: own_api_def)
  ultimately show ?thesis using d by blast
qed

lemma stop_clean:
  assumes s: "sv_inv s" and up: "\<not> h_stopped (processor s)"
  shows "\<exists>e p. host_Stop (sv_engine s, processor s) = Some (e, p) \<and> eng_inv e \<and> own_api {} (sv_engine s) e \<and>
    host_inv e p \<and> h_stopped p \<and> h_active p = [] \<and> sq_list (h_queue p) = [] \<and>
    (\<forall>x\<in>pending e. ev_callback x \<notin> cpu_events)"
proof -
  obtain e p where d: "host_DiscardPending (sv_engine s, processor s) = Some (e, p)" "eng_inv e"
    "own_api {} (sv_engine s) e" "host_inv e p" "h_active p = []" "sq_list (h_queue p) = []"
    "\<forall>x\<in>pending e. ev_callback x \<notin> cpu_events" using discard_clean [OF s up] by blast
  have "host_Stop (sv_engine s, processor s) = Some (e, p\<lparr>h_stopped := True, stoppedAt := eng_now e\<rparr>)"
    using up d(1) by (simp add: host_Stop_def)
  then show ?thesis using d by auto
qed

lemma cpu_linked_empty:
  "h_active p = [] \<Longrightarrow> sq_list (h_queue p) = [] \<Longrightarrow> (\<forall>x\<in>pending e. ev_callback x \<notin> cpu_events) \<Longrightarrow> cpu_linked e p"
  by (auto simp: cpu_linked_def cpu_events_def)

lemma sub_events:
  assumes "own_api {} e e'"
  shows "own_api T e e'" "pending e' \<subseteq> pending e"
  using assms by (auto simp: own_api_def)

lemma MarkFailed_ok:
  assumes s: "sv_inv s"
  shows "\<exists>s'. MarkFailed s = Some s' \<and> sv_inv s'"
proof (cases "Killed (backend_of s)")
  case True
  then show ?thesis using s by (simp add: MarkFailed_def)
next
  case False
  then have up: "\<not> h_stopped (processor s)" using sv_invD(8) [OF s] by blast
  obtain e p where d: "host_DiscardPending (sv_engine s, processor s) = Some (e, p)" "eng_inv e"
    "own_api {} (sv_engine s) e" "host_inv e p" "\<not> h_stopped p" "h_active p = []" "sq_list (h_queue p) = []"
    "\<forall>x\<in>pending e. ev_callback x \<notin> cpu_events" using discard_clean [OF s up] by blast
  let ?s = "(set_engine e s)\<lparr>processor := p\<rparr>"
  have s1: "sv_inv ?s"
    using cpu_step [OF s d(2) sub_events(1) [OF d(3)] d(4) cpu_linked_empty [OF d(6,7,8)]] d(5) up by simp
  let ?f = "\<lambda>b. b\<lparr>be_Active := False, HealthTCP := False, LatencyP95Milli := 4294967295,
    Draining := True, DrainStartedAt := eng_now (sv_engine ?s), LastUpdated := eng_now (sv_engine ?s)\<rparr>"
  have "sv_inv (upd_backend ?f ?s)"
    by (rule backend_step [OF s1]) (use sv_invD(10) [OF s1] in \<open>simp_all add: backend_ok_def samples_ok_def\<close>)
  then show ?thesis using False d(1) by (simp add: MarkFailed_def Let_def)
qed

section \<open>The other operations\<close>

lemma HandleProbe_ok:
  assumes s: "sv_inv s" and room: "sv_room s"
  shows "\<exists>s'. HandleProbe onReply s = Some s' \<and> sv_inv s'"
proof (cases "onReply = None \<or> Killed (backend_of s) \<or> \<not> be_Active (backend_of s)")
  case True
  then show ?thesis using s by (auto simp: HandleProbe_def split: option.split)
next
  case False
  then obtain reply where r: "onReply = Some reply" by (cases onReply) auto
  have n: "next_id (sv_engine s) < max_u64" using room by (simp add: sv_room_def)
  obtain e i where c: "ScheduleAfter (sv_engine s) 0 (ProbeReply reply) = Some (e, i)"
    using ScheduleAfter_Some [OF sv_invD(2) [OF s] _ n, of 0 "ProbeReply reply"] by auto
  have own: "own_api (range ProbeReply) (sv_engine s) e"
    by (rule own_api_ScheduleAfter [OF sv_invD(2) [OF s] c]) simp
  note fr = own_api_frame [OF own sv_invD(2) [OF s]]
  let ?ps = "if i \<noteq> 0 then List.insert i (probeEvents s) else probeEvents s"
  have tcp: "own_events server_callbacks e \<subseteq> own_events server_callbacks (sv_engine s)"
    by (auto simp: own_tcp dest!: fr(5))
  have cpu: "cpu_linked e (processor s)" by (rule cpu_linked_own [OF own _ sv_invD(4) [OF s]]) auto
  have pr: "probes_linked e ?ps"
  proof (cases "i = 0")
    case True
    then have "e = sv_engine s" using ScheduleAfter_zero [OF sv_invD(2) [OF s]] c by blast
    then show ?thesis using True sv_invD(5) [OF s] by simp
  next
    case False
    from ScheduleAfter_inv [OF sv_invD(2) [OF s] c False] sv_invD(5) [OF s] False
    show ?thesis by (auto simp: probes_linked_def)
  qed
  have "sv_inv ((set_engine e s)\<lparr>processor := processor s, probeEvents := ?ps\<rparr>)"
    by (rule engine_step [OF s fr(1) tcp _ host_inv_frame [OF sv_invD(3) [OF s] fr(2,3)] cpu pr sv_invD(8,9) [OF s]])
      (simp_all add: fr(2))
  moreover have "(set_engine e s)\<lparr>processor := processor s, probeEvents := ?ps\<rparr> =
      (if i \<noteq> 0 then (set_engine e s)\<lparr>probeEvents := List.insert i (probeEvents (set_engine e s))\<rparr> else set_engine e s)"
    by (simp add: set_engine_def)
  moreover have "HandleProbe onReply s = Some (if i \<noteq> 0
      then (set_engine e s)\<lparr>probeEvents := List.insert i (probeEvents (set_engine e s))\<rparr> else set_engine e s)"
    using False r c by (simp add: HandleProbe_def Let_def)
  ultimately show ?thesis by (simp only: simp_thms) blast
qed

lemma SetHostConfig_ok:
  assumes s: "sv_inv s" and c: "SetHostConfig config s = Some s'"
  shows "sv_inv s'"
proof -
  have k: "\<not> Killed (backend_of s)" using c by (auto simp: SetHostConfig_def split: if_splits)
  then have up: "\<not> h_stopped (processor s)" using sv_invD(8) [OF s] by blast
  obtain p :: "(packet \<times> nat option) host" where p: "host_New (sv_engine s) config = Some p" using c
    by (auto simp: SetHostConfig_def split: if_splits Option.bind_splits)
  obtain e q where d: "host_Stop (sv_engine s, processor s) = Some (e, q)" "eng_inv e" "own_api {} (sv_engine s) e"
    "\<forall>x\<in>pending e. ev_callback x \<notin> cpu_events" using stop_clean [OF s up] by blast
  have s': "s' = (set_engine e s)\<lparr>processor := p\<rparr>" using c p d(1) by (auto simp: SetHostConfig_def split: if_splits)
  have pp: "h_active p = []" "sq_list (h_queue p) = []" "\<not> h_stopped p"
    using p by (auto simp: host_New_def split: if_splits)
  note fr = own_api_frame [OF d(3) sv_invD(2) [OF s]]
  have "host_inv e p" using host_inv_frame [OF host_New_inv [OF sv_invD(2) [OF s] p] fr(2,3)] .
  then show ?thesis unfolding s'
    using cpu_step [OF s d(2) sub_events(1) [OF d(3)] _ cpu_linked_empty [OF pp(1,2) d(4)]] pp up by simp
qed

text \<open>Stopping the CPU and cancelling the probes leaves only events of the transport and of others.\<close>

lemma halt_ok:
  assumes s: "sv_inv s" and up: "\<not> h_stopped (processor s)"
  shows "\<exists>e p e2. host_Stop (sv_engine s, processor s) = Some (e, p) \<and> cancel_all (probeEvents s) e = Some e2 \<and>
    eng_inv e2 \<and> own_api {} (sv_engine s) e2 \<and> host_inv e2 p \<and> h_stopped p \<and> h_active p = [] \<and>
    sq_list (h_queue p) = [] \<and> (\<forall>x\<in>pending e2. ev_callback x \<notin> cpu_events \<union> range ProbeReply)"
proof -
  obtain e p where d: "host_Stop (sv_engine s, processor s) = Some (e, p)" "eng_inv e" "own_api {} (sv_engine s) e"
    "host_inv e p" "h_stopped p" "h_active p = []" "sq_list (h_queue p) = []"
    "\<forall>x\<in>pending e. ev_callback x \<notin> cpu_events" using stop_clean [OF s up] by blast
  obtain e2 where c: "cancel_all (probeEvents s) e = Some e2" "eng_inv e2" "api e e2"
    "pending e2 = {x \<in> pending e. ev_id x \<notin> set (probeEvents s)}" using ids_cancel_all [OF d(2)] by blast
  note fr2 = api_keeps [OF c(3) d(2)]
  have own: "own_api {} (sv_engine s) e2" using own_api_trans [OF d(3), of e2] c(3,4) by (auto simp: own_api_def)
  have "ev_callback x \<notin> range ProbeReply" if x: "x \<in> pending e2" for x
  proof
    assume "ev_callback x \<in> range ProbeReply"
    moreover have "x \<in> pending (sv_engine s)" "ev_id x \<notin> set (probeEvents s)"
      using x c(4) sub_events(2) [OF d(3)] by auto
    ultimately show False using sv_invD(5) [OF s] by (auto simp: probes_linked_def)
  qed
  moreover have "host_inv e2 p" by (rule host_inv_frame [OF d(4)]) (use fr2 in simp_all)
  ultimately show ?thesis using d c own by blast
qed

text \<open>Shutting down drops every connection and leaves no event of the server.\<close>

lemma sv_Shutdown_ok:
  assumes s: "sv_inv s" and up: "\<not> Killed (backend_of s)"
  shows "\<exists>s'. sv_Shutdown s = Some s' \<and> sv_inv s' \<and> Killed (backend_of s') \<and> connections (transport s') = [] \<and>
    (\<forall>x\<in>pending (sv_engine s'). ev_callback x \<in> range Elsewhere) \<and> ActiveConnections (backend_of s') = 0 \<and>
    HalfOpenConnections (backend_of s') = 0"
proof -
  have hs: "\<not> h_stopped (processor s)" using up sv_invD(8) [OF s] by blast
  obtain e p e2 where d: "host_Stop (sv_engine s, processor s) = Some (e, p)" "cancel_all (probeEvents s) e = Some e2"
    "eng_inv e2" "own_api {} (sv_engine s) e2" "host_inv e2 p" "h_stopped p" "h_active p = []" "sq_list (h_queue p) = []"
    "\<forall>x\<in>pending e2. ev_callback x \<notin> cpu_events \<union> range ProbeReply" using halt_ok [OF s hs] by blast
  note fr = own_api_frame [OF d(4) sv_invD(2) [OF s]]
  have tcp: "own_events server_callbacks e2 \<subseteq> own_events server_callbacks (sv_engine s)"
    using sub_events(2) [OF d(4)] by (auto simp: own_tcp)
  let ?f = "\<lambda>b. b\<lparr>Killed := True, be_Active := False, HealthTCP := False\<rparr>"
  define b where "b = ?f (backend_of s)"
  let ?K = "static b"
  have ok: "backend_ok ?K (activeConnections (transport s)) (halfOpenConnections (transport s)) b"
    using sv_invD(10) [OF s] by (simp add: b_def backend_ok_def samples_ok_def)
  have cnt: "rc_counts (backend_ok ?K) (transport s\<lparr>rc_host := b\<rparr>)"
    using rc_invD(2) [OF sv_invD(1) [OF s]] ok by (simp add: rc_counts_def conn_def)
  have i0: "rc_inv server_callbacks (backend_ok ?K) (transport s\<lparr>rc_host := b\<rparr>)"
    using sv_invD(1) [OF s] cnt by (simp add: rc_inv_def sv.host_change)
  have i1: "rc_inv server_callbacks (backend_ok ?K) ((transport s)\<lparr>rc_engine := e2, rc_host := b\<lparr>clock := eng_now e2\<rparr>\<rparr>)"
    using sv.world_ok [OF i0 d(3), of "b\<lparr>clock := eng_now e2\<rparr>"] tcp fr(2) ok by (simp add: sv_engine_def)
  let ?r = "(transport s)\<lparr>rc_engine := e2, rc_host := b\<lparr>clock := eng_now e2\<rparr>\<rparr>"
  have "\<not> rc_stopped ?r" using up sv_invD(6) [OF s] by simp
  then obtain r where r: "rc_Shutdown server_callbacks ?r = Some r" "rc_stopped r" "connections r = []"
    "ends server_callbacks (backend_ok ?K) 0 (?r\<lparr>rc_stopped := True\<rparr>) r"
    using sv.rc_Shutdown_ok [OF i1] by blast
  have ir: "rc_inv server_callbacks (backend_ok ?K) r" "own_api (range TCPTimer) e2 (rc_engine r)"
    using r(4) by (simp_all add: ends_def timer_range)
  note fr3 = own_api_frame [OF ir(2) d(3)]
  have cr: "rc_counts (backend_ok ?K) r" using rc_invD(2) [OF ir(1)] .
  then have z: "activeConnections r = 0" "halfOpenConnections r = 0" using r(3) by (simp_all add: rc_counts_def)
  have okr: "backend_ok ?K 0 0 (rc_host r)" using rc_counts_P [OF cr] z by simp
  define s1 where "s1 = (set_engine e2 (upd_backend ?f s))\<lparr>processor := p, probeEvents := [], transport := r\<rparr>"
  let ?g = "\<lambda>b. b\<lparr>ActiveConnections := 0, HalfOpenConnections := 0, LastUpdated := eng_now (sv_engine s1)\<rparr>"
  have "sv_Shutdown s = Some (upd_backend ?g s1)"
    using up d(1,2) r(1)
    by (simp add: sv_Shutdown_def on_transport_def Let_def sv_engine_def set_engine_def upd_backend_def b_def
        backend_of_def s1_def)
  moreover have kb: "Killed (rc_host r)"
    using okr static_sel [of "rc_host r" b] by (auto simp: backend_ok_def b_def)
  have tcpr: "ev_callback x \<notin> range TCPTimer" if x: "x \<in> pending (rc_engine r)" for x
  proof
    assume "ev_callback x \<in> range TCPTimer"
    then obtain t where "ev_callback x = timerEvent server_callbacks t" by (auto simp: server_callbacks_def)
    then have "timer_live r (ev_id x) t" using ir(1) x by (simp add: rc_inv_def rc_eng_def)
    then show False using r(3) by (simp add: timer_live_def lookup_def)
  qed
  have pend: "x \<in> pending e2" if "x \<in> pending (rc_engine r)" for x using fr3(5) [OF that] tcpr [OF that] by blast
  have ours: "\<forall>x\<in>pending (rc_engine r). ev_callback x \<notin> cpu_events \<union> range ProbeReply" using pend d(9) by blast
  have hi: "host_inv (rc_engine r) p" by (rule host_inv_frame [OF d(5)]) (use fr3 in simp_all)
  have pl: "probes_linked (rc_engine r) []" using ours by (auto simp: probes_linked_def)
  have cl: "cpu_linked (rc_engine r) p" by (rule cpu_linked_empty [OF d(7,8)]) (use ours in blast)
  have s1i: "sv_inv s1"
    using ir(1) hi cl pl r(2,3) d(6,7) kb backend_ok_static [OF okr]
    by (simp add: sv_inv_def s1_def)
  have "sv_inv (upd_backend ?g s1)"
    by (rule backend_step [OF s1i]) (use okr z in \<open>simp_all add: s1_def backend_ok_def\<close>)
  moreover have "ev_callback x \<in> range Elsewhere" if x: "x \<in> pending (rc_engine r)" for x
    using ours tcpr [OF x] x by (cases "ev_callback x") (auto simp: cpu_events_def)
  ultimately show ?thesis using kb r(3) by (simp add: s1_def)
qed

end
