(* ===== verification/ServerReach.thy ===== *)
theory ServerReach
  imports ServerOps
begin

text \<open>
  The states a server can reach by its operations, its events, and whatever the rest of the program
  does to the shared engine; each satisfies \<open>sv_inv\<close>.  The properties state what this means for the
  connections, timers, counters and replies of a backend.
\<close>

section \<open>Events\<close>

text \<open>Time passes, and events of the rest of the program come and go.\<close>

lemma world_step:
  assumes s: "sv_inv s" and e: "eng_inv e" "eng_now (sv_engine s) \<le> eng_now e" "end_time e = end_time (sv_engine s)"
    and p: "\<And>x. x \<in> pending e \<Longrightarrow> x \<in> pending (sv_engine s) \<or> ev_callback x \<in> range Elsewhere"
  shows "sv_inv (set_engine e s)"
proof -
  have t: "eng_now e \<le> end_time (sv_engine s)" using eng_invD(3) [OF e(1)] e(3) by simp
  have h: "host_inv e (processor s)"
    by (rule host_inv_frame [OF host_inv_tick [OF sv_invD(3) [OF s] e(2) t]]) (simp_all add: e(3))
  have tcp: "own_events server_callbacks e \<subseteq> own_events server_callbacks (sv_engine s)"
    by (auto simp: own_tcp dest!: p)
  have own: "x \<in> pending (sv_engine s)" if "x \<in> pending e" "ev_callback x = CPUDone q \<or> ev_callback x = ProbeReply q" for x q
    using p [OF that(1)] that(2) by auto
  have cpu: "cpu_linked e (processor s)" using sv_invD(4) [OF s] own unfolding cpu_linked_def by blast
  have pr: "probes_linked e (probeEvents s)" using sv_invD(5) [OF s] own unfolding probes_linked_def by blast
  have "sv_inv ((set_engine e s)\<lparr>processor := processor s, probeEvents := probeEvents s\<rparr>)"
    by (rule engine_step [OF s e(1) tcp e(2) h cpu pr sv_invD(8,9) [OF s]])
  then show ?thesis by (simp add: set_engine_def)
qed

lemma take_frame:
  assumes "eng_inv e" "take_event e = Some (x, e')"
  shows "x \<in> pending e" "pending e' = pending e - {x}" "eng_inv e'" "eng_now e \<le> eng_now e'"
    "end_time e' = end_time e" "next_id e' = next_id e"
proof -
  have ne: "arr (queue e) \<noteq> []" using assms(2) by (auto simp: take_event_def heap_Pop_def split: if_splits)
  show "x \<in> pending e" "pending e' = pending e - {x}" "eng_inv e'" "eng_now e \<le> eng_now e'"
    "end_time e' = end_time e" "next_id e' = next_id e"
    using take_event_facts [OF assms(1) ne assms(2)] by simp_all
qed

lemma sv_fire_ok:
  assumes s: "sv_inv s" and room: "sv_room s" and x: "take_event (sv_engine s) = Some (x, e)"
  shows "\<exists>s' reply. sv_fire env x (set_engine e s) = Some (s', reply) \<and> sv_inv s'"
proof -
  note t = take_frame [OF sv_invD(2) [OF s] x]
  let ?s = "set_engine e s"
  have s1: "sv_inv ?s" by (rule world_step [OF s t(3,4,5)]) (simp add: t(2))
  show ?thesis
  proof (cases "ev_callback x")
    case (TCPTimer tm)
    let ?r = "(transport s)\<lparr>rc_host := (backend_of s)\<lparr>clock := eng_now e\<rparr>\<rparr>"
    have cb: "ev_callback x = timerEvent server_callbacks tm" using TCPTimer by (simp add: server_callbacks_def)
    have "timer_live (transport s) (ev_id x) tm"
      using sv_invD(1) [OF s] t(1) cb by (simp add: rc_inv_def rc_eng_def sv_engine_def)
    then have up: "\<not> Killed (backend_of s)" using sv_invD(7) [OF s] by (auto simp: timer_live_def lookup_def)
    have n: "ids 2 ?r" using room by (simp add: ids_def sv_room_def sv_engine_def)
    have tk: "take_event (rc_engine ?r) = Some (x, e)" using x by (simp add: sv_engine_def)
    have eq: "?r\<lparr>rc_engine := e\<rparr> =
        (transport ?s)\<lparr>rc_host := (backend_of ?s)\<lparr>clock := eng_now (sv_engine ?s)\<rparr>\<rparr>" by simp
    obtain r' where r': "fire server_callbacks tm (?r\<lparr>rc_engine := e\<rparr>) = Some r'"
      "ends server_callbacks (backend_ok (static (backend_of ?s))) 1 (?r\<lparr>rc_engine := e\<rparr>) r'"
      using sv.timer_ok [OF transport_ready [OF s] tk cb n] by auto
    from transport_step [where f = "fire server_callbacks tm", OF s1 r' [unfolded eq]] up
    have "on_transport (fire server_callbacks tm) ?s = Some (?s\<lparr>transport := r'\<rparr>)"
      "sv_steps 1 ?s (?s\<lparr>transport := r'\<rparr>)" by simp_all
    then show ?thesis using TCPTimer by (simp add: sv_fire_def sv_steps_def)
  next
    case (CPUDone p)
    have n: "next_id e < max_u64" using room t(6) by (simp add: sv_room_def)
    obtain wx where wx: "(p, wx) \<in> set (h_active (processor s))" "completion wx = ev_id x"
      using sv_invD(4) [OF s] t(1) CPUDone unfolding cpu_linked_def by blast
    have d: "distinct (map fst (h_active (processor s)))" using sv_invD(3) [OF s] by (simp add: host_inv_with_def)
    have l: "q \<noteq> p \<and> (\<exists>w. (q, w) \<in> set (h_active (processor s)) \<and> completion w = ev_id y)"
      if y: "y \<in> pending e" "ev_callback y = CPUDone q" for y q
    proof -
      have yp: "y \<in> pending (sv_engine s)" "y \<noteq> x" using y(1) t(2) by simp_all
      obtain w where w: "(q, w) \<in> set (h_active (processor s))" "completion w = ev_id y"
        using sv_invD(4) [OF s] yp(1) y(2) unfolding cpu_linked_def by blast
      have "q \<noteq> p"
      proof
        assume "q = p"
        then have "w = wx" using w(1) wx(1) d by (metis eq_key_imp_eq_value)
        then show False using pending_id_inj [OF sv_invD(2) [OF s] yp(1) t(1)] w(2) wx(2) yp(2) by simp
      qed
      then show ?thesis using w by blast
    qed
    have ty: "Seq (fst (onProcessed w)) \<le> max_u64"
      if "w \<in> snd ` set (h_active (processor s)) \<union> set (sq_list (h_queue (processor s)))" for w
      using sv_invD(4) [OF s] that unfolding cpu_linked_def by blast
    have he: "host_inv e (processor s)" using sv_invD(3) [OF s1] by simp
    obtain e' h' now where c: "host_complete CPUDone p (e, processor s) = Some (e', h', now)" "host_inv e' h'"
      "eng_inv e'" "own_api cpu_events e e'" "cpu_linked e' h'" "h_stopped h' = h_stopped (processor s)"
      "\<forall>work. now = Some work \<longrightarrow> Seq (fst work) \<le> max_u64" "next_id e' \<le> next_id e + 1"
      using complete_cpu [OF t(3) he n l ty] by blast
    have up: "\<not> h_stopped h'" using sv_invD(9) [OF s] wx(1) c(6) by auto
    let ?s2 = "(set_engine e' ?s)\<lparr>processor := h'\<rparr>"
    have own: "own_api cpu_events (sv_engine ?s) e'" using c(4) by simp
    have s2: "sv_inv ?s2" by (rule cpu_step [OF s1 c(3) own c(2,5)]) (use c(6) up in auto)
    have unf: "sv_fire env x ?s = do { s \<leftarrow> (case now of None \<Rightarrow> Some ?s2 | Some w \<Rightarrow> deliver env w ?s2); Some (s, None) }"
      using CPUDone c(1) by (simp add: sv_fire_def Let_def)
    show ?thesis
    proof (cases now)
      case None
      then show ?thesis using unf s2 by simp
    next
      case (Some work)
      have "next_id (sv_engine ?s2) + 6 \<le> max_u64" using room c(8) t(6) by (simp add: sv_room_def)
      then obtain s3 where "deliver env work ?s2 = Some s3" "sv_inv s3"
        using deliver_ok [OF s2, of work env] room c(7) Some by (auto simp: sv_room_def sv_steps_def)
      then show ?thesis using unf Some by simp
    qed
  next
    case (ProbeReply f)
    have "probes_linked e (removeAll (ev_id x) (probeEvents s))"
      using sv_invD(5) [OF s] t(1,2) pending_id_inj [OF sv_invD(2) [OF s]] unfolding probes_linked_def by auto
    then have "sv_inv (?s\<lparr>probeEvents := removeAll (ev_id x) (probeEvents ?s)\<rparr>)"
      using sv_invD(1,3,4,6-9) [OF s1] by (simp add: sv_inv_def)
    then show ?thesis using ProbeReply by (simp add: sv_fire_def Let_def)
  next
    case (Elsewhere o)
    then show ?thesis using s1 by (simp add: sv_fire_def)
  qed
qed

section \<open>Reachable states\<close>

lemma NewServer_ok:
  assumes e: "eng_inv e" and p: "\<And>x. x \<in> pending e \<Longrightarrow> ev_callback x \<in> range Elsewhere"
    and n: "NewServer e i nm ad pt dst wt hop = Some s"
  shows "sv_inv s"
proof -
  obtain h :: "(packet \<times> nat option) host" where h: "host_New e host_DefaultConfig = Some h"
    and s: "transport s = NewReceiver e (new_backend hop (eng_now e))" "processor s = h" "probeEvents s = []"
    using n by (auto simp: NewServer_def split: Option.bind_splits)
  let ?b = "new_backend hop (eng_now e)"
  have sel: "sv_engine s = e" "backend_of s = ?b" using s(1) by (simp_all add: sv_engine_def backend_of_def NewReceiver_def)
  have own: "own_events server_callbacks e = {}" by (auto simp: own_tcp dest!: p)
  have b: "backend_ok (static ?b) 0 0 ?b" by (simp add: backend_ok_def new_backend_def samples_ok_def)
  have hh: "h_active h = []" "sq_list (h_queue h) = []" "\<not> h_stopped h" using h by (auto simp: host_New_def split: if_splits)
  have "\<forall>x\<in>pending e. ev_callback x \<notin> cpu_events" by (auto simp: cpu_events_def dest!: p)
  then have "cpu_linked e h" by (rule cpu_linked_empty [OF hh(1,2)])
  moreover have "probes_linked e []" by (auto simp: probes_linked_def dest!: p)
  moreover have "host_inv e h" using host_New_inv [OF e h] .
  moreover have "rc_inv server_callbacks (backend_ok (static ?b)) (transport s)"
    unfolding s(1) by (rule sv.fresh_ok [OF e own b])
  moreover have "\<not> rc_stopped (transport s)" "\<not> Killed ?b" using s(1) by (simp_all add: NewReceiver_def new_backend_def)
  ultimately show ?thesis using hh(3) by (simp add: sv_inv_def sel s(2,3))
qed

datatype server_call = Submit packet "nat option" | Probe "nat option" | Terminate | Fail | Recover | Drain | Undrain
  | ObserveHealth bool nat | ConfigureHost host_config | ConnectSender bool | Begin | TransportCall receiver_call

fun sv_call :: "(nat \<Rightarrow> bool) \<Rightarrow> server_call \<Rightarrow> 'o server \<Rightarrow> 'o server option" where
  "sv_call env (Submit pkt valid) s = HandlePacketIf env pkt valid s"
| "sv_call env (Probe reply) s = HandleProbe reply s"
| "sv_call env Terminate s = sv_Shutdown s"
| "sv_call env Fail s = MarkFailed s"
| "sv_call env Recover s = Some (MarkHealthy s)"
| "sv_call env Drain s = Some (StartDrain s)"
| "sv_call env Undrain s = Some (StopDrain s)"
| "sv_call env (ObserveHealth h l) s = Some (UpdateHealth h l s)"
| "sv_call env (ConfigureHost c) s = SetHostConfig c s"
| "sv_call env (ConnectSender b) s = Some (SetSender b s)"
| "sv_call env Begin s = Some (sv_Start s)"
| "sv_call env (TransportCall c) s = on_transport (call server_callbacks c) s"

text \<open>
  The server hands the calls of \<open>server/tcp.go\<close> to its transport; packets and shutdown have
  operations of their own.
\<close>

fun delegated :: "receiver_call \<Rightarrow> bool" where
  "delegated (Arrive _) = False"
| "delegated Stop = False"
| "delegated c = call_typed c"

fun sv_typed :: "server_call \<Rightarrow> bool" where
  "sv_typed (Submit pkt _) \<longleftrightarrow> Seq pkt \<le> max_u64"
| "sv_typed (TransportCall c) \<longleftrightarrow> delegated c"
| "sv_typed _ \<longleftrightarrow> True"

text \<open>
  \<open>sv_world\<close> covers the events of other components and the passing of time.  \<open>sv_limit\<close> is the
  assignment of the exported field \<open>MaxConnections\<close>, made before traffic.
\<close>

inductive server_reach :: "'o server \<Rightarrow> bool" where
  sv_new: "eng_inv e \<Longrightarrow> (\<And>x. x \<in> pending e \<Longrightarrow> ev_callback x \<in> range Elsewhere) \<Longrightarrow>
    NewServer e i nm ad pt dst wt hop = Some s \<Longrightarrow> server_reach s"
| sv_limit: "server_reach s \<Longrightarrow> connections (transport s) = [] \<Longrightarrow>
    server_reach (upd_backend (\<lambda>b. b\<lparr>be_MaxConnections := m\<rparr>) s)"
| sv_observe: "server_reach s \<Longrightarrow> server_reach (upd_backend (\<lambda>b. b\<lparr>hasObserver := o'\<rparr>) s)"
| sv_called: "server_reach s \<Longrightarrow> sv_room s \<Longrightarrow> sv_typed c \<Longrightarrow> sv_call env c s = Some s' \<Longrightarrow> server_reach s'"
| sv_event: "server_reach s \<Longrightarrow> sv_room s \<Longrightarrow> take_event (sv_engine s) = Some (x, e) \<Longrightarrow>
    sv_fire env x (set_engine e s) = Some (s', reply) \<Longrightarrow> server_reach s'"
| sv_world: "server_reach s \<Longrightarrow> eng_inv e \<Longrightarrow> eng_now (sv_engine s) \<le> eng_now e \<Longrightarrow> end_time e = end_time (sv_engine s) \<Longrightarrow>
    (\<And>x. x \<in> pending e \<Longrightarrow> x \<in> pending (sv_engine s) \<or> ev_callback x \<in> range Elsewhere) \<Longrightarrow>
    server_reach (set_engine e s)"

lemma delegated_idle:
  assumes "connections r = []" "call cb c r = Some r'" "delegated c"
  shows "connections r' = []"
  using assms
  by (cases c) (auto simp: CloseConnection_def AbortConnection_def ForgetConnection_def lookup_def
      SetReceiveBufferBytes_def SetCloseConfig_def SetRTOConfig_def SetDelayedACKConfig_def SetSACKEnabled_def
      SetIdleTimeouts_def SetECNEnabled_def Let_def split: if_splits)

lemma TransportCall_ok:
  assumes s: "sv_inv s" and room: "sv_room s" and d: "delegated c" and c: "on_transport (call server_callbacks c) s = Some s'"
  shows "sv_inv s'"
proof -
  let ?r = "(transport s)\<lparr>rc_host := (backend_of s)\<lparr>clock := eng_now (sv_engine s)\<rparr>\<rparr>"
  obtain r' where r': "call server_callbacks c ?r = Some r'" "s' = s\<lparr>transport := r'\<rparr>"
    using c by (auto simp: on_transport_def sv_engine_def backend_of_def split: Option.bind_splits)
  have ty: "call_typed c" "c \<noteq> Stop" using d by (cases c; simp)+
  have n: "ids 6 ?r" "Suc (length (rc_store ?r)) < 4294967296"
    using room by (simp_all add: ids_def sv_room_def sv_engine_def)
  have "ends server_callbacks (backend_ok (static (backend_of s))) 4 ?r r'"
    using sv.call_ok [OF transport_ready [OF s] ty(1) n r'(1) ty(2)] .
  moreover have "connections r' = []" if "Killed (backend_of s)"
    using delegated_idle [OF _ r'(1) d] sv_invD(7) [OF s that] by simp
  ultimately have "sv_steps 4 s s'" using transport_step(2) [where f = "call server_callbacks c", OF s r'(1)] r'(2) by simp
  then show ?thesis by (simp add: sv_steps_def)
qed

lemma backend_ops_ok:
  assumes s: "sv_inv s"
  shows "sv_inv (MarkHealthy s)" "sv_inv (StartDrain s)" "sv_inv (StopDrain s)" "sv_inv (UpdateHealth h l s)"
    "sv_inv (SetSender b s)" "sv_inv (sv_Start s)" "sv_inv (upd_backend (\<lambda>b. b\<lparr>hasObserver := o'\<rparr>) s)"
    "connections (transport s) = [] \<Longrightarrow> sv_inv (upd_backend (\<lambda>b. b\<lparr>be_MaxConnections := m\<rparr>) s)"
proof -
  note b = sv_invD(10) [OF s]
  have upd: "sv_inv (upd_backend f s)"
    if "Killed (f (backend_of s)) = Killed (backend_of s)"
      "backend_ok (static (f (backend_of s))) (activeConnections (transport s)) (halfOpenConnections (transport s)) (f (backend_of s))"
    for f by (rule backend_step [where f = f, OF s that])
  show "sv_inv (MarkHealthy s)" "sv_inv (StartDrain s)" "sv_inv (StopDrain s)" "sv_inv (UpdateHealth h l s)"
    using s b by (auto simp: MarkHealthy_def StartDrain_def StopDrain_def UpdateHealth_def backend_ok_def
        samples_ok_def intro!: upd)
  show "sv_inv (SetSender b s)" "sv_inv (upd_backend (\<lambda>b. b\<lparr>hasObserver := o'\<rparr>) s)"
    using b by (auto simp: SetSender_def backend_ok_def samples_ok_def intro!: upd)
  show "sv_inv (sv_Start s)" using s sv_invD(1,3-9) [OF s] by (auto simp: sv_Start_def sv_inv_def)
  assume "connections (transport s) = []"
  then have "activeConnections (transport s) = 0"
    using rc_invD(2) [OF sv_invD(1) [OF s]] by (simp add: rc_counts_def)
  then show "sv_inv (upd_backend (\<lambda>b. b\<lparr>be_MaxConnections := m\<rparr>) s)"
    using b by (auto simp: backend_ok_def samples_ok_def intro!: upd)
qed

lemma server_reach_inv: "server_reach s \<Longrightarrow> sv_inv s"
proof (induction rule: server_reach.induct)
  case (sv_called s c env s')
  note s = sv_called.IH
  show ?case
  proof (cases c)
    case (Submit pkt valid)
    then show ?thesis using HandlePacketIf_ok [OF s sv_called.hyps(2), of pkt env valid] sv_called.hyps(3,4)
      by (auto simp: sv_steps_def)
  next
    case (Probe reply)
    then show ?thesis using HandleProbe_ok [OF s sv_called.hyps(2), of reply] sv_called.hyps(4) by auto
  next
    case Terminate
    then show ?thesis using sv_Shutdown_ok [OF s] s sv_called.hyps(4)
      by (cases "Killed (backend_of s)") (auto simp: sv_Shutdown_def)
  next
    case Fail
    then show ?thesis using MarkFailed_ok [OF s] sv_called.hyps(4) by auto
  next
    case (ConfigureHost config)
    then show ?thesis using SetHostConfig_ok [OF s] sv_called.hyps(4) by auto
  next
    case (TransportCall rc)
    then show ?thesis using TransportCall_ok [OF s sv_called.hyps(2)] sv_called.hyps(3,4) by auto
  qed (use backend_ops_ok(1-6) [OF s] sv_called.hyps(4) in \<open>simp_all, blast+\<close>)
next
  case (sv_event s x e env s' reply)
  then show ?case using sv_fire_ok [of s x e env] by auto
next
  case (sv_new e i nm ad pt dst wt hop s)
  then show ?case using NewServer_ok by blast
next
  case (sv_limit s m)
  then show ?case using backend_ops_ok(8) by blast
next
  case (sv_observe s b)
  then show ?case using backend_ops_ok(7) by blast
next
  case (sv_world s e)
  then show ?case using world_step by blast
qed

end
