(* ===== verification/ServerProps.thy ===== *)
theory ServerProps
  imports ServerReach "HOL-Library.Code_Target_Numeral"
begin

text \<open>
  The properties of a backend, over all the states of \<open>server_reach\<close>, and the percentile it reports.
\<close>

section \<open>A backend at work\<close>

text \<open>Operations one after another, each with its arguments in range.\<close>

fun sv_calls :: "server_call list \<Rightarrow> 'o server \<Rightarrow> 'o server option" where
  "sv_calls [] s = Some s"
| "sv_calls (c # cs) s =
     (if sv_room s \<and> sv_typed c then do { s \<leftarrow> sv_call (\<lambda>_. True) c s; sv_calls cs s } else None)"

lemma sv_calls_reach: "server_reach s \<Longrightarrow> sv_calls cs s = Some s' \<Longrightarrow> server_reach s'"
proof (induction cs arbitrary: s)
  case (Cons c cs)
  then show ?case using sv_called [of s c "\<lambda>_. True"] by (auto split: if_splits Option.bind_splits)
qed simp

definition demo_backend_engine :: "nat server_event engine" where
  "demo_backend_engine = (case engine_New 1000000000 of Some e \<Rightarrow> e)"

definition demo_key :: client_key where
  "demo_key = \<lparr>SrcIP = ''10.0.0.1'', SrcPort = 4000, DstIP = ''10.0.0.9'', DstPort = 80, Protocol = TCP\<rparr>"

definition demo_segment :: "flag \<Rightarrow> int \<Rightarrow> nat \<Rightarrow> nat \<Rightarrow> packet" where
  "demo_segment fl bytes seq ack =
     \<lparr>Key = demo_key, Flag = fl, Size = bytes, Seq = seq, Ack = ack, ECN = NotECT, ReceiveWindowBytes = 0,
      SACKPermitted = False, SACKBlocks = []\<rparr>"

text \<open>A client connects, sends ten bytes and closes.\<close>

definition demo_calls :: "server_call list" where
  "demo_calls = [ConnectSender True, Submit (demo_segment FlagSYN 0 7 0) None,
     Submit (demo_segment FlagACK 0 8 1) None, Submit (demo_segment (FlagPSH OR FlagACK) 10 8 1) None,
     Submit (demo_segment (FlagFIN OR FlagACK) 0 18 1) None]"

definition demo_backend :: "nat \<Rightarrow> nat server option" where
  "demo_backend n = do {
     s \<leftarrow> NewServer demo_backend_engine ''b'' ''backend'' ''10.0.0.9'' 80 0 1 16;
     sv_calls (take n demo_calls) s
   }"

lemma demo_backend_reach: "demo_backend n = Some s \<Longrightarrow> server_reach s"
proof -
  assume "demo_backend n = Some s"
  then obtain s0 where s0: "NewServer demo_backend_engine ''b'' ''backend'' ''10.0.0.9'' 80 0 1 16 = Some s0"
    "sv_calls (take n demo_calls) s0 = Some s" by (auto simp: demo_backend_def split: Option.bind_splits)
  obtain e :: "nat server_event engine" where e: "engine_New 1000000000 = Some e" by (simp add: engine_New_def)
  then have d: "demo_backend_engine = e" by (simp add: demo_backend_engine_def)
  have "eng_inv e" "pending e = {}" using engine_New_inv [OF e] e
    by (simp_all add: max_i64_def engine_New_def pending_def heap_empty_def) auto
  then have "server_reach s0" using sv_new [OF _ _ s0(1)] d by simp
  then show ?thesis using sv_calls_reach s0(2) by blast
qed

lemma demo_backend_states:
  "case demo_backend 5 of None \<Rightarrow> False | Some s \<Rightarrow>
     lookup demo_key (transport s) = Some 0 \<and> conn_state (conn 0 (transport s)) = TCPLastAck \<and>
     ActiveConnections (backend_of s) = 1 \<and> receivedPayloadBytes (transport s) = 10 \<and>
     length (sentPackets (backend_of s)) = 3"
  by code_simp

lemma demo_backend_obtain:
  obtains s where "demo_backend 5 = Some s" "server_reach s" "lookup demo_key (transport s) = Some 0"
    "conn_state (conn 0 (transport s)) = TCPLastAck" "ActiveConnections (backend_of s) = 1"
    "receivedPayloadBytes (transport s) = 10" "length (sentPackets (backend_of s)) = 3"
proof -
  obtain s where s: "demo_backend 5 = Some s" using demo_backend_states by (cases "demo_backend 5") auto
  then show ?thesis using that [OF s demo_backend_reach [OF s]] demo_backend_states by simp
qed

section \<open>Connections\<close>

lemma server_conn_ok:
  assumes "server_reach s" "lookup k (transport s) = Some a"
  shows "conn_ok (transport s) (conn a (transport s))" "a < length (rc_store (transport s))"
  using rc_invD(3,4) [OF sv_invD(1) [OF server_reach_inv [OF assms(1)]] assms(2)] by blast+

text \<open>C28: Every connection in a backend's table is in a state of the passive side of TCP, and its flags
  say what that state means: it is established after SYN-RECEIVED, has sent its FIN from FIN-WAIT-1 and
  LAST-ACK on, has seen it acknowledged in FIN-WAIT-2 and TIME-WAIT, and has consumed the peer's FIN in
  CLOSING, LAST-ACK and TIME-WAIT.  A peer's FIN takes the position after its last byte.\<close>

theorem server_connections_consistent:
  assumes "server_reach s" "lookup k (transport s) = Some a"
  shows "let c = conn a (transport s) in
    conn_state c \<in> {TCPSynReceived, TCPEstablished, TCPFinWait1, TCPFinWait2, TCPClosing, TCPLastAck, TCPTimeWait} \<and>
    (established c \<longleftrightarrow> conn_state c \<noteq> TCPSynReceived) \<and>
    (finSent c \<longleftrightarrow> conn_state c \<notin> {TCPSynReceived, TCPEstablished}) \<and>
    (finAcked c \<longleftrightarrow> conn_state c \<in> {TCPFinWait2, TCPTimeWait}) \<and>
    (peerFIN c \<longleftrightarrow> conn_state c \<in> {TCPClosing, TCPLastAck, TCPTimeWait}) \<and>
    sendNextSeq c = (if finSent c then 2 else 1) \<and> rc_outcome c = None \<and>
    peerInitialSeq c < nextExpectedSeq (rbuf c) \<and> nextExpectedSeq (rbuf c) \<le> max_u64 \<and>
    (peerFIN c \<longrightarrow> rb_ranges (rbuf c) = [] \<and> nextExpectedSeq (rbuf c) = peerFINSeq c + 1) \<and>
    (pendingFIN c \<longrightarrow> \<not> peerFIN c \<and> (\<forall>p \<in> received (rbuf c). p < pendingFINSeq c))"
proof -
  let ?c = "conn a (transport s)"
  have ok: "state_ok ?c" "stream_ok ?c" using server_conn_ok [OF assms] by (simp_all add: conn_ok_def)
  note st = ok(1) [unfolded state_ok_def] and sm = ok(2) [unfolded stream_ok_def rb_ok_def]
  have np: "\<not> peerFIN ?c" if "pendingFIN ?c"
  proof -
    have "conn_state ?c \<in> {TCPEstablished, TCPFinWait1, TCPFinWait2}"
      "peerFIN ?c = (conn_state ?c \<in> {TCPClosing, TCPLastAck, TCPTimeWait})" using st that by blast+
    then show ?thesis by auto
  qed
  have lt: "\<forall>p \<in> received (rbuf ?c). p < pendingFINSeq ?c" if "pendingFIN ?c" using sm that by blast
  show ?thesis unfolding Let_def using st sm np lt by (intro conjI impI) blast+
qed

theorem server_connections_consistent_witness:
  "\<exists>s :: nat server. server_reach s \<and> lookup demo_key (transport s) = Some 0 \<and> peerFIN (conn 0 (transport s)) \<and>
     nextExpectedSeq (rbuf (conn 0 (transport s))) = peerFINSeq (conn 0 (transport s)) + 1"
proof -
  obtain s :: "nat server" where s: "server_reach s" "lookup demo_key (transport s) = Some 0"
    "conn_state (conn 0 (transport s)) = TCPLastAck" by (rule demo_backend_obtain)
  show ?thesis using server_connections_consistent [OF s(1,2)] s by (auto simp: Let_def)
qed

text \<open>C29: No timer of a backend outlives its purpose: a pending TCP timer belongs to a connection still in
  the table, is the one recorded there, and guards the state the connection is in, and no connection
  has two pending timers of one kind.\<close>

theorem server_timers_have_owners:
  assumes "server_reach s" "x \<in> pending (sv_engine s)" "ev_callback x = TCPTimer t"
  shows "lookup (timer_key t) (transport s) = Some (timer_addr t) \<and>
    event_of t (conn (timer_addr t) (transport s)) = ev_id x \<and>
    (case t of
       IdleTimer _ a \<Rightarrow> conn_state (conn a (transport s)) \<in> {TCPSynReceived, TCPEstablished}
     | DelayedACKTimer _ a \<Rightarrow> conn_state (conn a (transport s)) = TCPEstablished \<and>
         pendingACKSegmentCount (conn a (transport s)) = 1
     | FINTimer _ a \<Rightarrow> finSent (conn a (transport s)) \<and> \<not> finAcked (conn a (transport s))
     | FinWaitTimer _ a \<Rightarrow> conn_state (conn a (transport s)) \<in> {TCPFinWait2, TCPTimeWait}
     | TimeWaitTimer _ a \<Rightarrow> conn_state (conn a (transport s)) \<in> {TCPFinWait2, TCPTimeWait}) \<and>
    (\<forall>y \<in> pending (sv_engine s). ev_callback y = TCPTimer t \<longrightarrow> y = x)"
proof -
  note i = sv_invD(1,2) [OF server_reach_inv [OF assms(1)]]
  have live: "timer_live (transport s) (ev_id y) t" if "y \<in> pending (sv_engine s)" "ev_callback y = TCPTimer t" for y
    using i(1) that by (simp add: rc_inv_def rc_eng_def sv_engine_def server_callbacks_def)
  note l = live [OF assms(2,3), unfolded timer_live_def]
  have nz: "event_of t (conn (timer_addr t) (transport s)) \<noteq> 0" using pending_nonzero [OF i(2) assms(2)] l by simp
  have "timers_ok (transport s) (conn (timer_addr t) (transport s))"
    using server_conn_ok(1) [OF assms(1)] l by (auto simp: conn_ok_def)
  then have "case t of
       IdleTimer _ a \<Rightarrow> conn_state (conn a (transport s)) \<in> {TCPSynReceived, TCPEstablished}
     | DelayedACKTimer _ a \<Rightarrow> conn_state (conn a (transport s)) = TCPEstablished \<and>
         pendingACKSegmentCount (conn a (transport s)) = 1
     | FINTimer _ a \<Rightarrow> finSent (conn a (transport s)) \<and> \<not> finAcked (conn a (transport s))
     | FinWaitTimer _ a \<Rightarrow> conn_state (conn a (transport s)) \<in> {TCPFinWait2, TCPTimeWait}
     | TimeWaitTimer _ a \<Rightarrow> conn_state (conn a (transport s)) \<in> {TCPFinWait2, TCPTimeWait}"
    using nz unfolding timers_ok_def by (cases t) auto
  moreover have "y = x" if "y \<in> pending (sv_engine s)" "ev_callback y = TCPTimer t" for y
    using live [OF that] l pending_id_inj [OF i(2) that(1) assms(2)] by (simp add: timer_live_def)
  ultimately show ?thesis using l by blast
qed

theorem server_timers_have_owners_witness:
  "\<exists>(s :: nat server) x k a. server_reach s \<and> x \<in> pending (sv_engine s) \<and> ev_callback x = TCPTimer (FINTimer k a) \<and>
     lookup k (transport s) = Some a \<and> finSent (conn a (transport s))"
proof -
  obtain s :: "nat server" where s: "demo_backend 5 = Some s" "server_reach s" by (rule demo_backend_obtain)
  have "case demo_backend 5 of None \<Rightarrow> False
      | Some s \<Rightarrow> list_ex (\<lambda>x. ev_callback x = TCPTimer (FINTimer demo_key 0)) (arr (queue (sv_engine s)))"
    by code_simp
  then obtain x where x: "x \<in> pending (sv_engine s)" "ev_callback x = TCPTimer (FINTimer demo_key 0)"
    using s(1) by (auto simp: list_ex_iff pending_def)
  show ?thesis using server_timers_have_owners [OF s(2) x] s(2) x by auto
qed

section \<open>Admission and accounting\<close>

text \<open>C30: The counters a backend reports are the numbers of its established and half-open connections,
  and admission never lets them exceed the configured limits.\<close>

theorem server_admission_limits:
  assumes "server_reach s"
  shows "let b = backend_of s; cs = connections (transport s) in
    ActiveConnections b = length (filter (\<lambda>(_, a). conn_state (conn a (transport s)) \<noteq> TCPSynReceived) cs) \<and>
    HalfOpenConnections b = length (filter (\<lambda>(_, a). conn_state (conn a (transport s)) = TCPSynReceived) cs) \<and>
    (be_MaxConnections b = 0 \<or> ActiveConnections b \<le> be_MaxConnections b) \<and>
    (MaxHalfOpen b = 0 \<or> HalfOpenConnections b \<le> MaxHalfOpen b) \<and>
    ss_ActiveConnections (GetState s) = ActiveConnections b \<and>
    ss_HalfOpenConnections (GetState s) = HalfOpenConnections b"
proof -
  note i = server_reach_inv [OF assms]
  note rc = sv_invD(1) [OF i]
  have b: "backend_ok (static (backend_of s)) (activeConnections (transport s)) (halfOpenConnections (transport s)) (backend_of s)"
    using sv_invD(10) [OF i] .
  have d: "distinct (map fst (connections (transport s)))" using rc by (simp add: rc_inv_def rc_eng_def)
  have est: "established (conn a (transport s)) = (conn_state (conn a (transport s)) \<noteq> TCPSynReceived)"
    if "(k, a) \<in> set (connections (transport s))" for k a
  proof -
    have "lookup k (transport s) = Some a" using that d by (simp add: lookup_def)
    then show ?thesis using server_conn_ok(1) [OF assms] by (auto simp: conn_ok_def state_ok_def)
  qed
  have f: "filter (\<lambda>(_, a). conn_state (conn a (transport s)) \<noteq> TCPSynReceived) (connections (transport s)) =
      filter (\<lambda>(_, a). established (conn a (transport s))) (connections (transport s))"
    "filter (\<lambda>(_, a). conn_state (conn a (transport s)) = TCPSynReceived) (connections (transport s)) =
      filter (\<lambda>(_, a). \<not> established (conn a (transport s))) (connections (transport s))"
    using est by (auto intro!: filter_cong)
  have "activeConnections (transport s) = length (filter (\<lambda>(_, a). established (conn a (transport s))) (connections (transport s)))"
    "halfOpenConnections (transport s) = length (filter (\<lambda>(_, a). \<not> established (conn a (transport s))) (connections (transport s)))"
    using rc_invD(2) [OF rc] by (simp_all add: rc_counts_def)
  then show ?thesis using b unfolding Let_def f backend_ok_def by (simp add: GetState_def Let_def)
qed

theorem server_admission_limits_witness:
  "\<exists>s :: nat server. server_reach s \<and> ActiveConnections (backend_of s) = 1 \<and>
     length (filter (\<lambda>(_, a). conn_state (conn a (transport s)) \<noteq> TCPSynReceived) (connections (transport s))) = 1 \<and>
     HalfOpenConnections (backend_of s) \<le> MaxHalfOpen (backend_of s) + HalfOpenConnections (backend_of s)"
proof -
  obtain s :: "nat server" where s: "server_reach s" "ActiveConnections (backend_of s) = 1" by (rule demo_backend_obtain)
  show ?thesis using server_admission_limits [OF s(1)] s by (auto simp: Let_def)
qed

lemma payload_of_card:
  assumes "stream_ok c"
  shows "payload_of c = card {p \<in> received (rbuf c). peerInitialSeq c < p \<and> \<not> (peerFIN c \<and> p = peerFINSeq c)}"
proof -
  let ?n = "nextExpectedSeq (rbuf c)" and ?i = "peerInitialSeq c"
  have rb: "ranges_ok (Suc ?n) (rb_ranges (rbuf c))" "bufferedBytes (rbuf c) = int (card (positions (rb_ranges (rbuf c))))"
    "?i < ?n" using assms by (simp_all add: stream_ok_def rb_ok_def)
  have low: "p \<in> positions (rb_ranges (rbuf c)) \<Longrightarrow> ?n < p" for p using ranges_ok_lower [OF rb(1), of p] by simp
  show ?thesis
  proof (cases "peerFIN c")
    case False
    have "{p \<in> received (rbuf c). ?i < p \<and> \<not> (peerFIN c \<and> p = peerFINSeq c)} =
        {Suc ?i..<?n} \<union> positions (rb_ranges (rbuf c))"
      using low rb(3) False by (auto simp: received_def dest: less_trans)
    moreover have "{Suc ?i..<?n} \<inter> positions (rb_ranges (rbuf c)) = {}" by (auto dest!: low)
    ultimately show ?thesis using False rb by (simp add: payload_of_def card_Un_disjoint)
  next
    case True
    then have f: "rb_ranges (rbuf c) = []" "?n = peerFINSeq c + 1" "?i < peerFINSeq c"
      using assms by (simp_all add: stream_ok_def)
    have "{p \<in> received (rbuf c). ?i < p \<and> \<not> (peerFIN c \<and> p = peerFINSeq c)} = {Suc ?i..<peerFINSeq c}"
      using True f by (auto simp: received_def)
    then show ?thesis using True f rb(2) by (simp add: payload_of_def)
  qed
qed

text \<open>C31: The payload a backend reports counts every byte of every connection once, whatever order,
  overlap and repetition segments arrive in: it is the sum over all connections ever opened, modulo
  \<open>2^64\<close>, and for a connection in the table the summand is the number of sequence positions received
  after its SYN, other than that of the FIN.\<close>

theorem server_payload_counted_once:
  assumes "server_reach s"
  shows "ReceivedPayloadBytes (GetState s) = u64 (\<Sum>c\<leftarrow>rc_store (transport s). payload_of c) \<and>
    (\<forall>k a. lookup k (transport s) = Some a \<longrightarrow>
       payload_of (conn a (transport s)) =
         card {p \<in> received (rbuf (conn a (transport s))). peerInitialSeq (conn a (transport s)) < p \<and>
           \<not> (peerFIN (conn a (transport s)) \<and> p = peerFINSeq (conn a (transport s)))})"
proof -
  have "receivedPayloadBytes (transport s) = u64 (\<Sum>c\<leftarrow>rc_store (transport s). payload_of c)"
    using rc_invD(2) [OF sv_invD(1) [OF server_reach_inv [OF assms]]] by (simp add: rc_counts_def)
  moreover have "stream_ok (conn a (transport s))" if "lookup k (transport s) = Some a" for k a
    using server_conn_ok(1) [OF assms that] by (simp add: conn_ok_def)
  ultimately show ?thesis using payload_of_card by (auto simp: GetState_def Let_def)
qed

theorem server_payload_counted_once_witness:
  "\<exists>s :: nat server. server_reach s \<and> u64 (\<Sum>c\<leftarrow>rc_store (transport s). payload_of c) = 10"
proof -
  obtain s :: "nat server" where s: "server_reach s" "receivedPayloadBytes (transport s) = 10" by (rule demo_backend_obtain)
  show ?thesis using server_payload_counted_once [OF s(1)] s by (auto simp: GetState_def Let_def)
qed

section \<open>Operations\<close>

text \<open>C32: A packet from the network, whatever its flags, sequence numbers and options, is handled
  without a panic, at once or when the CPU has processed it: the call returns, and so does every event
  of the backend; the state stays reachable, and every reply sent so far is one a peer's checks accept:
  an acknowledgement without payload, with a valid window, valid SACK blocks and no ECN marking.\<close>

theorem server_handles_every_packet:
  assumes "server_reach s" "sv_room s" "Seq pkt \<le> max_u64"
  shows "(\<exists>s'. HandlePacketIf env pkt valid s = Some s' \<and> server_reach s' \<and>
      (\<forall>p \<in> set (sentPackets (backend_of s')). Size p = 0 \<and> ValidSACKOptions p \<and> SequenceEnd p \<noteq> None \<and>
         ReceiveWindowBytes p < 65536 \<and> has_flag (Flag p) FlagACK \<and> ECN p = NotECT)) \<and>
    (\<forall>x e. take_event (sv_engine s) = Some (x, e) \<longrightarrow>
      (\<exists>s' reply. sv_fire env x (set_engine e s) = Some (s', reply) \<and> server_reach s'))"
proof -
  note i = server_reach_inv [OF assms(1)]
  obtain s' where s': "HandlePacketIf env pkt valid s = Some s'" using HandlePacketIf_ok [OF i assms(2,3)] by blast
  have c: "sv_call env (Submit pkt valid) s = Some s'" using s' by simp
  have r: "server_reach s'" by (rule sv_called [OF assms(1,2) _ c]) (simp add: assms(3))
  have "\<forall>p\<in>set (sentPackets (backend_of s')). reply_ok p"
    using sv_invD(10) [OF server_reach_inv [OF r]] by (simp add: backend_ok_def)
  moreover have "\<exists>s' reply. sv_fire env x (set_engine e s) = Some (s', reply) \<and> server_reach s'"
    if x: "take_event (sv_engine s) = Some (x, e)" for x e
  proof -
    obtain s'' reply where f: "sv_fire env x (set_engine e s) = Some (s'', reply)"
      using sv_fire_ok [OF i assms(2) x] by blast
    then show ?thesis using sv_event [OF assms(1,2) x f] by blast
  qed
  ultimately show ?thesis using s' r by (auto simp: reply_ok_def)
qed

theorem server_handles_every_packet_witness:
  "\<exists>(s :: nat server) s'. server_reach s \<and> HandlePacketIf (\<lambda>_. True) (demo_segment FlagRST 99 3 0) None s = Some s' \<and>
     server_reach s'"
proof -
  obtain s :: "nat server" where s: "demo_backend 5 = Some s" "server_reach s" by (rule demo_backend_obtain)
  have "case demo_backend 5 of None \<Rightarrow> False | Some s \<Rightarrow> sv_room s" by code_simp
  then have "sv_room s" using s(1) by simp
  from server_handles_every_packet [OF s(2) this, of "demo_segment FlagRST 99 3 0" "\<lambda>_. True" None] s(2)
  show ?thesis by (auto simp: demo_segment_def max_u64_def)
qed

text \<open>C33: Shutting down a running backend always succeeds and releases everything: no connection and no
  event of its transport, CPU or probes is left, its counters are zero, and packets no longer change it.\<close>

theorem server_shutdown_releases:
  assumes "server_reach s" "\<not> Killed (backend_of s)"
  shows "\<exists>s'. sv_Shutdown s = Some s' \<and> connections (transport s') = [] \<and>
    (\<forall>x \<in> pending (sv_engine s'). \<exists>e. ev_callback x = Elsewhere e) \<and>
    ActiveConnections (backend_of s') = 0 \<and> HalfOpenConnections (backend_of s') = 0 \<and>
    \<not> IsHealthy (backend_of s') \<and> HandlePacketIf env pkt valid s' = Some s' \<and> sv_Shutdown s' = Some s'"
proof -
  obtain s' where s': "sv_Shutdown s = Some s'" "Killed (backend_of s')" "connections (transport s') = []"
    "\<forall>x\<in>pending (sv_engine s'). ev_callback x \<in> range Elsewhere" "ActiveConnections (backend_of s') = 0"
    "HalfOpenConnections (backend_of s') = 0" using sv_Shutdown_ok [OF server_reach_inv [OF assms(1)] assms(2)] by blast
  then show ?thesis by (intro exI [of _ s']) (auto simp: IsHealthy_def HandlePacketIf_def sv_Shutdown_def)
qed

theorem server_shutdown_releases_witness:
  "\<exists>(s :: nat server) s'. server_reach s \<and> connections (transport s) \<noteq> [] \<and> sv_Shutdown s = Some s' \<and>
     connections (transport s') = []"
proof -
  obtain s :: "nat server" where s: "demo_backend 5 = Some s" "server_reach s" "lookup demo_key (transport s) = Some 0"
    by (rule demo_backend_obtain)
  have "case demo_backend 5 of None \<Rightarrow> False | Some s \<Rightarrow> \<not> Killed (backend_of s)" by code_simp
  then have up: "\<not> Killed (backend_of s)" using s(1) by simp
  have "connections (transport s) \<noteq> []" using s(3) by (auto simp: lookup_def)
  then show ?thesis using server_shutdown_releases [OF s(2) up] s(2) by blast
qed

end
