(* ===== verification/Latency.thy ===== *)
theory Latency
  imports ServerRun
begin

text \<open>
  The ring of connection lifetimes kept by a backend, and the percentile it reports: the ring refines
  the list of the last hundred lifetimes.
\<close>

text \<open>The last hundred lifetimes in milliseconds.\<close>

definition last_hundred :: "int list \<Rightarrow> int list" where
  "last_hundred xs = drop (length xs - 100) xs"

definition ring :: "backend \<Rightarrow> int list \<Rightarrow> bool" where
  "ring b xs \<longleftrightarrow> length (latencySamples b) = 100 \<and> latencyCount b = min (length xs) 100 \<and>
     (if length xs < 100 then latencyPosition b = length xs \<and> take (length xs) (latencySamples b) = xs
      else latencyPosition b < 100 \<and>
        drop (latencyPosition b) (latencySamples b) @ take (latencyPosition b) (latencySamples b) = last_hundred xs)"

lemma ring_step:
  assumes r: "ring b xs"
  shows "ring (recordConnectionLatency d b) (xs @ [go_div d ms])"
proof -
  let ?x = "go_div d ms" and ?S = "latencySamples b" and ?p = "latencyPosition b"
  obtain v where b': "recordConnectionLatency d b =
     b\<lparr>latencySamples := ?S[?p := ?x], latencyPosition := (?p + 1) mod length ?S,
      latencyCount := (if latencyCount b < length ?S then latencyCount b + 1 else latencyCount b),
      LatencyP95Milli := v\<rparr>" using recordConnectionLatency_shape by blast
  have l: "length ?S = 100" and p: "?p < 100" using r by (auto simp: ring_def split: if_splits)
  have upd: "?S[?p := ?x] = take ?p ?S @ ?x # drop (Suc ?p) ?S" using l p by (simp add: upd_conv_take_nth_drop)
  have tk: "take (Suc ?p) (?S[?p := ?x]) = take ?p ?S @ [?x]" unfolding upd using l p by simp
  have dr: "drop (Suc ?p) (?S[?p := ?x]) = drop (Suc ?p) ?S" by simp
  show ?thesis
  proof (cases "length xs < 100")
    case True
    have f: "?p = length xs" "take (length xs) ?S = xs" "latencyCount b = length xs"
      using r True by (simp_all add: ring_def)
    show ?thesis
    proof (cases "length xs = 99")
      case full: True
      have "?S[?p := ?x] = xs @ [?x]" using tk l f full by simp
      then show ?thesis using f full l by (simp add: ring_def b' last_hundred_def)
    next
      case False
      then show ?thesis using True f l tk by (simp add: ring_def b')
    qed
  next
    case False
    have f: "drop ?p ?S @ take ?p ?S = last_hundred xs" "latencyCount b = 100" using r False by (simp_all add: ring_def)
    have ll: "length (last_hundred xs) = 100" using False by (simp add: last_hundred_def)
    have ne: "drop ?p ?S = ?S ! ?p # drop (Suc ?p) ?S" using l p by (simp add: Cons_nth_drop_Suc)
    have tl: "drop (Suc ?p) ?S @ take ?p ?S = drop 1 (last_hundred xs)" using f(1) ne by (metis append_Cons drop0 drop_Suc_Cons One_nat_def)
    have last: "last_hundred (xs @ [?x]) = drop 1 (last_hundred xs) @ [?x]"
    proof -
      have "length xs - 99 = Suc (length xs - 100)" using False by simp
      then show ?thesis using False by (simp add: last_hundred_def)
    qed
    show ?thesis
    proof (cases "?p = 99")
      case True
      then have "?S[?p := ?x] = take ?p ?S @ [?x]" unfolding upd using l by simp
      moreover have "drop (Suc ?p) ?S = []" using True l by simp
      ultimately show ?thesis using False True l f(2) tl ll by (simp add: ring_def b' last)
    next
      case nowrap: False
      then have "drop (Suc ?p) (?S[?p := ?x]) @ take (Suc ?p) (?S[?p := ?x]) = last_hundred (xs @ [?x])"
        unfolding dr tk last using tl by simp
      then show ?thesis using False nowrap l p f(2) by (simp add: ring_def b')
    qed
  qed
qed

lemma ring_run: "ring b xs \<Longrightarrow> ring (fold recordConnectionLatency ds b) (xs @ map (\<lambda>d. go_div d ms) ds)"
proof (induction ds arbitrary: b xs)
  case (Cons d ds)
  from Cons.IH [OF ring_step [OF Cons.prems, of d]] show ?case by simp
qed simp

lemma ring_new: "ring (new_backend n t) []"
  by (simp add: ring_def new_backend_def)

text \<open>The samples in use are the last hundred, in another order.\<close>

lemma ring_samples: "ring b xs \<Longrightarrow> mset (take (latencyCount b) (latencySamples b)) = mset (last_hundred xs)"
proof -
  assume r: "ring b xs"
  show ?thesis
  proof (cases "length xs < 100")
    case True
    then show ?thesis using r by (simp add: ring_def last_hundred_def)
  next
    case False
    then have f: "latencyCount b = 100" "length (latencySamples b) = 100"
      "drop (latencyPosition b) (latencySamples b) @ take (latencyPosition b) (latencySamples b) = last_hundred xs"
      using r by (simp_all add: ring_def)
    have "mset (last_hundred xs) = mset (take (latencyPosition b) (latencySamples b)) + mset (drop (latencyPosition b) (latencySamples b))"
      by (subst f(3) [symmetric]) (simp add: add.commute)
    also have "\<dots> = mset (latencySamples b)" by (metis append_take_drop_id mset_append)
    finally show ?thesis using f(1,2) by simp
  qed
qed

section \<open>Nearest rank\<close>

lemma filter_length_mset: "mset xs = mset ys \<Longrightarrow> length (filter P xs) = length (filter P ys)"
  by (metis mset_filter size_mset)

lemma sorted_rank:
  assumes "sorted ys" "i < length ys"
  shows "i < length (filter (\<lambda>x. x \<le> ys ! i) ys)" "length (filter (\<lambda>x. x < ys ! i) ys) \<le> i"
proof -
  have "filter (\<lambda>x. x \<le> ys ! i) (take (Suc i) ys) = take (Suc i) ys"
    using assms by (intro filter_True) (auto simp: in_set_conv_nth sorted_nth_mono)
  moreover have "length (filter (\<lambda>x. x \<le> ys ! i) ys) =
      length (filter (\<lambda>x. x \<le> ys ! i) (take (Suc i) ys)) + length (filter (\<lambda>x. x \<le> ys ! i) (drop (Suc i) ys))"
    by (metis append_take_drop_id filter_append length_append)
  ultimately show "i < length (filter (\<lambda>x. x \<le> ys ! i) ys)" using assms(2) by simp
  have "filter (\<lambda>x. x < ys ! i) (drop i ys) = []"
    using assms by (auto simp: filter_empty_conv in_set_conv_nth not_less intro!: sorted_nth_mono)
  then have "filter (\<lambda>x. x < ys ! i) ys = filter (\<lambda>x. x < ys ! i) (take i ys)"
    by (metis append_take_drop_id filter_append append_Nil2)
  also have "length \<dots> \<le> i" using length_filter_le [of _ "take i ys"] by (metis length_take min.cobounded2 le_trans)
  finally show "length (filter (\<lambda>x. x < ys ! i) ys) \<le> i" .
qed

lemma rank_index:
  fixes c :: nat
  assumes "0 < c"
  shows "(95 * c + 99) div 100 - 1 < c" "95 * c \<le> 100 * Suc ((95 * c + 99) div 100 - 1)"
    "100 * ((95 * c + 99) div 100 - 1) < 95 * c"
proof -
  define k r where "k = (95 * c + 99) div 100" and "r = (95 * c + 99) mod 100"
  have f: "100 * k + r = 95 * c + 99" "r < 100" by (simp_all add: k_def r_def)
  then have "k \<noteq> 0" using assms by (cases "k = 0") simp_all
  then obtain j where j: "k = Suc j" using not0_implies_Suc by blast
  show "(95 * c + 99) div 100 - 1 < c" "95 * c \<le> 100 * Suc ((95 * c + 99) div 100 - 1)"
    "100 * ((95 * c + 99) div 100 - 1) < 95 * c" using f assms unfolding k_def [symmetric] j by simp_all
qed

lemma recordConnectionLatency_p95:
  "LatencyP95Milli (recordConnectionLatency d b) =
   (let b' = recordConnectionLatency d b; samples = sort (take (latencyCount b') (latencySamples b'))
    in nat (min (samples ! ((95 * latencyCount b' + 99) div 100 - 1)) 4294967295 mod 4294967296))"
proof -
  define S where "S = (latencySamples b)[latencyPosition b := go_div d ms]"
  define C where "C = (if latencyCount b < length S then latencyCount b + 1 else latencyCount b)"
  have eq: "recordConnectionLatency d b = b\<lparr>latencySamples := S, latencyPosition := (latencyPosition b + 1) mod length S,
      latencyCount := C,
      LatencyP95Milli := nat (min (sort (take C S) ! ((95 * C + 99) div 100 - 1)) 4294967295 mod 4294967296)\<rparr>"
    unfolding recordConnectionLatency_def Let_def S_def C_def by (rule refl)
  have sel: "LatencyP95Milli (b\<lparr>latencySamples := S, latencyPosition := p, latencyCount := C, LatencyP95Milli := v\<rparr>) = v"
    "latencyCount (b\<lparr>latencySamples := S, latencyPosition := p, latencyCount := C, LatencyP95Milli := v\<rparr>) = C"
    "latencySamples (b\<lparr>latencySamples := S, latencyPosition := p, latencyCount := C, LatencyP95Milli := v\<rparr>) = S"
    for p v by simp_all
  show ?thesis unfolding eq sel Let_def by (rule refl)
qed

text \<open>C34: After any number of finished connections, the reported percentile is the nearest-rank 95th
  percentile of the last hundred lifetimes in milliseconds: one of them, with at least 95 of a hundred
  not above it and fewer than 95 of a hundred below it, saturated at the largest 32-bit value.\<close>

theorem latency_percentile:
  assumes "ds \<noteq> []" "\<And>d. d \<in> set ds \<Longrightarrow> 0 \<le> d"
  shows "\<exists>w \<in> set (last_hundred (map (\<lambda>d. go_div d ms) ds)).
    let xs = last_hundred (map (\<lambda>d. go_div d ms) ds) in
    LatencyP95Milli (fold recordConnectionLatency ds (new_backend n t)) = nat (min w 4294967295) \<and>
    95 * length xs \<le> 100 * length (filter (\<lambda>x. x \<le> w) xs) \<and>
    100 * length (filter (\<lambda>x. x < w) xs) < 95 * length xs"
proof -
  obtain ds0 d where ds: "ds = ds0 @ [d]" using assms(1) by (metis rev_exhaust)
  let ?xs = "last_hundred (map (\<lambda>d. go_div d ms) ds)"
  let ?b = "fold recordConnectionLatency ds (new_backend n t)"
  let ?c = "latencyCount ?b"
  have r: "ring ?b (map (\<lambda>d. go_div d ms) ds)" using ring_run [OF ring_new, of ds n t] by simp
  let ?ys = "sort (take ?c (latencySamples ?b))"
  have m: "mset ?ys = mset ?xs" using ring_samples [OF r] by simp
  have len: "length ?ys = length ?xs" using m mset_eq_length by blast
  have c: "?c = length ?xs" using r by (simp add: ring_def last_hundred_def) 
  have pos: "0 < ?c" using r assms(1) by (simp add: ring_def)
  let ?i = "(95 * ?c + 99) div 100 - 1"
  have i: "?i < length ?ys" "95 * ?c \<le> 100 * Suc ?i" "100 * ?i < 95 * ?c" using rank_index [OF pos] c len by simp_all
  let ?w = "?ys ! ?i"
  have w: "?w \<in> set ?xs" using nth_mem [OF i(1)] mset_eq_setD [OF m] by simp
  have "0 \<le> ?w" using w assms(2) go_div_nonneg [of _ ms] by (auto simp: last_hundred_def ms_def dest!: in_set_dropD)
  then have mo: "min ?w 4294967295 mod 4294967296 = min ?w 4294967295" by (intro mod_pos_pos_trivial) auto
  have "LatencyP95Milli ?b = nat (min ?w 4294967295)"
    using recordConnectionLatency_p95 [of d "fold recordConnectionLatency ds0 (new_backend n t)"] mo
    by (simp add: ds Let_def)
  moreover have "95 * length ?xs \<le> 100 * length (filter (\<lambda>x. x \<le> ?w) ?xs)"
    using sorted_rank(1) [OF sorted_sort i(1)] i(2) c unfolding filter_length_mset [OF m, symmetric] by linarith
  moreover have "100 * length (filter (\<lambda>x. x < ?w) ?xs) < 95 * length ?xs"
    using sorted_rank(2) [OF sorted_sort i(1)] i(3) c unfolding filter_length_mset [OF m, symmetric] by linarith
  ultimately show ?thesis using w by (auto simp: Let_def)
qed

theorem latency_percentile_witness:
  "\<exists>w \<in> {1, 5}. LatencyP95Milli (fold recordConnectionLatency [5000000, 1000000] (new_backend 0 0)) = nat (min w 4294967295) \<and>
     length (filter (\<lambda>x. x < w) [5, 1]) < 2"
proof -
  have xs: "last_hundred (map (\<lambda>d. go_div d ms) [5000000, 1000000]) = [5, 1]"
    by (simp add: last_hundred_def go_div_def ms_def)
  have ne: "[5000000, 1000000 :: int] \<noteq> []" and nn: "\<And>d. d \<in> set [5000000, 1000000 :: int] \<Longrightarrow> 0 \<le> d" by auto
  from latency_percentile [OF ne nn, of 0 0] show ?thesis unfolding xs by (auto simp: Let_def)
qed

end
