(* ===== verification/Balancer.thy ===== *)
theory Balancer
  imports Packet Host Algorithms
begin

text \<open>
  The load balancer: \<open>balancer/balancer.go\<close>, \<open>balancer/connections.go\<close> and \<open>balancer/host.go\<close>.

  Clients and backends are other components, known here by references: a client by its instance and
  key, a backend by a number, with the fields the balancer reads when it is registered.  A
  \<open>*connectionState\<close> and a \<open>*healthCheck\<close> are addresses in the stores \<open>lb_states\<close> and \<open>lb_checks\<close>,
  so that the code's comparisons of pointers are comparisons of addresses.  A \<open>Sender\<close> is a number;
  packets given to senders, which only enqueue them, are listed in order in \<open>lb_sent\<close>, and probes given
  to backends, which answer later, in \<open>lb_probes\<close>; \<open>probe_reply\<close> is the closure they call.  Closures
  given to the CPU and the engine are the values of \<open>lb_work\<close> and \<open>lb_event\<close>.
\<close>

section \<open>Observed connections\<close>

record timeout_config =
  HalfOpen :: duration
  Established :: duration
  Closing :: duration
  tc_Reset :: duration

datatype connection_phase = stateHalfOpen | stateEstablished | stateClosing | stateReset

record connection_state =
  cn_lastActivity :: duration
  phase :: connection_phase

definition supportedMappingPacket :: "packet \<Rightarrow> bool \<Rightarrow> bool" where
  "supportedMappingPacket pkt fromServer =
     (if Protocol (Key pkt) \<noteq> TCP \<or> Size pkt < 0 then False
      else
        let baseFlags = base_flags (Flag pkt) in
        if baseFlags = FlagSYN then \<not> fromServer \<and> Size pkt = 0
        else if baseFlags = FlagSYN OR FlagACK then fromServer \<and> Size pkt = 0
        else if baseFlags = FlagACK \<or> baseFlags = FlagPSH OR FlagACK then True
        else if baseFlags = FlagFIN OR FlagACK \<or> baseFlags = FlagRST \<or> baseFlags = FlagRST OR FlagACK
        then Size pkt = 0
        else False)"

definition observe :: "packet \<Rightarrow> bool \<Rightarrow> duration \<Rightarrow> connection_state \<Rightarrow> connection_state" where
  "observe pkt fromServer now c =
     (if \<not> supportedMappingPacket pkt fromServer then c
      else
        let c = c\<lparr>cn_lastActivity := now\<rparr> in
        if has_flag (Flag pkt) FlagRST then c\<lparr>phase := stateReset\<rparr>
        else if phase c = stateReset then c
        else if has_flag (Flag pkt) FlagFIN then c\<lparr>phase := stateClosing\<rparr>
        else if phase c = stateClosing then c
        else if \<not> fromServer \<and> \<not> has_flag (Flag pkt) FlagSYN \<and> has_flag (Flag pkt) FlagACK
        then c\<lparr>phase := stateEstablished\<rparr>
        else c)"

section \<open>State\<close>

record client_ref =
  instance_id :: nat
  cl_key :: client_key

record backend_ref =
  be_ref :: nat
  be_ID :: string
  be_capacity :: nat

record health_check =
  tick :: nat
  timeout :: nat
  serial :: nat
  healthy :: bool
  hc_maxConnections :: nat

record chaos_config =
  Latency :: duration
  PacketDropRate :: f64

datatype lb_mode = NAT | SNAT | DSR

datatype lb_work = ClientWork packet "client_ref option" "nat option"
  | ServerWork nat packet "client_ref option" "nat option"

datatype 'o lb_event = CleanupDue | HealthTick nat nat | ProbeTimeout nat nat nat
  | ForwardDue nat packet client_ref "nat option" | LBDone nat | OtherEvent 'o

record 'o load_balancer =
  lb_engine :: "'o lb_event engine"
  lb_processor :: "lb_work host"
  Mode :: lb_mode
  algo :: algorithm
  lb_rng :: rng
  servers :: "backend_ref list"
  clients :: "client_key \<Rightarrow> client_ref option"
  clientOrder :: "client_ref list"
  connTable :: "nat \<Rightarrow> client_ref list"
  byKey :: "client_key \<Rightarrow> nat option"
  lb_connections :: "client_key \<Rightarrow> nat option"
  lb_states :: "connection_state list"
  clientTx :: "client_key \<Rightarrow> nat option"
  toServer :: "nat \<Rightarrow> nat option"
  health :: "nat \<Rightarrow> nat option"
  lb_checks :: "health_check list"
  chaos :: chaos_config
  cleanup :: nat
  closed :: bool
  timeouts :: timeout_config
  lb_sent :: "(nat \<times> packet) list"
  lb_probes :: "(nat \<times> nat \<times> nat) list"

type_synonym 'o lb_op = "'o load_balancer \<Rightarrow> 'o load_balancer option"

datatype lb_error = CannotAddClient | DuplicateClient client_key | CannotAddServer | DuplicateServer string
  | PickFailed pick_error | UnknownBackend

definition CleanupInterval :: duration where
  "CleanupInterval = 5000 * ms"

definition healthInterval :: duration where
  "healthInterval = 1000 * ms"

definition default_timeouts :: timeout_config where
  "default_timeouts = \<lparr>HalfOpen = 5000 * ms, Established = 50000 * ms, Closing = 120000 * ms, tc_Reset = 10000 * ms\<rparr>"

text \<open>\<open>make\<close> and nil maps answer every key with nil; \<open>clear\<close> makes them so.\<close>

definition scheduleCleanup :: "'o lb_op" where
  "scheduleCleanup lb = do {
     (e, i) \<leftarrow> ScheduleAfter (lb_engine lb) CleanupInterval CleanupDue;
     Some (lb\<lparr>lb_engine := e, cleanup := i\<rparr>)
   }"

definition NewLoadBalancer :: "'o lb_event engine \<Rightarrow> lb_mode \<Rightarrow> algorithm \<Rightarrow> rng \<Rightarrow> 'o load_balancer option" where
  "NewLoadBalancer e mode al r = do {
     p \<leftarrow> host_New e host_DefaultConfig;
     scheduleCleanup \<lparr>lb_engine = e, lb_processor = p, Mode = mode, algo = al, lb_rng = r, servers = [],
       clients = Map.empty, clientOrder = [], connTable = (\<lambda>_. []), byKey = Map.empty,
       lb_connections = Map.empty, lb_states = [], clientTx = Map.empty, toServer = Map.empty,
       health = Map.empty, lb_checks = [], chaos = \<lparr>Latency = 0, PacketDropRate = Fin 0\<rparr>, cleanup = 0,
       closed = False, timeouts = default_timeouts, lb_sent = [], lb_probes = []\<rparr>
   }"

definition SetMappingTimeouts :: "timeout_config \<Rightarrow> 'o lb_op" where
  "SetMappingTimeouts config lb =
     (let validLimits = 0 \<le> HalfOpen config \<and> 0 \<le> Established config \<and> 0 \<le> Closing config \<and> 0 \<le> tc_Reset config
      in if \<not> validLimits \<or> (\<exists>cl \<in> set (clientOrder lb). clients lb (cl_key cl) \<noteq> None) then None
         else Some (lb\<lparr>timeouts := config\<rparr>))"

definition expired :: "nat \<Rightarrow> 'o load_balancer \<Rightarrow> bool" where
  "expired a lb =
     (let c = lb_states lb ! a;
          limit = (case phase c of stateHalfOpen \<Rightarrow> HalfOpen (timeouts lb) | stateEstablished \<Rightarrow> Established (timeouts lb)
                   | stateClosing \<Rightarrow> Closing (timeouts lb) | stateReset \<Rightarrow> tc_Reset (timeouts lb))
      in 0 < limit \<and> limit \<le> i64 (eng_now (lb_engine lb) - cn_lastActivity c))"

section \<open>Registration\<close>

text \<open>\<open>replace_first\<close> is the loop over \<open>clientOrder\<close>; it finds nothing when the result is None.\<close>

fun replace_first :: "client_ref \<Rightarrow> client_ref \<Rightarrow> client_ref list \<Rightarrow> client_ref list option" where
  "replace_first previous cl [] = None"
| "replace_first previous cl (x # xs) =
     (if x = previous then Some (cl # xs) else map_option ((#) x) (replace_first previous cl xs))"

definition AddClient ::
  "client_ref option \<Rightarrow> bool \<Rightarrow> nat option \<Rightarrow> 'o load_balancer \<Rightarrow> 'o load_balancer \<times> lb_error option"
where
  "AddClient ref terminated send lb =
     (case (ref, send) of
        (Some cl, Some tx) \<Rightarrow>
          if closed lb \<or> terminated then (lb, Some CannotAddClient)
          else if byKey lb (cl_key cl) \<noteq> None then (lb, Some (DuplicateClient (cl_key cl)))
          else
            let previous = clients lb (cl_key cl);
                lb = lb\<lparr>clients := (clients lb)(cl_key cl \<mapsto> cl), clientTx := (clientTx lb)(cl_key cl \<mapsto> tx)\<rparr>
            in (case previous of
                  None \<Rightarrow> (lb\<lparr>clientOrder := clientOrder lb @ [cl]\<rparr>, None)
                | Some old \<Rightarrow>
                    (case replace_first old cl (clientOrder lb) of
                       Some order \<Rightarrow> (lb\<lparr>clientOrder := order\<rparr>, None)
                     | None \<Rightarrow> (lb\<lparr>clientOrder := clientOrder lb @ [cl]\<rparr>, None)))
      | _ \<Rightarrow> (lb, Some CannotAddClient))"

definition HasClient :: "client_ref option \<Rightarrow> 'o load_balancer \<Rightarrow> bool" where
  "HasClient ref lb \<longleftrightarrow> \<not> closed lb \<and> (case ref of None \<Rightarrow> False | Some cl \<Rightarrow> clients lb (cl_key cl) = Some cl)"

definition upd_check :: "nat \<Rightarrow> (health_check \<Rightarrow> health_check) \<Rightarrow> 'o load_balancer \<Rightarrow> 'o load_balancer" where
  "upd_check a f lb = lb\<lparr>lb_checks := (lb_checks lb)[a := f (lb_checks lb ! a)]\<rparr>"

definition scheduleHealthCheck :: "nat \<Rightarrow> nat \<Rightarrow> 'o lb_op" where
  "scheduleHealthCheck srv check lb = do {
     (e, i) \<leftarrow> ScheduleAfter (lb_engine lb) healthInterval (HealthTick srv check);
     Some (upd_check check (\<lambda>c. c\<lparr>tick := i\<rparr>) (lb\<lparr>lb_engine := e\<rparr>))
   }"

text \<open>\<open>None\<close> is a panic of the engine; the error is that of the code.\<close>

definition AddServer ::
  "backend_ref option \<Rightarrow> nat option \<Rightarrow> 'o load_balancer \<Rightarrow> ('o load_balancer \<times> lb_error option) option"
where
  "AddServer ref send lb =
     (case (ref, send) of
        (Some srv, Some tx) \<Rightarrow>
          if closed lb then Some (lb, Some CannotAddServer)
          else if list_ex (\<lambda>x. be_ref x = be_ref srv \<or> be_ID x = be_ID srv) (servers lb)
          then Some (lb, Some (DuplicateServer (be_ID srv)))
          else do {
            let check = length (lb_checks lb);
            let lb = lb\<lparr>servers := servers lb @ [srv], toServer := (toServer lb)(be_ref srv \<mapsto> tx),
                  lb_checks := lb_checks lb @ [\<lparr>tick = 0, timeout = 0, serial = 0, healthy = True,
                                                hc_maxConnections = be_capacity srv\<rparr>],
                  health := (health lb)(be_ref srv \<mapsto> check)\<rparr>;
            lb \<leftarrow> scheduleHealthCheck (be_ref srv) check lb;
            Some (lb, None)
          }
      | _ \<Rightarrow> Some (lb, Some CannotAddServer))"

section \<open>Routes\<close>

text \<open>The candidates are the healthy backends, in the order of registration.\<close>

definition healthy_backends :: "'o load_balancer \<Rightarrow> backend_ref list" where
  "healthy_backends lb = filter (\<lambda>srv. case health lb (be_ref srv) of None \<Rightarrow> False | Some a \<Rightarrow> healthy (lb_checks lb ! a)) (servers lb)"

definition candidate_of :: "'o load_balancer \<Rightarrow> backend_ref \<Rightarrow> candidate" where
  "candidate_of lb srv =
     \<lparr>MaxConnections = (case health lb (be_ref srv) of None \<Rightarrow> 0 | Some a \<Rightarrow> hc_maxConnections (lb_checks lb ! a)),
      MappedConnections = u32 (length (connTable lb (be_ref srv)))\<rparr>"

definition Route :: "rng \<Rightarrow> client_ref \<Rightarrow> 'o load_balancer \<Rightarrow> ('o load_balancer \<times> (lb_error + nat)) option" where
  "Route fallback cl lb =
     (case byKey lb (cl_key cl) of
        Some mapped \<Rightarrow> Some (lb, Inr mapped)
      | None \<Rightarrow> do {
          let backends = healthy_backends lb;
          (res, al) \<leftarrow> Pick fallback (algo lb) (map (candidate_of lb) backends);
          let lb = lb\<lparr>algo := al\<rparr>;
          (case res of
             Inl err \<Rightarrow> Some (lb, Inl (PickFailed err))
           | Inr selected \<Rightarrow>
               if length backends \<le> selected then Some (lb, Inl UnknownBackend)
               else
                 let srv = be_ref (backends ! selected);
                     a = length (lb_states lb)
                 in Some (lb\<lparr>connTable := (connTable lb)(srv := connTable lb srv @ [cl]),
                            byKey := (byKey lb)(cl_key cl \<mapsto> srv),
                            lb_states := lb_states lb @ [\<lparr>cn_lastActivity = eng_now (lb_engine lb), phase = stateHalfOpen\<rparr>],
                            lb_connections := (lb_connections lb)(cl_key cl \<mapsto> a)\<rparr>, Inr srv))
        })"

definition forgetRoute :: "client_key \<Rightarrow> 'o load_balancer \<Rightarrow> 'o load_balancer" where
  "forgetRoute key lb =
     (let lb = (case (byKey lb key, clients lb key) of
                  (Some srv, Some cl) \<Rightarrow> lb\<lparr>connTable := (connTable lb)(srv := remove1 cl (connTable lb srv))\<rparr>
                | _ \<Rightarrow> lb)
      in lb\<lparr>byKey := (byKey lb)(key := None), lb_connections := (lb_connections lb)(key := None)\<rparr>)"

definition ClearConnectionTable :: "'o load_balancer \<Rightarrow> 'o load_balancer" where
  "ClearConnectionTable lb = lb\<lparr>connTable := (\<lambda>_. []), byKey := Map.empty, lb_connections := Map.empty\<rparr>"

definition VisitRoutes :: "'o load_balancer \<Rightarrow> (string \<times> client_key) list" where
  "VisitRoutes lb = concat (map (\<lambda>srv. map (\<lambda>cl. (be_ID srv, cl_key cl)) (connTable lb (be_ref srv))) (servers lb))"

section \<open>Forwarding\<close>

definition SetAlgorithm :: "algorithm \<Rightarrow> 'o load_balancer \<Rightarrow> 'o load_balancer" where
  "SetAlgorithm al lb = lb\<lparr>algo := al\<rparr>"

definition SetChaosConfig :: "chaos_config option \<Rightarrow> 'o lb_op" where
  "SetChaosConfig config lb =
     (case config of
        None \<Rightarrow> Some (lb\<lparr>chaos := \<lparr>Latency = 0, PacketDropRate = Fin 0\<rparr>\<rparr>)
      | Some c \<Rightarrow>
          if Latency c < 0 \<or> \<not> (f64_le (Fin 0) (PacketDropRate c) \<and> f64_le (PacketDropRate c) (Fin 1)) then None
          else Some (lb\<lparr>chaos := c\<rparr>))"

text \<open>\<open>valid\<close> is given by what it captures: the client and the connection.\<close>

definition still_valid :: "client_ref \<Rightarrow> nat option \<Rightarrow> packet \<Rightarrow> 'o load_balancer \<Rightarrow> bool" where
  "still_valid cl connection pkt lb \<longleftrightarrow> HasClient (Some cl) lb \<and> lb_connections lb (Key pkt) = connection"

definition forward :: "nat option \<Rightarrow> packet \<Rightarrow> client_ref \<Rightarrow> nat option \<Rightarrow> 'o lb_op" where
  "forward send pkt cl connection lb =
     (case send of
        None \<Rightarrow> Some lb
      | Some tx \<Rightarrow>
          let (draw, r) = rng_Float64 (lb_rng lb); lb = lb\<lparr>lb_rng := r\<rparr> in
          if f64_lt draw (PacketDropRate (chaos lb)) then Some lb
          else if Latency (chaos lb) = 0 then Some (lb\<lparr>lb_sent := lb_sent lb @ [(tx, pkt)]\<rparr>)
          else do {
            (e, _) \<leftarrow> ScheduleAfter (lb_engine lb) (Latency (chaos lb)) (ForwardDue tx pkt cl connection);
            Some (lb\<lparr>lb_engine := e\<rparr>)
          })"

text \<open>A call of \<open>observe\<close> on a nil pointer panics.\<close>

definition observe_at :: "nat option \<Rightarrow> packet \<Rightarrow> bool \<Rightarrow> 'o lb_op" where
  "observe_at connection pkt fromServer lb =
     (case connection of
        None \<Rightarrow> (if supportedMappingPacket pkt fromServer then None else Some lb)
      | Some a \<Rightarrow> Some (lb\<lparr>lb_states := (lb_states lb)[a := observe pkt fromServer (eng_now (lb_engine lb)) (lb_states lb ! a)]\<rparr>))"

definition processClientPacket :: "rng \<Rightarrow> packet \<Rightarrow> 'o lb_op" where
  "processClientPacket fallback pkt lb =
     (case clients lb (Key pkt) of
        None \<Rightarrow> Some lb
      | Some cl \<Rightarrow>
          if \<not> HasClient (Some cl) lb then Some lb
          else do {
            (lb, srv) \<leftarrow>
              (case byKey lb (Key pkt) of
                 Some s \<Rightarrow> Some (lb, Some s)
               | None \<Rightarrow>
                   if base_flags (Flag pkt) = FlagSYN \<and> supportedMappingPacket pkt False
                   then map_option (\<lambda>(lb, res). (lb, case res of Inl _ \<Rightarrow> None | Inr s \<Rightarrow> Some s)) (Route fallback cl lb)
                   else Some (lb, None));
            (case srv of
               None \<Rightarrow> Some lb
             | Some s \<Rightarrow> do {
                 let connection = lb_connections lb (Key pkt);
                 lb \<leftarrow> observe_at connection pkt False lb;
                 forward (toServer lb s) pkt cl connection lb
               })
          })"

definition processServerPacket :: "nat \<Rightarrow> packet \<Rightarrow> 'o lb_op" where
  "processServerPacket srv pkt lb =
     (case clients lb (Key pkt) of
        None \<Rightarrow> Some lb
      | Some cl \<Rightarrow>
          if \<not> HasClient (Some cl) lb \<or> byKey lb (Key pkt) \<noteq> Some srv then Some lb
          else do {
            let connection = lb_connections lb (Key pkt);
            lb \<leftarrow> observe_at connection pkt True lb;
            forward (clientTx lb (Key pkt)) pkt cl connection lb
          })"

text \<open>The closures given to the CPU.\<close>

fun run_work :: "rng \<Rightarrow> lb_work \<Rightarrow> 'o lb_op" where
  "run_work fallback (ClientWork pkt cl connection) lb =
     (if \<not> HasClient cl lb \<or> (connection \<noteq> None \<and> lb_connections lb (Key pkt) \<noteq> connection) then Some lb
      else processClientPacket fallback pkt lb)"
| "run_work fallback (ServerWork srv pkt cl connection) lb =
     (if \<not> HasClient cl lb \<or> lb_connections lb (Key pkt) \<noteq> connection then Some lb
      else processServerPacket srv pkt lb)"

definition submit_work :: "rng \<Rightarrow> lb_work \<Rightarrow> 'o lb_op" where
  "submit_work fallback work lb = do {
     (e, p, now, _) \<leftarrow> host_Submit LBDone work (lb_engine lb, lb_processor lb);
     let lb = lb\<lparr>lb_engine := e, lb_processor := p\<rparr>;
     (case now of None \<Rightarrow> Some lb | Some w \<Rightarrow> run_work fallback w lb)
   }"

definition HandleClientPacket :: "rng \<Rightarrow> packet \<Rightarrow> 'o lb_op" where
  "HandleClientPacket fallback pkt lb =
     (if closed lb then Some lb
      else submit_work fallback (ClientWork pkt (clients lb (Key pkt)) (lb_connections lb (Key pkt))) lb)"

definition HandleServerPacket :: "rng \<Rightarrow> nat \<Rightarrow> packet \<Rightarrow> 'o lb_op" where
  "HandleServerPacket fallback srv pkt lb =
     (if closed lb then Some lb
      else submit_work fallback (ServerWork srv pkt (clients lb (Key pkt)) (lb_connections lb (Key pkt))) lb)"

section \<open>Events\<close>

fun sweep :: "client_ref list \<Rightarrow> 'o load_balancer \<Rightarrow> 'o load_balancer" where
  "sweep [] lb = lb"
| "sweep (cl # cls) lb =
     sweep cls (case lb_connections lb (cl_key cl) of
                  None \<Rightarrow> lb
                | Some a \<Rightarrow> if expired a lb then forgetRoute (cl_key cl) lb else lb)"

definition fire_cleanup :: "'o lb_op" where
  "fire_cleanup lb = (if closed lb then Some lb else scheduleCleanup (sweep (clientOrder lb) lb))"

definition fire_health :: "nat \<Rightarrow> nat \<Rightarrow> 'o lb_op" where
  "fire_health srv check lb =
     (if closed lb \<or> health lb srv \<noteq> Some check then Some lb
      else do {
        let lb = upd_check check (\<lambda>c. c\<lparr>serial := u64 (serial c + 1)\<rparr>) lb;
        let n = serial (lb_checks lb ! check);
        (e, i) \<leftarrow> ScheduleAfter (lb_engine lb) (go_div healthInterval 2) (ProbeTimeout srv check n);
        let lb = upd_check check (\<lambda>c. c\<lparr>timeout := i\<rparr>) (lb\<lparr>lb_engine := e\<rparr>);
        scheduleHealthCheck srv check (lb\<lparr>lb_probes := lb_probes lb @ [(srv, check, n)]\<rparr>)
      })"

definition fire_timeout :: "nat \<Rightarrow> nat \<Rightarrow> nat \<Rightarrow> 'o load_balancer \<Rightarrow> 'o load_balancer" where
  "fire_timeout srv check n lb =
     (if health lb srv = Some check \<and> serial (lb_checks lb ! check) = n
      then upd_check check (\<lambda>c. c\<lparr>healthy := False\<rparr>) lb else lb)"

definition probe_reply :: "nat \<Rightarrow> nat \<Rightarrow> nat \<Rightarrow> 'o lb_op" where
  "probe_reply srv check n lb =
     (if health lb srv = Some check \<and> serial (lb_checks lb ! check) = n
      then do {
        (e, _) \<leftarrow> Cancel (lb_engine lb) (timeout (lb_checks lb ! check));
        Some (upd_check check (\<lambda>c. c\<lparr>healthy := True\<rparr>) (lb\<lparr>lb_engine := e\<rparr>))
      }
      else Some lb)"

fun lb_fire :: "rng \<Rightarrow> 'o lb_event \<Rightarrow> 'o lb_op" where
  "lb_fire fallback CleanupDue lb = fire_cleanup lb"
| "lb_fire fallback (HealthTick srv check) lb = fire_health srv check lb"
| "lb_fire fallback (ProbeTimeout srv check n) lb = Some (fire_timeout srv check n lb)"
| "lb_fire fallback (ForwardDue tx pkt cl connection) lb =
     Some (if still_valid cl connection pkt lb then lb\<lparr>lb_sent := lb_sent lb @ [(tx, pkt)]\<rparr> else lb)"
| "lb_fire fallback (LBDone p) lb = do {
     (e, h, work) \<leftarrow> host_complete LBDone p (lb_engine lb, lb_processor lb);
     let lb = lb\<lparr>lb_engine := e, lb_processor := h\<rparr>;
     (case work of None \<Rightarrow> Some lb | Some w \<Rightarrow> run_work fallback w lb)
   }"
| "lb_fire fallback (OtherEvent _) lb = Some lb"

section \<open>Configuration and shutdown\<close>

definition lb_SetHostConfig :: "host_config \<Rightarrow> 'o lb_op" where
  "lb_SetHostConfig config lb =
     (if closed lb \<or> OfferedPackets (host_Stats (lb_engine lb) (lb_processor lb)) \<noteq> 0 then None
      else do {
        p \<leftarrow> host_New (lb_engine lb) config;
        (e, _) \<leftarrow> host_Stop (lb_engine lb, lb_processor lb);
        Some (lb\<lparr>lb_engine := e, lb_processor := p\<rparr>)
      })"

text \<open>The order in which Go ranges over the checks is not defined; here it is that of registration.\<close>

definition lb_Shutdown :: "'o lb_op" where
  "lb_Shutdown lb =
     (if closed lb then Some lb
      else do {
        let lb = lb\<lparr>closed := True\<rparr>;
        (e, p) \<leftarrow> host_Stop (lb_engine lb, lb_processor lb);
        (e, _) \<leftarrow> Cancel e (cleanup lb);
        let lb = ClearConnectionTable (lb\<lparr>lb_engine := e, lb_processor := p\<rparr>);
        e \<leftarrow> cancel_all (concat (map (\<lambda>srv. case health lb (be_ref srv) of None \<Rightarrow> []
               | Some a \<Rightarrow> [tick (lb_checks lb ! a), timeout (lb_checks lb ! a)]) (servers lb))) (lb_engine lb);
        Some (lb\<lparr>lb_engine := e, clients := Map.empty, clientTx := Map.empty, toServer := Map.empty,
                health := Map.empty, clientOrder := [], servers := []\<rparr>)
      })"

end
