(* ===== verification/BalancerRun.thy ===== *)
theory BalancerRun
  imports Balancer "HOL-Library.Code_Target_Numeral"
begin

text \<open>
  The routing tables of the balancer under any sequence of registrations, packets, events and
  configuration: the maps agree with each other and with the registered clients and backends, and no
  backend gets more mappings than the capacity recorded for it.  The last section shows what phase the
  observer of a flow reaches.
\<close>

section \<open>The tables\<close>

definition clients_ok :: "'o load_balancer \<Rightarrow> bool" where
  "clients_ok lb \<longleftrightarrow> (\<forall>k cl. clients lb k = Some cl \<longrightarrow> cl_key cl = k)"

definition routes_ok :: "'o load_balancer \<Rightarrow> bool" where
  "routes_ok lb \<longleftrightarrow>
     (\<forall>k s. byKey lb k = Some s \<longrightarrow> (\<exists>cl. clients lb k = Some cl \<and> cl \<in> set (connTable lb s))) \<and>
     (\<forall>s cl. cl \<in> set (connTable lb s) \<longrightarrow> byKey lb (cl_key cl) = Some s \<and> clients lb (cl_key cl) = Some cl) \<and>
     (\<forall>s. distinct (connTable lb s)) \<and>
     (\<forall>k. byKey lb k = None \<longleftrightarrow> lb_connections lb k = None)"

definition states_ok :: "'o load_balancer \<Rightarrow> bool" where
  "states_ok lb \<longleftrightarrow> (\<forall>k a. lb_connections lb k = Some a \<longrightarrow> a < length (lb_states lb)) \<and>
     (\<forall>k l a. lb_connections lb k = Some a \<longrightarrow> lb_connections lb l = Some a \<longrightarrow> k = l)"

definition backends_ok :: "'o load_balancer \<Rightarrow> bool" where
  "backends_ok lb \<longleftrightarrow> distinct (map be_ref (servers lb)) \<and> distinct (map be_ID (servers lb)) \<and>
     (\<forall>srv\<in>set (servers lb). \<exists>a. health lb (be_ref srv) = Some a \<and> a < length (lb_checks lb) \<and>
        hc_maxConnections (lb_checks lb ! a) = be_capacity srv \<and> be_capacity srv < 4294967296 \<and>
        toServer lb (be_ref srv) \<noteq> None) \<and>
     (\<forall>s\<in>dom (health lb). s \<in> be_ref ` set (servers lb)) \<and>
     (\<forall>k s. byKey lb k = Some s \<longrightarrow> s \<in> be_ref ` set (servers lb))"

definition capacity_kept :: "'o load_balancer \<Rightarrow> bool" where
  "capacity_kept lb \<longleftrightarrow> (\<forall>srv\<in>set (servers lb).
     be_capacity srv = 0 \<or> length (connTable lb (be_ref srv)) \<le> be_capacity srv)"

definition lb_inv :: "'o load_balancer \<Rightarrow> bool" where
  "lb_inv lb \<longleftrightarrow> clients_ok lb \<and> routes_ok lb \<and> states_ok lb \<and> backends_ok lb \<and> capacity_kept lb \<and>
     0 \<le> Latency (chaos lb)"

text \<open>What the invariant does not mention may change.\<close>

definition same_tables :: "'o load_balancer \<Rightarrow> 'o load_balancer \<Rightarrow> bool" where
  "same_tables lb lb' \<longleftrightarrow> clients lb' = clients lb \<and> servers lb' = servers lb \<and> connTable lb' = connTable lb \<and>
     byKey lb' = byKey lb \<and> lb_connections lb' = lb_connections lb \<and> toServer lb' = toServer lb \<and>
     health lb' = health lb \<and> length (lb_states lb') = length (lb_states lb) \<and>
     map hc_maxConnections (lb_checks lb') = map hc_maxConnections (lb_checks lb) \<and>
     Latency (chaos lb') = Latency (chaos lb)"

lemma same_tables_refl [simp]: "same_tables lb lb"
  by (simp add: same_tables_def)

lemma same_tables_trans: "same_tables lb lb' \<Longrightarrow> same_tables lb' lb'' \<Longrightarrow> same_tables lb lb''"
  by (simp add: same_tables_def)

lemma same_tables_inv: "same_tables lb lb' \<Longrightarrow> lb_inv lb \<Longrightarrow> lb_inv lb'"
proof -
  assume s: "same_tables lb lb'" and i: "lb_inv lb"
  have m: "map hc_maxConnections (lb_checks lb') = map hc_maxConnections (lb_checks lb)"
    using s by (simp add: same_tables_def)
  then have len: "length (lb_checks lb') = length (lb_checks lb)" by (rule map_eq_imp_length_eq)
  have "hc_maxConnections (lb_checks lb' ! a) = hc_maxConnections (lb_checks lb ! a)" if "a < length (lb_checks lb)" for a
  proof -
    have "map hc_maxConnections (lb_checks lb') ! a = map hc_maxConnections (lb_checks lb) ! a" using m by simp
    then show ?thesis using that len by simp
  qed
  then have "backends_ok lb'" using s i len by (fastforce simp: same_tables_def lb_inv_def backends_ok_def)
  then show ?thesis using s i
    by (simp add: same_tables_def lb_inv_def clients_ok_def routes_ok_def states_ok_def capacity_kept_def)
qed

lemma same_tables_simps [simp]:
  "same_tables lb (lb'\<lparr>lb_engine := e\<rparr>) = same_tables lb lb'"
  "same_tables lb (lb'\<lparr>lb_processor := p\<rparr>) = same_tables lb lb'"
  "same_tables lb (lb'\<lparr>lb_rng := r\<rparr>) = same_tables lb lb'"
  "same_tables lb (lb'\<lparr>lb_sent := ps\<rparr>) = same_tables lb lb'"
  "same_tables lb (lb'\<lparr>lb_probes := qs\<rparr>) = same_tables lb lb'"
  "same_tables lb (lb'\<lparr>algo := al\<rparr>) = same_tables lb lb'"
  "same_tables lb (lb'\<lparr>cleanup := i\<rparr>) = same_tables lb lb'"
  "same_tables lb (lb'\<lparr>timeouts := t\<rparr>) = same_tables lb lb'"
  "same_tables lb (lb'\<lparr>clientTx := tx\<rparr>) = same_tables lb lb'"
  "same_tables lb (lb'\<lparr>clientOrder := cs\<rparr>) = same_tables lb lb'"
  "same_tables lb (lb'\<lparr>lb_states := (lb_states lb')[a := v]\<rparr>) = same_tables lb lb'"
  by (simp_all add: same_tables_def)

lemma same_tables_check [simp]:
  "(\<And>c. hc_maxConnections (f c) = hc_maxConnections c) \<Longrightarrow> same_tables lb (upd_check a f lb') = same_tables lb lb'"
proof -
  assume f: "\<And>c. hc_maxConnections (f c) = hc_maxConnections c"
  have "map hc_maxConnections ((lb_checks lb')[a := f (lb_checks lb' ! a)]) = map hc_maxConnections (lb_checks lb')"
    by (cases "a < length (lb_checks lb')") (simp_all add: map_update f list_update_same_conv list_update_beyond)
  then show ?thesis by (simp add: same_tables_def upd_check_def)
qed

section \<open>Routing\<close>

lemma Pick_room:
  assumes "Pick fallback al cs = Some (Inr i, al')"
  shows "i < length cs \<and> has_room (cs ! i)"
proof (cases al)
  case (RoundRobin index)
  then have "cs \<noteq> []" "fst (rr_scan cs (length cs) (index mod length cs)) = Inr i"
    using assms by (auto simp: RoundRobin_Pick_def Let_def split: if_splits prod.splits)
  moreover from this have "index mod length cs < length cs" by simp
  ultimately obtain k where "i = (index mod length cs + k) mod length cs" "has_room (cs ! i)"
    using rr_scan_correct [of cs "index mod length cs" "length cs"] by (auto split: prod.splits sum.splits)
  then show ?thesis using \<open>cs \<noteq> []\<close> by simp
next
  case (Random r)
  then obtain j g where j: "Intn (int (length (available cs))) (case r of None \<Rightarrow> fallback | Some g \<Rightarrow> g) = Some (j, g)"
    "i = available cs ! j"
    using assms by (auto simp: Random_Pick_def Let_def split: if_splits Option.bind_splits)
  then have "i \<in> set (available cs)" using Intn_bound [OF j(1)] by simp
  then show ?thesis by (simp add: available_def)
qed

lemma mapped_observed: "routes_ok lb \<Longrightarrow> byKey lb k = Some s \<Longrightarrow> lb_connections lb k \<noteq> None"
  unfolding routes_ok_def by (metis option.distinct(1))

lemma Route_ok:
  assumes i: "lb_inv lb" and cl: "clients lb (cl_key cl) = Some cl" and r: "Route fallback cl lb = Some (lb', res)"
  shows "lb_inv lb'" "\<And>s. res = Inr s \<Longrightarrow> byKey lb' (cl_key cl) = Some s \<and> lb_connections lb' (cl_key cl) \<noteq> None"
    "clients lb' = clients lb" "closed lb' = closed lb" "lb_engine lb' = lb_engine lb"
proof -
  have "lb_inv lb' \<and> (\<forall>s. res = Inr s \<longrightarrow> byKey lb' (cl_key cl) = Some s \<and> lb_connections lb' (cl_key cl) \<noteq> None) \<and>
    clients lb' = clients lb \<and> closed lb' = closed lb \<and> lb_engine lb' = lb_engine lb"
  proof (cases "byKey lb (cl_key cl)")
    case (Some s)
    have "routes_ok lb" using i by (simp add: lb_inv_def)
    then show ?thesis using Some r i mapped_observed [of lb "cl_key cl"] by (auto simp: Route_def)
  next
    case None
    let ?bs = "healthy_backends lb"
    obtain pick al where p: "Pick fallback (algo lb) (map (candidate_of lb) ?bs) = Some (pick, al)"
      using r None by (auto simp: Route_def Let_def split: Option.bind_splits)
    have al: "lb_inv (lb\<lparr>algo := al\<rparr>)" using same_tables_inv [of lb "lb\<lparr>algo := al\<rparr>"] i by simp
    show ?thesis
    proof (cases pick)
      case (Inl err)
      then show ?thesis using r None p al by (auto simp: Route_def Let_def)
    next
      case (Inr n)
      have n: "n < length ?bs" "has_room (candidate_of lb (?bs ! n))"
        using Pick_room p Inr by fastforce+
      define srv where "srv = ?bs ! n"
      have srv: "srv \<in> set (servers lb)" using nth_mem [OF n(1)] by (simp add: srv_def healthy_backends_def)
      obtain c where c: "health lb (be_ref srv) = Some c" "hc_maxConnections (lb_checks lb ! c) = be_capacity srv"
        "be_capacity srv < 4294967296" using i srv by (auto simp: lb_inv_def backends_ok_def)
      let ?s = "be_ref srv"
      let ?a = "length (lb_states lb)"
      let ?lb = "lb\<lparr>algo := al, connTable := (connTable lb)(?s := connTable lb ?s @ [cl]), byKey := (byKey lb)(cl_key cl \<mapsto> ?s),
        lb_states := lb_states lb @ [\<lparr>cn_lastActivity = eng_now (lb_engine lb), phase = stateHalfOpen\<rparr>],
        lb_connections := (lb_connections lb)(cl_key cl \<mapsto> ?a)\<rparr>"
      have lb': "lb' = ?lb" "res = Inr ?s" using r None p Inr n(1) by (simp_all add: Route_def Let_def srv_def)
      have rt: "routes_ok lb" using i by (simp add: lb_inv_def)
      have new: "\<And>t x. x \<in> set (connTable lb t) \<Longrightarrow> cl_key x \<noteq> cl_key cl" "lb_connections lb (cl_key cl) = None"
        using rt None unfolding routes_ok_def by (metis option.distinct(1), metis)
      have ro: "routes_ok ?lb"
        unfolding routes_ok_def
      proof (intro conjI allI impI)
        fix k s assume "byKey ?lb k = Some s"
        then show "\<exists>x. clients ?lb k = Some x \<and> x \<in> set (connTable ?lb s)"
          using i cl by (fastforce simp: lb_inv_def routes_ok_def split: if_splits)
      next
        fix s x assume x: "x \<in> set (connTable ?lb s)"
        show "byKey ?lb (cl_key x) = Some s" "clients ?lb (cl_key x) = Some x"
          using x new(1) [of x s] i cl by (auto simp: lb_inv_def routes_ok_def split: if_splits)
      next
        fix s show "distinct (connTable ?lb s)" using i new(1) [of cl s] by (auto simp: lb_inv_def routes_ok_def)
      next
        fix k show "(byKey ?lb k = None) = (lb_connections ?lb k = None)" using i by (auto simp: lb_inv_def routes_ok_def)
      qed
      have so: "states_ok ?lb"
        using i by (fastforce simp: lb_inv_def states_ok_def dest: less_SucI split: if_splits)
      have bo: "backends_ok ?lb" using i srv by (auto simp: lb_inv_def backends_ok_def)
      have room: "be_capacity srv = 0 \<or> length (connTable lb ?s) < be_capacity srv"
      proof (cases "be_capacity srv = 0")
        case False
        then have "length (connTable lb ?s) \<le> be_capacity srv" using i srv by (auto simp: lb_inv_def capacity_kept_def)
        then have "u32 (length (connTable lb ?s)) = length (connTable lb ?s)" using c(3) by (intro u32_id) simp
        then show ?thesis using n(2) c(1,2) False by (simp add: candidate_of_def has_room_def srv_def)
      qed simp
      have di: "distinct (map be_ref (servers lb))" using i by (simp add: lb_inv_def backends_ok_def)
      have "capacity_kept ?lb"
        unfolding capacity_kept_def
      proof
        fix v assume v: "v \<in> set (servers ?lb)"
        show "be_capacity v = 0 \<or> length (connTable ?lb (be_ref v)) \<le> be_capacity v"
        proof (cases "be_ref v = ?s")
          case True
          then have "v = srv" using v srv di by (simp add: distinct_map inj_on_def)
          then show ?thesis using room by auto
        next
          case False
          then show ?thesis using i v by (auto simp: lb_inv_def capacity_kept_def)
        qed
      qed
      moreover have "clients_ok ?lb" using i by (simp add: lb_inv_def clients_ok_def)
      moreover have "0 \<le> Latency (chaos lb)" using i by (simp add: lb_inv_def)
      ultimately have "lb_inv ?lb" using ro so bo by (simp add: lb_inv_def)
      then show ?thesis using lb' by simp
    qed
  qed
  then show "lb_inv lb'" "\<And>s. res = Inr s \<Longrightarrow> byKey lb' (cl_key cl) = Some s \<and> lb_connections lb' (cl_key cl) \<noteq> None"
    "clients lb' = clients lb" "closed lb' = closed lb" "lb_engine lb' = lb_engine lb" by simp_all
qed

section \<open>Forgetting and forwarding\<close>

lemma forgetRoute_ok:
  assumes i: "lb_inv lb"
  shows "lb_inv (forgetRoute key lb)"
proof (cases "byKey lb key")
  case None
  then have c: "lb_connections lb key = None" using i by (simp add: lb_inv_def routes_ok_def)
  have "same_tables lb (forgetRoute key lb)"
    using None c by (auto simp: forgetRoute_def same_tables_def Let_def fun_eq_iff split: option.split)
  then show ?thesis using same_tables_inv i by blast
next
  case (Some s)
  have rt: "routes_ok lb" using i by (simp add: lb_inv_def)
  then obtain cl where cl: "clients lb key = Some cl" "cl \<in> set (connTable lb s)" using Some unfolding routes_ok_def by blast
  have key: "cl_key cl = key" using cl(1) i by (simp add: lb_inv_def clients_ok_def)
  let ?lb = "lb\<lparr>connTable := (connTable lb)(s := remove1 cl (connTable lb s)), byKey := (byKey lb)(key := None),
    lb_connections := (lb_connections lb)(key := None)\<rparr>"
  have f: "forgetRoute key lb = ?lb" using Some cl(1) by (simp add: forgetRoute_def Let_def)
  have dis: "distinct (connTable lb t)" for t using rt by (simp add: routes_ok_def)
  have mem: "x \<in> set (connTable ?lb t) \<longleftrightarrow> x \<in> set (connTable lb t) \<and> (t = s \<longrightarrow> x \<noteq> cl)" for x t
    using dis [of s] by auto
  have other: "cl_key x \<noteq> key" if x: "x \<in> set (connTable ?lb t)" for x t
  proof
    assume k: "cl_key x = key"
    have xt: "x \<in> set (connTable lb t)" using x mem by blast
    then have "byKey lb key = Some t" "clients lb key = Some x" using rt k unfolding routes_ok_def by metis+
    then have "t = s" "x = cl" using Some cl(1) by simp_all
    then show False using x mem by blast
  qed
  have "routes_ok ?lb"
    unfolding routes_ok_def
  proof (intro conjI allI impI)
    fix k t assume b: "byKey ?lb k = Some t"
    then have k: "k \<noteq> key" "byKey lb k = Some t" by (auto split: if_splits)
    then obtain x where x: "clients lb k = Some x" "x \<in> set (connTable lb t)" using rt unfolding routes_ok_def by blast
    have "cl_key x = k" using x(1) i by (simp add: lb_inv_def clients_ok_def)
    then have "x \<noteq> cl" using k(1) key by auto
    then show "\<exists>x. clients ?lb k = Some x \<and> x \<in> set (connTable ?lb t)" using x mem by auto
  next
    fix t x assume x: "x \<in> set (connTable ?lb t)"
    have "byKey lb (cl_key x) = Some t" "clients lb (cl_key x) = Some x"
      using x mem rt unfolding routes_ok_def by blast+
    then show "byKey ?lb (cl_key x) = Some t" "clients ?lb (cl_key x) = Some x" using other [OF x] by simp_all
  next
    fix t show "distinct (connTable ?lb t)" using dis by simp
  next
    fix k show "(byKey ?lb k = None) = (lb_connections ?lb k = None)" using rt by (simp add: routes_ok_def)
  qed
  moreover have "states_ok ?lb" using i by (auto simp: lb_inv_def states_ok_def)
  moreover have "backends_ok ?lb" using i by (simp add: lb_inv_def backends_ok_def)
  moreover have "length (remove1 cl (connTable lb s)) \<le> length (connTable lb s)" by (simp add: length_remove1)
  then have "capacity_kept ?lb" using i by (fastforce simp: lb_inv_def capacity_kept_def intro: le_trans)
  moreover have "clients_ok ?lb" using i by (simp add: lb_inv_def clients_ok_def)
  moreover have "0 \<le> Latency (chaos lb)" using i by (simp add: lb_inv_def)
  ultimately show ?thesis unfolding f by (simp add: lb_inv_def)
qed

lemma sweep_ok: "lb_inv lb \<Longrightarrow> lb_inv (sweep cls lb)"
proof (induction cls arbitrary: lb)
  case (Cons cl cls)
  then show ?case using forgetRoute_ok [of lb "cl_key cl"] by (auto split: option.split)
qed simp

lemma observe_at_same: "observe_at connection pkt fs lb = Some lb' \<Longrightarrow> same_tables lb lb'"
  by (auto simp: observe_at_def split: option.splits if_splits)

lemma forward_same: "forward send pkt cl connection lb = Some lb' \<Longrightarrow> same_tables lb lb'"
  by (auto simp: forward_def Let_def split: option.splits if_splits prod.splits Option.bind_splits)

lemma processClientPacket_ok:
  assumes i: "lb_inv lb" and p: "processClientPacket fallback pkt lb = Some lb'"
  shows "lb_inv lb'"
proof (cases "clients lb (Key pkt)")
  case None
  then show ?thesis using p i by (simp add: processClientPacket_def)
next
  case (Some cl)
  have key: "cl_key cl = Key pkt" using Some i by (simp add: lb_inv_def clients_ok_def)
  have rest: "lb_inv lb'" if "lb_inv lb1" "do { lb2 \<leftarrow> observe_at connection pkt False lb1; forward (toServer lb2 s) pkt cl connection lb2 } = Some lb'"
    for lb1 s connection
  proof -
    from that(2) obtain lb2 where o: "observe_at connection pkt False lb1 = Some lb2"
      "forward (toServer lb2 s) pkt cl connection lb2 = Some lb'" by (auto split: Option.bind_splits)
    show ?thesis using same_tables_inv [OF same_tables_trans [OF observe_at_same [OF o(1)] forward_same [OF o(2)]] that(1)] .
  qed
  show ?thesis
  proof (cases "HasClient (Some cl) lb")
    case False
    then show ?thesis using p i Some by (simp add: processClientPacket_def)
  next
    case True
    show ?thesis
    proof (cases "byKey lb (Key pkt)")
      case (Some s)
      then show ?thesis using p \<open>clients lb (Key pkt) = Some cl\<close> True rest [OF i] by (simp add: processClientPacket_def Let_def)
    next
      case None
      show ?thesis
      proof (cases "base_flags (Flag pkt) = FlagSYN \<and> supportedMappingPacket pkt False")
        case False
        then show ?thesis using p i Some True None by (auto simp: processClientPacket_def)
      next
        case syn: True
        obtain lb1 res where r: "Route fallback cl lb = Some (lb1, res)"
          using p Some True None syn by (auto simp: processClientPacket_def split: Option.bind_splits)
        have i1: "lb_inv lb1" using Route_ok(1) [OF i _ r] Some key by simp
        show ?thesis
        proof (cases res)
          case (Inl err)
          then show ?thesis using p Some True None syn r i1 by (simp add: processClientPacket_def)
        next
          case (Inr s)
          then show ?thesis using p Some True None syn r rest [OF i1] by (simp add: processClientPacket_def Let_def)
        qed
      qed
    qed
  qed
qed

lemma processServerPacket_ok:
  assumes i: "lb_inv lb" and p: "processServerPacket srv pkt lb = Some lb'"
  shows "lb_inv lb'"
proof (cases "clients lb (Key pkt)")
  case None
  then show ?thesis using p i by (simp add: processServerPacket_def)
next
  case (Some cl)
  show ?thesis
  proof (cases "\<not> HasClient (Some cl) lb \<or> byKey lb (Key pkt) \<noteq> Some srv")
    case True
    then show ?thesis using p i Some by (auto simp: processServerPacket_def)
  next
    case False
    then obtain lb1 where o: "observe_at (lb_connections lb (Key pkt)) pkt True lb = Some lb1"
      "forward (clientTx lb1 (Key pkt)) pkt cl (lb_connections lb (Key pkt)) lb1 = Some lb'"
      using p Some by (auto simp: processServerPacket_def Let_def split: Option.bind_splits)
    show ?thesis using same_tables_inv [OF same_tables_trans [OF observe_at_same [OF o(1)] forward_same [OF o(2)]] i] .
  qed
qed

lemma run_work_ok: "lb_inv lb \<Longrightarrow> run_work fallback w lb = Some lb' \<Longrightarrow> lb_inv lb'"
  using processClientPacket_ok processServerPacket_ok by (cases w) (auto split: if_splits)

section \<open>Registration and events\<close>

lemma AddClient_ok:
  assumes i: "lb_inv lb"
  shows "lb_inv (fst (AddClient ref term send lb))"
proof (cases "AddClient ref term send lb = (lb, snd (AddClient ref term send lb))")
  case True
  then show ?thesis using i by (metis fst_conv)
next
  case False
  then obtain cl tx where c: "ref = Some cl" "send = Some tx" "\<not> closed lb" "\<not> term" "byKey lb (cl_key cl) = None"
    by (auto simp: AddClient_def split: option.splits if_splits)
  let ?lb = "lb\<lparr>clients := (clients lb)(cl_key cl \<mapsto> cl)\<rparr>"
  have rt: "routes_ok lb" using i by (simp add: lb_inv_def)
  have no: "cl_key x \<noteq> cl_key cl" if "x \<in> set (connTable lb s)" for x s
    using rt that c(5) unfolding routes_ok_def by (metis option.distinct(1))
  have nk: "k \<noteq> cl_key cl" if "byKey lb k = Some s" for k s using c(5) that by auto
  have "routes_ok ?lb"
    unfolding routes_ok_def
  proof (intro conjI allI impI)
    fix k s assume b: "byKey ?lb k = Some s"
    then have "\<exists>x. clients lb k = Some x \<and> x \<in> set (connTable lb s)" using rt unfolding routes_ok_def by auto
    then show "\<exists>x. clients ?lb k = Some x \<and> x \<in> set (connTable ?lb s)" using nk b by auto
  next
    fix s x assume x: "x \<in> set (connTable ?lb s)"
    then have "byKey lb (cl_key x) = Some s" "clients lb (cl_key x) = Some x" using rt unfolding routes_ok_def by auto
    then show "byKey ?lb (cl_key x) = Some s" "clients ?lb (cl_key x) = Some x" using no x by auto
  qed (use rt in \<open>simp_all add: routes_ok_def\<close>)
  then have "lb_inv ?lb"
    using i by (auto simp: lb_inv_def clients_ok_def states_ok_def backends_ok_def capacity_kept_def)
  moreover have "same_tables ?lb (fst (AddClient ref term send lb))"
    using c by (auto simp: AddClient_def Let_def same_tables_def split: option.split)
  ultimately show ?thesis using same_tables_inv by blast
qed

lemma scheduleHealthCheck_same: "scheduleHealthCheck srv check lb = Some lb' \<Longrightarrow> same_tables lb lb'"
  by (auto simp: scheduleHealthCheck_def split: Option.bind_splits)

lemma AddServer_ok:
  assumes i: "lb_inv lb" and a: "AddServer ref send lb = Some (lb', err)"
    and t: "\<And>srv. ref = Some srv \<Longrightarrow> be_capacity srv < 4294967296"
  shows "lb_inv lb'"
proof (cases "lb' = lb")
  case True
  then show ?thesis using i by simp
next
  case False
  then obtain srv tx where c: "ref = Some srv" "send = Some tx"
    "\<not> list_ex (\<lambda>x. be_ref x = be_ref srv \<or> be_ID x = be_ID srv) (servers lb)"
    using a by (auto simp: AddServer_def split: option.splits if_splits)
  define lb1 where "lb1 = lb\<lparr>servers := servers lb @ [srv], toServer := (toServer lb)(be_ref srv \<mapsto> tx),
                  lb_checks := lb_checks lb @ [\<lparr>tick = 0, timeout = 0, serial = 0, healthy = True,
                                                hc_maxConnections = be_capacity srv\<rparr>],
                  health := (health lb)(be_ref srv \<mapsto> length (lb_checks lb))\<rparr>"
  have s: "scheduleHealthCheck (be_ref srv) (length (lb_checks lb)) lb1 = Some lb'"
    using a c False by (auto simp: AddServer_def Let_def lb1_def split: if_splits Option.bind_splits)
  have new: "be_ref srv \<notin> be_ref ` set (servers lb)" "be_ID srv \<notin> be_ID ` set (servers lb)"
    using c(3) by (auto simp: list_ex_iff)
  have b: "backends_ok lb" and rt: "routes_ok lb" using i by (simp_all add: lb_inv_def)
  have old: "be_ref x \<noteq> be_ref srv" if "x \<in> set (servers lb)" for x using new(1) that by (metis image_eqI)
  have "backends_ok lb1"
    using b new old t [OF c(1)] unfolding backends_ok_def
    by (auto simp: lb1_def nth_append; metis less_SucI nth_append option.distinct(1))
  moreover have "connTable lb (be_ref srv) = []"
  proof (rule ccontr)
    assume "connTable lb (be_ref srv) \<noteq> []"
    then obtain x where "x \<in> set (connTable lb (be_ref srv))" by (meson list.set_sel(1))
    then have "byKey lb (cl_key x) = Some (be_ref srv)" using rt unfolding routes_ok_def by blast
    then show False using b new(1) unfolding backends_ok_def by blast
  qed
  then have "capacity_kept lb1" using i by (auto simp: lb1_def lb_inv_def capacity_kept_def)
  moreover have "clients_ok lb1" "routes_ok lb1" "states_ok lb1"
    "0 \<le> Latency (chaos lb1)"
    using i by (simp_all add: lb1_def lb_inv_def clients_ok_def routes_ok_def states_ok_def)
  ultimately have "lb_inv lb1" by (simp add: lb_inv_def)
  then show ?thesis using same_tables_inv scheduleHealthCheck_same [OF s] by blast
qed

lemma scheduleCleanup_same: "scheduleCleanup lb = Some lb' \<Longrightarrow> same_tables lb lb'"
  by (auto simp: scheduleCleanup_def split: Option.bind_splits)

lemma fire_health_same: "fire_health srv check lb = Some lb' \<Longrightarrow> same_tables lb lb'"
  by (auto simp: fire_health_def Let_def split: if_splits Option.bind_splits dest!: scheduleHealthCheck_same
      elim!: same_tables_trans [rotated])

lemma lb_fire_ok:
  assumes i: "lb_inv lb" and f: "lb_fire fallback ev lb = Some lb'"
  shows "lb_inv lb'"
proof (cases ev)
  case CleanupDue
  then show ?thesis using f i sweep_ok [OF i, of "clientOrder lb"] scheduleCleanup_same same_tables_inv
    by (auto simp: fire_cleanup_def split: if_splits)
next
  case (HealthTick srv check)
  then show ?thesis using same_tables_inv [OF fire_health_same [of srv check lb lb'] i] f by simp
next
  case (ProbeTimeout srv check n)
  have "same_tables lb lb'" using f ProbeTimeout by (auto simp: fire_timeout_def)
  then show ?thesis using same_tables_inv i by blast
next
  case (ForwardDue tx pkt cl connection)
  have "same_tables lb lb'" using f ForwardDue by auto
  then show ?thesis using same_tables_inv i by blast
next
  case (LBDone p)
  obtain e h work where c: "host_complete LBDone p (lb_engine lb, lb_processor lb) = Some (e, h, work)"
    using f LBDone by (auto split: Option.bind_splits)
  let ?lb = "lb\<lparr>lb_engine := e, lb_processor := h\<rparr>"
  have "lb_inv ?lb" using same_tables_inv [of lb ?lb] i by simp
  then show ?thesis using f LBDone c run_work_ok by (auto simp: Let_def split: option.splits)
next
  case (OtherEvent e)
  then show ?thesis using f i by simp
qed

lemma probe_reply_ok: "lb_inv lb \<Longrightarrow> probe_reply srv check n lb = Some lb' \<Longrightarrow> lb_inv lb'"
proof -
  assume "lb_inv lb" "probe_reply srv check n lb = Some lb'"
  moreover from this(2) have "same_tables lb lb'" by (auto simp: probe_reply_def split: if_splits Option.bind_splits)
  ultimately show ?thesis using same_tables_inv by blast
qed

lemma submit_ok:
  assumes i: "lb_inv lb" and s: "submit_work fallback w lb = Some lb'"
  shows "lb_inv lb'"
proof -
  obtain e p now ok where c: "host_Submit LBDone w (lb_engine lb, lb_processor lb) = Some (e, p, now, ok)"
    using s by (auto simp: submit_work_def split: Option.bind_splits)
  let ?lb = "lb\<lparr>lb_engine := e, lb_processor := p\<rparr>"
  have "lb_inv ?lb" using same_tables_inv [of lb ?lb] i by simp
  then show ?thesis using s c run_work_ok by (auto simp: submit_work_def Let_def split: option.splits)
qed

lemma cleared_ok:
  assumes "lb_inv lb"
  shows "lb_inv (ClearConnectionTable lb)"
  using assms by (simp add: lb_inv_def clients_ok_def routes_ok_def states_ok_def backends_ok_def capacity_kept_def
      ClearConnectionTable_def)

section \<open>Reachable states\<close>

text \<open>
  The balancer under any calls and events in any order; other components may change the engine, which
  the tables do not depend on, at will.
\<close>

inductive lb_reach :: "'o load_balancer \<Rightarrow> bool" where
  lb_new: "NewLoadBalancer e mode al r = Some lb \<Longrightarrow> lb_reach lb"
| lb_client: "lb_reach lb \<Longrightarrow> lb_reach (fst (AddClient ref term send lb))"
| lb_server: "lb_reach lb \<Longrightarrow> AddServer ref send lb = Some (lb', err) \<Longrightarrow>
    (\<And>srv. ref = Some srv \<Longrightarrow> be_capacity srv < 4294967296) \<Longrightarrow> lb_reach lb'"
| lb_client_packet: "lb_reach lb \<Longrightarrow> HandleClientPacket fallback pkt lb = Some lb' \<Longrightarrow> lb_reach lb'"
| lb_server_packet: "lb_reach lb \<Longrightarrow> HandleServerPacket fallback srv pkt lb = Some lb' \<Longrightarrow> lb_reach lb'"
| lb_event: "lb_reach lb \<Longrightarrow> lb_fire fallback ev lb = Some lb' \<Longrightarrow> lb_reach lb'"
| lb_reply: "lb_reach lb \<Longrightarrow> probe_reply srv check n lb = Some lb' \<Longrightarrow> lb_reach lb'"
| lb_clear: "lb_reach lb \<Longrightarrow> lb_reach (ClearConnectionTable lb)"
| lb_algorithm: "lb_reach lb \<Longrightarrow> lb_reach (SetAlgorithm al lb)"
| lb_chaos: "lb_reach lb \<Longrightarrow> SetChaosConfig c lb = Some lb' \<Longrightarrow> lb_reach lb'"
| lb_timeouts: "lb_reach lb \<Longrightarrow> SetMappingTimeouts t lb = Some lb' \<Longrightarrow> lb_reach lb'"
| lb_host: "lb_reach lb \<Longrightarrow> lb_SetHostConfig h lb = Some lb' \<Longrightarrow> lb_reach lb'"
| lb_shutdown: "lb_reach lb \<Longrightarrow> lb_Shutdown lb = Some lb' \<Longrightarrow> lb_reach lb'"
| lb_world: "lb_reach lb \<Longrightarrow> lb_reach (lb\<lparr>lb_engine := e\<rparr>)"

lemma new_tables:
  assumes "NewLoadBalancer e mode al r = Some lb"
  shows "lb_inv lb"
proof -
  obtain p :: "lb_work host" where p: "host_New e host_DefaultConfig = Some p"
    using assms by (auto simp: NewLoadBalancer_def split: Option.bind_splits)
  define lb0 where "lb0 = \<lparr>lb_engine = e, lb_processor = p, Mode = mode, algo = al, lb_rng = r, servers = [],
       clients = Map.empty, clientOrder = [], connTable = (\<lambda>_. []), byKey = Map.empty,
       lb_connections = Map.empty, lb_states = [], clientTx = Map.empty, toServer = Map.empty,
       health = Map.empty, lb_checks = [], chaos = \<lparr>Latency = 0, PacketDropRate = Fin 0\<rparr>, cleanup = 0,
       closed = False, timeouts = default_timeouts, lb_sent = [], lb_probes = []\<rparr>"
  have "scheduleCleanup lb0 = Some lb" using assms p by (simp add: NewLoadBalancer_def lb0_def)
  moreover have "lb_inv lb0"
    by (simp add: lb0_def lb_inv_def clients_ok_def routes_ok_def states_ok_def backends_ok_def capacity_kept_def)
  ultimately show ?thesis using same_tables_inv scheduleCleanup_same by blast
qed

lemma shutdown_tables:
  assumes i: "lb_inv lb" and s: "lb_Shutdown lb = Some lb'"
  shows "lb_inv lb'"
proof (cases "closed lb")
  case True
  then show ?thesis using i s by (simp add: lb_Shutdown_def)
next
  case False
  then have t: "clients lb' = Map.empty" "servers lb' = []" "byKey lb' = Map.empty" "lb_connections lb' = Map.empty"
    "connTable lb' = (\<lambda>_. [])" "health lb' = Map.empty" "chaos lb' = chaos lb"
    using s by (auto simp: lb_Shutdown_def Let_def ClearConnectionTable_def split: Option.bind_splits)
  show ?thesis
    using i unfolding lb_inv_def clients_ok_def routes_ok_def states_ok_def backends_ok_def capacity_kept_def t by simp
qed

lemma lb_reach_inv: "lb_reach lb \<Longrightarrow> lb_inv lb"
proof (induction rule: lb_reach.induct)
  case (lb_chaos lb c lb')
  then obtain ch where lb': "lb' = lb\<lparr>chaos := ch\<rparr>" "0 \<le> Latency ch"
    by (auto simp: SetChaosConfig_def not_less split: option.splits if_splits)
  show ?case using lb_chaos.IH lb'(2) unfolding lb'(1)
    by (simp add: lb_inv_def clients_ok_def routes_ok_def states_ok_def backends_ok_def capacity_kept_def)
next
  case (lb_timeouts lb t lb')
  then have "same_tables lb lb'" by (auto simp: SetMappingTimeouts_def Let_def split: if_splits)
  then show ?case using same_tables_inv lb_timeouts by blast
next
  case (lb_host lb h lb')
  then have "same_tables lb lb'" by (auto simp: lb_SetHostConfig_def split: if_splits Option.bind_splits)
  then show ?case using same_tables_inv lb_host by blast
next
  case (lb_algorithm lb al)
  have "same_tables lb (SetAlgorithm al lb)" by (simp add: SetAlgorithm_def)
  then show ?case using same_tables_inv lb_algorithm by blast
next
  case (lb_world lb e)
  then show ?case using same_tables_inv [of lb "lb\<lparr>lb_engine := e\<rparr>"] by simp
next
  case (lb_client_packet lb fallback pkt lb')
  then show ?case using submit_ok by (auto simp: HandleClientPacket_def split: if_splits)
next
  case (lb_server_packet lb fallback srv pkt lb')
  then show ?case using submit_ok by (auto simp: HandleServerPacket_def split: if_splits)
next
  case (lb_server lb ref send lb' err)
  then show ?case using AddServer_ok by blast
next
  case (lb_new e mode al r lb)
  then show ?case by (rule new_tables)
next
  case (lb_client lb ref dead send)
  show ?case by (rule AddClient_ok) (rule lb_client.IH)
next
  case (lb_event lb fallback ev lb')
  show ?case by (rule lb_fire_ok) (rule lb_event.IH lb_event.hyps)+
next
  case (lb_reply lb srv check n lb')
  show ?case by (rule probe_reply_ok) (rule lb_reply.IH lb_reply.hyps)+
next
  case (lb_clear lb)
  show ?case by (rule cleared_ok) (rule lb_clear.IH)
next
  case (lb_shutdown lb lb')
  show ?case by (rule shutdown_tables) (rule lb_shutdown.IH lb_shutdown.hyps)+
qed

section \<open>An example\<close>

definition demo_lb_engine :: "nat lb_event engine" where
  "demo_lb_engine = (case engine_New 1000000000 of Some e \<Rightarrow> e)"

definition demo_flow :: client_key where
  "demo_flow = \<lparr>SrcIP = ''10.0.0.1'', SrcPort = 4000, DstIP = ''10.0.0.9'', DstPort = 80, Protocol = TCP\<rparr>"

definition demo_syn :: packet where
  "demo_syn = \<lparr>Key = demo_flow, Flag = FlagSYN, Size = 0, Seq = 7, Ack = 0, ECN = NotECT, ReceiveWindowBytes = 0,
      SACKPermitted = False, SACKBlocks = []\<rparr>"

definition demo_lb :: "nat load_balancer option" where
  "demo_lb = do {
     lb \<leftarrow> NewLoadBalancer demo_lb_engine NAT (RoundRobin 0) (rng_new (\<lambda>_. 0));
     (lb, _) \<leftarrow> AddServer (Some \<lparr>be_ref = 1, be_ID = ''b1'', be_capacity = 1\<rparr>) (Some 11) lb;
     (lb, _) \<leftarrow> AddServer (Some \<lparr>be_ref = 2, be_ID = ''b2'', be_capacity = 1\<rparr>) (Some 12) lb;
     Some (fst (AddClient (Some \<lparr>instance_id = 5, cl_key = demo_flow\<rparr>) False (Some 10) lb))
   }"

lemma ScheduleAfter_keeps: "ScheduleAfter e d cb = Some (e', i) \<Longrightarrow> eng_inv e \<Longrightarrow> eng_inv e'"
  using ScheduleAfter_zero [of e d cb e'] ScheduleAfter_inv [of e d cb e' i] by (cases "i = 0") auto

lemma NewLoadBalancer_engine:
  assumes "NewLoadBalancer e mode al r = Some lb" "eng_inv e"
  shows "eng_inv (lb_engine lb)"
  using assms by (auto simp: NewLoadBalancer_def scheduleCleanup_def split: Option.bind_splits
      intro: ScheduleAfter_keeps)

lemma AddServer_engine:
  assumes "AddServer ref send lb = Some (lb', err)" "eng_inv (lb_engine lb)"
  shows "eng_inv (lb_engine lb')"
  using assms by (auto simp: AddServer_def scheduleHealthCheck_def upd_check_def Let_def split: Option.bind_splits if_splits option.splits
      intro: ScheduleAfter_keeps)

lemma demo_lb_reach:
  assumes "demo_lb = Some lb"
  shows "lb_reach lb \<and> eng_inv (lb_engine lb)"
proof -
  obtain e :: "nat lb_event engine" where e: "engine_New 1000000000 = Some e" by (simp add: engine_New_def)
  have "eng_inv demo_lb_engine" using engine_New_inv [OF e] e by (simp add: demo_lb_engine_def max_i64_def)
  moreover obtain lb0 lb1 lb2 x y where s: "NewLoadBalancer demo_lb_engine NAT (RoundRobin 0) (rng_new (\<lambda>_. 0)) = Some lb0"
    "AddServer (Some \<lparr>be_ref = 1, be_ID = ''b1'', be_capacity = 1\<rparr>) (Some 11) lb0 = Some (lb1, x)"
    "AddServer (Some \<lparr>be_ref = 2, be_ID = ''b2'', be_capacity = 1\<rparr>) (Some 12) lb1 = Some (lb2, y)"
    "lb = fst (AddClient (Some \<lparr>instance_id = 5, cl_key = demo_flow\<rparr>) False (Some 10) lb2)"
    using assms by (auto simp: demo_lb_def split: Option.bind_splits)
  ultimately have "eng_inv (lb_engine lb2)" using NewLoadBalancer_engine AddServer_engine by metis
  moreover have "lb_engine lb = lb_engine lb2" using s(4) by (simp add: AddClient_def Let_def split: option.split)
  moreover have "lb_reach lb0" by (rule lb_new) (rule s)
  then have "lb_reach lb1" by (rule lb_server [OF _ s(2)]) auto
  then have "lb_reach lb2" by (rule lb_server [OF _ s(3)]) auto
  then have "lb_reach lb" unfolding s(4) by (rule lb_client)
  ultimately show ?thesis by simp
qed

lemma demo_lb_state:
  "case demo_lb of None \<Rightarrow> False | Some lb \<Rightarrow>
     length (servers lb) = 2 \<and> next_id (lb_engine lb) = 2 \<and> byKey lb demo_flow = None \<and> (case algo lb of RoundRobin i \<Rightarrow> i = 0 | Random r \<Rightarrow> False) \<and>
     clients lb demo_flow \<noteq> None \<and> toServer lb 1 = Some 11"
  by code_simp

lemma demo_lb_syn:
  "case demo_lb \<bind> HandleClientPacket (rng_new (\<lambda>_. 0)) demo_syn of None \<Rightarrow> False | Some lb \<Rightarrow>
     byKey lb demo_flow = Some 1 \<and> lb_sent lb = [(11, demo_syn)] \<and> length (VisitRoutes lb) = 1"
  by code_simp

section \<open>Properties\<close>

lemma distinct_concat_keys:
  assumes "distinct (map be_ref bs)"
    and "\<And>s. distinct (tab s)" and "\<And>s t x y. x \<in> set (tab s) \<Longrightarrow> y \<in> set (tab t) \<Longrightarrow> cl_key x = cl_key y \<Longrightarrow> s = t \<and> x = y"
  shows "distinct (concat (map (\<lambda>srv. map cl_key (tab (be_ref srv))) bs))"
  using assms(1)
proof (induction bs)
  case (Cons b bs)
  have "distinct (map cl_key (tab (be_ref b)))" using assms(2,3) by (auto simp: distinct_map inj_on_def)
  moreover have "set (map cl_key (tab (be_ref b))) \<inter> set (concat (map (\<lambda>srv. map cl_key (tab (be_ref srv))) bs)) = {}"
  proof (rule ccontr)
    assume "set (map cl_key (tab (be_ref b))) \<inter> set (concat (map (\<lambda>srv. map cl_key (tab (be_ref srv))) bs)) \<noteq> {}"
    then obtain x c y where "x \<in> set (tab (be_ref b))" "c \<in> set bs" "y \<in> set (tab (be_ref c))" "cl_key x = cl_key y" by auto
    then have "be_ref b = be_ref c" using assms(3) by blast
    then show False using Cons.prems \<open>c \<in> set bs\<close> by (auto simp: rev_image_eqI)
  qed
  ultimately show ?case using Cons by simp
qed simp

text \<open>C38: The routing tables always agree: a flow that is mapped to a backend is observed, belongs to the
  registered client of that key, and is listed by exactly that backend and once; the routes reported are
  exactly the mapped flows, each once; and no backend has more mappings than the capacity recorded for it.\<close>

theorem balancer_routes_consistent:
  assumes "lb_reach lb"
  shows "(\<forall>k s. byKey lb k = Some s \<longrightarrow> lb_connections lb k \<noteq> None \<and> (\<exists>srv \<in> set (servers lb). be_ref srv = s) \<and>
      (\<exists>cl. clients lb k = Some cl \<and> cl_key cl = k \<and> cl \<in> set (connTable lb s))) \<and>
    (\<forall>s cl. cl \<in> set (connTable lb s) \<longrightarrow> byKey lb (cl_key cl) = Some s) \<and>
    set (map snd (VisitRoutes lb)) = {k. byKey lb k \<noteq> None} \<and> distinct (map snd (VisitRoutes lb)) \<and>
    (\<forall>srv \<in> set (servers lb). be_capacity srv = 0 \<or> length (connTable lb (be_ref srv)) \<le> be_capacity srv)"
proof -
  have i: "clients_ok lb" "routes_ok lb" "states_ok lb" "backends_ok lb" "capacity_kept lb"
    using lb_reach_inv [OF assms] by (simp_all add: lb_inv_def)
  have mapped: "lb_connections lb k \<noteq> None \<and> (\<exists>srv \<in> set (servers lb). be_ref srv = s) \<and>
      (\<exists>cl. clients lb k = Some cl \<and> cl_key cl = k \<and> cl \<in> set (connTable lb s))" if b: "byKey lb k = Some s" for k s
  proof -
    obtain cl where cl: "clients lb k = Some cl" "cl \<in> set (connTable lb s)" using i(2) b unfolding routes_ok_def by blast
    moreover have "cl_key cl = k" using cl(1) i(1) unfolding clients_ok_def by blast
    moreover have "s \<in> be_ref ` set (servers lb)" using i(4) b unfolding backends_ok_def by blast
    ultimately show ?thesis using mapped_observed [OF i(2) b] by blast
  qed
  have listed: "byKey lb (cl_key cl) = Some s" "clients lb (cl_key cl) = Some cl" if "cl \<in> set (connTable lb s)" for s cl
    using i(2) that unfolding routes_ok_def by blast+
  have v: "map snd (VisitRoutes lb) = concat (map (\<lambda>srv. map cl_key (connTable lb (be_ref srv))) (servers lb))"
    by (simp add: VisitRoutes_def map_concat comp_def)
  have uniq: "s = t \<and> x = y" if "x \<in> set (connTable lb s)" "y \<in> set (connTable lb t)" "cl_key x = cl_key y" for s t x y
  proof -
    have "Some s = Some t" using listed(1) [OF that(1)] listed(1) [OF that(2)] that(3) by metis
    moreover have "Some x = Some y" using listed(2) [OF that(1)] listed(2) [OF that(2)] that(3) by metis
    ultimately show ?thesis by blast
  qed
  have dis: "distinct (map be_ref (servers lb))" "\<And>s. distinct (connTable lb s)"
    using i(2,4) by (simp_all add: backends_ok_def routes_ok_def)
  have "distinct (map snd (VisitRoutes lb))" unfolding v by (rule distinct_concat_keys [OF dis uniq])
  moreover have "k \<in> set (map snd (VisitRoutes lb)) \<longleftrightarrow> byKey lb k \<noteq> None" for k
  proof
    assume "byKey lb k \<noteq> None"
    then obtain s where "byKey lb k = Some s" by blast
    from mapped [OF this] show "k \<in> set (map snd (VisitRoutes lb))" unfolding v by fastforce
  next
    assume "k \<in> set (map snd (VisitRoutes lb))"
    then have "\<exists>srv\<in>set (servers lb). \<exists>cl\<in>set (connTable lb (be_ref srv)). k = cl_key cl" unfolding v by auto
    then obtain srv cl where "srv \<in> set (servers lb)" "cl \<in> set (connTable lb (be_ref srv))" "k = cl_key cl" by blast
    then show "byKey lb k \<noteq> None" using listed(1) by simp
  qed
  then have "set (map snd (VisitRoutes lb)) = {k. byKey lb k \<noteq> None}" by blast
  moreover have "\<forall>srv \<in> set (servers lb). be_capacity srv = 0 \<or> length (connTable lb (be_ref srv)) \<le> be_capacity srv"
    using i(5) by (simp add: capacity_kept_def)
  ultimately show ?thesis using mapped listed(1) by blast
qed

theorem balancer_routes_consistent_witness:
  "\<exists>lb. demo_lb \<bind> HandleClientPacket (rng_new (\<lambda>_. 0)) demo_syn = Some lb \<and> byKey lb demo_flow = Some 1 \<and>
    lb_connections lb demo_flow \<noteq> None \<and> set (map snd (VisitRoutes lb)) = {k. byKey lb k \<noteq> None} \<and>
    distinct (map snd (VisitRoutes lb))"
proof -
  obtain lb0 where a: "demo_lb = Some lb0" using demo_lb_state by (cases demo_lb) auto
  obtain lb where b: "HandleClientPacket (rng_new (\<lambda>_. 0)) demo_syn lb0 = Some lb" "byKey lb demo_flow = Some 1"
    using demo_lb_syn [unfolded a] by (cases "HandleClientPacket (rng_new (\<lambda>_. 0)) demo_syn lb0") simp_all
  have "lb_reach lb" using lb_client_packet [OF conjunct1 [OF demo_lb_reach [OF a]] b(1)] .
  from balancer_routes_consistent [OF this] b have "byKey lb demo_flow = Some 1 \<and> lb_connections lb demo_flow \<noteq> None \<and>
    set (map snd (VisitRoutes lb)) = {k. byKey lb k \<noteq> None} \<and> distinct (map snd (VisitRoutes lb))" by blast
  moreover have "demo_lb \<bind> HandleClientPacket (rng_new (\<lambda>_. 0)) demo_syn = Some lb" unfolding a by (simp add: b(1))
  ultimately show ?thesis by blast
qed







section \<open>What the observer sees\<close>

definition saw :: "(packet \<Rightarrow> bool \<Rightarrow> bool) \<Rightarrow> (packet \<times> bool \<times> duration) list \<Rightarrow> bool" where
  "saw P seen \<longleftrightarrow> (\<exists>(pkt, fs, _) \<in> set seen. supportedMappingPacket pkt fs \<and> P pkt fs)"

definition phase_of :: "bool \<Rightarrow> bool \<Rightarrow> bool \<Rightarrow> connection_phase" where
  "phase_of rst fin ack =
     (if rst then stateReset else if fin then stateClosing else if ack then stateEstablished else stateHalfOpen)"

lemma observe_phase:
  assumes "supportedMappingPacket pkt fs" "phase c = phase_of R F A"
  shows "phase (observe pkt fs now c) = phase_of (R \<or> has_flag (Flag pkt) FlagRST) (F \<or> has_flag (Flag pkt) FlagFIN)
    (A \<or> \<not> fs \<and> \<not> has_flag (Flag pkt) FlagSYN \<and> has_flag (Flag pkt) FlagACK)"
  using assms by (simp add: observe_def Let_def phase_of_def)

lemma saw_snoc: "saw P (xs @ [(pkt, fs, now)]) \<longleftrightarrow> saw P xs \<or> supportedMappingPacket pkt fs \<and> P pkt fs"
  by (auto simp: saw_def)

text \<open>C40: The phase of an observed flow depends only on which packets were seen, not on their order or
  repetition: it is that of the strongest of RST, FIN and the client's ACK among the supported packets,
  and the flow's activity is the time of the last supported packet.\<close>

theorem observed_phase:
  fixes seen :: "(packet \<times> bool \<times> duration) list"
  shows "let c = fold (\<lambda>(pkt, fs, now) c. observe pkt fs now c) seen \<lparr>cn_lastActivity = t, phase = stateHalfOpen\<rparr>;
      supported = filter (\<lambda>(pkt, fs, _). supportedMappingPacket pkt fs) seen
    in phase c =
        (if saw (\<lambda>pkt fs. has_flag (Flag pkt) FlagRST) seen then stateReset
         else if saw (\<lambda>pkt fs. has_flag (Flag pkt) FlagFIN) seen then stateClosing
         else if saw (\<lambda>pkt fs. \<not> fs \<and> \<not> has_flag (Flag pkt) FlagSYN \<and> has_flag (Flag pkt) FlagACK) seen
         then stateEstablished else stateHalfOpen) \<and>
      cn_lastActivity c = (if supported = [] then t else snd (snd (last supported)))"
  unfolding Let_def phase_of_def [symmetric]
proof (induction seen rule: rev_induct)
  case Nil
  then show ?case by (simp add: saw_def phase_of_def)
next
  case (snoc x xs)
  obtain pkt fs now where x: "x = (pkt, fs, now)" by (cases x) auto
  let ?c = "fold (\<lambda>(pkt, fs, now) c. observe pkt fs now c) xs \<lparr>cn_lastActivity = t, phase = stateHalfOpen\<rparr>"
  show ?case
  proof (cases "supportedMappingPacket pkt fs")
    case False
    then have "observe pkt fs now ?c = ?c" by (simp add: observe_def)
    then show ?thesis using snoc False by (simp add: x saw_snoc)
  next
    case True
    have "cn_lastActivity (observe pkt fs now ?c) = now" using True by (simp add: observe_def Let_def)
    then show ?thesis using observe_phase [OF True conjunct1 [OF snoc], of now] True by (simp add: x saw_snoc)
  qed
qed

end
