(* ===== verification/Adapter.thy ===== *)
theory Adapter
  imports Policy
begin

text \<open>
  The congestion control of a connection as TCP sees it: \<open>protocols/tcp/congestion_adapter.go\<close> (the
  methods of \<open>congestionControl\<close>) and \<open>protocols/tcp/loss_detection.go\<close>.  It counts duplicate
  acknowledgements, remembers the ends of flights that were already reduced or timed out, and tells
  the selected policy.  The methods of the sender in the same file are in \<open>Sender\<close>.
\<close>

record loss_detection =
  duplicateACKs :: nat
  fastRetransmissions :: nat
  untilSeq :: nat

record congestion_control =
  ct_config :: congestion_config
  policy :: policy
  loss :: loss_detection
  lastDataSentAt :: duration
  hasSentData :: bool
  timedOutSegmentEnd :: nat
  ct_ecnNegotiated :: bool
  reductionEndSeq :: nat
  cwrPending :: bool

definition newCongestionControlWithMSS :: "congestion_config \<Rightarrow> int \<Rightarrow> congestion_control option" where
  "newCongestionControlWithMSS config mss = do {
     p \<leftarrow> NewWithMSS config mss;
     Some \<lparr>ct_config = config, policy = p,
           loss = \<lparr>duplicateACKs = 0, fastRetransmissions = 0, untilSeq = 0\<rparr>, lastDataSentAt = 0,
           hasSentData = False, timedOutSegmentEnd = 0, ct_ecnNegotiated = False, reductionEndSeq = 0,
           cwrPending = False\<rparr>
   }"

definition newCongestionControl :: "congestion_config \<Rightarrow> congestion_control option" where
  "newCongestionControl config = newCongestionControlWithMSS config DefaultMSSBytes"

definition upd_loss :: "(loss_detection \<Rightarrow> loss_detection) \<Rightarrow> congestion_control \<Rightarrow> congestion_control" where
  "upd_loss f ct = ct\<lparr>loss := f (loss ct)\<rparr>"

definition ct_acknowledge ::
  "float_env \<Rightarrow> ack_info \<Rightarrow> congestion_control \<Rightarrow> congestion_control \<times> ack_response"
where
  "ct_acknowledge env ack ct =
     (let ct = (if timedOutSegmentEnd ct \<noteq> 0 \<and> timedOutSegmentEnd ct \<le> CumulativeACK ack
                then ct\<lparr>timedOutSegmentEnd := 0\<rparr> else ct);
          ct = upd_loss (\<lambda>l. l\<lparr>duplicateACKs := 0\<rparr>) ct;
          ct = (if untilSeq (loss ct) \<noteq> 0 \<and> untilSeq (loss ct) \<le> CumulativeACK ack
                then upd_loss (\<lambda>l. l\<lparr>untilSeq := 0\<rparr>) ct else ct);
          (p, response) = OnACK env ack (policy ct)
      in (ct\<lparr>policy := p\<rparr>, response))"

definition recordReduction :: "nat \<Rightarrow> congestion_control \<Rightarrow> congestion_control" where
  "recordReduction next_seq ct =
     (if ct_ecnNegotiated ct then ct\<lparr>reductionEndSeq := next_seq, cwrPending := True\<rparr> else ct)"

definition onDataTimeout ::
  "packet \<Rightarrow> nat \<Rightarrow> nat \<Rightarrow> duration \<Rightarrow> bool \<Rightarrow> congestion_control \<Rightarrow> congestion_control"
where
  "onDataTimeout packet flight next_seq now retryingRetransmission ct =
     (let ct = upd_loss (\<lambda>l. l\<lparr>duplicateACKs := 0, untilSeq := next_seq\<rparr>) ct;
          alreadyTimedOut = (timedOutSegmentEnd ct \<noteq> 0);
          ct = (if \<not> alreadyTimedOut then ct\<lparr>timedOutSegmentEnd := u64 (Seq packet + nat (Size packet))\<rparr> else ct);
          (p, _) = OnLoss \<lparr>loss_At = now, loss_kind = TimeoutLoss, loss_FlightBytes = flight,
              loss_CumulativeACK = Seq packet, NextSendSeq = next_seq, PendingSegments = 0,
              AlreadyTimedOut = alreadyTimedOut,
              AlreadyReduced = \<not> retryingRetransmission \<and> ct_ecnNegotiated ct \<and> Seq packet < reductionEndSeq ct,
              loss_SACKRecovery = False\<rparr> (policy ct)
      in recordReduction next_seq (ct\<lparr>policy := p\<rparr>))"

definition ct_afterSYNRetry :: "duration \<Rightarrow> congestion_control \<Rightarrow> congestion_control" where
  "ct_afterSYNRetry now ct =
     (let (p, _) = OnLoss \<lparr>loss_At = now, loss_kind = HandshakeLoss, loss_FlightBytes = 0, loss_CumulativeACK = 0,
              NextSendSeq = 0, PendingSegments = 0, AlreadyTimedOut = False, AlreadyReduced = False,
              loss_SACKRecovery = False\<rparr> (policy ct)
      in ct\<lparr>policy := p\<rparr>)"

definition restartAfterIdle :: "duration \<Rightarrow> duration \<Rightarrow> congestion_control \<Rightarrow> congestion_control" where
  "restartAfterIdle now currentRTO ct =
     (if hasSentData ct \<and> currentRTO < i64 (now - lastDataSentAt ct) then
        let before = WindowBytes (State (policy ct));
            ct = ct\<lparr>policy := OnIdle (policy ct)\<rparr>
        in if ct_ecnNegotiated ct \<and> WindowBytes (State (policy ct)) < before then ct\<lparr>cwrPending := True\<rparr> else ct
      else ct)"

text \<open>No policy acts on \<open>OnSent\<close>.\<close>

definition recordDataSent :: "duration \<Rightarrow> congestion_control \<Rightarrow> congestion_control" where
  "recordDataSent now ct = ct\<lparr>lastDataSentAt := now, hasSentData := True\<rparr>"

definition clearLossTracking :: "congestion_control \<Rightarrow> congestion_control" where
  "clearLossTracking ct =
     (let ct = upd_loss (\<lambda>l. l\<lparr>duplicateACKs := 0, untilSeq := 0\<rparr>) ct
      in ct\<lparr>policy := StopRecovery (policy ct)\<rparr>)"

definition ct_duplicateACK ::
  "nat \<Rightarrow> int \<Rightarrow> nat \<Rightarrow> nat \<Rightarrow> duration \<Rightarrow> bool \<Rightarrow> congestion_control \<Rightarrow> congestion_control \<times> bool"
where
  "ct_duplicateACK flight pendingCount next_seq oldest_seq now ecnFeedback ct =
     (if \<not> cc_FastRetransmit (ct_config ct) \<or> flight = 0 then (ct, False)
      else
        let ct = upd_loss (\<lambda>l. l\<lparr>duplicateACKs := u64 (duplicateACKs l + 1)\<rparr>) ct;
            ct = (if \<not> ecnFeedback then ct\<lparr>policy := OnDuplicateACK (policy ct)\<rparr> else ct)
        in if untilSeq (loss ct) \<noteq> 0 \<or> duplicateACKs (loss ct) \<noteq> 3 then (ct, False)
           else
             let alreadyReduced = (ct_ecnNegotiated ct \<and> oldest_seq < reductionEndSeq ct);
                 (p, response) = OnLoss \<lparr>loss_At = now, loss_kind = FastRetransmitLoss, loss_FlightBytes = flight,
                     loss_CumulativeACK = oldest_seq, NextSendSeq = next_seq, PendingSegments = pendingCount,
                     AlreadyTimedOut = False, AlreadyReduced = alreadyReduced, loss_SACKRecovery = False\<rparr> (policy ct);
                 ct = ct\<lparr>policy := p\<rparr>
             in if SuppressFastRetransmit response then (ct, False)
                else
                  let ct = upd_loss (\<lambda>l. l\<lparr>untilSeq := next_seq\<rparr>) ct;
                      ct = (if \<not> alreadyReduced then recordReduction next_seq ct else ct)
                  in (ct, True))"

end
