(* ===== verification/Sender.thy ===== *)
theory Sender
  imports Engine Adapter Rto Scoreboard SendBuffer
begin

text \<open>
  The active side of a TCP connection and the client that owns it: \<open>protocols/tcp/sender.go\<close>,
  \<open>sender_data.go\<close>, \<open>sender_receive.go\<close>, \<open>sender_retransmission.go\<close>, \<open>sender_closing.go\<close>,
  \<open>sender_transfer.go\<close>, \<open>sack_recovery.go\<close>, \<open>ecn_sender.go\<close>, the sender's methods of
  \<open>congestion_adapter.go\<close>, and \<open>client/client.go\<close>, \<open>client/tcp.go\<close> and \<open>client/workload.go\<close>.

  A \<open>Client\<close> has one \<open>Sender\<close> and the two are one record here, with the fields of the sender and the
  client's \<open>floodEvent\<close>; the workload is the \<open>finite_stream\<close> that \<open>SendCompleteStream\<close> makes, the only
  implementation of \<open>PayloadSource\<close>.  Packets given to the send function, which only puts them on a
  link, are listed in order in \<open>sentPackets\<close>, and the calls of the client's three observers, which only
  count, in \<open>notified\<close>.  The closures given to the engine are the values of \<open>client_event\<close>.
\<close>

section \<open>State\<close>

record finite_stream =
  remaining :: int
  gap :: duration
  fs_endTime :: duration
  nextSendAt :: duration
  withinRun :: bool

record round_trip_probe =
  probe_active :: bool
  sentAt :: duration
  endSeq :: nat
  recovering :: bool
  recoveryUntilSeq :: nat

record connection_close =
  cl_config :: close_config
  cl_state :: tcp_state
  cl_outcome :: "close_outcome option"
  requested :: bool
  finSent :: bool
  finAcked :: bool
  peerFIN :: bool
  finSeq :: nat
  finRetransmissions :: nat
  finRetryDelay :: duration
  cl_started :: bool
  cl_startedAt :: duration
  cl_finishedAt :: duration
  finSendEvent :: nat
  finTimer :: nat
  waitTimer :: nat

record sack_sender =
  sk_enabled :: bool
  negotiated :: bool
  board :: ranges
  sk_active :: bool
  recoveryEndSeq :: nat
  retransmittedEnd :: nat
  rescueAfterSeq :: nat
  sk_duplicateACKs :: nat
  pipeBytes :: nat
  dispatching :: bool

record sender_ecn =
  ecn_st :: ecn_state
  holdUntil :: duration
  holdEvent :: nat
  holdRTO :: duration
  holdBeyondRun :: bool
  retryRanges :: "sack_block list"

record transfer_metrics =
  status :: transfer_status
  failureReason :: "transfer_failure option"
  tm_startedAt :: duration
  tm_finishedAt :: duration
  handshakeDuration :: duration
  payloadStarted :: bool
  payloadStartedAt :: duration
  payloadDuration :: duration
  synRetransmissions :: nat
  dataRetransmissions :: nat

datatype sender_timer = SynSend | SynTimer | DataTimer | ReadTimer | SendDue | HoldDue | FINSend | FINRetry
  | FinWaitDue | TimeWaitDue

datatype 'o client_event = TCPDue sender_timer | FloodDue nat nat duration | ClientOther 'o

datatype notification = Closed | StreamComplete | PayloadAcknowledged int

record 'o client =
  key :: client_key
  cl_engine :: "'o client_event engine"
  hasSender :: bool
  sentPackets :: "packet list"
  notified :: "notification list"
  floodEvent :: nat
  terminated :: bool
  connection :: connection_close
  handshakeStarted :: bool
  handshakeCompleted :: bool
  retrySyn :: nat
  pendingSegments :: send_buffer
  oldestSegmentRetransmissions :: nat
  rto :: rto_estimator
  rttProbe :: round_trip_probe
  idleTimeout :: duration
  congestion :: congestion_control
  sack :: sack_sender
  ecn :: sender_ecn
  nextSendSeq :: nat
  oldestUnackedSeq :: nat
  nextReceiveSeq :: nat
  peerInitialSeq :: nat
  peerWindowEnd :: nat
  peerReceiveWindow :: nat
  receiveWindowBytes :: nat
  cl_mssBytes :: int
  streamCompleted :: bool
  remainingPayloadBytesToConfirm :: int
  source :: "finite_stream option"
  acknowledgedPayloadBytes :: nat
  transfer :: transfer_metrics
  synSendEvent :: nat
  synTimer :: nat
  dataTimer :: nat
  readTimer :: nat
  sendEvent :: nat
  sendEventAt :: duration

type_synonym 'o client_op = "'o client \<Rightarrow> 'o client option"

definition READ_DEADLINE :: duration where
  "READ_DEADLINE = DefaultClientIdleTimeout"

definition GeneratePacket :: "client_key \<Rightarrow> flag \<Rightarrow> int \<Rightarrow> nat \<Rightarrow> nat \<Rightarrow> packet" where
  "GeneratePacket k fl sz seq ack =
     \<lparr>Key = k, Flag = fl, Size = sz, Seq = seq, Ack = ack, ECN = NotECT, ReceiveWindowBytes = 0,
      SACKPermitted = False, SACKBlocks = []\<rparr>"

definition GenerateClientKey :: "string \<Rightarrow> nat \<Rightarrow> string \<Rightarrow> nat \<Rightarrow> protocol \<Rightarrow> client_key" where
  "GenerateClientKey srcIP srcPort dstIP dstPort protocol =
     \<lparr>SrcIP = srcIP, SrcPort = srcPort, DstIP = dstIP, DstPort = dstPort, Protocol = protocol\<rparr>"

definition no_probe :: round_trip_probe where
  "no_probe = \<lparr>probe_active = False, sentAt = 0, endSeq = 0, recovering = False, recoveryUntilSeq = 0\<rparr>"

definition NewSender :: "'o client_event engine \<Rightarrow> client_key \<Rightarrow> 'o client option" where
  "NewSender e k = do {
     r \<leftarrow> newRTOEstimator DefaultRTOConfig;
     ct \<leftarrow> newCongestionControl DefaultCongestionConfig;
     if Protocol k \<noteq> TCP then None
     else Some \<lparr>key = k, cl_engine = e, hasSender = False, sentPackets = [], notified = [], floodEvent = 0,
       terminated = False,
       connection = \<lparr>cl_config = DefaultCloseConfig, cl_state = TCPClosed, cl_outcome = None, requested = False,
         finSent = False, finAcked = False, peerFIN = False, finSeq = 0, finRetransmissions = 0, finRetryDelay = 0,
         cl_started = False, cl_startedAt = 0, cl_finishedAt = 0, finSendEvent = 0, finTimer = 0, waitTimer = 0\<rparr>,
       handshakeStarted = False, handshakeCompleted = False, retrySyn = 0, pendingSegments = sb_empty,
       oldestSegmentRetransmissions = 0, rto = r, rttProbe = no_probe, idleTimeout = READ_DEADLINE, congestion = ct,
       sack = \<lparr>sk_enabled = False, negotiated = False, board = [], sk_active = False, recoveryEndSeq = 0,
         retransmittedEnd = 0, rescueAfterSeq = 0, sk_duplicateACKs = 0, pipeBytes = 0, dispatching = False\<rparr>,
       ecn = \<lparr>ecn_st = zero_ecn_state, holdUntil = 0, holdEvent = 0, holdRTO = 0, holdBeyondRun = False,
         retryRanges = []\<rparr>,
       nextSendSeq = 0, oldestUnackedSeq = 0, nextReceiveSeq = 0, peerInitialSeq = 0, peerWindowEnd = 0,
       peerReceiveWindow = 0, receiveWindowBytes = DefaultReceiveBufferBytes, cl_mssBytes = DefaultMSSBytes,
       streamCompleted = False, remainingPayloadBytesToConfirm = 0, source = None, acknowledgedPayloadBytes = 0,
       transfer = \<lparr>status = TransferInProgress, failureReason = None, tm_startedAt = 0, tm_finishedAt = 0,
         handshakeDuration = 0, payloadStarted = False, payloadStartedAt = 0, payloadDuration = 0,
         synRetransmissions = 0, dataRetransmissions = 0\<rparr>,
       synSendEvent = 0, synTimer = 0, dataTimer = 0, readTimer = 0, sendEvent = 0, sendEventAt = 0\<rparr>
   }"

definition NewClient ::
  "'o client_event engine \<Rightarrow> string \<Rightarrow> nat \<Rightarrow> string \<Rightarrow> nat \<Rightarrow> protocol \<Rightarrow> 'o client option"
where
  "NewClient e srcIP srcPort dstIP dstPort protocol = NewSender e (GenerateClientKey srcIP srcPort dstIP dstPort protocol)"

text \<open>Updates of the nested structures.\<close>

definition upd_close :: "(connection_close \<Rightarrow> connection_close) \<Rightarrow> 'o client \<Rightarrow> 'o client" where
  "upd_close f c = c\<lparr>connection := f (connection c)\<rparr>"

definition upd_sack :: "(sack_sender \<Rightarrow> sack_sender) \<Rightarrow> 'o client \<Rightarrow> 'o client" where
  "upd_sack f c = c\<lparr>sack := f (sack c)\<rparr>"

definition upd_ecn :: "(sender_ecn \<Rightarrow> sender_ecn) \<Rightarrow> 'o client \<Rightarrow> 'o client" where
  "upd_ecn f c = c\<lparr>ecn := f (ecn c)\<rparr>"

definition upd_probe :: "(round_trip_probe \<Rightarrow> round_trip_probe) \<Rightarrow> 'o client \<Rightarrow> 'o client" where
  "upd_probe f c = c\<lparr>rttProbe := f (rttProbe c)\<rparr>"

definition upd_transfer :: "(transfer_metrics \<Rightarrow> transfer_metrics) \<Rightarrow> 'o client \<Rightarrow> 'o client" where
  "upd_transfer f c = c\<lparr>transfer := f (transfer c)\<rparr>"

definition upd_control :: "(congestion_control \<Rightarrow> congestion_control) \<Rightarrow> 'o client \<Rightarrow> 'o client" where
  "upd_control f c = c\<lparr>congestion := f (congestion c)\<rparr>"

definition now :: "'o client \<Rightarrow> duration" where
  "now c = eng_now (cl_engine c)"

section \<open>Timers and messages\<close>

text \<open>\<open>get\<close> and \<open>put\<close> are the field whose address \<open>cancelEvent\<close> is given.\<close>

definition cancelEvent :: "('o client \<Rightarrow> nat) \<Rightarrow> ((nat \<Rightarrow> nat) \<Rightarrow> 'o client \<Rightarrow> 'o client) \<Rightarrow> 'o client_op" where
  "cancelEvent get put c =
     (if get c \<noteq> 0 then do {
        (e, _) \<leftarrow> Cancel (cl_engine c) (get c);
        Some (put (\<lambda>_. 0) (c\<lparr>cl_engine := e\<rparr>))
      }
      else Some c)"

definition finTimer_put :: "(nat \<Rightarrow> nat) \<Rightarrow> 'o client \<Rightarrow> 'o client" where
  "finTimer_put f = upd_close (finTimer_update f)"

definition waitTimer_put :: "(nat \<Rightarrow> nat) \<Rightarrow> 'o client \<Rightarrow> 'o client" where
  "waitTimer_put f = upd_close (waitTimer_update f)"

definition finSendEvent_put :: "(nat \<Rightarrow> nat) \<Rightarrow> 'o client \<Rightarrow> 'o client" where
  "finSendEvent_put f = upd_close (finSendEvent_update f)"

definition holdEvent_put :: "(nat \<Rightarrow> nat) \<Rightarrow> 'o client \<Rightarrow> 'o client" where
  "holdEvent_put f = upd_ecn (holdEvent_update f)"

definition schedule ::
  "duration \<Rightarrow> 'o client_event \<Rightarrow> ((nat \<Rightarrow> nat) \<Rightarrow> 'o client \<Rightarrow> 'o client) \<Rightarrow> 'o client_op"
where
  "schedule delay ev put c = do {
     (e, i) \<leftarrow> ScheduleAfter (cl_engine c) delay ev;
     Some (put (\<lambda>_. i) (c\<lparr>cl_engine := e\<rparr>))
   }"

definition client_emit :: "packet \<Rightarrow> 'o client \<Rightarrow> 'o client" where
  "client_emit pkt c =
     (if \<not> terminated c \<and> hasSender c
      then c\<lparr>sentPackets := sentPackets c @ [pkt\<lparr>ReceiveWindowBytes := receiveWindowBytes c\<rparr>]\<rparr> else c)"

definition notify :: "notification \<Rightarrow> 'o client \<Rightarrow> 'o client" where
  "notify n c = c\<lparr>notified := notified c @ [n]\<rparr>"

definition stopFlood :: "'o client_op" where
  "stopFlood = cancelEvent floodEvent floodEvent_update"

text \<open>The closures that \<open>NewClient\<close> gives to the sender.\<close>

definition OnClose :: "'o client_op" where
  "OnClose c = do { c \<leftarrow> stopFlood c; Some (notify Closed c) }"

definition OnStreamComplete :: "'o client_op" where
  "OnStreamComplete c = stopFlood (notify StreamComplete c)"

section \<open>Transfer measurements\<close>

definition recordPayloadStart :: "'o client \<Rightarrow> 'o client" where
  "recordPayloadStart c =
     (if \<not> payloadStarted (transfer c)
      then upd_transfer (\<lambda>t. t\<lparr>payloadStarted := True, payloadStartedAt := now c\<rparr>) c else c)"

definition recordTransferSuccess :: "'o client \<Rightarrow> 'o client" where
  "recordTransferSuccess c =
     upd_transfer (\<lambda>t. let t = t\<lparr>status := TransferSucceeded, tm_finishedAt := now c\<rparr>
        in if payloadStarted t then t\<lparr>payloadDuration := i64 (tm_finishedAt t - payloadStartedAt t)\<rparr> else t) c"

definition recordTransferFailure :: "transfer_failure \<Rightarrow> 'o client \<Rightarrow> 'o client" where
  "recordTransferFailure reason c =
     (if status (transfer c) \<noteq> TransferInProgress then c
      else upd_transfer (\<lambda>t. t\<lparr>status := TransferFailed, failureReason := Some reason, tm_finishedAt := now c\<rparr>) c)"

section \<open>Shutdown\<close>

definition cancel_all_timers :: "'o client_op" where
  "cancel_all_timers c = do {
     c \<leftarrow> cancelEvent (finSendEvent \<circ> connection) finSendEvent_put c;
     c \<leftarrow> cancelEvent (finTimer \<circ> connection) finTimer_put c;
     c \<leftarrow> cancelEvent (waitTimer \<circ> connection) waitTimer_put c;
     c \<leftarrow> cancelEvent synSendEvent synSendEvent_update c;
     c \<leftarrow> cancelEvent synTimer synTimer_update c;
     c \<leftarrow> cancelEvent dataTimer dataTimer_update c;
     c \<leftarrow> cancelEvent readTimer readTimer_update c;
     c \<leftarrow> cancelEvent sendEvent sendEvent_update c;
     cancelEvent (holdEvent \<circ> ecn) holdEvent_put c
   }"

definition ShutdownWithReason :: "transfer_failure \<Rightarrow> 'o client_op" where
  "ShutdownWithReason reason c =
     (if terminated c then Some c
      else do {
        let c = recordTransferFailure reason c;
        let c = upd_close (\<lambda>k. (if cl_outcome k = None then k\<lparr>cl_outcome := Some CloseAborted\<rparr> else k)) c;
        let c = upd_close (\<lambda>k. k\<lparr>cl_state := TCPClosed\<rparr>) c;
        let c = upd_close (\<lambda>k. (if cl_started k then k\<lparr>cl_finishedAt := now c\<rparr> else k)) c;
        c \<leftarrow> cancel_all_timers (c\<lparr>terminated := True\<rparr>);
        let c = c\<lparr>pendingSegments := sb_reset (pendingSegments c)\<rparr>;
        let c = upd_sack (\<lambda>s. s\<lparr>board := [], sk_active := False\<rparr>) c;
        let c = upd_ecn (\<lambda>s. s\<lparr>retryRanges := []\<rparr>) c;
        let c = c\<lparr>oldestSegmentRetransmissions := 0, rttProbe := no_probe\<rparr>;
        OnClose (upd_control clearLossTracking c)
      })"

definition Shutdown :: "'o client_op" where
  "Shutdown = ShutdownWithReason TransferInterrupted"

definition beginClosing :: "'o client \<Rightarrow> 'o client" where
  "beginClosing c =
     (if \<not> cl_started (connection c) then upd_close (\<lambda>k. k\<lparr>cl_started := True, cl_startedAt := now c\<rparr>) c else c)"

definition client_finishConnection :: "close_outcome \<Rightarrow> transfer_failure \<Rightarrow> 'o client_op" where
  "client_finishConnection outcome reason c =
     (if terminated c then Some c
      else ShutdownWithReason reason (upd_close (\<lambda>k. k\<lparr>cl_outcome := Some outcome\<rparr>) (beginClosing c)))"

section \<open>Windows\<close>

definition unsentBytes :: "'o client \<Rightarrow> int" where
  "unsentBytes c = (case source c of None \<Rightarrow> 0 | Some s \<Rightarrow> remaining s)"

definition bytesInFlight :: "'o client \<Rightarrow> nat" where
  "bytesInFlight c =
     (if \<not> handshakeCompleted c \<or> finSent (connection c) \<or> terminated c then 0
      else u64_sub (nextSendSeq c) (oldestUnackedSeq c))"

definition availableCongestionWindowBytes :: "'o client \<Rightarrow> nat" where
  "availableCongestionWindowBytes c =
     (let window = State (policy (congestion c)) in
      if \<not> LimitsNewData window then MaxCongestionWindowBytes
      else
        let flight = (if sk_active (sack c) then pipeBytes (sack c) else bytesInFlight c)
        in if WindowBytes window \<le> flight then 0 else WindowBytes window - flight)"

definition nextPayloadSize :: "'o client \<Rightarrow> int" where
  "nextPayloadSize c =
     (if peerWindowEnd c \<le> nextSendSeq c then 0
      else
        let availableBytes = peerWindowEnd c - nextSendSeq c;
            congestionSpace = availableCongestionWindowBytes c
        in if sk_active (sack c) \<and> congestionSpace < nat (cl_mssBytes c) then 0
           else
             let availableBytes = min availableBytes congestionSpace;
                 payloadLimit = min (unsentBytes c) (cl_mssBytes c)
             in i64 (int (min (nat (payloadLimit mod 18446744073709551616)) availableBytes)))"

definition observeSender :: "'o client \<Rightarrow> 'o client" where
  "observeSender c =
     upd_control (\<lambda>ct. ct\<lparr>policy := OnSenderState
       \<lparr>si_At = now c, ReadyAt = (case source c of None \<Rightarrow> 0 | Some s \<Rightarrow> nextSendAt s), HasData = 0 < unsentBytes c,
        si_FlightBytes = bytesInFlight c, si_ReceiveWindowBytes = peerReceiveWindow c\<rparr> (policy ct)\<rparr>) c"

text \<open>\<open>receiveWindowEnd\<close> of \<open>sender_receive.go\<close>\<close>

definition receiveWindowEnd :: "nat \<Rightarrow> nat \<Rightarrow> nat" where
  "receiveWindowEnd ack windowBytes =
     (let availablePositions = max_u64 - ack in u64 (ack + min windowBytes availablePositions))"

end
