(* ===== verification/Client.thy ===== *)
theory Client
  imports Sender
begin

text \<open>
  The operations of the client: retransmission, selective recovery, sending, closing, the handling of
  packets, the workload and the configuration, over the state of \<open>Sender\<close>.

  \<open>queueSegment\<close>, \<open>finishStream\<close> and \<open>Close\<close> call each other in the code.  A stream finishes once, so
  the recursion has depth two: \<open>queue_with\<close> and \<open>Close_with\<close> are the bodies with the recursive call as
  an argument, and \<open>queueSegment_unfold\<close> shows that \<open>queueSegment\<close> satisfies the code's equation.
\<close>

section \<open>Round trips and timers\<close>

definition startRTTProbe :: "packet \<Rightarrow> 'o client \<Rightarrow> 'o client" where
  "startRTTProbe pkt c =
     (if probe_active (rttProbe c) \<or> recovering (rttProbe c) then c
      else
        case SequenceEnd pkt of
          None \<Rightarrow> c
        | Some e \<Rightarrow> upd_probe (\<lambda>p. p\<lparr>probe_active := True, sentAt := now c, endSeq := e\<rparr>) c)"

definition observeRTTACK :: "nat \<Rightarrow> 'o client_op" where
  "observeRTTACK ack c =
     (let p = rttProbe c in
      if recovering p then
        Some (if recoveryUntilSeq p \<le> ack then upd_probe (\<lambda>p. p\<lparr>recovering := False\<rparr>) c else c)
      else if \<not> probe_active p \<or> ack < endSeq p then Some c
      else do {
        let sample = i64 (now c - sentAt p);
        r \<leftarrow> observeRTT sample (rto c);
        Some ((upd_probe (\<lambda>p. p\<lparr>probe_active := False\<rparr>) c)\<lparr>rto := r\<rparr>)
      })"

definition invalidateRTTProbe :: "'o client \<Rightarrow> 'o client" where
  "invalidateRTTProbe c =
     upd_probe (\<lambda>p. p\<lparr>probe_active := False, recovering := True, recoveryUntilSeq := nextSendSeq c\<rparr>) c"

definition armReadTimer :: "'o client_op" where
  "armReadTimer c = do {
     c \<leftarrow> cancelEvent readTimer readTimer_update c;
     if idleTimeout c = 0 then Some c else schedule (idleTimeout c) (TCPDue ReadTimer) readTimer_update c
   }"

definition armDataTimer :: "'o client_op" where
  "armDataTimer c = do {
     c \<leftarrow> cancelEvent dataTimer dataTimer_update c;
     schedule (CurrentRTO (re_state (rto c))) (TCPDue DataTimer) dataTimer_update c
   }"

section \<open>ECN marks of retransmissions\<close>

definition validateECNProfile :: "'o client \<Rightarrow> bool" where
  "validateECNProfile c \<longleftrightarrow>
     \<not> (ecn_Enabled (ecn_st (ecn c)) \<and> cc_Mode (ct_config (congestion c)) = CongestionNone)"

definition synFlags :: "'o client \<Rightarrow> flag" where
  "synFlags c = (if ecn_Enabled (ecn_st (ecn c)) then FlagSYN OR (FlagECE OR FlagCWR) else FlagSYN)"

definition decorateNewPayload :: "packet \<Rightarrow> 'o client \<Rightarrow> packet \<times> 'o client" where
  "decorateNewPayload pkt c =
     (if \<not> Negotiated (ecn_st (ecn c)) then (pkt, c)
      else
        let pkt = pkt\<lparr>ECN := ECT0\<rparr> in
        if cwrPending (congestion c) then
          (pkt\<lparr>Flag := Flag pkt OR FlagCWR\<rparr>,
           upd_ecn (\<lambda>s. s\<lparr>ecn_st := (ecn_st s)\<lparr>SentCWRCount := u64 (SentCWRCount (ecn_st s) + 1)\<rparr>\<rparr>)
             (upd_control (\<lambda>ct. ct\<lparr>cwrPending := False\<rparr>) c))
        else (pkt, c))"

definition recordECNRetry :: "packet \<Rightarrow> 'o client \<Rightarrow> 'o client" where
  "recordECNRetry pkt c =
     (if Negotiated (ecn_st (ecn c))
      then upd_ecn (\<lambda>s. s\<lparr>retryRanges := retryRanges s @ [block (Seq pkt) (u64 (Seq pkt + nat (Size pkt)))]\<rparr>) c
      else c)"

definition wasECNRetransmitted :: "nat \<Rightarrow> 'o client \<Rightarrow> bool" where
  "wasECNRetransmitted sequence c \<longleftrightarrow> list_ex (\<lambda>b. Start b \<le> sequence \<and> sequence < End b) (retryRanges (ecn c))"

definition forgetECNRetries :: "nat \<Rightarrow> 'o client \<Rightarrow> 'o client" where
  "forgetECNRetries ack c =
     upd_ecn (\<lambda>s. s\<lparr>retryRanges := map (\<lambda>b. b\<lparr>Start := max (Start b) ack\<rparr>) (filter (\<lambda>b. ack < End b) (retryRanges s))\<rparr>) c"

section \<open>Retransmission\<close>

definition prepareDataRetry :: "'o client \<Rightarrow> ('o client \<times> packet option) option" where
  "prepareDataRetry c =
     (if terminated c \<or> finSent (connection c) \<or> \<not> hasPending (pendingSegments c) then Some (c, None)
      else if MAX_RETRANSMISIONS \<le> oldestSegmentRetransmissions c
      then do { c \<leftarrow> ShutdownWithReason TransferDataRetryLimit c; Some (c, None) }
      else do {
        pkt \<leftarrow> oldest (pendingSegments c);
        let c = recordECNRetry pkt c;
        let c = c\<lparr>oldestSegmentRetransmissions := (oldestSegmentRetransmissions c + 1) mod 256\<rparr>;
        let c = upd_transfer (\<lambda>t. t\<lparr>dataRetransmissions := u64 (dataRetransmissions t + 1)\<rparr>) c;
        let c = invalidateRTTProbe c;
        Some (upd_control (recordDataSent (now c)) c, Some pkt)
      })"

definition fastRetransmitOldest :: "bool \<Rightarrow> 'o client_op" where
  "fastRetransmitOldest restartTimer c = do {
     (c, retry) \<leftarrow> prepareDataRetry c;
     (case retry of
        None \<Rightarrow> Some c
      | Some pkt \<Rightarrow> do {
          let c = upd_control (upd_loss (\<lambda>l. l\<lparr>fastRetransmissions := u64 (fastRetransmissions l + 1)\<rparr>)) c;
          c \<leftarrow> (if restartTimer then armDataTimer c else Some c);
          Some (client_emit pkt c)
        })
   }"

definition resetSACKAfterTimeout :: "'o client \<Rightarrow> 'o client" where
  "resetSACKAfterTimeout c =
     upd_sack (\<lambda>s. s\<lparr>board := [], sk_active := False, sk_duplicateACKs := 0, recoveryEndSeq := nextSendSeq c,
       retransmittedEnd := 0, rescueAfterSeq := 0, pipeBytes := 0\<rparr>) c"

definition retransmitData :: "'o client_op" where
  "retransmitData c = do {
     let c = c\<lparr>dataTimer := 0\<rparr>;
     let retryingRetransmission = (oldestSegmentRetransmissions c \<noteq> 0 \<or> wasECNRetransmitted (oldestUnackedSeq c) c);
     (c, retry) \<leftarrow> prepareDataRetry c;
     (case retry of
        None \<Rightarrow> Some c
      | Some pkt \<Rightarrow> do {
          let c = (if negotiated (sack c) then resetSACKAfterTimeout c else c);
          let c = upd_control (onDataTimeout pkt (bytesInFlight c) (nextSendSeq c) (now c) retryingRetransmission) c;
          c \<leftarrow> armDataTimer (c\<lparr>rto := backOff (rto c)\<rparr>);
          Some (client_emit pkt c)
        })
   }"

section \<open>Selective recovery\<close>

definition recordSACKReports :: "nat \<Rightarrow> sack_block list \<Rightarrow> 'o client \<Rightarrow> 'o client \<times> bool" where
  "recordSACKReports ack blocks c =
     (let (b, changed) = board_Update ack (nextSendSeq c) blocks (board (sack c));
          c = upd_sack (\<lambda>s. s\<lparr>board := b\<rparr>) c
      in if sk_active (sack c)
         then (upd_sack (\<lambda>s. s\<lparr>pipeBytes :=
                 Pipe ack (nextSendSeq c) (retransmittedEnd s) (nat (cl_mssBytes c)) (board s)\<rparr>) c, changed)
         else (c, changed))"

definition retransmitSACKHole :: "sack_block \<Rightarrow> bool \<Rightarrow> 'o client_op" where
  "retransmitSACKHole hole rescue c =
     (if Start hole = oldestUnackedSeq c \<and> MAX_RETRANSMISIONS \<le> oldestSegmentRetransmissions c
      then ShutdownWithReason TransferDataRetryLimit c
      else do {
        let c = (if Start hole = oldestUnackedSeq c
                 then c\<lparr>oldestSegmentRetransmissions := (oldestSegmentRetransmissions c + 1) mod 256\<rparr> else c);
        let c = (if \<not> rescue then upd_sack (\<lambda>s. s\<lparr>retransmittedEnd := End hole\<rparr>) c else c);
        let c = upd_transfer (\<lambda>t. t\<lparr>dataRetransmissions := u64 (dataRetransmissions t + 1)\<rparr>) c;
        let c = upd_control (upd_loss (\<lambda>l. l\<lparr>fastRetransmissions := u64 (fastRetransmissions l + 1)\<rparr>)) c;
        let bytes = u64_sub (End hole) (Start hole);
        let c = upd_sack (\<lambda>s. s\<lparr>pipeBytes := u64 (pipeBytes s + bytes)\<rparr>) c;
        let c = invalidateRTTProbe c;
        c \<leftarrow> armDataTimer (upd_control (recordDataSent (now c)) c);
        let pkt = GeneratePacket (key c) (FlagPSH OR FlagACK) (i64 (int bytes)) (Start hole) (nextReceiveSeq c);
        Some (client_emit pkt (recordECNRetry pkt c))
      })"

text \<open>One iteration of the loop; the result says whether to go on.\<close>

definition repair_step :: "'o client \<Rightarrow> ('o client \<times> bool) option" where
  "repair_step c =
     (let mss = nat (cl_mssBytes c); b = board (sack c) in
      if availableCongestionWindowBytes c < mss then Some (c, False)
      else
        let start = max (oldestUnackedSeq c) (retransmittedEnd (sack c));
            highestReported = max (oldestUnackedSeq c) (HighestReportedEnd b)
        in case NextHole start highestReported True mss b of
             Some hole \<Rightarrow> do { c \<leftarrow> retransmitSACKHole hole False c; Some (c, True) }
           | None \<Rightarrow>
               (case source c of
                  None \<Rightarrow> None
                | Some src \<Rightarrow>
                    if withinRun src \<and> 0 < nextPayloadSize c then Some (c, False)
                    else case NextHole start highestReported False mss b of
                        Some hole \<Rightarrow> do { c \<leftarrow> retransmitSACKHole hole False c; Some (c, True) }
                      | None \<Rightarrow>
                          if oldestUnackedSeq c \<le> rescueAfterSeq (sack c) then Some (c, False)
                          else (case LastHole (oldestUnackedSeq c) (nextSendSeq c) mss b of
                              None \<Rightarrow> Some (c, False)
                            | Some hole \<Rightarrow> do {
                                c \<leftarrow> retransmitSACKHole hole True
                                       (upd_sack (\<lambda>s. s\<lparr>rescueAfterSeq := recoveryEndSeq s\<rparr>) c);
                                Some (c, False)
                              })))"

partial_function (option) repair_loop :: "'o client \<Rightarrow> 'o client option" where
  "repair_loop c =
     (if sk_active (sack c) \<and> \<not> terminated c \<and> \<not> finSent (connection c)
      then do { (c, goOn) \<leftarrow> repair_step c; if goOn then repair_loop c else Some c }
      else Some c)"

definition sendSACKRepairs :: "'o client_op" where
  "sendSACKRepairs c =
     (if dispatching (sack c) then Some c
      else do {
        c \<leftarrow> repair_loop (upd_sack (\<lambda>s. s\<lparr>dispatching := True\<rparr>) c);
        Some (upd_sack (\<lambda>s. s\<lparr>dispatching := False\<rparr>) c)
      })"

section \<open>Sending and closing\<close>

definition startFINWhenDrained :: "'o client_op" where
  "startFINWhenDrained c =
     (if terminated c \<or> finSent (connection c) \<or> \<not> requested (connection c) then Some c
      else if unsentBytes c \<noteq> 0 \<or> hasPending (pendingSegments c) then Some c
      else do {
        let c = upd_close (\<lambda>k. k\<lparr>finSent := True, finSeq := nextSendSeq c\<rparr>) c;
        let c = c\<lparr>nextSendSeq := u64 (nextSendSeq c + 1)\<rparr>;
        let c = upd_close (\<lambda>k. k\<lparr>finRetryDelay := CurrentRTO (re_state (rto c)),
                  cl_state := (if peerFIN k then TCPLastAck else TCPFinWait1)\<rparr>) c;
        c \<leftarrow> cancelEvent readTimer readTimer_update c;
        c \<leftarrow> cancelEvent dataTimer dataTimer_update c;
        c \<leftarrow> cancelEvent sendEvent sendEvent_update c;
        c \<leftarrow> cancelEvent (holdEvent \<circ> ecn) holdEvent_put c;
        schedule 0 (TCPDue FINSend) finSendEvent_put (upd_control clearLossTracking c)
      })"

definition Close_with :: "'o client_op \<Rightarrow> 'o client_op" where
  "Close_with again c =
     (if terminated c then Some c
      else if \<not> handshakeCompleted c then ShutdownWithReason TransferClosedEarly c
      else do {
        c \<leftarrow> startFINWhenDrained (upd_close (\<lambda>k. k\<lparr>requested := True\<rparr>) (beginClosing c));
        again c
      })"

definition finishStream_with :: "'o client_op \<Rightarrow> 'o client_op" where
  "finishStream_with again c =
     (if streamCompleted c then Some c
      else do {
        c \<leftarrow> OnStreamComplete (recordTransferSuccess (c\<lparr>streamCompleted := True\<rparr>));
        Close_with again c
      })"

definition queue_with :: "'o client_op \<Rightarrow> 'o client_op" where
  "queue_with again c = do {
     c \<leftarrow> (if sk_active (sack c) then sendSACKRepairs c else Some c);
     if terminated c \<or> finSent (connection c) \<or> \<not> handshakeCompleted c then Some c
     else case source c of
         None \<Rightarrow> Some c
       | Some src \<Rightarrow>
           let c = observeSender c in
           if remainingPayloadBytesToConfirm c = 0 then finishStream_with again c
           else if holdBeyondRun (ecn c) then Some c
           else if \<not> withinRun src then Some c
           else if nextPayloadSize c = 0 then Some c
           else
             let policyDeadline = NextSendAt (State (policy (congestion c)));
                 due = max (now c) (max (nextSendAt src) (max policyDeadline (holdUntil (ecn c))))
             in if sendEvent c \<noteq> 0 \<and> sendEventAt c \<le> due then Some c
                else do {
                  c \<leftarrow> cancelEvent sendEvent sendEvent_update c;
                  (e, i) \<leftarrow> ScheduleAt (cl_engine c) due (TCPDue SendDue);
                  Some (c\<lparr>sendEventAt := due, cl_engine := e, sendEvent := i\<rparr>)
                }
   }"

definition queueSegment :: "'o client_op" where
  "queueSegment = queue_with (queue_with (\<lambda>_. None))"

definition finishStream :: "'o client_op" where
  "finishStream = finishStream_with queueSegment"

definition client_Close :: "'o client_op" where
  "client_Close c = do { c \<leftarrow> stopFlood c; Close_with queueSegment c }"

text \<open>The workload.\<close>

definition newFiniteStream :: "int \<Rightarrow> duration \<Rightarrow> duration \<Rightarrow> finite_stream option" where
  "newFiniteStream bytes g endTime =
     (if bytes < 0 \<or> g < 0 then None
      else Some \<lparr>remaining = bytes, gap = g, fs_endTime = endTime, nextSendAt = 0, withinRun = False\<rparr>)"

definition stream_Start :: "duration \<Rightarrow> finite_stream \<Rightarrow> finite_stream" where
  "stream_Start t s =
     (let s = s\<lparr>withinRun := gap s \<le> i64 (fs_endTime s - t)\<rparr>
      in if withinRun s then s\<lparr>nextSendAt := i64 (t + gap s)\<rparr> else s)"

definition stream_Sent :: "int \<Rightarrow> duration \<Rightarrow> finite_stream \<Rightarrow> finite_stream" where
  "stream_Sent payloadBytes t s = stream_Start t (s\<lparr>remaining := i64 (remaining s - payloadBytes)\<rparr>)"

definition start_source :: "'o client \<Rightarrow> 'o client" where
  "start_source c = c\<lparr>source := map_option (stream_Start (now c)) (source c)\<rparr>"

text \<open>The event that sends one new segment.  Without a source the code would follow a nil pointer.\<close>

definition send_new :: "'o client \<Rightarrow> 'o client_op \<Rightarrow> 'o client option" where
  "send_new c again =
     (let payloadBytes = nextPayloadSize c in
      if payloadBytes = 0 then Some c
      else do {
        let pkt = GeneratePacket (key c) (FlagPSH OR FlagACK) payloadBytes (nextSendSeq c) (nextReceiveSeq c);
        let c = c\<lparr>nextSendSeq := u64 (nextSendSeq c + nat payloadBytes),
                  pendingSegments := sb_append pkt (pendingSegments c)\<rparr>;
        let c = (if sk_active (sack c)
                 then upd_sack (\<lambda>s. s\<lparr>pipeBytes := u64 (pipeBytes s + nat payloadBytes)\<rparr>) c else c);
        let c = recordPayloadStart c;
        let c = c\<lparr>source := map_option (stream_Sent payloadBytes (now c)) (source c)\<rparr>;
        let c = startRTTProbe pkt (observeSender c);
        c \<leftarrow> (if dataTimer c = 0 then armDataTimer c else Some c);
        let c = upd_control (recordDataSent (now c)) c;
        let (pkt, c) = decorateNewPayload pkt c;
        again (client_emit pkt c)
      })"

definition fire_send :: "'o client_op" where
  "fire_send c =
     (let c = c\<lparr>sendEvent := 0\<rparr> in
      if terminated c \<or> finSent (connection c) then Some c
      else case source c of
          None \<Rightarrow> None
        | Some src \<Rightarrow>
            let policyDeadline = NextSendAt (State (policy (congestion c))) in
            if now c < max (nextSendAt src) (max policyDeadline (holdUntil (ecn c))) then queueSegment c
            else
              let c = upd_control (restartAfterIdle (now c) (CurrentRTO (re_state (rto c)))) c
              in send_new (observeSender c) queueSegment)"

end
