(* ===== verification/ClientOps.thy ===== *)
theory ClientOps
  imports Client
begin

text \<open>
  The rest of the client: the closing handshake and its timers, the handling of packets, the events,
  the workload and the configuration.
\<close>

section \<open>The closing handshake\<close>

definition client_emitFIN :: "'o client \<Rightarrow> 'o client" where
  "client_emitFIN c = client_emit (GeneratePacket (key c) (FlagFIN OR FlagACK) 0 (finSeq (connection c)) (nextReceiveSeq c)) c"

definition emitCloseACK :: "'o client \<Rightarrow> 'o client" where
  "emitCloseACK c = client_emit (GeneratePacket (key c) FlagACK 0 (nextSendSeq c) (nextReceiveSeq c)) c"

definition scheduleFINRetransmission :: "'o client_op" where
  "scheduleFINRetransmission c = do {
     c \<leftarrow> cancelEvent (finTimer \<circ> connection) finTimer_put c;
     schedule (finRetryDelay (connection c)) (TCPDue FINRetry) finTimer_put c
   }"

definition fire_fin_send :: "'o client_op" where
  "fire_fin_send c =
     (let c = finSendEvent_put (\<lambda>_. 0) c in
      if \<not> terminated c \<and> \<not> finAcked (connection c)
      then do { c \<leftarrow> scheduleFINRetransmission c; Some (client_emitFIN c) }
      else Some c)"

definition retryFIN :: "'o client_op" where
  "retryFIN c =
     (let c = finTimer_put (\<lambda>_. 0) c; k = connection c in
      if terminated c \<or> finAcked k then Some c
      else if nat (MaxFINRetries (cl_config k)) \<le> finRetransmissions k
      then client_finishConnection CloseFINRetryLimit TransferCloseTimeout c
      else do {
        let c = upd_close (\<lambda>k. k\<lparr>finRetransmissions := u64 (finRetransmissions k + 1)\<rparr>) c;
        let c =
          (if ExponentialBackoff (re_config (rto c)) then
             let maximum = MaximumTimeout (re_config (rto c)); delay = finRetryDelay (connection c)
             in if i64 (maximum - delay) \<le> delay
                then upd_close (\<lambda>k. k\<lparr>finRetryDelay := maximum\<rparr>) c
                else upd_close (\<lambda>k. k\<lparr>finRetryDelay := i64 (finRetryDelay k * 2)\<rparr>) c
           else c);
        c \<leftarrow> scheduleFINRetransmission c;
        Some (client_emitFIN c)
      })"

definition client_enterTimeWait :: "'o client_op" where
  "client_enterTimeWait c = do {
     let c = upd_close (\<lambda>k. k\<lparr>cl_state := TCPTimeWait\<rparr>) c;
     c \<leftarrow> cancelEvent (finTimer \<circ> connection) finTimer_put c;
     c \<leftarrow> cancelEvent (waitTimer \<circ> connection) waitTimer_put c;
     schedule (i64 (2 * MSL (cl_config (connection c)))) (TCPDue TimeWaitDue) waitTimer_put c
   }"

definition client_acknowledgeFIN :: "nat \<Rightarrow> 'o client_op" where
  "client_acknowledgeFIN ack c =
     (let k = connection c in
      if \<not> finSent k \<or> finAcked k \<or> ack \<noteq> u64 (finSeq k + 1) then Some c
      else do {
        c \<leftarrow> cancelEvent (finTimer \<circ> connection) finTimer_put (upd_close (\<lambda>k. k\<lparr>finAcked := True\<rparr>) c);
        (case cl_state (connection c) of
           TCPLastAck \<Rightarrow> client_finishConnection CloseGraceful TransferClosedEarly c
         | s \<Rightarrow>
             if s = TCPFinWait1 \<or> s = TCPClosing then
               if peerFIN (connection c) then client_enterTimeWait c
               else schedule (FinWaitTimeout (cl_config (connection c))) (TCPDue FinWaitDue) waitTimer_put
                      (upd_close (\<lambda>k. k\<lparr>cl_state := TCPFinWait2\<rparr>) c)
             else Some c)
      })"

definition handleFin :: "packet \<Rightarrow> nat \<Rightarrow> 'o client_op" where
  "handleFin pkt end' c =
     (if Size pkt \<noteq> 0 \<or> \<not> has_flag (Flag pkt) FlagACK \<or> nextSendSeq c < Ack pkt then Some c
      else if peerFIN (connection c) then
        if end' \<noteq> nextReceiveSeq c then Some c
        else do {
          c \<leftarrow> (if cl_state (connection c) = TCPTimeWait then client_enterTimeWait c else Some c);
          Some (emitCloseACK c)
        }
      else if Seq pkt \<noteq> nextReceiveSeq c then Some c
      else
        let c = (upd_close (\<lambda>k. k\<lparr>peerFIN := True\<rparr>) (beginClosing c))\<lparr>nextReceiveSeq := end'\<rparr> in
        if finSent (connection c) then do {
          c \<leftarrow> (if finAcked (connection c) then client_enterTimeWait c
               else Some (upd_close (\<lambda>k. k\<lparr>cl_state := TCPClosing\<rparr>) c));
          Some (emitCloseACK c)
        }
        else do {
          let c = upd_close (\<lambda>k. k\<lparr>cl_state := TCPCloseWait, requested := True\<rparr>) c;
          c \<leftarrow> queueSegment (emitCloseACK c);
          startFINWhenDrained c
        })"

definition handleReset :: "packet \<Rightarrow> 'o client_op" where
  "handleReset pkt c =
     (let invalidFlags = has_flag (Flag pkt) (FlagSYN OR FlagFIN OR FlagPSH) in
      if Size pkt \<noteq> 0 \<or> invalidFlags then Some c
      else if \<not> handshakeCompleted c \<and>
        (\<not> handshakeStarted c \<or> \<not> has_flag (Flag pkt) FlagACK \<or> Ack pkt \<noteq> nextSendSeq c) then Some c
      else if handshakeCompleted c \<and> Seq pkt \<noteq> nextReceiveSeq c then Some c
      else if handshakeCompleted c \<and> has_flag (Flag pkt) FlagACK \<and> (Ack pkt < 1 \<or> nextSendSeq c < Ack pkt)
      then Some c
      else client_finishConnection CloseReset TransferReset c)"

section \<open>ECN feedback\<close>

definition holdNewDataForECN :: "bool \<Rightarrow> 'o client_op" where
  "holdNewDataForECN newCongestion c = do {
     let c =
       (if holdRTO (ecn c) = 0 then upd_ecn (\<lambda>s. s\<lparr>holdRTO := CurrentRTO (re_state (rto c))\<rparr>) c
        else if newCongestion then
          let maximum = MaximumTimeout (re_config (rto c)); hold = holdRTO (ecn c)
          in if i64 (maximum - hold) \<le> hold then upd_ecn (\<lambda>s. s\<lparr>holdRTO := maximum\<rparr>) c
             else upd_ecn (\<lambda>s. s\<lparr>holdRTO := i64 (holdRTO s * 2)\<rparr>) c
        else c);
     let c = upd_ecn (\<lambda>s. s\<lparr>holdBeyondRun := i64 (end_time (cl_engine c) - now c) < holdRTO s\<rparr>) c;
     let c = (if \<not> holdBeyondRun (ecn c) then upd_ecn (\<lambda>s. s\<lparr>holdUntil := i64 (now c + holdRTO s)\<rparr>) c else c);
     c \<leftarrow> cancelEvent sendEvent sendEvent_update c;
     c \<leftarrow> cancelEvent (holdEvent \<circ> ecn) holdEvent_put c;
     c \<leftarrow> (if hasPending (pendingSegments c) then do {
             c \<leftarrow> cancelEvent dataTimer dataTimer_update c;
             schedule (holdRTO (ecn c)) (TCPDue DataTimer) dataTimer_update c
           } else Some c);
     schedule (holdRTO (ecn c)) (TCPDue HoldDue) holdEvent_put c
   }"

definition observeECNFeedback :: "packet \<Rightarrow> 'o client_op" where
  "observeECNFeedback pkt c =
     (if \<not> Negotiated (ecn_st (ecn c)) then Some c
      else if Ack pkt < oldestUnackedSeq c then Some c
      else if \<not> has_flag (Flag pkt) FlagECE then Some (upd_ecn (\<lambda>s. s\<lparr>holdRTO := 0\<rparr>) c)
      else
        let c = upd_ecn (\<lambda>s. s\<lparr>ecn_st := (ecn_st s)\<lparr>ReceivedECECount := u64 (ReceivedECECount (ecn_st s) + 1)\<rparr>\<rparr>) c;
            minimumWindow = (WindowBytes (State (policy (congestion c))) \<le> nat (cl_mssBytes c));
            refreshingHold = (minimumWindow \<and> 0 < unsentBytes c)
        in if \<not> hasPending (pendingSegments c) \<and> \<not> refreshingHold then Some c
           else do {
             let alreadyReduced = (reductionEndSeq (congestion c) \<noteq> 0 \<and> Ack pkt \<le> reductionEndSeq (congestion c));
             c \<leftarrow> (if minimumWindow then holdNewDataForECN (\<not> alreadyReduced) c else Some c);
             if alreadyReduced then Some c
             else
               let c = upd_control (\<lambda>ct. ct\<lparr>policy := OnECN \<lparr>ecn_At = now c, ecn_FlightBytes = bytesInFlight c\<rparr> (policy ct)\<rparr>) c;
                   c = upd_control (recordReduction (nextSendSeq c)) c
               in Some (upd_ecn (\<lambda>s. s\<lparr>ecn_st := (ecn_st s)\<lparr>ECNResponseCount := u64 (ECNResponseCount (ecn_st s) + 1)\<rparr>\<rparr>) c)
           })"

section \<open>Selective feedback\<close>

definition pendingCount :: "'o client \<Rightarrow> int" where
  "pendingCount c = int (length (segments (pendingSegments c))) - int (firstPendingIndex (pendingSegments c))"

text \<open>Entering recovery, once there is enough evidence of a loss.\<close>

definition enterSACKRecovery :: "'o client_op" where
  "enterSACKRecovery c =
     (let alreadyReduced = (ct_ecnNegotiated (congestion c) \<and> oldestUnackedSeq c < reductionEndSeq (congestion c));
          (p, response) = OnLoss \<lparr>loss_At = now c, loss_kind = FastRetransmitLoss, loss_FlightBytes = bytesInFlight c,
              loss_CumulativeACK = oldestUnackedSeq c, NextSendSeq = nextSendSeq c, PendingSegments = pendingCount c,
              AlreadyTimedOut = False, AlreadyReduced = alreadyReduced, loss_SACKRecovery = True\<rparr> (policy (congestion c));
          c = upd_control (\<lambda>ct. ct\<lparr>policy := p\<rparr>) c
      in if SuppressFastRetransmit response then Some c
         else
           let c = upd_sack (\<lambda>s. s\<lparr>sk_active := True, recoveryEndSeq := nextSendSeq c,
                     retransmittedEnd := oldestUnackedSeq c,
                     pipeBytes := Pipe (oldestUnackedSeq c) (nextSendSeq c) (oldestUnackedSeq c) (nat (cl_mssBytes c)) (board s)\<rparr>) c;
               c = upd_control (upd_loss (\<lambda>l. l\<lparr>untilSeq := nextSendSeq c\<rparr>)) c;
               c = (if \<not> alreadyReduced then upd_control (recordReduction (nextSendSeq c)) c else c)
           in case NextHole (oldestUnackedSeq c) (nextSendSeq c) False (nat (cl_mssBytes c)) (board (sack c)) of
                None \<Rightarrow> Some c
              | Some firstHole \<Rightarrow> retransmitSACKHole firstHole False (upd_sack (\<lambda>s. s\<lparr>rescueAfterSeq := End firstHole\<rparr>) c))"

definition observeSACKFeedback :: "bool \<Rightarrow> bool \<Rightarrow> 'o client_op" where
  "observeSACKFeedback newInformation advancingACK c =
     (if \<not> negotiated (sack c) \<or> terminated c \<or> \<not> hasPending (pendingSegments c) then Some c
      else
        let c = (if advancingACK then upd_sack (\<lambda>s. s\<lparr>sk_duplicateACKs := 0\<rparr>) c else c) in
        if sk_active (sack c) \<or> \<not> newInformation then Some c
        else
          let c = upd_sack (\<lambda>s. s\<lparr>sk_duplicateACKs := u64 (sk_duplicateACKs s + 1)\<rparr>) c;
              c = upd_control (upd_loss (\<lambda>l. l\<lparr>duplicateACKs := sk_duplicateACKs (sack c)\<rparr>)) c;
              canRecover = (recoveryEndSeq (sack c) \<le> oldestUnackedSeq c);
              enoughEvidence = (3 \<le> sk_duplicateACKs (sack c) \<or>
                IsLost (oldestUnackedSeq c) (nat (cl_mssBytes c)) (board (sack c)))
          in if \<not> canRecover \<or> \<not> enoughEvidence then Some c else enterSACKRecovery c)"

section \<open>Packets\<close>

definition client_completeHandshake :: "packet \<Rightarrow> nat \<Rightarrow> 'o client_op" where
  "client_completeHandshake pkt end' c = do {
     let c = upd_close (\<lambda>k. k\<lparr>cl_state := TCPEstablished\<rparr>) c;
     c \<leftarrow> cancelEvent synTimer synTimer_update c;
     c \<leftarrow> observeRTTACK (Ack pkt) c;
     let c = (if 0 < retrySyn c then c\<lparr>rto := afterSYNRetry (rto c)\<rparr> else c);
     let c = c\<lparr>retrySyn := 0\<rparr>;
     let c = upd_transfer (\<lambda>t. t\<lparr>handshakeDuration := i64 (now c - tm_startedAt t)\<rparr>) c;
     let c = c\<lparr>peerInitialSeq := Seq pkt, nextReceiveSeq := end', oldestUnackedSeq := Ack pkt,
               peerWindowEnd := receiveWindowEnd (Ack pkt) (ReceiveWindowBytes pkt),
               peerReceiveWindow := ReceiveWindowBytes pkt\<rparr>;
     let c = upd_sack (\<lambda>s. s\<lparr>negotiated := sk_enabled s \<and> SACKPermitted pkt\<rparr>) c;
     let c = upd_ecn (\<lambda>s. s\<lparr>ecn_st := (ecn_st s)\<lparr>Negotiated := ecn_Enabled (ecn_st s) \<and>
               has_flag (Flag pkt) FlagECE \<and> \<not> has_flag (Flag pkt) FlagCWR\<rparr>\<rparr>) c;
     let c = upd_control (\<lambda>ct. ct\<lparr>ct_ecnNegotiated := Negotiated (ecn_st (ecn c))\<rparr>) c;
     Some (start_source (c\<lparr>handshakeCompleted := True\<rparr>))
   }"

definition handleSynAck :: "packet \<Rightarrow> nat \<Rightarrow> 'o client_op" where
  "handleSynAck pkt end' c =
     (if \<not> handshakeStarted c \<or> base_flags (Flag pkt) \<noteq> FlagSYN OR FlagACK \<or> Size pkt \<noteq> 0 \<or> Ack pkt \<noteq> 1 then Some c
      else if handshakeCompleted c \<and> Seq pkt \<noteq> peerInitialSeq c then Some c
      else do {
        c \<leftarrow> (if handshakeCompleted c then Some c else client_completeHandshake pkt end' c);
        c \<leftarrow> (if \<not> finSent (connection c) then armReadTimer c else Some c);
        queueSegment (client_emit (GeneratePacket (key c) FlagACK 0 (nextSendSeq c) (nextReceiveSeq c)) c)
      })"

text \<open>An acknowledgement that confirms nothing new.\<close>

definition duplicateDataAck :: "packet \<Rightarrow> bool \<Rightarrow> 'o client_op" where
  "duplicateDataAck pkt windowUnchanged c = do {
     c \<leftarrow>
       (if \<not> has_flag (Flag pkt) FlagFIN \<and> windowUnchanged \<and> hasPending (pendingSegments c) then
          let (ct, retryOldest) = ct_duplicateACK (bytesInFlight c) (pendingCount c) (nextSendSeq c) (oldestUnackedSeq c)
                (now c) (Negotiated (ecn_st (ecn c)) \<and> has_flag (Flag pkt) FlagECE) (congestion c);
              c = c\<lparr>congestion := ct\<rparr>
          in if retryOldest then fastRetransmitOldest True c else Some c
        else Some c);
     if \<not> has_flag (Flag pkt) FlagFIN then queueSegment c else Some c
   }"

text \<open>The positions an acknowledgement confirms.\<close>

definition confirmBytes :: "nat \<Rightarrow> 'o client \<Rightarrow> 'o client" where
  "confirmBytes ack c =
     (let acknowledgedBytes = i64 (int (u64_sub ack (oldestUnackedSeq c)));
          c = c\<lparr>oldestUnackedSeq := ack,
                remainingPayloadBytesToConfirm := i64 (remainingPayloadBytesToConfirm c - acknowledgedBytes),
                acknowledgedPayloadBytes := u64 (acknowledgedPayloadBytes c + nat acknowledgedBytes)\<rparr>;
          c = c\<lparr>pendingSegments := sb_acknowledge ack (pendingSegments c)\<rparr>
      in observeSender (forgetECNRetries ack c))"

definition newDataAck :: "float_env \<Rightarrow> packet \<Rightarrow> 'o client_op" where
  "newDataAck env pkt c =
     (if \<not> hasPending (pendingSegments c) then Some c
      else do {
        let acknowledgedBytes = i64 (int (u64_sub (Ack pkt) (oldestUnackedSeq c)));
        c \<leftarrow> observeRTTACK (Ack pkt) c;
        let c = confirmBytes (Ack pkt) c;
        let sackRecovery = sk_active (sack c);
        let completedSACKRecovery = (sackRecovery \<and> recoveryEndSeq (sack c) \<le> Ack pkt);
        let c = (if completedSACKRecovery then upd_sack (\<lambda>s. s\<lparr>sk_active := False\<rparr>) c else c);
        let (ct, response) = ct_acknowledge env
              \<lparr>ack_At = now c, NewBytes = nat acknowledgedBytes, CumulativeACK = Ack pkt,
               ack_FlightBytes = bytesInFlight c, ack_SmoothedRTT = SmoothedRTT (re_state (rto c)),
               ack_ECN = Negotiated (ecn_st (ecn c)) \<and> has_flag (Flag pkt) FlagECE,
               ack_SACKRecovery = sackRecovery, EndSACKRecovery = completedSACKRecovery\<rparr> (congestion c);
        let c = c\<lparr>congestion := ct, oldestSegmentRetransmissions := 0\<rparr>;
        c \<leftarrow> (if \<not> hasPending (pendingSegments c) then cancelEvent dataTimer dataTimer_update c
             else if \<not> PreserveRetransmitTimer response \<or> dataTimer c = 0 then armDataTimer c
             else Some c);
        let c = notify (PayloadAcknowledged acknowledgedBytes) c;
        c \<leftarrow> (if RetransmitOldest response \<and> oldestUnackedSeq c = Ack pkt then fastRetransmitOldest False c else Some c);
        if \<not> negotiated (sack c) \<and> \<not> has_flag (Flag pkt) FlagFIN then queueSegment c else Some c
      })"

definition handleDataAck :: "float_env \<Rightarrow> packet \<Rightarrow> 'o client \<Rightarrow> ('o client \<times> bool) option" where
  "handleDataAck env pkt c =
     (if Ack pkt < oldestUnackedSeq c then
        Some (if negotiated (sack c) then recordSACKReports (oldestUnackedSeq c) (SACKBlocks pkt) c else (c, False))
      else do {
        c \<leftarrow> armReadTimer c;
        let windowUnchanged = (ReceiveWindowBytes pkt = peerReceiveWindow c);
        let c = c\<lparr>peerWindowEnd := receiveWindowEnd (Ack pkt) (ReceiveWindowBytes pkt),
                  peerReceiveWindow := ReceiveWindowBytes pkt\<rparr>;
        let (c, news) = (if negotiated (sack c) then recordSACKReports (Ack pkt) (SACKBlocks pkt) c else (c, False));
        c \<leftarrow> (if Ack pkt = oldestUnackedSeq c then
               if negotiated (sack c) then Some c else duplicateDataAck pkt windowUnchanged c
             else newDataAck env pkt c);
        Some (c, news)
      })"

text \<open>A segment of an established connection that passed the checks of \<open>HandlePacket\<close>.\<close>

definition handleSegment :: "float_env \<Rightarrow> packet \<Rightarrow> nat \<Rightarrow> bool \<Rightarrow> 'o client_op" where
  "handleSegment env pkt end' duplicateFIN c = do {
     c \<leftarrow> observeECNFeedback pkt c;
     let ackBeforePacket = oldestUnackedSeq c;
     let handledDataACK = (\<not> finSent (connection c));
     (c, news) \<leftarrow>
       (if finSent (connection c) then do { c \<leftarrow> client_acknowledgeFIN (Ack pkt) c; Some (c, False) }
        else handleDataAck env pkt c);
     c \<leftarrow> (if has_flag (Flag pkt) FlagFIN \<and> \<not> terminated c then handleFin pkt end' c else Some c);
     if handledDataACK \<and> oldestUnackedSeq c = max ackBeforePacket (Ack pkt) then do {
       c \<leftarrow> (if negotiated (sack c) then observeSACKFeedback news (ackBeforePacket < Ack pkt) c else Some c);
       if negotiated (sack c) \<or> duplicateFIN then queueSegment c else Some c
     }
     else Some c
   }"

definition client_HandlePacket :: "float_env \<Rightarrow> packet \<Rightarrow> 'o client_op" where
  "client_HandlePacket env pkt c =
     (if terminated c \<or> Key pkt \<noteq> key c \<or> \<not> ValidSACKOptions pkt then Some c
      else case SequenceEnd pkt of
          None \<Rightarrow> Some c
        | Some end' \<Rightarrow>
            let isFIN = has_flag (Flag pkt) FlagFIN in
            if has_flag (Flag pkt) FlagSYN \<and> isFIN then Some c
            else if isFIN \<and> (Size pkt \<noteq> 0 \<or> has_flag (Flag pkt) FlagPSH) then Some c
            else if has_flag (Flag pkt) FlagRST then handleReset pkt c
            else if has_flag (Flag pkt) FlagSYN then
              if \<not> finSent (connection c) then handleSynAck pkt end' c else Some c
            else if \<not> handshakeCompleted c then Some c
            else if \<not> has_flag (Flag pkt) FlagACK \<or> Size pkt \<noteq> 0 \<or> Ack pkt < 1 \<or> nextSendSeq c < Ack pkt then Some c
            else
              let validSequence = (Seq pkt = nextReceiveSeq c);
                  duplicateFIN = (isFIN \<and> peerFIN (connection c) \<and> end' = nextReceiveSeq c)
              in if \<not> validSequence \<and> \<not> duplicateFIN then Some c
                 else handleSegment env pkt end' duplicateFIN c)"

section \<open>The handshake\<close>

definition validateSACKProfile :: "'o client \<Rightarrow> bool" where
  "validateSACKProfile c \<longleftrightarrow>
     (sk_enabled (sack c) \<longrightarrow>
       cc_Mode (ct_config (congestion c)) \<in> {CongestionReno, CongestionNewReno, CongestionCubic} \<and>
       cc_FastRetransmit (ct_config (congestion c)))"

definition EstablishConnection :: "'o client_op" where
  "EstablishConnection c =
     (if terminated c \<or> requested (connection c) \<or> handshakeStarted c then Some c
      else if \<not> validateSACKProfile c \<or> \<not> validateECNProfile c then None
      else do {
        let c = upd_close (\<lambda>k. k\<lparr>cl_state := TCPSynSent\<rparr>) (c\<lparr>handshakeStarted := True, nextSendSeq := 1\<rparr>);
        c \<leftarrow> armReadTimer (upd_transfer (\<lambda>t. t\<lparr>tm_startedAt := now c\<rparr>) c);
        schedule 0 (TCPDue SynSend) synSendEvent_update c
      })"

definition sendSyn :: "'o client_op" where
  "sendSyn c = do {
     let pkt = (GeneratePacket (key c) (synFlags c) 0 0 0)\<lparr>SACKPermitted := sk_enabled (sack c)\<rparr>;
     let c = (if retrySyn c = 0 then startRTTProbe pkt c else c);
     c \<leftarrow> cancelEvent synTimer synTimer_update c;
     c \<leftarrow> schedule (CurrentRTO (re_state (rto c))) (TCPDue SynTimer) synTimer_update c;
     Some (client_emit pkt c)
   }"

definition fire_syn_send :: "'o client_op" where
  "fire_syn_send c =
     (let c = c\<lparr>synSendEvent := 0\<rparr> in
      if \<not> terminated c \<and> \<not> finSent (connection c) \<and> \<not> handshakeCompleted c then sendSyn c else Some c)"

definition retransmitSyn :: "'o client_op" where
  "retransmitSyn c =
     (let c = c\<lparr>synTimer := 0\<rparr> in
      if terminated c \<or> finSent (connection c) \<or> handshakeCompleted c then Some c
      else if MAX_RETRANSMISIONS \<le> retrySyn c then ShutdownWithReason TransferSynRetryLimit c
      else
        let c = c\<lparr>retrySyn := (retrySyn c + 1) mod 256\<rparr>;
            c = upd_transfer (\<lambda>t. t\<lparr>synRetransmissions := u64 (synRetransmissions t + 1)\<rparr>) c;
            c = upd_control (ct_afterSYNRetry (now c)) (invalidateRTTProbe c)
        in sendSyn (c\<lparr>rto := backOff (rto c)\<rparr>))"

definition SendSYNProbe :: "'o client_op" where
  "SendSYNProbe c =
     (if \<not> validateECNProfile c then None else Some (client_emit (GeneratePacket (key c) (synFlags c) 0 0 0) c))"

section \<open>The workload\<close>

text \<open>The result says whether the source was accepted.\<close>

definition SetSource :: "finite_stream \<Rightarrow> 'o client \<Rightarrow> ('o client \<times> bool) option" where
  "SetSource s c =
     (if remaining s < 0 then None
      else if terminated c \<or> requested (connection c) \<or> source c \<noteq> None then Some (c, False)
      else do {
        let c = c\<lparr>source := Some s, remainingPayloadBytesToConfirm := remaining s\<rparr>;
        c \<leftarrow> (if handshakeCompleted c then queueSegment (start_source c) else Some c);
        Some (c, True)
      })"

definition SendCompleteStream :: "int \<Rightarrow> duration \<Rightarrow> 'o client \<Rightarrow> ('o client \<times> bool) option" where
  "SendCompleteStream bytes g c = do {
     s \<leftarrow> newFiniteStream bytes g (end_time (cl_engine c));
     SetSource s c
   }"

definition CloseRequested :: "'o client \<Rightarrow> bool" where
  "CloseRequested c \<longleftrightarrow> requested (connection c)"

definition FloodSyn :: "int \<Rightarrow> duration \<Rightarrow> 'o client_op" where
  "FloodSyn amount g c =
     (if amount < 0 \<or> g < 0 then None
      else do {
        c \<leftarrow> stopFlood c;
        if terminated c \<or> CloseRequested c \<or> amount = 0 then Some c
        else schedule 0 (FloodDue 0 (nat amount) g) floodEvent_update c
      })"

definition fire_flood :: "nat \<Rightarrow> nat \<Rightarrow> duration \<Rightarrow> 'o client_op" where
  "fire_flood index amount g c =
     (let c = c\<lparr>floodEvent := 0\<rparr> in
      if terminated c \<or> CloseRequested c then Some c
      else do {
        c \<leftarrow> SendSYNProbe c;
        if \<not> terminated c \<and> \<not> CloseRequested c \<and> index + 1 < amount
        then schedule g (FloodDue (index + 1) amount g) floodEvent_update c
        else Some c
      })"

section \<open>Events\<close>

fun fire_tcp :: "sender_timer \<Rightarrow> 'o client_op" where
  "fire_tcp SynSend c = fire_syn_send c"
| "fire_tcp SynTimer c = retransmitSyn c"
| "fire_tcp DataTimer c = retransmitData c"
| "fire_tcp ReadTimer c =
     (let c = c\<lparr>readTimer := 0\<rparr> in if \<not> terminated c then ShutdownWithReason TransferReadTimeout c else Some c)"
| "fire_tcp SendDue c = fire_send c"
| "fire_tcp HoldDue c =
     (let c = holdEvent_put (\<lambda>_. 0) c in if \<not> terminated c then queueSegment c else Some c)"
| "fire_tcp FINSend c = fire_fin_send c"
| "fire_tcp FINRetry c = retryFIN c"
| "fire_tcp FinWaitDue c = client_finishConnection CloseWaitTimeout TransferCloseTimeout (waitTimer_put (\<lambda>_. 0) c)"
| "fire_tcp TimeWaitDue c = client_finishConnection CloseGraceful TransferClosedEarly (waitTimer_put (\<lambda>_. 0) c)"

fun client_fire :: "'o client_event \<Rightarrow> 'o client_op" where
  "client_fire (TCPDue t) c = fire_tcp t c"
| "client_fire (FloodDue index amount g) c = fire_flood index amount g c"
| "client_fire (ClientOther _) c = Some c"

section \<open>Configuration before the connection starts\<close>

definition started :: "'o client \<Rightarrow> bool" where
  "started c \<longleftrightarrow> handshakeStarted c \<or> terminated c"

definition client_SetReceiveBufferBytes :: "int \<Rightarrow> 'o client_op" where
  "client_SetReceiveBufferBytes cap c =
     (if cap < 1 \<or> int DefaultReceiveBufferBytes < cap then None
      else if started c then None else Some (c\<lparr>receiveWindowBytes := nat cap\<rparr>))"

definition SetCongestionConfigWithMSS :: "congestion_config \<Rightarrow> int \<Rightarrow> 'o client_op" where
  "SetCongestionConfigWithMSS config mss c =
     (if started c then None
      else do {
        ct \<leftarrow> newCongestionControlWithMSS config mss;
        Some (c\<lparr>cl_mssBytes := mss, congestion := ct\<rparr>)
      })"

definition SetCongestionConfig :: "congestion_config \<Rightarrow> 'o client_op" where
  "SetCongestionConfig config c = SetCongestionConfigWithMSS config (cl_mssBytes c) c"

definition SetMSSBytes :: "int \<Rightarrow> 'o client_op" where
  "SetMSSBytes bytes c = SetCongestionConfigWithMSS (ct_config (congestion c)) bytes c"

definition client_SetRTOConfig :: "rto_config \<Rightarrow> 'o client_op" where
  "client_SetRTOConfig config c =
     (if started c then None else do { r \<leftarrow> newRTOEstimator config; Some (c\<lparr>rto := r\<rparr>) })"

definition SetIdleTimeout :: "duration \<Rightarrow> 'o client_op" where
  "SetIdleTimeout t c = (if t < 0 \<or> started c then None else Some (c\<lparr>idleTimeout := t\<rparr>))"

definition client_SetCloseConfig :: "close_config \<Rightarrow> 'o client_op" where
  "client_SetCloseConfig config c =
     (if \<not> close_config_Valid config \<or> started c then None else Some (upd_close (\<lambda>k. k\<lparr>cl_config := config\<rparr>) c))"

definition client_SetSACKEnabled :: "bool \<Rightarrow> 'o client_op" where
  "client_SetSACKEnabled enabled c =
     (if started c then None else Some (upd_sack (\<lambda>s. s\<lparr>sk_enabled := enabled\<rparr>) c))"

definition client_SetECNEnabled :: "bool \<Rightarrow> 'o client_op" where
  "client_SetECNEnabled enabled c =
     (if started c then None
      else Some (upd_ecn (\<lambda>s. s\<lparr>ecn_st := (ecn_st s)\<lparr>ecn_Enabled := enabled\<rparr>\<rparr>) c))"

definition client_SetSender :: "bool \<Rightarrow> 'o client_op" where
  "client_SetSender present c = Some (c\<lparr>hasSender := present\<rparr>)"

section \<open>Observation\<close>

definition IsClosing :: "'o client \<Rightarrow> bool" where
  "IsClosing c \<longleftrightarrow> \<not> terminated c \<and> (finSent (connection c) \<or> peerFIN (connection c))"

definition GetTransferState :: "'o client \<Rightarrow> transfer_state" where
  "GetTransferState c =
     (let t = transfer c;
          end' = (if status t \<noteq> TransferInProgress then tm_finishedAt t else now c);
          elapsed = (if handshakeStarted c then i64 (end' - tm_startedAt t) else 0)
      in \<lparr>Status = status t, FailureReason = failureReason t, Elapsed = elapsed,
          HandshakeCompleted = handshakeCompleted c, HandshakeDuration = handshakeDuration t,
          PayloadDuration = payloadDuration t, SynRetransmissions = synRetransmissions t,
          DataRetransmissions = dataRetransmissions t\<rparr>)"

record congestion_state =
  cs_Mode :: congestion_mode
  CongestionWindowBytes :: nat
  SlowStartThresholdBytes :: nat
  BytesInFlight :: nat
  DuplicateACKs :: nat
  FastRetransmissions :: nat
  cs_Phase :: phase

definition GetCongestionState :: "'o client \<Rightarrow> congestion_state" where
  "GetCongestionState c =
     (let ct = congestion c; window = State (policy ct)
      in \<lparr>cs_Mode = cc_Mode (ct_config ct), CongestionWindowBytes = WindowBytes window,
          SlowStartThresholdBytes = ThresholdBytes window, BytesInFlight = bytesInFlight c,
          DuplicateACKs = duplicateACKs (loss ct), FastRetransmissions = fastRetransmissions (loss ct),
          cs_Phase = Phase window\<rparr>)"

definition client_GetConnectionState :: "'o client \<Rightarrow> close_state" where
  "client_GetConnectionState c =
     (let k = connection c;
          elapsed = (if cl_started k then i64 ((if terminated c then cl_finishedAt k else now c) - cl_startedAt k) else 0)
      in \<lparr>cs_State = cl_state k, cs_Outcome = cl_outcome k, FINRetransmissions = finRetransmissions k,
          cs_Elapsed = elapsed\<rparr>)"

record client_state =
  ct_Connection :: close_state
  ct_Key :: client_key
  RetrySyn :: nat
  RetryData :: nat
  AcknowledgedPayloadBytes :: nat
  Transfer :: transfer_state
  RTO :: rto_state
  Congestion :: congestion_state
  ct_ECN :: ecn_state

definition client_GetState :: "'o client \<Rightarrow> client_state" where
  "client_GetState c =
     \<lparr>ct_Connection = client_GetConnectionState c, ct_Key = key c, RetrySyn = retrySyn c,
      RetryData = oldestSegmentRetransmissions c, AcknowledgedPayloadBytes = acknowledgedPayloadBytes c,
      Transfer = GetTransferState c, RTO = re_state (rto c), Congestion = GetCongestionState c,
      ct_ECN = ecn_st (ecn c)\<rparr>"

end
