(* ===== verification/ClientInv.thy ===== *)
theory ClientInv
  imports ClientOps
begin

text \<open>
  The invariant of the client: how its positions, its workload, its buffers and the packets it has sent
  fit together.  Most operations only touch timers, measurements and congestion control; \<open>core\<close> is the
  part of the state the invariant depends on, and such an operation is shown to keep it.
\<close>

section \<open>The core of the state\<close>

definition payloads :: "'o client \<Rightarrow> packet list" where
  "payloads c = filter (\<lambda>p. 0 < Size p) (sentPackets c)"

fun reported_bytes :: "notification \<Rightarrow> int" where
  "reported_bytes (PayloadAcknowledged n) = n"
| "reported_bytes _ = 0"

definition reported :: "'o client \<Rightarrow> int" where
  "reported c = sum_list (map reported_bytes (notified c))"

definition core where
  "core c =
     ((terminated c, handshakeStarted c, handshakeCompleted c),
      (finSent (connection c), finSeq (connection c), requested (connection c)),
      (pendingSegments c, nextSendSeq c, oldestUnackedSeq c, peerWindowEnd c, cl_mssBytes c),
      (streamCompleted c, remainingPayloadBytesToConfirm c, unsentBytes c, source c = None),
      (acknowledgedPayloadBytes c, status (transfer c), reported c),
      (board (sack c), sk_active (sack c), payloads c))"

lemma core_simps [simp]:
  "core (c\<lparr>cl_engine := e\<rparr>) = core c"
  "core (c\<lparr>hasSender := b\<rparr>) = core c"
  "core (c\<lparr>floodEvent := n\<rparr>) = core c"
  "core (c\<lparr>retrySyn := n\<rparr>) = core c"
  "core (c\<lparr>oldestSegmentRetransmissions := n\<rparr>) = core c"
  "core (c\<lparr>rto := r\<rparr>) = core c"
  "core (c\<lparr>rttProbe := p\<rparr>) = core c"
  "core (c\<lparr>idleTimeout := d\<rparr>) = core c"
  "core (c\<lparr>congestion := ct\<rparr>) = core c"
  "core (c\<lparr>ecn := x\<rparr>) = core c"
  "core (c\<lparr>peerInitialSeq := n\<rparr>) = core c"
  "core (c\<lparr>nextReceiveSeq := n\<rparr>) = core c"
  "core (c\<lparr>peerReceiveWindow := n\<rparr>) = core c"
  "core (c\<lparr>receiveWindowBytes := n\<rparr>) = core c"
  "core (c\<lparr>synSendEvent := n\<rparr>) = core c"
  "core (c\<lparr>synTimer := n\<rparr>) = core c"
  "core (c\<lparr>dataTimer := n\<rparr>) = core c"
  "core (c\<lparr>readTimer := n\<rparr>) = core c"
  "core (c\<lparr>sendEvent := n\<rparr>) = core c"
  "core (c\<lparr>sendEventAt := d\<rparr>) = core c"
  by (simp_all add: core_def reported_def payloads_def unsentBytes_def)

lemma core_upd [simp]:
  "core (upd_ecn f c) = core c" "core (upd_probe g c) = core c" "core (upd_control h c) = core c"
  by (simp_all add: upd_ecn_def upd_probe_def upd_control_def)

lemma core_upd_close:
  "finSent (f (connection c)) = finSent (connection c) \<Longrightarrow>
   finSeq (f (connection c)) = finSeq (connection c) \<Longrightarrow>
   requested (f (connection c)) = requested (connection c) \<Longrightarrow> core (upd_close f c) = core c"
  by (simp add: core_def upd_close_def reported_def payloads_def unsentBytes_def)

lemma core_upd_sack:
  "board (f (sack c)) = board (sack c) \<Longrightarrow> sk_active (f (sack c)) = sk_active (sack c) \<Longrightarrow> core (upd_sack f c) = core c"
  by (simp add: core_def upd_sack_def reported_def payloads_def unsentBytes_def)

lemma core_upd_transfer: "status (f (transfer c)) = status (transfer c) \<Longrightarrow> core (upd_transfer f c) = core c"
  by (simp add: core_def upd_transfer_def reported_def payloads_def unsentBytes_def)

lemmas core_intros = core_upd_close core_upd_sack core_upd_transfer

lemma core_put [simp]:
  "core (finTimer_put f c) = core c" "core (waitTimer_put f c) = core c" "core (finSendEvent_put f c) = core c"
  "core (holdEvent_put f c) = core c" "core (floodEvent_update f c) = core c" "core (synSendEvent_update f c) = core c"
  "core (synTimer_update f c) = core c" "core (dataTimer_update f c) = core c" "core (readTimer_update f c) = core c"
  "core (sendEvent_update f c) = core c"
  by (simp_all add: finTimer_put_def waitTimer_put_def finSendEvent_put_def holdEvent_put_def core_upd_close)
    (simp_all add: core_def reported_def payloads_def unsentBytes_def)

lemma core_emit [simp]: "Size p = 0 \<Longrightarrow> core (client_emit p c) = core c"
  by (simp add: client_emit_def core_def reported_def payloads_def unsentBytes_def)

lemma core_notify [simp]: "reported_bytes n = 0 \<Longrightarrow> core (notify n c) = core c"
  by (simp add: notify_def core_def reported_def payloads_def unsentBytes_def)

lemma core_pure [simp]:
  "core (startRTTProbe p c) = core c" "core (invalidateRTTProbe c) = core c" "core (recordECNRetry p c) = core c"
  "core (forgetECNRetries a c) = core c" "core (observeSender c) = core c" "core (recordPayloadStart c) = core c"
  "core (beginClosing c) = core c" "core (client_emitFIN c) = core c" "core (emitCloseACK c) = core c"
  by (simp_all add: startRTTProbe_def invalidateRTTProbe_def recordECNRetry_def forgetECNRetries_def observeSender_def
      recordPayloadStart_def beginClosing_def client_emitFIN_def emitCloseACK_def GeneratePacket_def core_intros
      split: option.split)

lemma now_simps [simp]: "now (upd_close f c) = now c" "now (recordTransferFailure r c) = now c"
  by (simp_all add: now_def upd_close_def recordTransferFailure_def upd_transfer_def)

lemma cancel_core:
  "cancelEvent get put c = Some c' \<Longrightarrow> (\<And>f d. core (put f d) = core d) \<Longrightarrow> core c' = core c"
  by (auto simp: cancelEvent_def split: if_splits Option.bind_splits)

lemma schedule_core:
  "schedule d ev put c = Some c' \<Longrightarrow> (\<And>f d. core (put f d) = core d) \<Longrightarrow> core c' = core c"
  by (auto simp: schedule_def split: Option.bind_splits)

lemma stopFlood_core: "stopFlood c = Some c' \<Longrightarrow> core c' = core c"
  by (auto simp: stopFlood_def dest: cancel_core)

lemma OnClose_core: "OnClose c = Some c' \<Longrightarrow> core c' = core c"
  by (auto simp: OnClose_def dest!: stopFlood_core split: Option.bind_splits)

lemma OnStreamComplete_core: "OnStreamComplete c = Some c' \<Longrightarrow> core c' = core c"
  by (auto simp: OnStreamComplete_def dest!: stopFlood_core)

lemma cancel_all_core: "cancel_all_timers c = Some c' \<Longrightarrow> core c' = core c"
  by (auto simp: cancel_all_timers_def split: Option.bind_splits dest!: cancel_core)

lemma armReadTimer_core: "armReadTimer c = Some c' \<Longrightarrow> core c' = core c"
  by (auto simp: armReadTimer_def split: Option.bind_splits if_splits dest!: cancel_core schedule_core)

lemma armDataTimer_core: "armDataTimer c = Some c' \<Longrightarrow> core c' = core c"
  by (auto simp: armDataTimer_def split: Option.bind_splits dest!: cancel_core schedule_core)

lemma observeRTTACK_core: "observeRTTACK a c = Some c' \<Longrightarrow> core c' = core c"
  by (auto simp: observeRTTACK_def Let_def split: Option.bind_splits if_splits)

lemma decorate_core: "decorateNewPayload p c = (q, c') \<Longrightarrow> core c' = core c \<and> Seq q = Seq p \<and> Size q = Size p"
  by (auto simp: decorateNewPayload_def Let_def split: if_splits)

lemma scheduleFIN_core: "scheduleFINRetransmission c = Some c' \<Longrightarrow> core c' = core c"
  by (auto simp: scheduleFINRetransmission_def split: Option.bind_splits dest!: cancel_core schedule_core)

lemma enterTimeWait_core: "client_enterTimeWait c = Some c' \<Longrightarrow> core c' = core c"
  by (auto simp: client_enterTimeWait_def Let_def core_upd_close split: Option.bind_splits dest!: cancel_core schedule_core)

lemma hold_core: "holdNewDataForECN b c = Some c' \<Longrightarrow> core c' = core c"
  by (auto simp: holdNewDataForECN_def Let_def split: Option.bind_splits if_splits dest!: cancel_core schedule_core)

lemma observeECN_core: "observeECNFeedback p c = Some c' \<Longrightarrow> core c' = core c"
  by (auto simp: observeECNFeedback_def Let_def split: Option.bind_splits if_splits dest!: hold_core)

section \<open>The invariant\<close>

text \<open>The end of the data sent so far: the FIN takes the next position.\<close>

definition data_end :: "'o client \<Rightarrow> nat" where
  "data_end c = nextSendSeq c - (if finSent (connection c) then 1 else 0)"

text \<open>The workload: \<open>T\<close> bytes were accepted, and each is unsent, in flight or acknowledged.\<close>

definition workload_ok :: "int \<Rightarrow> 'o client \<Rightarrow> bool" where
  "workload_ok T c \<longleftrightarrow>
     int (acknowledgedPayloadBytes c) + remainingPayloadBytesToConfirm c = T \<and> T \<le> max_i64 \<and>
     0 \<le> unsentBytes c \<and> unsentBytes c \<le> remainingPayloadBytesToConfirm c \<and>
     (source c = None \<longrightarrow> T = 0) \<and> reported c = int (acknowledgedPayloadBytes c) \<and>
     (streamCompleted c \<longrightarrow> remainingPayloadBytesToConfirm c = 0 \<and> source c \<noteq> None) \<and>
     (status (transfer c) = TransferSucceeded \<longleftrightarrow> streamCompleted c)"

text \<open>The positions: SYN takes 0, the data follow from 1, and then the FIN.\<close>

definition positions_ok :: "int \<Rightarrow> 'o client \<Rightarrow> bool" where
  "positions_ok T c \<longleftrightarrow>
     (if handshakeCompleted c then
        handshakeStarted c \<and> oldestUnackedSeq c = acknowledgedPayloadBytes c + 1 \<and>
        int (data_end c) = 1 + T - unsentBytes c \<and> 0 < nextSendSeq c \<and>
        (finSent (connection c) \<longrightarrow> remainingPayloadBytesToConfirm c = 0 \<and> finSeq (connection c) = data_end c \<and>
           1 < nextSendSeq c \<and> requested (connection c))
      else
        nextSendSeq c = (if handshakeStarted c then 1 else 0) \<and> oldestUnackedSeq c = 0 \<and>
        acknowledgedPayloadBytes c = 0 \<and> unsentBytes c = T \<and> peerWindowEnd c = 0 \<and>
        \<not> finSent (connection c) \<and> \<not> sk_active (sack c) \<and> payloads c = [])"

text \<open>The buffers hold what is in flight, and the reports of the peer.\<close>

definition board_upto :: "nat \<Rightarrow> 'o client \<Rightarrow> bool" where
  "board_upto n c \<longleftrightarrow> (\<exists>a s. board_reach a s (board (sack c)) \<and> a \<le> n \<and> s \<le> nextSendSeq c)"

definition flight_ok :: "'o client \<Rightarrow> bool" where
  "flight_ok c \<longleftrightarrow>
     (if handshakeCompleted c \<and> \<not> terminated c
      then sb_reach (oldestUnackedSeq c) (data_end c) (pendingSegments c) \<and>
        (\<forall>p\<in>set (pending_segments (pendingSegments c)). Size p \<le> cl_mssBytes c)
      else pendingSegments c = sb_empty)"

text \<open>\<open>W\<close> is the end of the largest window the peer has offered, and 0 before the handshake.\<close>

definition window_kept :: "nat \<Rightarrow> 'o client \<Rightarrow> bool" where
  "window_kept W c \<longleftrightarrow> peerWindowEnd c \<le> W \<and> W \<le> max_u64 \<and> (handshakeCompleted c \<longleftrightarrow> 0 < W) \<and> (handshakeCompleted c \<longrightarrow> data_end c \<le> W) \<and>
     ValidMSSBytes (cl_mssBytes c) \<and>
     (\<forall>p\<in>set (payloads c). 1 \<le> Seq p \<and> Seq p + nat (Size p) \<le> data_end c \<and> Size p \<le> cl_mssBytes c)"

definition client_ok :: "int \<Rightarrow> nat \<Rightarrow> 'o client \<Rightarrow> bool" where
  "client_ok T W c \<longleftrightarrow> workload_ok T c \<and> positions_ok T c \<and> flight_ok c \<and> window_kept W c \<and>
     board_upto (oldestUnackedSeq c) c"

lemmas client_ok_defs = client_ok_def workload_ok_def positions_ok_def flight_ok_def window_kept_def board_upto_def data_end_def

lemma coreD:
  assumes "core c' = core c"
  shows "terminated c' = terminated c" "handshakeStarted c' = handshakeStarted c"
    "handshakeCompleted c' = handshakeCompleted c"
    "finSent (connection c') = finSent (connection c)" "finSeq (connection c') = finSeq (connection c)"
    "pendingSegments c' = pendingSegments c" "nextSendSeq c' = nextSendSeq c" "oldestUnackedSeq c' = oldestUnackedSeq c"
    "peerWindowEnd c' = peerWindowEnd c" "cl_mssBytes c' = cl_mssBytes c" "streamCompleted c' = streamCompleted c"
    "remainingPayloadBytesToConfirm c' = remainingPayloadBytesToConfirm c" "unsentBytes c' = unsentBytes c"
    "source c' = None \<longleftrightarrow> source c = None" "acknowledgedPayloadBytes c' = acknowledgedPayloadBytes c"
    "status (transfer c') = status (transfer c)" "reported c' = reported c" "board (sack c') = board (sack c)"
    "sk_active (sack c') = sk_active (sack c)" "payloads c' = payloads c" "data_end c' = data_end c"
    "requested (connection c') = requested (connection c)"
  using assms by (simp_all add: core_def data_end_def)

lemma client_ok_core:
  assumes "core c' = core c"
  shows "client_ok T W c' \<longleftrightarrow> client_ok T W c"
  unfolding client_ok_def workload_ok_def positions_ok_def flight_ok_def window_kept_def board_upto_def coreD [OF assms] ..

text \<open>An operation that keeps the core keeps the invariant.\<close>

lemma client_ok_frame: "client_ok T W c \<Longrightarrow> core c' = core c \<Longrightarrow> client_ok T W c'"
  using client_ok_core by blast

text \<open>Asking for the connection to be closed is always possible.\<close>

lemma request_ok:
  assumes "client_ok T W c"
  shows "client_ok T W (upd_close (\<lambda>k. k\<lparr>requested := True\<rparr>) c)"
proof -
  have f: "unsentBytes (upd_close (\<lambda>k. k\<lparr>requested := True\<rparr>) c) = unsentBytes c"
    "reported (upd_close (\<lambda>k. k\<lparr>requested := True\<rparr>) c) = reported c"
    "payloads (upd_close (\<lambda>k. k\<lparr>requested := True\<rparr>) c) = payloads c"
    "data_end (upd_close (\<lambda>k. k\<lparr>requested := True\<rparr>) c) = data_end c"
    by (simp_all add: upd_close_def unsentBytes_def reported_def payloads_def data_end_def)
  have "workload_ok T (upd_close (\<lambda>k. k\<lparr>requested := True\<rparr>) c) = workload_ok T c"
    unfolding workload_ok_def f by (simp add: upd_close_def)
  moreover have "positions_ok T c \<longrightarrow> positions_ok T (upd_close (\<lambda>k. k\<lparr>requested := True\<rparr>) c)"
    unfolding positions_ok_def f by (simp add: upd_close_def)
  moreover have "flight_ok (upd_close (\<lambda>k. k\<lparr>requested := True\<rparr>) c) = flight_ok c"
    unfolding flight_ok_def f by (simp add: upd_close_def)
  moreover have "window_kept W (upd_close (\<lambda>k. k\<lparr>requested := True\<rparr>) c) = window_kept W c"
    unfolding window_kept_def f by (simp add: upd_close_def)
  moreover have "board_upto n (upd_close (\<lambda>k. k\<lparr>requested := True\<rparr>) c) = board_upto n c" for n
    by (simp add: board_upto_def upd_close_def)
  ultimately show ?thesis using assms by (simp add: client_ok_def) (simp add: upd_close_def)
qed

lemma client_okD:
  assumes "client_ok T W c"
  shows "0 \<le> T" "T \<le> max_i64" "W \<le> max_u64" "0 < cl_mssBytes c" "cl_mssBytes c \<le> 65495"
    "0 \<le> unsentBytes c" "nextSendSeq c \<le> max_u64" "data_end c < max_u64"
    "acknowledgedPayloadBytes c < max_u64" "oldestUnackedSeq c \<le> nextSendSeq c" "handshakeCompleted c \<longleftrightarrow> 0 < W"
proof -
  have w: "workload_ok T c" "positions_ok T c" "ValidMSSBytes (cl_mssBytes c)" "W \<le> max_u64"
    using assms by (simp_all add: client_ok_def window_kept_def)
  show t: "0 \<le> T" "T \<le> max_i64" "0 \<le> unsentBytes c" using w(1) unfolding workload_ok_def by linarith+
  show "0 < cl_mssBytes c" "cl_mssBytes c \<le> 65495" "W \<le> max_u64"
    using w by (simp_all add: ValidMSSBytes_def MaxMSSBytes_def)
  have "int (data_end c) \<le> 1 + T" "nextSendSeq c \<le> data_end c + 1" "int (acknowledgedPayloadBytes c) \<le> T"
    using w(1,2) t by (auto simp: positions_ok_def workload_ok_def data_end_def split: if_splits)
  then show "nextSendSeq c \<le> max_u64" "data_end c < max_u64" "acknowledgedPayloadBytes c < max_u64"
    using t(2) by (simp_all add: max_i64_def max_u64_def)
  show "handshakeCompleted c \<longleftrightarrow> 0 < W" using assms by (simp add: client_ok_def window_kept_def)
  show "oldestUnackedSeq c \<le> nextSendSeq c"
    using w(1,2) by (auto simp: positions_ok_def workload_ok_def data_end_def split: if_splits)
qed

lemma client_ok_flight:
  assumes "client_ok T W c" "handshakeCompleted c" "\<not> terminated c"
  shows "contiguous (oldestUnackedSeq c) (pending_segments (pendingSegments c)) (data_end c)"
    "firstPendingIndex (pendingSegments c) \<le> length (segments (pendingSegments c))"
    "hasPending (pendingSegments c) \<longleftrightarrow> oldestUnackedSeq c < data_end c"
    "int (data_end c) - int (oldestUnackedSeq c) = remainingPayloadBytesToConfirm c - unsentBytes c"
proof -
  have "sb_reach (oldestUnackedSeq c) (data_end c) (pendingSegments c)"
    using assms by (simp add: client_ok_def flight_ok_def)
  note r = sb_reach_inv [OF this]
  show c: "contiguous (oldestUnackedSeq c) (pending_segments (pendingSegments c)) (data_end c)"
    "firstPendingIndex (pendingSegments c) \<le> length (segments (pendingSegments c))" using r by simp_all
  have "hasPending (pendingSegments c) \<longleftrightarrow> pending_segments (pendingSegments c) \<noteq> []"
    by (simp add: hasPending_def pending_segments_def not_le)
  then show "hasPending (pendingSegments c) \<longleftrightarrow> oldestUnackedSeq c < data_end c"
    using c(1) contiguous_le by (cases "pending_segments (pendingSegments c)") fastforce+
  show "int (data_end c) - int (oldestUnackedSeq c) = remainingPayloadBytesToConfirm c - unsentBytes c"
    using assms by (simp add: client_ok_def workload_ok_def positions_ok_def)
qed

section \<open>Shutdown\<close>

lemma clear_reach: "board_reach a s b \<Longrightarrow> board_reach a s []"
  by (rule board_reach.reset)

lemma Shutdown_ok:
  assumes i: "client_ok T W c" and s: "ShutdownWithReason reason c = Some c'"
  shows "client_ok T W c' \<and> terminated c'"
proof (cases "terminated c")
  case True
  then show ?thesis using assms by (simp add: ShutdownWithReason_def)
next
  case False
  define c1 where "c1 = (upd_close (\<lambda>k. (if cl_started k then k\<lparr>cl_finishedAt := now c\<rparr> else k))
    (upd_close (\<lambda>k. k\<lparr>cl_state := TCPClosed\<rparr>)
      (upd_close (\<lambda>k. (if cl_outcome k = None then k\<lparr>cl_outcome := Some CloseAborted\<rparr> else k)) (recordTransferFailure reason c))))
      \<lparr>terminated := True\<rparr>"
  obtain c2 where c2: "cancel_all_timers c1 = Some c2"
    "OnClose (upd_control clearLossTracking ((upd_ecn (\<lambda>s. s\<lparr>retryRanges := []\<rparr>)
        (upd_sack (\<lambda>s. s\<lparr>board := [], sk_active := False\<rparr>) (c2\<lparr>pendingSegments := sb_reset (pendingSegments c2)\<rparr>)))
        \<lparr>oldestSegmentRetransmissions := 0, rttProbe := no_probe\<rparr>)) = Some c'"
    using s False unfolding c1_def by (auto simp: ShutdownWithReason_def Let_def cong: if_cong split: Option.bind_splits)
  have k1: "core c1 = core (c\<lparr>terminated := True, transfer := transfer c1\<rparr>)"
    "status (transfer c1) = (if status (transfer c) = TransferInProgress then TransferFailed else status (transfer c))"
    by (simp_all add: c1_def core_def upd_close_def recordTransferFailure_def upd_transfer_def reported_def payloads_def
        unsentBytes_def)
  have k2: "core c2 = core c1" by (rule cancel_all_core [OF c2(1)])
  have k3: "core c' = core (c2\<lparr>pendingSegments := sb_empty, sack := (sack c2)\<lparr>board := [], sk_active := False\<rparr>\<rparr>)"
    using OnClose_core [OF c2(2)]
    by (simp add: core_def upd_control_def upd_ecn_def upd_sack_def reported_def payloads_def unsentBytes_def sb_reset_def sb_empty_def)
  have t: "streamCompleted c \<longleftrightarrow> status (transfer c) = TransferSucceeded" using i by (auto simp: client_ok_def workload_ok_def)
  obtain a s where b: "board_reach a s (board (sack c))" "a \<le> oldestUnackedSeq c" "s \<le> nextSendSeq c"
    using i by (auto simp: client_ok_def board_upto_def)
  have "client_ok T W (c\<lparr>terminated := True, transfer := transfer c1, pendingSegments := sb_empty, sack := (sack c)\<lparr>board := [], sk_active := False\<rparr>\<rparr>)"
    using i clear_reach [OF b(1)] b(2,3) t k1(2)
    by (auto simp: client_ok_defs unsentBytes_def reported_def payloads_def split: if_splits)
  moreover have "core c' = core (c\<lparr>terminated := True, transfer := transfer c1, pendingSegments := sb_empty, sack := (sack c)\<lparr>board := [], sk_active := False\<rparr>\<rparr>)"
    using k1(1) k2 k3 by (simp add: core_def unsentBytes_def reported_def payloads_def)
  ultimately have "client_ok T W c'" by (rule client_ok_frame)
  moreover have "terminated c'" using k1(1) k2 k3 by (simp add: core_def)
  ultimately show ?thesis by simp
qed

lemma finish_ok:
  assumes "client_ok T W c" "client_finishConnection out reason c = Some c'"
  shows "client_ok T W c'"
proof (cases "terminated c")
  case False
  have "client_ok T W (upd_close (\<lambda>k. k\<lparr>cl_outcome := Some out\<rparr>) (beginClosing c))"
    by (rule client_ok_frame [OF assms(1)]) (simp add: core_upd_close)
  from Shutdown_ok [OF this] show ?thesis using assms(2) False by (simp add: client_finishConnection_def)
qed (use assms in \<open>simp add: client_finishConnection_def\<close>)

end
