(* ===== verification/ClientSteps.thy ===== *)
theory ClientSteps
  imports ClientInv
begin

text \<open>
  Every operation of the client that changes more than timers and measurements keeps its invariant.
\<close>

section \<open>Sending payload\<close>

text \<open>A packet that carries bytes already sent, or those just taken from the workload.\<close>

definition payload_in :: "packet \<Rightarrow> 'o client \<Rightarrow> bool" where
  "payload_in p c \<longleftrightarrow> handshakeCompleted c \<and> 1 \<le> Seq p \<and> Seq p + nat (Size p) \<le> data_end c \<and> Size p \<le> cl_mssBytes c"

lemma payload_in_core: "payload_in p c \<Longrightarrow> core c' = core c \<Longrightarrow> payload_in p c'"
  using coreD [of c' c] by (simp add: payload_in_def)

lemma client_emit_ok:
  assumes i: "client_ok T W c" and p: "payload_in p c"
  shows "client_ok T W (client_emit p c)"
proof (cases "\<not> terminated c \<and> hasSender c \<and> 0 < Size p")
  case True
  then have pl: "payloads (client_emit p c) = payloads c @ [p\<lparr>ReceiveWindowBytes := receiveWindowBytes c\<rparr>]"
    by (simp add: client_emit_def payloads_def)
  have f: "client_emit p c = c\<lparr>sentPackets := sentPackets (client_emit p c)\<rparr>" by (simp add: client_emit_def)
  have r: "reported (client_emit p c) = reported c" "unsentBytes (client_emit p c) = unsentBytes c"
    "data_end (client_emit p c) = data_end c"
    by (simp_all add: client_emit_def reported_def unsentBytes_def data_end_def)
  show ?thesis
    using i p pl r unfolding client_ok_def workload_ok_def positions_ok_def flight_ok_def window_kept_def board_upto_def payload_in_def
    by (subst (asm) f, subst (asm) f) (simp add: client_emit_def split: if_splits)
next
  case False
  then have "core (client_emit p c) = core c"
    by (auto simp: client_emit_def core_def reported_def payloads_def unsentBytes_def)
  with i show ?thesis by (rule client_ok_frame)
qed

lemma oldest_pending:
  assumes i: "client_ok T W c" and h: "hasPending (pendingSegments c)" and o: "oldest (pendingSegments c) = Some p"
  shows "payload_in p c \<and> 0 < Size p \<and> \<not> terminated c \<and> Seq p = oldestUnackedSeq c"
proof -
  have h': "handshakeCompleted c" "\<not> terminated c"
    using i h by (auto simp: client_ok_def flight_ok_def hasPending_def sb_empty_def split: if_splits)
  note f = client_ok_flight [OF i h']
  obtain ps where ps: "pending_segments (pendingSegments c) = p # ps"
    using h o by (auto simp: oldest_def hasPending_def pending_segments_def Cons_nth_drop_Suc [symmetric] split: if_splits)
  then have c: "Seq p = oldestUnackedSeq c" "0 < Size p" "contiguous (oldestUnackedSeq c + nat (Size p)) ps (data_end c)"
    using f(1) by auto
  have "Size p \<le> cl_mssBytes c" using i h' ps by (simp add: client_ok_def flight_ok_def)
  moreover have "1 \<le> oldestUnackedSeq c" using i h' by (simp add: client_ok_def positions_ok_def)
  ultimately show ?thesis using c contiguous_le [OF c(3)] h' by (simp add: payload_in_def)
qed

section \<open>Retransmission\<close>

lemma prepare_ok:
  assumes i: "client_ok T W c" and p: "prepareDataRetry c = Some (c', r)"
  shows "client_ok T W c' \<and> (\<forall>q. r = Some q \<longrightarrow> core c' = core c \<and> payload_in q c)"
proof (cases "terminated c \<or> finSent (connection c) \<or> \<not> hasPending (pendingSegments c)")
  case True
  then show ?thesis using assms by (auto simp: prepareDataRetry_def)
next
  case False
  show ?thesis
  proof (cases "MAX_RETRANSMISIONS \<le> oldestSegmentRetransmissions c")
    case True
    then show ?thesis using p False Shutdown_ok [OF i] by (auto simp: prepareDataRetry_def split: Option.bind_splits)
  next
    case f: False
    then obtain q where q: "oldest (pendingSegments c) = Some q" "r = Some q" "core c' = core c"
      using p False by (auto simp: prepareDataRetry_def Let_def core_upd_transfer split: Option.bind_splits if_splits)
    then show ?thesis using oldest_pending [OF i _ q(1)] False client_ok_frame [OF i q(3)] by simp
  qed
qed

lemma fast_retransmit_ok:
  assumes i: "client_ok T W c" and f: "fastRetransmitOldest b c = Some c'"
  shows "client_ok T W c'"
proof -
  obtain c1 r where p: "prepareDataRetry c = Some (c1, r)" using f by (auto simp: fastRetransmitOldest_def split: Option.bind_splits)
  note k = prepare_ok [OF i p]
  show ?thesis
  proof (cases r)
    case None
    then show ?thesis using f p k by (simp add: fastRetransmitOldest_def)
  next
    case (Some q)
    define c1' where "c1' = upd_control (upd_loss (\<lambda>l. l\<lparr>fastRetransmissions := u64 (fastRetransmissions l + 1)\<rparr>)) c1"
    obtain c2 where c2': "(if b then armDataTimer c1' else Some c1') = Some c2" "c' = client_emit q c2"
      using f p Some unfolding fastRetransmitOldest_def Let_def c1'_def by (cases b) (auto split: Option.bind_splits)
    have c2: "core c2 = core c1" "c' = client_emit q c2"
      using c2' armDataTimer_core [of c1' c2] by (auto simp: c1'_def split: if_splits)
    have "client_ok T W c2" by (rule client_ok_frame [OF conjunct1 [OF k] c2(1)])
    moreover have "payload_in q c2" using payload_in_core [of q c c2] k Some c2(1) by simp
    ultimately show ?thesis unfolding c2(2) by (rule client_emit_ok)
  qed
qed

text \<open>A report for position \<open>ack\<close> keeps all but the board's bound, which becomes \<open>ack\<close>.\<close>

definition client_ok_upto :: "nat \<Rightarrow> int \<Rightarrow> nat \<Rightarrow> 'o client \<Rightarrow> bool" where
  "client_ok_upto n T W c \<longleftrightarrow> workload_ok T c \<and> positions_ok T c \<and> flight_ok c \<and> window_kept W c \<and> board_upto n c"

lemma client_ok_upto: "client_ok T W c \<longleftrightarrow> client_ok_upto (oldestUnackedSeq c) T W c"
  by (simp add: client_ok_def client_ok_upto_def)

lemma upto_core:
  assumes "core c' = core c"
  shows "client_ok_upto n T W c' \<longleftrightarrow> client_ok_upto n T W c"
  unfolding client_ok_upto_def workload_ok_def positions_ok_def flight_ok_def window_kept_def board_upto_def coreD [OF assms] ..

lemma upto_frame: "client_ok_upto n T W c \<Longrightarrow> core c' = core c \<Longrightarrow> client_ok_upto n T W c'"
  using upto_core by blast

lemma sack_parts [simp]:
  "workload_ok T (c\<lparr>sack := x\<rparr>) = workload_ok T c" "flight_ok (c\<lparr>sack := x\<rparr>) = flight_ok c"
  "window_kept W (c\<lparr>sack := x\<rparr>) = window_kept W c"
  by (simp_all add: workload_ok_def reported_def unsentBytes_def flight_ok_def data_end_def window_kept_def payloads_def)

lemma positions_sack:
  "positions_ok T c \<Longrightarrow> sk_active x \<longrightarrow> sk_active (sack c) \<or> handshakeCompleted c \<Longrightarrow> positions_ok T (c\<lparr>sack := x\<rparr>)"
  by (auto simp: positions_ok_def data_end_def unsentBytes_def payloads_def split: if_splits)

lemma sack_change:
  assumes "client_ok_upto n T W c" "sk_active x \<longrightarrow> sk_active (sack c) \<or> handshakeCompleted c"
    "board_reach a s (board x)" "a \<le> m" "s \<le> nextSendSeq c"
  shows "client_ok_upto m T W (c\<lparr>sack := x\<rparr>)"
  using assms positions_sack [of T c x] by (auto simp: client_ok_upto_def board_upto_def)

lemma resetSACK_ok:
  assumes "client_ok T W c"
  shows "client_ok T W (resetSACKAfterTimeout c)"
proof -
  obtain a s where b: "board_reach a s (board (sack c))" "a \<le> oldestUnackedSeq c" "s \<le> nextSendSeq c"
    using assms by (auto simp: client_ok_def board_upto_def)
  show ?thesis
    using sack_change [OF assms [unfolded client_ok_upto], where x = "sack (resetSACKAfterTimeout c)", OF _ _ b(2,3)] clear_reach [OF b(1)]
    by (simp add: client_ok_upto resetSACKAfterTimeout_def upd_sack_def)
qed

lemma resetSACK_payload: "payload_in q (resetSACKAfterTimeout c) = payload_in q c"
  by (simp add: payload_in_def resetSACKAfterTimeout_def upd_sack_def data_end_def)

lemma retransmitData_ok:
  assumes i: "client_ok T W c" and f: "retransmitData c = Some c'"
  shows "client_ok T W c'"
proof -
  have i0: "client_ok T W (c\<lparr>dataTimer := 0\<rparr>)" by (rule client_ok_frame [OF i]) simp
  obtain c1 r where p: "prepareDataRetry (c\<lparr>dataTimer := 0\<rparr>) = Some (c1, r)"
    using f by (auto simp: retransmitData_def Let_def split: Option.bind_splits)
  note k = prepare_ok [OF i0 p]
  show ?thesis
  proof (cases r)
    case None
    then show ?thesis using f p k by (simp add: retransmitData_def Let_def)
  next
    case (Some q)
    define c2 where "c2 = (if negotiated (sack c1) then resetSACKAfterTimeout c1 else c1)"
    obtain c3 where c3: "core c3 = core c2" "c' = client_emit q c3"
      using f p Some unfolding c2_def
      by (auto simp: retransmitData_def Let_def split: Option.bind_splits if_splits dest!: armDataTimer_core)
    have "client_ok T W c2" using conjunct1 [OF k] resetSACK_ok [OF conjunct1 [OF k]] by (simp add: c2_def)
    then have "client_ok T W c3" by (rule client_ok_frame) (rule c3(1))
    moreover have "payload_in q c1" using payload_in_core [of q "c\<lparr>dataTimer := 0\<rparr>" c1] k Some by simp
    then have "payload_in q c2" by (simp add: c2_def resetSACK_payload)
    then have "payload_in q c3" by (rule payload_in_core) (rule c3(1))
    ultimately show ?thesis unfolding c3(2) by (rule client_emit_ok)
  qed
qed

section \<open>Selective recovery\<close>

lemma board_update_reach:
  assumes "board_upto n c" "n \<le> ack" "nextSendSeq c \<le> max_u64" "board_Update ack (nextSendSeq c) blocks (board (sack c)) = (b, ch)"
  shows "board_reach ack (nextSendSeq c) b"
proof -
  obtain a s where "board_reach a s (board (sack c))" "a \<le> n" "s \<le> nextSendSeq c" using assms(1) by (auto simp: board_upto_def)
  then have "board_reach ack (nextSendSeq c) (fst (board_Update ack (nextSendSeq c) blocks (board (sack c))))"
    using assms(2,3) by (intro board_reach.updated [where ack = a and sentEnd = s]) auto
  then show ?thesis using assms(4) by simp
qed

lemma recordSACKReports_core:
  assumes "recordSACKReports ack blocks c = (c', ch)"
  shows "\<exists>b. core c' = core (upd_sack (\<lambda>s. s\<lparr>board := b\<rparr>) c) \<and>
    (board_upto n c \<longrightarrow> n \<le> ack \<longrightarrow> nextSendSeq c \<le> max_u64 \<longrightarrow> board_reach ack (nextSendSeq c) b) \<and> board (sack c') = b"
proof -
  obtain b ch' where u: "board_Update ack (nextSendSeq c) blocks (board (sack c)) = (b, ch')" by fastforce
  have "core c' = core (upd_sack (\<lambda>s. s\<lparr>board := b\<rparr>) c) \<and> board (sack c') = b"
    using assms u by (auto simp: recordSACKReports_def Let_def upd_sack_def core_def reported_def payloads_def unsentBytes_def split: if_splits)
  then show ?thesis using board_update_reach [OF _ _ _ u] by blast
qed

lemma reports_ok:
  assumes i: "client_ok T W c" and r: "recordSACKReports ack blocks c = (c', ch)" and a: "oldestUnackedSeq c \<le> ack"
  shows "client_ok_upto ack T W c' \<and> oldestUnackedSeq c' = oldestUnackedSeq c"
proof -
  obtain b where b: "core c' = core (upd_sack (\<lambda>s. s\<lparr>board := b\<rparr>) c)" "board_reach ack (nextSendSeq c) b"
    using recordSACKReports_core [OF r, of "oldestUnackedSeq c"] i a client_okD(7) [OF i] by (auto simp: client_ok_def)
  have "client_ok_upto ack T W (upd_sack (\<lambda>s. s\<lparr>board := b\<rparr>) c)"
    unfolding upd_sack_def by (rule sack_change [OF i [unfolded client_ok_upto]]) (use b(2) in auto)
  then have "client_ok_upto ack T W c'" by (rule upto_frame) (rule b(1))
  then show ?thesis using coreD(8) [OF b(1)] by (simp add: upd_sack_def)
qed

text \<open>A hole that may be retransmitted.\<close>

definition hole_in :: "sack_block \<Rightarrow> 'o client \<Rightarrow> bool" where
  "hole_in h c \<longleftrightarrow> handshakeCompleted c \<and> 1 \<le> Start h \<and> Start h < End h \<and> End h \<le> data_end c \<and>
     int (End h) \<le> int (Start h) + cl_mssBytes c"

lemma hole_in_core: "hole_in h c \<Longrightarrow> core c' = core c \<Longrightarrow> hole_in h c'"
  using coreD [of c' c] by (simp add: hole_in_def)

lemma retransmit_hole_ok:
  assumes i: "client_ok T W c" and h: "hole_in hole c" and r: "retransmitSACKHole hole rescue c = Some c'"
  shows "client_ok T W c'"
proof (cases "Start hole = oldestUnackedSeq c \<and> MAX_RETRANSMISIONS \<le> oldestSegmentRetransmissions c")
  case True
  then show ?thesis using r Shutdown_ok [OF i] by (auto simp: retransmitSACKHole_def)
next
  case False
  obtain c1 where c1: "core c1 = core c"
    "c' = client_emit (GeneratePacket (key c1) (FlagPSH OR FlagACK) (i64 (int (u64_sub (End hole) (Start hole)))) (Start hole) (nextReceiveSeq c1))
       (recordECNRetry (GeneratePacket (key c1) (FlagPSH OR FlagACK) (i64 (int (u64_sub (End hole) (Start hole)))) (Start hole) (nextReceiveSeq c1)) c1)"
    using r False
    by (auto simp: retransmitSACKHole_def Let_def core_upd_sack core_upd_transfer split: Option.bind_splits if_splits dest!: armDataTimer_core)
  define p where "p = GeneratePacket (key c1) (FlagPSH OR FlagACK) (i64 (int (u64_sub (End hole) (Start hole)))) (Start hole) (nextReceiveSeq c1)"
  define c2 where "c2 = recordECNRetry p c1"
  have c2: "core c2 = core c" "c' = client_emit p c2" using c1 by (simp_all add: c2_def p_def)
  have m: "data_end c < max_u64" "cl_mssBytes c \<le> 65495" using client_okD [OF i] by simp_all
  have e: "u64_sub (End hole) (Start hole) = End hole - Start hole" using h m(1) by (simp add: hole_in_def)
  have "int (End hole - Start hole) \<le> 65495" using h m(2) by (simp add: hole_in_def)
  then have sz: "Size p = int (End hole) - int (Start hole)" "Seq p = Start hole"
    using h e by (simp_all add: p_def GeneratePacket_def hole_in_def in_i64_def)
  have "Start hole + nat (int (End hole) - int (Start hole)) = End hole"
    using h by (simp add: hole_in_def of_nat_diff [symmetric] del: of_nat_diff)
  then have "payload_in p c" using h sz by (simp add: payload_in_def hole_in_def)
  then have "payload_in p c2" by (rule payload_in_core) (rule c2(1))
  with client_ok_frame [OF i c2(1)] show ?thesis unfolding c2(2) by (rule client_emit_ok)
qed

text \<open>A hole below the reported data may be repaired.\<close>

lemma missing_hole_in:
  assumes i: "client_ok T W c" and h: "handshakeCompleted c" "\<not> finSent (connection c)"
    and s: "oldestUnackedSeq c \<le> s" "e \<le> nextSendSeq c"
    and m: "Start b < End b" "End b \<le> Start b + nat (cl_mssBytes c)" "{Start b..<End b} \<subseteq> missing s e rs"
  shows "hole_in b c"
proof -
  have "Start b \<in> missing s e rs" "End b - 1 \<in> missing s e rs" using m(1,3) by auto
  then have "s \<le> Start b" "End b - 1 < e" by (auto simp: missing_def)
  then have "1 \<le> Start b" "End b \<le> data_end c"
    using i h s m(1) by (auto simp: client_ok_def positions_ok_def data_end_def)
  moreover have "int (nat (cl_mssBytes c)) = cl_mssBytes c" using client_okD(4) [OF i] by simp
  ultimately show ?thesis using m(1,2) h by (simp add: hole_in_def)
qed

lemma client_board:
  assumes "client_ok T W c"
  shows "\<exists>lo. board_ok lo (nextSendSeq c) (board (sack c))" "HighestReportedEnd (board (sack c)) \<le> nextSendSeq c"
proof -
  obtain a s where b: "board_reach a s (board (sack c))" "s \<le> nextSendSeq c"
    using assms by (auto simp: client_ok_def board_upto_def)
  then have ok: "board_ok a (nextSendSeq c) (board (sack c))" using board_reach_ok [OF b(1)] by (auto simp: board_ok_def)
  then show "\<exists>lo. board_ok lo (nextSendSeq c) (board (sack c))" by blast
  show "HighestReportedEnd (board (sack c)) \<le> nextSendSeq c"
    using ok by (auto simp: HighestReportedEnd_def board_ok_def)
qed

lemma NextHole_in:
  assumes i: "client_ok T W c" and h: "handshakeCompleted c" "\<not> finSent (connection c)"
    and s: "oldestUnackedSeq c \<le> s" "e \<le> nextSendSeq c"
    and n: "NextHole s e l (nat (cl_mssBytes c)) (board (sack c)) = Some hole"
  shows "hole_in hole c"
proof -
  obtain lo where b: "board_ok lo (nextSendSeq c) (board (sack c))" using client_board [OF i] by blast
  have "nextSendSeq c \<le> max_u64" "e \<le> max_u64" "0 < nat (cl_mssBytes c)"
    using client_okD(4,7) [OF i] s(2) by simp_all
  from NextHole_cases [OF b this, of s l] n show ?thesis
    by (auto intro: missing_hole_in [OF i h s])
qed

lemma LastHole_in:
  assumes i: "client_ok T W c" and h: "handshakeCompleted c" "\<not> finSent (connection c)"
    and s: "oldestUnackedSeq c \<le> s" "e \<le> nextSendSeq c"
    and n: "LastHole s e (nat (cl_mssBytes c)) (board (sack c)) = Some hole"
  shows "hole_in hole c"
proof -
  obtain lo where b: "board_ok lo (nextSendSeq c) (board (sack c))" using client_board [OF i] by blast
  have "nextSendSeq c \<le> max_u64" "e \<le> max_u64" "0 < nat (cl_mssBytes c)"
    using client_okD(4,7) [OF i] s(2) by simp_all
  from LastHole_cases [OF b this, of s] n show ?thesis
    by (auto intro: missing_hole_in [OF i h s])
qed

lemma repair_step_ok:
  assumes i: "client_ok T W c" and r: "repair_step c = Some (c', goOn)"
    and a: "sk_active (sack c)" "\<not> finSent (connection c)"
  shows "client_ok T W c'"
proof -
  have h: "handshakeCompleted c" using i a by (auto simp: client_ok_def positions_ok_def split: if_splits)
  define s where "s = max (oldestUnackedSeq c) (retransmittedEnd (sack c))"
  define e where "e = max (oldestUnackedSeq c) (HighestReportedEnd (board (sack c)))"
  have se: "oldestUnackedSeq c \<le> s" "e \<le> nextSendSeq c"
    using client_board(2) [OF i] client_okD(10) [OF i] by (simp_all add: s_def e_def)
  have k: "core (upd_sack (\<lambda>s. s\<lparr>rescueAfterSeq := recoveryEndSeq s\<rparr>) c) = core c" by (simp add: core_upd_sack)
  have "c' = c \<or> (\<exists>hole l. NextHole s e l (nat (cl_mssBytes c)) (board (sack c)) = Some hole \<and>
      retransmitSACKHole hole False c = Some c') \<or>
    (\<exists>hole. LastHole (oldestUnackedSeq c) (nextSendSeq c) (nat (cl_mssBytes c)) (board (sack c)) = Some hole \<and>
      retransmitSACKHole hole True (upd_sack (\<lambda>s. s\<lparr>rescueAfterSeq := recoveryEndSeq s\<rparr>) c) = Some c')"
    using r unfolding repair_step_def Let_def s_def [symmetric] e_def [symmetric]
    by (auto split: if_splits option.splits Option.bind_splits)
  then show ?thesis
  proof (elim disjE exE conjE)
    assume "c' = c"
    then show ?thesis using i by simp
  next
    fix hole l
    assume "NextHole s e l (nat (cl_mssBytes c)) (board (sack c)) = Some hole" "retransmitSACKHole hole False c = Some c'"
    then show ?thesis using retransmit_hole_ok [OF i NextHole_in [OF i h a(2) se]] by blast
  next
    fix hole
    assume l: "LastHole (oldestUnackedSeq c) (nextSendSeq c) (nat (cl_mssBytes c)) (board (sack c)) = Some hole"
      and r: "retransmitSACKHole hole True (upd_sack (\<lambda>s. s\<lparr>rescueAfterSeq := recoveryEndSeq s\<rparr>) c) = Some c'"
    show ?thesis
      by (rule retransmit_hole_ok [OF client_ok_frame [OF i k] hole_in_core [OF LastHole_in [OF i h a(2) _ _ l] k] r]) simp_all
  qed
qed

lemma repair_loop_ok:
  assumes "repair_loop c = Some c'"
  shows "client_ok T W c \<longrightarrow> client_ok T W c'"
proof (rule repair_loop.raw_induct [where P = "\<lambda>c c'. client_ok T W c \<longrightarrow> client_ok T W c'", OF _ assms], intro impI)
  fix loop :: "'a client \<Rightarrow> 'a client option" and c c' :: "'a client"
  assume IH: "\<And>c c'. loop c = Some c' \<Longrightarrow> client_ok T W c \<longrightarrow> client_ok T W c'" and i: "client_ok T W c"
    and body: "(if sk_active (sack c) \<and> \<not> terminated c \<and> \<not> finSent (connection c)
      then do { (c, goOn) \<leftarrow> repair_step c; if goOn then loop c else Some c } else Some c) = Some c'"
  show "client_ok T W c'"
  proof (cases "sk_active (sack c) \<and> \<not> terminated c \<and> \<not> finSent (connection c)")
    case True
    then obtain c1 goOn where s: "repair_step c = Some (c1, goOn)" "(if goOn then loop c1 else Some c1) = Some c'"
      using body by (auto split: Option.bind_splits)
    have "client_ok T W c1" using repair_step_ok [OF i s(1)] True by blast
    then show ?thesis using s(2) IH [of c1 c'] by (auto split: if_splits)
  qed (use body i in \<open>simp split: if_splits\<close>)
qed

lemma repairs_ok:
  assumes i: "client_ok T W c" and r: "sendSACKRepairs c = Some c'"
  shows "client_ok T W c'"
proof (cases "dispatching (sack c)")
  case False
  obtain c1 where c1: "repair_loop (upd_sack (\<lambda>s. s\<lparr>dispatching := True\<rparr>) c) = Some c1"
    "c' = upd_sack (\<lambda>s. s\<lparr>dispatching := False\<rparr>) c1"
    using r False by (auto simp: sendSACKRepairs_def split: Option.bind_splits)
  have "client_ok T W (upd_sack (\<lambda>s. s\<lparr>dispatching := True\<rparr>) c)"
    by (rule client_ok_frame [OF i]) (simp add: core_upd_sack)
  then have "client_ok T W c1" using repair_loop_ok [OF c1(1)] by blast
  then show ?thesis unfolding c1(2) by (rule client_ok_frame) (simp add: core_upd_sack)
qed (use assms in \<open>simp add: sendSACKRepairs_def\<close>)

end
