(* ===== verification/ClientQueue.thy ===== *)
theory ClientQueue
  imports ClientSteps
begin

text \<open>
  Sending, finishing the stream and closing keep the invariant of the client, and the packets it takes
  from the workload fit its windows.
\<close>

section \<open>What may be sent\<close>

lemma nextPayloadSize_cases:
  assumes i: "client_ok T W c"
  shows "0 \<le> nextPayloadSize c \<and> nextPayloadSize c \<le> unsentBytes c \<and> nextPayloadSize c \<le> cl_mssBytes c \<and>
    (nextPayloadSize c \<noteq> 0 \<longrightarrow> nextSendSeq c + nat (nextPayloadSize c) \<le> peerWindowEnd c \<and>
      nat (nextPayloadSize c) \<le> availableCongestionWindowBytes c)"
proof (cases "peerWindowEnd c \<le> nextSendSeq c \<or> sk_active (sack c) \<and> availableCongestionWindowBytes c < nat (cl_mssBytes c)")
  case True
  then have "nextPayloadSize c = 0" by (auto simp: nextPayloadSize_def Let_def)
  then show ?thesis using client_okD(4,6) [OF i] by simp
next
  case False
  note d = client_okD(4-6) [OF i]
  have l: "0 \<le> min (unsentBytes c) (cl_mssBytes c)" "min (unsentBytes c) (cl_mssBytes c) \<le> 65495" using d by simp_all
  then have m: "min (unsentBytes c) (cl_mssBytes c) mod 18446744073709551616 = min (unsentBytes c) (cl_mssBytes c)" by simp
  define a where "a = min (peerWindowEnd c - nextSendSeq c) (availableCongestionWindowBytes c)"
  define n where "n = min (nat (min (unsentBytes c) (cl_mssBytes c))) a"
  have "n \<le> nat (min (unsentBytes c) (cl_mssBytes c))" by (simp add: n_def)
  then have nm: "int n \<le> min (unsentBytes c) (cl_mssBytes c)" using l(1) by linarith
  then have "int n \<le> 65495" using l(2) by linarith
  then have "i64 (int n) = int n" by (simp add: in_i64_def)
  then have e: "nextPayloadSize c = int n"
    unfolding nextPayloadSize_def Let_def m a_def [symmetric] n_def [symmetric] using False by auto
  have "n \<le> a" by (simp add: n_def)
  moreover have "int n \<le> unsentBytes c" "int n \<le> cl_mssBytes c" using nm by simp_all
  ultimately show ?thesis using False unfolding e by (auto simp: a_def)
qed

text \<open>The state in which one new segment is ready to be emitted.\<close>

lemma take_payload_ok:
  assumes i: "client_ok T W c" and n: "nextPayloadSize c = n" "n \<noteq> 0" and t: "\<not> terminated c" "\<not> finSent (connection c)"
    and s: "source c = Some src" and pk: "Seq pkt = nextSendSeq c" "Size pkt = n"
    and c1: "nextSendSeq c1 = u64 (nextSendSeq c + nat n)" "pendingSegments c1 = sb_append pkt (pendingSegments c)"
      "source c1 = Some (stream_Sent n tm src)"
    and frame: "core (c1\<lparr>nextSendSeq := nextSendSeq c, pendingSegments := pendingSegments c, source := source c\<rparr>) = core c"
  shows "client_ok T W c1 \<and> payload_in pkt c1"
proof -
  have z: "0 < n" "n \<le> unsentBytes c" "n \<le> cl_mssBytes c" "nextSendSeq c + nat n \<le> peerWindowEnd c"
    using nextPayloadSize_cases [OF i] n by simp_all
  have hs: "handshakeCompleted c"
    using i z by (auto simp: client_ok_def positions_ok_def split: if_splits)
  have w: "peerWindowEnd c \<le> W" "W \<le> max_u64" using i by (simp_all add: client_ok_def window_kept_def)
  have nx: "nextSendSeq c1 = nextSendSeq c + nat n" using c1(1) z(4) w by simp
  have un: "unsentBytes c1 = unsentBytes c - n"
  proof -
    have u: "unsentBytes c = remaining src" using s by (simp add: unsentBytes_def)
    have "unsentBytes c \<le> max_i64" using i by (simp add: client_ok_def workload_ok_def)
    then have "i64 (remaining src - n) = remaining src - n" using z u by (simp add: in_i64_def max_i64_def)
    then show ?thesis using c1(3) u by (simp add: unsentBytes_def stream_Sent_def stream_Start_def Let_def)
  qed
  have f: "terminated c1 = terminated c" "handshakeStarted c1 = handshakeStarted c" "handshakeCompleted c1 = handshakeCompleted c"
    "finSent (connection c1) = finSent (connection c)" "finSeq (connection c1) = finSeq (connection c)"
    "requested (connection c1) = requested (connection c)" "oldestUnackedSeq c1 = oldestUnackedSeq c" "peerWindowEnd c1 = peerWindowEnd c" "cl_mssBytes c1 = cl_mssBytes c"
    "streamCompleted c1 = streamCompleted c" "remainingPayloadBytesToConfirm c1 = remainingPayloadBytesToConfirm c"
    "acknowledgedPayloadBytes c1 = acknowledgedPayloadBytes c" "status (transfer c1) = status (transfer c)"
    "reported c1 = reported c" "board (sack c1) = board (sack c)" "sk_active (sack c1) = sk_active (sack c)" "payloads c1 = payloads c"
    using frame by (simp_all add: core_def reported_def payloads_def unsentBytes_def)
  have de: "data_end c1 = data_end c + nat n" "data_end c = nextSendSeq c" using t f nx by (simp_all add: data_end_def)
  have wl: "workload_ok T c" "positions_ok T c" "flight_ok c" "window_kept W c" "board_upto (oldestUnackedSeq c) c"
    using i by (simp_all add: client_ok_def)
  have "workload_ok T c1" using wl(1) z un f s c1(3) by (simp add: workload_ok_def)
  moreover have "positions_ok T c1" using wl(2) hs t z un f de nx by (simp add: positions_ok_def)
  moreover have "flight_ok c1"
  proof -
    have r: "sb_reach (oldestUnackedSeq c) (nextSendSeq c) (pendingSegments c)"
      "\<forall>p\<in>set (pending_segments (pendingSegments c)). Size p \<le> cl_mssBytes c"
      using wl(3) hs t by (simp_all add: flight_ok_def data_end_def)
    have "sb_reach (oldestUnackedSeq c) (nextSendSeq c + nat (Size pkt)) (sb_append pkt (pendingSegments c))"
      by (rule sb_reach.appended [OF r(1)]) (use pk z w in simp_all)
    moreover have "firstPendingIndex (pendingSegments c) \<le> length (segments (pendingSegments c))"
      using sb_reach_inv [OF r(1)] by simp
    then have "pending_segments (sb_append pkt (pendingSegments c)) = pending_segments (pendingSegments c) @ [pkt]"
      by (simp add: pending_segments_def sb_append_def)
    ultimately show ?thesis using r(2) hs t f de c1(2) pk z by (simp add: flight_ok_def)
  qed
  moreover have "window_kept W c1"
  proof -
    have p: "\<forall>p\<in>set (payloads c). 1 \<le> Seq p \<and> Seq p + nat (Size p) \<le> data_end c \<and> Size p \<le> cl_mssBytes c"
      "ValidMSSBytes (cl_mssBytes c)" using wl(4) by (simp_all add: window_kept_def)
    have "data_end c1 \<le> W" "0 < W" using de z(4) w(1) client_okD(11) [OF i] hs by simp_all
    moreover have "\<forall>p\<in>set (payloads c). Seq p + nat (Size p) \<le> data_end c1" 
    proof
      fix q assume "q \<in> set (payloads c)"
      then have "Seq q + nat (Size q) \<le> data_end c" using p(1) by blast
      then show "Seq q + nat (Size q) \<le> data_end c1" unfolding de(1) by (rule trans_le_add1)
    qed
    ultimately show ?thesis unfolding window_kept_def f using p w hs by simp
  qed
  moreover have "board_upto (oldestUnackedSeq c1) c1"
  proof -
    obtain a s where "board_reach a s (board (sack c))" "a \<le> oldestUnackedSeq c" "s \<le> nextSendSeq c"
      using wl(5) by (auto simp: board_upto_def)
    then show ?thesis unfolding board_upto_def f nx by (intro exI [of _ a] exI [of _ s]) simp
  qed
  ultimately have "client_ok T W c1" by (simp add: client_ok_def)
  moreover have "1 \<le> nextSendSeq c" using wl(2) hs by (simp add: positions_ok_def)
  then have "payload_in pkt c1" using hs f de pk z by (simp add: payload_in_def)
  ultimately show ?thesis by blast
qed

lemma send_new_ok:
  assumes i: "client_ok T W c" and t: "\<not> terminated c" "\<not> finSent (connection c)" and s: "source c = Some src"
    and again: "\<And>c c'. client_ok T W c \<Longrightarrow> again c = Some c' \<Longrightarrow> client_ok T W c'"
    and r: "send_new c again = Some c'"
  shows "client_ok T W c'"
proof (cases "nextPayloadSize c = 0")
  case True
  then show ?thesis using r i by (simp add: send_new_def)
next
  case False
  define n where "n = nextPayloadSize c"
  define pkt where "pkt = GeneratePacket (key c) (FlagPSH OR FlagACK) n (nextSendSeq c) (nextReceiveSeq c)"
  define c1 where "c1 = c\<lparr>nextSendSeq := u64 (nextSendSeq c + nat n), pendingSegments := sb_append pkt (pendingSegments c)\<rparr>"
  define c2 where "c2 = (if sk_active (sack c1) then upd_sack (\<lambda>s. s\<lparr>pipeBytes := u64 (pipeBytes s + nat n)\<rparr>) c1 else c1)"
  define c3 where "c3 = recordPayloadStart c2"
  define c4 where "c4 = c3\<lparr>source := map_option (stream_Sent n (now c3)) (source c3)\<rparr>"
  define c5 where "c5 = startRTTProbe pkt (observeSender c4)"
  obtain c6 pkt' c7 where c6: "(if dataTimer c5 = 0 then armDataTimer c5 else Some c5) = Some c6"
    "decorateNewPayload pkt (upd_control (recordDataSent (now c6)) c6) = (pkt', c7)" "again (client_emit pkt' c7) = Some c'"
    using r False unfolding send_new_def Let_def n_def [symmetric] pkt_def [symmetric] c1_def [symmetric] c2_def [symmetric]
      c3_def [symmetric] c4_def [symmetric] c5_def [symmetric] by (auto split: Option.bind_splits prod.splits)
  have src: "source c3 = Some src" using s
    by (simp add: c3_def c2_def c1_def recordPayloadStart_def upd_transfer_def upd_sack_def)
  have c4: "nextSendSeq c4 = u64 (nextSendSeq c + nat n)" "pendingSegments c4 = sb_append pkt (pendingSegments c)"
    "source c4 = Some (stream_Sent n (now c3) src)" using src
    by (simp_all add: c4_def c3_def c2_def c1_def recordPayloadStart_def upd_transfer_def upd_sack_def)
  have frame: "core (c4\<lparr>nextSendSeq := nextSendSeq c, pendingSegments := pendingSegments c, source := source c\<rparr>) = core c"
    by (simp add: c4_def c3_def c2_def c1_def recordPayloadStart_def upd_transfer_def upd_sack_def core_def reported_def
        payloads_def unsentBytes_def)
  have k4: "client_ok T W c4 \<and> payload_in pkt c4"
    by (rule take_payload_ok [OF i n_def [symmetric] _ t s _ _ c4 frame]) (use False in \<open>simp_all add: n_def pkt_def GeneratePacket_def\<close>)
  have "core c6 = core c5" using c6(1) armDataTimer_core [of c5 c6] by (auto split: if_splits)
  then have co: "core c7 = core c4" "Seq pkt' = Seq pkt" "Size pkt' = Size pkt"
    using decorate_core [OF c6(2)] by (simp_all add: c5_def)
  have "client_ok T W c7" by (rule client_ok_frame [OF conjunct1 [OF k4] co(1)])
  moreover have "payload_in pkt' c7"
    using payload_in_core [OF conjunct2 [OF k4] co(1)] co(2,3) by (simp add: payload_in_def)
  ultimately have "client_ok T W (client_emit pkt' c7)" by (rule client_emit_ok)
  then show ?thesis using again c6(3) by blast
qed

section \<open>Closing\<close>

lemma client_startFIN_ok:
  assumes i: "client_ok T W c" and h: "handshakeCompleted c" and r: "startFINWhenDrained c = Some c'"
  shows "client_ok T W c'"
proof (cases "terminated c \<or> finSent (connection c) \<or> \<not> requested (connection c) \<or> unsentBytes c \<noteq> 0 \<or> hasPending (pendingSegments c)")
  case True
  then show ?thesis using i r by (auto simp: startFINWhenDrained_def split: if_splits)
next
  case False
  define c1 where "c1 = (upd_close (\<lambda>k. k\<lparr>finSent := True, finSeq := nextSendSeq c\<rparr>) c)\<lparr>nextSendSeq := u64 (nextSendSeq c + 1)\<rparr>"
  have k: "core c' = core c1"
    using r False
    by (auto simp: startFINWhenDrained_def Let_def core_upd_close upd_close_def c1_def split: Option.bind_splits
        dest!: cancel_core schedule_core)
      (simp_all add: core_def reported_def payloads_def unsentBytes_def)
  have d: "oldestUnackedSeq c = data_end c" "remainingPayloadBytesToConfirm c = 0" "data_end c = nextSendSeq c"
    using client_ok_flight(1,3,4) [OF i h] contiguous_le False by (fastforce simp: data_end_def)+
  have m: "nextSendSeq c < max_u64" using client_okD(8) [OF i] d(3) by simp
  have e: "data_end c1 = data_end c" "nextSendSeq c1 = nextSendSeq c + 1" using m d(3)
    by (simp_all add: c1_def data_end_def upd_close_def)
  have f: "terminated c1 = terminated c" "handshakeStarted c1 = handshakeStarted c" "handshakeCompleted c1 = handshakeCompleted c"
    "finSent (connection c1)" "finSeq (connection c1) = nextSendSeq c" "requested (connection c1)" "pendingSegments c1 = pendingSegments c"
    "oldestUnackedSeq c1 = oldestUnackedSeq c" "peerWindowEnd c1 = peerWindowEnd c" "cl_mssBytes c1 = cl_mssBytes c"
    "streamCompleted c1 = streamCompleted c" "remainingPayloadBytesToConfirm c1 = remainingPayloadBytesToConfirm c"
    "unsentBytes c1 = unsentBytes c" "source c1 = source c"
    "acknowledgedPayloadBytes c1 = acknowledgedPayloadBytes c" "status (transfer c1) = status (transfer c)"
    "reported c1 = reported c" "board (sack c1) = board (sack c)" "sk_active (sack c1) = sk_active (sack c)" "payloads c1 = payloads c"
    using False by (simp_all add: c1_def upd_close_def reported_def payloads_def unsentBytes_def)
  have wl: "workload_ok T c" "positions_ok T c" "flight_ok c" "window_kept W c" "board_upto (oldestUnackedSeq c) c"
    using i by (simp_all add: client_ok_def)
  have "workload_ok T c1" using wl(1) f by (simp add: workload_ok_def)
  moreover have "positions_ok T c1" using wl(2) h f e d by (simp add: positions_ok_def)
  moreover have "flight_ok c1" using wl(3) f e by (simp add: flight_ok_def)
  moreover have "window_kept W c1" using wl(4) f e by (simp add: window_kept_def)
  moreover have "board_upto (oldestUnackedSeq c1) c1" using wl(5) f e unfolding board_upto_def by (metis le_SucI Suc_eq_plus1)
  ultimately have "client_ok T W c1" by (simp add: client_ok_def)
  then show ?thesis by (rule client_ok_frame) (rule k)
qed

lemma Close_with_ok:
  assumes i: "client_ok T W c" and again: "\<And>c c'. client_ok T W c \<Longrightarrow> again c = Some c' \<Longrightarrow> client_ok T W c'"
    and r: "Close_with again c = Some c'"
  shows "client_ok T W c'"
proof (cases "terminated c \<or> \<not> handshakeCompleted c")
  case True
  then show ?thesis using r i Shutdown_ok [OF i] by (auto simp: Close_with_def split: if_splits)
next
  case False
  then obtain c1 where c1: "startFINWhenDrained (upd_close (\<lambda>k. k\<lparr>requested := True\<rparr>) (beginClosing c)) = Some c1" "again c1 = Some c'"
    using r by (auto simp: Close_with_def split: Option.bind_splits)
  have "client_ok T W (upd_close (\<lambda>k. k\<lparr>requested := True\<rparr>) (beginClosing c))"
    by (rule request_ok [OF client_ok_frame [OF i]]) simp
  moreover have "handshakeCompleted (upd_close (\<lambda>k. k\<lparr>requested := True\<rparr>) (beginClosing c))"
    using False by (simp add: upd_close_def beginClosing_def)
  ultimately have "client_ok T W c1" using client_startFIN_ok c1(1) by blast
  then show ?thesis using again c1(2) by blast
qed

lemma transfer_parts [simp]:
  "positions_ok T (c\<lparr>streamCompleted := b, transfer := t\<rparr>) = positions_ok T c"
  "flight_ok (c\<lparr>streamCompleted := b, transfer := t\<rparr>) = flight_ok c"
  "window_kept W (c\<lparr>streamCompleted := b, transfer := t\<rparr>) = window_kept W c"
  "board_upto n (c\<lparr>streamCompleted := b, transfer := t\<rparr>) = board_upto n c"
  by (simp_all add: positions_ok_def unsentBytes_def flight_ok_def data_end_def window_kept_def payloads_def board_upto_def)

lemma success_ok:
  assumes "client_ok T W c" "remainingPayloadBytesToConfirm c = 0" "source c \<noteq> None"
  shows "client_ok T W (recordTransferSuccess (c\<lparr>streamCompleted := True\<rparr>))"
proof -
  define t where "t = transfer (recordTransferSuccess (c\<lparr>streamCompleted := True\<rparr>))"
  have e: "recordTransferSuccess (c\<lparr>streamCompleted := True\<rparr>) = c\<lparr>streamCompleted := True, transfer := t\<rparr>"
    and st: "status t = TransferSucceeded"
    by (simp_all add: t_def recordTransferSuccess_def upd_transfer_def Let_def)
  have "workload_ok T (c\<lparr>streamCompleted := True, transfer := t\<rparr>)"
    using assms st by (auto simp: client_ok_def workload_ok_def reported_def unsentBytes_def)
  then show ?thesis using assms(1) unfolding e client_ok_def by simp
qed

lemma finishStream_with_ok:
  assumes i: "client_ok T W c" and d: "remainingPayloadBytesToConfirm c = 0" "source c \<noteq> None"
    and again: "\<And>c c'. client_ok T W c \<Longrightarrow> again c = Some c' \<Longrightarrow> client_ok T W c'"
    and r: "finishStream_with again c = Some c'"
  shows "client_ok T W c'"
proof (cases "streamCompleted c")
  case True
  then show ?thesis using i r by (simp add: finishStream_with_def)
next
  case False
  then obtain c1 where c1: "OnStreamComplete (recordTransferSuccess (c\<lparr>streamCompleted := True\<rparr>)) = Some c1" "Close_with again c1 = Some c'"
    using r by (auto simp: finishStream_with_def split: Option.bind_splits)
  from success_ok [OF i d] have "client_ok T W c1" by (rule client_ok_frame) (rule OnStreamComplete_core [OF c1(1)])
  then show ?thesis using Close_with_ok again c1(2) by blast
qed

lemma queue_with_ok:
  assumes i: "client_ok T W c" and again: "\<And>c c'. client_ok T W c \<Longrightarrow> again c = Some c' \<Longrightarrow> client_ok T W c'"
    and r: "queue_with again c = Some c'"
  shows "client_ok T W c'"
proof -
  obtain c1 where c1: "(if sk_active (sack c) then sendSACKRepairs c else Some c) = Some c1"
    using r by (auto simp: queue_with_def split: Option.bind_splits)
  have i1: "client_ok T W c1" using c1 i repairs_ok [OF i] by (auto split: if_splits)
  show ?thesis
  proof (cases "terminated c1 \<or> finSent (connection c1) \<or> \<not> handshakeCompleted c1 \<or> source c1 = None")
    case True
    then show ?thesis using r c1 i1 by (auto simp: queue_with_def split: option.splits)
  next
    case False
    then obtain src where src: "source c1 = Some src" by blast
    define c2 where "c2 = observeSender c1"
    have k2: "core c2 = core c1" by (simp add: c2_def)
    have i2: "client_ok T W c2" by (rule client_ok_frame [OF i1 k2])
    show ?thesis
    proof (cases "remainingPayloadBytesToConfirm c2 = 0")
      case True
      then have fs: "finishStream_with again c2 = Some c'" using r c1 False src by (simp add: queue_with_def c2_def Let_def)
      have sr: "source c2 \<noteq> None" using coreD(14) [OF k2] src by simp
      show ?thesis by (rule finishStream_with_ok [OF i2 True sr _ fs]) (rule again)
    next
      case f: False
      have "core c' = core c2"
        using r c1 False src f unfolding queue_with_def c2_def
        by (auto simp: Let_def split: Option.bind_splits if_splits dest!: cancel_core)
      then show ?thesis using client_ok_frame [OF i2] by blast
    qed
  qed
qed

lemma queueSegment_ok:
  assumes "client_ok T W c" "queueSegment c = Some c'"
  shows "client_ok T W c'"
proof (rule queue_with_ok [OF assms(1) _ assms(2) [unfolded queueSegment_def]])
  fix d d' :: "'a client" assume d: "client_ok T W d" "queue_with (\<lambda>_. None) d = Some d'"
  show "client_ok T W d'" by (rule queue_with_ok [OF d(1) _ d(2)]) simp
qed

section \<open>The recursion of the code\<close>

text \<open>A completed stream stays completed, so \<open>queueSegment\<close> calls itself only once.\<close>

lemma Shutdown_completed: "ShutdownWithReason reason c = Some c' \<Longrightarrow> streamCompleted c' = streamCompleted c"
proof (cases "terminated c")
  case False
  assume "ShutdownWithReason reason c = Some c'"
  with False obtain c1 c2 where c: "cancel_all_timers c1 = Some c2" "streamCompleted c1 = streamCompleted c"
    "OnClose (upd_control clearLossTracking ((upd_ecn (\<lambda>s. s\<lparr>retryRanges := []\<rparr>)
        (upd_sack (\<lambda>s. s\<lparr>board := [], sk_active := False\<rparr>) (c2\<lparr>pendingSegments := sb_reset (pendingSegments c2)\<rparr>)))
        \<lparr>oldestSegmentRetransmissions := 0, rttProbe := no_probe\<rparr>)) = Some c'"
    by (auto simp: ShutdownWithReason_def Let_def upd_close_def recordTransferFailure_def upd_transfer_def cong: if_cong
        split: Option.bind_splits)
  show ?thesis using coreD(11) [OF cancel_all_core [OF c(1)]] coreD(11) [OF OnClose_core [OF c(3)]] c(2)
    by (simp add: upd_control_def upd_ecn_def upd_sack_def)
qed (simp add: ShutdownWithReason_def)

lemma hole_completed: "retransmitSACKHole hole rescue c = Some c' \<Longrightarrow> streamCompleted c' = streamCompleted c"
  by (auto simp: retransmitSACKHole_def Let_def client_emit_def recordECNRetry_def upd_ecn_def upd_control_def upd_sack_def
      upd_transfer_def invalidateRTTProbe_def upd_probe_def split: if_splits Option.bind_splits
      dest!: Shutdown_completed armDataTimer_core coreD(11))

lemma step_completed: "repair_step c = Some (c', goOn) \<Longrightarrow> streamCompleted c' = streamCompleted c"
  by (auto simp: repair_step_def Let_def upd_sack_def split: if_splits Option.bind_splits option.splits dest!: hole_completed)

lemma loop_completed:
  assumes "repair_loop c = Some c'"
  shows "streamCompleted c' = streamCompleted c"
proof (rule repair_loop.raw_induct [where P = "\<lambda>c c'. streamCompleted c' = streamCompleted c", OF _ assms])
  fix loop :: "'a client \<Rightarrow> 'a client option" and c c' :: "'a client"
  assume IH: "\<And>c c'. loop c = Some c' \<Longrightarrow> streamCompleted c' = streamCompleted c"
    and body: "(if sk_active (sack c) \<and> \<not> terminated c \<and> \<not> finSent (connection c)
      then do { (c, goOn) \<leftarrow> repair_step c; if goOn then loop c else Some c } else Some c) = Some c'"
  show "streamCompleted c' = streamCompleted c"
    using body IH by (auto split: if_splits Option.bind_splits dest: step_completed)
qed

lemma repairs_completed: "sendSACKRepairs c = Some c' \<Longrightarrow> streamCompleted c' = streamCompleted c"
  by (auto simp: sendSACKRepairs_def upd_sack_def split: if_splits Option.bind_splits dest!: loop_completed)

lemma startFIN_completed: "startFINWhenDrained c = Some c' \<Longrightarrow> streamCompleted c' = streamCompleted c"
  by (auto simp: startFINWhenDrained_def Let_def upd_close_def upd_control_def split: if_splits Option.bind_splits
      dest!: cancel_core schedule_core coreD(11))

lemma queue_completed:
  assumes "streamCompleted c"
  shows "queue_with f c = queue_with g c"
proof -
  have s: "finishStream_with f d = finishStream_with g d" if "streamCompleted d" for d
    using that by (simp add: finishStream_with_def)
  have o: "streamCompleted (observeSender d) = streamCompleted d" for d :: "'a client"
    by (simp add: observeSender_def upd_control_def)
  show ?thesis
  proof (cases "if sk_active (sack c) then sendSACKRepairs c else Some c")
    case (Some d)
    then have "streamCompleted d" using assms repairs_completed [of c d] by (auto split: if_splits)
    then have "finishStream_with f (observeSender d) = finishStream_with g (observeSender d)" by (simp add: s o)
    then show ?thesis unfolding queue_with_def Some Let_def by (cases "source d") simp_all
  qed (simp add: queue_with_def)
qed

text \<open>The equations of the code: each of the three operations calls the others.\<close>

lemma queue_with_cong:
  assumes "\<And>d. streamCompleted d \<Longrightarrow> f d = g d"
  shows "queue_with f = queue_with g"
proof -
  have c: "Close_with f d = Close_with g d" if "streamCompleted d" for d
  proof -
    have "f e = g e" if "startFINWhenDrained (upd_close (\<lambda>k. k\<lparr>requested := True\<rparr>) (beginClosing d)) = Some e" for e
      using startFIN_completed [OF that] \<open>streamCompleted d\<close> assms by (simp add: upd_close_def beginClosing_def split: if_splits)
    then show ?thesis unfolding Close_with_def
      by (cases "startFINWhenDrained (upd_close (\<lambda>k. k\<lparr>requested := True\<rparr>) (beginClosing d))") simp_all
  qed
  have "finishStream_with f d = finishStream_with g d" for d
  proof -
    have "OnStreamComplete (recordTransferSuccess (d\<lparr>streamCompleted := True\<rparr>)) = Some e \<Longrightarrow> streamCompleted e" for e
      using coreD(11) [OF OnStreamComplete_core] by (fastforce simp: recordTransferSuccess_def upd_transfer_def)
    then show ?thesis unfolding finishStream_with_def using c by (auto intro!: Option.bind_cong)
  qed
  then show ?thesis unfolding queue_with_def by presburger
qed

lemma queueSegment_unfold: "queueSegment c = queue_with queueSegment c"
  unfolding queueSegment_def by (rule fun_cong [OF queue_with_cong]) (rule queue_completed)

end
