(* ===== verification/ClientHandlers.thy ===== *)
theory ClientHandlers
  imports ClientQueue
begin

text \<open>
  The events and the packet handlers of the client keep its invariant.
\<close>

section \<open>Windows\<close>

lemma receiveWindowEnd_le: "receiveWindowEnd ack n \<le> max_u64"
  by (simp add: receiveWindowEnd_def Let_def)

lemma receiveWindowEnd_ge: "ack \<le> max_u64 \<Longrightarrow> ack \<le> receiveWindowEnd ack n"
  by (simp add: receiveWindowEnd_def Let_def max_u64_def)

text \<open>The largest window after the peer offers another one.\<close>

definition widen :: "nat \<Rightarrow> packet \<Rightarrow> nat" where
  "widen W pkt = max W (receiveWindowEnd (Ack pkt) (ReceiveWindowBytes pkt))"

lemma window_widen:
  assumes "client_ok T W c" "handshakeCompleted c"
  shows "client_ok T (widen W pkt) c"
  using assms receiveWindowEnd_le client_okD(11) [OF assms(1)] by (auto simp: client_ok_def window_kept_def widen_def)

lemma window_change_ok:
  assumes "client_ok T W c" "handshakeCompleted c" "w \<le> W"
  shows "client_ok T W (c\<lparr>peerWindowEnd := w, peerReceiveWindow := r\<rparr>)"
proof -
  have f: "unsentBytes (c\<lparr>peerWindowEnd := w, peerReceiveWindow := r\<rparr>) = unsentBytes c"
    "reported (c\<lparr>peerWindowEnd := w, peerReceiveWindow := r\<rparr>) = reported c"
    "payloads (c\<lparr>peerWindowEnd := w, peerReceiveWindow := r\<rparr>) = payloads c"
    "data_end (c\<lparr>peerWindowEnd := w, peerReceiveWindow := r\<rparr>) = data_end c"
    by (simp_all add: unsentBytes_def reported_def payloads_def data_end_def)
  have wl: "workload_ok T c" "positions_ok T c" "flight_ok c" "window_kept W c" using assms(1) by (simp_all add: client_ok_def)
  have "workload_ok T (c\<lparr>peerWindowEnd := w, peerReceiveWindow := r\<rparr>)" using wl(1) by (simp add: workload_ok_def f)
  moreover have "positions_ok T (c\<lparr>peerWindowEnd := w, peerReceiveWindow := r\<rparr>)"
    using wl(2) assms(2) by (simp add: positions_ok_def f)
  moreover have "flight_ok (c\<lparr>peerWindowEnd := w, peerReceiveWindow := r\<rparr>)" using wl(3) by (simp add: flight_ok_def f)
  moreover have "window_kept W (c\<lparr>peerWindowEnd := w, peerReceiveWindow := r\<rparr>)"
    using wl(4) assms(3) by (simp add: window_kept_def f)
  moreover have "board_upto n (c\<lparr>peerWindowEnd := w, peerReceiveWindow := r\<rparr>) = board_upto n c" for n
    by (simp add: board_upto_def)
  ultimately show ?thesis using assms(1) by (simp add: client_ok_def)
qed

section \<open>The closing handshake\<close>

lemma client_acknowledgeFIN_ok:
  assumes i: "client_ok T W c" and r: "client_acknowledgeFIN ack c = Some c'"
  shows "client_ok T W c'"
proof (cases "\<not> finSent (connection c) \<or> finAcked (connection c) \<or> ack \<noteq> u64 (finSeq (connection c) + 1)")
  case True
  then show ?thesis using r i by (auto simp: client_acknowledgeFIN_def Let_def)
next
  case False
  then obtain c1 where c1: "cancelEvent (finTimer \<circ> connection) finTimer_put (upd_close (\<lambda>k. k\<lparr>finAcked := True\<rparr>) c) = Some c1"
    using r by (auto simp: client_acknowledgeFIN_def Let_def split: Option.bind_splits)
  have "core c1 = core c" using cancel_core [OF c1] by (simp add: core_upd_close)
  then have i1: "client_ok T W c1" by (rule client_ok_frame [OF i])
  have "client_finishConnection CloseGraceful TransferClosedEarly c1 = Some c' \<or> core c' = core c1"
    using r False c1
    by (auto simp: client_acknowledgeFIN_def Let_def core_upd_close split: Option.bind_splits tcp_state.splits if_splits
        dest!: enterTimeWait_core schedule_core)
  then show ?thesis using finish_ok [OF i1] client_ok_frame [OF i1] by blast
qed

lemma fin_send_ok:
  assumes i: "client_ok T W c" and r: "fire_fin_send c = Some c'"
  shows "client_ok T W c'"
proof -
  have "core c' = core c"
    using r by (auto simp: fire_fin_send_def Let_def split: if_splits Option.bind_splits dest!: scheduleFIN_core)
  then show ?thesis by (rule client_ok_frame [OF i])
qed

lemma retryFIN_ok:
  assumes i: "client_ok T W c" and r: "retryFIN c = Some c'"
  shows "client_ok T W c'"
proof -
  have i1: "client_ok T W (finTimer_put (\<lambda>_. 0) c)" by (rule client_ok_frame [OF i]) simp
  have "core c' = core c \<or> client_finishConnection CloseFINRetryLimit TransferCloseTimeout (finTimer_put (\<lambda>_. 0) c) = Some c'"
    using r by (auto simp: retryFIN_def Let_def core_upd_close split: if_splits Option.bind_splits dest!: scheduleFIN_core)
  then show ?thesis using finish_ok [OF i1] client_ok_frame [OF i] by blast
qed

lemma handleReset_ok:
  assumes i: "client_ok T W c" and r: "handleReset pkt c = Some c'"
  shows "client_ok T W c'"
proof -
  have "c' = c \<or> client_finishConnection CloseReset TransferReset c = Some c'"
    using r by (auto simp: handleReset_def Let_def split: if_splits)
  then show ?thesis using finish_ok [OF i] i by blast
qed

lemma handleFin_ok:
  assumes i: "client_ok T W c" and h: "handshakeCompleted c" and r: "handleFin pkt e c = Some c'"
  shows "client_ok T W c'"
proof -
  define c1 where "c1 = (upd_close (\<lambda>k. k\<lparr>peerFIN := True\<rparr>) (beginClosing c))\<lparr>nextReceiveSeq := e\<rparr>"
  define c2 where "c2 = emitCloseACK (upd_close (\<lambda>k. k\<lparr>cl_state := TCPCloseWait, requested := True\<rparr>) c1)"
  have k: "core c1 = core c" by (simp add: c1_def core_upd_close)
  have "core c2 = core (upd_close (\<lambda>k. k\<lparr>requested := True\<rparr>) c1)"
    unfolding c2_def core_pure by (simp add: core_def upd_close_def reported_def payloads_def unsentBytes_def)
  then have i2: "client_ok T W c2" by (rule client_ok_frame [OF request_ok [OF client_ok_frame [OF i k]]])
  have "core c' = core c \<or> (\<exists>c3. queueSegment c2 = Some c3 \<and> startFINWhenDrained c3 = Some c')"
  proof (cases "Size pkt \<noteq> 0 \<or> \<not> has_flag (Flag pkt) FlagACK \<or> nextSendSeq c < Ack pkt \<or> peerFIN (connection c) \<or> Seq pkt \<noteq> nextReceiveSeq c")
    case True
    then show ?thesis using r by (auto simp: handleFin_def split: if_splits Option.bind_splits dest!: enterTimeWait_core)
  next
    case False
    then show ?thesis using r k unfolding handleFin_def Let_def c1_def [symmetric] c2_def [symmetric]
      by (auto simp: core_upd_close split: if_splits Option.bind_splits dest!: enterTimeWait_core)
  qed
  then show ?thesis
  proof
    assume "\<exists>c3. queueSegment c2 = Some c3 \<and> startFINWhenDrained c3 = Some c'"
    then obtain c3 where c3: "queueSegment c2 = Some c3" "startFINWhenDrained c3 = Some c'" by blast
    have i3: "client_ok T W c3" by (rule queueSegment_ok [OF i2 c3(1)])
    have "handshakeCompleted c3" using client_okD(11) [OF i3] client_okD(11) [OF i] h by simp
    then show ?thesis by (rule client_startFIN_ok [OF i3 _ c3(2)])
  qed (rule client_ok_frame [OF i])
qed

section \<open>The handshake\<close>

lemma unsent_start [simp]: "unsentBytes (start_source c) = unsentBytes c"
  by (simp add: unsentBytes_def start_source_def stream_Start_def Let_def split: option.split)

lemma start_core [simp]: "core (start_source c) = core c"
proof -
  have "core (start_source c) = core (c\<lparr>source := source (start_source c)\<rparr>)" by (simp add: start_source_def)
  moreover have "unsentBytes (c\<lparr>source := source (start_source c)\<rparr>) = unsentBytes c"
    using unsent_start [of c] by (simp add: start_source_def)
  ultimately show ?thesis by (simp add: core_def reported_def payloads_def start_source_def)
qed

text \<open>The second half of \<open>client_completeHandshake\<close>, which has no effect but on the fields it sets.\<close>

definition hs_end :: "packet \<Rightarrow> nat \<Rightarrow> 'o client \<Rightarrow> 'o client" where
  "hs_end pkt end' c =
     (let c = (if 0 < retrySyn c then c\<lparr>rto := afterSYNRetry (rto c)\<rparr> else c);
          c = c\<lparr>retrySyn := 0\<rparr>;
          c = upd_transfer (\<lambda>t. t\<lparr>handshakeDuration := i64 (now c - tm_startedAt t)\<rparr>) c;
          c = c\<lparr>peerInitialSeq := Seq pkt, nextReceiveSeq := end', oldestUnackedSeq := Ack pkt,
               peerWindowEnd := receiveWindowEnd (Ack pkt) (ReceiveWindowBytes pkt),
               peerReceiveWindow := ReceiveWindowBytes pkt\<rparr>;
          c = upd_sack (\<lambda>s. s\<lparr>negotiated := sk_enabled s \<and> SACKPermitted pkt\<rparr>) c;
          c = upd_ecn (\<lambda>s. s\<lparr>ecn_st := (ecn_st s)\<lparr>Negotiated := ecn_Enabled (ecn_st s) \<and>
               has_flag (Flag pkt) FlagECE \<and> \<not> has_flag (Flag pkt) FlagCWR\<rparr>\<rparr>) c;
          c = upd_control (\<lambda>ct. ct\<lparr>ct_ecnNegotiated := Negotiated (ecn_st (ecn c))\<rparr>) c
      in start_source (c\<lparr>handshakeCompleted := True\<rparr>))"

lemma completeHandshake_split:
  "client_completeHandshake pkt e c = do {
     c \<leftarrow> cancelEvent synTimer synTimer_update (upd_close (\<lambda>k. k\<lparr>cl_state := TCPEstablished\<rparr>) c);
     c \<leftarrow> observeRTTACK (Ack pkt) c;
     Some (hs_end pkt e c)
   }"
  by (simp only: client_completeHandshake_def hs_end_def Let_def)

lemma client_completeHandshake_ok:
  assumes i: "client_ok T W c" and h: "handshakeStarted c" "\<not> handshakeCompleted c" and a: "Ack pkt = 1"
    and r: "client_completeHandshake pkt e c = Some c'"
  shows "client_ok T (widen 0 pkt) c'"
proof -
  define w where "w = receiveWindowEnd 1 (ReceiveWindowBytes pkt)"
  define c1 where "c1 = c\<lparr>oldestUnackedSeq := 1, peerWindowEnd := w, handshakeCompleted := True\<rparr>"
  obtain c2 where c2: "core c2 = core c" "c' = hs_end pkt e c2"
    using r by (auto simp: completeHandshake_split core_upd_close split: Option.bind_splits dest!: cancel_core observeRTTACK_core)
  have k: "core c' = core c1"
    unfolding c2(2) hs_end_def Let_def start_core
    using c2(1) a by (simp add: core_def c1_def w_def upd_transfer_def upd_sack_def upd_control_def upd_ecn_def
        reported_def payloads_def unsentBytes_def)
  have pre: "nextSendSeq c = 1" "acknowledgedPayloadBytes c = 0" "unsentBytes c = T" "\<not> finSent (connection c)"
    "\<not> sk_active (sack c)" "payloads c = []" "workload_ok T c" "window_kept W c" "pendingSegments c = sb_empty"
    "board_upto 0 c"
    using i h by (auto simp: client_ok_def positions_ok_def flight_ok_def split: if_splits)
  have f: "reported c1 = reported c" "payloads c1 = payloads c" "unsentBytes c1 = unsentBytes c" "data_end c1 = 1"
    using pre by (simp_all add: c1_def reported_def payloads_def unsentBytes_def data_end_def)
  have "0 < w" "w \<le> max_u64" using receiveWindowEnd_ge [of 1] receiveWindowEnd_le [of 1] by (auto simp: w_def max_u64_def Suc_le_eq)
  then have "window_kept w c1" using pre f by (simp add: window_kept_def) (simp add: c1_def)
  moreover have "workload_ok T c1" using pre(7) f by (simp add: workload_ok_def) (simp add: c1_def)
  moreover have "positions_ok T c1" using pre f h by (simp add: positions_ok_def) (simp add: c1_def)
  moreover have "sb_reach 1 1 sb_empty" by (rule sb_reach.empty) (simp add: max_u64_def)
  then have "flight_ok c1" using pre f by (simp add: flight_ok_def pending_segments_def) (simp add: c1_def sb_empty_def)
  moreover have "board_upto (oldestUnackedSeq c1) c1" using pre(10) by (auto simp: board_upto_def c1_def intro: le_SucI)
  moreover have "widen 0 pkt = w" by (simp add: widen_def w_def a)
  ultimately have "client_ok T (widen 0 pkt) c1" by (simp add: client_ok_def)
  then show ?thesis by (rule client_ok_frame) (rule k)
qed

lemma handleSynAck_ok:
  assumes i: "client_ok T W c" and r: "handleSynAck pkt e c = Some c'"
  shows "client_ok T (if handshakeCompleted c' then widen W pkt else W) c'"
proof (cases "\<not> handshakeStarted c \<or> base_flags (Flag pkt) \<noteq> FlagSYN OR FlagACK \<or> Size pkt \<noteq> 0 \<or> Ack pkt \<noteq> 1 \<or>
    handshakeCompleted c \<and> Seq pkt \<noteq> peerInitialSeq c")
  case True
  then have "c' = c" using r by (auto simp: handleSynAck_def split: if_splits)
  then show ?thesis using i window_widen [OF i] by simp
next
  case False
  obtain c1 c2 where c1: "(if handshakeCompleted c then Some c else client_completeHandshake pkt e c) = Some c1"
    "(if \<not> finSent (connection c1) then armReadTimer c1 else Some c1) = Some c2"
    "queueSegment (client_emit (GeneratePacket (key c2) FlagACK 0 (nextSendSeq c2) (nextReceiveSeq c2)) c2) = Some c'"
    using r False by (auto simp: handleSynAck_def split: Option.bind_splits)
  have i1: "client_ok T (widen W pkt) c1"
  proof (cases "handshakeCompleted c")
    case True
    then show ?thesis using c1(1) window_widen [OF i] by simp
  next
    case f: False
    then have "W = 0" using client_okD(11) [OF i] by simp
    then show ?thesis using client_completeHandshake_ok [OF i _ f] False c1(1) f by simp
  qed
  have "core c2 = core c1" using c1(2) armReadTimer_core [of c1 c2] by (auto split: if_splits)
  then have "core (client_emit (GeneratePacket (key c2) FlagACK 0 (nextSendSeq c2) (nextReceiveSeq c2)) c2) = core c1"
    by (simp add: GeneratePacket_def)
  then have i3: "client_ok T (widen W pkt) c'" using queueSegment_ok [OF client_ok_frame [OF i1] c1(3)] by blast
  have "0 < widen W pkt" using False receiveWindowEnd_ge [of "Ack pkt"] by (simp add: widen_def max_u64_def less_max_iff_disj Suc_le_eq)
  then show ?thesis using i3 client_okD(11) [OF i3] by simp
qed

section \<open>Selective feedback\<close>

lemma pending_positions:
  assumes i: "client_ok T W c" and h: "hasPending (pendingSegments c)"
  shows "handshakeCompleted c" "\<not> terminated c" "\<not> finSent (connection c)"
proof -
  show h': "handshakeCompleted c" "\<not> terminated c"
    using i h by (auto simp: client_ok_def flight_ok_def hasPending_def sb_empty_def split: if_splits)
  show "\<not> finSent (connection c)"
    using client_ok_flight [OF i h'] h i h' by (auto simp: client_ok_def positions_ok_def workload_ok_def split: if_splits)
qed

lemma enterRecovery_ok:
  assumes i: "client_ok T W c" and h: "hasPending (pendingSegments c)" and r: "enterSACKRecovery c = Some c'"
  shows "client_ok T W c'"
proof -
  note pp = pending_positions [OF i h]
  define c1 where "c1 = c\<lparr>sack := (sack c)\<lparr>sk_active := True\<rparr>\<rparr>"
  obtain a s where b: "board_reach a s (board (sack c))" "a \<le> oldestUnackedSeq c" "s \<le> nextSendSeq c"
    using i by (auto simp: client_ok_def board_upto_def)
  have i1: "client_ok T W c1"
    using sack_change [OF i [unfolded client_ok_upto], where x = "(sack c)\<lparr>sk_active := True\<rparr>", OF _ _ b(2,3)] b(1) pp(1)
    unfolding client_ok_upto c1_def by simp
  define reduced where "reduced = (ct_ecnNegotiated (congestion c) \<and> oldestUnackedSeq c < reductionEndSeq (congestion c))"
  obtain p response where l: "OnLoss \<lparr>loss_At = now c, loss_kind = FastRetransmitLoss, loss_FlightBytes = bytesInFlight c,
      loss_CumulativeACK = oldestUnackedSeq c, NextSendSeq = nextSendSeq c, PendingSegments = pendingCount c,
      AlreadyTimedOut = False, AlreadyReduced = reduced, loss_SACKRecovery = True\<rparr> (policy (congestion c)) = (p, response)"
    by fastforce
  define c1a where "c1a = upd_control (\<lambda>ct. ct\<lparr>policy := p\<rparr>) c"
  define c1b where "c1b = upd_sack (\<lambda>s. s\<lparr>sk_active := True, recoveryEndSeq := nextSendSeq c1a, retransmittedEnd := oldestUnackedSeq c1a,
      pipeBytes := Pipe (oldestUnackedSeq c1a) (nextSendSeq c1a) (oldestUnackedSeq c1a) (nat (cl_mssBytes c1a)) (board s)\<rparr>) c1a"
  define c1c where "c1c = upd_control (upd_loss (\<lambda>l. l\<lparr>untilSeq := nextSendSeq c1b\<rparr>)) c1b"
  define c2 where "c2 = (if \<not> reduced then upd_control (recordReduction (nextSendSeq c1c)) c1c else c1c)"
  have "core c1b = core c1"
    by (simp add: c1b_def c1a_def c1_def core_def upd_sack_def upd_control_def reported_def payloads_def unsentBytes_def)
  then have k: "core c2 = core c1" by (simp add: c2_def c1c_def)
  have "core c' = core c \<or> core c' = core c2 \<or> (\<exists>hole. NextHole (oldestUnackedSeq c2) (nextSendSeq c2) False (nat (cl_mssBytes c2)) (board (sack c2)) = Some hole \<and>
      retransmitSACKHole hole False (upd_sack (\<lambda>s. s\<lparr>rescueAfterSeq := End hole\<rparr>) c2) = Some c')"
    using r unfolding enterSACKRecovery_def reduced_def [symmetric] Let_def l prod.case c1a_def [symmetric] c1b_def [symmetric]
      c1c_def [symmetric] c2_def [symmetric]
    by (cases "SuppressFastRetransmit response") (auto simp: c1a_def split: option.splits)
  note c2 = k coreD(7,8) [OF k] this
  have i2: "client_ok T W c2" by (rule client_ok_frame [OF i1 c2(1)])
  have k2: "handshakeCompleted c2" "\<not> finSent (connection c2)" using coreD(3,4) [OF c2(1)] pp by (simp_all add: c1_def)
  from c2(4) show ?thesis
  proof (elim disjE exE conjE)
    fix hole
    assume n: "NextHole (oldestUnackedSeq c2) (nextSendSeq c2) False (nat (cl_mssBytes c2)) (board (sack c2)) = Some hole"
      and q: "retransmitSACKHole hole False (upd_sack (\<lambda>s. s\<lparr>rescueAfterSeq := End hole\<rparr>) c2) = Some c'"
    have k: "core (upd_sack (\<lambda>s. s\<lparr>rescueAfterSeq := End hole\<rparr>) c2) = core c2" by (simp add: core_upd_sack)
    show ?thesis
      by (rule retransmit_hole_ok [OF client_ok_frame [OF i2 k] hole_in_core [OF NextHole_in [OF i2 k2 _ _ n] k] q]) simp_all
  qed (use client_ok_frame i i2 in blast)+
qed

lemma SACKFeedback_ok:
  assumes i: "client_ok T W c" and r: "observeSACKFeedback new adv c = Some c'"
  shows "client_ok T W c'"
proof (cases "negotiated (sack c) \<and> \<not> terminated c \<and> hasPending (pendingSegments c)")
  case False
  then have "c' = c" using r by (auto simp: observeSACKFeedback_def split: if_splits)
  then show ?thesis using i by simp
next
  case True
  define c1 where "c1 = (if adv then upd_sack (\<lambda>s. s\<lparr>sk_duplicateACKs := 0\<rparr>) c else c)"
  define c2 where "c2 = upd_sack (\<lambda>s. s\<lparr>sk_duplicateACKs := u64 (sk_duplicateACKs s + 1)\<rparr>) c1"
  define c3 where "c3 = upd_control (upd_loss (\<lambda>l. l\<lparr>duplicateACKs := sk_duplicateACKs (sack c2)\<rparr>)) c2"
  have k1: "core c1 = core c" by (simp add: c1_def core_upd_sack)
  have k3: "core c3 = core c" by (simp add: c3_def c2_def core_upd_sack k1)
  have "c' = c1 \<or> c' = c3 \<or> enterSACKRecovery c3 = Some c'"
    using r True unfolding observeSACKFeedback_def Let_def c1_def [symmetric] c2_def [symmetric] c3_def [symmetric]
    by (auto split: if_splits)
  then have "core c' = core c \<or> enterSACKRecovery c3 = Some c'" using k1 k3 by blast
  moreover have "hasPending (pendingSegments c3)" using True coreD(6) [OF k3] by simp
  ultimately show ?thesis using enterRecovery_ok [OF client_ok_frame [OF i k3]] client_ok_frame [OF i] by blast
qed

section \<open>Acknowledgements of data\<close>

lemma core_notify_cong: "core c' = core c \<Longrightarrow> core (notify n c') = core (notify n c)"
  by (simp add: core_def notify_def reported_def payloads_def unsentBytes_def)

lemma trim_sizes: "\<forall>p\<in>set ps. Size p \<le> m \<Longrightarrow> \<forall>p\<in>set (trim ack ps). Size p \<le> m"
proof (induction ps)
  case (Cons p ps)
  have "segment_end p \<le> Seq p + nat (Size p)" by (simp add: segment_end_def u64_def)
  then have "\<not> ack \<le> Seq p \<Longrightarrow> ack < segment_end p \<Longrightarrow> int (segment_end p - ack) \<le> Size p" by linarith
  then show ?case using Cons by (cases "ack \<le> Seq p"; cases "ack < segment_end p") auto
qed simp

lemma confirm_ok:
  assumes i: "client_ok_upto ack T W c" and a: "oldestUnackedSeq c < ack" "ack \<le> nextSendSeq c"
    and s: "handshakeCompleted c" "\<not> terminated c" "\<not> finSent (connection c)"
  shows "client_ok T W (notify (PayloadAcknowledged (i64 (int (u64_sub ack (oldestUnackedSeq c))))) (confirmBytes ack c))"
proof -
  define n where "n = ack - oldestUnackedSeq c"
  define d where "d = c\<lparr>oldestUnackedSeq := ack, remainingPayloadBytesToConfirm := remainingPayloadBytesToConfirm c - int n,
    acknowledgedPayloadBytes := acknowledgedPayloadBytes c + n, pendingSegments := sb_acknowledge ack (pendingSegments c),
    notified := notified c @ [PayloadAcknowledged (int n)]\<rparr>"
  have wl: "workload_ok T c" "positions_ok T c" "flight_ok c" "window_kept W c" "board_upto ack c"
    using i by (simp_all add: client_ok_upto_def)
  have de: "data_end c = nextSendSeq c" using s by (simp add: data_end_def)
  have rb: "sb_reach (oldestUnackedSeq c) (nextSendSeq c) (pendingSegments c)"
    "\<forall>p\<in>set (pending_segments (pendingSegments c)). Size p \<le> cl_mssBytes c"
    using wl(3) s de by (simp_all add: flight_ok_def)
  have un: "oldestUnackedSeq c = acknowledgedPayloadBytes c + 1" "int (nextSendSeq c) = 1 + T - unsentBytes c"
    using wl(2) s de by (simp_all add: positions_ok_def)
  have w: "int (acknowledgedPayloadBytes c) + remainingPayloadBytesToConfirm c = T" "T \<le> max_i64" "0 \<le> unsentBytes c"
    using wl(1) by (simp_all add: workload_ok_def)
  have n: "0 < n" "int n \<le> remainingPayloadBytesToConfirm c - unsentBytes c" using a un w unfolding n_def by linarith+
  have e1: "u64_sub ack (oldestUnackedSeq c) = n"
  proof -
    have "int (nextSendSeq c) \<le> 1 + max_i64" using un(2) w by linarith
    then have "nextSendSeq c \<le> max_u64" by (simp add: max_i64_def max_u64_def)
    then show ?thesis using a by (simp add: n_def)
  qed
  have "int n \<le> T" using n w by linarith
  then have e2: "i64 (int n) = int n" using w(2) by (simp add: in_i64_def max_i64_def)
  have e3: "i64 (remainingPayloadBytesToConfirm c - int n) = remainingPayloadBytesToConfirm c - int n"
    using n w by (simp add: in_i64_def max_i64_def)
  have "int (acknowledgedPayloadBytes c + n) \<le> max_i64" using n w by simp
  then have e4: "u64 (acknowledgedPayloadBytes c + n) = acknowledgedPayloadBytes c + n" by (simp add: max_i64_def max_u64_def)
  have k: "core (notify (PayloadAcknowledged (i64 (int (u64_sub ack (oldestUnackedSeq c))))) (confirmBytes ack c)) = core d"
  proof -
    have "core (confirmBytes ack c) = core (c\<lparr>oldestUnackedSeq := ack, remainingPayloadBytesToConfirm := remainingPayloadBytesToConfirm c - int n,
      acknowledgedPayloadBytes := acknowledgedPayloadBytes c + n, pendingSegments := sb_acknowledge ack (pendingSegments c)\<rparr>)"
      unfolding confirmBytes_def Let_def core_pure e1 e2 e3 nat_int e4 by simp
    from core_notify_cong [OF this] show ?thesis unfolding e1 e2 by (simp add: d_def notify_def)
  qed
  have f: "reported d = reported c + int n" "payloads d = payloads c" "unsentBytes d = unsentBytes c" "data_end d = data_end c"
    by (simp_all add: d_def reported_def payloads_def unsentBytes_def data_end_def)
  have "streamCompleted c \<longrightarrow> remainingPayloadBytesToConfirm c = 0" using wl(1) by (simp add: workload_ok_def)
  then have ns: "\<not> streamCompleted c" using n w(3) by auto
  have "workload_ok T d" using wl(1) n ns unfolding workload_ok_def f by (simp add: d_def)
  moreover have "positions_ok T d" using wl(2) s n un a unfolding positions_ok_def f by (simp add: d_def n_def)
  moreover have "flight_ok d"
  proof -
    have "sb_reach ack (nextSendSeq c) (sb_acknowledge ack (pendingSegments c))" by (rule sb_reach.acked [OF rb(1)]) (use a in simp_all)
    moreover have "pending_segments (sb_acknowledge ack (pendingSegments c)) = trim ack (pending_segments (pendingSegments c))"
      using sb_acknowledge_spec sb_reach_inv [OF rb(1)] by blast
    ultimately show ?thesis using rb(2) s de trim_sizes [of "pending_segments (pendingSegments c)"]
      unfolding flight_ok_def f by (simp add: d_def)
  qed
  moreover have "window_kept W d" using wl(4) unfolding window_kept_def f by (simp add: d_def)
  moreover have "board_upto (oldestUnackedSeq d) d" using wl(5) by (simp add: board_upto_def d_def)
  ultimately have "client_ok T W d" by (simp add: client_ok_def)
  then show ?thesis by (rule client_ok_frame) (rule k)
qed

text \<open>The rest of \<open>newDataAck\<close> changes the core only through the end of a recovery and the report.\<close>

lemma inactive_ok:
  assumes "client_ok T W (notify n c)"
  shows "client_ok T W (notify n (upd_sack (\<lambda>s. s\<lparr>sk_active := False\<rparr>) c))"
proof -
  obtain a s where b: "board_reach a s (board (sack c))" "a \<le> oldestUnackedSeq (notify n c)" "s \<le> nextSendSeq (notify n c)"
    using assms by (auto simp: client_ok_def board_upto_def notify_def)
  have "notify n (upd_sack (\<lambda>s. s\<lparr>sk_active := False\<rparr>) c) = (notify n c)\<lparr>sack := (sack c)\<lparr>sk_active := False\<rparr>\<rparr>"
    "oldestUnackedSeq ((notify n c)\<lparr>sack := (sack c)\<lparr>sk_active := False\<rparr>\<rparr>) = oldestUnackedSeq (notify n c)"
    by (simp_all add: notify_def upd_sack_def)
  then show ?thesis
    using sack_change [OF assms [unfolded client_ok_upto], where x = "(sack c)\<lparr>sk_active := False\<rparr>", OF _ _ b(2,3)] b(1)
    unfolding client_ok_upto by simp
qed

lemma newDataAck_ok:
  assumes i: "client_ok_upto (Ack pkt) T W c" and a: "oldestUnackedSeq c < Ack pkt" "Ack pkt \<le> nextSendSeq c"
    and s: "handshakeCompleted c" "\<not> terminated c" "\<not> finSent (connection c)" and p: "hasPending (pendingSegments c)"
    and r: "newDataAck env pkt c = Some c'"
  shows "client_ok T W c'"
proof -
  define n where "n = i64 (int (u64_sub (Ack pkt) (oldestUnackedSeq c)))"
  obtain c1 where c1: "observeRTTACK (Ack pkt) c = Some c1"
    using r p by (cases "observeRTTACK (Ack pkt) c") (simp_all add: newDataAck_def Let_def)
  define c2 where "c2 = confirmBytes (Ack pkt) c1"
  define c3 where "c3 = (if sk_active (sack c2) \<and> recoveryEndSeq (sack c2) \<le> Ack pkt
    then upd_sack (\<lambda>s. s\<lparr>sk_active := False\<rparr>) c2 else c2)"
  have k1: "core c1 = core c" by (rule observeRTTACK_core [OF c1])
  note f1 = coreD [OF k1]
  have n1: "n = i64 (int (u64_sub (Ack pkt) (oldestUnackedSeq c1)))" by (simp add: n_def f1)
  have "client_ok T W (notify (PayloadAcknowledged n) c2)"
    unfolding c2_def n1 by (rule confirm_ok) (use upto_frame [OF i k1] a s f1 in simp_all)
  then have i3: "client_ok T W (notify (PayloadAcknowledged n) c3)" by (simp add: c3_def inactive_ok)
  define completed where "completed = (sk_active (sack c2) \<and> recoveryEndSeq (sack c2) \<le> Ack pkt)"
  obtain ct response where ca: "ct_acknowledge env \<lparr>ack_At = now c3, NewBytes = nat n, CumulativeACK = Ack pkt,
      ack_FlightBytes = bytesInFlight c3, ack_SmoothedRTT = SmoothedRTT (re_state (rto c3)),
      ack_ECN = Negotiated (ecn_st (ecn c3)) \<and> has_flag (Flag pkt) FlagECE, ack_SACKRecovery = sk_active (sack c2),
      EndSACKRecovery = completed\<rparr> (congestion c3) = (ct, response)" by fastforce
  define c4 where "c4 = c3\<lparr>congestion := ct, oldestSegmentRetransmissions := 0\<rparr>"
  note c3' = c3_def [folded completed_def]
  have eq: "newDataAck env pkt c = do {
      c5 \<leftarrow> (if \<not> hasPending (pendingSegments c4) then cancelEvent dataTimer dataTimer_update c4
             else if \<not> PreserveRetransmitTimer response \<or> dataTimer c4 = 0 then armDataTimer c4 else Some c4);
      c6 \<leftarrow> (if RetransmitOldest response \<and> oldestUnackedSeq (notify (PayloadAcknowledged n) c5) = Ack pkt
             then fastRetransmitOldest False (notify (PayloadAcknowledged n) c5) else Some (notify (PayloadAcknowledged n) c5));
      if \<not> negotiated (sack c6) \<and> \<not> has_flag (Flag pkt) FlagFIN then queueSegment c6 else Some c6 }"
    using p unfolding newDataAck_def Let_def n_def [symmetric] c1 bind.bind_lunit c2_def [symmetric] completed_def [symmetric]
      c3' [symmetric] ca prod.case c4_def [symmetric] by simp
  obtain c5 c6 where c5: "(if \<not> hasPending (pendingSegments c4) then cancelEvent dataTimer dataTimer_update c4
      else if \<not> PreserveRetransmitTimer response \<or> dataTimer c4 = 0 then armDataTimer c4 else Some c4) = Some c5"
    "(if RetransmitOldest response \<and> oldestUnackedSeq (notify (PayloadAcknowledged n) c5) = Ack pkt
             then fastRetransmitOldest False (notify (PayloadAcknowledged n) c5) else Some (notify (PayloadAcknowledged n) c5)) = Some c6"
    "(if \<not> negotiated (sack c6) \<and> \<not> has_flag (Flag pkt) FlagFIN then queueSegment c6 else Some c6) = Some c'"
    using r unfolding eq by (auto simp only: bind_eq_Some_conv)
  have "core c5 = core c4" using c5(1) cancel_core [of dataTimer dataTimer_update c4 c5] armDataTimer_core [of c4 c5]
    by (auto split: if_splits)
  then have k5: "core c5 = core c3" by (simp add: c4_def)
  have "client_ok T W (notify (PayloadAcknowledged n) c5)" by (rule client_ok_frame [OF i3 core_notify_cong [OF k5]])
  then have "client_ok T W c6" using c5(2) fast_retransmit_ok by (auto split: if_splits)
  then show ?thesis using c5(3) queueSegment_ok by (auto split: if_splits)
qed

end
