(* ===== verification/ClientReach.thy ===== *)
theory ClientReach
  imports ClientHandlers
begin

text \<open>
  The client over a whole run: every packet, event, call and change of the clock keeps its invariant.
\<close>

section \<open>Packets\<close>

lemma upto_mono: "client_ok_upto n T W c \<Longrightarrow> n \<le> m \<Longrightarrow> client_ok_upto m T W c"
  unfolding client_ok_upto_def board_upto_def by (meson order_trans)

lemma reports_frame:
  assumes "recordSACKReports ack blocks c = (c', new)"
  shows "terminated c' = terminated c" "handshakeCompleted c' = handshakeCompleted c"
    "finSent (connection c') = finSent (connection c)" "nextSendSeq c' = nextSendSeq c"
    "oldestUnackedSeq c' = oldestUnackedSeq c" "pendingSegments c' = pendingSegments c"
proof -
  obtain b where "core c' = core (upd_sack (\<lambda>s. s\<lparr>board := b\<rparr>) c)" using recordSACKReports_core [OF assms] by blast
  from coreD [OF this] show "terminated c' = terminated c" "handshakeCompleted c' = handshakeCompleted c"
    "finSent (connection c') = finSent (connection c)" "nextSendSeq c' = nextSendSeq c"
    "oldestUnackedSeq c' = oldestUnackedSeq c" "pendingSegments c' = pendingSegments c"
    by (simp_all add: upd_sack_def)
qed

lemma duplicateDataAck_ok:
  assumes i: "client_ok T W c" and r: "duplicateDataAck pkt u c = Some c'"
  shows "client_ok T W c'"
proof -
  obtain ct retry where d: "ct_duplicateACK (bytesInFlight c) (pendingCount c) (nextSendSeq c) (oldestUnackedSeq c)
      (now c) (Negotiated (ecn_st (ecn c)) \<and> has_flag (Flag pkt) FlagECE) (congestion c) = (ct, retry)" by fastforce
  have k: "client_ok T W (c\<lparr>congestion := ct\<rparr>)" by (rule client_ok_frame [OF i]) simp
  obtain c1 where c1: "(if \<not> has_flag (Flag pkt) FlagFIN \<and> u \<and> hasPending (pendingSegments c)
      then if retry then fastRetransmitOldest True (c\<lparr>congestion := ct\<rparr>) else Some (c\<lparr>congestion := ct\<rparr>) else Some c) = Some c1"
    "(if \<not> has_flag (Flag pkt) FlagFIN then queueSegment c1 else Some c1) = Some c'"
    using r unfolding duplicateDataAck_def d Let_def prod.case bind_eq_Some_conv by blast
  then have "client_ok T W c1" using i fast_retransmit_ok [OF k] k by (auto split: if_splits)
  then show ?thesis using c1(2) queueSegment_ok by (auto split: if_splits)
qed

lemma handleDataAck_ok:
  assumes i: "client_ok T W c" and s: "handshakeCompleted c" "\<not> terminated c" "\<not> finSent (connection c)"
    and a: "Ack pkt \<le> nextSendSeq c" "receiveWindowEnd (Ack pkt) (ReceiveWindowBytes pkt) \<le> W"
    and r: "handleDataAck env pkt c = Some (c', news)"
  shows "client_ok T W c'"
proof (cases "Ack pkt < oldestUnackedSeq c")
  case True
  then have "c' = c \<or> recordSACKReports (oldestUnackedSeq c) (SACKBlocks pkt) c = (c', news)"
    using r by (auto simp: handleDataAck_def split: if_splits)
  then show ?thesis using reports_ok [OF i, of "oldestUnackedSeq c"] i client_ok_upto [of T W c'] by fastforce
next
  case False
  obtain c1 where c1: "armReadTimer c = Some c1" using r False by (cases "armReadTimer c") (simp_all add: handleDataAck_def)
  define c2 where "c2 = c1\<lparr>peerWindowEnd := receiveWindowEnd (Ack pkt) (ReceiveWindowBytes pkt), peerReceiveWindow := ReceiveWindowBytes pkt\<rparr>"
  define u where "u = (ReceiveWindowBytes pkt = peerReceiveWindow c1)"
  obtain c3 n3 where c3: "(if negotiated (sack c2) then recordSACKReports (Ack pkt) (SACKBlocks pkt) c2 else (c2, False)) = (c3, n3)"
    by fastforce
  have k1: "core c1 = core c" by (rule armReadTimer_core [OF c1])
  note f1 = coreD [OF k1]
  have i2: "client_ok T W c2" unfolding c2_def by (rule window_change_ok [OF client_ok_frame [OF i k1]]) (use s a f1 in simp_all)
  have f2: "terminated c2 = terminated c" "handshakeCompleted c2 = handshakeCompleted c"
    "finSent (connection c2) = finSent (connection c)" "nextSendSeq c2 = nextSendSeq c"
    "oldestUnackedSeq c2 = oldestUnackedSeq c" "pendingSegments c2 = pendingSegments c"
    using f1 by (simp_all add: c2_def)
  have f3: "terminated c3 = terminated c" "handshakeCompleted c3 = handshakeCompleted c"
    "finSent (connection c3) = finSent (connection c)" "nextSendSeq c3 = nextSendSeq c"
    "oldestUnackedSeq c3 = oldestUnackedSeq c" "pendingSegments c3 = pendingSegments c"
    using c3 f2 reports_frame [of "Ack pkt" "SACKBlocks pkt" c2 c3 n3] by (auto split: if_splits)
  have u3: "client_ok_upto (Ack pkt) T W c3"
  proof (cases "negotiated (sack c2)")
    case True
    then show ?thesis using reports_ok [OF i2, of "Ack pkt" "SACKBlocks pkt" c3 n3] c3 f2 False by simp
  next
    case n: False
    then show ?thesis using c3 i2 [unfolded client_ok_upto] f2 False upto_mono [of "oldestUnackedSeq c2" T W c2 "Ack pkt"] by simp
  qed
  obtain c4 where c4: "(if Ack pkt = oldestUnackedSeq c3 then if negotiated (sack c3) then Some c3 else duplicateDataAck pkt u c3
      else newDataAck env pkt c3) = Some c4" "c' = c4"
    using r False c1 c3 unfolding handleDataAck_def Let_def c2_def u_def by (auto split: Option.bind_splits)
  show ?thesis
  proof (cases "Ack pkt = oldestUnackedSeq c3")
    case True
    then have "client_ok T W c3" using u3 by (simp add: client_ok_upto)
    then show ?thesis using c4 True duplicateDataAck_ok by (auto split: if_splits)
  next
    case n: False
    have "hasPending (pendingSegments c)"
      using client_ok_flight(3) [OF i s(1,2)] s(3) a False n f3(5) by (simp add: data_end_def)
    then show ?thesis using newDataAck_ok [OF u3, of env c4] c4 n f3 s a False by simp
  qed
qed

lemma handleSegment_ok:
  assumes i: "client_ok T W c" and s: "handshakeCompleted c" "\<not> terminated c"
    and a: "Ack pkt \<le> nextSendSeq c" "receiveWindowEnd (Ack pkt) (ReceiveWindowBytes pkt) \<le> W"
    and r: "handleSegment env pkt e dup c = Some c'"
  shows "client_ok T W c'"
proof -
  obtain c1 where c1: "observeECNFeedback pkt c = Some c1" using r by (cases "observeECNFeedback pkt c") (simp_all add: handleSegment_def)
  have k1: "core c1 = core c" by (rule observeECN_core [OF c1])
  note f1 = coreD [OF k1]
  have i1: "client_ok T W c1" by (rule client_ok_frame [OF i k1])
  have h: "handshakeCompleted d" if "client_ok T W d" for d :: "'a client"
    using client_okD(11) [OF that] client_okD(11) [OF i] s by simp
  obtain c2 news where c2: "(if finSent (connection c1) then do { c \<leftarrow> client_acknowledgeFIN (Ack pkt) c1; Some (c, False) }
      else handleDataAck env pkt c1) = Some (c2, news)"
    using r c1 by (auto simp: handleSegment_def Let_def split: Option.bind_splits)
  have i2: "client_ok T W c2"
  proof (cases "finSent (connection c1)")
    case True
    then show ?thesis using c2 client_acknowledgeFIN_ok [OF i1] by (auto split: Option.bind_splits)
  next
    case False
    then show ?thesis using c2 handleDataAck_ok [OF i1, of pkt env c2 news] s a f1 by simp
  qed
  obtain c3 where c3: "(if has_flag (Flag pkt) FlagFIN \<and> \<not> terminated c2 then handleFin pkt e c2 else Some c2) = Some c3"
    using r c1 c2 by (auto simp: handleSegment_def Let_def split: Option.bind_splits)
  have i3: "client_ok T W c3" using c3 i2 handleFin_ok [OF i2 h [OF i2]] by (auto split: if_splits)
  have "c' = c3 \<or> (\<exists>c4. (c4 = c3 \<or> observeSACKFeedback news (oldestUnackedSeq c1 < Ack pkt) c3 = Some c4) \<and>
      (c' = c4 \<or> queueSegment c4 = Some c'))"
    using r c1 c2 c3 unfolding handleSegment_def Let_def by (auto split: Option.bind_splits if_splits)
  then show ?thesis using i3 SACKFeedback_ok queueSegment_ok by blast
qed

lemma client_HandlePacket_ok:
  assumes i: "client_ok T W c" and r: "client_HandlePacket env pkt c = Some c'"
  shows "client_ok T (if handshakeCompleted c' then widen W pkt else W) c'"
proof -
  have dir: "client_ok T (if handshakeCompleted c' then widen W pkt else W) c'" if "client_ok T W c'"
    using that window_widen [OF that] by simp
  have "c' = c \<or> handleReset pkt c = Some c' \<or> (\<exists>e. handleSynAck pkt e c = Some c') \<or>
    (handshakeCompleted c \<and> \<not> terminated c \<and> Ack pkt \<le> nextSendSeq c \<and> (\<exists>e d. handleSegment env pkt e d c = Some c'))"
    using r by (auto simp: client_HandlePacket_def Let_def split: if_splits option.splits)
  then show ?thesis
  proof (elim disjE exE conjE)
    fix e d
    assume h: "handshakeCompleted c" "\<not> terminated c" "Ack pkt \<le> nextSendSeq c" "handleSegment env pkt e d c = Some c'"
    have "client_ok T (widen W pkt) c'"
      by (rule handleSegment_ok [OF window_widen [OF i h(1)] h(1-3) _ h(4)]) (simp add: widen_def)
    moreover have "0 < widen W pkt" using client_okD(11) [OF i] h(1) by (simp add: widen_def)
    ultimately show ?thesis using client_okD(11) by fastforce
  next
    fix e assume "handleSynAck pkt e c = Some c'"
    then show ?thesis by (rule handleSynAck_ok [OF i])
  qed (use dir i handleReset_ok [OF i] in blast)+
qed

section \<open>Events\<close>

lemma sendSyn_core: "sendSyn c = Some c' \<Longrightarrow> core c' = core c"
  by (auto simp: sendSyn_def Let_def GeneratePacket_def split: Option.bind_splits if_splits dest!: cancel_core schedule_core)

lemma probe_core: "SendSYNProbe c = Some c' \<Longrightarrow> core c' = core c"
  by (auto simp: SendSYNProbe_def GeneratePacket_def split: if_splits)

lemma syn_send_core: "fire_syn_send c = Some c' \<Longrightarrow> core c' = core c"
  by (auto simp: fire_syn_send_def Let_def split: if_splits dest!: sendSyn_core)

lemma retransmitSyn_ok:
  assumes i: "client_ok T W c" and r: "retransmitSyn c = Some c'"
  shows "client_ok T W c'"
proof -
  have i1: "client_ok T W (c\<lparr>synTimer := 0\<rparr>)" by (rule client_ok_frame [OF i]) simp
  have "ShutdownWithReason TransferSynRetryLimit (c\<lparr>synTimer := 0\<rparr>) = Some c' \<or> core c' = core c"
    using r by (auto simp: retransmitSyn_def Let_def core_upd_transfer split: if_splits dest!: sendSyn_core)
  then show ?thesis using Shutdown_ok [OF i1] client_ok_frame [OF i] by blast
qed

lemma fire_send_ok:
  assumes i: "client_ok T W c" and r: "fire_send c = Some c'"
  shows "client_ok T W c'"
proof -
  define c1 where "c1 = c\<lparr>sendEvent := 0\<rparr>"
  define c2 where "c2 = observeSender (upd_control (restartAfterIdle (now c1) (CurrentRTO (re_state (rto c1)))) c1)"
  have k: "core c1 = core c" "core c2 = core c" by (simp_all add: c1_def c2_def)
  have i1: "client_ok T W c1" by (rule client_ok_frame [OF i k(1)])
  have i2: "client_ok T W c2" by (rule client_ok_frame [OF i k(2)])
  have "c' = c1 \<or> queueSegment c1 = Some c' \<or>
    (\<not> terminated c1 \<and> \<not> finSent (connection c1) \<and> source c1 \<noteq> None \<and> send_new c2 queueSegment = Some c')"
    using r unfolding fire_send_def Let_def c1_def [symmetric] c2_def [symmetric] by (auto split: if_splits option.splits)
  then show ?thesis
  proof (elim disjE conjE)
    assume s: "\<not> terminated c1" "\<not> finSent (connection c1)" "source c1 \<noteq> None" and n: "send_new c2 queueSegment = Some c'"
    obtain src where src: "source c2 = Some src" using s(3) coreD(14) [OF k(2)] coreD(14) [OF k(1)] by auto
    have "\<not> terminated c2" "\<not> finSent (connection c2)"
      using s coreD(1,4) [OF k(2)] coreD(1,4) [OF k(1)] by simp_all
    then show ?thesis by (rule send_new_ok [OF i2 _ _ src _ n]) (rule queueSegment_ok)
  qed (use i1 queueSegment_ok [OF i1] in simp_all)
qed

lemma fire_tcp_ok:
  assumes i: "client_ok T W c" and r: "fire_tcp t c = Some c'"
  shows "client_ok T W c'"
proof -
  have f: "client_ok T W (c\<lparr>readTimer := 0\<rparr>)" "client_ok T W (holdEvent_put (\<lambda>_. 0) c)" "client_ok T W (waitTimer_put (\<lambda>_. 0) c)"
    by (rule client_ok_frame [OF i], simp)+
  show ?thesis
  proof (cases t)
    case SynSend
    then show ?thesis using r client_ok_frame [OF i syn_send_core] by simp
  next
    case ReadTimer
    then show ?thesis using r f(1) Shutdown_ok [OF f(1)] by (auto simp: Let_def split: if_splits)
  next
    case HoldDue
    then show ?thesis using r f(2) queueSegment_ok [OF f(2)] by (auto simp: Let_def split: if_splits)
  qed (use r i finish_ok [OF f(3)] retransmitSyn_ok retransmitData_ok fire_send_ok fin_send_ok retryFIN_ok in auto)
qed

lemma flood_core: "fire_flood index amount g c = Some c' \<Longrightarrow> core c' = core c"
  by (auto simp: fire_flood_def Let_def split: if_splits Option.bind_splits dest!: probe_core schedule_core)

lemma client_fire_ok: "client_ok T W c \<Longrightarrow> client_fire ev c = Some c' \<Longrightarrow> client_ok T W c'"
  by (cases ev) (auto intro: fire_tcp_ok client_ok_frame flood_core)

section \<open>Calls\<close>

lemma NewClient_ok:
  assumes "NewClient e sip sport dip dport prot = Some c"
  shows "client_ok 0 0 c"
  using assms board_reach.empty
  by (auto simp: NewClient_def NewSender_def client_ok_def workload_ok_def positions_ok_def flight_ok_def window_kept_def
      board_upto_def unsentBytes_def reported_def payloads_def data_end_def ValidMSSBytes_def DefaultMSSBytes_def
      MaxMSSBytes_def max_i64_def max_u64_def split: Option.bind_splits if_splits)

lemma Establish_ok:
  assumes i: "client_ok T W c" and r: "EstablishConnection c = Some c'"
  shows "client_ok T W c'"
proof (cases "terminated c \<or> requested (connection c) \<or> handshakeStarted c")
  case True
  then show ?thesis using r i by (auto simp: EstablishConnection_def)
next
  case False
  define d where "d = c\<lparr>handshakeStarted := True, nextSendSeq := 1\<rparr>"
  have k: "core c' = core d"
    using r False unfolding EstablishConnection_def d_def
    by (auto simp: Let_def core_upd_transfer core_upd_close split: Option.bind_splits if_splits dest!: armReadTimer_core schedule_core)
  have wl: "workload_ok T c" "positions_ok T c" "flight_ok c" "window_kept W c" "board_upto (oldestUnackedSeq c) c"
    using i by (simp_all add: client_ok_def)
  have f: "unsentBytes d = unsentBytes c" "reported d = reported c" "payloads d = payloads c"
    by (simp_all add: d_def unsentBytes_def reported_def payloads_def)
  have h: "\<not> handshakeCompleted c" "nextSendSeq c = 0" using wl(2) False by (auto simp: positions_ok_def split: if_splits)
  have "workload_ok T d" using wl(1) unfolding workload_ok_def f by (simp add: d_def)
  moreover have "positions_ok T d" using wl(2) h unfolding positions_ok_def f by (simp add: d_def)
  moreover have "flight_ok d" using wl(3) h by (simp add: flight_ok_def d_def)
  moreover have "window_kept W d" using wl(2,4) h unfolding window_kept_def f by (simp add: d_def positions_ok_def)
  moreover have "board_upto (oldestUnackedSeq d) d" using wl(5) h by (auto simp: board_upto_def d_def)
  ultimately have "client_ok T W d" by (simp add: client_ok_def)
  then show ?thesis by (rule client_ok_frame) (rule k)
qed

lemma SetSource_ok:
  assumes i: "client_ok T W c" and b: "remaining s \<le> max_i64" and r: "SetSource s c = Some (c', accepted)"
  shows "client_ok (if accepted then remaining s else T) W c'"
proof (cases "terminated c \<or> requested (connection c) \<or> source c \<noteq> None")
  case True
  then show ?thesis using r i by (auto simp: SetSource_def split: if_splits)
next
  case False
  define d where "d = c\<lparr>source := Some s, remainingPayloadBytesToConfirm := remaining s\<rparr>"
  have n: "0 \<le> remaining s" and r': "accepted" "(if handshakeCompleted d then queueSegment (start_source d) else Some d) = Some c'"
    using r False by (auto simp: SetSource_def Let_def d_def split: if_splits Option.bind_splits)
  have wl: "workload_ok T c" "positions_ok T c" "flight_ok c" "window_kept W c" "board_upto (oldestUnackedSeq c) c"
    using i by (simp_all add: client_ok_def)
  have z: "unsentBytes c = 0" "T = 0" "acknowledgedPayloadBytes c = 0" "remainingPayloadBytesToConfirm c = 0" "\<not> streamCompleted c"
    using wl(1) False by (auto simp: workload_ok_def unsentBytes_def)
  have f: "unsentBytes d = remaining s" "reported d = reported c" "payloads d = payloads c" "data_end d = data_end c"
    by (simp_all add: d_def unsentBytes_def reported_def payloads_def data_end_def)
  have "workload_ok (remaining s) d" using wl(1) z b n unfolding workload_ok_def f by (simp add: d_def)
  moreover have "positions_ok (remaining s) d" using wl(2) z False unfolding positions_ok_def f by (auto simp: d_def)
  moreover have "flight_ok d" using wl(3) unfolding flight_ok_def f by (simp add: d_def)
  moreover have "window_kept W d" using wl(4) unfolding window_kept_def f by (simp add: d_def)
  moreover have "board_upto (oldestUnackedSeq d) d" using wl(5) by (simp add: board_upto_def d_def)
  ultimately have id: "client_ok (remaining s) W d" by (simp add: client_ok_def)
  have "client_ok (remaining s) W (start_source d)" by (rule client_ok_frame [OF id]) simp
  then show ?thesis using r' id queueSegment_ok by (auto split: if_splits)
qed

lemma FloodSyn_core: "FloodSyn amount g c = Some c' \<Longrightarrow> core c' = core c"
  by (auto simp: FloodSyn_def split: if_splits Option.bind_splits dest!: stopFlood_core schedule_core)

lemma client_Close_ok:
  assumes i: "client_ok T W c" and r: "client_Close c = Some c'"
  shows "client_ok T W c'"
proof -
  obtain c1 where c1: "stopFlood c = Some c1" "Close_with queueSegment c1 = Some c'"
    using r by (auto simp: client_Close_def split: Option.bind_splits)
  show ?thesis by (rule Close_with_ok [OF client_ok_frame [OF i stopFlood_core [OF c1(1)]] queueSegment_ok c1(2)])
qed

text \<open>Before the connection starts, the segment size may be changed.\<close>

lemma SetCongestion_ok:
  assumes i: "client_ok T W c" and r: "SetCongestionConfigWithMSS config mss c = Some c'"
  shows "client_ok T W c'"
proof -
  obtain ct where ct: "newCongestionControlWithMSS config mss = Some ct" "c' = c\<lparr>cl_mssBytes := mss, congestion := ct\<rparr>"
    "\<not> handshakeStarted c"
    using r by (auto simp: SetCongestionConfigWithMSS_def started_def split: if_splits Option.bind_splits)
  have v: "ValidMSSBytes mss"
    using ct(1) by (auto simp: newCongestionControlWithMSS_def NewWithMSS_def split: if_splits Option.bind_splits)
  have wl: "workload_ok T c" "positions_ok T c" "flight_ok c" "window_kept W c" "board_upto (oldestUnackedSeq c) c"
    using i by (simp_all add: client_ok_def)
  have f: "unsentBytes c' = unsentBytes c" "reported c' = reported c" "payloads c' = payloads c" "data_end c' = data_end c"
    by (simp_all add: ct(2) unsentBytes_def reported_def payloads_def data_end_def)
  have h: "\<not> handshakeCompleted c" using wl(2) ct(3) by (auto simp: positions_ok_def split: if_splits)
  have "workload_ok T c'" using wl(1) unfolding workload_ok_def f by (simp add: ct(2))
  moreover have "positions_ok T c'" using wl(2) h unfolding positions_ok_def f by (simp add: ct(2))
  moreover have "flight_ok c'" using wl(3) h by (simp add: flight_ok_def ct(2))
  moreover have "window_kept W c'" using wl(2,4) h v unfolding window_kept_def f by (simp add: ct(2) positions_ok_def)
  moreover have "board_upto (oldestUnackedSeq c') c'" using wl(5) by (simp add: board_upto_def ct(2))
  ultimately show ?thesis by (simp add: client_ok_def)
qed

section \<open>Reachable clients\<close>

text \<open>
  \<open>client_reach T W c\<close>: a client that has been handed \<open>T\<close> bytes and offered windows up to \<open>W\<close>, after
  any sequence of packets, events and calls.  Its engine is shared, and others advance it.  A source is
  given its size as a Go \<open>int\<close>.
\<close>

inductive client_reach :: "int \<Rightarrow> nat \<Rightarrow> 'o client \<Rightarrow> bool" where
  new: "NewClient e srcIP srcPort dstIP dstPort protocol = Some c \<Longrightarrow> client_reach 0 0 c"
| engine: "client_reach T W c \<Longrightarrow> client_reach T W (c\<lparr>cl_engine := e\<rparr>)"
| event: "client_reach T W c \<Longrightarrow> client_fire ev c = Some c' \<Longrightarrow> client_reach T W c'"
| packet: "client_reach T W c \<Longrightarrow> client_HandlePacket env pkt c = Some c' \<Longrightarrow>
    client_reach T (if handshakeCompleted c' then widen W pkt else W) c'"
| establish: "client_reach T W c \<Longrightarrow> EstablishConnection c = Some c' \<Longrightarrow> client_reach T W c'"
| source: "client_reach T W c \<Longrightarrow> remaining s \<le> max_i64 \<Longrightarrow> SetSource s c = Some (c', accepted) \<Longrightarrow>
    client_reach (if accepted then remaining s else T) W c'"
| flood: "client_reach T W c \<Longrightarrow> FloodSyn amount g c = Some c' \<Longrightarrow> client_reach T W c'"
| close: "client_reach T W c \<Longrightarrow> client_Close c = Some c' \<Longrightarrow> client_reach T W c'"
| shutdown: "client_reach T W c \<Longrightarrow> Shutdown c = Some c' \<Longrightarrow> client_reach T W c'"
| congestion: "client_reach T W c \<Longrightarrow> SetCongestionConfigWithMSS config mss c = Some c' \<Longrightarrow> client_reach T W c'"
| configure: "client_reach T W c \<Longrightarrow>
    client_SetReceiveBufferBytes bytes c = Some c' \<or> client_SetRTOConfig rc c = Some c' \<or> SetIdleTimeout d c = Some c' \<or>
    client_SetCloseConfig cc c = Some c' \<or> client_SetSACKEnabled b c = Some c' \<or> client_SetECNEnabled b c = Some c' \<or>
    client_SetSender b c = Some c' \<Longrightarrow> client_reach T W c'"

lemma configure_core:
  "client_SetReceiveBufferBytes bytes c = Some c' \<or> client_SetRTOConfig rc c = Some c' \<or> SetIdleTimeout d c = Some c' \<or>
    client_SetCloseConfig cc c = Some c' \<or> client_SetSACKEnabled b c = Some c' \<or> client_SetECNEnabled b c = Some c' \<or>
    client_SetSender b c = Some c' \<Longrightarrow> core c' = core c"
  by (auto simp: client_SetReceiveBufferBytes_def client_SetRTOConfig_def SetIdleTimeout_def client_SetCloseConfig_def
      client_SetSACKEnabled_def client_SetECNEnabled_def client_SetSender_def core_upd_close core_upd_sack
      split: if_splits Option.bind_splits)

lemma client_reach_ok: "client_reach T W c \<Longrightarrow> client_ok T W c"
proof (induction rule: client_reach.induct)
  case (new e srcIP srcPort dstIP dstPort protocol c)
  then show ?case by (rule NewClient_ok)
next
  case (engine T W c e)
  show ?case by (rule client_ok_frame [OF engine.IH]) simp
next
  case (event T W c ev c')
  then show ?case by (blast intro: client_fire_ok)
next
  case (packet T W c env pkt c')
  show ?case by (rule client_HandlePacket_ok [OF packet.IH packet.hyps(2)])
next
  case (establish T W c c')
  then show ?case by (blast intro: Establish_ok)
next
  case (source T W c s c' accepted)
  show ?case by (rule SetSource_ok [OF source.IH source.hyps(2,3)])
next
  case (flood T W c amount g c')
  show ?case by (rule client_ok_frame [OF flood.IH FloodSyn_core [OF flood.hyps(2)]])
next
  case (close T W c c')
  then show ?case by (blast intro: client_Close_ok)
next
  case (shutdown T W c c')
  then show ?case using Shutdown_ok unfolding Shutdown_def by blast
next
  case (congestion T W c config mss c')
  then show ?case by (blast intro: SetCongestion_ok)
next
  case (configure T W c bytes c' rc d cc b)
  show ?case by (rule client_ok_frame [OF configure.IH configure_core [OF configure.hyps(2)]])
qed

end
