(* ===== verification/ClientProps.thy ===== *)
theory ClientProps
  imports ClientReach "HOL-Library.Code_Target_Numeral"
begin

text \<open>
  What the client guarantees over a whole run: it accounts for every byte it was handed, and it never
  sends beyond the windows it was offered.
\<close>

section \<open>A transfer\<close>

text \<open>A client that is handed five bytes and sends the three that the peer's window takes.\<close>

definition demo_synack :: packet where
  "demo_synack = \<lparr>Key = GenerateClientKey ''c'' 1 ''s'' 2 TCP, Flag = FlagSYN OR FlagACK, Size = 0, Seq = 0, Ack = 1,
     ECN = NotECT, ReceiveWindowBytes = 3, SACKPermitted = False, SACKBlocks = []\<rparr>"

definition demo_source :: finite_stream where
  "demo_source = \<lparr>remaining = 5, gap = 0, fs_endTime = 1000000000, nextSendAt = 0, withinRun = False\<rparr>"

definition demo_client :: "unit client option" where
  "demo_client = do {
     e \<leftarrow> engine_New 1000000000;
     c \<leftarrow> NewClient e ''c'' 1 ''s'' 2 TCP;
     c \<leftarrow> client_SetSender True c;
     (c, _) \<leftarrow> SetSource demo_source c;
     c \<leftarrow> EstablishConnection c;
     c \<leftarrow> client_fire (TCPDue SynSend) c;
     c \<leftarrow> client_HandlePacket demo_env demo_synack c;
     client_fire (TCPDue SendDue) c
   }"

lemma demo_values:
  "(case demo_client of None \<Rightarrow> False
    | Some c \<Rightarrow> handshakeCompleted c \<and> \<not> terminated c \<and> nextSendSeq c = 4 \<and> oldestUnackedSeq c = 1 \<and> unsentBytes c = 2 \<and>
        map Size (sentPackets c) = [0, 0, 3] \<and> map Seq (sentPackets c) = [0, 1, 1])"
  by code_simp

lemma demo_reach: "\<exists>c. demo_client = Some c \<and> client_reach 5 4 c"
proof -
  obtain c where c: "demo_client = Some c" "handshakeCompleted c" using demo_values by (auto split: option.splits)
  then obtain e c1 c2 c3 ok c4 c5 c6 where
    s: "NewClient e ''c'' 1 ''s'' 2 TCP = Some c1" "client_SetSender True c1 = Some c2" "SetSource demo_source c2 = Some (c3, ok)"
      "EstablishConnection c3 = Some c4" "client_fire (TCPDue SynSend) c4 = Some c5"
      "client_HandlePacket demo_env demo_synack c5 = Some c6" "client_fire (TCPDue SendDue) c6 = Some c"
    unfolding demo_client_def by (auto simp: bind_eq_Some_conv split: prod.splits)
  have "client_reach 0 0 c2" by (rule client_reach.configure [OF client_reach.new [OF s(1)]]) (use s(2) in blast)
  from client_reach.source [OF this _ s(3)] have r3: "client_reach (if ok then 5 else 0) 0 c3"
    by (cases ok) (simp_all add: demo_source_def max_i64_def)
  have ok: "ok" using s(1-3)
    by (auto simp: NewClient_def NewSender_def client_SetSender_def SetSource_def demo_source_def
        split: if_splits Option.bind_splits)
  have r5: "client_reach 5 0 c5"
    using client_reach.event [OF client_reach.establish [OF r3 s(4)] s(5)] ok by simp
  have w: "widen 0 demo_synack = 4" by (simp add: widen_def demo_synack_def receiveWindowEnd_def max_u64_def)
  have r6: "client_reach 5 (if handshakeCompleted c6 then 4 else 0) c6" using client_reach.packet [OF r5 s(6)] unfolding w .
  note r7 = client_reach.event [OF r6 s(7)]
  have "handshakeCompleted c6" using client_okD(11) [OF client_reach_ok [OF r7]] c(2) by (simp split: if_splits)
  then show ?thesis using r7 c(1) by auto
qed

section \<open>Properties\<close>

text \<open>C35: In every run, the bytes a client was handed are acknowledged, in flight or unsent, and none is
  lost or counted twice; the buffered segments cover exactly the bytes in flight; the observer is told
  of each acknowledged byte once; the transfer is a success only when all bytes are acknowledged, and
  the FIN is only sent then, at the position after the last byte.\<close>
theorem client_stream_accounting:
  assumes "client_reach T W c"
  shows "int (acknowledgedPayloadBytes c) + remainingPayloadBytesToConfirm c = T \<and> 0 \<le> unsentBytes c \<and>
    (handshakeCompleted c \<longrightarrow> oldestUnackedSeq c = acknowledgedPayloadBytes c + 1 \<and>
      int (data_end c) - int (oldestUnackedSeq c) = remainingPayloadBytesToConfirm c - unsentBytes c) \<and>
    (handshakeCompleted c \<and> \<not> terminated c \<longrightarrow>
      contiguous (oldestUnackedSeq c) (pending_segments (pendingSegments c)) (data_end c)) \<and>
    sum_list (map reported_bytes (notified c)) = int (acknowledgedPayloadBytes c) \<and>
    (status (transfer c) = TransferSucceeded \<longrightarrow> int (acknowledgedPayloadBytes c) = T) \<and>
    (finSent (connection c) \<longrightarrow> int (acknowledgedPayloadBytes c) = T \<and> int (finSeq (connection c)) = T + 1)"
proof -
  have i: "client_ok T W c" by (rule client_reach_ok [OF assms])
  then have wl: "workload_ok T c" "positions_ok T c" by (simp_all add: client_ok_def)
  have "int (acknowledgedPayloadBytes c) + remainingPayloadBytesToConfirm c = T" "0 \<le> unsentBytes c"
    "sum_list (map reported_bytes (notified c)) = int (acknowledgedPayloadBytes c)"
    "status (transfer c) = TransferSucceeded \<longrightarrow> int (acknowledgedPayloadBytes c) = T"
    using wl(1) by (auto simp: workload_ok_def reported_def)
  moreover have "handshakeCompleted c \<longrightarrow> oldestUnackedSeq c = acknowledgedPayloadBytes c + 1 \<and>
      int (data_end c) - int (oldestUnackedSeq c) = remainingPayloadBytesToConfirm c - unsentBytes c"
    "finSent (connection c) \<longrightarrow> int (acknowledgedPayloadBytes c) = T \<and> int (finSeq (connection c)) = T + 1"
    using wl by (auto simp: workload_ok_def positions_ok_def split: if_splits)
  moreover note client_ok_flight(1) [OF i]
  ultimately show ?thesis by blast
qed

text \<open>Witness: of five bytes, three are in flight and two unsent.\<close>

lemma client_stream_accounting_witness:
  "\<exists>c. demo_client = Some c \<and> handshakeCompleted c \<and> unsentBytes c = 2 \<and> remainingPayloadBytesToConfirm c = 5 \<and>
    contiguous 1 (pending_segments (pendingSegments c)) 4"
proof -
  obtain c where c: "demo_client = Some c" "client_reach 5 4 c" using demo_reach by blast
  have v: "handshakeCompleted c" "\<not> terminated c" "unsentBytes c = 2" "oldestUnackedSeq c = 1" "nextSendSeq c = 4"
    using demo_values unfolding c(1) by simp_all
  note a = client_stream_accounting [OF c(2)]
  have "acknowledgedPayloadBytes c = 0" using a v by simp
  then have r: "remainingPayloadBytesToConfirm c = 5" using a by simp
  moreover have "data_end c = 4" using a v r by simp
  ultimately show ?thesis using c(1) v a by auto
qed

text \<open>C36: A client never sends payload beyond the largest window it has been offered, nor a segment
  larger than its maximum segment size, nor a byte it has not taken from its workload: this holds for
  every packet it ever sends, first transmissions, retransmissions and repairs alike.  The size it picks
  for a new segment fits the current windows of the peer and of congestion control.\<close>
theorem client_respects_windows:
  assumes "client_reach T W c"
  shows "(\<forall>p\<in>set (sentPackets c). 0 < Size p \<longrightarrow>
      1 \<le> Seq p \<and> Seq p + nat (Size p) \<le> data_end c \<and> data_end c \<le> W \<and> Size p \<le> cl_mssBytes c) \<and>
    0 \<le> nextPayloadSize c \<and> nextPayloadSize c \<le> min (unsentBytes c) (cl_mssBytes c) \<and>
    (nextPayloadSize c \<noteq> 0 \<longrightarrow> nextSendSeq c + nat (nextPayloadSize c) \<le> peerWindowEnd c \<and>
      nat (nextPayloadSize c) \<le> availableCongestionWindowBytes c)"
proof -
  have i: "client_ok T W c" by (rule client_reach_ok [OF assms])
  have "1 \<le> Seq p \<and> Seq p + nat (Size p) \<le> data_end c \<and> data_end c \<le> W \<and> Size p \<le> cl_mssBytes c"
    if "p \<in> set (sentPackets c)" "0 < Size p" for p
  proof -
    have p: "p \<in> set (payloads c)" using that by (simp add: payloads_def)
    then have "1 \<le> Seq p \<and> Seq p + nat (Size p) \<le> data_end c \<and> Size p \<le> cl_mssBytes c"
      using i by (simp add: client_ok_def window_kept_def)
    moreover have "payloads c \<noteq> []" using p by auto
    then have "handshakeCompleted c" using i by (auto simp: client_ok_def positions_ok_def split: if_splits)
    then have "data_end c \<le> W" using i by (simp add: client_ok_def window_kept_def)
    ultimately show ?thesis by simp
  qed
  then show ?thesis using nextPayloadSize_cases [OF i] by simp
qed

text \<open>Witness: the segment of three bytes ends at the window's end, 4.\<close>

lemma client_respects_windows_witness:
  "\<exists>c p. demo_client = Some c \<and> p \<in> set (sentPackets c) \<and> Size p = 3 \<and> Seq p + nat (Size p) \<le> 4"
proof -
  obtain c where c: "demo_client = Some c" "client_reach 5 4 c" using demo_reach by blast
  have "3 \<in> set (map Size (sentPackets c))" using demo_values unfolding c(1) by simp
  then obtain p where p: "p \<in> set (sentPackets c)" "Size p = 3" by auto
  then have "0 < Size p" by simp
  with client_respects_windows [OF c(2)] p(1) have "Seq p + nat (Size p) \<le> 4" by (meson order_trans)
  then show ?thesis using c(1) p by blast
qed

end
