(* ===== verification/SackReport.thy ===== *)
theory SackReport
  imports ReceiverPackets Scoreboard
begin

text \<open>
  The way of a selective report from the passive side (\<open>protocols/tcp/receiver_sack.go\<close>) to the board of
  the active side (\<open>protocols/tcp/sack/scoreboard.go\<close>).
\<close>

section \<open>The blocks of a report\<close>

definition report_ok :: "ranges \<Rightarrow> sack_block list \<Rightarrow> bool" where
  "report_ok rs bs \<longleftrightarrow> distinct bs \<and> length bs \<le> MaxSACKBlocks \<and> set bs \<subseteq> set rs"

lemma include_block_report:
  assumes "report_ok rs bs" "b \<in> set rs"
  shows "report_ok rs (include_block b bs) \<and> (\<exists>xs. include_block b bs = bs @ xs) \<and>
    (length (include_block b bs) = MaxSACKBlocks \<or> b \<in> set (include_block b bs))"
  using assms by (auto simp: report_ok_def include_block_def)

lemma include_touched_report:
  assumes "report_ok rs bs"
  shows "report_ok rs (include_touched rs s e bs) \<and> (\<exists>xs. include_touched rs s e bs = bs @ xs)"
  using assms include_block_report [OF assms]
  by (auto simp: include_touched_def touched_def find_Some_iff split: option.split)

lemma old_reports:
  "report_ok rs bs \<Longrightarrow>
   report_ok rs (fold (\<lambda>p bs. if length bs = MaxSACKBlocks then bs else include_touched rs (Start p) (End p) bs) old bs) \<and>
   (\<exists>xs. fold (\<lambda>p bs. if length bs = MaxSACKBlocks then bs else include_touched rs (Start p) (End p) bs) old bs = bs @ xs)"
proof (induction old arbitrary: bs)
  case (Cons p old)
  define bs' where "bs' = (if length bs = MaxSACKBlocks then bs else include_touched rs (Start p) (End p) bs)"
  have "report_ok rs bs'" "\<exists>xs. bs' = bs @ xs" using include_touched_report [OF Cons.prems] Cons.prems by (auto simp: bs'_def)
  then show ?case using Cons.IH [of bs'] unfolding fold_simps bs'_def [symmetric] by auto
qed simp

lemma fill_reports:
  "report_ok rs bs \<Longrightarrow> set new \<subseteq> set rs \<Longrightarrow>
   (let r = fold (\<lambda>b bs. if length bs = MaxSACKBlocks then bs else include_block b bs) new bs
    in report_ok rs r \<and> (\<exists>xs. r = bs @ xs) \<and> (length r = MaxSACKBlocks \<or> set new \<subseteq> set r))"
proof (induction new arbitrary: bs)
  case (Cons b new)
  define bs' where "bs' = (if length bs = MaxSACKBlocks then bs else include_block b bs)"
  have b: "report_ok rs bs'" "\<exists>xs. bs' = bs @ xs" "length bs' = MaxSACKBlocks \<or> b \<in> set bs'"
    using include_block_report [OF Cons.prems(1), of b] Cons.prems by (auto simp: bs'_def)
  define r where "r = fold (\<lambda>b bs. if length bs = MaxSACKBlocks then bs else include_block b bs) new bs'"
  have IH: "report_ok rs r" "\<exists>xs. r = bs' @ xs" "length r = MaxSACKBlocks \<or> set new \<subseteq> set r"
    using Cons.IH [OF b(1)] Cons.prems by (simp_all add: r_def Let_def)
  have "length r \<le> MaxSACKBlocks" using IH(1) by (simp add: report_ok_def)
  then have "length r = MaxSACKBlocks \<or> set (b # new) \<subseteq> set r" using IH(2,3) b(3) by auto
  moreover have "\<exists>xs. r = bs @ xs" using IH(2) b(2) by auto
  ultimately show ?case using IH(1) unfolding fold_simps bs'_def [symmetric] r_def [symmetric] Let_def by blast
qed (simp add: Let_def)

text \<open>A report lists ranges of the buffer, the one just touched first, and all of them if they fit.\<close>

lemma recordSACKArrival_report:
  assumes "sackPermitted c"
  shows "report_ok (rb_ranges (rbuf c)) (sackRecent (recordSACKArrival s e c))"
    "touched s e (rb_ranges (rbuf c)) = Some b \<Longrightarrow> \<exists>xs. sackRecent (recordSACKArrival s e c) = b # xs"
    "length (rb_ranges (rbuf c)) \<le> MaxSACKBlocks \<Longrightarrow>
      set (sackRecent (recordSACKArrival s e c)) = set (rb_ranges (rbuf c))"
proof -
  define rs where "rs = rb_ranges (rbuf c)"
  define bs1 where "bs1 = include_touched rs s e []"
  define bs2 where "bs2 = fold (\<lambda>p bs. if length bs = MaxSACKBlocks then bs else include_touched rs (Start p) (End p) bs) (sackRecent c) bs1"
  define r where "r = fold (\<lambda>b bs. if length bs = MaxSACKBlocks then bs else include_block b bs) rs bs2"
  have r: "sackRecent (recordSACKArrival s e c) = r"
    using assms unfolding recordSACKArrival_def Let_def r_def bs2_def bs1_def rs_def by simp
  have e: "report_ok rs []" by (simp add: report_ok_def)
  have "report_ok rs bs1" using include_touched_report [OF e] by (simp add: bs1_def)
  then have "report_ok rs bs2" "\<exists>xs. bs2 = bs1 @ xs" using old_reports unfolding bs2_def by blast+
  moreover from this have f: "report_ok rs r" "\<exists>xs. r = bs2 @ xs" "length r = MaxSACKBlocks \<or> set rs \<subseteq> set r"
    using fill_reports [of rs bs2 rs] unfolding r_def Let_def by blast+
  ultimately have x: "\<exists>xs. r = bs1 @ xs" by auto
  show "report_ok (rb_ranges (rbuf c)) (sackRecent (recordSACKArrival s e c))" using f(1) by (simp add: r rs_def)
  show "\<exists>xs. sackRecent (recordSACKArrival s e c) = b # xs" if "touched s e (rb_ranges (rbuf c)) = Some b"
    using x that by (auto simp: r bs1_def rs_def include_touched_def include_block_def MaxSACKBlocks_def)
  assume l: "length (rb_ranges (rbuf c)) \<le> MaxSACKBlocks"
  have s: "set r \<subseteq> set rs" "distinct r" using f(1) by (simp_all add: report_ok_def)
  have "set rs \<subseteq> set r"
  proof (rule disjE [OF f(3)])
    assume "length r = MaxSACKBlocks"
    then have "card (set rs) \<le> card (set r)"
      using l card_length [of rs] distinct_card [OF s(2)] by (simp add: rs_def)
    then show ?thesis using card_seteq [OF _ s(1)] by simp
  qed
  then show "set (sackRecent (recordSACKArrival s e c)) = set (rb_ranges (rbuf c))" using s(1) by (simp add: r rs_def)
qed

section \<open>The round trip\<close>

lemma reportable_ranges:
  assumes "rb_ok b" "positions (rb_ranges b) \<subseteq> {..<sentEnd}" "set bs \<subseteq> set (rb_ranges b)"
  shows "new_positions (nextExpectedSeq b) sentEnd bs = positions bs"
proof -
  have "reportable (nextExpectedSeq b) sentEnd x" if "x \<in> set bs" for x
  proof -
    have x: "x \<in> set (rb_ranges b)" using that assms(3) by blast
    have ok: "ranges_ok (Suc (nextExpectedSeq b)) (rb_ranges b)" using assms(1) by (simp add: rb_ok_def)
    have "nextExpectedSeq b < Start x" "Start x < End x" using ranges_ok_Start [OF ok x] by simp_all
    moreover from this have "End x - 1 \<in> positions (rb_ranges b)" using x by (force simp: positions_def)
    then have "End x \<le> sentEnd" using assms(2) by auto
    ultimately show ?thesis by (simp add: reportable_def)
  qed
  then show ?thesis by (simp add: new_positions_def filter_id_conv)
qed

text \<open>C37: A selective report survives the way from the receiver to the sender's board: the blocks the
  receiver lists are distinct ranges of its buffer, at most four, the range just touched by the arriving
  segment first.  A board that knew only received data knows only buffered data afterwards; it learns
  every listed block, and when the buffer has at most four ranges, the board decodes to exactly the
  buffer, with its news flag telling whether anything was unknown.\<close>
theorem sack_report_roundtrip:
  assumes "rb_ok (rbuf c)" "sackPermitted c" "board_reach una end0 rs" "una \<le> nextExpectedSeq (rbuf c)"
    "end0 \<le> sentEnd" "sentEnd \<le> max_u64" "positions (rb_ranges (rbuf c)) \<subseteq> {..<sentEnd}"
    "positions rs \<subseteq> received (rbuf c)"
    "board_Update (nextExpectedSeq (rbuf c)) sentEnd (sackRecent (recordSACKArrival s e c)) rs = (rs', fresh)"
  shows "distinct (sackRecent (recordSACKArrival s e c)) \<and> length (sackRecent (recordSACKArrival s e c)) \<le> 4 \<and>
    (\<forall>b. touched s e (rb_ranges (rbuf c)) = Some b \<longrightarrow> (\<exists>bs. sackRecent (recordSACKArrival s e c) = b # bs)) \<and>
    positions rs' \<subseteq> positions (rb_ranges (rbuf c)) \<and>
    positions (sackRecent (recordSACKArrival s e c)) \<subseteq> positions rs' \<and>
    (length (rb_ranges (rbuf c)) \<le> 4 \<longrightarrow> positions rs' = positions (rb_ranges (rbuf c)) \<and>
      (fresh \<longleftrightarrow> \<not> positions (rb_ranges (rbuf c)) \<subseteq> positions rs))"
proof -
  let ?b = "rbuf c" and ?bs = "sackRecent (recordSACKArrival s e c)"
  note rep = recordSACKArrival_report [OF assms(2), of s e]
  have sub: "set ?bs \<subseteq> set (rb_ranges ?b)" using rep(1) by (simp add: report_ok_def)
  have n: "new_positions (nextExpectedSeq ?b) sentEnd ?bs = positions ?bs" by (rule reportable_ranges [OF assms(1,7) sub])
  have u: "positions rs' = positions rs \<inter> {nextExpectedSeq ?b..} \<union> positions ?bs" "fresh \<longleftrightarrow> \<not> positions ?bs \<subseteq> positions rs"
    using board_Update_spec [OF _ assms(4,5,9,6)] board_reach_ok [OF assms(3)] n by blast+
  have old: "positions rs \<inter> {nextExpectedSeq ?b..} \<subseteq> positions (rb_ranges ?b)"
    using assms(8) by (auto simp: received_def)
  have "positions ?bs \<subseteq> positions (rb_ranges ?b)" using sub by (auto simp: positions_def)
  then have "positions rs' \<subseteq> positions (rb_ranges ?b)" using u(1) old by blast
  moreover have "positions rs' = positions (rb_ranges ?b) \<and> (fresh \<longleftrightarrow> \<not> positions (rb_ranges ?b) \<subseteq> positions rs)"
    if "length (rb_ranges ?b) \<le> 4"
  proof -
    have "positions ?bs = positions (rb_ranges ?b)" using rep(3) that by (simp add: positions_def MaxSACKBlocks_def)
    then show ?thesis using u old by blast
  qed
  ultimately show ?thesis using rep(1,2) u(1) by (auto simp: report_ok_def MaxSACKBlocks_def)
qed

text \<open>A connection whose buffer holds two ranges, the second of which has just arrived.\<close>

definition demo_held :: receive_buffer where
  "demo_held = \<lparr>nextExpectedSeq = 1, capacity = 100, bufferedBytes = 8, rb_ranges = [block 5 9, block 13 17]\<rparr>"

definition demo_holder :: receive_connection where
  "demo_holder = \<lparr>startedAt = 0, established = True, conn_state = TCPEstablished, peerInitialSeq = 0, sendNextSeq = 1,
     rbuf = demo_held, lastActivity = 0, idleEvent = 0, pendingACKSegmentCount = 0, delayedACKEvent = 0,
     sackPermitted = True, sackRecent = [block 5 9], ecnNegotiated = False, ecnEcho = False, closeStarted = False,
     closeStartedAt = 0, rc_outcome = None, finSent = False, finAcked = False, finSeq = 0, finRetries = 0,
     finTimeouts = 0, finRTO = 0, finEvent = 0, waitEvent = 0, peerFIN = False, peerFINSeq = 0, pendingFIN = False,
     pendingFINSeq = 0\<rparr>"

theorem sack_report_roundtrip_witness:
  "rb_ok demo_held \<and> sackRecent (recordSACKArrival 13 17 demo_holder) = [block 13 17, block 5 9] \<and>
   positions (fst (board_Update 1 20 (sackRecent (recordSACKArrival 13 17 demo_holder)) [])) = {5..<9} \<union> {13..<17}"
proof -
  have ps: "positions (rb_ranges demo_held) = {5..<9} \<union> {13..<17}" by (simp add: demo_held_def)
  have "card ({5..<9} \<union> {13..<17} :: nat set) = 8" by (subst card_Un_disjoint) auto
  then have ok: "rb_ok demo_held" using ps
    by (simp add: rb_ok_def demo_held_def window_end_def windowBytes_def max_u64_def Let_def u16_def) auto
  have bs: "sackRecent (recordSACKArrival 13 17 demo_holder) = [block 13 17, block 5 9]"
    by code_simp
  obtain rs' fresh where u: "board_Update (nextExpectedSeq (rbuf demo_holder)) 20 (sackRecent (recordSACKArrival 13 17 demo_holder)) [] = (rs', fresh)"
    by fastforce
  have "positions rs' = positions (rb_ranges demo_held)"
  proof -
    have h: "rbuf demo_holder = demo_held" "sackPermitted demo_holder" "nextExpectedSeq demo_held = 1"
      "length (rb_ranges demo_held) \<le> 4" by (simp_all add: demo_holder_def demo_held_def)
    have "positions (rb_ranges demo_held) \<subseteq> {..<20}" unfolding ps by auto
    from sack_report_roundtrip [OF _ h(2) board_reach.empty _ _ _ _ _ u] ok this show ?thesis
      unfolding h(1,3) using h(4) by (simp add: max_u64_def)
  qed
  then show ?thesis using u ok bs ps by (simp add: demo_holder_def demo_held_def)
qed

end
