(* ===== verification/Spec2Isabelle.thy ===== *)
theory Spec2Isabelle
  imports HostRun IngressRun Algorithms Rto Policy Scoreboard ReceiveBuffer SendBuffer ServerProps Latency BalancerRun ClientProps SackReport
begin

text \<open>
  A verification development for BalancerGo, a discrete-event simulator of clients, a load
  balancer and servers that talk TCP over modelled links (directory \<open>simulator\<close>).
\<close>

end
